(* ===== verification/Prelude.thy ===== *)
theory Prelude
  imports Main "HOL-Library.Word" "HOL-Library.Log_Nat"
begin

text \<open>
  Shared vocabulary of the development: the type synonyms that name the Rust integer types,
  the result type of fallible operations, clock readings and durations, checked and
  saturating arithmetic on machine words, and the generic lemmas on lists and maps that the
  component theories use.

  Clocks.  \<open>std::time::Instant\<close> and \<open>Duration\<close> are nanosecond counts (\<open>nat\<close>);
  \<open>Instant::duration_since\<close> saturates at zero, as subtraction on \<open>nat\<close> does.
  \<open>chrono::DateTime<Utc>\<close> is a signed nanosecond count (\<open>int\<close>), because the wall clock
  may be set backwards.  Every operation that reads a clock takes the reading as an argument.
\<close>

named_theorems step_defs \<open>definitions of the operations of a component\<close>
named_theorems inv_intros \<open>preservation lemmas of component invariants\<close>
named_theorems frame_simps \<open>fields an operation does not change\<close>

section \<open>Types\<close>

type_synonym u8 = "8 word"
type_synonym u32 = "32 word"
type_synonym u64 = "64 word"
type_synonym instant = nat
type_synonym duration = nat
type_synonym utc = int

text \<open>\<open>Result<T, E>\<close>: \<open>Inl\<close> carries the error.\<close>

type_synonym ('e, 'a) result = "'e + 'a"

definition is_ok :: "('e, 'a) result \<Rightarrow> bool" where
  "is_ok r = (case r of Inl _ \<Rightarrow> False | Inr _ \<Rightarrow> True)"

lemma is_ok_simps [simp]: "is_ok (Inr x)" "\<not> is_ok (Inl e)"
  by (simp_all add: is_ok_def)

lemma is_okE: "is_ok r \<Longrightarrow> (\<And>x. r = Inr x \<Longrightarrow> P) \<Longrightarrow> P"
  by (cases r) auto

section \<open>Durations\<close>

definition from_millis :: "nat \<Rightarrow> duration" where
  "from_millis ms = ms * 1000000"

definition from_secs :: "nat \<Rightarrow> duration" where
  "from_secs s = s * 1000000000"

definition as_millis :: "duration \<Rightarrow> nat" where
  "as_millis d = d div 1000000"

lemma as_millis_from_millis [simp]: "as_millis (from_millis ms) = ms"
  by (simp add: as_millis_def from_millis_def)

text \<open>
  \<open>(now - then).num_milliseconds().max(0) as u64\<close>: whole milliseconds of a signed
  difference, zero when the clock went backwards.  (chrono truncates towards zero, which
  agrees with \<open>div\<close> wherever the result is not clamped to zero.)
\<close>

definition utc_elapsed_ms :: "utc \<Rightarrow> utc \<Rightarrow> nat" where
  "utc_elapsed_ms now before = nat ((now - before) div 1000000)"

lemma utc_elapsed_ms_past [simp]: "now \<le> before \<Longrightarrow> utc_elapsed_ms now before = 0"
  by (simp add: utc_elapsed_ms_def div_nonpos_pos_le0)

lemma utc_elapsed_ms_mono: "a \<le> b \<Longrightarrow> utc_elapsed_ms a t \<le> utc_elapsed_ms b t"
  by (simp add: utc_elapsed_ms_def nat_mono zdiv_mono1)

lemma utc_elapsed_ms_less_iff:
  "ms < utc_elapsed_ms now before \<longleftrightarrow> before + 1000000 * (int ms + 1) \<le> now"
  by (simp add: utc_elapsed_ms_def) linarith

section \<open>Machine words\<close>

definition checked_add :: "'w::len word \<Rightarrow> 'w word \<Rightarrow> 'w word option" where
  "checked_add a b = (if unat a + unat b < 2 ^ LENGTH('w) then Some (a + b) else None)"

lemma checked_add_Some_iff:
  "checked_add a (b::'w::len word) = Some c
     \<longleftrightarrow> unat c = unat a + unat b \<and> unat a + unat b < 2 ^ LENGTH('w)"
  by (auto simp: checked_add_def unat_word_ariths word_unat_eq_iff)

definition saturating_sub :: "'w::len word \<Rightarrow> 'w word \<Rightarrow> 'w word" where
  "saturating_sub a b = (if b \<le> a then a - b else 0)"

lemma unat_saturating_sub: "unat (saturating_sub a b) = unat a - unat b"
  by (auto simp: saturating_sub_def unat_sub_if' word_le_nat_alt)

definition saturating_add :: "'w::len word \<Rightarrow> 'w word \<Rightarrow> 'w word" where
  "saturating_add a b = (if unat a + unat b < 2 ^ LENGTH('w) then a + b else - 1)"

end
