(* ===== verification/Floats.thy ===== *)
theory Floats
  imports Prelude
begin

text \<open>
  IEEE 754 binary arithmetic as Rust's \<open>f32\<close> and \<open>f64\<close> use it: NaN, the two infinities,
  the two zeros and the finite numbers, with round-to-nearest-even after every operation.
  The parameter of the type is the width of the format.  Finite values are rationals, so
  every operation computes.  NaN payloads and the sign of NaN are not modelled (no code of
  the repository reads them).
\<close>

section \<open>Formats and rounding\<close>

text \<open>Precision (in bits), exponent of the smallest subnormal, and the overflow exponent.\<close>

definition prec :: "'f::len itself \<Rightarrow> nat" where
  "prec _ = (if LENGTH('f) \<le> 32 then 24 else 53)"

definition emin :: "'f::len itself \<Rightarrow> int" where
  "emin _ = (if LENGTH('f) \<le> 32 then - 149 else - 1074)"

definition emax :: "'f::len itself \<Rightarrow> int" where
  "emax _ = (if LENGTH('f) \<le> 32 then 128 else 1024)"

lemma prec_pos [simp]: "0 < prec TYPE('f::len)"
  by (simp add: prec_def)

lemma emin_neg: "emin f \<le> 0" and emax_pos: "0 < emax f"
  by (simp_all add: emin_def emax_def)

text \<open>The integer logarithm: the exponent of the binade of a positive rational.\<close>

definition ilog2 :: "rat \<Rightarrow> int" where
  "ilog2 q = (let (n, d) = quotient_of q;
                  k = int (floorlog 2 (nat n)) - int (floorlog 2 (nat d))
              in if 2 powi k \<le> q then k else k - 1)"

lemma ilog2_bounds:
  assumes "0 < q"
  shows "2 powi (ilog2 q) \<le> q" and "q < 2 powi (ilog2 q + 1)"
proof -
  obtain n d where nd: "quotient_of q = (n, d)" by fastforce
  have d: "0 < d" using nd by (rule quotient_of_denom_pos)
  have q: "q = of_int n / of_int d" using nd by (rule quotient_of_div)
  have n: "0 < n" using assms d unfolding q by (simp add: zero_less_divide_iff)
  define a where "a = int (floorlog 2 (nat n)) - 1"
  define b where "b = int (floorlog 2 (nat d)) - 1"
  have fl: "2 powi (int (floorlog 2 x) - 1) \<le> (of_nat x :: rat)
      \<and> (of_nat x :: rat) < 2 powi int (floorlog 2 x)" if "0 < x" for x
  proof -
    have "0 < floorlog 2 x" using that by (simp add: floorlog_def)
    then have e: "int (floorlog 2 x) - 1 = int (floorlog 2 x - 1)" by simp
    have "(2::nat) ^ (floorlog 2 x - 1) \<le> x" "x < 2 ^ floorlog 2 x"
      using floorlog_bounds [of x 2] that by auto
    then have "of_nat (2 ^ (floorlog 2 x - 1)) \<le> (of_nat x :: rat)"
      "(of_nat x :: rat) < of_nat (2 ^ floorlog 2 x)"
      by (simp_all only: of_nat_le_iff of_nat_less_iff)
    then show ?thesis unfolding e by simp
  qed
  have na: "2 powi a \<le> (of_int n :: rat)" "(of_int n :: rat) < 2 powi (a + 1)"
    using fl [of "nat n"] n by (simp_all add: a_def)
  have db: "2 powi b \<le> (of_int d :: rat)" "(of_int d :: rat) < 2 powi (b + 1)"
    using fl [of "nat d"] d by (simp_all add: b_def)
  have pos: "0 < (2 powi i :: rat)" for i by simp
  have k: "int (floorlog 2 (nat n)) - int (floorlog 2 (nat d)) = a - b"
    by (simp add: a_def b_def)
  have up: "q < 2 powi (a - b + 1)"
  proof -
    have "q < 2 powi (a + 1) / of_int d" unfolding q
      using na(2) d by (simp add: divide_strict_right_mono)
    also have "\<dots> \<le> 2 powi (a + 1) / 2 powi b"
      using db(1) pos by (intro divide_left_mono) (auto simp: d)
    also have "\<dots> = 2 powi (a - b + 1)" by (simp add: power_int_diff power_int_add)
    finally show ?thesis .
  qed
  have low: "2 powi (a - b - 1) \<le> q"
  proof -
    have "(2 powi (a - b - 1) :: rat) = 2 powi a / 2 powi (b + 1)"
      by (simp add: power_int_diff power_int_add)
    also have "\<dots> \<le> 2 powi a / of_int d"
      using db(2) pos d by (intro divide_left_mono) auto
    also have "\<dots> \<le> q" unfolding q using na(1) d by (simp add: divide_right_mono)
    finally show ?thesis .
  qed
  have "ilog2 q = (if 2 powi (a - b) \<le> q then a - b else a - b - 1)"
    by (simp add: ilog2_def nd k)
  then show "2 powi (ilog2 q) \<le> q" "q < 2 powi (ilog2 q + 1)"
    using low up by (auto split: if_splits)
qed


lemma ilog2_unique:
  assumes "2 powi k \<le> q" and "q < (2::rat) powi (k + 1)"
  shows "ilog2 q = k"
proof -
  have "(0::rat) < 2 powi k" by simp
  with assms(1) have q: "0 < q" by linarith
  have "\<not> k + 1 \<le> ilog2 q"
  proof
    assume "k + 1 \<le> ilog2 q"
    then have "(2::rat) powi (k + 1) \<le> 2 powi ilog2 q" by (simp add: power_int_increasing)
    with ilog2_bounds(1) [OF q] assms(2) show False by linarith
  qed
  moreover have "\<not> ilog2 q + 1 \<le> k"
  proof
    assume "ilog2 q + 1 \<le> k"
    then have "(2::rat) powi (ilog2 q + 1) \<le> 2 powi k" by (simp add: power_int_increasing)
    with ilog2_bounds(2) [OF q] assms(1) show False by linarith
  qed
  ultimately show ?thesis by simp
qed

lemma ilog2_mono: "0 < x \<Longrightarrow> x \<le> y \<Longrightarrow> ilog2 x \<le> ilog2 y"
proof (rule ccontr)
  assume "0 < x" "x \<le> y" "\<not> ilog2 x \<le> ilog2 y"
  then have "(2::rat) powi (ilog2 y + 1) \<le> 2 powi ilog2 x" by (simp add: power_int_increasing)
  with ilog2_bounds(1) [of x] ilog2_bounds(2) [of y] \<open>0 < x\<close> \<open>x \<le> y\<close> show False by linarith
qed

lemma ilog2_less_powi: "0 < x \<Longrightarrow> x < 2 powi k \<Longrightarrow> ilog2 x < k"
  using ilog2_bounds(1) [of x] power_int_increasing [of k "ilog2 x" "2::rat"]
  by (cases "ilog2 x < k") auto

text \<open>Round to the nearest integer, ties to even.\<close>

definition rne :: "rat \<Rightarrow> int" where
  "rne r = (let f = \<lfloor>r\<rfloor>; d = r - of_int f
            in if d < 1 / 2 then f else if 1 / 2 < d then f + 1
               else if even f then f else f + 1)"

lemma rne_of_int [simp]: "rne (of_int n) = n"
  by (simp add: rne_def)

lemma rne_bounds: "r - 1 / 2 \<le> of_int (rne r)" "of_int (rne r) \<le> r + 1 / 2"
  using floor_correct [of r] by (auto simp: rne_def Let_def; linarith)+

lemma rne_mono: "x \<le> y \<Longrightarrow> rne x \<le> rne y"
proof -
  assume xy: "x \<le> y"
  then have f: "\<lfloor>x\<rfloor> \<le> \<lfloor>y\<rfloor>" by (rule floor_mono)
  show ?thesis
  proof (cases "\<lfloor>x\<rfloor> = \<lfloor>y\<rfloor>")
    case True
    then show ?thesis using xy by (auto simp: rne_def Let_def)
  next
    case False
    with f have "\<lfloor>x\<rfloor> + 1 \<le> \<lfloor>y\<rfloor>" by simp
    moreover have "rne x \<le> \<lfloor>x\<rfloor> + 1" "\<lfloor>y\<rfloor> \<le> rne y" by (simp_all add: rne_def Let_def)
    ultimately show ?thesis by linarith
  qed
qed

lemma rne_minus: "rne (- r) = - rne r"
proof (cases "r = of_int \<lfloor>r\<rfloor>")
  case True
  then obtain n where "r = of_int n" by blast
  then show ?thesis using rne_of_int [of "- n"] by simp
next
  case False
  then have "\<lfloor>- r\<rfloor> = - \<lfloor>r\<rfloor> - 1"
    using floor_correct [of r] by (intro floor_unique) (auto simp: less_le)
  then show ?thesis using False by (auto simp: rne_def Let_def)
qed

text \<open>
  The exponent of the last place of \<open>q\<close> in the format, and rounding with an unbounded
  exponent range above.
\<close>

definition lsb :: "'f::len itself \<Rightarrow> rat \<Rightarrow> int" where
  "lsb f q = max (emin f) (ilog2 \<bar>q\<bar> - (int (prec f) - 1))"

definition rndq :: "'f::len itself \<Rightarrow> rat \<Rightarrow> rat" where
  "rndq f q = (if q = 0 then 0
               else of_int (rne (q / 2 powi lsb f q)) * 2 powi lsb f q)"

lemma rndq_0 [simp]: "rndq f 0 = 0"
  by (simp add: rndq_def)

lemma rndq_minus: "rndq f (- q) = - rndq f q"
  by (simp add: rndq_def lsb_def rne_minus)

lemma rndq_nonneg: "0 \<le> q \<Longrightarrow> 0 \<le> rndq f q"
proof -
  assume "0 \<le> q"
  then have "0 \<le> rne (q / 2 powi lsb f q)"
    using rne_mono [of 0 "q / 2 powi lsb f q"] rne_of_int [of 0] by simp
  then show ?thesis by (simp add: rndq_def)
qed

text \<open>A multiple of the last place is not moved.\<close>

lemma rndq_exact:
  assumes m: "\<bar>m\<bar> < 2 ^ prec f" and e: "emin f \<le> e"
  shows "rndq f (of_int m * 2 powi e) = of_int m * 2 powi e"
proof (cases "m = 0")
  case False
  define x :: rat where "x = of_int m * 2 powi e"
  have x0: "x \<noteq> 0" using False by (simp add: x_def)
  have "\<bar>x\<bar> < 2 powi (int (prec f) + e)"
  proof -
    have "(of_int \<bar>m\<bar> :: rat) < of_int (2 ^ prec f)" using m by (simp only: of_int_less_iff)
    then show ?thesis by (simp add: x_def abs_mult power_int_add)
  qed
  then have "ilog2 \<bar>x\<bar> < int (prec f) + e" using x0 by (intro ilog2_less_powi) auto
  then have "lsb f x \<le> e" using e by (simp add: lsb_def)
  moreover define l where "l = lsb f x"
  ultimately obtain k where k: "e = l + int k" by (metis zle_iff_zadd)
  have eq: "x = of_int (m * 2 ^ k) * 2 powi l" by (simp add: x_def k power_int_add)
  then have "x / 2 powi l = of_int (m * 2 ^ k)" by simp
  then have "rndq f x = of_int (m * 2 ^ k) * 2 powi l"
    using x0 by (simp only: rndq_def rne_of_int if_False l_def)
  also have "\<dots> = x" by (simp only: eq)
  finally show ?thesis by (simp add: x_def)
qed simp

lemma rndq_exact_le:
  assumes m: "\<bar>m\<bar> \<le> 2 ^ prec (f::'f::len itself)" and e: "emin f \<le> e"
  shows "rndq f (of_int m * 2 powi e) = of_int m * 2 powi e"
proof (cases "\<bar>m\<bar> = 2 ^ prec f")
  case False
  with m show ?thesis by (intro rndq_exact e) auto
next
  case True
  obtain p where p: "prec f = Suc p" using prec_pos [where 'f='f] by (cases "prec f") (auto simp: prec_def)
  define m' :: int where "m' = sgn m * 2 ^ p"
  have "m = 2 * m'" using True by (auto simp: m'_def p sgn_if abs_if split: if_splits)
  then have eq: "of_int m * 2 powi e = (of_int m' * 2 powi (e + 1) :: rat)"
    by (simp add: power_int_add)
  have "\<bar>m'\<bar> < 2 ^ prec f" by (simp add: m'_def p abs_mult sgn_if)
  then show ?thesis unfolding eq using e by (intro rndq_exact) auto
qed

lemma rndq_form:
  obtains m e where "rndq f q = of_int m * 2 powi e" "\<bar>m\<bar> \<le> 2 ^ prec f" "emin f \<le> e"
proof (cases "q = 0")
  case True
  then show ?thesis using that [of 0 "emin f"] by simp
next
  case False
  define e where "e = lsb f q"
  define m where "m = rne (q / 2 powi e)"
  have "\<bar>q\<bar> < 2 powi (ilog2 \<bar>q\<bar> + 1)" using False by (intro ilog2_bounds) auto
  also have "(2::rat) powi (ilog2 \<bar>q\<bar> + 1) \<le> 2 powi (int (prec f) + e)"
    by (intro power_int_increasing) (auto simp: e_def lsb_def)
  finally have "\<bar>q / 2 powi e\<bar> < of_int (2 ^ prec f)"
    by (simp add: abs_divide divide_simps power_int_add mult.commute)
  then have "q / 2 powi e \<le> of_int (2 ^ prec f)" "of_int (- (2 ^ prec f)) \<le> q / 2 powi e"
    by (simp_all only: of_int_minus abs_less_iff) linarith+
  then have "m \<le> 2 ^ prec f" "- (2 ^ prec f) \<le> m"
    using rne_mono rne_of_int unfolding m_def by metis+
  then show ?thesis using False that [of m e] by (simp add: rndq_def m_def e_def lsb_def)
qed

lemma rndq_idem [simp]: "rndq f (rndq f q) = rndq f q"
  by (metis rndq_form rndq_exact_le)

text \<open>Evaluation of a rounding at a given binade, and its integer significand.\<close>

lemma rne_near: "\<bar>r - of_int n\<bar> < 1 / 2 \<Longrightarrow> rne r = n"
proof -
  assume a: "\<bar>r - of_int n\<bar> < 1 / 2"
  then have "(of_int n :: rat) < of_int (rne r + 1)" "(of_int (rne r) :: rat) < of_int (n + 1)"
    using rne_bounds [of r] unfolding of_int_add of_int_1 by linarith+
  then show ?thesis by (simp only: of_int_less_iff)
qed

lemma rndq_near:
  assumes "2 powi k \<le> \<bar>q\<bar>" "\<bar>q\<bar> < 2 powi (k + 1)"
    and "e = max (emin f) (k - (int (prec f) - 1))"
    and "\<bar>q / 2 powi e - of_int m\<bar> < 1 / 2"
  shows "rndq f q = of_int m * 2 powi e"
proof -
  have "lsb f q = e" using ilog2_unique [OF assms(1,2)] assms(3) by (simp add: lsb_def)
  moreover have "(0::rat) < 2 powi k" by simp
  then have "q \<noteq> 0" using assms(1) by linarith
  ultimately show ?thesis using rne_near [OF assms(4)] by (simp add: rndq_def)
qed

lemmas fl_eval = power_int_def power_one_over emin_def emax_def prec_def

text \<open>The rounding error is at most half a unit in the last place.\<close>

lemma rndq_error: "\<bar>rndq f q - q\<bar> \<le> 2 powi lsb f q / 2"
proof (cases "q = 0")
  case False
  define u :: rat where "u = 2 powi lsb f q"
  have u: "0 < u" by (simp add: u_def)
  have "\<bar>of_int (rne (q / u)) - q / u\<bar> \<le> 1 / 2"
    using rne_bounds [of "q / u"] unfolding abs_le_iff by linarith
  then have "\<bar>of_int (rne (q / u)) - q / u\<bar> * u \<le> 1 / 2 * u"
    using u by (intro mult_right_mono) auto
  moreover have "\<bar>of_int (rne (q / u)) - q / u\<bar> * u = \<bar>(of_int (rne (q / u)) - q / u) * u\<bar>"
    using u by (simp add: abs_mult)
  moreover have "(of_int (rne (q / u)) - q / u) * u = of_int (rne (q / u)) * u - q"
    using u by (simp add: left_diff_distrib)
  ultimately have "\<bar>of_int (rne (q / u)) * u - q\<bar> \<le> u / 2" by simp
  then show ?thesis using False by (simp add: rndq_def u_def)
qed simp

lemma rndq_error_below:
  assumes "0 < \<bar>q\<bar>" and "\<bar>q\<bar> < 2 powi k" and "emin f \<le> k - int (prec f)"
  shows "\<bar>rndq f q - q\<bar> \<le> 2 powi (k - int (prec f)) / 2"
proof -
  have "ilog2 \<bar>q\<bar> < k" using assms(1,2) by (rule ilog2_less_powi)
  then have "lsb f q \<le> k - int (prec f)" using assms(3) by (simp add: lsb_def)
  then have "(2::rat) powi lsb f q \<le> 2 powi (k - int (prec f))"
    by (simp add: power_int_increasing)
  with rndq_error [of f q] show ?thesis by linarith
qed

text \<open>Rounding does not cross a multiple of the last place.\<close>

lemma rndq_le_multiple:
  assumes "q \<le> of_int n * 2 powi lsb f q"
  shows "rndq f q \<le> of_int n * 2 powi lsb f q"
proof (cases "q = 0")
  case False
  have "q / 2 powi lsb f q \<le> of_int n" using assms by (simp add: divide_simps)
  then have "rne (q / 2 powi lsb f q) \<le> n" by (metis rne_mono rne_of_int)
  then show ?thesis using False by (simp add: rndq_def)
qed (use assms in simp)

lemma rndq_ge_multiple:
  assumes "of_int n * 2 powi lsb f q \<le> q"
  shows "of_int n * 2 powi lsb f q \<le> rndq f q"
proof (cases "q = 0")
  case False
  have "of_int n \<le> q / 2 powi lsb f q" using assms by (simp add: divide_simps)
  then have "n \<le> rne (q / 2 powi lsb f q)" by (metis rne_mono rne_of_int)
  then show ?thesis using False by (simp add: rndq_def)
qed (use assms in simp)

lemma rndq_mono_pos:
  assumes x: "0 < x" and xy: "x \<le> y"
  shows "rndq f x \<le> rndq f y"
proof (cases "lsb f x = lsb f y")
  case True
  then show ?thesis
    using x xy by (auto simp: rndq_def intro!: rne_mono divide_right_mono)
next
  case False
  have y: "0 < y" using x xy by simp
  have p: "1 \<le> int (prec f)" by (simp add: prec_def)
  have lm: "ilog2 x \<le> ilog2 y" using x xy by (simp add: ilog2_mono)
  with False have ll: "ilog2 x < ilog2 y" and bx: "lsb f x \<le> ilog2 y"
    and "by": "lsb f y \<le> ilog2 y"
    using x y p by (auto simp: lsb_def max_def split: if_splits)
  have pw: "(2::rat) powi ilog2 y = of_int (2 ^ nat (ilog2 y - l)) * 2 powi l"
    if "l \<le> ilog2 y" for l
    using that by (simp add: power_int_add [symmetric] flip: power_int_of_nat)
  have "x < 2 powi ilog2 y"
    using ilog2_bounds(2) [OF x] power_int_increasing [of "ilog2 x + 1" "ilog2 y" "2::rat"] ll
    by simp
  then have "rndq f x \<le> 2 powi ilog2 y"
    using rndq_le_multiple [of x "2 ^ nat (ilog2 y - lsb f x)" f] pw [OF bx] by simp
  moreover have "2 powi ilog2 y \<le> rndq f y"
    using rndq_ge_multiple [of "2 ^ nat (ilog2 y - lsb f y)" f y] pw [OF "by"]
      ilog2_bounds(1) [OF y] by simp
  ultimately show ?thesis by simp
qed

lemma rndq_mono: "x \<le> y \<Longrightarrow> rndq f x \<le> rndq f y"
proof -
  assume xy: "x \<le> y"
  consider "0 < x" | "x \<le> 0" "0 \<le> y" | "y < 0" by linarith
  then show ?thesis
  proof cases
    case 1
    then show ?thesis using xy by (rule rndq_mono_pos)
  next
    case 2
    then have "rndq f x \<le> 0" using rndq_nonneg [of "- x" f] by (simp add: rndq_minus)
    also have "0 \<le> rndq f y" using 2 by (simp add: rndq_nonneg)
    finally show ?thesis .
  next
    case 3
    then show ?thesis using rndq_mono_pos [of "- y" "- x" f] xy by (simp add: rndq_minus)
  qed
qed


section \<open>Values\<close>

text \<open>
  \<open>Fin q\<close> is the finite value \<open>q\<close> (\<open>Fin 0\<close> is \<open>+0.0\<close>) and \<open>NZero\<close> is \<open>-0.0\<close>.  A value
  is well formed when its finite number is representable in the format; every operation
  below returns well-formed values.
\<close>

datatype 'f fl = NaN | PInf | NInf | NZero | Fin rat

type_synonym f32 = "32 fl"
type_synonym f64 = "64 fl"

primrec is_nan :: "'f fl \<Rightarrow> bool" where
  "is_nan NaN = True"
| "is_nan PInf = False"
| "is_nan NInf = False"
| "is_nan NZero = False"
| "is_nan (Fin q) = False"

primrec is_finite :: "'f fl \<Rightarrow> bool" where
  "is_finite NaN = False"
| "is_finite PInf = False"
| "is_finite NInf = False"
| "is_finite NZero = True"
| "is_finite (Fin q) = True"

primrec qval :: "'f fl \<Rightarrow> rat" where
  "qval NaN = 0"
| "qval PInf = 0"
| "qval NInf = 0"
| "qval NZero = 0"
| "qval (Fin q) = q"

text \<open>The sign bit (of a value that is not NaN).\<close>

primrec negative :: "'f fl \<Rightarrow> bool" where
  "negative NaN = False"
| "negative PInf = False"
| "negative NInf = True"
| "negative NZero = True"
| "negative (Fin q) = (q < 0)"

definition representable :: "'f::len itself \<Rightarrow> rat \<Rightarrow> bool" where
  "representable f q \<longleftrightarrow> rndq f q = q \<and> \<bar>q\<bar> < 2 powi emax f"

primrec wf_fl :: "'f::len fl \<Rightarrow> bool" where
  "wf_fl NaN = True"
| "wf_fl PInf = True"
| "wf_fl NInf = True"
| "wf_fl NZero = True"
| "wf_fl (Fin q) = representable TYPE('f) q"

lemma finite_not_nan: "is_finite x \<Longrightarrow> \<not> is_nan x"
  by (cases x) auto

text \<open>Rounding of an exact rational result.\<close>

definition rnd :: "rat \<Rightarrow> 'f::len fl" where
  "rnd q = (let r = rndq TYPE('f) q
            in if 2 powi emax TYPE('f) \<le> r then PInf
               else if r \<le> - (2 powi emax TYPE('f)) then NInf
               else if r = 0 \<and> q < 0 then NZero
               else Fin r)"

lemma rnd_0 [simp]: "rnd 0 = Fin 0"
  by (simp add: rnd_def not_le)

lemma rnd_not_nan [simp]: "\<not> is_nan (rnd q)" "rnd q \<noteq> NaN"
  by (simp_all add: rnd_def Let_def)

lemma wf_rnd [simp]: "wf_fl (rnd q)"
  by (auto simp: rnd_def Let_def representable_def abs_less_iff)

lemma rnd_representable: "representable TYPE('f) q \<Longrightarrow> rnd q = (Fin q :: 'f::len fl)"
  by (auto simp: rnd_def Let_def representable_def abs_less_iff)

lemma representable_scaled:
  assumes "\<bar>m\<bar> \<le> 2 ^ prec f" and "emin f \<le> e" and "\<bar>of_int m * 2 powi e\<bar> < (2::rat) powi emax f"
  shows "representable f (of_int m * 2 powi e)"
  using assms by (simp add: representable_def rndq_exact_le)

lemma representable_minus: "representable f q \<Longrightarrow> representable f (- q)"
  by (simp add: representable_def rndq_minus)

text \<open>Small integers and small multiples of a half are exact in both formats.\<close>

lemma representable_int:
  assumes "\<bar>n\<bar> \<le> 16777216" shows "representable TYPE('f::len) (of_int n)"
proof -
  have le: "\<bar>n\<bar> \<le> 2 ^ prec TYPE('f)" using assms by (simp add: prec_def)
  have "(of_int \<bar>n\<bar> :: rat) \<le> of_int 16777216" using assms by (simp only: of_int_le_iff)
  also have "\<dots> < 2 powi 128" by (simp add: power_int_def)
  also have "(2::rat) powi 128 \<le> 2 powi emax TYPE('f)"
    by (intro power_int_increasing) (auto simp: emax_def)
  finally have "\<bar>of_int n :: rat\<bar> < 2 powi emax TYPE('f)" by simp
  then show ?thesis using representable_scaled [OF le emin_neg] by simp
qed

lemma representable_nat: "n \<le> 16777216 \<Longrightarrow> representable TYPE('f::len) (of_nat n)"
  using representable_int [of "int n", where 'f='f] by simp

lemma representable_nat_prec:
  assumes "n \<le> 2 ^ prec f" shows "representable f (of_nat n)"
proof -
  have le: "\<bar>int n\<bar> \<le> 2 ^ prec f" using assms by (metis abs_of_nat of_nat_le_iff of_nat_numeral of_nat_power)
  have "(of_nat n :: rat) \<le> of_nat (2 ^ prec f)" using assms by (simp only: of_nat_le_iff)
  also have "\<dots> = 2 powi int (prec f)" by simp
  also have "\<dots> < 2 powi emax f"
    by (intro power_int_strict_increasing) (auto simp: prec_def emax_def)
  finally have "\<bar>of_int (int n) * 2 powi 0 :: rat\<bar> < 2 powi emax f" by simp
  from representable_scaled [OF le emin_neg this] show ?thesis by simp
qed

lemma representable_half_int:
  assumes "\<bar>n\<bar> \<le> 16777216" shows "representable TYPE('f::len) (of_int n / 2)"
proof -
  have le: "\<bar>n\<bar> \<le> 2 ^ prec TYPE('f)" using assms by (simp add: prec_def)
  have e: "emin TYPE('f) \<le> - 1" by (simp add: emin_def)
  have h: "of_int n * (2::rat) powi (- 1) = of_int n / 2" by (simp add: power_int_def)
  have "\<bar>of_int n / 2 :: rat\<bar> \<le> \<bar>of_int n\<bar>" by simp
  also have "\<dots> < 2 powi emax TYPE('f)"
    using representable_int [OF assms, where 'f='f] by (simp add: representable_def)
  finally show ?thesis using representable_scaled [OF le e] unfolding h by simp
qed

section \<open>Comparison\<close>

text \<open>
  \<open>\<le>\<close> and \<open><\<close> are IEEE comparisons: false as soon as an operand is NaN, and \<open>-0.0\<close> equals
  \<open>+0.0\<close>.  \<open>feq\<close> is Rust's \<open>==\<close>.
\<close>

instantiation fl :: (len) ord
begin

definition less_eq_fl :: "'a fl \<Rightarrow> 'a fl \<Rightarrow> bool" where
  "less_eq_fl a b = (case a of NaN \<Rightarrow> False
     | NInf \<Rightarrow> \<not> is_nan b
     | PInf \<Rightarrow> b = PInf
     | _ \<Rightarrow> (case b of NaN \<Rightarrow> False | NInf \<Rightarrow> False | PInf \<Rightarrow> True | _ \<Rightarrow> qval a \<le> qval b))"

definition less_fl :: "'a fl \<Rightarrow> 'a fl \<Rightarrow> bool" where
  "less_fl a b = (\<not> is_nan a \<and> \<not> is_nan b \<and> \<not> b \<le> a)"

instance ..

end

definition feq :: "'f::len fl \<Rightarrow> 'f fl \<Rightarrow> bool" where
  "feq a b = (a \<le> b \<and> b \<le> a)"

lemma fl_le_simps [simp]:
  "\<not> (NaN \<le> b)" "\<not> (a \<le> (NaN::'f::len fl))"
  "(Fin p \<le> (Fin q::'f fl)) = (p \<le> q)" "(Fin p \<le> (NZero::'f fl)) = (p \<le> 0)"
  "((NZero::'f fl) \<le> Fin q) = (0 \<le> q)" "(NZero::'f fl) \<le> NZero"
  "(NInf::'f fl) \<le> Fin q" "(NInf::'f fl) \<le> NZero" "(NInf::'f fl) \<le> NInf" "(NInf::'f fl) \<le> PInf"
  "Fin p \<le> (PInf::'f fl)" "(NZero::'f fl) \<le> PInf" "(PInf::'f fl) \<le> PInf"
  "\<not> (PInf::'f fl) \<le> Fin q" "\<not> (PInf::'f fl) \<le> NZero" "\<not> (PInf::'f fl) \<le> NInf"
  "\<not> Fin p \<le> (NInf::'f fl)" "\<not> (NZero::'f fl) \<le> NInf"
  by (auto simp: less_eq_fl_def split: fl.splits)

lemma fl_less_iff: "a < (b::'f::len fl) \<longleftrightarrow> \<not> is_nan a \<and> \<not> is_nan b \<and> \<not> b \<le> a"
  by (simp add: less_fl_def)

lemma fl_less_simps [simp]:
  "\<not> (NaN < b)" "\<not> (a < (NaN::'f::len fl))"
  "(Fin p < (Fin q::'f fl)) = (p < q)" "(Fin p < (NZero::'f fl)) = (p < 0)"
  "((NZero::'f fl) < Fin q) = (0 < q)" "\<not> (NZero::'f fl) < NZero"
  "(NInf::'f fl) < Fin q" "(NInf::'f fl) < NZero" "\<not> (NInf::'f fl) < NInf" "(NInf::'f fl) < PInf"
  "Fin p < (PInf::'f fl)" "(NZero::'f fl) < PInf" "\<not> (PInf::'f fl) < b" "\<not> a < (NInf::'f fl)"
  by (cases a; cases b; auto simp: fl_less_iff)+

lemma fl_le_trans: "a \<le> b \<Longrightarrow> b \<le> c \<Longrightarrow> a \<le> (c::'f::len fl)"
  by (cases a; cases b; cases c) auto

lemma fl_le_refl [simp]: "(a \<le> a) = (\<not> is_nan (a::'f::len fl))"
  by (cases a) auto

lemma fl_less_le_trans: "a < b \<Longrightarrow> b \<le> c \<Longrightarrow> a < (c::'f::len fl)"
  by (cases a; cases b; cases c) auto

lemma fl_le_less_trans: "a \<le> b \<Longrightarrow> b < c \<Longrightarrow> a < (c::'f::len fl)"
  by (cases a; cases b; cases c) auto

lemma fl_less_imp_le: "a < b \<Longrightarrow> a \<le> (b::'f::len fl)"
  by (cases a; cases b) auto

lemma fl_less_irrefl [simp]: "\<not> a < (a::'f::len fl)"
  by (cases a) auto

lemma fl_linear: "\<not> is_nan a \<Longrightarrow> \<not> is_nan b \<Longrightarrow> a \<le> b \<or> b < (a::'f::len fl)"
  by (auto simp: fl_less_iff)

lemma fl_not_less: "\<not> is_nan a \<Longrightarrow> \<not> is_nan b \<Longrightarrow> (\<not> a < b) = (b \<le> (a::'f::len fl))"
  by (auto simp: fl_less_iff)

lemma fl_le_not_nan: "a \<le> (b::'f::len fl) \<Longrightarrow> \<not> is_nan a \<and> \<not> is_nan b"
  by (cases a; cases b) auto

lemma fl_less_not_nan: "a < (b::'f::len fl) \<Longrightarrow> \<not> is_nan a \<and> \<not> is_nan b"
  by (simp add: fl_less_iff)

lemma feq_refl [simp]: "feq a a = (\<not> is_nan (a::'f::len fl))"
  by (simp add: feq_def)

lemma rnd_mono: "p \<le> q \<Longrightarrow> rnd p \<le> (rnd q :: 'f::len fl)"
proof -
  assume pq: "p \<le> q"
  then have "rndq TYPE('f) p \<le> rndq TYPE('f) q" by (rule rndq_mono)
  moreover have "(0::rat) < 2 powi emax TYPE('f)" by simp
  ultimately show ?thesis using pq by (auto simp: rnd_def Let_def)
qed

lemma rnd_le_representable:
  "q \<le> r \<Longrightarrow> representable TYPE('f) r \<Longrightarrow> rnd q \<le> (Fin r :: 'f::len fl)"
  using rnd_mono [of q r, where 'f='f] by (simp add: rnd_representable)

lemma rnd_ge_representable:
  "r \<le> q \<Longrightarrow> representable TYPE('f) r \<Longrightarrow> (Fin r :: 'f::len fl) \<le> rnd q"
  using rnd_mono [of r q, where 'f='f] by (simp add: rnd_representable)


section \<open>Arithmetic\<close>

definition signed_zero :: "bool \<Rightarrow> 'f fl" where
  "signed_zero neg = (if neg then NZero else Fin 0)"

definition signed_inf :: "bool \<Rightarrow> 'f fl" where
  "signed_inf neg = (if neg then NInf else PInf)"

instantiation fl :: (len) "{zero, one, uminus, plus, minus, times, inverse, abs}"
begin

definition zero_fl :: "'a fl" where
  "zero_fl = Fin 0"

definition one_fl :: "'a fl" where
  "one_fl = Fin 1"

definition uminus_fl :: "'a fl \<Rightarrow> 'a fl" where
  "uminus_fl a = (case a of NaN \<Rightarrow> NaN | PInf \<Rightarrow> NInf | NInf \<Rightarrow> PInf | NZero \<Rightarrow> Fin 0
     | Fin q \<Rightarrow> if q = 0 then NZero else Fin (- q))"

definition plus_fl :: "'a fl \<Rightarrow> 'a fl \<Rightarrow> 'a fl" where
  "plus_fl a b =
    (if is_nan a \<or> is_nan b then NaN
     else if \<not> is_finite a \<and> \<not> is_finite b then (if a = b then a else NaN)
     else if \<not> is_finite a then a
     else if \<not> is_finite b then b
     else if a = NZero \<and> b = NZero then NZero
     else rnd (qval a + qval b))"

definition minus_fl :: "'a fl \<Rightarrow> 'a fl \<Rightarrow> 'a fl" where
  "minus_fl a b = a + (- b)"

definition times_fl :: "'a fl \<Rightarrow> 'a fl \<Rightarrow> 'a fl" where
  "times_fl a b =
    (let neg = (negative a \<noteq> negative b)
     in if is_nan a \<or> is_nan b then NaN
        else if \<not> is_finite a \<or> \<not> is_finite b
          then (if is_finite a \<and> qval a = 0 \<or> is_finite b \<and> qval b = 0
                then NaN else signed_inf neg)
        else if qval a = 0 \<or> qval b = 0 then signed_zero neg
        else rnd (qval a * qval b))"

definition divide_fl :: "'a fl \<Rightarrow> 'a fl \<Rightarrow> 'a fl" where
  "divide_fl a b =
    (let neg = (negative a \<noteq> negative b)
     in if is_nan a \<or> is_nan b then NaN
        else if \<not> is_finite a then (if is_finite b then signed_inf neg else NaN)
        else if \<not> is_finite b then signed_zero neg
        else if qval b = 0 then (if qval a = 0 then NaN else signed_inf neg)
        else if qval a = 0 then signed_zero neg
        else rnd (qval a / qval b))"

definition inverse_fl :: "'a fl \<Rightarrow> 'a fl" where
  "inverse_fl a = (Fin 1 :: 'a fl) div a"

definition abs_fl :: "'a fl \<Rightarrow> 'a fl" where
  "abs_fl a = (if negative a then - a else a)"

instance ..

end

section \<open>The library operations the code uses\<close>

text \<open>A literal: the decimal, rounded to the format.\<close>

definition lit :: "rat \<Rightarrow> 'f::len fl" where
  "lit q = rnd q"

text \<open>\<open>signum\<close> is \<open>1.0\<close> or \<open>-1.0\<close> by the sign bit, also on zeros.\<close>

definition signum :: "'f::len fl \<Rightarrow> 'f fl" where
  "signum a = (if is_nan a then NaN else if negative a then Fin (- 1) else Fin 1)"

text \<open>\<open>max\<close> and \<open>min\<close> ignore a NaN operand.\<close>

definition fmax :: "'f::len fl \<Rightarrow> 'f fl \<Rightarrow> 'f fl" where
  "fmax a b = (if is_nan a then b else if is_nan b then a else if a < b then b else a)"

definition fmin :: "'f::len fl \<Rightarrow> 'f fl \<Rightarrow> 'f fl" where
  "fmin a b = (if is_nan a then b else if is_nan b then a else if b < a then b else a)"

text \<open>\<open>clamp\<close> panics (\<open>None\<close>) unless \<open>lo \<le> hi\<close>; NaN stays NaN.\<close>

definition clamp :: "'f::len fl \<Rightarrow> 'f fl \<Rightarrow> 'f fl \<Rightarrow> 'f fl option" where
  "clamp x lo hi = (if lo \<le> hi then Some (if x < lo then lo else if hi < x then hi else x)
                    else None)"

text \<open>
  The square root, correctly rounded: the integer square root of the scaled argument has at
  least 64 bits, and a half is added to it when the root is not exact, which decides every
  rounding to 53 bits or fewer.  \<open>-0.0\<close> is its own root.
\<close>

fun isqrt :: "nat \<Rightarrow> nat" where
  "isqrt n =
    (if n = 0 then 0
     else let r = 2 * isqrt (n div 4) in if (r + 1) * (r + 1) \<le> n then r + 1 else r)"

declare isqrt.simps [simp del]

lemma isqrt_0 [simp]: "isqrt 0 = 0"
  by (simp add: isqrt.simps)

lemma isqrt_bounds: "isqrt n * isqrt n \<le> n \<and> n < (isqrt n + 1) * (isqrt n + 1)"
proof (induction n rule: isqrt.induct)
  case (1 n)
  show ?case
  proof (cases "n = 0")
    case False
    define q where "q = isqrt (n div 4)"
    have ih: "q * q \<le> n div 4" "n div 4 < (q + 1) * (q + 1)"
      using 1 False by (simp_all add: q_def)
    have lo: "(2 * q) * (2 * q) \<le> n" using ih(1) by linarith
    have "n < 4 * ((q + 1) * (q + 1))" using ih(2) by linarith
    then have hi: "n < (2 * q + 1 + 1) * (2 * q + 1 + 1)" by (simp add: algebra_simps)
    show ?thesis using lo hi False by (simp add: isqrt.simps [of n] Let_def flip: q_def)
  qed simp
qed

definition sqrt_scaled :: "rat \<Rightarrow> rat \<times> int" where
  "sqrt_scaled q =
    (let k = 64 - ilog2 q div 2;
         x = q * 4 powi k;
         s = isqrt (nat \<lfloor>x\<rfloor>)
     in (if of_nat (s * s) = x then of_nat s else of_nat s + 1 / 2, k))"

definition fl_sqrt :: "'f::len fl \<Rightarrow> 'f fl" where
  "fl_sqrt a = (case a of NaN \<Rightarrow> NaN | PInf \<Rightarrow> PInf | NInf \<Rightarrow> NaN | NZero \<Rightarrow> NZero
     | Fin q \<Rightarrow> if q < 0 then NaN else if q = 0 then Fin 0
         else case sqrt_scaled q of (s, k) \<Rightarrow> rnd (s * 2 powi (- k)))"

lemma fl_sqrt_simps [simp]:
  "fl_sqrt NaN = NaN" "fl_sqrt PInf = PInf" "fl_sqrt NInf = NaN" "fl_sqrt NZero = NZero"
  "fl_sqrt (Fin 0) = Fin 0"
  by (simp_all add: fl_sqrt_def)

lemma fl_sqrt_nonneg: "is_nan (fl_sqrt a) \<or> Fin 0 \<le> (fl_sqrt a :: 'f::len fl)"
proof (cases a)
  case (Fin q)
  have "representable TYPE('f) 0" by (simp add: representable_def)
  then show ?thesis
    using Fin by (auto simp: fl_sqrt_def sqrt_scaled_def Let_def split: prod.splits
        intro!: rnd_ge_representable)
qed simp_all

text \<open>Conversions: integers to floats, \<open>f32 as f64\<close>, \<open>f64 as f32\<close>.\<close>

definition fl_of_nat :: "nat \<Rightarrow> 'f::len fl" where
  "fl_of_nat n = rnd (of_nat n)"

definition fl_of_int :: "int \<Rightarrow> 'f::len fl" where
  "fl_of_int n = rnd (of_int n)"

definition f64_of_f32 :: "f32 \<Rightarrow> f64" where
  "f64_of_f32 x = (case x of NaN \<Rightarrow> NaN | PInf \<Rightarrow> PInf | NInf \<Rightarrow> NInf | NZero \<Rightarrow> NZero
     | Fin q \<Rightarrow> Fin q)"

definition f32_of_f64 :: "f64 \<Rightarrow> f32" where
  "f32_of_f64 x = (case x of NaN \<Rightarrow> NaN | PInf \<Rightarrow> PInf | NInf \<Rightarrow> NInf | NZero \<Rightarrow> NZero
     | Fin q \<Rightarrow> rnd q)"

text \<open>Truncation towards zero, and the saturating cast \<open>as u32\<close> (NaN becomes 0).\<close>

definition truncq :: "rat \<Rightarrow> int" where
  "truncq q = (if 0 \<le> q then \<lfloor>q\<rfloor> else \<lceil>q\<rceil>)"

definition as_u32 :: "'f fl \<Rightarrow> u32" where
  "as_u32 x = (case x of NaN \<Rightarrow> 0 | PInf \<Rightarrow> - 1 | NInf \<Rightarrow> 0 | NZero \<Rightarrow> 0
     | Fin q \<Rightarrow> word_of_int (max 0 (min (2 ^ 32 - 1) (truncq q))))"

text \<open>\<open>Duration::as_secs_f32\<close>.\<close>

definition as_secs_f32 :: "duration \<Rightarrow> f32" where
  "as_secs_f32 d = fl_of_nat (d div 1000000000) + fl_of_nat (d mod 1000000000) / fl_of_nat 1000000000"

text \<open>
  \<open>to_radians\<close> and \<open>to_degrees\<close> of the standard library: multiplication by a constant of
  the format (\<open>f64::to_degrees\<close> multiplies by \<open>180 / PI\<close>).
\<close>

definition pi_rat :: rat where
  "pi_rat = 314159265358979323846264338327950288 / 100000000000000000000000000000000000"

definition f32_to_radians :: "f32 \<Rightarrow> f32" where
  "f32_to_radians x = x * (lit pi_rat / lit 180)"

definition f64_to_radians :: "f64 \<Rightarrow> f64" where
  "f64_to_radians x = x * (lit pi_rat / lit 180)"

definition f32_to_degrees :: "f32 \<Rightarrow> f32" where
  "f32_to_degrees x = x * lit (572957795130823208767981548141051703
                               / 10000000000000000000000000000000000)"

section \<open>Algebra of the operations\<close>

lemma is_nan_iff: "is_nan x \<longleftrightarrow> x = NaN"
  by (cases x) auto

lemma wf_uminus [simp]: "wf_fl (- x) = wf_fl (x::'f::len fl)"
  using representable_minus [of "TYPE('f)"]
  by (cases x) (auto simp: uminus_fl_def representable_def rndq_minus)

lemma is_nan_uminus [simp]: "is_nan (- x) = is_nan (x::'f::len fl)"
  by (cases x) (auto simp: uminus_fl_def)

lemma uminus_uminus [simp]: "- (- x) = (x::'f::len fl)"
  by (cases x) (auto simp: uminus_fl_def)

lemma uminus_le_iff: "(- x \<le> - y) = (y \<le> (x::'f::len fl))"
  by (cases x; cases y) (auto simp: uminus_fl_def)

lemma uminus_less_iff: "(- x < - y) = (y < (x::'f::len fl))"
  by (cases x; cases y) (auto simp: uminus_fl_def)

lemma is_nan_abs [simp]: "is_nan \<bar>x\<bar> = is_nan (x::'f::len fl)"
  by (simp add: abs_fl_def)

lemma wf_abs [simp]: "wf_fl \<bar>x\<bar> = wf_fl (x::'f::len fl)"
  by (simp add: abs_fl_def)

lemma abs_le_iff_fl: "(\<bar>x\<bar> \<le> b) = (- b \<le> x \<and> x \<le> (b::'f::len fl))"
  by (cases x; cases b) (auto simp: abs_fl_def uminus_fl_def)

lemma abs_less_iff_fl: "(\<bar>x\<bar> < b) = (- b < x \<and> x < (b::'f::len fl))"
  by (cases x; cases b) (auto simp: abs_fl_def uminus_fl_def)

lemma abs_nonneg_fl: "\<not> is_nan x \<Longrightarrow> 0 \<le> \<bar>x::'f::len fl\<bar>"
  by (cases x) (auto simp: abs_fl_def uminus_fl_def zero_fl_def)

lemma nan_times [simp]: "NaN * x = (NaN::'f::len fl)" "x * NaN = (NaN::'f::len fl)"
  by (simp_all add: times_fl_def Let_def)

lemma nan_plus [simp]: "NaN + x = (NaN::'f::len fl)" "x + NaN = (NaN::'f::len fl)"
  by (simp_all add: plus_fl_def)

lemma nan_uminus [simp]: "- NaN = (NaN::'f::len fl)"
  by (simp add: uminus_fl_def)

lemma nan_minus [simp]: "NaN - x = (NaN::'f::len fl)" "x - NaN = (NaN::'f::len fl)"
  by (simp_all add: minus_fl_def)

lemma nan_divide [simp]: "NaN div x = (NaN::'f::len fl)" "x div NaN = (NaN::'f::len fl)"
  by (simp_all add: divide_fl_def Let_def)

lemma nan_abs [simp]: "\<bar>NaN\<bar> = (NaN::'f::len fl)"
  by (simp add: abs_fl_def)

lemma wf_signed [simp]: "wf_fl (signed_zero s :: 'f::len fl)" "wf_fl (signed_inf s :: 'f fl)"
  using representable_int [of 0, where 'f='f] by (simp_all add: signed_zero_def signed_inf_def)

lemma wf_times [simp]: "wf_fl (x * (y::'f::len fl))"
  by (simp add: times_fl_def Let_def)

lemma wf_divide [simp]: "wf_fl (x div (y::'f::len fl))"
  by (simp add: divide_fl_def Let_def)

lemma wf_plus [simp]: "wf_fl x \<Longrightarrow> wf_fl y \<Longrightarrow> wf_fl (x + (y::'f::len fl))"
  by (simp add: plus_fl_def)

lemma wf_minus [simp]: "wf_fl x \<Longrightarrow> wf_fl y \<Longrightarrow> wf_fl (x - (y::'f::len fl))"
  by (simp add: minus_fl_def)

lemma wf_lit [simp]: "wf_fl (lit q)"
  by (simp add: lit_def)

lemma clampD:
  assumes "clamp x lo hi = Some y"
  shows "lo \<le> (hi::'f::len fl)" and "\<not> is_nan x \<Longrightarrow> lo \<le> y \<and> y \<le> hi" and "is_nan x \<Longrightarrow> y = x"
    and "lo \<le> x \<Longrightarrow> x \<le> hi \<Longrightarrow> y = x"
  using assms fl_le_not_nan [of lo hi]
  by (auto simp: clamp_def is_nan_iff fl_less_iff split: if_splits)

lemma clamp_total: "lo \<le> hi \<Longrightarrow> \<exists>y. clamp x lo hi = Some y"
  by (simp add: clamp_def)

section \<open>Bounds\<close>

lemma rnd_wf_id: "wf_fl (Fin q :: 'f::len fl) \<Longrightarrow> rnd q = (Fin q :: 'f fl)"
  by (simp add: rnd_representable)

text \<open>Multiplying a limit by a sign gives the limit or its negation, exactly.\<close>

lemma signum_times:
  assumes "wf_fl m" and "0 \<le> (m::'f::len fl)" and "\<not> is_nan x"
  shows "\<bar>signum x * m\<bar> \<le> m"
proof (cases m)
  case (Fin q)
  then have q: "0 \<le> q" using assms(2) by (simp add: zero_fl_def)
  have rq: "rnd q = (Fin q :: 'f fl)" "rnd (- q) = (Fin (- q) :: 'f fl)"
    using assms(1) Fin representable_minus by (auto intro: rnd_representable)
  show ?thesis
    using assms(3) q rq Fin
    by (auto simp: signum_def times_fl_def Let_def abs_fl_def uminus_fl_def signed_zero_def)
qed (use assms in \<open>auto simp: zero_fl_def signum_def times_fl_def Let_def abs_fl_def
  uminus_fl_def signed_zero_def signed_inf_def\<close>)

text \<open>A factor in \<open>[-1, 1]\<close> does not enlarge a finite value, rounding included.\<close>

lemma times_unit_bound:
  assumes "wf_fl (Fin h :: 'f::len fl)" and "0 \<le> h" and "\<bar>x\<bar> \<le> Fin 1"
  shows "\<bar>x * Fin h\<bar> \<le> (Fin h :: 'f fl)"
proof -
  have rep: "representable TYPE('f) h" "representable TYPE('f) (- h)"
    using assms(1) representable_minus by auto
  show ?thesis
  proof (cases x)
    case (Fin q)
    then have q: "- 1 \<le> q" "q \<le> 1" using assms(3) by (auto simp: abs_le_iff_fl uminus_fl_def)
    have hi: "q * h \<le> h" using mult_right_mono [OF q(2) assms(2)] by simp
    have lo: "- h \<le> q * h" using mult_right_mono [OF q(1) assms(2)] by simp
    have "rnd (q * h) \<le> (Fin h :: 'f fl)" "(Fin (- h) :: 'f fl) \<le> rnd (q * h)"
      using rnd_le_representable [OF hi rep(1)] rnd_ge_representable [OF lo rep(2)] by auto
    then have "\<bar>rnd (q * h)\<bar> \<le> (Fin h :: 'f fl)"
      by (auto simp: abs_le_iff_fl uminus_fl_def)
    then show ?thesis using Fin assms(2)
      by (auto simp: times_fl_def Let_def signed_zero_def abs_fl_def uminus_fl_def)
  qed (use assms in \<open>auto simp: times_fl_def Let_def signed_zero_def abs_fl_def uminus_fl_def\<close>)
qed

end
