(* ===== verification/Pid.thy ===== *)
theory Pid
  imports Floats Prelude
begin

text \<open>
  \<open>crates/commander/src/pid.rs\<close>: the PID controller with deadband, integral limit, filtered
  derivative and back-calculation on saturation.  \<open>f32::clamp\<close> panics when its limits are
  not ordered, so \<open>pid_update\<close> returns an option (\<open>None\<close> is the panic).
\<close>

section \<open>The controller\<close>

record pid_config =
  kp :: f32
  ki :: f32
  kd :: f32
  max_output :: f32
  min_output :: f32
  deadband :: f32
  integral_limit :: f32
  derivative_filter :: f32

definition pid_config_default :: pid_config where
  "pid_config_default = \<lparr>
     kp = lit 2,
     ki = lit (5 / 10),
     kd = lit (1 / 10),
     max_output = lit 30,
     min_output = lit (- 30),
     deadband = lit (2 / 100),
     integral_limit = lit 15,
     derivative_filter = lit (3 / 10)\<rparr>"

record pid_controller =
  pid_cfg :: pid_config
  integral :: f32
  prev_error :: f32
  filtered_derivative :: f32
  initialized :: bool

definition pid_with_config :: "pid_config \<Rightarrow> pid_controller" where
  "pid_with_config cfg = \<lparr>pid_cfg = cfg, integral = Fin 0, prev_error = Fin 0,
     filtered_derivative = Fin 0, initialized = False\<rparr>"

definition pid_new :: "f32 \<Rightarrow> f32 \<Rightarrow> f32 \<Rightarrow> pid_controller" where
  "pid_new p i d = \<lparr>pid_cfg = pid_config_default\<lparr>kp := p, ki := i, kd := d\<rparr>,
     integral = Fin 0, prev_error = Fin 0, filtered_derivative = Fin 0, initialized = False\<rparr>"

definition with_limits :: "f32 \<Rightarrow> f32 \<Rightarrow> pid_controller \<Rightarrow> pid_controller" where
  "with_limits lo hi pid =
     pid\<lparr>pid_cfg := (pid_cfg pid)\<lparr>min_output := lo, max_output := hi\<rparr>\<rparr>"

definition with_deadband :: "f32 \<Rightarrow> pid_controller \<Rightarrow> pid_controller" where
  "with_deadband x pid = pid\<lparr>pid_cfg := (pid_cfg pid)\<lparr>deadband := x\<rparr>\<rparr>"

definition with_anti_windup :: "f32 \<Rightarrow> pid_controller \<Rightarrow> pid_controller" where
  "with_anti_windup limit pid = pid\<lparr>pid_cfg := (pid_cfg pid)\<lparr>integral_limit := limit\<rparr>\<rparr>"

text \<open>
  The tail of \<open>update\<close>: the output is clamped, and a saturated output is taken back from the
  integral.  \<open>clamped != output\<close> also holds when the output is NaN.
\<close>

definition pid_saturate :: "pid_controller \<Rightarrow> f32 \<Rightarrow> (f32 \<times> pid_controller) option" where
  "pid_saturate pid output =
    map_option (\<lambda>clamped.
        if \<not> feq clamped output
        then (clamped, pid\<lparr>integral := integral pid
                - (output - clamped) / fmax (ki (pid_cfg pid)) (lit (1 / 1000000))\<rparr>)
        else (output, pid))
      (clamp output (min_output (pid_cfg pid)) (max_output (pid_cfg pid)))"

text \<open>The smoothed derivative.\<close>

definition pid_filtered :: "pid_controller \<Rightarrow> f32 \<Rightarrow> f32 \<Rightarrow> f32" where
  "pid_filtered pid error dt =
    (let derivative = (if initialized pid then (error - prev_error pid) / dt else Fin 0);
         alpha = Fin 1 - derivative_filter (pid_cfg pid)
     in alpha * derivative + (Fin 1 - alpha) * filtered_derivative pid)"

definition pid_update ::
  "pid_controller \<Rightarrow> f32 \<Rightarrow> f32 \<Rightarrow> (f32 \<times> pid_controller) option" where
  "pid_update pid error dt =
    (if dt \<le> Fin 0 then Some (Fin 0, pid)
     else if \<bar>error\<bar> < deadband (pid_cfg pid)
       then Some (Fin 0, pid\<lparr>integral := integral pid * lit (9 / 10)\<rparr>)
     else
       let p = kp (pid_cfg pid) * error
       in case clamp (integral pid + error * dt)
                 (- integral_limit (pid_cfg pid)) (integral_limit (pid_cfg pid)) of
            None \<Rightarrow> None
          | Some integ \<Rightarrow>
              let i = ki (pid_cfg pid) * integ;
                  filtered = pid_filtered pid error dt;
                  d = kd (pid_cfg pid) * filtered
              in pid_saturate (pid\<lparr>integral := integ, filtered_derivative := filtered,
                     prev_error := error, initialized := True\<rparr>) (p + i + d))"

definition pid_reset :: "pid_controller \<Rightarrow> pid_controller" where
  "pid_reset pid = pid\<lparr>integral := Fin 0, prev_error := Fin 0, filtered_derivative := Fin 0,
     initialized := False\<rparr>"

record pid_pair =
  pp_yaw :: pid_controller
  pp_pitch :: pid_controller

definition pid_pair_update ::
  "pid_pair \<Rightarrow> f32 \<Rightarrow> f32 \<Rightarrow> f32 \<Rightarrow> ((f32 \<times> f32) \<times> pid_pair) option" where
  "pid_pair_update pp error_x error_y dt =
    (case pid_update (pp_yaw pp) error_x dt of
       None \<Rightarrow> None
     | Some (yaw_rate, yaw) \<Rightarrow>
         (case pid_update (pp_pitch pp) error_y dt of
            None \<Rightarrow> None
          | Some (pitch_rate, pitch) \<Rightarrow>
              Some ((yaw_rate, pitch_rate), \<lparr>pp_yaw = yaw, pp_pitch = pitch\<rparr>)))"

definition pid_pair_reset :: "pid_pair \<Rightarrow> pid_pair" where
  "pid_pair_reset pp =
     \<lparr>pp_yaw = pid_reset (pp_yaw pp), pp_pitch = pid_reset (pp_pitch pp)\<rparr>"

section \<open>Every branch of an update\<close>

lemma pid_update_cases:
  assumes "pid_update pid error dt = Some (out, pid')"
  obtains (no_time) "dt \<le> Fin 0" "out = Fin 0" "pid' = pid"
  | (deadband) "\<not> dt \<le> Fin 0" "\<bar>error\<bar> < deadband (pid_cfg pid)" "out = Fin 0"
      "pid' = pid\<lparr>integral := integral pid * lit (9 / 10)\<rparr>"
  | (computed) integ raw pid1 where
      "\<not> dt \<le> Fin 0" "\<not> \<bar>error\<bar> < deadband (pid_cfg pid)"
      "clamp (integral pid + error * dt)
         (- integral_limit (pid_cfg pid)) (integral_limit (pid_cfg pid)) = Some integ"
      "pid1 = pid\<lparr>integral := integ, filtered_derivative := pid_filtered pid error dt,
                  prev_error := error, initialized := True\<rparr>"
      "raw = kp (pid_cfg pid) * error + ki (pid_cfg pid) * integ
             + kd (pid_cfg pid) * pid_filtered pid error dt"
      "pid_saturate pid1 raw = Some (out, pid')"
  using assms that
  by (auto simp: pid_update_def Let_def split: if_splits option.splits)

lemma pid_saturateD:
  assumes "pid_saturate pid raw = Some (out, pid')"
  shows "clamp raw (min_output (pid_cfg pid)) (max_output (pid_cfg pid)) = Some out"
    and "pid_cfg pid' = pid_cfg pid" and "feq out raw \<Longrightarrow> pid' = pid"
    and "\<not> feq out raw \<Longrightarrow> integral pid' = integral pid
           - (raw - out) / fmax (ki (pid_cfg pid)) (lit (1 / 1000000))"
proof -
  obtain c where c: "clamp raw (min_output (pid_cfg pid)) (max_output (pid_cfg pid)) = Some c"
    using assms by (auto simp: pid_saturate_def)
  have out: "out = c"
  proof (cases "feq c raw")
    case True
    then have "\<not> raw < min_output (pid_cfg pid) \<or> c = raw" "\<not> max_output (pid_cfg pid) < raw \<or> c = raw"
      using c by (auto simp: clamp_def feq_def fl_less_iff split: if_splits)
    then show ?thesis using assms c True
      by (auto simp: pid_saturate_def clamp_def split: if_splits)
  next
    case False
    then show ?thesis using assms c by (simp add: pid_saturate_def)
  qed
  show "clamp raw (min_output (pid_cfg pid)) (max_output (pid_cfg pid)) = Some out"
    using c out by simp
  show "pid_cfg pid' = pid_cfg pid" "feq out raw \<Longrightarrow> pid' = pid"
    "\<not> feq out raw \<Longrightarrow> integral pid' = integral pid
           - (raw - out) / fmax (ki (pid_cfg pid)) (lit (1 / 1000000))"
    using assms c out by (auto simp: pid_saturate_def split: if_splits)
qed

lemma pid_update_config:
  "pid_update pid error dt = Some (out, pid') \<Longrightarrow> pid_cfg pid' = pid_cfg pid"
  by (erule pid_update_cases) (auto dest: pid_saturateD(2))

lemma clamp_Some: "lo \<le> hi \<Longrightarrow> clamp x lo hi \<noteq> None"
  by (simp add: clamp_def)

section \<open>Runs\<close>

primrec pid_run :: "pid_controller \<Rightarrow> (f32 \<times> f32) list \<Rightarrow> (f32 list \<times> pid_controller) option" where
  "pid_run pid [] = Some ([], pid)"
| "pid_run pid (x # xs) =
    (case pid_update pid (fst x) (snd x) of
       None \<Rightarrow> None
     | Some (out, pid') \<Rightarrow> map_option (\<lambda>(outs, pid''). (out # outs, pid'')) (pid_run pid' xs))"

text \<open>A NaN integral makes every computed output NaN and stays NaN.\<close>

lemma clamp_nan: "clamp NaN lo hi = Some y \<Longrightarrow> y = NaN"
  by (auto simp: clamp_def split: if_splits)

lemma pid_update_nan:
  assumes "integral pid = NaN \<or> (error = NaN \<and> \<not> dt \<le> Fin 0)"
    and "pid_update pid error dt = Some (out, pid')"
  shows "integral pid' = NaN \<and> (out = Fin 0 \<or> out = NaN)"
  using assms(2)
proof (cases rule: pid_update_cases)
  case no_time
  then show ?thesis using assms(1) by auto
next
  case deadband
  then show ?thesis using assms(1) by auto
next
  case (computed integ raw pid1)
  then have integ: "integ = NaN" using assms(1) by (auto dest: clamp_nan)
  then have raw: "raw = NaN" using computed by simp
  note sat = pid_saturateD [OF computed(6)]
  have "out = NaN" using sat(1) raw by (simp add: clamp_nan)
  moreover have "integral pid' = NaN"
    using sat(4) raw integ computed(4) \<open>out = NaN\<close> by (simp add: feq_def)
  ultimately show ?thesis by simp
qed

lemma pid_run_nan:
  "integral pid = NaN \<Longrightarrow> pid_run pid xs = Some (outs, pid')
     \<Longrightarrow> integral pid' = NaN \<and> set outs \<subseteq> {Fin 0, NaN}"
proof (induction xs arbitrary: pid outs)
  case (Cons x xs)
  obtain out pid1 outs1 where u: "pid_update pid (fst x) (snd x) = Some (out, pid1)"
    "pid_run pid1 xs = Some (outs1, pid')" "outs = out # outs1"
    using Cons.prems(2) by (auto split: option.splits)
  have "integral pid1 = NaN \<and> (out = Fin 0 \<or> out = NaN)"
    using pid_update_nan [OF _ u(1)] Cons.prems(1) by blast
  then show ?case using Cons.IH [OF _ u(2)] u(3) by auto
qed simp

section \<open>Properties\<close>

text \<open>An update returns 0, NaN or a value within the output limits, and it panics exactly
  when it reaches a \<open>clamp\<close> whose limits are not ordered.\<close>

lemma pid_output_bounded:
  "(case pid_update pid error dt of
      Some (out, pid') \<Rightarrow> out = Fin 0 \<or> is_nan out
        \<or> (min_output (pid_cfg pid) \<le> out \<and> out \<le> max_output (pid_cfg pid))
    | None \<Rightarrow> \<not> dt \<le> Fin 0 \<and> \<not> \<bar>error\<bar> < deadband (pid_cfg pid)
        \<and> \<not> (- integral_limit (pid_cfg pid) \<le> integral_limit (pid_cfg pid)
            \<and> min_output (pid_cfg pid) \<le> max_output (pid_cfg pid)))"
proof (cases "pid_update pid error dt")
  case None
  then show ?thesis
    by (auto simp: pid_update_def pid_saturate_def clamp_def Let_def split: if_splits option.splits)
next
  case (Some r)
  then obtain out pid' where r: "pid_update pid error dt = Some (out, pid')" by (cases r) simp
  then have "out = Fin 0 \<or> is_nan out
        \<or> (min_output (pid_cfg pid) \<le> out \<and> out \<le> max_output (pid_cfg pid))"
  proof (cases rule: pid_update_cases)
    case (computed integ raw pid1)
    note c = pid_saturateD(1) [OF computed(6)]
    show ?thesis using clampD(2,3) [OF c] computed(4) by auto
  qed simp_all
  then show ?thesis using r by simp
qed

text \<open>One NaN error outside the \<open>dt <= 0\<close> guard poisons the integral: from then on every
  output is NaN or 0 whatever the inputs, until \<open>reset\<close>, which clears it.\<close>

lemma pid_nan_poisons:
  assumes "pid_run pid ((NaN, dt) # xs) = Some (outs, pid')" and "\<not> dt \<le> Fin 0"
  shows "set outs \<subseteq> {Fin 0, NaN} \<and> integral pid' = NaN \<and> integral (pid_reset pid') = Fin 0"
proof -
  obtain out pid1 outs1 where u: "pid_update pid NaN dt = Some (out, pid1)"
    "pid_run pid1 xs = Some (outs1, pid')" "outs = out # outs1"
    using assms(1) by (auto split: option.splits)
  have "integral pid1 = NaN \<and> (out = Fin 0 \<or> out = NaN)"
    using pid_update_nan [OF _ u(1)] assms(2) by blast
  then show ?thesis using pid_run_nan [OF _ u(2)] u(3) by (auto simp: pid_reset_def)
qed

definition dyadic_pid :: pid_config where
  "dyadic_pid = \<lparr>kp = Fin 2, ki = Fin (1 / 2), kd = Fin (1 / 8), max_output = Fin 30,
     min_output = Fin (- 30), deadband = Fin (1 / 64), integral_limit = Fin 15,
     derivative_filter = Fin (1 / 4)\<rparr>"

lemma pid_nan_poisons_witness:
  "map_option (\<lambda>r. set (fst r) \<subseteq> {Fin 0, NaN} \<and> fst r = [NaN, NaN])
     (pid_run (pid_with_config dyadic_pid) [(NaN, Fin 1), (Fin 1, Fin 1)]) = Some True"
proof -
  define r where "r = pid_run (pid_with_config dyadic_pid) [(NaN, Fin 1), (Fin 1, Fin 1)]"
  have "map_option fst r = Some [NaN, NaN]" unfolding r_def
    by (simp add: pid_update_def pid_saturate_def pid_with_config_def dyadic_pid_def clamp_def
      Let_def feq_def pid_filtered_def abs_fl_def uminus_fl_def)
  then obtain pid' where r: "r = Some ([NaN, NaN], pid')" by (cases r) auto
  then have "set [NaN, NaN] \<subseteq> {Fin 0, NaN :: f32}"
    using pid_nan_poisons [of "pid_with_config dyadic_pid" "Fin 1" "[(Fin 1, Fin 1)]"
      "[NaN, NaN]" pid'] by (simp add: r_def del: pid_run.simps)
  then show ?thesis using r by (simp add: r_def del: pid_run.simps)
qed

end
