(* ===== verification/Common_Types.thy ===== *)
theory Common_Types
  imports Floats
begin

text \<open>
  The domain types of \<open>crates/common\<close>: \<open>types.rs\<close> (frames, boxes, detections, telemetry,
  flight modes, system states), the part of \<open>config.rs\<close> the modelled components read, and
  the classification of \<open>errors.rs\<close>.  Structs are records, enums are datatypes in the order
  of the source.  Unsigned arithmetic is that of the release profile (it wraps).
\<close>

section \<open>Frames\<close>

datatype pixel_format = Nv12 | Yuyv | Rgb24 | Mjpeg

record frame_metadata =
  fm_width :: u32
  fm_height :: u32
  fm_format :: pixel_format
  fm_captured_at :: utc
  fm_seq :: u64

record frame =
  frame_data :: "u8 list"
  frame_meta :: frame_metadata

section \<open>Boxes and detections\<close>

record bounding_box =
  b_x :: u32
  b_y :: u32
  b_width :: u32
  b_height :: u32

definition u32_as_f32 :: "u32 \<Rightarrow> f32" where
  "u32_as_f32 w = fl_of_nat (unat w)"

definition bbox_center :: "bounding_box \<Rightarrow> f32 \<times> f32" where
  "bbox_center b = (u32_as_f32 (b_x b) + u32_as_f32 (b_width b) / Fin 2,
                    u32_as_f32 (b_y b) + u32_as_f32 (b_height b) / Fin 2)"

definition bbox_iou :: "bounding_box \<Rightarrow> bounding_box \<Rightarrow> f32" where
  "bbox_iou a b =
    (let x1 = max (b_x a) (b_x b);
         y1 = max (b_y a) (b_y b);
         x2 = min (b_x a + b_width a) (b_x b + b_width b);
         y2 = min (b_y a + b_height a) (b_y b + b_height b)
     in if x2 \<le> x1 \<or> y2 \<le> y1 then Fin 0
        else let inter = u32_as_f32 (x2 - x1) * u32_as_f32 (y2 - y1);
                 union = u32_as_f32 (b_width a * b_height a + b_width b * b_height b) - inter
             in if union \<le> Fin 0 then Fin 0 else inter / union)"

record detection =
  d_bbox :: bounding_box
  d_class :: string
  d_class_id :: u32
  d_confidence :: f32
  d_frame_seq :: u64
  d_detected_at :: utc

type_synonym target_id = u64

record target_state =
  ts_id :: target_id
  ts_bbox :: bounding_box
  ts_velocity :: "f32 \<times> f32"
  ts_confidence :: f32
  ts_last_seen :: utc
  ts_missed_frames :: u32

definition target_state_is_lost :: "utc \<Rightarrow> target_state \<Rightarrow> nat \<Rightarrow> bool" where
  "target_state_is_lost now t max_age_ms \<longleftrightarrow> max_age_ms < utc_elapsed_ms now (ts_last_seen t)"

section \<open>Flight controller data\<close>

datatype roi_target =
    GlobalLatLng f64 f64 f32
  | LocalNed f32 f32 f32
  | RoiNone

record position_target_ned =
  pt_north :: f32
  pt_east :: f32
  pt_down :: f32
  pt_yaw :: f32

record attitude =
  att_roll :: f32
  att_pitch :: f32
  att_yaw :: f32
  att_roll_rate :: f32
  att_pitch_rate :: f32
  att_yaw_rate :: f32

record global_position =
  gp_lat :: f64
  gp_lon :: f64
  gp_alt_msl :: f32
  gp_alt_agl :: f32

datatype flight_mode =
  Unknown | Manual | Stabilize | AltHold | Loiter | Guided | Rtl | Auto

record heartbeat_status =
  last_heartbeat :: utc
  hb_armed :: bool
  hb_mode :: flight_mode

definition heartbeat_is_stale :: "utc \<Rightarrow> heartbeat_status \<Rightarrow> nat \<Rightarrow> bool" where
  "heartbeat_is_stale now hb timeout_ms \<longleftrightarrow> timeout_ms < utc_elapsed_ms now (last_heartbeat hb)"

section \<open>System states\<close>

datatype system_state =
    Idle
  | Armed
  | Scanning
  | TargetSelected
  | Tracking
  | TrackingDegraded
  | Lost
  | Rth
  | Abort

fun system_state_as_str :: "system_state \<Rightarrow> string" where
  "system_state_as_str Idle = ''IDLE''"
| "system_state_as_str Armed = ''ARMED''"
| "system_state_as_str Scanning = ''SCANNING''"
| "system_state_as_str TargetSelected = ''TARGET_SELECTED''"
| "system_state_as_str Tracking = ''TRACKING''"
| "system_state_as_str TrackingDegraded = ''TRACKING_DEGRADED''"
| "system_state_as_str Lost = ''LOST''"
| "system_state_as_str Rth = ''RTH''"
| "system_state_as_str Abort = ''ABORT''"

lemma system_state_as_str_inj: "system_state_as_str s = system_state_as_str t \<longleftrightarrow> s = t"
  by (cases s; cases t) simp_all

section \<open>Configuration\<close>

record commander_config =
  video_loop_wdt_ms :: nat
  inference_loop_wdt_ms :: nat
  tracking_loop_wdt_ms :: nat
  command_loop_wdt_ms :: nat
  fc_heartbeat_wdt_ms :: nat
  deadband_fraction :: f32
  loss_hysteresis_ms :: nat
  max_yaw_rate_dps :: f32
  max_pitch_rate_dps :: f32
  max_offset_fraction :: f32
  oscillation_window :: nat
  oscillation_threshold :: f32
  oscillation_abort_count :: u32

definition commander_config_default :: commander_config where
  "commander_config_default = \<lparr>
     video_loop_wdt_ms = 100,
     inference_loop_wdt_ms = 200,
     tracking_loop_wdt_ms = 50,
     command_loop_wdt_ms = 100,
     fc_heartbeat_wdt_ms = 1000,
     deadband_fraction = lit (5 / 100),
     loss_hysteresis_ms = 500,
     max_yaw_rate_dps = lit 30,
     max_pitch_rate_dps = lit 15,
     max_offset_fraction = lit (30 / 100),
     oscillation_window = 30,
     oscillation_threshold = lit (5 / 10),
     oscillation_abort_count = 3 \<rparr>"

record tracker_config =
  tc_max_target_age_ms :: nat
  tc_max_missed_frames :: u32
  tc_lock_confirmation_frames :: u32
  tc_match_iou_threshold :: f32

definition tracker_config_default :: tracker_config where
  "tracker_config_default = \<lparr>
     tc_max_target_age_ms = 2000,
     tc_max_missed_frames = 60,
     tc_lock_confirmation_frames = 3,
     tc_match_iou_threshold = lit (3 / 10) \<rparr>"

record fc_config =
  fcc_adapter :: string
  fcc_endpoint :: string
  fcc_baud_rate :: u32
  fcc_system_id :: u8
  fcc_component_id :: u8
  fcc_target_system_id :: u8
  fcc_target_component_id :: u8
  fcc_command_rate_hz :: u32
  fcc_heartbeat_timeout_ms :: nat

definition fc_config_default :: fc_config where
  "fc_config_default = \<lparr>
     fcc_adapter = ''mock'',
     fcc_endpoint = ''127.0.0.1:14550'',
     fcc_baud_rate = 115200,
     fcc_system_id = 1,
     fcc_component_id = 1,
     fcc_target_system_id = 1,
     fcc_target_component_id = 1,
     fcc_command_rate_hz = 10,
     fcc_heartbeat_timeout_ms = 1000 \<rparr>"

section \<open>Errors\<close>

text \<open>The payloads of third-party error types are kept as their message.\<close>

datatype common_error =
    EVideo string | EInference string | ETracking string | EFc string | ECommander string
  | EConfig string | EIo string | ESerde string | ETomlDe string | EChannelSend string
  | EWatchdog string nat nat
  | EInvalidStateTransition string string
  | ESafety string
  | EOther string

fun is_safety_critical :: "common_error \<Rightarrow> bool" where
  "is_safety_critical (EWatchdog _ _ _) = True"
| "is_safety_critical (ESafety _) = True"
| "is_safety_critical (EInvalidStateTransition _ _) = True"
| "is_safety_critical _ = False"

end
