(* ===== verification/Safety.thy ===== *)
theory Safety
  imports Common_Types
begin

text \<open>
  \<open>crates/commander/src/safety.rs\<close>: the geofence, the battery monitor and their combination.
  \<open>sin\<close>, \<open>cos\<close> and \<open>asin\<close> have no specified result in Rust beyond their documented special
  values; they are a parameter \<open>libm\<close> of the distance, and the laws used of them are named
  hypotheses (\<open>libm_nan\<close>, \<open>libm_zero\<close>).
\<close>

section \<open>Geofence\<close>

record libm =
  lm_sin :: "f64 \<Rightarrow> f64"
  lm_cos :: "f64 \<Rightarrow> f64"
  lm_asin :: "f64 \<Rightarrow> f64"

record geofence_config =
  max_distance_m :: f32
  max_altitude_m :: f32
  min_altitude_m :: f32

definition geofence_config_default :: geofence_config where
  "geofence_config_default = \<lparr>
     max_distance_m = lit 500,
     max_altitude_m = lit 120,
     min_altitude_m = lit (- 10)\<rparr>"

datatype geofence_violation = DistanceExceeded | AltitudeMaxExceeded | AltitudeMinExceeded

record geofence =
  gf_config :: geofence_config
  gf_home :: "(f64 \<times> f64 \<times> f32) option"
  gf_last_position :: "global_position option"

definition geofence_new :: "geofence_config \<Rightarrow> geofence" where
  "geofence_new cfg = \<lparr>gf_config = cfg, gf_home = None, gf_last_position = None\<rparr>"

definition gf_set_home :: "f64 \<Rightarrow> f64 \<Rightarrow> f32 \<Rightarrow> geofence \<Rightarrow> geofence" where
  "gf_set_home lat lon alt_msl g = g\<lparr>gf_home := Some (lat, lon, alt_msl)\<rparr>"

definition gf_update_position :: "global_position \<Rightarrow> geofence \<Rightarrow> geofence" where
  "gf_update_position pos g = g\<lparr>gf_last_position := Some pos\<rparr>"

text \<open>\<open>powi(2)\<close> is one multiplication.\<close>

definition haversine_distance :: "libm \<Rightarrow> f64 \<Rightarrow> f64 \<Rightarrow> f64 \<Rightarrow> f64 \<Rightarrow> f32" where
  "haversine_distance lm lat1 lon1 lat2 lon2 =
    (let earth_radius_m = lit 6371000;
         lat1_rad = f64_to_radians lat1;
         lat2_rad = f64_to_radians lat2;
         dlat = f64_to_radians (lat2 - lat1);
         dlon = f64_to_radians (lon2 - lon1);
         s1 = lm_sin lm (dlat / Fin 2);
         s2 = lm_sin lm (dlon / Fin 2);
         a = s1 * s1 + lm_cos lm lat1_rad * lm_cos lm lat2_rad * (s2 * s2);
         c = Fin 2 * lm_asin lm (fl_sqrt a)
     in f32_of_f64 (earth_radius_m * c))"

definition gf_check :: "libm \<Rightarrow> geofence \<Rightarrow> geofence_violation option" where
  "gf_check lm g =
    (case gf_home g of
       None \<Rightarrow> None
     | Some (home_lat, home_lon, home_alt) \<Rightarrow>
         (case gf_last_position g of
            None \<Rightarrow> None
          | Some pos \<Rightarrow>
              let distance = haversine_distance lm home_lat home_lon (gp_lat pos) (gp_lon pos);
                  alt_agl = gp_alt_msl pos - home_alt
              in if distance > max_distance_m (gf_config g) then Some DistanceExceeded
                 else if alt_agl > max_altitude_m (gf_config g) then Some AltitudeMaxExceeded
                 else if alt_agl < min_altitude_m (gf_config g) then Some AltitudeMinExceeded
                 else None))"

definition gf_distance_from_home :: "libm \<Rightarrow> geofence \<Rightarrow> f32 option" where
  "gf_distance_from_home lm g =
    (case gf_home g of
       None \<Rightarrow> None
     | Some (home_lat, home_lon, _) \<Rightarrow>
         map_option (\<lambda>pos. haversine_distance lm home_lat home_lon (gp_lat pos) (gp_lon pos))
           (gf_last_position g))"

definition gf_has_home :: "geofence \<Rightarrow> bool" where
  "gf_has_home g \<longleftrightarrow> gf_home g \<noteq> None"

section \<open>Battery\<close>

record battery_config =
  rth_threshold_pct :: f32
  land_threshold_pct :: f32
  min_voltage :: f32

definition battery_config_default :: battery_config where
  "battery_config_default = \<lparr>
     rth_threshold_pct = lit 30,
     land_threshold_pct = lit 15,
     min_voltage = lit (105 / 10)\<rparr>"

datatype battery_violation = LowBatteryRth | CriticalBatteryLand | LowVoltage

record battery_state =
  bs_voltage :: f32
  bs_remaining_pct :: f32

record battery_monitor =
  bm_config :: battery_config
  bm_last :: "battery_state option"

definition battery_monitor_new :: "battery_config \<Rightarrow> battery_monitor" where
  "battery_monitor_new cfg = \<lparr>bm_config = cfg, bm_last = None\<rparr>"

definition bm_update :: "f32 \<Rightarrow> f32 \<Rightarrow> battery_monitor \<Rightarrow> battery_monitor" where
  "bm_update voltage remaining_pct b =
     b\<lparr>bm_last := Some \<lparr>bs_voltage = voltage, bs_remaining_pct = remaining_pct\<rparr>\<rparr>"

definition bm_check :: "battery_monitor \<Rightarrow> battery_violation option" where
  "bm_check b =
    (case bm_last b of
       None \<Rightarrow> None
     | Some bat \<Rightarrow>
         if bs_remaining_pct bat \<le> land_threshold_pct (bm_config b) then Some CriticalBatteryLand
         else if bs_remaining_pct bat \<le> rth_threshold_pct (bm_config b) then Some LowBatteryRth
         else if bs_voltage bat > Fin 0 \<and> bs_voltage bat \<le> min_voltage (bm_config b)
           then Some LowVoltage
         else None)"

section \<open>The combined monitor\<close>

record safety_config =
  sc_geofence :: geofence_config
  sc_battery :: battery_config
  enable_geofence :: bool
  enable_battery :: bool

definition safety_config_default :: safety_config where
  "safety_config_default = \<lparr>sc_geofence = geofence_config_default,
     sc_battery = battery_config_default, enable_geofence = False, enable_battery = False\<rparr>"

record safety_monitor =
  sm_config :: safety_config
  sm_geofence :: geofence
  sm_battery :: battery_monitor

datatype safety_violation = VGeofence geofence_violation | VBattery battery_violation

datatype safety_action = ActRth | ActLand | ActWarn

definition safety_monitor_new :: "safety_config \<Rightarrow> safety_monitor" where
  "safety_monitor_new cfg = \<lparr>sm_config = cfg, sm_geofence = geofence_new (sc_geofence cfg),
     sm_battery = battery_monitor_new (sc_battery cfg)\<rparr>"

definition set_home :: "f64 \<Rightarrow> f64 \<Rightarrow> f32 \<Rightarrow> safety_monitor \<Rightarrow> safety_monitor" where
  "set_home lat lon alt_msl s = s\<lparr>sm_geofence := gf_set_home lat lon alt_msl (sm_geofence s)\<rparr>"

definition update_position :: "global_position \<Rightarrow> safety_monitor \<Rightarrow> safety_monitor" where
  "update_position pos s =
     (if enable_geofence (sm_config s)
      then s\<lparr>sm_geofence := gf_update_position pos (sm_geofence s)\<rparr> else s)"

definition update_battery :: "f32 \<Rightarrow> f32 \<Rightarrow> safety_monitor \<Rightarrow> safety_monitor" where
  "update_battery voltage remaining_pct s =
     (if enable_battery (sm_config s)
      then s\<lparr>sm_battery := bm_update voltage remaining_pct (sm_battery s)\<rparr> else s)"

definition safety_check ::
  "libm \<Rightarrow> safety_monitor \<Rightarrow> (safety_violation \<times> safety_action) option" where
  "safety_check lm s =
    (case (if enable_battery (sm_config s) then bm_check (sm_battery s) else None) of
       Some v \<Rightarrow>
         Some (VBattery v, case v of CriticalBatteryLand \<Rightarrow> ActLand
                 | LowBatteryRth \<Rightarrow> ActRth | LowVoltage \<Rightarrow> ActRth)
     | None \<Rightarrow>
         (case (if enable_geofence (sm_config s) \<and> gf_has_home (sm_geofence s)
                then gf_check lm (sm_geofence s) else None) of
            Some v \<Rightarrow> Some (VGeofence v, ActRth)
          | None \<Rightarrow> None))"

definition safety_distance_from_home :: "libm \<Rightarrow> safety_monitor \<Rightarrow> f32 option" where
  "safety_distance_from_home lm s = gf_distance_from_home lm (sm_geofence s)"

definition safety_battery_state :: "safety_monitor \<Rightarrow> battery_state option" where
  "safety_battery_state s = bm_last (sm_battery s)"

section \<open>Laws of the library functions\<close>

definition libm_nan :: "libm \<Rightarrow> bool" where
  "libm_nan lm \<longleftrightarrow> lm_sin lm NaN = NaN \<and> lm_cos lm NaN = NaN \<and> lm_asin lm NaN = NaN"

text \<open>\<open>sin 0 = 0\<close>, \<open>asin 0 = 0\<close>, and the cosine of a finite value is finite.\<close>

definition libm_zero :: "libm \<Rightarrow> bool" where
  "libm_zero lm \<longleftrightarrow> lm_sin lm (Fin 0) = Fin 0 \<and> lm_asin lm (Fin 0) = Fin 0
     \<and> (\<forall>x. is_finite x \<longrightarrow> is_finite (lm_cos lm x) \<and> \<bar>lm_cos lm x\<bar> \<le> Fin 1)"

definition unit_libm :: libm where
  "unit_libm = \<lparr>lm_sin = (\<lambda>x. x), lm_cos = (\<lambda>x. if is_nan x then NaN else Fin 1),
     lm_asin = (\<lambda>x. x)\<rparr>"

lemma unit_libm_laws: "libm_nan unit_libm" "libm_zero unit_libm"
  by (simp_all add: libm_nan_def libm_zero_def unit_libm_def is_nan_iff abs_fl_def
      finite_not_nan uminus_fl_def)

section \<open>Properties\<close>

text \<open>Once a charge at or below the landing threshold is reported to an enabled battery
  monitor, the check orders a landing, whatever the geofence says and whatever was known
  before.\<close>

lemma low_charge_lands:
  assumes "enable_battery (sm_config s)"
    and "pct \<le> land_threshold_pct (bm_config (sm_battery s))"
  shows "safety_check lm (update_battery v pct s) = Some (VBattery CriticalBatteryLand, ActLand)"
  using assms by (simp add: safety_check_def update_battery_def bm_update_def bm_check_def)

lemma low_charge_lands_witness:
  "safety_check unit_libm (update_battery (Fin 12) (Fin 3)
      (safety_monitor_new \<lparr>sc_geofence = geofence_config_default,
         sc_battery = \<lparr>rth_threshold_pct = Fin 30, land_threshold_pct = Fin 15,
           min_voltage = Fin 10\<rparr>, enable_geofence = True, enable_battery = True\<rparr>))
    = Some (VBattery CriticalBatteryLand, ActLand)"
  by (rule low_charge_lands) (simp_all add: safety_monitor_new_def battery_monitor_new_def)

text \<open>What a report means: a landing is ordered only for a critical battery, a warning
  never, and a geofence violation is reported (with the return home) only by an enabled fence
  with a home, and only while an enabled battery monitor has nothing to report.\<close>

lemma safety_check_sound:
  assumes "safety_check lm s = Some (v, a)"
  shows "(a = ActLand \<longleftrightarrow> v = VBattery CriticalBatteryLand) \<and> a \<noteq> ActWarn
    \<and> (case v of
         VGeofence g \<Rightarrow> a = ActRth \<and> enable_geofence (sm_config s) \<and> gf_home (sm_geofence s) \<noteq> None
           \<and> gf_check lm (sm_geofence s) = Some g
           \<and> \<not> (enable_battery (sm_config s) \<and> bm_check (sm_battery s) \<noteq> None)
       | VBattery b \<Rightarrow> enable_battery (sm_config s) \<and> bm_check (sm_battery s) = Some b)"
  using assms
  by (auto simp: safety_check_def gf_has_home_def
      split: option.splits if_splits battery_violation.splits)

lemma safety_check_sound_witness:
  "snd (the (safety_check unit_libm (update_battery (Fin 12) (Fin 20)
      (safety_monitor_new \<lparr>sc_geofence = geofence_config_default,
         sc_battery = \<lparr>rth_threshold_pct = Fin 30, land_threshold_pct = Fin 15,
           min_voltage = Fin 10\<rparr>, enable_geofence = True, enable_battery = True\<rparr>)))) \<noteq> ActWarn"
proof -
  define s where "s = update_battery (Fin 12) (Fin 20)
      (safety_monitor_new \<lparr>sc_geofence = geofence_config_default,
         sc_battery = \<lparr>rth_threshold_pct = Fin 30, land_threshold_pct = Fin 15,
           min_voltage = Fin 10\<rparr>, enable_geofence = True, enable_battery = True\<rparr>)"
  have c: "safety_check unit_libm s = Some (VBattery LowBatteryRth, ActRth)"
    by (simp add: s_def safety_check_def update_battery_def bm_update_def bm_check_def
        safety_monitor_new_def battery_monitor_new_def)
  from safety_check_sound [OF c] show ?thesis unfolding s_def [symmetric] c by simp
qed

lemma haversine_nan:
  assumes "libm_nan lm" and "lat2 = NaN \<or> lon2 = NaN"
  shows "haversine_distance lm lat1 lon1 lat2 lon2 = NaN"
  using assms
  by (auto simp: haversine_distance_def Let_def libm_nan_def f64_to_radians_def f32_of_f64_def)

text \<open>A position without a fix (NaN latitude or longitude, NaN altitude) passes the
  geofence, however small the limits are: no comparison with NaN holds.\<close>

lemma nan_position_passes:
  assumes "libm_nan lm" and "gp_lat pos = NaN \<or> gp_lon pos = NaN" and "gp_alt_msl pos = NaN"
  shows "gf_check lm (gf_update_position pos g) = None"
  using assms haversine_nan [OF assms(1)]
  by (auto simp: gf_check_def gf_update_position_def Let_def split: option.splits)

lemma nan_position_passes_witness:
  "gf_check unit_libm (gf_update_position \<lparr>gp_lat = NaN, gp_lon = Fin 30, gp_alt_msl = NaN,
      gp_alt_agl = Fin 0\<rparr> (gf_set_home (Fin 50) (Fin 30) (Fin 100)
        (geofence_new \<lparr>max_distance_m = Fin 0, max_altitude_m = Fin 0, min_altitude_m = Fin 0\<rparr>)))
    = None"
  by (rule nan_position_passes) (simp_all add: unit_libm_laws)

lemma minus_self: "is_finite x \<Longrightarrow> x - x = (Fin 0 :: 'f::len fl)"
  by (cases x) (auto simp: minus_fl_def uminus_fl_def plus_fl_def)

lemma zero_times_finite: "is_finite x \<Longrightarrow> \<exists>s. x * Fin 0 = (signed_zero s :: 'f::len fl)"
  by (cases x) (auto simp: times_fl_def Let_def)

lemma plus_signed_zero [simp]: "Fin 0 + signed_zero s = (Fin 0 :: 'f::len fl)"
  by (simp add: signed_zero_def plus_fl_def)

lemma finite_times_unit:
  assumes "is_finite x" "\<bar>x\<bar> \<le> Fin 1" "is_finite y" "\<bar>y\<bar> \<le> Fin 1"
  shows "is_finite (x * y :: 'f::len fl)"
proof -
  have r: "representable TYPE('f) 1" "representable TYPE('f) (- 1)"
    using representable_int [of 1, where 'f='f] representable_int [of "- 1", where 'f='f]
    by simp_all
  have q: "\<bar>qval x\<bar> \<le> 1" "\<bar>qval y\<bar> \<le> 1"
    using assms by (cases x; cases y; auto simp: abs_fl_def uminus_fl_def split: if_splits)+
  have "\<bar>qval x * qval y\<bar> \<le> 1" unfolding abs_mult by (rule mult_le_one) (use q in simp_all)
  then have "rnd (qval x * qval y) \<le> (Fin 1 :: 'f fl)" "Fin (- 1) \<le> (rnd (qval x * qval y) :: 'f fl)"
    using rnd_le_representable [OF _ r(1)] rnd_ge_representable [OF _ r(2)]
    by (simp_all add: abs_le_iff)
  then have "is_finite (rnd (qval x * qval y) :: 'f fl)"
    by (cases "rnd (qval x * qval y) :: 'f fl") auto
  then show ?thesis
    using assms(1,3) finite_not_nan [of x] finite_not_nan [of y]
    by (auto simp: times_fl_def Let_def signed_zero_def)
qed

lemma zero_times_nonneg:
  "is_finite x \<Longrightarrow> \<not> negative x \<Longrightarrow> Fin 0 * x = (Fin 0 :: 'f::len fl) \<and> x * Fin 0 = Fin 0"
  by (cases x) (auto simp: times_fl_def Let_def signed_zero_def)

lemma rnd_small_nonneg:
  assumes "0 \<le> q" "q \<le> 4"
  shows "\<exists>r. rnd q = (Fin r :: 'f::len fl) \<and> 0 \<le> r \<and> r \<le> 4"
proof -
  have "representable TYPE('f) 4" using representable_int [of 4, where 'f='f] by simp
  from rnd_le_representable [OF assms(2) this] show ?thesis
    using assms(1) rndq_nonneg [OF assms(1), of "TYPE('f)"]
    by (auto simp: rnd_def Let_def split: if_splits)
qed

lemma radians_0 [simp]: "f64_to_radians (Fin 0) = Fin 0"
proof -
  obtain p where p: "lit pi_rat = (Fin p :: f64)" "0 \<le> p" "p \<le> 4"
    using rnd_small_nonneg [of pi_rat, where 'f=64] by (auto simp: lit_def pi_rat_def)
  have "lit 180 = (Fin 180 :: f64)"
    using representable_int [of 180, where 'f=64] by (simp add: lit_def rnd_representable)
  moreover obtain r where "rnd (p / 180) = (Fin r :: f64)" "0 \<le> r"
    using rnd_small_nonneg [of "p / 180", where 'f=64] p(2,3) by auto
  ultimately have "is_finite (lit pi_rat / lit 180 :: f64)" "\<not> negative (lit pi_rat / lit 180 :: f64)"
    using p by (auto simp: divide_fl_def Let_def signed_zero_def)
  then show ?thesis by (simp add: f64_to_radians_def zero_times_nonneg)
qed

lemma haversine_home:
  assumes "libm_zero lm" and "is_finite lat" "is_finite lon" "is_finite (f64_to_radians lat)"
  shows "haversine_distance lm lat lon lat lon = Fin 0"
proof -
  have rad0: "Fin 0 / Fin 2 = (Fin 0 :: f64)" "Fin 2 * Fin 0 = (Fin 0 :: f64)"
    "lit 6371000 * Fin 0 = (Fin 0 :: f64)"
    using representable_int [of 6371000, where 'f=64]
    by (simp_all add: divide_fl_def times_fl_def Let_def signed_zero_def lit_def rnd_representable)
  define c where "c = lm_cos lm (f64_to_radians lat)"
  have "is_finite (c * c)"
    using assms(1,4) by (auto simp: libm_zero_def c_def intro!: finite_times_unit)
  then obtain s where s: "c * c * Fin 0 = (signed_zero s :: f64)"
    using zero_times_finite by blast
  have sq: "Fin 0 * Fin 0 = (Fin 0 :: f64)" by (simp add: times_fl_def signed_zero_def)
  show ?thesis
    using assms(1) s
    by (simp add: haversine_distance_def Let_def minus_self assms(2,3) rad0 libm_zero_def sq
        f32_of_f64_def flip: c_def)
qed

text \<open>At the home position the distance is exactly 0, so a fence with a non-negative radius
  and altitude bounds around the home altitude reports nothing.\<close>

lemma home_is_inside:
  assumes "libm_zero lm" and "is_finite lat" "is_finite lon" "is_finite (f64_to_radians lat)"
    and "is_finite alt" and "Fin 0 \<le> max_distance_m (gf_config g)"
    and "Fin 0 \<le> max_altitude_m (gf_config g)" and "min_altitude_m (gf_config g) \<le> Fin 0"
  shows "gf_distance_from_home lm (gf_update_position \<lparr>gp_lat = lat, gp_lon = lon,
             gp_alt_msl = alt, gp_alt_agl = agl\<rparr> (gf_set_home lat lon alt g)) = Some (Fin 0)
    \<and> gf_check lm (gf_update_position \<lparr>gp_lat = lat, gp_lon = lon, gp_alt_msl = alt,
             gp_alt_agl = agl\<rparr> (gf_set_home lat lon alt g)) = None"
  using assms(5-8)
  by (auto simp: gf_distance_from_home_def gf_check_def gf_update_position_def gf_set_home_def
      haversine_home [OF assms(1-4)] minus_self fl_less_iff)

lemma home_is_inside_witness:
  "gf_check unit_libm (gf_update_position \<lparr>gp_lat = Fin 0, gp_lon = Fin 30, gp_alt_msl = Fin 100,
      gp_alt_agl = Fin 0\<rparr> (gf_set_home (Fin 0) (Fin 30) (Fin 100)
        (geofence_new \<lparr>max_distance_m = Fin 500, max_altitude_m = Fin 120,
           min_altitude_m = Fin (- 10)\<rparr>))) = None"
proof -
  show ?thesis
    using home_is_inside [OF unit_libm_laws(2), of "Fin 0" "Fin 30" "Fin 100"
        "geofence_new \<lparr>max_distance_m = Fin 500, max_altitude_m = Fin 120,
           min_altitude_m = Fin (- 10)\<rparr>"]
    by (simp add: geofence_new_def)
qed

end
