(* ===== verification/State_Machine.thy ===== *)
theory State_Machine
  imports Common_Types
begin

text \<open>
  \<open>crates/commander/src/state_machine.rs\<close>: the commander's state machine, its
  allowed-transition table, and the two ways to move (checked and forced).  The machine is
  then read as a step relation, whose reachable states carry the safety properties: \<open>Abort\<close>
  is reachable from everywhere in one checked step, is left only to \<open>Idle\<close>, and \<open>Tracking\<close>
  is entered only through a selected target.
\<close>

section \<open>The machine\<close>

datatype state_transition_error =
    InvalidTransition system_state system_state
  | TerminalState system_state

record state_machine =
  sm_state :: system_state
  transition_count :: nat

definition sm_new :: "system_state \<Rightarrow> state_machine" where
  "sm_new initial = \<lparr>sm_state = initial, transition_count = 0\<rparr>"

fun is_transition_allowed :: "system_state \<Rightarrow> system_state \<Rightarrow> bool" where
  "is_transition_allowed Idle Armed = True"
| "is_transition_allowed Armed Scanning = True"
| "is_transition_allowed Scanning TargetSelected = True"
| "is_transition_allowed TargetSelected Tracking = True"
| "is_transition_allowed TargetSelected TrackingDegraded = True"
| "is_transition_allowed Tracking TrackingDegraded = True"
| "is_transition_allowed TrackingDegraded Tracking = True"
| "is_transition_allowed Tracking Lost = True"
| "is_transition_allowed TrackingDegraded Lost = True"
| "is_transition_allowed Lost Tracking = True"
| "is_transition_allowed Lost Rth = True"
| "is_transition_allowed Rth Idle = True"
| "is_transition_allowed Scanning Idle = True"
| "is_transition_allowed Tracking Scanning = True"
| "is_transition_allowed TrackingDegraded Scanning = True"
| "is_transition_allowed Lost Scanning = True"
| "is_transition_allowed TargetSelected Scanning = True"
| "is_transition_allowed _ Abort = True"
| "is_transition_allowed Abort Idle = True"
| "is_transition_allowed _ _ = False"

definition try_transition ::
  "state_machine \<Rightarrow> system_state \<Rightarrow> (state_transition_error, unit) result \<times> state_machine" where
  "try_transition sm to =
    (if sm_state sm = to then (Inr (), sm)
     else if \<not> is_transition_allowed (sm_state sm) to
       then (Inl (InvalidTransition (sm_state sm) to), sm)
     else (Inr (), sm\<lparr>sm_state := to, transition_count := transition_count sm + 1\<rparr>))"

definition force_transition :: "state_machine \<Rightarrow> system_state \<Rightarrow> state_machine" where
  "force_transition sm to =
    (if sm_state sm = to then sm
     else sm\<lparr>sm_state := to, transition_count := transition_count sm + 1\<rparr>)"

section \<open>Functional behaviour\<close>

lemma try_transition_Ok:
  "try_transition sm to = (Inr u, sm') \<Longrightarrow>
     sm_state sm' = to \<and> (sm_state sm = to \<or> is_transition_allowed (sm_state sm) to)
     \<and> transition_count sm' = transition_count sm + (if sm_state sm = to then 0 else 1)"
  by (auto simp: try_transition_def split: if_splits)

lemma try_transition_Err:
  "try_transition sm to = (Inl e, sm') \<Longrightarrow>
     sm' = sm \<and> e = InvalidTransition (sm_state sm) to \<and> sm_state sm \<noteq> to
     \<and> \<not> is_transition_allowed (sm_state sm) to"
  by (auto simp: try_transition_def split: if_splits)

lemma try_transition_cases:
  obtains (same) "sm_state sm = to" "try_transition sm to = (Inr (), sm)"
  | (moved) "sm_state sm \<noteq> to" "is_transition_allowed (sm_state sm) to"
      "try_transition sm to
        = (Inr (), sm\<lparr>sm_state := to, transition_count := transition_count sm + 1\<rparr>)"
  | (rejected) "sm_state sm \<noteq> to" "\<not> is_transition_allowed (sm_state sm) to"
      "try_transition sm to = (Inl (InvalidTransition (sm_state sm) to), sm)"
  by (cases "sm_state sm = to"; cases "is_transition_allowed (sm_state sm) to")
    (auto simp: try_transition_def)

lemma allowed_Abort [simp]: "is_transition_allowed s Abort"
  by (cases s) simp_all

lemma allowed_from_Abort: "is_transition_allowed Abort t \<longleftrightarrow> t = Idle \<or> t = Abort"
  by (cases t) simp_all

lemma allowed_from_Idle: "is_transition_allowed Idle t \<longleftrightarrow> t = Armed \<or> t = Abort"
  by (cases t) simp_all

lemma allowed_to_TargetSelected: "is_transition_allowed s TargetSelected \<longleftrightarrow> s = Scanning"
  by (cases s) simp_all

lemma allowed_to_Scanning:
  "is_transition_allowed s Scanning
     \<longleftrightarrow> s \<in> {Armed, TargetSelected, Tracking, TrackingDegraded, Lost}"
  by (cases s) simp_all

lemma allowed_to_TrackingDegraded:
  "is_transition_allowed s TrackingDegraded \<longleftrightarrow> s = TargetSelected \<or> s = Tracking"
  by (cases s) simp_all

lemma allowed_to_Tracking:
  "is_transition_allowed s Tracking \<longleftrightarrow> s \<in> {TargetSelected, TrackingDegraded, Lost}"
  by (cases s) simp_all

lemma allowed_to_Idle: "is_transition_allowed s Idle \<longleftrightarrow> s \<in> {Scanning, Rth, Abort}"
  by (cases s) simp_all

lemma allowed_to_Armed: "is_transition_allowed s Armed \<longleftrightarrow> s = Idle"
  by (cases s) simp_all

lemma allowed_to_Rth: "is_transition_allowed s Rth \<longleftrightarrow> s = Lost"
  by (cases s) simp_all

lemma allowed_to_Lost: "is_transition_allowed s Lost \<longleftrightarrow> s = Tracking \<or> s = TrackingDegraded"
  by (cases s) simp_all

lemmas allowed_iffs = allowed_from_Abort allowed_from_Idle allowed_to_TargetSelected
  allowed_to_Scanning allowed_to_TrackingDegraded allowed_to_Tracking allowed_to_Idle
  allowed_to_Armed allowed_to_Rth allowed_to_Lost

section \<open>Runs of checked transitions\<close>

text \<open>
  A request is a checked transition, accepted or not.  \<open>run_requests\<close> issues them in order,
  as the callers of \<open>try_transition\<close> do, and \<open>visited\<close> lists the states passed.
\<close>

primrec run_requests :: "state_machine \<Rightarrow> system_state list \<Rightarrow> state_machine" where
  "run_requests sm [] = sm"
| "run_requests sm (t # ts) = run_requests (snd (try_transition sm t)) ts"

primrec visited :: "state_machine \<Rightarrow> system_state list \<Rightarrow> system_state list" where
  "visited sm [] = [sm_state sm]"
| "visited sm (t # ts) = sm_state sm # visited (snd (try_transition sm t)) ts"

inductive sm_path :: "system_state list \<Rightarrow> bool" where
  single: "sm_path [s]"
| stay: "sm_path (s # ss) \<Longrightarrow> sm_path (s # s # ss)"
| move: "is_transition_allowed s t \<Longrightarrow> sm_path (t # ss) \<Longrightarrow> sm_path (s # t # ss)"

inductive_cases sm_path_ConsE: "sm_path (s # t # ss)"
inductive_simps sm_path_single: "sm_path [s]"

lemma visited_head: "\<exists>ss. visited sm ts = sm_state sm # ss"
  by (cases ts) simp_all

lemma visited_last: "last (visited sm ts) = sm_state (run_requests sm ts)"
proof (induction ts arbitrary: sm)
  case (Cons t ts)
  then show ?case using visited_head [of "snd (try_transition sm t)" ts] by auto
qed simp

text \<open>Whatever is requested, the states passed form a path of the table.\<close>

lemma visited_sm_path: "sm_path (visited sm ts)"
proof (induction ts arbitrary: sm)
  case (Cons t ts)
  define sm' where "sm' = snd (try_transition sm t)"
  obtain ss where ss: "visited sm' ts = sm_state sm' # ss" using visited_head by blast
  have "sm_path (sm_state sm' # ss)" using Cons.IH [of sm'] ss by simp
  moreover have "sm_state sm' = sm_state sm \<or> is_transition_allowed (sm_state sm) (sm_state sm')"
    by (rule try_transition_cases [of sm t]) (auto simp: sm'_def)
  ultimately show ?case using ss by (auto simp: sm'_def intro: sm_path.intros)
qed (simp add: sm_path.single)

lemma transition_count_run: "transition_count sm \<le> transition_count (run_requests sm ts)"
proof (induction ts arbitrary: sm)
  case (Cons t ts)
  have "transition_count sm \<le> transition_count (snd (try_transition sm t))"
    by (rule try_transition_cases [of sm t]) simp_all
  then show ?case using Cons.IH [of "snd (try_transition sm t)"] by simp
qed simp

text \<open>Everything passed before the first visit to a gate stays in a set the table closes.\<close>

lemma visited_before_gate:
  assumes "\<And>s t. s \<in> S \<Longrightarrow> is_transition_allowed s t \<Longrightarrow> t \<in> insert g S" and "g \<notin> S"
    and "sm_state sm \<in> S"
  shows "set (takeWhile (\<lambda>s. s \<noteq> g) (visited sm ts)) \<subseteq> S"
  using assms(3)
proof (induction ts arbitrary: sm)
  case (Cons t ts)
  define sm' where "sm' = snd (try_transition sm t)"
  have "sm_state sm' = sm_state sm \<or> is_transition_allowed (sm_state sm) (sm_state sm')"
    by (rule try_transition_cases [of sm t]) (auto simp: sm'_def)
  then have "sm_state sm' \<in> insert g S"
    using assms(1) [of "sm_state sm" "sm_state sm'"] Cons.prems by auto
  moreover have "set (takeWhile (\<lambda>s. s \<noteq> g) (visited sm' ts)) = {}" if "sm_state sm' = g"
    using that visited_head [of sm' ts] by auto
  ultimately have "set (takeWhile (\<lambda>s. s \<noteq> g) (visited sm' ts)) \<subseteq> S"
    using Cons.IH [of sm'] by auto
  then show ?case using Cons.prems by (auto simp flip: sm'_def)
qed auto

section \<open>Properties\<close>

text \<open>Whatever transitions are requested of a new machine, it passes \<open>Armed\<close> before any
  state but \<open>Idle\<close> and \<open>Abort\<close>, and \<open>TargetSelected\<close> before it tracks or loses a target.\<close>

lemma gates_are_passed:
  "set (takeWhile (\<lambda>s. s \<noteq> Armed) (visited (sm_new Idle) ts)) \<subseteq> {Idle, Abort}
   \<and> set (takeWhile (\<lambda>s. s \<noteq> TargetSelected) (visited (sm_new Idle) ts))
       \<subseteq> {Idle, Armed, Scanning, Abort}"
proof
  show "set (takeWhile (\<lambda>s. s \<noteq> Armed) (visited (sm_new Idle) ts)) \<subseteq> {Idle, Abort}"
    by (rule visited_before_gate) (auto simp: sm_new_def allowed_iffs)
  have "is_transition_allowed s t \<Longrightarrow> t \<in> insert TargetSelected {Idle, Armed, Scanning, Abort}"
    if "s \<in> {Idle, Armed, Scanning, Abort}" for s t
    using that by (cases t) auto
  then show "set (takeWhile (\<lambda>s. s \<noteq> TargetSelected) (visited (sm_new Idle) ts))
       \<subseteq> {Idle, Armed, Scanning, Abort}"
    by (rule visited_before_gate) (auto simp: sm_new_def)
qed

end
