(* ===== verification/Watchdogs.thy ===== *)
theory Watchdogs
  imports Common_Types
begin

text \<open>
  \<open>crates/commander/src/watchdogs.rs\<close>: the registry of loop watchdogs.  The registry is a
  \<open>HashMap\<close>, whose iteration order is not specified; the operations that iterate take the
  order as a parameter \<open>iter\<close>, with the law that it lists every key once (the locale
  \<open>hash_order\<close>).  Clock readings of \<open>Utc::now()\<close> are arguments.
\<close>

section \<open>Iteration of a hash map\<close>

locale hash_order =
  fixes iter :: "('k \<rightharpoonup> 'v) \<Rightarrow> 'k list"
  assumes iter_set: "finite (dom m) \<Longrightarrow> set (iter m) = dom m"
    and iter_distinct: "finite (dom m) \<Longrightarrow> distinct (iter m)"
begin

lemma iter_entries:
  "finite (dom m) \<Longrightarrow> set (map (\<lambda>k. (k, the (m k))) (iter m)) = {(k, v). m k = Some v}"
  by (auto simp: iter_set)

lemma iter_length: "finite (dom m) \<Longrightarrow> length (iter m) = card (dom m)"
  using iter_set iter_distinct distinct_card by fastforce

lemma iter_filter_card:
  "finite (dom m) \<Longrightarrow> length (filter P (iter m)) = card {k \<in> dom m. P k}"
proof -
  assume f: "finite (dom m)"
  then have "distinct (filter P (iter m))" by (simp add: iter_distinct)
  then have "length (filter P (iter m)) = card (set (filter P (iter m)))"
    by (metis distinct_card)
  also have "set (filter P (iter m)) = {k \<in> dom m. P k}" using f by (auto simp: iter_set)
  finally show ?thesis .
qed

end

section \<open>The registry\<close>

datatype watchdog_id = VideoLoop | InferenceLoop | TrackingLoop | CommandLoop | FcHeartbeat

fun watchdog_id_as_str :: "watchdog_id \<Rightarrow> string" where
  "watchdog_id_as_str VideoLoop = ''video_loop''"
| "watchdog_id_as_str InferenceLoop = ''inference_loop''"
| "watchdog_id_as_str TrackingLoop = ''tracking_loop''"
| "watchdog_id_as_str CommandLoop = ''command_loop''"
| "watchdog_id_as_str FcHeartbeat = ''fc_heartbeat''"

datatype watchdog_action = WdDegrade | WdAbort

record watchdog_config =
  wd_timeout :: duration
  on_expiry :: watchdog_action

record watchdog_entry =
  last_fed :: utc
  wd_config :: watchdog_config
  expiry_count :: nat
  feed_count :: nat

type_synonym registry = "watchdog_id \<rightharpoonup> watchdog_entry"
type_synonym wd_iter = "registry \<Rightarrow> watchdog_id list"

definition registry_new :: registry where
  "registry_new = Map.empty"

definition register :: "utc \<Rightarrow> watchdog_id \<Rightarrow> watchdog_config \<Rightarrow> registry \<Rightarrow> registry" where
  "register now i cfg r =
     r(i \<mapsto> \<lparr>last_fed = now, wd_config = cfg, expiry_count = 0, feed_count = 0\<rparr>)"

definition feed :: "utc \<Rightarrow> watchdog_id \<Rightarrow> registry \<Rightarrow> registry" where
  "feed now i r =
    (case r i of
       Some e \<Rightarrow> r(i \<mapsto> e\<lparr>last_fed := now, feed_count := feed_count e + 1\<rparr>)
     | None \<Rightarrow> r)"

definition entry_expired :: "utc \<Rightarrow> watchdog_entry \<Rightarrow> bool" where
  "entry_expired now e \<longleftrightarrow>
     as_millis (wd_timeout (wd_config e)) < utc_elapsed_ms now (last_fed e)"

definition check_expired ::
  "wd_iter \<Rightarrow> utc \<Rightarrow> registry \<Rightarrow> (watchdog_id \<times> watchdog_action) list" where
  "check_expired iter now r =
     List.map_filter (\<lambda>i. case r i of
         Some e \<Rightarrow> if entry_expired now e then Some (i, on_expiry (wd_config e)) else None
       | None \<Rightarrow> None) (iter r)"

record watchdog_snapshot =
  ws_id :: watchdog_id
  ws_elapsed_ms :: nat
  ws_timeout_ms :: nat
  ws_expired :: bool
  ws_expiry_count :: nat
  ws_feed_count :: nat

definition wd_snapshot :: "wd_iter \<Rightarrow> utc \<Rightarrow> registry \<Rightarrow> watchdog_snapshot list" where
  "wd_snapshot iter now r =
     List.map_filter (\<lambda>i. case r i of
         Some e \<Rightarrow>
           let elapsed_ms = utc_elapsed_ms now (last_fed e);
               timeout_ms = as_millis (wd_timeout (wd_config e))
           in Some \<lparr>ws_id = i, ws_elapsed_ms = elapsed_ms, ws_timeout_ms = timeout_ms,
                     ws_expired = (timeout_ms < elapsed_ms), ws_expiry_count = expiry_count e,
                     ws_feed_count = feed_count e\<rparr>
       | None \<Rightarrow> None) (iter r)"

definition note_expiry_processed :: "watchdog_id \<Rightarrow> registry \<Rightarrow> registry" where
  "note_expiry_processed i r =
    (case r i of Some e \<Rightarrow> r(i \<mapsto> e\<lparr>expiry_count := expiry_count e + 1\<rparr>) | None \<Rightarrow> r)"

section \<open>Laws\<close>

text \<open>The identifiers are finitely many, so every registry has a finite domain.\<close>

lemma UNIV_watchdog_id: "UNIV = {VideoLoop, InferenceLoop, TrackingLoop, CommandLoop, FcHeartbeat}"
  by (auto intro: watchdog_id.exhaust)

instance watchdog_id :: finite
  by standard (simp add: UNIV_watchdog_id)

text \<open>An order the hash map may have: declaration order.\<close>

definition decl_iter :: wd_iter where
  "decl_iter r = filter (\<lambda>i. r i \<noteq> None)
     [VideoLoop, InferenceLoop, TrackingLoop, CommandLoop, FcHeartbeat]"

interpretation wd_order: hash_order decl_iter
proof
  fix m :: registry
  have "set [VideoLoop, InferenceLoop, TrackingLoop, CommandLoop, FcHeartbeat] = UNIV"
    by (simp only: UNIV_watchdog_id list.simps)
  then have "set (decl_iter m) = {i \<in> UNIV. m i \<noteq> None}"
    unfolding decl_iter_def set_filter by simp
  then show "set (decl_iter m) = dom m" by (simp add: dom_def)
  show "distinct (decl_iter m)" by (simp add: decl_iter_def)
qed

lemma dom_register: "dom (register now i cfg r) = insert i (dom r)"
  by (auto simp: register_def)

lemma dom_feed [simp]: "dom (feed now i r) = dom r"
  by (auto simp: feed_def split: option.splits)

lemma dom_note [simp]: "dom (note_expiry_processed i r) = dom r"
  by (auto simp: note_expiry_processed_def split: option.splits)

lemma feed_other [simp]: "j \<noteq> i \<Longrightarrow> feed now i r j = r j"
  by (auto simp: feed_def split: option.splits)

lemma feed_config:
  "map_option wd_config (feed now i r j) = map_option wd_config (r j)"
  by (auto simp: feed_def split: option.splits)

lemma feed_last_fed: "r i = Some e \<Longrightarrow> \<exists>e'. feed now i r i = Some e' \<and> last_fed e' = now
    \<and> wd_config e' = wd_config e \<and> feed_count e' = feed_count e + 1"
  by (simp add: feed_def)

lemma note_last_fed:
  "map_option (\<lambda>e. (last_fed e, wd_config e)) (note_expiry_processed i r j)
     = map_option (\<lambda>e. (last_fed e, wd_config e)) (r j)"
  by (auto simp: note_expiry_processed_def split: option.splits)

lemma set_map_filter: "y \<in> set (List.map_filter f xs) \<longleftrightarrow> (\<exists>x \<in> set xs. f x = Some y)"
  by (induction xs) (auto simp: List.map_filter_simps split: option.splits)

text \<open>
  The expired watchdogs, whatever the order of the map: exactly the registered ones whose
  last feeding is more than their timeout ago.
\<close>

lemma check_expired_iff:
  assumes "hash_order iter"
  shows "(i, a) \<in> set (check_expired iter now r) \<longleftrightarrow>
    (\<exists>e. r i = Some e \<and> a = on_expiry (wd_config e) \<and> entry_expired now e)"
proof -
  have "set (iter r) = dom r" using hash_order.iter_set [OF assms] by simp
  then show ?thesis
    by (auto simp: check_expired_def set_map_filter split: option.splits if_splits)
qed

end
