(* ===== verification/Rate_Limiter.thy ===== *)
theory Rate_Limiter
  imports Common_Types
begin

text \<open>
  \<open>crates/fc-adapter/src/rate_limiter.rs\<close>: the limiter in front of the flight controller.
  The contract its clients rely on is the locale \<open>rate_gate\<close>: an accepted command is at
  least one interval after the previous one.  From it follows that the accepted commands are
  spaced, and that a window of time holds at most one more of them than it holds intervals.
\<close>

section \<open>The limiter\<close>

text \<open>
  \<open>Duration::from_secs_f64\<close>: the nearest nanosecond, ties to even; it panics (\<open>None\<close>) on a
  negative, infinite, NaN or too large argument.
\<close>

definition duration_from_secs_f64 :: "f64 \<Rightarrow> duration option" where
  "duration_from_secs_f64 x =
    (if \<not> is_finite x \<or> x < 0 then None
     else let ns = nat (rne (qval x * 1000000000))
          in if ns < 2 ^ 64 * 1000000000 then Some ns else None)"

record rate_limiter =
  min_interval :: duration
  last_sent :: "instant option"
  dropped_count :: nat
  sent_count :: nat

definition rl_new :: "u32 \<Rightarrow> rate_limiter option" where
  "rl_new rate_hz =
    (if rate_hz = 0 then None
     else case duration_from_secs_f64 (Fin 1 / fl_of_nat (unat rate_hz)) of
            None \<Rightarrow> None
          | Some d \<Rightarrow> Some \<lparr>min_interval = d, last_sent = None, dropped_count = 0, sent_count = 0\<rparr>)"

definition try_send :: "instant \<Rightarrow> rate_limiter \<Rightarrow> bool \<times> rate_limiter" where
  "try_send now rl =
    (case last_sent rl of
       None \<Rightarrow> (True, rl\<lparr>last_sent := Some now, sent_count := sent_count rl + 1\<rparr>)
     | Some prev \<Rightarrow>
         if min_interval rl \<le> now - prev
         then (True, rl\<lparr>last_sent := Some now, sent_count := sent_count rl + 1\<rparr>)
         else (False, rl\<lparr>dropped_count := dropped_count rl + 1\<rparr>))"

definition force_send :: "instant \<Rightarrow> rate_limiter \<Rightarrow> rate_limiter" where
  "force_send now rl = rl\<lparr>last_sent := Some now, sent_count := sent_count rl + 1\<rparr>"

section \<open>The contract\<close>

locale rate_gate =
  fixes attempt :: "instant \<Rightarrow> 's \<Rightarrow> bool \<times> 's"
    and bypass :: "instant \<Rightarrow> 's \<Rightarrow> 's"
    and recent :: "'s \<Rightarrow> instant option"
    and gap :: "'s \<Rightarrow> duration"
  assumes attempt_ok:
      "attempt now s = (True, s') \<Longrightarrow>
         recent s' = Some now \<and> (\<forall>t. recent s = Some t \<longrightarrow> gap s \<le> now - t)"
    and attempt_drop: "attempt now s = (False, s') \<Longrightarrow> recent s' = recent s"
    and attempt_first: "recent s = None \<Longrightarrow> fst (attempt now s)"
    and attempt_due: "recent s = Some t \<Longrightarrow> gap s \<le> now - t \<Longrightarrow> fst (attempt now s)"
    and attempt_gap: "gap (snd (attempt now s)) = gap s"
    and bypass_recent: "recent (bypass now s) = Some now"
    and bypass_gap: "gap (bypass now s) = gap s"
begin

text \<open>The instants at which a sequence of attempts is accepted.\<close>

primrec accepted :: "'s \<Rightarrow> instant list \<Rightarrow> instant list" where
  "accepted s [] = []"
| "accepted s (t # ts) =
     (if fst (attempt t s) then t # accepted (snd (attempt t s)) ts
      else accepted (snd (attempt t s)) ts)"

lemma accepted_spaced_from:
  assumes "0 < gap s"
  shows "sorted_wrt (\<lambda>a b. a + gap s \<le> b) (accepted s ts)
    \<and> (\<forall>t. recent s = Some t \<longrightarrow> (\<forall>a \<in> set (accepted s ts). t + gap s \<le> a))"
  using assms
proof (induction ts arbitrary: s)
  case (Cons t ts)
  obtain b s' where a: "attempt t s = (b, s')" by fastforce
  have g: "gap s' = gap s" using attempt_gap [of t s] a by simp
  have ih: "sorted_wrt (\<lambda>a b. a + gap s \<le> b) (accepted s' ts)"
    "recent s' = Some u \<Longrightarrow> x \<in> set (accepted s' ts) \<Longrightarrow> u + gap s \<le> x" for u x
    using Cons.IH [of s'] Cons.prems g by auto
  show ?case
  proof (cases b)
    case True
    then have r: "recent s' = Some t" "\<And>u. recent s = Some u \<Longrightarrow> gap s \<le> t - u"
      using attempt_ok a by auto
    have "u + gap s \<le> t" if "recent s = Some u" for u
      using r(2) [OF that] Cons.prems by linarith
    then show ?thesis using ih r(1) a True by (fastforce intro: order_trans)
  next
    case False
    then have "recent s' = recent s" using attempt_drop a by simp
    then show ?thesis using ih a False by simp
  qed
qed simp

lemma accepted_spaced:
  "0 < gap s \<Longrightarrow> sorted_wrt (\<lambda>a b. a + gap s \<le> b) (accepted s ts)"
  using accepted_spaced_from by blast

lemma spaced_length:
  assumes "sorted_wrt (\<lambda>a b. a + d \<le> b) (xs :: nat list)" and "0 < d"
    and "\<forall>x \<in> set xs. t0 \<le> x \<and> x < t0 + w"
  shows "length xs \<le> (w + d - 1) div d"
  using assms
proof (induction xs arbitrary: t0 w)
  case (Cons x xs)
  have x: "t0 \<le> x" "x < t0 + w" and next_le: "\<And>y. y \<in> set xs \<Longrightarrow> x + d \<le> y \<and> y < t0 + w"
    using Cons.prems(1,3) by auto
  have "\<forall>y \<in> set xs. t0 + d \<le> y \<and> y < t0 + d + (w - d)"
    using next_le x by fastforce
  then have "length xs \<le> (w - d + d - 1) div d"
    using Cons.IH [of "t0 + d" "w - d"] Cons.prems(1,2) by simp
  moreover have "0 < w" using x by linarith
  ultimately show ?case
  proof (cases "d \<le> w")
    case True
    then obtain k where k: "w = d + k" using le_Suc_ex by blast
    have "(d + k + d - 1) div d = (k + d - 1 + d) div d"
      using Cons.prems(2) by (intro arg_cong [where f = "\<lambda>n. n div d"]) linarith
    also have "\<dots> = (k + d - 1) div d + 1" using Cons.prems(2) by (simp only: div_add_self2)
    finally show ?thesis using \<open>length xs \<le> (w - d + d - 1) div d\<close> by (simp add: k)
  next
    case False
    have "xs = []"
    proof (rule ccontr)
      assume "xs \<noteq> []"
      then obtain y where "y \<in> set xs" by (cases xs) auto
      then have "x + d \<le> y" "y < t0 + w" using next_le by auto
      with False x show False by linarith
    qed
    moreover have "1 \<le> (w + d - 1) div d"
      using Cons.prems(2) \<open>0 < w\<close> by (simp add: div_greater_zero_iff Suc_le_eq)
    ultimately show ?thesis by simp
  qed
qed simp

text \<open>A half-open window of length \<open>w\<close> holds at most \<open>\<lceil>w / gap\<rceil>\<close> accepted commands.\<close>

lemma accepted_in_window:
  assumes "0 < gap s"
  shows "length (filter (\<lambda>t. t0 \<le> t \<and> t < t0 + w) (accepted s ts)) \<le> (w + gap s - 1) div gap s"
  by (rule spaced_length [where ?t0.0 = t0])
    (use assms accepted_spaced in \<open>auto intro: sorted_wrt_filter\<close>)

end

section \<open>The limiter meets the contract\<close>

interpretation limiter: rate_gate try_send force_send last_sent min_interval
  by unfold_locales
    (auto simp: try_send_def force_send_def split: option.splits if_splits)

lemma try_send_counts:
  "try_send now rl = (b, rl') \<Longrightarrow>
     sent_count rl' + dropped_count rl' = sent_count rl + dropped_count rl + 1
     \<and> sent_count rl' = sent_count rl + (if b then 1 else 0)"
  by (auto simp: try_send_def split: option.splits if_splits)

text \<open>The interval is the period of the requested rate, to the nanosecond.\<close>

lemma of_u32_f64: "fl_of_nat (unat (r::u32)) = (Fin (of_nat (unat r)) :: f64)"
proof -
  have "unat r < 2 ^ 32" using unsigned_less [of r, where ?'a=nat] by simp
  then have "unat r \<le> 2 ^ prec TYPE(64)" by (simp add: prec_def)
  then show ?thesis
    unfolding fl_of_nat_def by (intro rnd_representable representable_nat_prec)
qed

lemma rl_new_period:
  assumes r0: "r \<noteq> 0"
  obtains rl where "rl_new r = Some rl" "last_sent rl = None" "sent_count rl = 0"
    "\<bar>of_nat (min_interval rl) - 1000000000 / of_nat (unat r)\<bar> \<le> (1::rat)"
    "\<exists>y. min_interval rl = nat (rne y) \<and> \<bar>y - 1000000000 / of_nat (unat r)\<bar> \<le> 1 / 1000"
proof -
  define n where "n = unat r"
  define q :: rat where "q = 1 / of_nat n"
  have n: "1 \<le> n" using r0 by (simp add: n_def Suc_le_eq unat_gt_0)
  then have q: "0 < q" "q \<le> 1" by (simp_all add: q_def divide_simps)
  define x where "x = rndq TYPE(64) q"
  define d where "d = nat (rne (x * 1000000000))"
  have "rndq TYPE(64) 1 = 1" using rndq_exact [of 1 "TYPE(64)" 0] by (simp add: fl_eval)
  then have x01: "0 \<le> x" "x \<le> 1"
    using rndq_nonneg [of q "TYPE(64)"] rndq_mono [of q 1 "TYPE(64)"] q by (simp_all add: x_def)
  have "(1::rat) < 2 powi emax TYPE(64)"
    using power_int_strict_increasing [of 0 "1024" "2::rat"] by (simp add: emax_def)
  then have rq: "rnd q = (Fin x :: f64)"
    using x01 q by (auto simp: rnd_def Let_def x_def [symmetric])
  have div: "Fin 1 / fl_of_nat n = (rnd q :: f64)"
  proof -
    have "fl_of_nat n = (Fin (of_nat n) :: f64)" unfolding n_def by (rule of_u32_f64)
    then show ?thesis using n by (simp add: divide_fl_def q_def Let_def)
  qed
  have m0: "0 \<le> rne (x * 1000000000)"
    using rne_mono [of 0 "x * 1000000000"] rne_of_int [of 0] x01 by simp
  have "rne (x * 1000000000) \<le> 1000000000"
    using rne_mono [of "x * 1000000000" "of_int 1000000000"] rne_of_int [of 1000000000] x01 by simp
  then have "d < 2 ^ 64 * 1000000000" by (simp add: d_def)
  then have "rl_new r = Some \<lparr>min_interval = d, last_sent = None, dropped_count = 0, sent_count = 0\<rparr>"
    using r0 x01 by (simp add: rl_new_def n_def [symmetric] div rq duration_from_secs_f64_def
        zero_fl_def Let_def d_def [symmetric])
  moreover have near: "\<bar>x * 1000000000 - q * 1000000000\<bar> \<le> 1 / 1000"
  proof -
    have "\<bar>x - q\<bar> \<le> 2 powi (1 - int (prec TYPE(64))) / 2"
      unfolding x_def using q by (intro rndq_error_below) (auto simp: fl_eval)
    also have "\<dots> \<le> 1 / 1000000000000" by (simp add: fl_eval)
    finally show ?thesis unfolding abs_le_iff by linarith
  qed
  moreover have "\<bar>of_nat d - q * 1000000000\<bar> \<le> (1::rat)"
  proof -
    have "\<bar>of_int (rne (x * 1000000000)) - x * 1000000000\<bar> \<le> 1 / 2"
      using rne_bounds [of "x * 1000000000"] unfolding abs_le_iff by linarith
    moreover have "(of_nat d :: rat) = of_int (rne (x * 1000000000))" using m0 by (simp add: d_def)
    ultimately show ?thesis using near unfolding abs_le_iff by linarith
  qed
  ultimately show thesis using that by (auto simp: q_def n_def d_def)
qed

lemma rl_new_10:
  "rl_new 10 = Some \<lparr>min_interval = 100000000, last_sent = None, dropped_count = 0, sent_count = 0\<rparr>"
proof -
  have "(10::u32) \<noteq> 0" by simp
  from rl_new_period [OF this] obtain rl
    where rl: "rl_new 10 = Some rl" "last_sent rl = None" "sent_count rl = 0"
      and ex: "\<exists>y. min_interval rl = nat (rne y)
        \<and> \<bar>y - 1000000000 / of_nat (unat (10::u32))\<bar> \<le> 1 / 1000"
    by blast
  from ex obtain y where y: "min_interval rl = nat (rne y)"
    "\<bar>y - 1000000000 / of_nat (unat (10::u32))\<bar> \<le> 1 / 1000" by blast
  have "\<bar>y - of_int 100000000\<bar> < 1 / 2" using y(2) by simp
  then have "rne y = 100000000" by (rule rne_near)
  moreover have "dropped_count rl = 0" using rl(1) by (auto simp: rl_new_def split: option.splits)
  ultimately show ?thesis using rl y(1) by (cases rl) simp
qed

end
