(* ===== verification/Anti_Loop.thy ===== *)
theory Anti_Loop
  imports Common_Types Rate_Limiter
begin

text \<open>
  \<open>crates/commander/src/anti_loop.rs\<close>: the guard every correction passes before it reaches
  the flight controller.  The deadband, the bounding limits and the oscillation detector with
  its one-second freeze and its escalation to an abort.  The two readings of \<open>Instant::now()\<close>
  (one at the start of \<open>process\<close>, one in \<open>handle_oscillation\<close>) are separate arguments.
\<close>

section \<open>The guard\<close>

record correction_command =
  yaw_rate_dps :: f32
  pitch_rate_dps :: f32
  offset_x :: f32
  offset_y :: f32
  generated_at :: instant

definition correction_zero :: "instant \<Rightarrow> correction_command" where
  "correction_zero now = \<lparr>yaw_rate_dps = Fin 0, pitch_rate_dps = Fin 0,
     offset_x = Fin 0, offset_y = Fin 0, generated_at = now\<rparr>"

datatype guard_decision = Allow correction_command | Suppress | GuardDegrade | GuardAbort

record anti_loop_state =
  yaw_sign_history :: "bool list"
  frozen :: bool
  freeze_until :: "instant option"
  recent_triggers :: "instant list"
  suppressed_count :: nat
  allowed_count :: nat
  oscillation_trigger_count :: nat

definition anti_loop_new :: anti_loop_state where
  "anti_loop_new = \<lparr>yaw_sign_history = [], frozen = False, freeze_until = None,
     recent_triggers = [], suppressed_count = 0, allowed_count = 0,
     oscillation_trigger_count = 0\<rparr>"

primrec changes_from :: "bool \<Rightarrow> bool list \<Rightarrow> bool \<Rightarrow> nat" where
  "changes_from prev [] nxt = (if nxt \<noteq> prev then 1 else 0)"
| "changes_from prev (v # vs) nxt = (if v \<noteq> prev then 1 else 0) + changes_from v vs nxt"

fun count_sign_changes :: "bool list \<Rightarrow> bool \<Rightarrow> nat" where
  "count_sign_changes [] nxt = 0"
| "count_sign_changes (v # vs) nxt = changes_from v vs nxt"

definition handle_oscillation ::
  "commander_config \<Rightarrow> instant \<Rightarrow> anti_loop_state \<Rightarrow> guard_decision \<times> anti_loop_state" where
  "handle_oscillation cfg now st =
    (let triggers = filter (\<lambda>t. now - t < from_secs 5) (recent_triggers st) @ [now];
         st' = st\<lparr>oscillation_trigger_count := oscillation_trigger_count st + 1,
                  recent_triggers := triggers,
                  frozen := True,
                  freeze_until := Some (now + from_secs 1),
                  yaw_sign_history := []\<rparr>
     in if oscillation_abort_count cfg \<le> (of_nat (length triggers) :: u32)
        then (GuardAbort, st') else (GuardDegrade, st'))"

text \<open>A component beyond its limit is replaced by the limit with its sign.\<close>

definition clip_to :: "f32 \<Rightarrow> f32 \<Rightarrow> f32" where
  "clip_to x limit = (if limit < \<bar>x\<bar> then signum x * limit else x)"

definition clip_command :: "commander_config \<Rightarrow> correction_command \<Rightarrow> correction_command" where
  "clip_command cfg cmd = cmd\<lparr>
     yaw_rate_dps := clip_to (yaw_rate_dps cmd) (max_yaw_rate_dps cfg),
     pitch_rate_dps := clip_to (pitch_rate_dps cmd) (max_pitch_rate_dps cfg),
     offset_x := clip_to (offset_x cmd) (max_offset_fraction cfg),
     offset_y := clip_to (offset_y cmd) (max_offset_fraction cfg)\<rparr>"

definition oscillating :: "commander_config \<Rightarrow> bool list \<Rightarrow> f32 \<Rightarrow> bool" where
  "oscillating cfg history yaw_rate \<longleftrightarrow>
    (let yaw_sign = (yaw_rate > Fin 0)
     in history \<noteq> [] \<and> last history \<noteq> yaw_sign \<and> \<bar>yaw_rate\<bar> > lit (1 / 10) \<and>
        (let window_size = fl_of_nat (length history)
         in window_size > Fin 0 \<and>
            fl_of_nat (count_sign_changes history yaw_sign) / window_size
              > oscillation_threshold cfg))"

definition push_history :: "nat \<Rightarrow> bool \<Rightarrow> bool list \<Rightarrow> bool list" where
  "push_history window s history =
    (let h = history @ [s] in if window < length h then tl h else h)"

text \<open>The part of \<open>process\<close> after the freeze check.\<close>

definition process_thawed ::
  "commander_config \<Rightarrow> instant \<Rightarrow> anti_loop_state \<Rightarrow> correction_command
     \<Rightarrow> guard_decision \<times> anti_loop_state" where
  "process_thawed cfg now_osc st cmd =
    (if \<bar>offset_x cmd\<bar> < deadband_fraction cfg \<and> \<bar>offset_y cmd\<bar> < deadband_fraction cfg
     then (Suppress, st\<lparr>suppressed_count := suppressed_count st + 1\<rparr>)
     else let clipped = clip_command cfg cmd
          in if oscillating cfg (yaw_sign_history st) (yaw_rate_dps clipped)
             then handle_oscillation cfg now_osc st
             else (Allow clipped,
                   st\<lparr>yaw_sign_history := push_history (oscillation_window cfg)
                        (yaw_rate_dps clipped > Fin 0) (yaw_sign_history st),
                      allowed_count := allowed_count st + 1\<rparr>))"

definition process ::
  "commander_config \<Rightarrow> instant \<Rightarrow> instant \<Rightarrow> anti_loop_state \<Rightarrow> correction_command
     \<Rightarrow> guard_decision \<times> anti_loop_state" where
  "process cfg now now_osc st cmd =
    (case freeze_until st of
       Some until \<Rightarrow>
         if now < until then (Suppress, st\<lparr>suppressed_count := suppressed_count st + 1\<rparr>)
         else process_thawed cfg now_osc (st\<lparr>frozen := False, freeze_until := None\<rparr>) cmd
     | None \<Rightarrow> process_thawed cfg now_osc st cmd)"

record anti_loop_snapshot =
  als_frozen :: bool
  als_suppressed_count :: nat
  als_allowed_count :: nat
  als_oscillation_trigger_count :: nat
  als_history_len :: u32

definition anti_loop_snapshot_of :: "anti_loop_state \<Rightarrow> anti_loop_snapshot" where
  "anti_loop_snapshot_of st = \<lparr>als_frozen = frozen st, als_suppressed_count = suppressed_count st,
     als_allowed_count = allowed_count st,
     als_oscillation_trigger_count = oscillation_trigger_count st,
     als_history_len = of_nat (length (yaw_sign_history st))\<rparr>"

section \<open>Every branch of a call\<close>

lemma process_cases:
  assumes "process cfg now now_osc st cmd = (d, st')"
  obtains
    (frozen) u where "freeze_until st = Some u" "now < u" "d = Suppress"
      "st' = st\<lparr>suppressed_count := suppressed_count st + 1\<rparr>"
  | (deadband) st1 where "st1 = st \<or> st1 = st\<lparr>frozen := False, freeze_until := None\<rparr>"
      "\<And>u. freeze_until st = Some u \<Longrightarrow> u \<le> now" "freeze_until st1 = None"
      "\<bar>offset_x cmd\<bar> < deadband_fraction cfg" "\<bar>offset_y cmd\<bar> < deadband_fraction cfg"
      "d = Suppress" "st' = st1\<lparr>suppressed_count := suppressed_count st1 + 1\<rparr>"
  | (trigger) st1 where "st1 = st \<or> st1 = st\<lparr>frozen := False, freeze_until := None\<rparr>"
      "\<And>u. freeze_until st = Some u \<Longrightarrow> u \<le> now" "freeze_until st1 = None"
      "oscillating cfg (yaw_sign_history st) (yaw_rate_dps (clip_command cfg cmd))"
      "handle_oscillation cfg now_osc st1 = (d, st')"
  | (allow) st1 where "st1 = st \<or> st1 = st\<lparr>frozen := False, freeze_until := None\<rparr>"
      "\<And>u. freeze_until st = Some u \<Longrightarrow> u \<le> now" "freeze_until st1 = None"
      "\<not> (\<bar>offset_x cmd\<bar> < deadband_fraction cfg \<and> \<bar>offset_y cmd\<bar> < deadband_fraction cfg)"
      "\<not> oscillating cfg (yaw_sign_history st) (yaw_rate_dps (clip_command cfg cmd))"
      "d = Allow (clip_command cfg cmd)"
      "st' = st1\<lparr>yaw_sign_history := push_history (oscillation_window cfg)
               (yaw_rate_dps (clip_command cfg cmd) > Fin 0) (yaw_sign_history st),
             allowed_count := allowed_count st + 1\<rparr>"
proof (cases "\<exists>u. freeze_until st = Some u \<and> now < u")
  case True
  then show ?thesis using assms that(1) by (auto simp: process_def)
next
  case False
  define st1 where "st1 = (if freeze_until st = None then st
    else st\<lparr>frozen := False, freeze_until := None\<rparr>)"
  have st1: "st1 = st \<or> st1 = st\<lparr>frozen := False, freeze_until := None\<rparr>"
    "freeze_until st1 = None" "yaw_sign_history st1 = yaw_sign_history st"
    "allowed_count st1 = allowed_count st"
    by (simp_all add: st1_def)
  have le: "\<And>u. freeze_until st = Some u \<Longrightarrow> u \<le> now" using False by auto
  have "process_thawed cfg now_osc st1 cmd = (d, st')"
    using assms False by (auto simp: process_def st1_def split: option.splits)
  then show ?thesis
    using that(2-4) [of st1] st1 le
    by (auto simp: process_thawed_def Let_def split: if_splits)
qed

section \<open>Invariant of the guard\<close>

definition al_inv :: "commander_config \<Rightarrow> anti_loop_state \<Rightarrow> bool" where
  "al_inv cfg st \<longleftrightarrow>
     (frozen st \<longleftrightarrow> freeze_until st \<noteq> None)
     \<and> (frozen st \<longrightarrow> yaw_sign_history st = [])
     \<and> length (yaw_sign_history st) \<le> oscillation_window cfg"

lemma al_inv_new [inv_intros]: "al_inv cfg anti_loop_new"
  by (simp add: al_inv_def anti_loop_new_def)

lemma length_push_history:
  "length h \<le> w \<Longrightarrow> length (push_history w s h) = min w (length h + 1)"
  by (auto simp: push_history_def Let_def)

lemma handle_oscillation_fields:
  assumes "handle_oscillation cfg now st = (d, st')"
  shows "freeze_until st' = Some (now + from_secs 1)" "frozen st'" "yaw_sign_history st' = []"
    "recent_triggers st' = filter (\<lambda>t. now - t < from_secs 5) (recent_triggers st) @ [now]"
    "oscillation_trigger_count st' = oscillation_trigger_count st + 1"
    "suppressed_count st' = suppressed_count st" "allowed_count st' = allowed_count st"
    "d = GuardDegrade \<or> d = GuardAbort"
    "d = GuardAbort \<longleftrightarrow> oscillation_abort_count cfg \<le> (of_nat (length (recent_triggers st')) :: u32)"
  using assms by (auto simp: handle_oscillation_def Let_def split: if_splits)

lemma al_inv_process [inv_intros]:
  assumes "al_inv cfg st" and "process cfg now now_osc st cmd = (d, st')"
  shows "al_inv cfg st'"
  using assms(2)
proof (cases rule: process_cases)
  case frozen
  then show ?thesis using assms(1) by (simp add: al_inv_def)
next
  case (deadband st1)
  then show ?thesis using assms(1) by (auto simp: al_inv_def)
next
  case (trigger st1)
  then show ?thesis
    using handle_oscillation_fields [OF trigger(5)] by (simp add: al_inv_def)
next
  case (allow st1)
  then show ?thesis using assms(1) by (auto simp: al_inv_def length_push_history)
qed

section \<open>Runs of the guard\<close>

text \<open>A call is the two clock readings and the command.\<close>

type_synonym guard_call = "instant \<times> instant \<times> correction_command"

primrec guard_run ::
  "commander_config \<Rightarrow> anti_loop_state \<Rightarrow> guard_call list \<Rightarrow> guard_decision list \<times> anti_loop_state"
where
  "guard_run cfg st [] = ([], st)"
| "guard_run cfg st (c # cs) =
    (case c of (now, now_osc, cmd) \<Rightarrow>
       let (d, st1) = process cfg now now_osc st cmd;
           (ds, st2) = guard_run cfg st1 cs
       in (d # ds, st2))"

text \<open>The readings of a monotonic clock, starting after \<open>t\<close>.\<close>

primrec mono_calls :: "instant \<Rightarrow> guard_call list \<Rightarrow> bool" where
  "mono_calls t [] = True"
| "mono_calls t (c # cs) =
    (case c of (now, now_osc, cmd) \<Rightarrow> t \<le> now \<and> now \<le> now_osc \<and> mono_calls now_osc cs)"

lemma al_inv_run: "al_inv cfg st \<Longrightarrow> al_inv cfg (snd (guard_run cfg st cs))"
proof (induction cs arbitrary: st)
  case (Cons c cs)
  obtain now osc cmd where c: "c = (now, osc, cmd)" by (cases c)
  obtain d st1 where p: "process cfg now osc st cmd = (d, st1)" by fastforce
  then have "al_inv cfg st1" using Cons.prems by (rule al_inv_process [rotated])
  then show ?case using Cons.IH [of st1] by (simp add: c p case_prod_unfold Let_def)
qed simp

text \<open>Every call is counted once: suppressed, allowed or a trigger.\<close>

definition al_total :: "anti_loop_state \<Rightarrow> nat" where
  "al_total st = suppressed_count st + allowed_count st + oscillation_trigger_count st"

lemma al_total_process:
  assumes "process cfg now now_osc st cmd = (d, st')"
  shows "al_total st' = al_total st + 1"
  using assms
proof (cases rule: process_cases)
  case (trigger st1)
  then show ?thesis using handle_oscillation_fields [OF trigger(5)] by (auto simp: al_total_def)
qed (auto simp: al_total_def)

lemma al_total_run: "al_total (snd (guard_run cfg st cs)) = al_total st + length cs"
proof (induction cs arbitrary: st)
  case (Cons c cs)
  obtain now osc cmd where c: "c = (now, osc, cmd)" by (cases c)
  obtain d st1 where p: "process cfg now osc st cmd = (d, st1)" by fastforce
  show ?case
    using Cons.IH [of st1] al_total_process [OF p] by (simp add: c p case_prod_unfold Let_def)
qed simp

text \<open>While frozen, nothing passes and nothing but the counter changes.\<close>

lemma frozen_run:
  assumes "freeze_until st = Some u" and "\<forall>c \<in> set cs. fst c < u"
  shows "guard_run cfg st cs
    = (replicate (length cs) Suppress, st\<lparr>suppressed_count := suppressed_count st + length cs\<rparr>)"
  using assms
proof (induction cs arbitrary: st)
  case (Cons c cs)
  obtain now osc cmd where c: "c = (now, osc, cmd)" by (cases c)
  have p: "process cfg now osc st cmd
      = (Suppress, st\<lparr>suppressed_count := suppressed_count st + 1\<rparr>)"
    using Cons.prems by (simp add: process_def c)
  show ?case
    using Cons.IH [of "st\<lparr>suppressed_count := suppressed_count st + 1\<rparr>"] Cons.prems
    by (simp add: c p)
qed simp

section \<open>The trigger window\<close>

text \<open>
  Triggers are at least one second apart, because each one freezes the guard.  \<open>t\<close> is the
  latest clock reading so far.
\<close>

definition trig_inv :: "instant \<Rightarrow> anti_loop_state \<Rightarrow> bool" where
  "trig_inv t st \<longleftrightarrow>
     sorted_wrt (\<lambda>a b. a + from_secs 1 \<le> b) (recent_triggers st)
     \<and> (\<forall>a \<in> set (recent_triggers st).
          a + from_secs 1 \<le> (case freeze_until st of Some u \<Rightarrow> u | None \<Rightarrow> t))"

lemma trig_inv_new: "trig_inv t anti_loop_new"
  by (simp add: trig_inv_def anti_loop_new_def)

lemma trig_inv_thaw:
  assumes "trig_inv t st" and "t \<le> now" and "\<And>u. freeze_until st = Some u \<Longrightarrow> u \<le> now"
    and "st1 = st \<or> st1 = st\<lparr>frozen := False, freeze_until := None\<rparr>" and "freeze_until st1 = None"
  shows "trig_inv now st1" and "recent_triggers st1 = recent_triggers st"
  using assms by (fastforce simp: trig_inv_def split: option.splits)+

lemma trig_inv_process:
  assumes "trig_inv t st" and "t \<le> now" and "now \<le> now_osc"
    and p: "process cfg now now_osc st cmd = (d, st')"
  shows "trig_inv now_osc st'"
    and "d = GuardAbort \<Longrightarrow> oscillation_abort_count cfg \<le> 5"
proof -
  have "trig_inv now_osc st' \<and> (d = GuardAbort \<longrightarrow> oscillation_abort_count cfg \<le> 5)"
    using p
  proof (cases rule: process_cases)
    case (frozen u)
    then show ?thesis using assms(1) by (simp add: trig_inv_def)
  next
    case (deadband st1)
    then show ?thesis
      using trig_inv_thaw(1) [OF assms(1) le_trans [OF assms(2,3)], of st1] assms(3)
      by (auto simp: trig_inv_def intro: le_trans)
  next
    case (allow st1)
    then show ?thesis
      using trig_inv_thaw(1) [OF assms(1) le_trans [OF assms(2,3)], of st1] assms(3)
      by (auto simp: trig_inv_def intro: le_trans)
  next
    case (trigger st1)
    have inv1: "trig_inv now st1"
      using trig_inv_thaw(1) [OF assms(1,2) trigger(2) trigger(1) trigger(3)] by blast
    note h = handle_oscillation_fields [OF trigger(5)]
    define ts where "ts = recent_triggers st'"
    have ts: "sorted_wrt (\<lambda>a b. a + from_secs 1 \<le> b) ts"
      "\<forall>a \<in> set ts. a \<le> now_osc \<and> now_osc - a < from_secs 5"
      using inv1 trigger(3) assms(3)
      by (fastforce simp: ts_def h(4) trig_inv_def sorted_wrt_append sorted_wrt_filter from_secs_def)+
    have "length ts \<le> (from_secs 5 + from_secs 1 - 1) div from_secs 1"
      by (rule limiter.spaced_length [OF ts(1), where ?t0.0 = "now_osc + 1 - from_secs 5"])
        (use ts(2) in \<open>fastforce simp: from_secs_def\<close>)+
    then have "length ts \<le> 5" by (simp add: from_secs_def)
    then have "(of_nat (length ts) :: u32) \<le> 5"
      by (simp add: word_le_nat_alt unat_of_nat)
    then have "d = GuardAbort \<longrightarrow> oscillation_abort_count cfg \<le> 5"
      using h(9) by (auto simp: ts_def)
    moreover have "trig_inv now_osc st'"
      using ts by (auto simp: trig_inv_def h(1) ts_def)
    ultimately show ?thesis by blast
  qed
  then show "trig_inv now_osc st'" "d = GuardAbort \<Longrightarrow> oscillation_abort_count cfg \<le> 5" by blast+
qed

section \<open>Runs, decision by decision\<close>

lemma guard_run_ConsE:
  assumes "guard_run cfg st (c # cs) = (ds, st')"
  obtains now osc cmd d st1 ds1 where "c = (now, osc, cmd)"
    "process cfg now osc st cmd = (d, st1)" "guard_run cfg st1 cs = (ds1, st')" "ds = d # ds1"
  using assms by (cases c) (auto simp: Let_def split: prod.splits)

lemma guard_run_abort_bound:
  "trig_inv t st \<Longrightarrow> mono_calls t cs \<Longrightarrow> guard_run cfg st cs = (ds, st')
     \<Longrightarrow> GuardAbort \<in> set ds \<Longrightarrow> oscillation_abort_count cfg \<le> 5"
proof (induction cs arbitrary: t st ds)
  case (Cons c cs)
  obtain now osc cmd d st1 ds1 where c: "c = (now, osc, cmd)"
    "process cfg now osc st cmd = (d, st1)" "guard_run cfg st1 cs = (ds1, st')" "ds = d # ds1"
    using Cons.prems(3) by (rule guard_run_ConsE)
  have m: "t \<le> now" "now \<le> osc" "mono_calls osc cs" using Cons.prems(2) c(1) by simp_all
  show ?case
    using Cons.IH [OF trig_inv_process(1) [OF Cons.prems(1) m(1,2) c(2)] m(3) c(3)]
      trig_inv_process(2) [OF Cons.prems(1) m(1,2) c(2)] Cons.prems(4) c(4)
    by auto
qed simp

lemma changes_from_const: "changes_from s (replicate n s) s = 0"
  by (induction n) simp_all

text \<open>One sign only in the history, and a call that keeps it.\<close>

lemma process_same_sign:
  assumes p: "process cfg now osc st cmd = (d, st')"
    and h: "set (yaw_sign_history st) \<subseteq> {s}"
    and y: "(yaw_rate_dps (clip_command cfg cmd) > Fin 0) = s"
  shows "d \<noteq> GuardDegrade" "d \<noteq> GuardAbort" "set (yaw_sign_history st') \<subseteq> {s}"
proof -
  have calm: "\<not> oscillating cfg (yaw_sign_history st) (yaw_rate_dps (clip_command cfg cmd))"
    using h y by (fastforce simp: oscillating_def Let_def dest: last_in_set)
  have push: "set (push_history w s (yaw_sign_history st)) \<subseteq> {s}" for w
  proof -
    define l where "l = yaw_sign_history st @ [s]"
    have "set l \<subseteq> {s}" using h by (auto simp: l_def)
    moreover have "set (tl l) \<subseteq> set l" by (cases l) auto
    ultimately show ?thesis by (simp add: push_history_def Let_def flip: l_def) blast
  qed
  have "d \<noteq> GuardDegrade \<and> d \<noteq> GuardAbort \<and> set (yaw_sign_history st') \<subseteq> {s}"
    using p
  proof (cases rule: process_cases)
    case frozen
    then show ?thesis using h by simp
  next
    case (deadband st1)
    then show ?thesis using h by auto
  next
    case (trigger st1)
    then show ?thesis using calm by blast
  next
    case (allow st1)
    then show ?thesis using push y by auto
  qed
  then show "d \<noteq> GuardDegrade" "d \<noteq> GuardAbort" "set (yaw_sign_history st') \<subseteq> {s}" by blast+
qed

lemma same_sign_run:
  assumes "set (yaw_sign_history st) \<subseteq> {s}"
    and "\<forall>c \<in> set cs. (yaw_rate_dps (clip_command cfg (snd (snd c))) > Fin 0) = s"
  shows "GuardDegrade \<notin> set (fst (guard_run cfg st cs)) \<and> GuardAbort \<notin> set (fst (guard_run cfg st cs))
    \<and> oscillation_trigger_count (snd (guard_run cfg st cs)) = oscillation_trigger_count st"
  using assms
proof (induction cs arbitrary: st)
  case (Cons c cs)
  obtain now osc cmd where c: "c = (now, osc, cmd)" by (cases c)
  obtain d st1 where p: "process cfg now osc st cmd = (d, st1)" by fastforce
  have y: "(yaw_rate_dps (clip_command cfg cmd) > Fin 0) = s" using Cons.prems(2) c by simp
  note same = process_same_sign [OF p Cons.prems(1) y]
  have "oscillation_trigger_count st1 = oscillation_trigger_count st"
    using p
  proof (cases rule: process_cases)
    case (trigger st0)
    then show ?thesis using same handle_oscillation_fields(8) [OF trigger(5)] by blast
  qed auto
  then show ?case
    using Cons.IH [OF same(3)] Cons.prems(2) same(1,2) by (simp add: c p case_prod_unfold Let_def)
qed simp

lemma clip_to_bound:
  assumes "wf_fl m" and "0 \<le> m"
  shows "is_nan (clip_to x m) \<or> \<bar>clip_to x m\<bar> \<le> m"
proof (cases "m < \<bar>x\<bar>")
  case True
  then have "\<not> is_nan x" using fl_less_not_nan [of m "\<bar>x\<bar>"] by simp
  then show ?thesis using True signum_times [OF assms] by (simp add: clip_to_def)
next
  case False
  then show ?thesis using assms(2) fl_le_not_nan [OF assms(2)] fl_not_less [of m "\<bar>x\<bar>"]
    by (cases "is_nan x") (auto simp: clip_to_def)
qed

lemma clip_to_is_nan:
  assumes "wf_fl m" and "0 \<le> m"
  shows "is_nan (clip_to x m) \<longleftrightarrow> is_nan x"
proof (cases "is_nan x")
  case True
  then show ?thesis by (cases m) (simp_all add: clip_to_def signum_def is_nan_iff)
next
  case False
  then have "\<not> is_nan (signum x * m)"
    using fl_le_not_nan [OF signum_times [OF assms False]] by simp
  then show ?thesis using False by (simp add: clip_to_def)
qed

lemma clip_to_nan [simp]: "clip_to NaN m = NaN"
  by (cases m) (simp_all add: clip_to_def signum_def)

section \<open>Properties\<close>

text \<open>A command the guard lets through has every component within its configured limit
  (or NaN, which no comparison catches), and its offset was outside the deadband.\<close>

lemma allowed_within_limits:
  assumes "process cfg now osc st cmd = (Allow c, st')"
    and "wf_fl (max_yaw_rate_dps cfg)" "0 \<le> max_yaw_rate_dps cfg"
    and "wf_fl (max_pitch_rate_dps cfg)" "0 \<le> max_pitch_rate_dps cfg"
    and "wf_fl (max_offset_fraction cfg)" "0 \<le> max_offset_fraction cfg"
  shows "(is_nan (yaw_rate_dps c) \<or> \<bar>yaw_rate_dps c\<bar> \<le> max_yaw_rate_dps cfg)
    \<and> (is_nan (pitch_rate_dps c) \<or> \<bar>pitch_rate_dps c\<bar> \<le> max_pitch_rate_dps cfg)
    \<and> (is_nan (offset_x c) \<or> \<bar>offset_x c\<bar> \<le> max_offset_fraction cfg)
    \<and> (is_nan (offset_y c) \<or> \<bar>offset_y c\<bar> \<le> max_offset_fraction cfg)
    \<and> (is_nan (yaw_rate_dps c) \<longleftrightarrow> is_nan (yaw_rate_dps cmd))
    \<and> \<not> (\<bar>offset_x cmd\<bar> < deadband_fraction cfg \<and> \<bar>offset_y cmd\<bar> < deadband_fraction cfg)"
  using assms(1)
proof (cases rule: process_cases)
  case (trigger st1)
  then show ?thesis using handle_oscillation_fields(8) [OF trigger(5)] by simp
next
  case (allow st1)
  show ?thesis
    using allow clip_to_bound clip_to_is_nan assms(2-) by (simp add: clip_command_def)
qed simp_all

text \<open>A configuration with dyadic limits, for evaluating the guard on concrete calls.\<close>

definition dyadic_config :: commander_config where
  "dyadic_config = commander_config_default\<lparr>
     deadband_fraction := Fin (1 / 16), max_yaw_rate_dps := Fin 30, max_pitch_rate_dps := Fin 15,
     max_offset_fraction := Fin (1 / 4), oscillation_threshold := Fin (1 / 2),
     oscillation_abort_count := 6\<rparr>"

definition yaw_command :: "rat \<Rightarrow> correction_command" where
  "yaw_command q = (correction_zero 0)\<lparr>yaw_rate_dps := Fin q, offset_x := Fin (1 / 8)\<rparr>"

lemma clip_yaw_command:
  "clip_command dyadic_config (yaw_command 10) = yaw_command 10"
  "clip_command dyadic_config (yaw_command (- 10)) = yaw_command (- 10)"
  by code_simp+

lemma oscillating_dyadic: "oscillating dyadic_config [True] (Fin (- 10))"
  by code_simp

lemma clip_command_abort_count [simp]:
  "clip_command (cfg\<lparr>oscillation_abort_count := n\<rparr>) cmd = clip_command cfg cmd"
  by (simp add: clip_command_def)

lemma oscillating_abort_count [simp]:
  "oscillating (cfg\<lparr>oscillation_abort_count := n\<rparr>) h y = oscillating cfg h y"
  by (simp add: oscillating_def)

lemma yaw_command_simps [simp]:
  "yaw_rate_dps (yaw_command q) = Fin q" "offset_x (yaw_command q) = Fin (1 / 8)"
  by (simp_all add: yaw_command_def)

lemma dyadic_config_simps [simp]:
  "deadband_fraction dyadic_config = Fin (1 / 16)" "oscillation_window dyadic_config = 30"
  "oscillation_abort_count dyadic_config = 6"
  by (simp_all add: dyadic_config_def commander_config_default_def)

lemma abs_eighth [simp]: "\<bar>Fin (1 / 8) :: f32\<bar> = Fin (1 / 8)"
  by (simp add: abs_fl_def)

lemmas guard_eval = process_def process_thawed_def anti_loop_new_def handle_oscillation_def Let_def
  clip_yaw_command oscillating_dyadic push_history_def from_secs_def

lemma allowed_within_limits_witness:
  "\<bar>yaw_rate_dps (case fst (process dyadic_config 0 1 anti_loop_new (yaw_command 100)) of
      Allow c \<Rightarrow> c)\<bar> \<le> max_yaw_rate_dps dyadic_config"
proof -
  define r where "r = process dyadic_config 0 1 anti_loop_new (yaw_command 100)"
  define c where "c = (yaw_command 100)\<lparr>yaw_rate_dps := Fin 30\<rparr>"
  have fst_r: "fst r = Allow c" unfolding r_def c_def by code_simp
  have "representable TYPE(32) (1 / 4)" by code_simp
  moreover have "representable TYPE(32) 30" "representable TYPE(32) 15"
    using representable_nat [of 30, where 'f=32] representable_nat [of 15, where 'f=32] by simp_all
  ultimately show ?thesis
    using allowed_within_limits [of dyadic_config 0 1 anti_loop_new "yaw_command 100" c "snd r"]
      fst_r
    by (simp add: dyadic_config_def r_def prod_eq_iff zero_fl_def c_def yaw_command_def)
qed

text \<open>After a trigger (a degrade or an abort decision) every call whose clock reading is
  within one second of it is suppressed, whatever the command, and changes nothing but the
  counter of suppressed commands.\<close>

lemma trigger_freezes_one_second:
  assumes "process cfg now osc st cmd = (d, st1)" and "d = GuardDegrade \<or> d = GuardAbort"
    and "\<forall>c \<in> set cs. fst c < osc + from_secs 1"
  shows "guard_run cfg st1 cs = (replicate (length cs) Suppress,
           st1\<lparr>suppressed_count := suppressed_count st1 + length cs\<rparr>)"
proof -
  have "freeze_until st1 = Some (osc + from_secs 1)"
    using assms(1)
  proof (cases rule: process_cases)
    case (trigger st0)
    then show ?thesis using handle_oscillation_fields(1) [OF trigger(5)] by simp
  qed (use assms(2) in simp_all)
  then show ?thesis by (rule frozen_run) (rule assms(3))
qed

lemma trigger_freezes_one_second_witness:
  "\<exists>st1. guard_run dyadic_config st1 [(999999999, 999999999, yaw_command 20)]
     = ([Suppress], st1\<lparr>suppressed_count := 1\<rparr>)"
proof -
  define st where "st = anti_loop_new\<lparr>yaw_sign_history := [True], allowed_count := 1\<rparr>"
  define r where "r = process dyadic_config 0 0 st (yaw_command (- 10))"
  have r: "fst r = GuardDegrade" "suppressed_count (snd r) = 0"
    unfolding r_def st_def by (simp_all add: guard_eval word_le_nat_alt)
  then have "process dyadic_config 0 0 st (yaw_command (- 10)) = (GuardDegrade, snd r)"
    by (simp add: r_def prod_eq_iff)
  from trigger_freezes_one_second [OF this, of "[(999999999, 999999999, yaw_command 20)]"]
  have "guard_run dyadic_config (snd r) [(999999999, 999999999, yaw_command 20)]
      = ([Suppress], (snd r)\<lparr>suppressed_count := 1\<rparr>)"
    by (simp add: from_secs_def r(2) del: guard_run.simps)
  then show ?thesis by blast
qed

text \<open>The escalation needs \<open>oscillation_abort_count\<close> triggers within five seconds, but
  each trigger freezes the guard for one second: with a monotonic clock a limit above five
  can never be reached.\<close>

lemma escalation_needs_small_limit:
  assumes "mono_calls 0 cs" and "GuardAbort \<in> set (fst (guard_run cfg anti_loop_new cs))"
  shows "oscillation_abort_count cfg \<le> 5"
  using guard_run_abort_bound [OF trig_inv_new assms(1), of cfg "fst (guard_run cfg anti_loop_new cs)"
      "snd (guard_run cfg anti_loop_new cs)"] assms(2)
  by simp

lemma escalation_needs_small_limit_witness:
  "oscillation_abort_count (dyadic_config\<lparr>oscillation_abort_count := 1\<rparr>) \<le> 5"
proof (rule escalation_needs_small_limit
    [of "[(0, 0, yaw_command 10), (1, 1, yaw_command (- 10))]"])
  show "mono_calls 0 [(0, 0, yaw_command 10), (1, 1, yaw_command (- 10))]" by simp
  show "GuardAbort \<in> set (fst (guard_run (dyadic_config\<lparr>oscillation_abort_count := 1\<rparr>)
      anti_loop_new [(0, 0, yaw_command 10), (1, 1, yaw_command (- 10))]))"
    by (simp add: guard_eval)
qed

text \<open>A stream of commands whose clipped yaw rates all have the same sign never triggers
  the oscillation detector, from a new guard and for every configuration.\<close>

lemma same_sign_never_triggers:
  assumes "\<forall>c \<in> set cs. (yaw_rate_dps (clip_command cfg (snd (snd c))) > Fin 0) = s"
  shows "GuardDegrade \<notin> set (fst (guard_run cfg anti_loop_new cs))
    \<and> GuardAbort \<notin> set (fst (guard_run cfg anti_loop_new cs))
    \<and> oscillation_trigger_count (snd (guard_run cfg anti_loop_new cs)) = 0"
  using same_sign_run [of anti_loop_new s cs cfg] assms by (simp add: anti_loop_new_def)

lemma same_sign_never_triggers_witness:
  "GuardDegrade \<notin> set (fst (guard_run dyadic_config anti_loop_new
     [(0, 0, yaw_command 10), (1, 1, yaw_command 20)]))"
proof -
  have "\<forall>c \<in> set [(0, 0, yaw_command 10), (1, 1, yaw_command 20)].
      (yaw_rate_dps (clip_command dyadic_config (snd (snd c))) > Fin 0) = True" by code_simp
  from same_sign_never_triggers [OF this] show ?thesis by blast
qed

text \<open>Cold start: with one command in the history the detector's window is one command
  long, so the first reversal of the yaw command beyond 0.1 deg/s (rate 1 of 1) already
  counts as an oscillation and freezes the guard, for every threshold below one.\<close>

lemma first_reversal_triggers:
  assumes "Fin 0 < yaw_rate_dps (clip_command cfg c1)"
    and "yaw_rate_dps (clip_command cfg c2) < - lit (1 / 10)"
    and "\<not> (\<bar>offset_x c1\<bar> < deadband_fraction cfg \<and> \<bar>offset_y c1\<bar> < deadband_fraction cfg)"
    and "\<not> (\<bar>offset_x c2\<bar> < deadband_fraction cfg \<and> \<bar>offset_y c2\<bar> < deadband_fraction cfg)"
    and "oscillation_threshold cfg < Fin 1" and "0 < oscillation_window cfg"
    and "1 < oscillation_abort_count cfg"
  shows "fst (guard_run cfg anti_loop_new [(t1, o1, c1), (t2, o2, c2)])
    = [Allow (clip_command cfg c1), GuardDegrade]"
proof -
  have one: "fl_of_nat 1 = (Fin 1 :: f32)"
    using representable_nat [of 1, where 'f=32] by (simp add: fl_of_nat_def rnd_representable)
  have div: "Fin 1 / Fin 1 = (Fin 1 :: f32)"
    using representable_nat [of 1, where 'f=32] by (simp add: divide_fl_def rnd_representable)
  have ten: "(Fin 0 :: f32) \<le> lit (1 / 10)" unfolding lit_def
    by (rule rnd_ge_representable) (simp_all add: representable_def)
  have y2: "lit (1 / 10) < \<bar>yaw_rate_dps (clip_command cfg c2)\<bar>"
    "\<not> Fin 0 < yaw_rate_dps (clip_command cfg c2)"
    using assms(2) ten
    by (cases "lit (1 / 10) :: f32"; cases "yaw_rate_dps (clip_command cfg c2)";
        auto simp: abs_fl_def uminus_fl_def split: if_splits)+
  have first: "process cfg t1 o1 anti_loop_new c1 = (Allow (clip_command cfg c1),
      anti_loop_new\<lparr>yaw_sign_history := [True], allowed_count := 1\<rparr>)"
    using assms(1,3,6)
    by (auto simp: process_def process_thawed_def anti_loop_new_def oscillating_def
        push_history_def Let_def)
  have "oscillating cfg [True] (yaw_rate_dps (clip_command cfg c2))"
    using y2 assms(5) one div by (simp add: oscillating_def Let_def)
  then have "fst (process cfg t2 o2
      (anti_loop_new\<lparr>yaw_sign_history := [True], allowed_count := 1\<rparr>) c2) = GuardDegrade"
    using assms(4,7)
    by (auto simp: process_def process_thawed_def anti_loop_new_def handle_oscillation_def Let_def)
  then show ?thesis by (simp add: first case_prod_unfold Let_def)
qed

lemma first_reversal_triggers_witness:
  "fst (guard_run dyadic_config anti_loop_new [(0, 0, yaw_command 10), (1, 1, yaw_command (- 10))])
    = [Allow (yaw_command 10), GuardDegrade]"
proof -
  have "fst (guard_run dyadic_config anti_loop_new
      [(0, 0, yaw_command 10), (1, 1, yaw_command (- 10))])
    = [Allow (clip_command dyadic_config (yaw_command 10)), GuardDegrade]"
    by (rule first_reversal_triggers; (unfold clip_yaw_command)?; code_simp)
  then show ?thesis by (simp only: clip_yaw_command)
qed

end
