(* ===== verification/Transform.thy ===== *)
theory Transform
  imports Common_Types
begin

text \<open>
  \<open>crates/commander/src/transform.rs\<close>: from the offset of the target in the frame to the yaw
  command.  The offset is a fraction of the half frame, the field of view turns it into an
  angle, and the current yaw of the vehicle turns the angle into a heading.
\<close>

section \<open>Camera and offset\<close>

record camera_params =
  hfov_rad :: f32
  vfov_rad :: f32
  cam_width :: u32
  cam_height :: u32

definition camera_from_degrees :: "f32 \<Rightarrow> f32 \<Rightarrow> u32 \<Rightarrow> u32 \<Rightarrow> camera_params" where
  "camera_from_degrees hfov_deg vfov_deg w h = \<lparr>
     hfov_rad = f32_to_radians hfov_deg,
     vfov_rad = f32_to_radians vfov_deg,
     cam_width = w,
     cam_height = h\<rparr>"

definition radians_per_pixel_x :: "camera_params \<Rightarrow> f32" where
  "radians_per_pixel_x cam = hfov_rad cam / u32_as_f32 (cam_width cam)"

definition radians_per_pixel_y :: "camera_params \<Rightarrow> f32" where
  "radians_per_pixel_y cam = vfov_rad cam / u32_as_f32 (cam_height cam)"

definition camera_default :: camera_params where
  "camera_default = camera_from_degrees (lit 60) (lit 34) 1280 720"

record frame_offset =
  off_x :: f32
  off_y :: f32

definition from_pixel :: "f32 \<Rightarrow> f32 \<Rightarrow> u32 \<Rightarrow> u32 \<Rightarrow> frame_offset" where
  "from_pixel cx cy width height =
    (let w = u32_as_f32 width;
         h = u32_as_f32 height
     in \<lparr>off_x = (cx - w / Fin 2) / (w / Fin 2), off_y = (cy - h / Fin 2) / (h / Fin 2)\<rparr>)"

definition offset_magnitude :: "frame_offset \<Rightarrow> f32" where
  "offset_magnitude o1 = fl_sqrt (off_x o1 * off_x o1 + off_y o1 * off_y o1)"

section \<open>Angles and targets\<close>

record ned_target =
  nt_yaw :: f32
  nt_yaw_rate :: f32

definition offset_to_angle :: "camera_params \<Rightarrow> frame_offset \<Rightarrow> f32 \<times> f32" where
  "offset_to_angle cam offset =
    (let yaw_angle = off_x offset * (hfov_rad cam / Fin 2);
         pitch_angle = off_y offset * (vfov_rad cam / Fin 2)
     in (yaw_angle, pitch_angle))"

definition pixel_to_angle :: "camera_params \<Rightarrow> f32 \<Rightarrow> f32 \<Rightarrow> f32 \<times> f32" where
  "pixel_to_angle cam cx cy =
     offset_to_angle cam (from_pixel cx cy (cam_width cam) (cam_height cam))"

definition offset_to_yaw_rate :: "camera_params \<Rightarrow> frame_offset \<Rightarrow> f32 \<Rightarrow> f32" where
  "offset_to_yaw_rate cam offset gain =
     (case offset_to_angle cam offset of (yaw_angle, _) \<Rightarrow> yaw_angle * gain)"

definition offset_to_ned_target :: "camera_params \<Rightarrow> frame_offset \<Rightarrow> ned_target" where
  "offset_to_ned_target cam offset =
     (case offset_to_angle cam offset of (yaw_angle, _) \<Rightarrow>
        \<lparr>nt_yaw = yaw_angle, nt_yaw_rate = Fin 0\<rparr>)"

definition offset_to_ned_target_with_attitude ::
  "camera_params \<Rightarrow> frame_offset \<Rightarrow> f32 \<Rightarrow> f32 \<Rightarrow> ned_target" where
  "offset_to_ned_target_with_attitude cam offset drone_pitch drone_yaw =
     (case offset_to_angle cam offset of (yaw_angle, pitch_angle) \<Rightarrow>
        let ned_yaw = drone_yaw + yaw_angle
        in \<lparr>nt_yaw = ned_yaw, nt_yaw_rate = Fin 0\<rparr>)"

definition rad_per_sec_to_deg_per_sec :: "f32 \<Rightarrow> f32" where
  "rad_per_sec_to_deg_per_sec r = f32_to_degrees r"

definition deg_per_sec_to_rad_per_sec :: "f32 \<Rightarrow> f32" where
  "deg_per_sec_to_rad_per_sec d = f32_to_radians d"

section \<open>Lemmas\<close>

lemma fl_of_nat_exact: "n \<le> 16777216 \<Longrightarrow> fl_of_nat n = (Fin (of_nat n) :: f32)"
  by (simp add: fl_of_nat_def rnd_representable representable_nat)

lemma half_exact: "0 < n \<Longrightarrow> n \<le> 16777216 \<Longrightarrow> fl_of_nat n / Fin 2 = (Fin (of_nat n / 2) :: f32)"
  using representable_half_int [of "int n", where 'f=32]
  by (simp add: fl_of_nat_exact divide_fl_def Let_def signed_zero_def rnd_representable)

lemma abs_le_Fin: "\<bar>x\<bar> \<le> Fin h \<longleftrightarrow> Fin (- h) \<le> x \<and> x \<le> (Fin h :: 'f::len fl)"
  by (cases x) (auto simp: abs_le_iff_fl uminus_fl_def)

lemma rnd_abs_le:
  "\<bar>q\<bar> \<le> h \<Longrightarrow> representable TYPE('f) h \<Longrightarrow> \<bar>rnd q\<bar> \<le> (Fin h :: 'f::len fl)"
  unfolding abs_le_Fin
  by (auto intro: rnd_ge_representable rnd_le_representable representable_minus simp: abs_le_iff)

lemma sub_half_bound:
  assumes "Fin 0 \<le> x" and "x \<le> Fin (2 * h)" and "0 < h" and "representable TYPE('f) h"
  shows "\<bar>x - Fin h\<bar> \<le> (Fin h :: 'f::len fl)"
proof -
  have "x - Fin h = rnd (qval x - h)" and "0 \<le> qval x" and "qval x \<le> 2 * h"
    using assms(1-3) by (cases x; simp add: minus_fl_def uminus_fl_def plus_fl_def)+
  then show ?thesis using rnd_abs_le [OF _ assms(4), of "qval x - h"] by (simp add: abs_le_iff)
qed

lemma div_unit_bound:
  assumes "\<bar>x\<bar> \<le> Fin h" and "0 < h"
  shows "\<bar>x / Fin h\<bar> \<le> (Fin 1 :: 'f::len fl)"
proof -
  have r: "representable TYPE('f) 1" using representable_int [of 1, where 'f='f] by simp
  have q: "\<bar>qval x\<bar> \<le> h" and f: "is_finite x"
    using assms by (cases x; auto simp: abs_le_Fin)+
  then have "\<bar>qval x / h\<bar> \<le> 1" using assms(2) by (simp add: abs_divide)
  from rnd_abs_le [OF this r] show ?thesis
    using f assms(2) finite_not_nan [OF f]
    by (auto simp: divide_fl_def Let_def signed_zero_def abs_fl_def uminus_fl_def)
qed

text \<open>One axis of \<open>from_pixel\<close>.\<close>

lemma axis_unit:
  assumes "0 < n" and "n \<le> 16777216" and "Fin 0 \<le> x" and "x \<le> fl_of_nat n"
  shows "\<bar>(x - fl_of_nat n / Fin 2) / (fl_of_nat n / Fin 2)\<bar> \<le> (Fin 1 :: f32)"
proof -
  have rep: "representable TYPE(32) (of_nat n / 2)"
    using representable_half_int [of "int n", where 'f=32] assms(2) by simp
  show ?thesis
    unfolding half_exact [OF assms(1,2)]
    by (rule div_unit_bound [OF sub_half_bound [OF assms(3) _ _ rep]])
      (use assms in \<open>simp_all add: fl_of_nat_exact\<close>)
qed

lemma axis_centre:
  assumes "0 < n" and "n \<le> 16777216"
  shows "(fl_of_nat n / Fin 2 - fl_of_nat n / Fin 2) / (fl_of_nat n / Fin 2) = (Fin 0 :: f32)"
  using assms(1) unfolding half_exact [OF assms]
  by (simp add: minus_fl_def uminus_fl_def plus_fl_def divide_fl_def Let_def signed_zero_def)

section \<open>Properties\<close>

text \<open>A pixel inside a frame (of at most \<open>2^24\<close> pixels a side) has an offset within
  \<open>[-1, 1]\<close> on both axes, and the centre of the frame has offset 0, rounding included.\<close>

lemma from_pixel_unit:
  assumes "0 < w" "unat w \<le> 16777216" "0 < h" "unat h \<le> 16777216"
    and "Fin 0 \<le> cx" "cx \<le> u32_as_f32 w" "Fin 0 \<le> cy" "cy \<le> u32_as_f32 h"
  shows "\<bar>off_x (from_pixel cx cy w h)\<bar> \<le> Fin 1 \<and> \<bar>off_y (from_pixel cx cy w h)\<bar> \<le> Fin 1
    \<and> from_pixel (u32_as_f32 w / Fin 2) (u32_as_f32 h / Fin 2) w h
        = \<lparr>off_x = Fin 0, off_y = Fin 0\<rparr>"
proof -
  have pos: "0 < unat w" "0 < unat h" using assms(1,3) by (simp_all add: word_less_nat_alt)
  show ?thesis
    using axis_unit [OF pos(1) assms(2)] axis_unit [OF pos(2) assms(4)]
      axis_centre [OF pos(1) assms(2)] axis_centre [OF pos(2) assms(4)] assms(5-8)
    unfolding from_pixel_def Let_def u32_as_f32_def by simp
qed

lemma from_pixel_unit_witness:
  "\<bar>off_x (from_pixel (Fin 640) (Fin 100) 1280 720)\<bar> \<le> Fin 1"
proof -
  have "u32_as_f32 1280 = Fin 1280" "u32_as_f32 720 = Fin 720"
    using fl_of_nat_exact [of 1280] fl_of_nat_exact [of 720] by (simp_all add: u32_as_f32_def)
  then show ?thesis
    using from_pixel_unit [of 1280 720 "Fin 640" "Fin 100"] by (simp add: word_less_nat_alt)
qed

end
