(* ===== verification/Fc_Adapter.thy ===== *)
theory Fc_Adapter
  imports Common_Types
begin

text \<open>
  \<open>crates/fc-adapter/src/traits.rs\<close> and \<open>mock.rs\<close>: the interface of the flight controller
  (a \<open>dyn\<close> trait, so a record of functions over an adapter state), the in-memory adapter,
  and the contract the commander relies on (the locale \<open>fc_contract\<close>): which commands have
  reached the controller after each call.
\<close>

section \<open>The interface\<close>

datatype fc_error =
    FcConnection string
  | FcCommandRejected string
  | FcHeartbeatLost nat
  | FcTimeout
  | FcNotArmed
  | FcUnsupportedMode flight_mode
  | FcInternal string

type_synonym 'a fc_result = "(fc_error, 'a) result"

text \<open>One reading of both clocks.\<close>

record clocks =
  mono :: instant
  wall :: utc

record 'fc fc_ops =
  op_set_roi :: "roi_target \<Rightarrow> 'fc \<Rightarrow> unit fc_result \<times> 'fc"
  op_set_position :: "position_target_ned \<Rightarrow> 'fc \<Rightarrow> unit fc_result \<times> 'fc"
  op_set_mode :: "flight_mode \<Rightarrow> 'fc \<Rightarrow> unit fc_result \<times> 'fc"
  op_arm :: "'fc \<Rightarrow> unit fc_result \<times> 'fc"
  op_disarm :: "'fc \<Rightarrow> unit fc_result \<times> 'fc"
  op_attitude :: "'fc \<Rightarrow> attitude"
  op_global_position :: "'fc \<Rightarrow> global_position option"
  op_heartbeat_status :: "clocks \<Rightarrow> 'fc \<Rightarrow> heartbeat_status"
  op_connect :: "clocks \<Rightarrow> 'fc \<Rightarrow> unit fc_result \<times> 'fc"
  op_disconnect :: "'fc \<Rightarrow> unit fc_result \<times> 'fc"

definition is_heartbeat_stale :: "'fc fc_ops \<Rightarrow> clocks \<Rightarrow> utc \<Rightarrow> 'fc \<Rightarrow> nat \<Rightarrow> bool" where
  "is_heartbeat_stale ops c now fc timeout_ms =
     heartbeat_is_stale now (op_heartbeat_status ops c fc) timeout_ms"

datatype recorded_command =
    SetRoi roi_target
  | SetPositionTargetLocalNed position_target_ned
  | SetMode flight_mode
  | CmdArm
  | CmdDisarm

section \<open>The contract\<close>

text \<open>
  \<open>sent fc\<close> lists the commands the controller has accepted.  A call that succeeds appends its
  own command and nothing else, a call that fails appends nothing.
\<close>

definition appends :: "('fc \<Rightarrow> 'c list) \<Rightarrow> 'c list \<Rightarrow> 'fc \<Rightarrow> unit fc_result \<times> 'fc \<Rightarrow> bool" where
  "appends sent cs fc r =
     (case r of (Inr _, fc') \<Rightarrow> sent fc' = sent fc @ cs | (Inl _, fc') \<Rightarrow> sent fc' = sent fc)"

locale fc_contract =
  fixes ops :: "'fc fc_ops" and sent :: "'fc \<Rightarrow> recorded_command list"
  assumes set_roi: "appends sent [SetRoi roi] fc (op_set_roi ops roi fc)"
    and set_position: "appends sent [SetPositionTargetLocalNed t] fc (op_set_position ops t fc)"
    and set_mode: "appends sent [SetMode m] fc (op_set_mode ops m fc)"
    and arm: "appends sent [CmdArm] fc (op_arm ops fc)"
    and disarm: "appends sent [CmdDisarm] fc (op_disarm ops fc)"
    and connect: "appends sent [] fc (op_connect ops c fc)"
    and disconnect: "appends sent [] fc (op_disconnect ops fc)"
begin

lemma set_mode_Ok: "op_set_mode ops m fc = (Inr u, fc') \<Longrightarrow> sent fc' = sent fc @ [SetMode m]"
  using set_mode [of m fc] by (simp add: appends_def)

lemma set_mode_Err: "op_set_mode ops m fc = (Inl e, fc') \<Longrightarrow> sent fc' = sent fc"
  using set_mode [of m fc] by (simp add: appends_def)

lemma set_position_Ok:
  "op_set_position ops t fc = (Inr u, fc') \<Longrightarrow> sent fc' = sent fc @ [SetPositionTargetLocalNed t]"
  using set_position [of t fc] by (simp add: appends_def)

lemma set_position_Err: "op_set_position ops t fc = (Inl e, fc') \<Longrightarrow> sent fc' = sent fc"
  using set_position [of t fc] by (simp add: appends_def)

lemma sent_prefix:
  "\<exists>cs. sent (snd (op_set_mode ops m fc)) = sent fc @ cs \<and> set cs \<subseteq> {SetMode m}"
  "\<exists>cs. sent (snd (op_set_position ops t fc)) = sent fc @ cs
     \<and> set cs \<subseteq> {SetPositionTargetLocalNed t}"
  using set_mode [of m fc] set_position [of t fc]
  by (auto simp: appends_def split: prod.splits sum.splits)

lemma quiet:
  "sent (snd (op_connect ops c fc)) = sent fc" "sent (snd (op_disconnect ops fc)) = sent fc"
  using connect [of fc c] disconnect [of fc]
  by (auto simp: appends_def split: prod.splits sum.splits)

end

section \<open>The mock\<close>

record mock_fc_state =
  mf_commands :: "recorded_command list"
  mf_armed :: bool
  mf_mode :: flight_mode
  mf_attitude :: attitude
  mf_global_position :: "global_position option"
  mf_connected :: bool
  mf_last_heartbeat :: "instant option"

definition attitude_default :: attitude where
  "attitude_default = \<lparr>att_roll = Fin 0, att_pitch = Fin 0, att_yaw = Fin 0,
     att_roll_rate = Fin 0, att_pitch_rate = Fin 0, att_yaw_rate = Fin 0\<rparr>"

definition mock_new :: mock_fc_state where
  "mock_new = \<lparr>mf_commands = [], mf_armed = False, mf_mode = Unknown,
     mf_attitude = attitude_default, mf_global_position = None, mf_connected = False,
     mf_last_heartbeat = None\<rparr>"

definition simulate_heartbeat_loss :: "mock_fc_state \<Rightarrow> mock_fc_state" where
  "simulate_heartbeat_loss s = s\<lparr>mf_last_heartbeat := None\<rparr>"

definition simulate_attitude :: "instant \<Rightarrow> attitude \<Rightarrow> mock_fc_state \<Rightarrow> mock_fc_state" where
  "simulate_attitude now att s = s\<lparr>mf_attitude := att, mf_last_heartbeat := Some now\<rparr>"

definition simulate_global_position :: "global_position \<Rightarrow> mock_fc_state \<Rightarrow> mock_fc_state" where
  "simulate_global_position pos s = s\<lparr>mf_global_position := Some pos\<rparr>"

definition clear_recorded :: "mock_fc_state \<Rightarrow> mock_fc_state" where
  "clear_recorded s = s\<lparr>mf_commands := []\<rparr>"

definition mock_set_roi :: "roi_target \<Rightarrow> mock_fc_state \<Rightarrow> unit fc_result \<times> mock_fc_state" where
  "mock_set_roi roi s =
    (if \<not> mf_connected s then (Inl (FcConnection ''not connected''), s)
     else (Inr (), s\<lparr>mf_commands := mf_commands s @ [SetRoi roi]\<rparr>))"

definition mock_set_position ::
  "position_target_ned \<Rightarrow> mock_fc_state \<Rightarrow> unit fc_result \<times> mock_fc_state" where
  "mock_set_position t s =
    (if \<not> mf_connected s then (Inl (FcConnection ''not connected''), s)
     else (Inr (), s\<lparr>mf_commands := mf_commands s @ [SetPositionTargetLocalNed t]\<rparr>))"

definition mock_set_mode :: "flight_mode \<Rightarrow> mock_fc_state \<Rightarrow> unit fc_result \<times> mock_fc_state" where
  "mock_set_mode m s =
    (if \<not> mf_connected s then (Inl (FcConnection ''not connected''), s)
     else (Inr (), s\<lparr>mf_mode := m, mf_commands := mf_commands s @ [SetMode m]\<rparr>))"

definition mock_arm :: "mock_fc_state \<Rightarrow> unit fc_result \<times> mock_fc_state" where
  "mock_arm s =
    (if \<not> mf_connected s then (Inl (FcConnection ''not connected''), s)
     else (Inr (), s\<lparr>mf_armed := True, mf_commands := mf_commands s @ [CmdArm]\<rparr>))"

definition mock_disarm :: "mock_fc_state \<Rightarrow> unit fc_result \<times> mock_fc_state" where
  "mock_disarm s =
    (if \<not> mf_connected s then (Inl (FcConnection ''not connected''), s)
     else (Inr (), s\<lparr>mf_armed := False, mf_commands := mf_commands s @ [CmdDisarm]\<rparr>))"

text \<open>
  The elapsed time is subtracted from the wall clock; beyond the range of \<open>chrono::Duration\<close>
  the default (zero) is subtracted.  Without a heartbeat the status is 60 seconds old.
\<close>

definition mock_heartbeat_status :: "clocks \<Rightarrow> mock_fc_state \<Rightarrow> heartbeat_status" where
  "mock_heartbeat_status c s = \<lparr>
     last_heartbeat = (case mf_last_heartbeat s of
         Some t \<Rightarrow>
           let elapsed = mono c - t
           in wall c - (if elapsed \<le> 9223372036854775807 * 1000000 then int elapsed else 0)
       | None \<Rightarrow> wall c - int (from_secs 60)),
     hb_armed = mf_armed s,
     hb_mode = mf_mode s\<rparr>"

definition mock_connect :: "clocks \<Rightarrow> mock_fc_state \<Rightarrow> unit fc_result \<times> mock_fc_state" where
  "mock_connect c s =
    (Inr (), s\<lparr>mf_connected := True, mf_last_heartbeat := Some (mono c), mf_mode := Stabilize\<rparr>)"

definition mock_disconnect :: "mock_fc_state \<Rightarrow> unit fc_result \<times> mock_fc_state" where
  "mock_disconnect s = (Inr (), s\<lparr>mf_connected := False\<rparr>)"

definition mock_ops :: "mock_fc_state fc_ops" where
  "mock_ops = \<lparr>op_set_roi = mock_set_roi, op_set_position = mock_set_position,
     op_set_mode = mock_set_mode, op_arm = mock_arm, op_disarm = mock_disarm,
     op_attitude = mf_attitude, op_global_position = mf_global_position,
     op_heartbeat_status = mock_heartbeat_status, op_connect = mock_connect,
     op_disconnect = mock_disconnect\<rparr>"

lemmas mock_defs = mock_ops_def mock_set_roi_def mock_set_position_def mock_set_mode_def
  mock_arm_def mock_disarm_def mock_connect_def mock_disconnect_def

interpretation mock: fc_contract mock_ops mf_commands
  by unfold_locales (simp_all add: mock_defs appends_def)

text \<open>A heartbeat of the mock is stale exactly when more than the timeout has passed.\<close>

lemma mock_stale_iff:
  assumes "mf_last_heartbeat s = Some t" and "t \<le> mono c"
    and "mono c - t \<le> 9223372036854775807 * 1000000"
  shows "is_heartbeat_stale mock_ops c (wall c) s ms
    \<longleftrightarrow> t + 1000000 * (ms + 1) \<le> mono c"
  using assms(1,2,3)
  by (simp add: is_heartbeat_stale_def heartbeat_is_stale_def utc_elapsed_ms_less_iff mock_ops_def
      mock_heartbeat_status_def Let_def) linarith

lemma mock_loss_stale:
  "ms < 60000 \<Longrightarrow> is_heartbeat_stale mock_ops c (wall c) (simulate_heartbeat_loss s) ms"
  by (simp add: is_heartbeat_stale_def heartbeat_is_stale_def utc_elapsed_ms_less_iff mock_ops_def
      mock_heartbeat_status_def simulate_heartbeat_loss_def from_secs_def)

end
