(* ===== verification/Commander.thy ===== *)
theory Commander
  imports State_Machine Watchdogs Anti_Loop Transform Rate_Limiter Fc_Adapter
begin

text \<open>
  \<open>crates/commander/src/commander.rs\<close>: the orchestrator that owns the state machine, the
  watchdogs, the anti-loop guard, the rate limiter and the flight controller.  The adapter
  is a \<open>dyn\<close> object: its vtable \<open>ops\<close> is a parameter and its state the field \<open>cm_fc\<close>.
  Operations are atomic (\<open>&mut self\<close>); each clock reading is an argument.
\<close>

section \<open>State\<close>

datatype commander_error =
    CeStateTransition state_transition_error
  | CeFc fc_error
  | CeNotConnected
  | CeNotArmed
  | CeInvalidState system_state system_state
  | CeNoActiveTarget
  | CeInternal string

type_synonym 'a commander_result = "(commander_error, 'a) result"

record 'fc commander =
  cm_sm :: state_machine
  cm_watchdogs :: registry
  cm_anti_loop :: anti_loop_state
  cm_fc :: 'fc
  cm_rate_limiter :: rate_limiter
  cm_camera :: camera_params
  cm_config :: commander_config
  cm_active_target_id :: "target_id option"
  cm_last_command_at :: "instant option"
  cm_connected :: bool

abbreviation cm_state :: "('fc, 'z) commander_scheme \<Rightarrow> system_state" where
  "cm_state cm \<equiv> sm_state (cm_sm cm)"

text \<open>\<open>ts\<close> are the clock readings of the four registrations.\<close>

definition commander_new ::
  "utc \<times> utc \<times> utc \<times> utc \<Rightarrow> commander_config \<Rightarrow> 'fc \<Rightarrow> 'fc commander option" where
  "commander_new ts config fc =
    (case ts of (t1, t2, t3, t4) \<Rightarrow>
      let wd = registry_new;
          wd = register t1 VideoLoop
            \<lparr>wd_timeout = from_millis (video_loop_wdt_ms config), on_expiry = WdDegrade\<rparr> wd;
          wd = register t2 InferenceLoop
            \<lparr>wd_timeout = from_millis (inference_loop_wdt_ms config), on_expiry = WdDegrade\<rparr> wd;
          wd = register t3 TrackingLoop
            \<lparr>wd_timeout = from_millis (tracking_loop_wdt_ms config), on_expiry = WdDegrade\<rparr> wd;
          wd = register t4 CommandLoop
            \<lparr>wd_timeout = from_millis (command_loop_wdt_ms config), on_expiry = WdAbort\<rparr> wd
      in map_option (\<lambda>limiter. \<lparr>
            cm_sm = sm_new Idle,
            cm_watchdogs = wd,
            cm_anti_loop = anti_loop_new,
            cm_fc = fc,
            cm_rate_limiter = limiter,
            cm_camera = camera_default,
            cm_config = config,
            cm_active_target_id = None,
            cm_last_command_at = None,
            cm_connected = False\<rparr>) (rl_new 10))"

definition with_camera_params :: "camera_params \<Rightarrow> 'fc commander \<Rightarrow> 'fc commander" where
  "with_camera_params camera cm = cm\<lparr>cm_camera := camera\<rparr>"

section \<open>Operator commands\<close>

text \<open>A checked transition of the embedded machine.\<close>

definition cm_transition ::
  "system_state \<Rightarrow> 'fc commander \<Rightarrow> (state_transition_error, unit) result \<times> 'fc commander" where
  "cm_transition to cm =
    (case try_transition (cm_sm cm) to of (r, sm) \<Rightarrow> (r, cm\<lparr>cm_sm := sm\<rparr>))"

definition connect ::
  "'fc fc_ops \<Rightarrow> clocks \<Rightarrow> utc \<Rightarrow> 'fc commander \<Rightarrow> unit commander_result \<times> 'fc commander" where
  "connect ops c now cm =
    (case op_connect ops c (cm_fc cm) of
       (Inl e, fc) \<Rightarrow> (Inl (CeFc e), cm\<lparr>cm_fc := fc\<rparr>)
     | (Inr _, fc) \<Rightarrow>
         let cm = cm\<lparr>cm_fc := fc, cm_connected := True,
               cm_watchdogs := register now FcHeartbeat
                 \<lparr>wd_timeout = from_millis (max (fc_heartbeat_wdt_ms (cm_config cm)) 1000),
                   on_expiry = WdAbort\<rparr> (cm_watchdogs cm)\<rparr>
         in case cm_transition Armed cm of
              (Inl e, cm) \<Rightarrow> (Inl (CeStateTransition e), cm)
            | (Inr _, cm) \<Rightarrow> (Inr (), cm))"

definition disconnect ::
  "'fc fc_ops \<Rightarrow> 'fc commander \<Rightarrow> unit commander_result \<times> 'fc commander" where
  "disconnect ops cm =
    (case op_disconnect ops (cm_fc cm) of
       (Inl e, fc) \<Rightarrow> (Inl (CeFc e), cm\<lparr>cm_fc := fc\<rparr>)
     | (Inr _, fc) \<Rightarrow> (Inr (), cm\<lparr>cm_fc := fc, cm_connected := False\<rparr>))"

definition arm :: "'fc fc_ops \<Rightarrow> 'fc commander \<Rightarrow> unit commander_result \<times> 'fc commander" where
  "arm ops cm =
    (if \<not> cm_connected cm then (Inl CeNotConnected, cm)
     else case op_arm ops (cm_fc cm) of
            (Inl e, fc) \<Rightarrow> (Inl (CeFc e), cm\<lparr>cm_fc := fc\<rparr>)
          | (Inr _, fc) \<Rightarrow> (Inr (), cm\<lparr>cm_fc := fc\<rparr>))"

definition disarm :: "'fc fc_ops \<Rightarrow> 'fc commander \<Rightarrow> unit commander_result \<times> 'fc commander" where
  "disarm ops cm =
    (if \<not> cm_connected cm then (Inl CeNotConnected, cm)
     else case op_disarm ops (cm_fc cm) of
            (Inl e, fc) \<Rightarrow> (Inl (CeFc e), cm\<lparr>cm_fc := fc\<rparr>)
          | (Inr _, fc) \<Rightarrow>
              (Inr (), (snd (cm_transition Idle (cm\<lparr>cm_fc := fc\<rparr>)))\<lparr>cm_active_target_id := None\<rparr>))"

definition start_scanning :: "'fc commander \<Rightarrow> unit commander_result \<times> 'fc commander" where
  "start_scanning cm =
    (case cm_transition Scanning cm of
       (Inl e, cm) \<Rightarrow> (Inl (CeStateTransition e), cm)
     | (Inr _, cm) \<Rightarrow> (Inr (), cm\<lparr>cm_active_target_id := None\<rparr>))"

definition select_target ::
  "target_id \<Rightarrow> 'fc commander \<Rightarrow> unit commander_result \<times> 'fc commander" where
  "select_target tid cm =
    (if cm_state cm \<in> {Scanning, Tracking, TrackingDegraded, Lost}
     then case cm_transition TargetSelected cm of
            (Inl e, cm) \<Rightarrow> (Inl (CeStateTransition e), cm)
          | (Inr _, cm) \<Rightarrow>
              (case cm_transition Tracking cm of
                 (Inl e, cm) \<Rightarrow> (Inl (CeStateTransition e), cm)
               | (Inr _, cm) \<Rightarrow> (Inr (), cm\<lparr>cm_active_target_id := Some tid\<rparr>))
     else (Inl (CeInvalidState (cm_state cm) Scanning), cm))"

definition reset :: "'fc commander \<Rightarrow> unit commander_result \<times> 'fc commander" where
  "reset cm =
    (if cm_state cm \<noteq> Abort then (Inl (CeInvalidState (cm_state cm) Abort), cm)
     else case cm_transition Idle cm of
            (Inl e, cm) \<Rightarrow> (Inl (CeStateTransition e), cm)
          | (Inr _, cm) \<Rightarrow> (Inr (), cm\<lparr>cm_active_target_id := None\<rparr>))"

definition set_flight_mode ::
  "'fc fc_ops \<Rightarrow> flight_mode \<Rightarrow> 'fc commander \<Rightarrow> unit commander_result \<times> 'fc commander" where
  "set_flight_mode ops mode cm =
    (if \<not> cm_connected cm then (Inl CeNotConnected, cm)
     else case op_set_mode ops mode (cm_fc cm) of
            (Inl e, fc) \<Rightarrow> (Inl (CeFc e), cm\<lparr>cm_fc := fc\<rparr>)
          | (Inr _, fc) \<Rightarrow> (Inr (), cm\<lparr>cm_fc := fc\<rparr>))"

definition set_roi ::
  "'fc fc_ops \<Rightarrow> roi_target \<Rightarrow> 'fc commander \<Rightarrow> unit commander_result \<times> 'fc commander" where
  "set_roi ops roi cm =
    (if \<not> cm_connected cm then (Inl CeNotConnected, cm)
     else case op_set_roi ops roi (cm_fc cm) of
            (Inl e, fc) \<Rightarrow> (Inl (CeFc e), cm\<lparr>cm_fc := fc\<rparr>)
          | (Inr _, fc) \<Rightarrow> (Inr (), cm\<lparr>cm_fc := fc\<rparr>))"

section \<open>Abort, corrections, the per-frame update\<close>

text \<open>A failure to send the RTL command returns before the target is cleared.\<close>

definition abort_internal ::
  "'fc fc_ops \<Rightarrow> instant \<Rightarrow> 'fc commander \<Rightarrow> unit commander_result \<times> 'fc commander" where
  "abort_internal ops now cm =
    (let cm = cm\<lparr>cm_sm := force_transition (cm_sm cm) Abort,
                 cm_rate_limiter := force_send now (cm_rate_limiter cm)\<rparr>
     in case op_set_mode ops Rtl (cm_fc cm) of
          (Inl e, fc) \<Rightarrow> (Inl (CeFc e), cm\<lparr>cm_fc := fc\<rparr>)
        | (Inr _, fc) \<Rightarrow> (Inr (), cm\<lparr>cm_fc := fc, cm_active_target_id := None\<rparr>))"

definition abort ::
  "'fc fc_ops \<Rightarrow> instant \<Rightarrow> 'fc commander \<Rightarrow> unit commander_result \<times> 'fc commander" where
  "abort ops now cm = abort_internal ops now cm"

text \<open>\<open>clamp(-1.0, 1.0)\<close>, whose limits are ordered.\<close>

definition clamp_unit :: "f32 \<Rightarrow> f32" where
  "clamp_unit x = (case clamp x (Fin (- 1)) (Fin 1) of Some y \<Rightarrow> y | None \<Rightarrow> NaN)"

definition correction_target :: "camera_params \<Rightarrow> attitude \<Rightarrow> correction_command \<Rightarrow> position_target_ned"
where
  "correction_target camera att cmd =
    (let norm = \<lparr>off_x = clamp_unit (offset_x cmd), off_y = clamp_unit (offset_y cmd)\<rparr>;
         ned = offset_to_ned_target_with_attitude camera norm (att_pitch att) (att_yaw att)
     in \<lparr>pt_north = Fin 0, pt_east = Fin 0, pt_down = Fin 0, pt_yaw = nt_yaw ned\<rparr>)"

definition send_correction_to_fc ::
  "'fc fc_ops \<Rightarrow> instant \<Rightarrow> correction_command \<Rightarrow> 'fc commander
     \<Rightarrow> unit commander_result \<times> 'fc commander" where
  "send_correction_to_fc ops now cmd cm =
    (case try_send now (cm_rate_limiter cm) of
       (False, rl) \<Rightarrow> (Inr (), cm\<lparr>cm_rate_limiter := rl\<rparr>)
     | (True, rl) \<Rightarrow>
         let cm = cm\<lparr>cm_rate_limiter := rl\<rparr>;
             target = correction_target (cm_camera cm) (op_attitude ops (cm_fc cm)) cmd
         in case op_set_position ops target (cm_fc cm) of
              (Inl e, fc) \<Rightarrow> (Inl (CeFc e), cm\<lparr>cm_fc := fc\<rparr>)
            | (Inr _, fc) \<Rightarrow> (Inr (), cm\<lparr>cm_fc := fc\<rparr>))"

text \<open>The clock readings of one \<open>update\<close>, in the order the code takes them.\<close>

record update_clocks =
  uc_feed_inference :: utc
  uc_feed_tracking :: utc
  uc_generated :: instant
  uc_guard :: instant
  uc_osc :: instant
  uc_send :: instant
  uc_feed_command :: utc
  uc_done :: instant

definition proportional_command ::
  "commander_config \<Rightarrow> instant \<Rightarrow> f32 \<times> f32 \<Rightarrow> correction_command" where
  "proportional_command config now offset =
    \<lparr>yaw_rate_dps = fst offset * max_yaw_rate_dps config,
     pitch_rate_dps = snd offset * max_pitch_rate_dps config,
     offset_x = fst offset, offset_y = snd offset, generated_at = now\<rparr>"

text \<open>
  The control part of \<open>update\<close>: the result is the value with which it returns early
  (\<open>Some\<close>), or \<open>None\<close> when it goes on.
\<close>

definition update_control ::
  "'fc fc_ops \<Rightarrow> update_clocks \<Rightarrow> (f32 \<times> f32) option \<Rightarrow> 'fc commander
     \<Rightarrow> unit commander_result option \<times> 'fc commander" where
  "update_control ops uc target_offset cm =
    (case (cm_active_target_id cm, target_offset) of
       (Some _, Some offset) \<Rightarrow>
         if cm_state cm = Tracking \<or> cm_state cm = TrackingDegraded then
           (case process (cm_config cm) (uc_guard uc) (uc_osc uc) (cm_anti_loop cm)
                   (proportional_command (cm_config cm) (uc_generated uc) offset) of
              (Allow clipped, al) \<Rightarrow>
                (case send_correction_to_fc ops (uc_send uc) clipped (cm\<lparr>cm_anti_loop := al\<rparr>) of
                   (Inl e, cm) \<Rightarrow> (Some (Inl e), cm)
                 | (Inr _, cm) \<Rightarrow> (None, cm))
            | (Suppress, al) \<Rightarrow> (None, cm\<lparr>cm_anti_loop := al\<rparr>)
            | (GuardDegrade, al) \<Rightarrow>
                (None, snd (cm_transition TrackingDegraded (cm\<lparr>cm_anti_loop := al\<rparr>)))
            | (GuardAbort, al) \<Rightarrow>
                (case abort_internal ops (uc_send uc) (cm\<lparr>cm_anti_loop := al\<rparr>) of
                   (r, cm) \<Rightarrow> (Some r, cm)))
         else (None, cm)
     | _ \<Rightarrow> (None, cm))"

definition update ::
  "'fc fc_ops \<Rightarrow> update_clocks \<Rightarrow> detection list \<Rightarrow> (f32 \<times> f32) option \<Rightarrow> 'fc commander
     \<Rightarrow> unit commander_result \<times> 'fc commander" where
  "update ops uc detections target_offset cm =
    (let cm = cm\<lparr>cm_watchdogs := feed (uc_feed_tracking uc) TrackingLoop
                   (feed (uc_feed_inference uc) InferenceLoop (cm_watchdogs cm))\<rparr>
     in case update_control ops uc target_offset cm of
          (Some r, cm) \<Rightarrow> (r, cm)
        | (None, cm) \<Rightarrow>
            (Inr (), cm\<lparr>cm_watchdogs := feed (uc_feed_command uc) CommandLoop (cm_watchdogs cm),
                        cm_last_command_at := Some (uc_done uc)\<rparr>))"

section \<open>Watchdogs and health\<close>

definition feed_video_watchdog :: "utc \<Rightarrow> 'fc commander \<Rightarrow> 'fc commander" where
  "feed_video_watchdog now cm = cm\<lparr>cm_watchdogs := feed now VideoLoop (cm_watchdogs cm)\<rparr>"

text \<open>Feeding through the handle \<open>watchdog_registry()\<close>, which shares the registry.\<close>

definition feed_watchdog :: "watchdog_id \<Rightarrow> utc \<Rightarrow> 'fc commander \<Rightarrow> 'fc commander" where
  "feed_watchdog i now cm = cm\<lparr>cm_watchdogs := feed now i (cm_watchdogs cm)\<rparr>"

lemma feed_video_is: "feed_video_watchdog now cm = feed_watchdog VideoLoop now cm"
  by (simp add: feed_video_watchdog_def feed_watchdog_def)

definition process_expiry :: "watchdog_id \<times> watchdog_action \<Rightarrow> 'fc commander \<Rightarrow> 'fc commander" where
  "process_expiry x cm =
    (let cm = cm\<lparr>cm_watchdogs := note_expiry_processed (fst x) (cm_watchdogs cm)\<rparr>
     in case snd x of
          WdDegrade \<Rightarrow>
            if cm_state cm = Tracking then snd (cm_transition TrackingDegraded cm) else cm
        | WdAbort \<Rightarrow> cm)"

definition process_watchdog_expiries ::
  "wd_iter \<Rightarrow> utc \<Rightarrow> 'fc commander \<Rightarrow> (watchdog_id \<times> watchdog_action) list \<times> 'fc commander" where
  "process_watchdog_expiries iter now cm =
    (let expired = check_expired iter now (cm_watchdogs cm)
     in if expired = [] then ([], cm) else (expired, fold process_expiry expired cm))"

record commander_health =
  ch_state :: system_state
  ch_transitions :: nat
  ch_connected :: bool
  ch_armed :: bool
  ch_fc_mode :: flight_mode
  ch_fc_heartbeat_stale :: bool
  ch_active_target_id :: "target_id option"
  ch_watchdogs :: "watchdog_snapshot list"
  ch_anti_loop :: anti_loop_snapshot
  ch_rate_limiter_sent :: nat
  ch_rate_limiter_dropped :: nat
  ch_last_command_age_ms :: nat

text \<open>
  Readings: the wall clock of the watchdog snapshot, both clocks of the heartbeat status, the
  wall clock of the staleness test, the monotonic clock of the age.  The age of the last
  command is truncated to 64 bits; \<open>u64::MAX\<close> stands for no command.
\<close>

definition health_snapshot ::
  "'fc fc_ops \<Rightarrow> wd_iter \<Rightarrow> utc \<Rightarrow> clocks \<Rightarrow> utc \<Rightarrow> instant \<Rightarrow> 'fc commander \<Rightarrow> commander_health"
where
  "health_snapshot ops iter wd_now c hb_now now cm =
    (let hb = op_heartbeat_status ops c (cm_fc cm)
     in \<lparr>ch_state = cm_state cm,
         ch_transitions = transition_count (cm_sm cm),
         ch_connected = cm_connected cm,
         ch_armed = hb_armed hb,
         ch_fc_mode = hb_mode hb,
         ch_fc_heartbeat_stale = heartbeat_is_stale hb_now hb 1000,
         ch_active_target_id = cm_active_target_id cm,
         ch_watchdogs = wd_snapshot iter wd_now (cm_watchdogs cm),
         ch_anti_loop = anti_loop_snapshot_of (cm_anti_loop cm),
         ch_rate_limiter_sent = sent_count (cm_rate_limiter cm),
         ch_rate_limiter_dropped = dropped_count (cm_rate_limiter cm),
         ch_last_command_age_ms = (case cm_last_command_at cm of
             Some t \<Rightarrow> as_millis (now - t) mod 2 ^ 64
           | None \<Rightarrow> 2 ^ 64 - 1)\<rparr>)"

end
