(* ===== verification/Commander_Runs.thy ===== *)
theory Commander_Runs
  imports Commander
begin

text \<open>
  Runs of the commander: every public operation as a datatype of requests, the invariant that
  every request preserves, and what a request can send to the flight controller.  The lemmas
  about the adapter are proved once in the contract \<open>fc_contract\<close>.
\<close>

section \<open>Requests\<close>

datatype cm_op =
    OpConnect clocks utc
  | OpDisconnect
  | OpArm
  | OpDisarm
  | OpStartScanning
  | OpSelect target_id
  | OpUpdate update_clocks "detection list" "(f32 \<times> f32) option"
  | OpFeed watchdog_id utc
  | OpExpiries utc
  | OpAbort instant
  | OpReset
  | OpSetMode flight_mode
  | OpSetRoi roi_target

fun cm_step :: "'fc fc_ops \<Rightarrow> wd_iter \<Rightarrow> cm_op \<Rightarrow> 'fc commander \<Rightarrow> 'fc commander" where
  "cm_step ops iter (OpConnect c now) cm = snd (connect ops c now cm)"
| "cm_step ops iter OpDisconnect cm = snd (disconnect ops cm)"
| "cm_step ops iter OpArm cm = snd (arm ops cm)"
| "cm_step ops iter OpDisarm cm = snd (disarm ops cm)"
| "cm_step ops iter OpStartScanning cm = snd (start_scanning cm)"
| "cm_step ops iter (OpSelect tid) cm = snd (select_target tid cm)"
| "cm_step ops iter (OpUpdate uc dets off) cm = snd (update ops uc dets off cm)"
| "cm_step ops iter (OpFeed i now) cm = feed_watchdog i now cm"
| "cm_step ops iter (OpExpiries now) cm = snd (process_watchdog_expiries iter now cm)"
| "cm_step ops iter (OpAbort now) cm = snd (abort ops now cm)"
| "cm_step ops iter OpReset cm = snd (reset cm)"
| "cm_step ops iter (OpSetMode m) cm = snd (set_flight_mode ops m cm)"
| "cm_step ops iter (OpSetRoi roi) cm = snd (set_roi ops roi cm)"

primrec cm_run :: "'fc fc_ops \<Rightarrow> wd_iter \<Rightarrow> cm_op list \<Rightarrow> 'fc commander \<Rightarrow> 'fc commander" where
  "cm_run ops iter [] cm = cm"
| "cm_run ops iter (x # xs) cm = cm_run ops iter xs (cm_step ops iter x cm)"

lemma cm_run_append: "cm_run ops iter (xs @ ys) cm = cm_run ops iter ys (cm_run ops iter xs cm)"
  by (induction xs arbitrary: cm) simp_all

section \<open>Fields of each operation\<close>

lemma cm_transition_fields [simp]:
  "cm_fc (snd (cm_transition to cm)) = cm_fc cm"
  "cm_config (snd (cm_transition to cm)) = cm_config cm"
  "cm_anti_loop (snd (cm_transition to cm)) = cm_anti_loop cm"
  "cm_rate_limiter (snd (cm_transition to cm)) = cm_rate_limiter cm"
  "cm_camera (snd (cm_transition to cm)) = cm_camera cm"
  "cm_watchdogs (snd (cm_transition to cm)) = cm_watchdogs cm"
  "cm_active_target_id (snd (cm_transition to cm)) = cm_active_target_id cm"
  "cm_connected (snd (cm_transition to cm)) = cm_connected cm"
  by (simp_all add: cm_transition_def split: prod.splits)

lemma cm_transition_state:
  "cm_state (snd (cm_transition to cm))
     = (if is_transition_allowed (cm_state cm) to then to else cm_state cm)"
  by (auto simp: cm_transition_def try_transition_def split: prod.splits)

lemma cm_transition_eq:
  "cm_transition to cm = (r, cm') \<longleftrightarrow>
     (if cm_state cm = to then r = Inr () \<and> cm' = cm
      else if is_transition_allowed (cm_state cm) to
        then r = Inr () \<and> cm' = cm\<lparr>cm_sm := \<lparr>sm_state = to,
               transition_count = transition_count (cm_sm cm) + 1\<rparr>\<rparr>
      else r = Inl (InvalidTransition (cm_state cm) to) \<and> cm' = cm)"
  by (cases cm; cases "cm_sm cm") (auto simp: cm_transition_def try_transition_def)

lemma abort_internal_fields [simp]:
  "cm_state (snd (abort_internal ops now cm)) = Abort"
  "cm_config (snd (abort_internal ops now cm)) = cm_config cm"
  "cm_anti_loop (snd (abort_internal ops now cm)) = cm_anti_loop cm"
  "cm_camera (snd (abort_internal ops now cm)) = cm_camera cm"
  "cm_watchdogs (snd (abort_internal ops now cm)) = cm_watchdogs cm"
  "cm_rate_limiter (snd (abort_internal ops now cm)) = force_send now (cm_rate_limiter cm)"
  by (auto simp: abort_internal_def Let_def force_transition_def split: prod.splits sum.splits)

lemma send_correction_fields [simp]:
  "cm_sm (snd (send_correction_to_fc ops now cmd cm)) = cm_sm cm"
  "cm_config (snd (send_correction_to_fc ops now cmd cm)) = cm_config cm"
  "cm_anti_loop (snd (send_correction_to_fc ops now cmd cm)) = cm_anti_loop cm"
  "cm_camera (snd (send_correction_to_fc ops now cmd cm)) = cm_camera cm"
  "cm_watchdogs (snd (send_correction_to_fc ops now cmd cm)) = cm_watchdogs cm"
  "cm_active_target_id (snd (send_correction_to_fc ops now cmd cm)) = cm_active_target_id cm"
  "cm_rate_limiter (snd (send_correction_to_fc ops now cmd cm))
     = snd (try_send now (cm_rate_limiter cm))"
  by (auto simp: send_correction_to_fc_def Let_def split: prod.splits sum.splits bool.splits)

section \<open>What an update does\<close>

definition may_correct :: "'fc commander \<Rightarrow> bool" where
  "may_correct cm \<longleftrightarrow> cm_active_target_id cm \<noteq> None
     \<and> (cm_state cm = Tracking \<or> cm_state cm = TrackingDegraded)"

lemma update_control_cases:
  assumes "update_control ops uc off cm = (r, cm')"
  obtains (idle) "\<not> (may_correct cm \<and> off \<noteq> None)" "r = None" "cm' = cm"
  | (guarded) o1 d al where "may_correct cm" "off = Some o1"
      "process (cm_config cm) (uc_guard uc) (uc_osc uc) (cm_anti_loop cm)
         (proportional_command (cm_config cm) (uc_generated uc) o1) = (d, al)"
      "case d of
         Allow c \<Rightarrow> cm' = snd (send_correction_to_fc ops (uc_send uc) c (cm\<lparr>cm_anti_loop := al\<rparr>))
       | Suppress \<Rightarrow> cm' = cm\<lparr>cm_anti_loop := al\<rparr>
       | GuardDegrade \<Rightarrow> cm' = snd (cm_transition TrackingDegraded (cm\<lparr>cm_anti_loop := al\<rparr>))
       | GuardAbort \<Rightarrow> cm' = snd (abort_internal ops (uc_send uc) (cm\<lparr>cm_anti_loop := al\<rparr>))
             \<and> r \<noteq> None"
proof (cases "may_correct cm \<and> off \<noteq> None")
  case False
  then show ?thesis using assms that(1)
    by (auto simp: update_control_def may_correct_def split: option.splits)
next
  case True
  then obtain tid o1 where t: "cm_active_target_id cm = Some tid" "off = Some o1"
    by (auto simp: may_correct_def)
  obtain d al where p: "process (cm_config cm) (uc_guard uc) (uc_osc uc) (cm_anti_loop cm)
         (proportional_command (cm_config cm) (uc_generated uc) o1) = (d, al)"
    by fastforce
  show ?thesis
    by (rule that(2) [OF _ t(2) p])
      (use True assms t p in \<open>auto simp: update_control_def may_correct_def
          split: guard_decision.splits prod.splits sum.splits\<close>)
qed

text \<open>The watchdog feeds and the time stamp around the control part.\<close>

definition frame_start :: "update_clocks \<Rightarrow> 'fc commander \<Rightarrow> 'fc commander" where
  "frame_start uc cm = cm\<lparr>cm_watchdogs := feed (uc_feed_tracking uc) TrackingLoop
     (feed (uc_feed_inference uc) InferenceLoop (cm_watchdogs cm))\<rparr>"

lemma frame_start_simps [simp]:
  "cm_sm (frame_start uc cm) = cm_sm cm" "cm_fc (frame_start uc cm) = cm_fc cm"
  "cm_config (frame_start uc cm) = cm_config cm"
  "cm_anti_loop (frame_start uc cm) = cm_anti_loop cm"
  "cm_camera (frame_start uc cm) = cm_camera cm"
  "cm_rate_limiter (frame_start uc cm) = cm_rate_limiter cm"
  "cm_active_target_id (frame_start uc cm) = cm_active_target_id cm"
  "may_correct (frame_start uc cm) = may_correct cm"
  by (simp_all add: frame_start_def may_correct_def)

lemma update_eq:
  assumes "update_control ops uc off (frame_start uc cm) = (r, cm1)"
  shows "update ops uc dets off cm =
    (case r of Some x \<Rightarrow> (x, cm1)
     | None \<Rightarrow> (Inr (), cm1\<lparr>cm_watchdogs := feed (uc_feed_command uc) CommandLoop (cm_watchdogs cm1),
                          cm_last_command_at := Some (uc_done uc)\<rparr>))"
  using assms by (simp add: update_def frame_start_def split: option.splits)

lemma update_fields:
  assumes "update_control ops uc off (frame_start uc cm) = (r, cm1)"
  shows "cm_sm (snd (update ops uc dets off cm)) = cm_sm cm1"
    "cm_fc (snd (update ops uc dets off cm)) = cm_fc cm1"
    "cm_config (snd (update ops uc dets off cm)) = cm_config cm1"
    "cm_anti_loop (snd (update ops uc dets off cm)) = cm_anti_loop cm1"
    "cm_rate_limiter (snd (update ops uc dets off cm)) = cm_rate_limiter cm1"
    "cm_active_target_id (snd (update ops uc dets off cm)) = cm_active_target_id cm1"
  by (simp_all add: update_eq [OF assms] split: option.splits)

section \<open>The invariant\<close>

text \<open>
  A commander between two operations is in one of six states; it has a target only while it
  tracks, or in \<open>Abort\<close> when the RTL command failed.
\<close>

definition live_states :: "system_state set" where
  "live_states = {Idle, Armed, Scanning, Tracking, TrackingDegraded, Abort}"

definition cm_inv :: "'fc commander \<Rightarrow> bool" where
  "cm_inv cm \<longleftrightarrow> cm_state cm \<in> live_states
     \<and> (cm_active_target_id cm \<noteq> None \<longrightarrow> cm_state cm \<in> {Tracking, TrackingDegraded, Abort})
     \<and> al_inv (cm_config cm) (cm_anti_loop cm)"

lemma cm_inv_new:
  "commander_new ts config fc = Some cm \<Longrightarrow>
     cm_inv cm \<and> cm_state cm = Idle \<and> cm_active_target_id cm = None \<and> cm_fc cm = fc
     \<and> cm_config cm = config"
  by (auto simp: commander_new_def cm_inv_def live_states_def sm_new_def al_inv_new Let_def
      split: prod.splits)

text \<open>The operations that neither move the machine nor touch the target.\<close>

definition same_control :: "'fc commander \<Rightarrow> 'fc commander \<Rightarrow> bool" where
  "same_control cm cm' \<longleftrightarrow> cm_sm cm' = cm_sm cm
     \<and> cm_active_target_id cm' = cm_active_target_id cm
     \<and> cm_anti_loop cm' = cm_anti_loop cm \<and> cm_config cm' = cm_config cm"

lemma same_control_inv: "same_control cm cm' \<Longrightarrow> cm_inv cm' = cm_inv cm"
  by (simp add: same_control_def cm_inv_def)

lemma same_control_ops:
  "same_control cm (snd (disconnect ops cm))"
  "same_control cm (snd (arm ops cm))"
  "same_control cm (snd (set_flight_mode ops m cm))"
  "same_control cm (snd (set_roi ops roi cm))"
  "same_control cm (feed_watchdog i now cm)"
  by (auto simp: same_control_def disconnect_def arm_def set_flight_mode_def set_roi_def
      feed_watchdog_def split: prod.splits sum.splits)

lemma cm_inv_connect [inv_intros]: "cm_inv cm \<Longrightarrow> cm_inv (snd (connect ops c now cm))"
  by (auto simp: connect_def Let_def cm_transition_eq cm_inv_def live_states_def
      split: prod.splits sum.splits if_splits)

lemma cm_inv_disarm [inv_intros]: "cm_inv cm \<Longrightarrow> cm_inv (snd (disarm ops cm))"
  by (auto simp: disarm_def Let_def cm_transition_state cm_inv_def live_states_def
      split: prod.splits sum.splits if_splits)

lemma start_scanning_fields:
  "cm_inv cm \<Longrightarrow> start_scanning cm = (r, cm') \<Longrightarrow>
     (case r of
        Inr _ \<Rightarrow> cm_state cm' = Scanning \<and> cm_active_target_id cm' = None
      | Inl _ \<Rightarrow> cm' = cm) \<and> cm_fc cm' = cm_fc cm \<and> cm_config cm' = cm_config cm
      \<and> cm_anti_loop cm' = cm_anti_loop cm"
  by (auto simp: start_scanning_def cm_transition_eq split: prod.splits sum.splits if_splits)

lemma cm_inv_start_scanning [inv_intros]: "cm_inv cm \<Longrightarrow> cm_inv (snd (start_scanning cm))"
  using start_scanning_fields [of cm "fst (start_scanning cm)" "snd (start_scanning cm)"]
  by (auto simp: cm_inv_def live_states_def split: sum.splits)

text \<open>\<open>select_target\<close> accepts four states, but the table lets only \<open>Scanning\<close> through.\<close>

lemma select_target_eq:
  "select_target tid cm =
    (if cm_state cm = Scanning
     then (Inr (), cm\<lparr>cm_sm := \<lparr>sm_state = Tracking, transition_count = transition_count (cm_sm cm) + 2\<rparr>,
                      cm_active_target_id := Some tid\<rparr>)
     else if cm_state cm \<in> {Tracking, TrackingDegraded, Lost}
       then (Inl (CeStateTransition (InvalidTransition (cm_state cm) TargetSelected)), cm)
     else (Inl (CeInvalidState (cm_state cm) Scanning), cm))"
proof -
  have "cm_transition to cm1 = (if cm_state cm1 = to then (Inr (), cm1)
      else if is_transition_allowed (cm_state cm1) to
        then (Inr (), cm1\<lparr>cm_sm := \<lparr>sm_state = to,
               transition_count = transition_count (cm_sm cm1) + 1\<rparr>\<rparr>)
      else (Inl (InvalidTransition (cm_state cm1) to), cm1))" for to and cm1 :: "'a commander"
    by (cases cm1; cases "cm_sm cm1") (simp add: cm_transition_def try_transition_def)
  then show ?thesis by (auto simp: select_target_def)
qed

lemma cm_inv_select [inv_intros]: "cm_inv cm \<Longrightarrow> cm_inv (snd (select_target tid cm))"
  by (auto simp: select_target_eq cm_inv_def live_states_def)

lemma cm_inv_reset [inv_intros]: "cm_inv cm \<Longrightarrow> cm_inv (snd (reset cm))"
  by (auto simp: reset_def cm_transition_eq cm_inv_def live_states_def
      split: prod.splits sum.splits if_splits)

lemma cm_inv_abort [inv_intros]: "cm_inv cm \<Longrightarrow> cm_inv (snd (abort_internal ops now cm))"
  by (simp add: cm_inv_def live_states_def)

lemma process_expiry_fields [simp]:
  "cm_fc (process_expiry x cm) = cm_fc cm" "cm_config (process_expiry x cm) = cm_config cm"
  "cm_anti_loop (process_expiry x cm) = cm_anti_loop cm"
  "cm_rate_limiter (process_expiry x cm) = cm_rate_limiter cm"
  "cm_active_target_id (process_expiry x cm) = cm_active_target_id cm"
  "cm_state (process_expiry x cm)
     = (if snd x = WdDegrade \<and> cm_state cm = Tracking then TrackingDegraded else cm_state cm)"
  by (auto simp: process_expiry_def Let_def cm_transition_state split: watchdog_action.splits)

lemma fold_expiry_fields [simp]:
  "cm_fc (fold process_expiry xs cm) = cm_fc cm"
  "cm_config (fold process_expiry xs cm) = cm_config cm"
  "cm_anti_loop (fold process_expiry xs cm) = cm_anti_loop cm"
  "cm_rate_limiter (fold process_expiry xs cm) = cm_rate_limiter cm"
  "cm_active_target_id (fold process_expiry xs cm) = cm_active_target_id cm"
  by (induction xs arbitrary: cm) simp_all

lemma fold_expiry_state:
  "cm_state (fold process_expiry xs cm)
     = (if cm_state cm = Tracking \<and> (\<exists>x \<in> set xs. snd x = WdDegrade) then TrackingDegraded
        else cm_state cm)"
proof (induction xs arbitrary: cm)
  case (Cons x xs)
  show ?case
    unfolding fold_Cons comp_def Cons.IH [of "process_expiry x cm"] process_expiry_fields(6)
    by (cases "cm_state cm = Tracking"; cases "snd x = WdDegrade") simp_all
qed simp

lemma process_expiries_eq:
  "process_watchdog_expiries iter now cm
     = (check_expired iter now (cm_watchdogs cm),
        fold process_expiry (check_expired iter now (cm_watchdogs cm)) cm)"
  by (simp add: process_watchdog_expiries_def Let_def)

lemma cm_inv_expiries [inv_intros]:
  "cm_inv cm \<Longrightarrow> cm_inv (snd (process_watchdog_expiries iter now cm))"
  by (auto simp: process_expiries_eq cm_inv_def fold_expiry_state live_states_def)

lemma cm_inv_update_control:
  assumes "cm_inv cm" and "update_control ops uc off cm = (r, cm')"
  shows "cm_inv cm'"
  using assms(2)
proof (cases rule: update_control_cases)
  case (guarded o1 d al)
  have "al_inv (cm_config cm) al"
    using al_inv_process [OF _ guarded(3)] assms(1) by (simp add: cm_inv_def)
  then show ?thesis
    using assms(1) guarded(1,4)
    by (cases d) (auto simp: cm_inv_def live_states_def cm_transition_state may_correct_def)
qed (use assms(1) in simp)

lemma cm_inv_update [inv_intros]: "cm_inv cm \<Longrightarrow> cm_inv (snd (update ops uc dets off cm))"
proof -
  assume "cm_inv cm"
  moreover obtain r cm1 where u: "update_control ops uc off (frame_start uc cm) = (r, cm1)"
    by fastforce
  ultimately have "cm_inv cm1"
    using cm_inv_update_control [OF _ u] by (simp add: cm_inv_def)
  then show ?thesis by (simp add: cm_inv_def update_fields [OF u])
qed

lemma cm_inv_step [inv_intros]: "cm_inv cm \<Longrightarrow> cm_inv (cm_step ops iter x cm)"
  by (cases x) (auto simp: same_control_inv [OF same_control_ops(1)]
    same_control_inv [OF same_control_ops(2)] same_control_inv [OF same_control_ops(3)]
    same_control_inv [OF same_control_ops(4)] same_control_inv [OF same_control_ops(5)]
    abort_def intro!: inv_intros)

lemma cm_inv_run: "cm_inv cm \<Longrightarrow> cm_inv (cm_run ops iter xs cm)"
  by (induction xs arbitrary: cm) (auto intro: cm_inv_step)

end
