(* ===== verification/Commander_Safety.thy ===== *)
theory Commander_Safety
  imports Commander_Runs
begin

text \<open>
  What the commander sends to the flight controller, for every adapter that meets
  \<open>fc_contract\<close>: at most one command per operation, corrections only while tracking, a
  latched abort, and the spacing of the corrections.
\<close>

section \<open>Commands of one operation\<close>

fun op_may_send :: "cm_op \<Rightarrow> 'fc commander \<Rightarrow> recorded_command \<Rightarrow> bool" where
  "op_may_send (OpUpdate uc dets off) cm (SetPositionTargetLocalNed t) = may_correct cm"
| "op_may_send (OpUpdate uc dets off) cm (SetMode m) = (m = Rtl \<and> may_correct cm)"
| "op_may_send (OpAbort now) cm (SetMode m) = (m = Rtl)"
| "op_may_send (OpSetMode m) cm c = (c = SetMode m)"
| "op_may_send (OpSetRoi roi) cm c = (c = SetRoi roi)"
| "op_may_send OpArm cm c = (c = CmdArm)"
| "op_may_send OpDisarm cm c = (c = CmdDisarm)"
| "op_may_send _ cm c = False"

fun is_position :: "recorded_command \<Rightarrow> bool" where
  "is_position (SetPositionTargetLocalNed t) = True"
| "is_position _ = False"

text \<open>The controller after the operations that make one call.\<close>

lemma call_fc:
  "cm_fc (snd (arm ops cm)) = (if cm_connected cm then snd (op_arm ops (cm_fc cm)) else cm_fc cm)"
  "cm_fc (snd (disarm ops cm))
     = (if cm_connected cm then snd (op_disarm ops (cm_fc cm)) else cm_fc cm)"
  "cm_fc (snd (set_flight_mode ops m cm))
     = (if cm_connected cm then snd (op_set_mode ops m (cm_fc cm)) else cm_fc cm)"
  "cm_fc (snd (set_roi ops roi cm))
     = (if cm_connected cm then snd (op_set_roi ops roi (cm_fc cm)) else cm_fc cm)"
  by (auto simp: arm_def disarm_def set_flight_mode_def set_roi_def split: prod.splits sum.splits)

text \<open>Without a target, or in \<open>Abort\<close>; only a selection leaves this set.\<close>

definition halted :: "'fc commander \<Rightarrow> bool" where
  "halted cm \<longleftrightarrow> cm_active_target_id cm = None \<or> cm_state cm = Abort"

lemma same_control_halted: "same_control cm cm' \<Longrightarrow> halted cm' = halted cm"
  by (simp add: same_control_def halted_def)

lemma halted_update: "halted cm \<Longrightarrow> halted (snd (update ops uc dets off cm))"
proof -
  assume h: "halted cm"
  obtain r cm1 where u: "update_control ops uc off (frame_start uc cm) = (r, cm1)" by fastforce
  have "\<not> may_correct cm" using h by (auto simp: halted_def may_correct_def)
  with u have "cm1 = frame_start uc cm" by (cases rule: update_control_cases) auto
  then show ?thesis using h by (simp add: halted_def update_fields [OF u])
qed

lemma halted_step:
  assumes "halted cm" and "\<forall>tid. x \<noteq> OpSelect tid"
  shows "halted (cm_step ops iter x cm)"
proof (cases x)
  case (OpConnect c now)
  then show ?thesis using assms(1)
    by (auto simp: connect_def Let_def cm_transition_eq halted_def split: prod.splits sum.splits
        if_splits)
next
  case OpDisarm
  then show ?thesis using assms(1)
    by (auto simp: disarm_def halted_def split: prod.splits sum.splits)
next
  case OpStartScanning
  then show ?thesis using assms(1)
    by (auto simp: start_scanning_def cm_transition_eq halted_def split: prod.splits sum.splits
        if_splits)
next
  case OpReset
  then show ?thesis using assms(1)
    by (auto simp: reset_def cm_transition_eq halted_def split: prod.splits sum.splits if_splits)
next
  case (OpExpiries now)
  then show ?thesis using assms(1)
    by (auto simp: process_expiries_eq halted_def fold_expiry_state)
next
  case (OpUpdate uc dets off)
  then show ?thesis using halted_update [OF assms(1)] by simp
next
  case (OpAbort now)
  then show ?thesis by (simp add: halted_def abort_def)
next
  case OpDisconnect
  then show ?thesis using assms(1) by (simp add: same_control_halted [OF same_control_ops(1)])
next
  case OpArm
  then show ?thesis using assms(1) by (simp add: same_control_halted [OF same_control_ops(2)])
next
  case (OpSetMode m)
  then show ?thesis using assms(1) by (simp add: same_control_halted [OF same_control_ops(3)])
next
  case (OpSetRoi roi)
  then show ?thesis using assms(1) by (simp add: same_control_halted [OF same_control_ops(4)])
next
  case (OpFeed i now)
  then show ?thesis using assms(1) by (simp add: same_control_halted [OF same_control_ops(5)])
qed (use assms(2) in simp)

text \<open>The machine leaves \<open>Abort\<close> only by a reset or a disarm.\<close>

lemma abort_step:
  assumes "cm_state cm = Abort" and "x \<noteq> OpReset" and "x \<noteq> OpDisarm"
  shows "cm_state (cm_step ops iter x cm) = Abort"
proof (cases x)
  case (OpConnect c now)
  then show ?thesis using assms(1)
    by (auto simp: connect_def Let_def cm_transition_eq split: prod.splits sum.splits if_splits)
next
  case OpStartScanning
  then show ?thesis using assms(1)
    by (auto simp: start_scanning_def cm_transition_eq split: prod.splits sum.splits if_splits)
next
  case (OpSelect tid)
  then show ?thesis using assms(1) by (simp add: select_target_eq)
next
  case (OpExpiries now)
  then show ?thesis using assms(1) by (simp add: process_expiries_eq fold_expiry_state)
next
  case (OpUpdate uc dets off)
  obtain r cm1 where u: "update_control ops uc off (frame_start uc cm) = (r, cm1)" by fastforce
  have "\<not> may_correct cm" using assms(1) by (auto simp: may_correct_def)
  with u have "cm1 = frame_start uc cm" by (cases rule: update_control_cases) auto
  then show ?thesis using assms(1) OpUpdate by (simp add: update_fields [OF u])
next
  case (OpAbort now)
  then show ?thesis by (simp add: abort_def)
qed (simp_all add: assms same_control_ops [unfolded same_control_def])

lemma abort_run:
  "cm_state cm = Abort \<Longrightarrow> OpReset \<notin> set xs \<Longrightarrow> OpDisarm \<notin> set xs
     \<Longrightarrow> cm_state (cm_run ops iter xs cm) = Abort"
  by (induction xs arbitrary: cm) (auto simp: abort_step)

context fc_contract
begin

text \<open>One step appends \<open>cs\<close> to the commands of the controller.\<close>

lemma abort_sent:
  obtains cs where "sent (cm_fc (snd (abort_internal ops now cm))) = sent (cm_fc cm) @ cs"
    "cs = (if is_ok (fst (abort_internal ops now cm)) then [SetMode Rtl] else [])"
    "cm_active_target_id (snd (abort_internal ops now cm))
      = (if is_ok (fst (abort_internal ops now cm)) then None else cm_active_target_id cm)"
proof (cases "op_set_mode ops Rtl (cm_fc cm)")
  case (Pair r fc)
  then show ?thesis
    using that set_mode_Ok [of Rtl "cm_fc cm" _ fc] set_mode_Err [of Rtl "cm_fc cm" _ fc]
    by (cases r) (auto simp: abort_internal_def Let_def)
qed

lemma correction_sent:
  assumes "send_correction_to_fc ops now cmd cm = (r, cm')"
  shows "(sent (cm_fc cm') = sent (cm_fc cm))
    \<or> (fst (try_send now (cm_rate_limiter cm))
       \<and> sent (cm_fc cm') = sent (cm_fc cm) @ [SetPositionTargetLocalNed
            (correction_target (cm_camera cm) (op_attitude ops (cm_fc cm)) cmd)])"
  using assms set_position_Ok set_position_Err
  by (fastforce simp: send_correction_to_fc_def Let_def split: prod.splits bool.splits sum.splits)

lemma update_control_sent:
  assumes "update_control ops uc off cm = (r, cm')"
  obtains (quiet) "sent (cm_fc cm') = sent (cm_fc cm)"
  | (corrected) o1 c al where "may_correct cm" "off = Some o1"
      "process (cm_config cm) (uc_guard uc) (uc_osc uc) (cm_anti_loop cm)
         (proportional_command (cm_config cm) (uc_generated uc) o1) = (Allow c, al)"
      "fst (try_send (uc_send uc) (cm_rate_limiter cm))"
      "cm_rate_limiter cm' = snd (try_send (uc_send uc) (cm_rate_limiter cm))"
      "sent (cm_fc cm') = sent (cm_fc cm) @ [SetPositionTargetLocalNed
            (correction_target (cm_camera cm) (op_attitude ops (cm_fc cm)) c)]"
  | (aborted) "may_correct cm" "cm_state cm' = Abort"
      "sent (cm_fc cm') = sent (cm_fc cm) @ [SetMode Rtl]"
  using assms
proof (cases rule: update_control_cases)
  case idle
  then show ?thesis using quiet by simp
next
  case (guarded o1 d al)
  show ?thesis
  proof (cases d)
    case (Allow c)
    let ?s = "send_correction_to_fc ops (uc_send uc) c (cm\<lparr>cm_anti_loop := al\<rparr>)"
    have cm': "cm' = snd ?s" using guarded(4) Allow by simp
    have "?s = (fst ?s, cm')" by (simp add: cm')
    from correction_sent [OF this] show ?thesis
    proof
      assume "sent (cm_fc cm') = sent (cm_fc (cm\<lparr>cm_anti_loop := al\<rparr>))"
      then show ?thesis using quiet by simp
    next
      assume sent: "fst (try_send (uc_send uc) (cm_rate_limiter (cm\<lparr>cm_anti_loop := al\<rparr>)))
        \<and> sent (cm_fc cm') = sent (cm_fc (cm\<lparr>cm_anti_loop := al\<rparr>)) @ [SetPositionTargetLocalNed
            (correction_target (cm_camera (cm\<lparr>cm_anti_loop := al\<rparr>))
              (op_attitude ops (cm_fc (cm\<lparr>cm_anti_loop := al\<rparr>))) c)]"
      show ?thesis
        by (rule corrected [OF guarded(1,2) guarded(3) [unfolded Allow]])
          (use sent cm' in simp_all)
    qed
  next
    case Suppress
    then show ?thesis using guarded quiet by simp
  next
    case GuardDegrade
    then show ?thesis using guarded quiet by simp
  next
    case GuardAbort
    let ?cm = "cm\<lparr>cm_anti_loop := al\<rparr>"
    obtain cs where "sent (cm_fc (snd (abort_internal ops (uc_send uc) ?cm))) = sent (cm_fc cm) @ cs"
      "cs = (if is_ok (fst (abort_internal ops (uc_send uc) ?cm)) then [SetMode Rtl] else [])"
      by (rule abort_sent [of "uc_send uc" ?cm]) simp
    then show ?thesis
      using that(1,3) guarded(1,4) GuardAbort by (auto split: if_splits)
  qed
qed

lemma update_sent:
  obtains (quiet) "sent (cm_fc (snd (update ops uc dets off cm))) = sent (cm_fc cm)"
  | (corrected) o1 c al where "may_correct cm" "off = Some o1"
      "process (cm_config cm) (uc_guard uc) (uc_osc uc) (cm_anti_loop cm)
         (proportional_command (cm_config cm) (uc_generated uc) o1) = (Allow c, al)"
      "fst (try_send (uc_send uc) (cm_rate_limiter cm))"
      "cm_rate_limiter (snd (update ops uc dets off cm))
         = snd (try_send (uc_send uc) (cm_rate_limiter cm))"
      "sent (cm_fc (snd (update ops uc dets off cm))) = sent (cm_fc cm)
         @ [SetPositionTargetLocalNed
            (correction_target (cm_camera cm) (op_attitude ops (cm_fc cm)) c)]"
  | (aborted) "may_correct cm" "cm_state (snd (update ops uc dets off cm)) = Abort"
      "sent (cm_fc (snd (update ops uc dets off cm))) = sent (cm_fc cm) @ [SetMode Rtl]"
proof -
  obtain r cm1 where u: "update_control ops uc off (frame_start uc cm) = (r, cm1)" by fastforce
  note f = update_fields [OF u, of dets]
  show ?thesis
    using u
  proof (cases rule: update_control_sent)
    case quiet
    then show ?thesis using that(1) by (simp add: f)
  next
    case (corrected o1 c al)
    note c = corrected [unfolded frame_start_simps]
    show ?thesis
      by (rule that(2) [OF c(1-4)]) (simp_all only: f c(5,6))
  next
    case aborted
    then show ?thesis using that(3) by (simp add: f)
  qed
qed

lemma call_sent:
  "appends sent [c] fc r \<Longrightarrow>
     \<exists>cs. sent (snd r) = sent fc @ cs \<and> length cs \<le> 1 \<and> set cs \<subseteq> {c}"
  by (fastforce simp: appends_def split: prod.splits sum.splits)

lemma step_sent:
  "\<exists>cs. sent (cm_fc (cm_step ops iter x cm)) = sent (cm_fc cm) @ cs
     \<and> length cs \<le> 1 \<and> (\<forall>c \<in> set cs. op_may_send x cm c)"
proof (cases x)
  case (OpUpdate uc dets off)
  show ?thesis
    by (rule update_sent [of uc dets off cm]) (use OpUpdate in auto)
next
  case (OpAbort now)
  obtain cs where "sent (cm_fc (snd (abort_internal ops now cm))) = sent (cm_fc cm) @ cs"
    "cs = (if is_ok (fst (abort_internal ops now cm)) then [SetMode Rtl] else [])"
    by (rule abort_sent)
  then show ?thesis using OpAbort by (auto simp: abort_def)
next
  case (OpConnect c now)
  have "sent (cm_fc (snd (connect ops c now cm))) = sent (cm_fc cm)"
    using quiet(1) [of c "cm_fc cm"]
    by (auto simp: connect_def Let_def cm_transition_def split: prod.splits sum.splits)
  then show ?thesis using OpConnect by simp
next
  case OpDisconnect
  have "sent (cm_fc (snd (disconnect ops cm))) = sent (cm_fc cm)"
    using quiet(2) [of "cm_fc cm"] by (auto simp: disconnect_def split: prod.splits sum.splits)
  then show ?thesis using OpDisconnect by simp
next
  case OpArm
  show ?thesis
    using call_sent [OF arm [of "cm_fc cm"]] OpArm by (auto simp: call_fc)
next
  case OpDisarm
  show ?thesis
    using call_sent [OF disarm [of "cm_fc cm"]] OpDisarm by (auto simp: call_fc)
next
  case (OpSetMode m)
  show ?thesis
    using call_sent [OF set_mode [of m "cm_fc cm"]] OpSetMode by (auto simp: call_fc)
next
  case (OpSetRoi roi)
  show ?thesis
    using call_sent [OF set_roi [of roi "cm_fc cm"]] OpSetRoi by (auto simp: call_fc)
next
  case OpStartScanning
  have "cm_fc (snd (start_scanning cm)) = cm_fc cm"
    by (auto simp: start_scanning_def cm_transition_eq split: prod.splits sum.splits if_splits)
  then show ?thesis using OpStartScanning by simp
next
  case (OpSelect tid)
  then show ?thesis by (simp add: select_target_eq)
next
  case (OpFeed i now)
  then show ?thesis by (simp add: feed_watchdog_def)
next
  case (OpExpiries now)
  then show ?thesis by (simp add: process_expiries_eq)
next
  case OpReset
  have "cm_fc (snd (reset cm)) = cm_fc cm"
    by (auto simp: reset_def cm_transition_eq split: prod.splits sum.splits if_splits)
  then show ?thesis using OpReset by simp
qed

text \<open>Nothing is corrected while there is no target or the machine is in \<open>Abort\<close>.\<close>

lemma halted_step_sent:
  assumes "halted cm"
  shows "\<exists>cs. sent (cm_fc (cm_step ops iter x cm)) = sent (cm_fc cm) @ cs
    \<and> filter is_position cs = []"
proof -
  obtain cs where cs: "sent (cm_fc (cm_step ops iter x cm)) = sent (cm_fc cm) @ cs"
    "\<forall>c \<in> set cs. op_may_send x cm c" using step_sent by blast
  have "\<not> may_correct cm" using assms by (auto simp: halted_def may_correct_def)
  then have "\<not> is_position c" if "op_may_send x cm c" "\<And>t. x \<noteq> OpSetMode t" for c
    using that by (cases x; cases c) auto
  moreover have "\<not> is_position c" if "op_may_send (OpSetMode m) cm c" for m c
    using that by auto
  ultimately show ?thesis using cs by (cases x) (fastforce simp: filter_empty_conv)+
qed

lemma halted_run_sent:
  assumes "halted cm" and "\<forall>tid. OpSelect tid \<notin> set xs"
  shows "\<exists>cs. sent (cm_fc (cm_run ops iter xs cm)) = sent (cm_fc cm) @ cs
    \<and> filter is_position cs = []"
  using assms
proof (induction xs arbitrary: cm)
  case (Cons x xs)
  have "\<forall>tid. x \<noteq> OpSelect tid" "\<forall>tid. OpSelect tid \<notin> set xs" using Cons.prems(2) by auto
  then have "halted (cm_step ops iter x cm)" using halted_step [OF Cons.prems(1)] by blast
  from Cons.IH [OF this \<open>\<forall>tid. OpSelect tid \<notin> set xs\<close>] halted_step_sent [OF Cons.prems(1), of iter x]
  show ?case by fastforce
qed simp

end

end
