(* ===== verification/Commander_Rate.thy ===== *)
theory Commander_Rate
  imports Commander_Safety
begin

text \<open>
  The rate of the corrections over whole runs of the commander: the instants at which an
  update puts a position target on the wire are at least one interval of the limiter apart,
  also across aborts (which reset the limiter without asking it) and failed sends.
\<close>

section \<open>The instants of a run\<close>

fun op_corrections ::
  "('fc \<Rightarrow> recorded_command list) \<Rightarrow> 'fc fc_ops \<Rightarrow> cm_op \<Rightarrow> 'fc commander \<Rightarrow> instant list" where
  "op_corrections sent ops (OpUpdate uc dets off) cm =
     (if length (filter is_position (sent (cm_fc (snd (update ops uc dets off cm)))))
           \<noteq> length (filter is_position (sent (cm_fc cm)))
      then [uc_send uc] else [])"
| "op_corrections sent ops _ cm = []"

primrec correction_times ::
  "('fc \<Rightarrow> recorded_command list) \<Rightarrow> 'fc fc_ops \<Rightarrow> wd_iter \<Rightarrow> cm_op list \<Rightarrow> 'fc commander
     \<Rightarrow> instant list" where
  "correction_times sent ops iter [] cm = []"
| "correction_times sent ops iter (x # xs) cm =
     op_corrections sent ops x cm @ correction_times sent ops iter xs (cm_step ops iter x cm)"

text \<open>The readings that reach the limiter, which a monotonic clock delivers in order.\<close>

fun op_instants :: "cm_op \<Rightarrow> instant list" where
  "op_instants (OpUpdate uc dets off) = [uc_send uc]"
| "op_instants (OpAbort now) = [now]"
| "op_instants _ = []"

definition run_instants :: "cm_op list \<Rightarrow> instant list" where
  "run_instants xs = concat (map op_instants xs)"

section \<open>The limiter in a step\<close>

definition limiter_moves :: "instant list \<Rightarrow> rate_limiter \<Rightarrow> rate_limiter \<Rightarrow> bool" where
  "limiter_moves ts rl rl' \<longleftrightarrow> min_interval rl' = min_interval rl
     \<and> (last_sent rl' = last_sent rl \<or> (\<exists>t \<in> set ts. last_sent rl' = Some t))"

lemma limiter_moves_refl [simp]: "limiter_moves ts rl rl"
  by (simp add: limiter_moves_def)

lemma limiter_moves_try [simp]: "limiter_moves [t] rl (snd (try_send t rl))"
  by (auto simp: limiter_moves_def try_send_def split: option.splits)

lemma limiter_moves_force [simp]: "limiter_moves [t] rl (force_send t rl)"
  by (simp add: limiter_moves_def force_send_def)

lemma update_limiter:
  "limiter_moves [uc_send uc] (cm_rate_limiter cm)
     (cm_rate_limiter (snd (update ops uc dets off cm)))"
proof -
  obtain r cm1 where u: "update_control ops uc off (frame_start uc cm) = (r, cm1)" by fastforce
  have "limiter_moves [uc_send uc] (cm_rate_limiter cm) (cm_rate_limiter cm1)"
    using u
  proof (cases rule: update_control_cases)
    case (guarded o1 d al)
    then show ?thesis by (cases d) auto
  qed simp
  then show ?thesis by (simp add: update_fields [OF u])
qed

lemma step_limiter:
  "limiter_moves (op_instants x) (cm_rate_limiter cm) (cm_rate_limiter (cm_step ops iter x cm))"
proof (cases x)
  case (OpUpdate uc dets off)
  then show ?thesis by (simp add: update_limiter)
next
  case (OpExpiries now)
  then show ?thesis by (simp add: process_expiries_eq)
next
  case (OpSelect tid)
  then show ?thesis by (simp add: select_target_eq)
next
  case (OpConnect c now)
  then show ?thesis
    by (auto simp: connect_def Let_def cm_transition_eq split: prod.splits sum.splits if_splits)
qed (auto simp: disconnect_def arm_def disarm_def start_scanning_def reset_def set_flight_mode_def
  set_roi_def feed_watchdog_def abort_def cm_transition_eq split: prod.splits sum.splits if_splits)

context fc_contract
begin

lemma op_corrections_limited:
  assumes "t \<in> set (op_corrections sent ops x cm)"
  shows "op_corrections sent ops x cm = [t]" "op_instants x = [t]"
    "last_sent (cm_rate_limiter (cm_step ops iter x cm)) = Some t"
    "\<And>l. last_sent (cm_rate_limiter cm) = Some l \<Longrightarrow> min_interval (cm_rate_limiter cm) \<le> t - l"
proof -
  obtain uc dets off where x: "x = OpUpdate uc dets off" and t: "t = uc_send uc"
    and n: "length (filter is_position (sent (cm_fc (snd (update ops uc dets off cm)))))
           \<noteq> length (filter is_position (sent (cm_fc cm)))"
    using assms by (cases x) (auto split: if_splits)
  have lim: "fst (try_send (uc_send uc) (cm_rate_limiter cm))"
    "cm_rate_limiter (snd (update ops uc dets off cm)) = snd (try_send (uc_send uc) (cm_rate_limiter cm))"
    by (rule update_sent [of uc dets off cm]; use n in simp)+
  show "op_corrections sent ops x cm = [t]" "op_instants x = [t]" using x t n by simp_all
  have "try_send t (cm_rate_limiter cm) = (True, snd (try_send t (cm_rate_limiter cm)))"
    using lim(1) t by (simp add: prod_eq_iff)
  from limiter.attempt_ok [OF this]
  show "last_sent (cm_rate_limiter (cm_step ops iter x cm)) = Some t"
    "\<And>l. last_sent (cm_rate_limiter cm) = Some l \<Longrightarrow> min_interval (cm_rate_limiter cm) \<le> t - l"
    using x t lim(2) by simp_all
qed

lemma correction_times_spaced:
  assumes "sorted (run_instants xs)" and "0 < min_interval (cm_rate_limiter cm)"
    and "\<And>l i. last_sent (cm_rate_limiter cm) = Some l \<Longrightarrow> i \<in> set (run_instants xs) \<Longrightarrow> l \<le> i"
  shows "sorted_wrt (\<lambda>a b. a + min_interval (cm_rate_limiter cm) \<le> b)
      (correction_times sent ops iter xs cm)
    \<and> (\<forall>l a. last_sent (cm_rate_limiter cm) = Some l \<longrightarrow> a \<in> set (correction_times sent ops iter xs cm)
         \<longrightarrow> l + min_interval (cm_rate_limiter cm) \<le> a)"
  using assms
proof (induction xs arbitrary: cm)
  case (Cons x xs)
  let ?rl = "cm_rate_limiter cm" and ?cm' = "cm_step ops iter x cm"
  let ?rl' = "cm_rate_limiter ?cm'" and ?g = "min_interval (cm_rate_limiter cm)"
  have mv: "min_interval ?rl' = ?g"
    "last_sent ?rl' = last_sent ?rl \<or> (\<exists>t \<in> set (op_instants x). last_sent ?rl' = Some t)"
    using step_limiter [of x cm ops iter] by (auto simp: limiter_moves_def)
  have inst: "sorted (op_instants x)" "sorted (run_instants xs)"
    "\<And>i j. i \<in> set (op_instants x) \<Longrightarrow> j \<in> set (run_instants xs) \<Longrightarrow> i \<le> j"
    using Cons.prems(1) by (auto simp: run_instants_def sorted_append)
  have before: "\<And>l i. last_sent ?rl = Some l \<Longrightarrow> i \<in> set (op_instants x) \<Longrightarrow> l \<le> i"
    "\<And>l i. last_sent ?rl = Some l \<Longrightarrow> i \<in> set (run_instants xs) \<Longrightarrow> l \<le> i"
    using Cons.prems(3) by (auto simp: run_instants_def)
  have ih: "sorted_wrt (\<lambda>a b. a + ?g \<le> b) (correction_times sent ops iter xs ?cm')"
    "\<And>l a. last_sent ?rl' = Some l \<Longrightarrow> a \<in> set (correction_times sent ops iter xs ?cm')
       \<Longrightarrow> l + ?g \<le> a"
    using Cons.IH [of ?cm'] mv inst before Cons.prems(2) by fastforce+
  have later: "l + ?g \<le> a"
    if "last_sent ?rl = Some l" "a \<in> set (correction_times sent ops iter xs ?cm')" for l a
  proof (cases "last_sent ?rl' = last_sent ?rl")
    case True
    then show ?thesis using ih(2) that by simp
  next
    case False
    then obtain t where "t \<in> set (op_instants x)" "last_sent ?rl' = Some t" using mv(2) by blast
    then show ?thesis using ih(2) that before(1) by fastforce
  qed
  show ?case
  proof (cases "op_corrections sent ops x cm = []")
    case True
    then show ?thesis using ih(1) later by simp
  next
    case False
    then obtain t where t: "t \<in> set (op_corrections sent ops x cm)"
      by (cases "op_corrections sent ops x cm") auto
    note c = op_corrections_limited [OF t]
    have "l + ?g \<le> t" if "last_sent ?rl = Some l" for l
      using c(4) [OF that] Cons.prems(2) by linarith
    then show ?thesis using ih(1) ih(2) [OF c(3)] later c(1) by auto
  qed
qed simp

end

end
