(* ===== verification/Commander_Properties.thy ===== *)
theory Commander_Properties
  imports Commander_Rate
begin

text \<open>The properties of the commander, for every adapter that meets \<open>fc_contract\<close>.\<close>

section \<open>A concrete commander\<close>

definition mock_commander :: "system_state \<Rightarrow> target_id option \<Rightarrow> mock_fc_state commander" where
  "mock_commander s target = \<lparr>
     cm_sm = sm_new s,
     cm_watchdogs = registry_new,
     cm_anti_loop = anti_loop_new,
     cm_fc = mock_new\<lparr>mf_connected := True\<rparr>,
     cm_rate_limiter = \<lparr>min_interval = 100000000, last_sent = None, dropped_count = 0, sent_count = 0\<rparr>,
     cm_camera = \<lparr>hfov_rad = Fin 1, vfov_rad = Fin 1, cam_width = 1280, cam_height = 720\<rparr>,
     cm_config = dyadic_config,
     cm_active_target_id = target,
     cm_last_command_at = None,
     cm_connected = True\<rparr>"

lemma commander_new_Some:
  obtains cm where "commander_new ts config fc = Some cm" "cm_inv cm" "cm_state cm = Idle"
    "cm_active_target_id cm = None" "cm_fc cm = fc"
    "min_interval (cm_rate_limiter cm) = 100000000" "last_sent (cm_rate_limiter cm) = None"
proof -
  obtain cm where cm: "commander_new ts config fc = Some cm"
    by (cases ts) (simp add: commander_new_def rl_new_10 Let_def)
  then have "min_interval (cm_rate_limiter cm) = 100000000" "last_sent (cm_rate_limiter cm) = None"
    by (auto simp: commander_new_def rl_new_10 Let_def split: prod.splits)
  then show thesis using that cm cm_inv_new [OF cm] by blast
qed

section \<open>Control\<close>

text \<open>C32: Whatever is asked of a new commander, in any order, between two operations it is
  never in \<open>TargetSelected\<close>, \<open>Lost\<close> or \<open>Rth\<close>; and it holds a target only while tracking or
  after an abort.\<close>

theorem commander_reachable:
  "cm_state (cm_run ops iter xs (the (commander_new ts config fc)))
      \<in> {Idle, Armed, Scanning, Tracking, TrackingDegraded, Abort}
   \<and> (cm_active_target_id (cm_run ops iter xs (the (commander_new ts config fc))) = None
      \<or> cm_state (cm_run ops iter xs (the (commander_new ts config fc)))
          \<in> {Tracking, TrackingDegraded, Abort})"
proof (rule commander_new_Some [of ts config fc])
  fix cm
  assume cm: "commander_new ts config fc = Some cm" "cm_inv cm"
  have "cm_inv (cm_run ops iter xs cm)" by (rule cm_inv_run) (rule cm(2))
  then show ?thesis by (auto simp: cm(1) cm_inv_def live_states_def)
qed

text \<open>A target is selected exactly from \<open>Scanning\<close>, in one call that passes through
  \<open>TargetSelected\<close> to \<open>Tracking\<close>; in every other state (\<open>Tracking\<close>, \<open>TrackingDegraded\<close> and
  \<open>Lost\<close> included, which the call accepts first) it is refused and nothing changes.\<close>

lemma select_only_from_scanning:
  "is_ok (fst (select_target tid cm)) = (cm_state cm = Scanning)
   \<and> snd (select_target tid cm) =
      (if cm_state cm = Scanning
       then cm\<lparr>cm_sm := \<lparr>sm_state = Tracking, transition_count = transition_count (cm_sm cm) + 2\<rparr>,
               cm_active_target_id := Some tid\<rparr>
       else cm)"
  by (auto simp: select_target_eq)

section \<open>Commands\<close>

text \<open>C31: Every operation sends at most one command to the flight controller, of its own
  kind, and an update sends one only for an active target in a tracking state: a position
  target or, when the oscillation escalates, the return to launch.\<close>

theorem one_command_per_operation:
  assumes "fc_contract ops sent"
  shows "\<exists>cs. sent (cm_fc (cm_step ops iter x cm)) = sent (cm_fc cm) @ cs \<and> length cs \<le> 1
    \<and> list_all (op_may_send x cm) cs"
  using fc_contract.step_sent [OF assms, of iter x cm] by (simp add: list_all_iff)

theorem one_command_per_operation_witness:
  "\<exists>cs. mf_commands (cm_fc (cm_step mock_ops decl_iter (OpAbort 5) (mock_commander Tracking (Some 7))))
      = mf_commands (cm_fc (mock_commander Tracking (Some 7))) @ cs \<and> length cs \<le> 1
      \<and> list_all (op_may_send (OpAbort 5) (mock_commander Tracking (Some 7))) cs"
  by (rule one_command_per_operation) (rule mock.fc_contract_axioms)

text \<open>An abort always ends in \<open>Abort\<close>.  It reports success exactly when the return to
  launch reached the controller, and then no target is left; when the controller refuses, the
  target is kept.\<close>

lemma abort_effect:
  assumes "fc_contract ops sent"
  shows "cm_state (snd (abort ops now cm)) = Abort
    \<and> sent (cm_fc (snd (abort ops now cm)))
        = sent (cm_fc cm) @ (if is_ok (fst (abort ops now cm)) then [SetMode Rtl] else [])
    \<and> cm_active_target_id (snd (abort ops now cm))
        = (if is_ok (fst (abort ops now cm)) then None else cm_active_target_id cm)"
  by (rule fc_contract.abort_sent [OF assms, of now cm]) (simp add: abort_def)

lemma abort_effect_witness:
  "mf_commands (cm_fc (snd (abort mock_ops 5 (mock_commander Tracking (Some 7))))) = [SetMode Rtl]"
proof -
  have "is_ok (fst (abort mock_ops 5 (mock_commander Tracking (Some 7))))"
    by (simp add: abort_def abort_internal_def mock_defs mock_commander_def)
  then show ?thesis
    using abort_effect [OF mock.fc_contract_axioms, of 5 "mock_commander Tracking (Some 7)"]
    by (simp add: mock_commander_def mock_new_def)
qed

text \<open>C2: After an abort, successful or not, no position target is sent by any sequence of
  operations that does not select a new target.\<close>

theorem abort_stops_corrections:
  assumes "fc_contract ops sent" and "\<forall>tid. OpSelect tid \<notin> set xs"
  shows "\<exists>cs. sent (cm_fc (cm_run ops iter xs (snd (abort ops now cm))))
      = sent (cm_fc (snd (abort ops now cm))) @ cs \<and> filter is_position cs = []"
  by (rule fc_contract.halted_run_sent [OF assms(1) _ assms(2)]) (simp add: halted_def abort_def)

theorem abort_stops_corrections_witness:
  "\<exists>cs. mf_commands (cm_fc (cm_run mock_ops decl_iter
         [OpUpdate \<lparr>uc_feed_inference = 0, uc_feed_tracking = 0, uc_generated = 0, uc_guard = 0,
            uc_osc = 0, uc_send = 0, uc_feed_command = 0, uc_done = 0\<rparr> [] (Some (Fin 1, Fin 0))]
         (snd (abort mock_ops 5 (mock_commander Tracking (Some 7))))))
      = mf_commands (cm_fc (snd (abort mock_ops 5 (mock_commander Tracking (Some 7))))) @ cs
     \<and> filter is_position cs = []"
  by (rule abort_stops_corrections) (simp_all add: mock.fc_contract_axioms)

text \<open>C30: The abort is latched: only a reset or a disarm leaves the state \<open>Abort\<close>.\<close>

theorem abort_is_latched:
  assumes "OpReset \<notin> set xs" and "OpDisarm \<notin> set xs"
  shows "cm_state (cm_run ops iter xs (snd (abort ops now cm))) = Abort"
  by (rule abort_run [OF _ assms]) (simp add: abort_def)

theorem abort_is_latched_witness:
  "cm_state (cm_run mock_ops decl_iter [OpStartScanning, OpSelect 3, OpConnect \<lparr>mono = 9, wall = 0\<rparr> 0]
     (snd (abort mock_ops 5 (mock_commander Tracking (Some 7))))) = Abort"
  by (rule abort_is_latched) simp_all

section \<open>Corrections\<close>

lemma clamp_unit_bound: "\<not> is_nan x \<Longrightarrow> \<bar>clamp_unit x\<bar> \<le> Fin 1"
  by (cases x) (auto simp: clamp_unit_def clamp_def abs_fl_def uminus_fl_def)

lemma clamp_unit_nan: "is_nan x \<Longrightarrow> clamp_unit x = NaN"
  by (simp add: is_nan_iff clamp_unit_def clamp_def)

lemma clip_to_nan_iff: "is_nan (clip_to x m) = is_nan x"
  by (cases m; cases x) (auto simp: clip_to_def signum_def times_fl_def Let_def signed_zero_def
    signed_inf_def is_nan_iff)

lemma correction_target_bound:
  assumes "hfov_rad camera / Fin 2 = Fin h" and "0 \<le> h"
  shows "\<exists>a. pt_yaw (correction_target camera att cmd) = att_yaw att + a
    \<and> (if is_nan (offset_x cmd) then a = NaN else \<bar>a\<bar> \<le> Fin h)"
proof -
  have wf: "wf_fl (Fin h :: f32)" using wf_divide [of "hfov_rad camera" "Fin 2"] assms(1) by simp
  show ?thesis
    using times_unit_bound [OF wf assms(2) clamp_unit_bound] clamp_unit_nan
    by (intro exI [of _ "clamp_unit (offset_x cmd) * Fin h"])
      (auto simp: correction_target_def offset_to_ned_target_with_attitude_def
        offset_to_angle_def Let_def assms(1))
qed

text \<open>A correction is a pure heading: zero displacement, and a yaw that differs from the
  vehicle's by at most half the field of view.  The exception is a NaN offset, which passes
  the guard and the clamp and becomes a NaN heading on the wire.\<close>

lemma correction_heading:
  assumes "fc_contract ops sent"
    and "sent (cm_fc (snd (update ops uc dets (Some (ox, oy)) cm)))
           = sent (cm_fc cm) @ [SetPositionTargetLocalNed t]"
    and "hfov_rad (cm_camera cm) / Fin 2 = Fin h" and "0 \<le> h"
  shows "pt_north t = Fin 0 \<and> pt_east t = Fin 0 \<and> pt_down t = Fin 0
    \<and> (\<exists>a. pt_yaw t = att_yaw (op_attitude ops (cm_fc cm)) + a
         \<and> (if is_nan ox then a = NaN else \<bar>a\<bar> \<le> Fin h))"
proof (rule fc_contract.update_sent [OF assms(1), of uc dets "Some (ox, oy)" cm])
  fix o1 c al
  assume off: "Some (ox, oy) = Some o1"
    and p: "process (cm_config cm) (uc_guard uc) (uc_osc uc) (cm_anti_loop cm)
         (proportional_command (cm_config cm) (uc_generated uc) o1) = (Allow c, al)"
    and sent: "sent (cm_fc (snd (update ops uc dets (Some (ox, oy)) cm)))
         = sent (cm_fc cm) @ [SetPositionTargetLocalNed
              (correction_target (cm_camera cm) (op_attitude ops (cm_fc cm)) c)]"
  have t: "t = correction_target (cm_camera cm) (op_attitude ops (cm_fc cm)) c"
    using sent assms(2) by simp
  have c: "is_nan (offset_x c) = is_nan ox"
    using p
  proof (cases rule: process_cases)
    case (trigger st1)
    then show ?thesis using handle_oscillation_fields(8) [OF trigger(5)] by simp
  next
    case (allow st1)
    then show ?thesis using off
      by (simp add: clip_command_def clip_to_nan_iff proportional_command_def) auto
  qed simp_all
  show ?thesis
    using correction_target_bound [OF assms(3,4), of "op_attitude ops (cm_fc cm)" c]
    by (simp add: t c) (simp add: correction_target_def Let_def)
qed (use assms(2) in simp_all)

text \<open>One update of the concrete commander: the offset 1/8 is allowed and sent.\<close>

definition frame_clocks :: "nat \<Rightarrow> update_clocks" where
  "frame_clocks t = \<lparr>uc_feed_inference = int t, uc_feed_tracking = int t, uc_generated = t,
     uc_guard = t, uc_osc = t, uc_send = t, uc_feed_command = int t, uc_done = t\<rparr>"

lemma eighth_offset:
  "process dyadic_config t t' anti_loop_new
      (proportional_command dyadic_config t (Fin (1 / 8), Fin 0))
    = (Allow (proportional_command dyadic_config t (Fin (1 / 8), Fin 0)),
       anti_loop_new\<lparr>yaw_sign_history := [True], allowed_count := 1\<rparr>)"
proof -
  have clip: "clip_command dyadic_config (proportional_command dyadic_config t (Fin (1 / 8), Fin 0))
      = proportional_command dyadic_config t (Fin (1 / 8), Fin 0)"
    and pos: "Fin 0 < Fin (1 / 8) * max_yaw_rate_dps dyadic_config"
  proof -
    have v: "Fin (1 / 8) * max_yaw_rate_dps dyadic_config = Fin (15 / 4)"
      "Fin 0 * max_pitch_rate_dps dyadic_config = Fin 0" by code_simp+
    show "Fin 0 < Fin (1 / 8) * max_yaw_rate_dps dyadic_config" unfolding v by simp
    show "clip_command dyadic_config (proportional_command dyadic_config t (Fin (1 / 8), Fin 0))
      = proportional_command dyadic_config t (Fin (1 / 8), Fin 0)"
      by (simp add: clip_command_def proportional_command_def v clip_to_def)
        (simp add: dyadic_config_def abs_fl_def)
  qed
  show ?thesis
    using pos by (simp add: process_def process_thawed_def anti_loop_new_def clip Let_def
        oscillating_def push_history_def)
      (simp add: proportional_command_def)
qed

lemma eighth_update:
  "snd (update mock_ops (frame_clocks t) [] (Some (Fin (1 / 8), Fin 0))
      (mock_commander Tracking (Some 7)))
   = (mock_commander Tracking (Some 7))\<lparr>
       cm_anti_loop := anti_loop_new\<lparr>yaw_sign_history := [True], allowed_count := 1\<rparr>,
       cm_rate_limiter := \<lparr>min_interval = 100000000, last_sent = Some t, dropped_count = 0,
         sent_count = 1\<rparr>,
       cm_fc := mock_new\<lparr>mf_connected := True, mf_commands := [SetPositionTargetLocalNed
         (correction_target (cm_camera (mock_commander Tracking (Some 7))) attitude_default
            (proportional_command dyadic_config t (Fin (1 / 8), Fin 0)))]\<rparr>,
       cm_last_command_at := Some t\<rparr>"
  by (simp add: update_def update_control_def send_correction_to_fc_def mock_commander_def
      frame_clocks_def sm_new_def eighth_offset try_send_def mock_defs mock_new_def
      registry_new_def feed_def Let_def)

lemma correction_heading_witness:
  "\<exists>t. mf_commands (cm_fc (snd (update mock_ops (frame_clocks 0) [] (Some (Fin (1 / 8), Fin 0))
          (mock_commander Tracking (Some 7))))) = [SetPositionTargetLocalNed t]
     \<and> pt_north t = Fin 0"
proof -
  define t where "t = correction_target (cm_camera (mock_commander Tracking (Some 7)))
      attitude_default (proportional_command dyadic_config 0 (Fin (1 / 8), Fin 0))"
  have half: "hfov_rad (cm_camera (mock_commander Tracking (Some 7))) / Fin 2 = Fin (1 / 2)"
    using half_exact [of 1] by (simp add: mock_commander_def fl_of_nat_exact)
  have sent: "mf_commands (cm_fc (snd (update mock_ops (frame_clocks 0) []
        (Some (Fin (1 / 8), Fin 0)) (mock_commander Tracking (Some 7)))))
      = mf_commands (cm_fc (mock_commander Tracking (Some 7))) @ [SetPositionTargetLocalNed t]"
    unfolding eighth_update by (simp add: t_def mock_commander_def mock_new_def)
  from correction_heading [OF mock.fc_contract_axioms sent half] sent show ?thesis
    by (auto simp: mock_commander_def mock_new_def)
qed

text \<open>C1: However a new commander is used, with readings of a monotonic clock, its corrections
  are at least 100 ms apart, so no window of one second holds more than ten.\<close>

theorem correction_rate:
  assumes "fc_contract ops sent" and "sorted (run_instants xs)"
  shows "sorted_wrt (\<lambda>a b. a + from_millis 100 \<le> b)
      (correction_times sent ops iter xs (the (commander_new ts config fc)))
    \<and> length (filter (\<lambda>t. t0 \<le> t \<and> t < t0 + from_secs 1)
        (correction_times sent ops iter xs (the (commander_new ts config fc)))) \<le> 10"
proof (rule commander_new_Some [of ts config fc])
  fix cm
  assume cm: "commander_new ts config fc = Some cm"
    "min_interval (cm_rate_limiter cm) = 100000000" "last_sent (cm_rate_limiter cm) = None"
  have s: "sorted_wrt (\<lambda>a b. a + 100000000 \<le> b) (correction_times sent ops iter xs cm)"
    using fc_contract.correction_times_spaced [OF assms, of cm iter] cm(2,3) by simp
  have "length (filter (\<lambda>t. t0 \<le> t \<and> t < t0 + from_secs 1) (correction_times sent ops iter xs cm))
      \<le> (from_secs 1 + 100000000 - 1) div 100000000"
    by (rule limiter.spaced_length [where ?t0.0 = t0]) (auto intro: sorted_wrt_filter s)
  then show ?thesis using s cm(1) by (simp add: from_secs_def from_millis_def)
qed

theorem correction_rate_witness:
  "length (filter (\<lambda>t. 0 \<le> t \<and> t < 0 + from_secs 1)
     (correction_times mf_commands mock_ops decl_iter
       [OpConnect \<lparr>mono = 0, wall = 0\<rparr> 0, OpStartScanning, OpSelect 7,
        OpUpdate (frame_clocks 5) [] (Some (Fin (1 / 8), Fin 0)), OpAbort 6]
       (the (commander_new (0, 0, 0, 0) dyadic_config mock_new)))) \<le> 10"
  using correction_rate [OF mock.fc_contract_axioms, of
      "[OpConnect \<lparr>mono = 0, wall = 0\<rparr> 0, OpStartScanning, OpSelect 7,
        OpUpdate (frame_clocks 5) [] (Some (Fin (1 / 8), Fin 0)), OpAbort 6]"
      decl_iter "(0, 0, 0, 0)" dyadic_config mock_new 0]
  by (simp add: run_instants_def frame_clocks_def del: correction_times.simps)

section \<open>Watchdogs\<close>

text \<open>Processing the expiries reports exactly the expired watchdogs, whatever the order of
  the hash map, degrades a tracking commander when one of them asks for it, and touches
  neither the target nor the flight controller: an \<open>Abort\<close> action is left to the caller.\<close>

lemma expiries_exact:
  assumes "hash_order iter" and "process_watchdog_expiries iter now cm = (expired, cm')"
  shows "set expired = {(i, on_expiry (wd_config e)) | i e.
            cm_watchdogs cm i = Some e \<and> entry_expired now e}
    \<and> cm_state cm' = (if cm_state cm = Tracking \<and> (\<exists>i. (i, WdDegrade) \<in> set expired)
                        then TrackingDegraded else cm_state cm)
    \<and> cm_active_target_id cm' = cm_active_target_id cm \<and> cm_fc cm' = cm_fc cm"
proof -
  have e: "expired = check_expired iter now (cm_watchdogs cm)" "cm' = fold process_expiry expired cm"
    using assms(2) by (auto simp: process_expiries_eq)
  have "(\<exists>x \<in> set expired. snd x = WdDegrade) \<longleftrightarrow> (\<exists>i. (i, WdDegrade) \<in> set expired)" by force
  then have "cm_state cm' = (if cm_state cm = Tracking \<and> (\<exists>i. (i, WdDegrade) \<in> set expired)
                        then TrackingDegraded else cm_state cm)"
    by (simp add: e(2) fold_expiry_state)
  moreover have "set expired = {(i, on_expiry (wd_config e)) | i e.
            cm_watchdogs cm i = Some e \<and> entry_expired now e}"
    using check_expired_iff [OF assms(1)] by (auto simp: e(1))
  ultimately show ?thesis by (simp add: e(2))
qed

lemma expiries_exact_witness:
  "cm_fc (snd (process_watchdog_expiries decl_iter 5 (mock_commander Tracking (Some 7))))
    = cm_fc (mock_commander Tracking (Some 7))"
proof -
  define r where "r = process_watchdog_expiries decl_iter 5 (mock_commander Tracking (Some 7))"
  have "process_watchdog_expiries decl_iter 5 (mock_commander Tracking (Some 7)) = (fst r, snd r)"
    by (simp add: r_def)
  from expiries_exact [OF wd_order.hash_order_axioms this] show ?thesis
    by (simp add: r_def)
qed

text \<open>The heartbeat deadline: once the controller has accepted the connection at \<open>t\<close>, and
  with no heartbeat fed, the expiry check orders an abort exactly from
  \<open>t + max(config, 1000) + 1\<close> milliseconds on.\<close>

lemma heartbeat_deadline:
  assumes "hash_order iter" and "op_connect ops c (cm_fc cm) = (Inr (), fc)"
  shows "(FcHeartbeat, WdAbort)
      \<in> set (fst (process_watchdog_expiries iter now (snd (connect ops c t cm))))
    \<longleftrightarrow> t + 1000000 * (int (max (fc_heartbeat_wdt_ms (cm_config cm)) 1000) + 1) \<le> now"
proof -
  have "cm_watchdogs (snd (connect ops c t cm)) FcHeartbeat = Some \<lparr>last_fed = t, wd_config =
      \<lparr>wd_timeout = from_millis (max (fc_heartbeat_wdt_ms (cm_config cm)) 1000), on_expiry = WdAbort\<rparr>,
      expiry_count = 0, feed_count = 0\<rparr>"
    using assms(2)
    by (auto simp: connect_def Let_def cm_transition_eq register_def
        split: prod.splits sum.splits if_splits)
  then show ?thesis
    by (simp add: process_expiries_eq check_expired_iff [OF assms(1)] entry_expired_def
        utc_elapsed_ms_less_iff)
qed

lemma heartbeat_deadline_witness:
  "(FcHeartbeat, WdAbort) \<in> set (fst (process_watchdog_expiries decl_iter 1001000000
     (snd (connect mock_ops \<lparr>mono = 0, wall = 0\<rparr> 0 (mock_commander Idle None)))))"
proof -
  have "op_connect mock_ops \<lparr>mono = 0, wall = 0\<rparr> (cm_fc (mock_commander Idle None))
      = (Inr (), (cm_fc (mock_commander Idle None))\<lparr>mf_connected := True,
           mf_last_heartbeat := Some 0, mf_mode := Stabilize\<rparr>)"
    by (simp add: mock_defs)
  from heartbeat_deadline [OF wd_order.hash_order_axioms this, of 1001000000 0] show ?thesis
    by (simp add: mock_commander_def dyadic_config_def commander_config_default_def)
qed

end
