(* ===== verification/Event_Bus.thy ===== *)
theory Event_Bus
  imports Common_Types
begin

text \<open>
  \<open>crates/event-bus/src/lib.rs\<close>: the messages of the bus and its topics.  The transport
  (zenoh sessions, serde encoding) is third-party code and is not modelled.
\<close>

datatype bus_error =
    BusZenoh string
  | BusSerde string
  | BusClosed
  | BusTimeout
  | BusEndpoint string

definition topic_detections :: string where "topic_detections = ''at/detections''"

definition topic_telemetry :: string where "topic_telemetry = ''at/telemetry''"

definition topic_commands :: string where "topic_commands = ''at/commands''"

definition topic_config :: string where "topic_config = ''at/config''"

definition topic_tracks :: string where "topic_tracks = ''at/tracks''"

definition topic_classifications :: string where "topic_classifications = ''at/classifications''"

definition topic_fc_events :: string where "topic_fc_events = ''at/fc_events''"

definition topic_config_ack :: string where "topic_config_ack = ''at/config_ack''"

definition topic_status :: "string \<Rightarrow> string" where
  "topic_status component = ''at/status/'' @ component"

definition contract_version :: u8 where
  "contract_version = 1"

record bus_config =
  bc_endpoint :: string
  bc_listen :: bool
  bc_scope :: string

definition bus_config_default :: bus_config where
  "bus_config_default = \<lparr>bc_endpoint = ''tcp/127.0.0.1:7447'', bc_listen = True, bc_scope = []\<rparr>"

text \<open>The key of a topic, prefixed by the session's scope.\<close>

definition bus_key :: "string \<Rightarrow> string \<Rightarrow> string" where
  "bus_key scope topic = (if scope = [] then topic else scope @ ''/'' @ topic)"

record detections_frame =
  df_frame_seq :: u64
  df_captured_at :: utc
  df_detections :: "detection list"
  df_frame_w :: u32
  df_frame_h :: u32

record telemetry_sample =
  tel_t_ms :: int
  tel_roll_deg :: f32
  tel_pitch_deg :: f32
  tel_yaw_deg :: f32
  tel_alt_m :: f32
  tel_lat_deg :: f64
  tel_lon_deg :: f64
  tel_battery_v :: f32
  tel_mode :: u8

definition telemetry_minimal :: "int \<Rightarrow> f32 \<Rightarrow> f32 \<Rightarrow> f32 \<Rightarrow> f32 \<Rightarrow> telemetry_sample" where
  "telemetry_minimal t_ms roll pitch yaw alt = \<lparr>tel_t_ms = t_ms, tel_roll_deg = roll,
     tel_pitch_deg = pitch, tel_yaw_deg = yaw, tel_alt_m = alt, tel_lat_deg = Fin 0,
     tel_lon_deg = Fin 0, tel_battery_v = Fin 0, tel_mode = 255\<rparr>"

record track_msg =
  tm_v :: u8
  tm_track_id :: u64
  tm_frame_seq :: u64
  tm_bbox :: bounding_box
  tm_vx :: f32
  tm_vy :: f32
  tm_class :: string
  tm_class_id :: u32
  tm_confidence :: f32
  tm_age :: u32
  tm_misses :: u32

text \<open>Commands and flight controller events carry a JSON value, of the parameter type \<open>'json\<close>.\<close>

record 'json command_msg =
  cmd_v :: u8
  cmd_target :: string
  cmd_name :: string
  cmd_args :: 'json
  cmd_source :: string
  cmd_id :: u64

record 'json fc_event =
  fe_v :: u8
  fe_kind :: string
  fe_detail :: 'json
  fe_at :: utc

end
