(* ===== verification/Bus_Runner.thy ===== *)
theory Bus_Runner
  imports Event_Bus Commander_Properties "HOL-Library.Sublist"
begin

text \<open>
  \<open>crates/commander/src/bus_runner.rs\<close>: the commander driven by the bus.  What the
  subscriptions deliver and what the clocks read is the input of a tick; the tick is a
  composition of commander operations, which makes the properties of commander runs
  properties of the bus loop.
\<close>

section \<open>State and inputs\<close>

record commander_bus_config =
  frame_size :: "u32 \<times> u32"
  max_track_misses :: u32
  status_interval :: duration
  max_duration :: "duration option"

definition commander_bus_config_default :: commander_bus_config where
  "commander_bus_config_default = \<lparr>frame_size = (640, 480), max_track_misses = 15,
     status_interval = from_secs 1, max_duration = None\<rparr>"

record commander_bus_stats =
  tracks_received :: nat
  telemetry_received :: nat
  corrections_sent :: nat
  corrections_suppressed :: nat

definition commander_bus_stats_default :: commander_bus_stats where
  "commander_bus_stats_default = \<lparr>tracks_received = 0, telemetry_received = 0,
     corrections_sent = 0, corrections_suppressed = 0\<rparr>"

record commander_status =
  cs_v :: u8
  cs_state :: system_state
  cs_active_target :: "u64 option"
  cs_tracks_received :: nat
  cs_telemetry_received :: nat
  cs_corrections_sent :: nat
  cs_corrections_suppressed :: nat

record 'fc bus_state =
  bs_commander :: "'fc commander"
  bs_stats :: commander_bus_stats
  bs_last_status :: instant

text \<open>The clock readings while one track is handled, in order.\<close>

record track_clocks =
  tk_feed_command :: utc
  tk_feed_video :: utc
  tk_update :: update_clocks
  tk_feed_tracking :: utc
  tk_feed_inference :: utc
  tk_feed_video2 :: utc

text \<open>
  One iteration of the loop: whether a telemetry sample was waiting (with the reading of the
  feed), the tracks the subscription delivers until it fails or the budget is used up, and
  the readings of the rest of the tick.
\<close>

record tick_input =
  ti_telemetry :: "utc option"
  ti_tracks :: "(track_msg \<times> track_clocks) list"
  ti_feed_command :: utc
  ti_feed_video :: utc
  ti_check :: utc
  ti_abort :: instant
  ti_status :: instant
  ti_status_done :: instant

definition track_budget :: nat where
  "track_budget = 32"

section \<open>The loop\<close>

definition track_bbox_center :: "track_msg \<Rightarrow> f32 \<times> f32" where
  "track_bbox_center t =
    (let b = tm_bbox t
     in (u32_as_f32 (b_x b) + u32_as_f32 (b_width b) / Fin 2,
         u32_as_f32 (b_y b) + u32_as_f32 (b_height b) / Fin 2))"

definition track_offset :: "commander_bus_config \<Rightarrow> track_msg \<Rightarrow> f32 \<times> f32" where
  "track_offset cfg track =
    (case track_bbox_center track of (cx, cy) \<Rightarrow>
     case frame_size cfg of (w, h) \<Rightarrow>
       ((cx - u32_as_f32 w / Fin 2) / (u32_as_f32 w / Fin 2),
        (cy - u32_as_f32 h / Fin 2) / (u32_as_f32 h / Fin 2)))"

text \<open>The first target seen becomes the active one.\<close>

definition confirm_target :: "track_msg \<Rightarrow> 'fc commander \<Rightarrow> 'fc commander" where
  "confirm_target track cm =
    (if cm_active_target_id cm \<noteq> Some (tm_track_id track) \<and> cm_active_target_id cm = None
     then snd (select_target (tm_track_id track) cm) else cm)"

definition control_track ::
  "'fc fc_ops \<Rightarrow> commander_bus_config \<Rightarrow> track_msg \<Rightarrow> update_clocks
     \<Rightarrow> 'fc commander \<times> commander_bus_stats \<Rightarrow> 'fc commander \<times> commander_bus_stats" where
  "control_track ops cfg track uc s =
    (case s of (cm, stats) \<Rightarrow>
      if tm_misses track \<le> max_track_misses cfg
         \<and> cm_active_target_id cm = Some (tm_track_id track)
      then let before = sent_count (cm_rate_limiter cm)
           in case update ops uc [] (Some (track_offset cfg track)) cm of
                (Inl _, cm) \<Rightarrow> (cm, stats)
              | (Inr _, cm) \<Rightarrow>
                  let after = sent_count (cm_rate_limiter cm)
                  in if before < after then (cm, stats\<lparr>corrections_sent := after\<rparr>)
                     else (cm, stats\<lparr>corrections_suppressed := corrections_suppressed stats + 1\<rparr>)
      else (cm, stats))"

definition handle_track ::
  "'fc fc_ops \<Rightarrow> commander_bus_config \<Rightarrow> track_msg \<times> track_clocks
     \<Rightarrow> 'fc commander \<times> commander_bus_stats \<Rightarrow> 'fc commander \<times> commander_bus_stats" where
  "handle_track ops cfg x s =
    (case x of (track, tk) \<Rightarrow> case s of (cm, stats) \<Rightarrow>
      let stats = stats\<lparr>tracks_received := tracks_received stats + 1\<rparr>;
          cm = feed_watchdog CommandLoop (tk_feed_command tk) cm;
          cm = feed_video_watchdog (tk_feed_video tk) cm;
          cm = confirm_target track cm
      in case control_track ops cfg track (tk_update tk) (cm, stats) of (cm, stats) \<Rightarrow>
           (feed_video_watchdog (tk_feed_video2 tk)
              (feed_watchdog InferenceLoop (tk_feed_inference tk)
                (feed_watchdog TrackingLoop (tk_feed_tracking tk) cm)),
            stats))"

text \<open>The first expired watchdog that asks for an abort gets it, followed by a reset.\<close>

primrec handle_expired ::
  "'fc fc_ops \<Rightarrow> instant \<Rightarrow> (watchdog_id \<times> watchdog_action) list \<Rightarrow> 'fc commander \<Rightarrow> 'fc commander"
where
  "handle_expired ops now [] cm = cm"
| "handle_expired ops now (x # xs) cm =
     (if snd x = WdAbort then snd (reset (snd (abort ops now cm)))
      else handle_expired ops now xs cm)"

definition status_of :: "'fc commander \<Rightarrow> commander_bus_stats \<Rightarrow> commander_status" where
  "status_of cm stats = \<lparr>cs_v = contract_version, cs_state = cm_state cm,
     cs_active_target = cm_active_target_id cm, cs_tracks_received = tracks_received stats,
     cs_telemetry_received = telemetry_received stats,
     cs_corrections_sent = corrections_sent stats,
     cs_corrections_suppressed = corrections_suppressed stats\<rparr>"

definition bus_tick ::
  "'fc fc_ops \<Rightarrow> wd_iter \<Rightarrow> commander_bus_config \<Rightarrow> tick_input \<Rightarrow> 'fc bus_state
     \<Rightarrow> commander_status option \<times> 'fc bus_state" where
  "bus_tick ops iter cfg ti s =
    (let (cm, stats) = (case ti_telemetry ti of
            Some now \<Rightarrow> (feed_watchdog FcHeartbeat now (bs_commander s),
               (bs_stats s)\<lparr>telemetry_received := telemetry_received (bs_stats s) + 1\<rparr>)
          | None \<Rightarrow> (bs_commander s, bs_stats s));
         (cm, stats) = fold (handle_track ops cfg) (take track_budget (ti_tracks ti)) (cm, stats);
         cm = feed_watchdog CommandLoop (ti_feed_command ti) cm;
         cm = feed_video_watchdog (ti_feed_video ti) cm;
         (expired, cm) = process_watchdog_expiries iter (ti_check ti) cm;
         cm = handle_expired ops (ti_abort ti) expired cm
     in if status_interval cfg \<le> ti_status ti - bs_last_status s
        then (Some (status_of cm stats),
              s\<lparr>bs_commander := cm, bs_stats := stats, bs_last_status := ti_status_done ti\<rparr>)
        else (None, s\<lparr>bs_commander := cm, bs_stats := stats\<rparr>))"

text \<open>
  The start of \<open>run\<close> (\<open>None\<close> when the connection fails), and the loop: each input comes
  with the time since the start, at which the loop stops once \<open>max_duration\<close> is reached.
\<close>

definition bus_start ::
  "'fc fc_ops \<Rightarrow> clocks \<Rightarrow> utc \<Rightarrow> instant \<Rightarrow> 'fc commander \<Rightarrow> 'fc bus_state option" where
  "bus_start ops c now started cm =
    (case connect ops c now cm of
       (Inl _, cm) \<Rightarrow> None
     | (Inr _, cm) \<Rightarrow> Some \<lparr>bs_commander = snd (start_scanning cm),
         bs_stats = commander_bus_stats_default, bs_last_status = started\<rparr>)"

primrec bus_loop ::
  "'fc fc_ops \<Rightarrow> wd_iter \<Rightarrow> commander_bus_config \<Rightarrow> (duration \<times> tick_input) list \<Rightarrow> 'fc bus_state
     \<Rightarrow> 'fc bus_state" where
  "bus_loop ops iter cfg [] s = s"
| "bus_loop ops iter cfg (x # xs) s =
     (if (case max_duration cfg of Some m \<Rightarrow> m \<le> fst x | None \<Rightarrow> False) then s
      else bus_loop ops iter cfg xs (snd (bus_tick ops iter cfg (snd x) s)))"

section \<open>A tick is a run of the commander\<close>

definition no_reconnect :: "cm_op \<Rightarrow> bool" where
  "no_reconnect x \<longleftrightarrow> (case x of
       OpFeed _ _ \<Rightarrow> True | OpSelect _ \<Rightarrow> True | OpUpdate _ _ _ \<Rightarrow> True | OpExpiries _ \<Rightarrow> True
     | OpAbort _ \<Rightarrow> True | OpReset \<Rightarrow> True | _ \<Rightarrow> False)"

text \<open>\<open>cm'\<close> is reached from \<open>cm\<close> by operations the loop uses, with readings among \<open>ts\<close>.\<close>

definition run_to ::
  "'fc fc_ops \<Rightarrow> wd_iter \<Rightarrow> instant list \<Rightarrow> 'fc commander \<Rightarrow> 'fc commander \<Rightarrow> bool" where
  "run_to ops iter ts cm cm' \<longleftrightarrow> (\<exists>xs. cm' = cm_run ops iter xs cm \<and> list_all no_reconnect xs
     \<and> subseq (run_instants xs) ts)"

lemma run_to_refl [simp]: "run_to ops iter ts cm cm"
  unfolding run_to_def by (rule exI [of _ "[]"]) (simp add: run_instants_def)

lemma run_to_trans:
  "run_to ops iter ts cm cm1 \<Longrightarrow> run_to ops iter us cm1 cm2 \<Longrightarrow> run_to ops iter (ts @ us) cm cm2"
proof -
  assume "run_to ops iter ts cm cm1" "run_to ops iter us cm1 cm2"
  then obtain xs ys where "cm1 = cm_run ops iter xs cm" "list_all no_reconnect xs"
    "subseq (run_instants xs) ts" "cm2 = cm_run ops iter ys cm1" "list_all no_reconnect ys"
    "subseq (run_instants ys) us" by (auto simp: run_to_def)
  then show ?thesis unfolding run_to_def
    by (intro exI [of _ "xs @ ys"]) (simp add: cm_run_append run_instants_def list_emb_append_mono)
qed

lemma run_to_step: "no_reconnect x \<Longrightarrow> run_to ops iter (op_instants x) cm (cm_step ops iter x cm)"
  unfolding run_to_def by (rule exI [of _ "[x]"]) (simp add: run_instants_def)

lemma run_to_weaken: "run_to ops iter ts cm cm' \<Longrightarrow> subseq ts us \<Longrightarrow> run_to ops iter us cm cm'"
  unfolding run_to_def using subseq_order.order_trans by blast

lemma run_to_quiet:
  assumes "run_to ops iter ts cm cm1"
  shows "run_to ops iter ts cm (feed_watchdog i now cm1)"
proof -
  have "run_to ops iter [] cm1 (feed_watchdog i now cm1)"
    using run_to_step [of "OpFeed i now" ops iter cm1] by (simp add: no_reconnect_def)
  from run_to_trans [OF assms this] show ?thesis by simp
qed

lemma run_to_video:
  "run_to ops iter ts cm cm1 \<Longrightarrow> run_to ops iter ts cm (feed_video_watchdog now cm1)"
  by (simp add: feed_video_is run_to_quiet)

lemma run_to_confirm:
  assumes "run_to ops iter ts cm cm1"
  shows "run_to ops iter ts cm (confirm_target track cm1)"
proof -
  have "run_to ops iter [] cm1 (confirm_target track cm1)"
    using run_to_step [of "OpSelect (tm_track_id track)" ops iter cm1]
    by (simp add: no_reconnect_def confirm_target_def)
  from run_to_trans [OF assms this] show ?thesis by simp
qed

lemma run_to_control:
  "run_to ops iter [uc_send uc] cm (fst (control_track ops cfg track uc (cm, stats)))"
proof -
  define u where "u = snd (update ops uc [] (Some (track_offset cfg track)) cm)"
  have "fst (control_track ops cfg track uc (cm, stats)) = cm
      \<or> fst (control_track ops cfg track uc (cm, stats)) = u"
    by (auto simp: control_track_def u_def Let_def split: prod.splits sum.splits)
  moreover have "run_to ops iter [uc_send uc] cm u"
    using run_to_step [of "OpUpdate uc [] (Some (track_offset cfg track))" ops iter cm]
    by (simp add: no_reconnect_def u_def)
  ultimately show ?thesis by auto
qed

definition track_instants :: "track_msg \<times> track_clocks \<Rightarrow> instant list" where
  "track_instants x = [uc_send (tk_update (snd x))]"

lemma run_to_track:
  "run_to ops iter (track_instants x) cm (fst (handle_track ops cfg x (cm, stats)))"
proof -
  obtain track tk where x: "x = (track, tk)" by (cases x)
  define cm1 where "cm1 = confirm_target track (feed_video_watchdog (tk_feed_video tk)
      (feed_watchdog CommandLoop (tk_feed_command tk) cm))"
  have "run_to ops iter [] cm cm1"
    unfolding cm1_def by (intro run_to_confirm run_to_video run_to_quiet run_to_refl)
  define c where "c = control_track ops cfg track (tk_update tk)
      (cm1, stats\<lparr>tracks_received := tracks_received stats + 1\<rparr>)"
  have "run_to ops iter [uc_send (tk_update tk)] cm1 (fst c)" unfolding c_def by (rule run_to_control)
  from run_to_trans [OF \<open>run_to ops iter [] cm cm1\<close> this]
  have "run_to ops iter [uc_send (tk_update tk)] cm (fst c)" by simp
  moreover have "fst (handle_track ops cfg x (cm, stats)) = feed_video_watchdog (tk_feed_video2 tk)
      (feed_watchdog InferenceLoop (tk_feed_inference tk)
        (feed_watchdog TrackingLoop (tk_feed_tracking tk) (fst c)))"
    by (simp add: handle_track_def x Let_def cm1_def c_def case_prod_unfold)
  ultimately show ?thesis
    by (simp add: x track_instants_def run_to_video run_to_quiet)
qed

lemma run_to_tracks:
  "run_to ops iter (concat (map track_instants xs)) cm
     (fst (fold (handle_track ops cfg) xs (cm, stats)))"
proof (induction xs arbitrary: cm stats)
  case (Cons x xs)
  obtain cm1 stats1 where h: "handle_track ops cfg x (cm, stats) = (cm1, stats1)" by fastforce
  have "run_to ops iter (track_instants x) cm cm1"
    using run_to_track [of ops iter x cm cfg stats] h by simp
  from run_to_trans [OF this Cons.IH] show ?case by (simp add: h)
qed simp

lemma run_to_expired: "run_to ops iter [now] cm (handle_expired ops now xs cm)"
proof (induction xs)
  case (Cons x xs)
  have "run_to ops iter ([now] @ []) cm (snd (reset (snd (abort ops now cm))))"
    using run_to_trans [OF run_to_step [of "OpAbort now" ops iter cm]
        run_to_step [of OpReset ops iter]]
    by (simp add: no_reconnect_def)
  then show ?case using Cons by simp
qed simp

text \<open>The readings of a tick that reach the limiter.\<close>

definition tick_instants :: "tick_input \<Rightarrow> instant list" where
  "tick_instants ti = concat (map track_instants (take track_budget (ti_tracks ti))) @ [ti_abort ti]"

text \<open>
  The instants of the corrections of a run of the loop: one entry for every position target the
  controller accepts, with the limiter's reading of the track that was handled, or of the abort
  that ended the iteration.
\<close>

definition positions :: "('fc \<Rightarrow> recorded_command list) \<Rightarrow> 'fc commander \<Rightarrow> nat" where
  "positions sent cm = length (filter is_position (sent (cm_fc cm)))"

primrec track_corrections ::
  "('fc \<Rightarrow> recorded_command list) \<Rightarrow> 'fc fc_ops \<Rightarrow> commander_bus_config
     \<Rightarrow> (track_msg \<times> track_clocks) list \<Rightarrow> 'fc commander \<times> commander_bus_stats \<Rightarrow> instant list" where
  "track_corrections sent ops cfg [] s = []"
| "track_corrections sent ops cfg (x # xs) s =
     replicate (positions sent (fst (handle_track ops cfg x s)) - positions sent (fst s))
       (uc_send (tk_update (snd x)))
     @ track_corrections sent ops cfg xs (handle_track ops cfg x s)"

definition telemetry_taken :: "tick_input \<Rightarrow> 'fc bus_state \<Rightarrow> 'fc commander \<times> commander_bus_stats" where
  "telemetry_taken ti s = (case ti_telemetry ti of
     Some now \<Rightarrow> (feed_watchdog FcHeartbeat now (bs_commander s),
        (bs_stats s)\<lparr>telemetry_received := telemetry_received (bs_stats s) + 1\<rparr>)
   | None \<Rightarrow> (bs_commander s, bs_stats s))"

definition tracks_handled ::
  "'fc fc_ops \<Rightarrow> commander_bus_config \<Rightarrow> tick_input \<Rightarrow> 'fc bus_state \<Rightarrow> 'fc commander \<times> commander_bus_stats" where
  "tracks_handled ops cfg ti s =
     fold (handle_track ops cfg) (take track_budget (ti_tracks ti)) (telemetry_taken ti s)"

definition tick_corrections ::
  "('fc \<Rightarrow> recorded_command list) \<Rightarrow> 'fc fc_ops \<Rightarrow> wd_iter \<Rightarrow> commander_bus_config \<Rightarrow> tick_input
     \<Rightarrow> 'fc bus_state \<Rightarrow> instant list" where
  "tick_corrections sent ops iter cfg ti s =
     track_corrections sent ops cfg (take track_budget (ti_tracks ti)) (telemetry_taken ti s)
     @ replicate (positions sent (bs_commander (snd (bus_tick ops iter cfg ti s)))
           - positions sent (fst (tracks_handled ops cfg ti s))) (ti_abort ti)"

primrec loop_corrections ::
  "('fc \<Rightarrow> recorded_command list) \<Rightarrow> 'fc fc_ops \<Rightarrow> wd_iter \<Rightarrow> commander_bus_config
     \<Rightarrow> (duration \<times> tick_input) list \<Rightarrow> 'fc bus_state \<Rightarrow> instant list" where
  "loop_corrections sent ops iter cfg [] s = []"
| "loop_corrections sent ops iter cfg (x # xs) s =
     (if (case max_duration cfg of Some m \<Rightarrow> m \<le> fst x | None \<Rightarrow> False) then []
      else tick_corrections sent ops iter cfg (snd x) s
        @ loop_corrections sent ops iter cfg xs (snd (bus_tick ops iter cfg (snd x) s)))"

lemma run_to_telemetry: "run_to ops iter [] (bs_commander s) (fst (telemetry_taken ti s))"
  by (auto simp: telemetry_taken_def intro: run_to_quiet split: option.splits)

lemma bus_tick_commander:
  "bs_commander (snd (bus_tick ops iter cfg ti s)) =
    (case process_watchdog_expiries iter (ti_check ti) (feed_video_watchdog (ti_feed_video ti)
        (feed_watchdog CommandLoop (ti_feed_command ti) (fst (tracks_handled ops cfg ti s)))) of
       (expired, cm) \<Rightarrow> handle_expired ops (ti_abort ti) expired cm)"
  by (simp add: bus_tick_def tracks_handled_def telemetry_taken_def Let_def case_prod_beta)

text \<open>What follows the tracks: the feeds, the expiries and perhaps the abort.\<close>

lemma run_to_finish:
  "run_to ops iter [ti_abort ti] (fst (tracks_handled ops cfg ti s))
     (bs_commander (snd (bus_tick ops iter cfg ti s)))"
proof -
  define cm2 where "cm2 = feed_video_watchdog (ti_feed_video ti)
      (feed_watchdog CommandLoop (ti_feed_command ti) (fst (tracks_handled ops cfg ti s)))"
  define ex where "ex = process_watchdog_expiries iter (ti_check ti) cm2"
  have "run_to ops iter [] (fst (tracks_handled ops cfg ti s)) cm2"
    unfolding cm2_def by (intro run_to_video run_to_quiet run_to_refl)
  moreover have "run_to ops iter [] cm2 (snd ex)"
    using run_to_step [of "OpExpiries (ti_check ti)" ops iter cm2]
    by (simp add: no_reconnect_def ex_def)
  ultimately have "run_to ops iter [] (fst (tracks_handled ops cfg ti s)) (snd ex)"
    using run_to_trans by fastforce
  from run_to_trans [OF this run_to_expired [of ops iter "ti_abort ti" "snd ex" "fst ex"]]
  show ?thesis by (simp add: bus_tick_commander ex_def cm2_def case_prod_beta)
qed

section \<open>The loop as a run\<close>

definition loop_instants :: "(duration \<times> tick_input) list \<Rightarrow> instant list" where
  "loop_instants xs = concat (map (\<lambda>x. tick_instants (snd x)) xs)"

lemma run_to_tick:
  "run_to ops iter (tick_instants ti) (bs_commander s) (bs_commander (snd (bus_tick ops iter cfg ti s)))"
proof -
  have "run_to ops iter (concat (map track_instants (take track_budget (ti_tracks ti))))
      (fst (telemetry_taken ti s)) (fst (tracks_handled ops cfg ti s))"
    using run_to_tracks [of ops iter _ "fst (telemetry_taken ti s)" cfg "snd (telemetry_taken ti s)"]
    by (simp add: tracks_handled_def)
  from run_to_trans [OF run_to_trans [OF run_to_telemetry this] run_to_finish]
  show ?thesis by (simp add: tick_instants_def)
qed

lemma run_to_loop:
  "run_to ops iter (loop_instants xs) (bs_commander s) (bs_commander (bus_loop ops iter cfg xs s))"
proof (induction xs arbitrary: s)
  case (Cons x xs)
  have "run_to ops iter (tick_instants (snd x) @ loop_instants xs) (bs_commander s)
      (bs_commander (bus_loop ops iter cfg xs (snd (bus_tick ops iter cfg (snd x) s))))"
    by (rule run_to_trans [OF run_to_tick Cons.IH])
  then show ?case by (simp add: loop_instants_def)
qed (simp add: loop_instants_def)

text \<open>The loop's states: no scanning, no target.\<close>

definition dormant :: "'fc commander \<Rightarrow> bool" where
  "dormant cm \<longleftrightarrow> cm_state cm \<in> {Idle, Abort} \<and> cm_active_target_id cm = None"

definition bound_to :: "target_id \<Rightarrow> 'fc commander \<Rightarrow> bool" where
  "bound_to tid cm \<longleftrightarrow> cm_active_target_id cm = Some tid
     \<and> cm_state cm \<in> {Tracking, TrackingDegraded, Abort}"

lemma update_state_cases:
  obtains "cm_state (snd (update ops uc dets off cm)) = cm_state cm"
      "cm_active_target_id (snd (update ops uc dets off cm)) = cm_active_target_id cm"
  | "may_correct cm" "cm_state (snd (update ops uc dets off cm)) = TrackingDegraded"
      "cm_active_target_id (snd (update ops uc dets off cm)) = cm_active_target_id cm"
  | "may_correct cm" "cm_state (snd (update ops uc dets off cm)) = Abort"
      "cm_active_target_id (snd (update ops uc dets off cm)) \<in> {None, cm_active_target_id cm}"
proof -
  obtain r cm1 where u: "update_control ops uc off (frame_start uc cm) = (r, cm1)" by fastforce
  have "cm_state cm1 = cm_state cm \<and> cm_active_target_id cm1 = cm_active_target_id cm
    \<or> may_correct cm \<and> cm_state cm1 = TrackingDegraded
        \<and> cm_active_target_id cm1 = cm_active_target_id cm
    \<or> may_correct cm \<and> cm_state cm1 = Abort
        \<and> cm_active_target_id cm1 \<in> {None, cm_active_target_id cm}"
    using u
  proof (cases rule: update_control_cases)
    case (guarded o1 d al)
    show ?thesis
    proof (cases d)
      case GuardAbort
      let ?a = "abort_internal ops (uc_send uc) (frame_start uc cm\<lparr>cm_anti_loop := al\<rparr>)"
      have "cm_active_target_id (snd ?a) \<in> {None, cm_active_target_id cm}"
        by (auto simp: abort_internal_def Let_def split: prod.splits sum.splits)
      then show ?thesis using guarded GuardAbort by simp
    qed (use guarded in \<open>auto simp: cm_transition_state\<close>)
  qed simp
  then show ?thesis using that by (auto simp: update_fields [OF u, of dets])
qed

lemma abort_target: "cm_active_target_id (snd (abort ops now cm)) \<in> {None, cm_active_target_id cm}"
  by (auto simp: abort_def abort_internal_def Let_def split: prod.splits sum.splits)

lemma reset_effect:
  "cm_state cm = Abort \<Longrightarrow> cm_state (snd (reset cm)) = Idle \<and> cm_active_target_id (snd (reset cm)) = None"
  "cm_state cm \<noteq> Abort \<Longrightarrow> snd (reset cm) = cm"
  by (auto simp: reset_def cm_transition_eq split: prod.splits sum.splits)

lemma loop_step_control:
  assumes "no_reconnect x"
  shows "dormant cm \<Longrightarrow> dormant (cm_step ops iter x cm)"
    and "bound_to tid cm \<Longrightarrow> bound_to tid (cm_step ops iter x cm) \<or> dormant (cm_step ops iter x cm)"
proof -
  have "(dormant cm \<longrightarrow> dormant (cm_step ops iter x cm))
      \<and> (bound_to tid cm \<longrightarrow> bound_to tid (cm_step ops iter x cm) \<or> dormant (cm_step ops iter x cm))"
  proof (cases x)
    case (OpUpdate uc dets off)
    show ?thesis
      by (rule update_state_cases [of ops uc dets off cm])
        (auto simp: OpUpdate dormant_def bound_to_def may_correct_def)
  next
    case (OpAbort now)
    then show ?thesis using abort_target [of ops now cm]
      by (auto simp: dormant_def bound_to_def abort_def)
  next
    case OpReset
    then show ?thesis using reset_effect [of cm]
      by (cases "cm_state cm = Abort") (auto simp: dormant_def bound_to_def)
  next
    case (OpSelect tid)
    then show ?thesis by (auto simp: dormant_def bound_to_def select_target_eq)
  next
    case (OpExpiries now)
    then show ?thesis by (auto simp: dormant_def bound_to_def process_expiries_eq fold_expiry_state)
  next
    case (OpFeed i now)
    then show ?thesis by (simp add: dormant_def bound_to_def feed_watchdog_def)
  qed (use assms in \<open>simp_all add: no_reconnect_def\<close>)
  then show "dormant cm \<Longrightarrow> dormant (cm_step ops iter x cm)"
    "bound_to tid cm \<Longrightarrow> bound_to tid (cm_step ops iter x cm) \<or> dormant (cm_step ops iter x cm)"
    by blast+
qed

lemma loop_run_control:
  "list_all no_reconnect xs \<Longrightarrow> dormant cm \<Longrightarrow> dormant (cm_run ops iter xs cm)"
  "list_all no_reconnect xs \<Longrightarrow> bound_to tid cm
     \<Longrightarrow> bound_to tid (cm_run ops iter xs cm) \<or> dormant (cm_run ops iter xs cm)"
proof -
  show d: "list_all no_reconnect xs \<Longrightarrow> dormant cm \<Longrightarrow> dormant (cm_run ops iter xs cm)" for xs cm
    by (induction xs arbitrary: cm) (simp_all add: loop_step_control(1))
  show "list_all no_reconnect xs \<Longrightarrow> bound_to tid cm
      \<Longrightarrow> bound_to tid (cm_run ops iter xs cm) \<or> dormant (cm_run ops iter xs cm)"
  proof (induction xs arbitrary: cm)
    case (Cons x xs)
    then have "bound_to tid (cm_step ops iter x cm) \<or> dormant (cm_step ops iter x cm)"
      using loop_step_control(2) [where x = x and cm = cm and tid = tid and ops = ops and iter = iter]
      by simp
    then show ?case using Cons d by auto
  qed simp
qed

section \<open>What reaches the controller\<close>

lemma subseq_set: "subseq xs ys \<Longrightarrow> set xs \<subseteq> set ys"
  by (induction rule: list_emb.induct) auto

lemma sorted_subseq: "subseq xs ys \<Longrightarrow> sorted ys \<Longrightarrow> sorted (xs::nat list)"
  by (induction rule: list_emb.induct) (auto dest: subseq_set)

context fc_contract
begin

text \<open>A dormant commander sends no correction, whatever the bus delivers.\<close>

lemma dormant_run_sent:
  "dormant cm \<Longrightarrow> list_all no_reconnect xs \<Longrightarrow>
     \<exists>cs. sent (cm_fc (cm_run ops iter xs cm)) = sent (cm_fc cm) @ cs \<and> filter is_position cs = []"
proof (induction xs arbitrary: cm)
  case (Cons x xs)
  have h: "halted cm" using Cons.prems(1) by (auto simp: dormant_def halted_def)
  have "dormant (cm_step ops iter x cm)"
    using loop_step_control(1) [where x = x and cm = cm and ops = ops and iter = iter] Cons.prems
    by simp
  from Cons.IH [OF this] Cons.prems(2) halted_step_sent [OF h, of iter x] show ?case by fastforce
qed simp

text \<open>The position targets on the wire are the corrections of the run.\<close>

lemma step_positions:
  "length (filter is_position (sent (cm_fc (cm_step ops iter x cm))))
     = length (filter is_position (sent (cm_fc cm))) + length (op_corrections sent ops x cm)"
proof (cases "\<exists>uc dets off. x = OpUpdate uc dets off")
  case True
  then obtain uc dets off where x: "x = OpUpdate uc dets off" by blast
  show ?thesis by (rule update_sent [of uc dets off cm]) (simp_all add: x)
next
  case False
  obtain cs where cs: "sent (cm_fc (cm_step ops iter x cm)) = sent (cm_fc cm) @ cs"
    "\<forall>c \<in> set cs. op_may_send x cm c" using step_sent by blast
  have "\<not> is_position c" if "op_may_send x cm c" for c
    using that False by (cases x; cases c) auto
  then have "filter is_position cs = []" using cs(2) by (auto simp: filter_empty_conv)
  moreover have "op_corrections sent ops x cm = []" using False by (cases x) auto
  ultimately show ?thesis using cs(1) by simp
qed

lemma run_positions:
  "length (filter is_position (sent (cm_fc (cm_run ops iter xs cm))))
     = length (filter is_position (sent (cm_fc cm)))
       + length (correction_times sent ops iter xs cm)"
proof (induction xs arbitrary: cm)
  case (Cons x xs)
  have "length (filter is_position (sent (cm_fc (cm_run ops iter (x # xs) cm))))
      = length (filter is_position (sent (cm_fc (cm_step ops iter x cm))))
        + length (correction_times sent ops iter xs (cm_step ops iter x cm))"
    by (simp add: Cons.IH)
  then show ?case by (simp add: step_positions)
qed simp

lemma correction_times_subset:
  "set (correction_times sent ops iter xs cm) \<subseteq> set (run_instants xs)"
proof (induction xs arbitrary: cm)
  case (Cons x xs)
  have "set (op_corrections sent ops x cm) \<subseteq> set (op_instants x)"
    by (cases x) auto
  then show ?case using Cons by (auto simp: run_instants_def)
qed simp

lemma correction_times_append:
  "correction_times sent ops iter (xs @ ys) cm
     = correction_times sent ops iter xs cm @ correction_times sent ops iter ys (cm_run ops iter xs cm)"
  by (induction xs arbitrary: cm) simp_all

text \<open>A run of the commander with its corrections.\<close>

definition timed_run :: "wd_iter \<Rightarrow> instant list \<Rightarrow> instant list \<Rightarrow> 'fc commander \<Rightarrow> 'fc commander \<Rightarrow> bool" where
  "timed_run iter ts tr cm cm' \<longleftrightarrow> (\<exists>xs. cm' = cm_run ops iter xs cm
     \<and> subseq (run_instants xs) ts \<and> correction_times sent ops iter xs cm = tr)"

lemma timed_run_refl: "timed_run iter [] [] cm cm"
  unfolding timed_run_def by (rule exI [of _ "[]"]) (simp add: run_instants_def)

lemma timed_run_trans:
  assumes "timed_run iter ts tr cm cm1" "timed_run iter us ur cm1 cm2"
  shows "timed_run iter (ts @ us) (tr @ ur) cm cm2"
proof -
  obtain xs ys where "cm1 = cm_run ops iter xs cm" "subseq (run_instants xs) ts"
    "correction_times sent ops iter xs cm = tr" "cm2 = cm_run ops iter ys cm1"
    "subseq (run_instants ys) us" "correction_times sent ops iter ys cm1 = ur"
    using assms by (auto simp: timed_run_def)
  then show ?thesis unfolding timed_run_def
    by (intro exI [of _ "xs @ ys"])
      (simp add: cm_run_append run_instants_def list_emb_append_mono correction_times_append)
qed

lemma timed_run_positions:
  "timed_run iter ts tr cm cm' \<Longrightarrow> positions sent cm' = positions sent cm + length tr"
  by (auto simp: timed_run_def positions_def run_positions)

text \<open>A run with a single reading has its corrections at that reading.\<close>

lemma timed_run_single:
  assumes "run_to ops iter ts cm cm'" "set ts \<subseteq> {t}"
  shows "timed_run iter ts (replicate (positions sent cm' - positions sent cm) t) cm cm'"
proof -
  obtain xs where xs: "cm' = cm_run ops iter xs cm" "subseq (run_instants xs) ts"
    using assms(1) by (auto simp: run_to_def)
  have "set (correction_times sent ops iter xs cm) \<subseteq> {t}"
    using correction_times_subset [of iter xs cm] subseq_set [OF xs(2)] assms(2) by blast
  then have "correction_times sent ops iter xs cm
      = replicate (length (correction_times sent ops iter xs cm)) t"
    by (intro replicate_length_same [symmetric]) auto
  moreover have "length (correction_times sent ops iter xs cm) = positions sent cm' - positions sent cm"
    by (simp add: xs(1) positions_def run_positions)
  ultimately show ?thesis using xs unfolding timed_run_def by metis
qed

lemma timed_run_tracks:
  "timed_run iter (concat (map track_instants xs)) (track_corrections sent ops cfg xs s) (fst s)
     (fst (fold (handle_track ops cfg) xs s))"
proof (induction xs arbitrary: s)
  case Nil
  then show ?case by (simp add: timed_run_refl)
next
  case (Cons x xs)
  have "timed_run iter (track_instants x)
      (replicate (positions sent (fst (handle_track ops cfg x s)) - positions sent (fst s))
         (uc_send (tk_update (snd x)))) (fst s) (fst (handle_track ops cfg x s))"
    using timed_run_single [OF run_to_track [of ops iter x "fst s" cfg "snd s"]]
    by (simp add: track_instants_def)
  from timed_run_trans [OF this Cons.IH] show ?case by simp
qed

lemma timed_run_tick:
  "timed_run iter (tick_instants ti) (tick_corrections sent ops iter cfg ti s) (bs_commander s)
     (bs_commander (snd (bus_tick ops iter cfg ti s)))"
proof -
  have "timed_run iter [] (replicate (positions sent (fst (telemetry_taken ti s))
      - positions sent (bs_commander s)) undefined) (bs_commander s) (fst (telemetry_taken ti s))"
    by (rule timed_run_single [OF run_to_telemetry]) simp
  then have "timed_run iter [] [] (bs_commander s) (fst (telemetry_taken ti s))"
    by (auto simp: telemetry_taken_def positions_def feed_watchdog_def split: option.splits)
  from timed_run_trans [OF timed_run_trans [OF this
        timed_run_tracks [of iter "take track_budget (ti_tracks ti)" cfg "telemetry_taken ti s"]]
      timed_run_single [OF run_to_finish [of ops iter ti cfg s, unfolded tracks_handled_def]]]
  show ?thesis by (simp add: tick_instants_def tick_corrections_def tracks_handled_def)
qed

lemma timed_run_loop:
  "timed_run iter (loop_instants xs) (loop_corrections sent ops iter cfg xs s) (bs_commander s)
     (bs_commander (bus_loop ops iter cfg xs s))"
proof (induction xs arbitrary: s)
  case Nil
  then show ?case by (simp add: timed_run_refl loop_instants_def)
next
  case (Cons x xs)
  show ?case
  proof (cases "case max_duration cfg of Some m \<Rightarrow> m \<le> fst x | None \<Rightarrow> False")
    case True
    have "timed_run iter (loop_instants (x # xs)) [] (bs_commander s) (bs_commander s)"
      unfolding timed_run_def by (rule exI [of _ "[]"]) (simp add: run_instants_def)
    then show ?thesis using True by simp
  next
    case False
    from timed_run_trans [OF timed_run_tick Cons.IH] show ?thesis
      using False by (simp add: loop_instants_def)
  qed
qed

end

section \<open>Properties\<close>

lemma bus_start_limiter:
  assumes "bus_start ops c now started cm = Some s"
  shows "cm_rate_limiter (bs_commander s) = cm_rate_limiter cm"
proof -
  have "cm_rate_limiter (snd (connect ops c now cm)) = cm_rate_limiter cm"
    "cm_rate_limiter (snd (start_scanning cm1)) = cm_rate_limiter cm1" for cm1 :: "'a commander"
    using step_limiter [of "OpConnect c now" cm ops] step_limiter [of OpStartScanning cm1 ops]
    by (auto simp: connect_def start_scanning_def Let_def cm_transition_eq
        split: prod.splits sum.splits if_splits)
  then show ?thesis using assms by (auto simp: bus_start_def split: prod.splits sum.splits)
qed

text \<open>A concrete iteration: one fresh track of target 7.\<close>

definition example_track :: track_msg where
  "example_track = \<lparr>tm_v = 1, tm_track_id = 7, tm_frame_seq = 1,
     tm_bbox = \<lparr>b_x = 400, b_y = 200, b_width = 40, b_height = 40\<rparr>, tm_vx = Fin 0, tm_vy = Fin 0,
     tm_class = ''person'', tm_class_id = 0, tm_confidence = Fin (1 / 2), tm_age = 0, tm_misses = 0\<rparr>"

definition example_tick :: "nat \<Rightarrow> tick_input" where
  "example_tick t = \<lparr>ti_telemetry = None,
     ti_tracks = [(example_track, \<lparr>tk_feed_command = 0, tk_feed_video = 0,
        tk_update = frame_clocks t, tk_feed_tracking = 0, tk_feed_inference = 0, tk_feed_video2 = 0\<rparr>)],
     ti_feed_command = 0, ti_feed_video = 0, ti_check = 0, ti_abort = t, ti_status = t,
     ti_status_done = t\<rparr>"

lemma example_instants: "loop_instants [(0, example_tick t)] = [t, t]"
  by (simp add: loop_instants_def tick_instants_def track_instants_def example_tick_def
      track_budget_def frame_clocks_def)

text \<open>C5: Whatever tracks, telemetry, expiries and aborts there are, the position targets of the bus
  loop of a new commander are at least 100 ms apart, by the readings of a monotonic clock: the
  instants of \<open>loop_corrections\<close>, one for every position target that the controller accepts while
  the loop runs, keep that distance pairwise, and so any window of length \<open>w\<close>, wherever it lies,
  holds at most \<open>\<lceil>w / 100 ms\<rceil>\<close> of them.\<close>

theorem bus_correction_rate:
  assumes "fc_contract ops sent"
    and "bus_start ops c now started (the (commander_new ts config fc)) = Some s"
    and "sorted (loop_instants xs)"
  shows "sorted_wrt (\<lambda>a b. a + from_millis 100 \<le> b) (loop_corrections sent ops iter cfg xs s)
    \<and> length (filter (\<lambda>t. t0 \<le> t \<and> t < t0 + w) (loop_corrections sent ops iter cfg xs s))
        \<le> (w + from_millis 100 - 1) div from_millis 100
    \<and> positions sent (bs_commander (bus_loop ops iter cfg xs s))
        = positions sent (bs_commander s) + length (loop_corrections sent ops iter cfg xs s)"
proof (rule commander_new_Some [of ts config fc])
  fix cm
  assume cm: "commander_new ts config fc = Some cm"
    "min_interval (cm_rate_limiter cm) = 100000000" "last_sent (cm_rate_limiter cm) = None"
  have lim: "min_interval (cm_rate_limiter (bs_commander s)) = 100000000"
    "last_sent (cm_rate_limiter (bs_commander s)) = None"
    using bus_start_limiter [OF assms(2)] cm by simp_all
  note loop = fc_contract.timed_run_loop [OF assms(1), of iter xs cfg s]
  obtain ops_run where run: "subseq (run_instants ops_run) (loop_instants xs)"
    "correction_times sent ops iter ops_run (bs_commander s) = loop_corrections sent ops iter cfg xs s"
    using loop by (auto simp: fc_contract.timed_run_def [OF assms(1)])
  have spaced: "sorted_wrt (\<lambda>a b. a + 100000000 \<le> b) (loop_corrections sent ops iter cfg xs s)"
    using fc_contract.correction_times_spaced [OF assms(1) sorted_subseq [OF run(1) assms(3)],
        of "bs_commander s" iter] lim run(2) by simp
  have "length (filter (\<lambda>t. t0 \<le> t \<and> t < t0 + w) (loop_corrections sent ops iter cfg xs s))
      \<le> (w + 100000000 - 1) div 100000000"
    by (rule limiter.spaced_length [where ?t0.0 = t0]) (auto intro: sorted_wrt_filter spaced)
  then show ?thesis
    using spaced fc_contract.timed_run_positions [OF assms(1) loop] by (simp add: from_millis_def)
qed

theorem bus_correction_rate_witness:
  "\<exists>s. bus_start mock_ops \<lparr>mono = 0, wall = 0\<rparr> 0 0 (the (commander_new (0, 0, 0, 0) dyadic_config mock_new))
       = Some s
     \<and> sorted_wrt (\<lambda>a b. a + from_millis 100 \<le> b)
         (loop_corrections mf_commands mock_ops decl_iter commander_bus_config_default [(0, example_tick 5)] s)"
proof (rule commander_new_Some [of "(0, 0, 0, 0)" dyadic_config mock_new])
  fix cm :: "mock_fc_state commander"
  assume cm: "commander_new (0, 0, 0, 0) dyadic_config mock_new = Some cm" "cm_state cm = Idle"
  have "\<exists>s. bus_start mock_ops \<lparr>mono = 0, wall = 0\<rparr> 0 0 cm = Some s"
    using cm(2) by (auto simp: bus_start_def connect_def mock_defs Let_def cm_transition_def
        try_transition_def split: prod.splits sum.splits)
  then obtain s where s: "bus_start mock_ops \<lparr>mono = 0, wall = 0\<rparr> 0 0
      (the (commander_new (0, 0, 0, 0) dyadic_config mock_new)) = Some s" using cm(1) by auto
  from bus_correction_rate [OF mock.fc_contract_axioms s, of "[(0, example_tick 5)]"
      decl_iter commander_bus_config_default]
  show ?thesis using s by (simp add: example_instants del: loop_corrections.simps)
qed

text \<open>A commander at rest: every operation of the loop leaves it there, the abort with its reset included.\<close>

definition at_rest :: "'fc commander \<Rightarrow> bool" where
  "at_rest cm \<longleftrightarrow> cm_state cm = Idle \<and> cm_active_target_id cm = None"

lemma at_rest_expired:
  "at_rest cm \<Longrightarrow> at_rest (handle_expired ops now expired cm)"
  "\<exists>x \<in> set expired. snd x = WdAbort \<Longrightarrow> at_rest (handle_expired ops now expired cm)"
proof -
  have "at_rest (snd (reset (snd (abort ops now cm))))"
    using reset_effect(1) [of "snd (abort ops now cm)"] by (simp add: at_rest_def abort_def)
  then show "at_rest cm \<Longrightarrow> at_rest (handle_expired ops now expired cm)"
    "\<exists>x \<in> set expired. snd x = WdAbort \<Longrightarrow> at_rest (handle_expired ops now expired cm)"
    by (induction expired) auto
qed

lemma at_rest_feed [simp]:
  "at_rest (feed_watchdog i now cm) = at_rest cm" "at_rest (feed_video_watchdog now cm) = at_rest cm"
  by (simp_all add: at_rest_def feed_video_is feed_watchdog_def)

lemma at_rest_track:
  assumes "at_rest (fst s)"
  shows "at_rest (fst (handle_track ops cfg x s))"
proof -
  obtain track tk cm stats where x: "x = (track, tk)" and s: "s = (cm, stats)" by (cases x, cases s)
  have c: "confirm_target track cm' = cm'" if "at_rest cm'" for cm' :: "'a commander"
    using that by (simp add: confirm_target_def at_rest_def select_target_eq)
  have u: "control_track ops cfg track uc (cm', st') = (cm', st')" if "at_rest cm'" for cm' :: "'a commander" and uc st'
    using that by (simp add: control_track_def at_rest_def)
  show ?thesis using assms by (simp add: handle_track_def x s Let_def c u)
qed

lemma at_rest_tick:
  assumes "at_rest (bs_commander s)"
  shows "at_rest (bs_commander (snd (bus_tick ops iter cfg ti s)))"
proof -
  have "at_rest (fst (fold (handle_track ops cfg) xs s))" if "at_rest (fst s)"
    for xs and s :: "'a commander \<times> commander_bus_stats"
    using that by (induction xs arbitrary: s) (simp_all add: at_rest_track)
  moreover have "at_rest (fst (telemetry_taken ti s))"
    using assms by (simp add: telemetry_taken_def split: option.splits)
  ultimately have "at_rest (fst (tracks_handled ops cfg ti s))" by (simp add: tracks_handled_def)
  moreover have "at_rest (snd (process_watchdog_expiries iter t cm))" if "at_rest cm"
    for t and cm :: "'a commander"
    using that by (simp add: at_rest_def process_expiries_eq fold_expiry_state)
  ultimately show ?thesis by (simp add: bus_tick_commander case_prod_beta at_rest_expired(1))
qed

lemma at_rest_loop:
  "at_rest (bs_commander s) \<Longrightarrow> at_rest (bs_commander (bus_loop ops iter cfg xs s))"
  by (induction xs arbitrary: s) (simp_all add: at_rest_tick)

text \<open>C6: When an expired watchdog asks for an abort, the loop aborts and at once resets: the
  commander is \<open>Idle\<close> without a target, it is so after every later iteration of the loop, and no
  position target goes out any more, whatever the bus delivers.\<close>

theorem expired_abort_is_final:
  assumes "fc_contract ops sent" and "(i, WdAbort) \<in> set expired"
    and "bs_commander s = handle_expired ops now expired cm"
  shows "cm_state (bs_commander (bus_loop ops iter cfg xs s)) = Idle
    \<and> cm_active_target_id (bs_commander (bus_loop ops iter cfg xs s)) = None
    \<and> (\<exists>cs. sent (cm_fc (bs_commander (bus_loop ops iter cfg xs s)))
          = sent (cm_fc (bs_commander s)) @ cs \<and> filter is_position cs = [])"
proof -
  have rest: "at_rest (bs_commander s)"
    using assms(2) unfolding assms(3) by (intro at_rest_expired(2)) force
  then have d: "dormant (bs_commander s)" by (simp add: dormant_def at_rest_def)
  obtain ys where run: "bs_commander (bus_loop ops iter cfg xs s) = cm_run ops iter ys (bs_commander s)"
    "list_all no_reconnect ys"
    using run_to_loop [of ops iter xs s cfg] by (auto simp: run_to_def)
  show ?thesis
    using at_rest_loop [OF rest, of ops iter cfg xs] fc_contract.dormant_run_sent [OF assms(1) d run(2), of iter]
    unfolding run(1) at_rest_def by blast
qed

theorem expired_abort_is_final_witness:
  "cm_state (bs_commander (bus_loop mock_ops decl_iter commander_bus_config_default [(0, example_tick 5)]
     \<lparr>bs_commander = handle_expired mock_ops 1 [(FcHeartbeat, WdAbort)] (mock_commander Tracking (Some 7)),
      bs_stats = commander_bus_stats_default, bs_last_status = 0\<rparr>)) = Idle"
proof -
  define s where "s = \<lparr>bs_commander = handle_expired mock_ops 1 [(FcHeartbeat, WdAbort)]
      (mock_commander Tracking (Some 7)), bs_stats = commander_bus_stats_default, bs_last_status = 0\<rparr>"
  have "(FcHeartbeat, WdAbort) \<in> set [(FcHeartbeat, WdAbort)]"
    "bs_commander s = handle_expired mock_ops 1 [(FcHeartbeat, WdAbort)] (mock_commander Tracking (Some 7))"
    by (simp_all add: s_def)
  from expired_abort_is_final [OF mock.fc_contract_axioms this] show ?thesis
    unfolding s_def by blast
qed

text \<open>The loop never switches targets: a commander that tracks a target keeps it or loses
  it, whatever other tracks the bus delivers.\<close>

lemma bus_keeps_target:
  assumes "cm_active_target_id (bs_commander s) = Some tid"
    and "cm_state (bs_commander s) \<in> {Tracking, TrackingDegraded}"
  shows "cm_active_target_id (bs_commander (bus_loop ops iter cfg xs s)) \<in> {Some tid, None}"
proof -
  have b: "bound_to tid (bs_commander s)" using assms by (auto simp: bound_to_def)
  obtain ys where run: "bs_commander (bus_loop ops iter cfg xs s) = cm_run ops iter ys (bs_commander s)"
    "list_all no_reconnect ys"
    using run_to_loop [of ops iter xs s cfg] by (auto simp: run_to_def)
  show ?thesis
    using loop_run_control(2) [OF run(2) b, of ops iter] run(1)
    by (auto simp: bound_to_def dormant_def)
qed

lemma bus_keeps_target_witness:
  "cm_active_target_id (bs_commander (bus_loop mock_ops decl_iter commander_bus_config_default
     [(0, example_tick 5)] \<lparr>bs_commander = mock_commander Tracking (Some 3),
       bs_stats = commander_bus_stats_default, bs_last_status = 0\<rparr>)) \<in> {Some 3, None}"
  by (rule bus_keeps_target) (simp_all add: mock_commander_def sm_new_def)

end
