(* ===== verification/Shm_Layout.thy ===== *)
theory Shm_Layout
  imports Prelude
begin

text \<open>
  \<open>crates/shmem-buffer/src/layout.rs\<close>: the memory layout of the frame ring.  The two
  \<open>repr(C, align(64))\<close> structs are lists of field sizes and alignments from which the
  offsets are computed; \<open>usize\<close> has 64 bits, and the quantities below stay under \<open>2^45\<close>.
\<close>

section \<open>Constants\<close>

type_synonym u16 = "16 word"

text \<open>Little-endian \<open>b"ATFB"\<close>.\<close>

definition MAGIC :: u32 where
  "MAGIC = 0x41 + push_bit 8 0x54 + push_bit 16 0x46 + push_bit 24 0x42"

definition LAYOUT_VERSION :: u16 where
  "LAYOUT_VERSION = 1"

definition FORMAT_NV12 :: u32 where
  "FORMAT_NV12 = 0"

definition FORMAT_RGB24 :: u32 where
  "FORMAT_RGB24 = 1"

definition WRITER_LOCK :: u32 where
  "WRITER_LOCK = - 1"

definition FIRST_FRAME_ID :: u64 where
  "FIRST_FRAME_ID = 1"

section \<open>Structs\<close>

record buffer_header =
  magic :: u32
  layout_version :: u16
  capacity :: u32
  h_width :: u32
  h_height :: u32
  h_format :: u32
  frame_size :: u32
  write_seq :: u64
  dropped_frames :: u64
  created_ns :: u64
  producer_pid :: u32

record slot_meta =
  ref_count :: u32
  frame_id :: u64
  ts_ns :: u64
  s_width :: u32
  s_height :: u32
  s_format :: u32
  holder_pid :: u32

text \<open>\<open>repr(C)\<close>: each field at the next multiple of its alignment, sizes in declaration order.\<close>

definition align_up :: "nat \<Rightarrow> nat \<Rightarrow> nat" where
  "align_up a n = (n + a - 1) div a * a"

fun repr_c_offsets :: "nat \<Rightarrow> (nat \<times> nat) list \<Rightarrow> nat list \<times> nat" where
  "repr_c_offsets off [] = ([], off)"
| "repr_c_offsets off ((sz, align) # fs) =
     (let o1 = align_up align off;
          (os1, end_off) = repr_c_offsets (o1 + sz) fs
      in (o1 # os1, end_off))"

definition repr_c_size :: "nat \<Rightarrow> (nat \<times> nat) list \<Rightarrow> nat" where
  "repr_c_size align fs = align_up align (snd (repr_c_offsets 0 fs))"

definition buffer_header_fields :: "(nat \<times> nat) list" where
  "buffer_header_fields = [(4, 4), (2, 2), (4, 4), (4, 4), (4, 4), (4, 4), (4, 4), (8, 8), (8, 8),
     (8, 8), (4, 4)]"

definition slot_meta_fields :: "(nat \<times> nat) list" where
  "slot_meta_fields = [(4, 4), (8, 8), (8, 8), (4, 4), (4, 4), (4, 4), (4, 4)]"

definition sizeof_BufferHeader :: nat where
  "sizeof_BufferHeader = repr_c_size 64 buffer_header_fields"

definition sizeof_SlotMeta :: nat where
  "sizeof_SlotMeta = repr_c_size 64 slot_meta_fields"

lemma sizeof_eqs [simp]: "sizeof_BufferHeader = 64" "sizeof_SlotMeta = 64"
  by (simp_all add: sizeof_BufferHeader_def sizeof_SlotMeta_def repr_c_size_def
      buffer_header_fields_def slot_meta_fields_def align_up_def)

lemma field_offsets:
  "fst (repr_c_offsets 0 buffer_header_fields) = [0, 4, 8, 12, 16, 20, 24, 32, 40, 48, 56]"
  "fst (repr_c_offsets 0 slot_meta_fields) = [0, 8, 16, 24, 28, 32, 36]"
  by (simp_all add: buffer_header_fields_def slot_meta_fields_def align_up_def)

section \<open>Sizes\<close>

definition checked_mul :: "'w::len word \<Rightarrow> 'w word \<Rightarrow> 'w word option" where
  "checked_mul a b = (if unat a * unat b < 2 ^ LENGTH('w) then Some (a * b) else None)"

definition u32_try_from :: "u64 \<Rightarrow> u32 option" where
  "u32_try_from x = (if unat x < 2 ^ 32 then Some (ucast x) else None)"

definition frame_size_of :: "u32 \<Rightarrow> u32 \<Rightarrow> u32 \<Rightarrow> u32 option" where
  "frame_size_of fmt width height =
    (if width = 0 \<or> height = 0 then None
     else let px = (ucast width :: u64) * ucast height
          in case (if fmt = FORMAT_NV12 then
                     (if width mod 2 \<noteq> 0 \<or> height mod 2 \<noteq> 0 then None
                      else map_option (\<lambda>x. drop_bit 1 x) (checked_mul px 3))
                   else if fmt = FORMAT_RGB24 then checked_mul px 3
                   else None) of
               None \<Rightarrow> None
             | Some n \<Rightarrow> u32_try_from n)"

definition data_area_offset :: "u32 \<Rightarrow> nat" where
  "data_area_offset cap = sizeof_BufferHeader + unat cap * sizeof_SlotMeta"

definition segment_size :: "u32 \<Rightarrow> u32 \<Rightarrow> nat" where
  "segment_size cap fs = data_area_offset cap + unat cap * unat fs"

text \<open>The byte ranges of the parts of a segment, as \<open>slot\<close> and \<open>data_ptr\<close> address them.\<close>

definition slot_range :: "u32 \<Rightarrow> nat set" where
  "slot_range idx = {sizeof_BufferHeader + unat idx * sizeof_SlotMeta
     ..< sizeof_BufferHeader + unat idx * sizeof_SlotMeta + sizeof_SlotMeta}"

definition data_range :: "u32 \<Rightarrow> u32 \<Rightarrow> u32 \<Rightarrow> nat set" where
  "data_range cap fs idx = {data_area_offset cap + unat idx * unat fs
     ..< data_area_offset cap + unat idx * unat fs + unat fs}"

section \<open>Lemmas\<close>

lemma unat_ucast_up: "unat (ucast (x::u32) :: u64) = unat x"
  using unsigned_less [of x, where ?'a = nat] by (simp add: unsigned_ucast_eq take_bit_nat_eq_self)

lemma unat_px: "unat ((ucast w :: u64) * ucast h) = unat (w::u32) * unat (h::u32)"
proof -
  have "unat w * unat h < 2 ^ 32 * 2 ^ 32"
    by (rule mult_strict_mono) (use unsigned_less [of w] unsigned_less [of h] in simp_all)
  then show ?thesis by (simp add: unat_word_ariths unat_ucast_up)
qed

lemma mod_2_word: "((w::u32) mod 2 = 0) = even (unat w)"
  by (simp add: even_iff_mod_2_eq_zero word_arith_nat_mod unat_of_nat word_unat_eq_iff)

text \<open>The exact size of a frame.\<close>

lemma frame_size_of_Some:
  "frame_size_of fmt w h = Some fs \<Longrightarrow>
     0 < unat w \<and> 0 < unat h
     \<and> (fmt = FORMAT_NV12 \<and> even (unat w) \<and> even (unat h) \<and> 2 * unat fs = 3 * (unat w * unat h)
        \<or> fmt = FORMAT_RGB24 \<and> unat fs = 3 * (unat w * unat h))"
proof -
  assume s: "frame_size_of fmt w h = Some fs"
  have nz: "w \<noteq> 0" "h \<noteq> 0" using s by (auto simp: frame_size_of_def split: if_splits)
  then have pos: "0 < unat w" "0 < unat h" by (simp_all add: unat_gt_0)
  let ?px = "(ucast w :: u64) * ucast h"
  have cm: "checked_mul ?px 3 = Some t \<Longrightarrow> unat t = 3 * (unat w * unat h)" for t
    using unat_px [of w h] by (auto simp: checked_mul_def unat_word_ariths split: if_splits)
  have tf: "u32_try_from t = Some fs \<Longrightarrow> unat fs = unat t" for t
    by (auto simp: u32_try_from_def unsigned_ucast_eq take_bit_nat_eq_self split: if_splits)
  show ?thesis
  proof (cases "fmt = FORMAT_NV12")
    case True
    then obtain t where t: "checked_mul ?px 3 = Some t" "u32_try_from (drop_bit 1 t) = Some fs"
      "w mod 2 = 0" "h mod 2 = 0"
      using s nz by (auto simp: frame_size_of_def Let_def split: if_splits option.splits)
    have "unat fs = unat t div 2" using tf [OF t(2)] by (simp add: drop_bit_Suc unat_div)
    moreover have "even (unat t)" using cm [OF t(1)] t(3) mod_2_word [of w] by simp
    ultimately have "2 * unat fs = 3 * (unat w * unat h)" using cm [OF t(1)] by simp
    then show ?thesis using True pos t(3,4) by (simp add: mod_2_word)
  next
    case False
    then obtain t where t: "checked_mul ?px 3 = Some t" "u32_try_from t = Some fs" "fmt = FORMAT_RGB24"
      using s nz by (auto simp: frame_size_of_def Let_def split: if_splits option.splits)
    then show ?thesis using tf [OF t(2)] cm [OF t(1)] pos by simp
  qed
qed

lemma chunk_disjoint:
  assumes "i \<noteq> j"
  shows "{b + i * n ..< b + i * n + n} \<inter> {b + j * n ..< b + j * n + (n::nat)} = {}"
proof -
  have *: "{b + i * n ..< b + i * n + n} \<inter> {b + j * n ..< b + j * n + n} = {}" if "i < j" for i j :: nat
  proof -
    have "Suc i * n \<le> j * n" using that by (intro mult_le_mono1) simp
    then show ?thesis by auto
  qed
  show ?thesis using * [of i j] * [of j i] assms by (cases "i < j") auto
qed

lemma chunk_within: "i < c \<Longrightarrow> b + i * n + n \<le> b + c * (n::nat)"
proof -
  assume "i < c"
  then have "Suc i * n \<le> c * n" by (intro mult_le_mono1) simp
  then show ?thesis by simp
qed

section \<open>Properties\<close>

text \<open>The slots and frame areas of a segment lie inside it, after the header, and no two
  of them overlap: no access to one slot or frame touches another or the header.\<close>

lemma layout_disjoint:
  assumes "i < cap" and "j < cap"
  shows "slot_range i \<union> data_range cap fs i \<subseteq> {sizeof_BufferHeader ..< segment_size cap fs}
    \<and> slot_range i \<inter> data_range cap fs j = {}
    \<and> (i = j \<or> slot_range i \<inter> slot_range j = {} \<and> data_range cap fs i \<inter> data_range cap fs j = {})"
proof -
  have ij: "unat i < unat cap" "unat j < unat cap" using assms by (simp_all add: word_less_nat_alt)
  have "slot_range i \<subseteq> {64 ..< data_area_offset cap}"
    using chunk_within [OF ij(1), of 64 64]
    by (auto simp: slot_range_def data_area_offset_def)
  moreover have "data_range cap fs k \<subseteq> {data_area_offset cap ..< segment_size cap fs}"
    if "unat k < unat cap" for k
    using chunk_within [OF that, of "data_area_offset cap" "unat fs"]
    by (auto simp: data_range_def segment_size_def)
  moreover have "64 \<le> data_area_offset cap" "data_area_offset cap \<le> segment_size cap fs"
    by (simp_all add: data_area_offset_def segment_size_def)
  ultimately show ?thesis
    using ij chunk_disjoint [of "unat i" "unat j"]
    by (fastforce simp: slot_range_def data_range_def word_unat_eq_iff)
qed

lemma layout_disjoint_witness:
  "slot_range 1 \<inter> data_range 10 460800 (2::u32) = {}"
proof -
  have "(1::u32) < 10" "(2::u32) < 10" by (simp_all add: word_less_nat_alt)
  from layout_disjoint [OF this, of 460800] show ?thesis by blast
qed

end
