(* ===== verification/Shm_Ring.thy ===== *)
theory Shm_Ring
  imports Shm_Layout Common_Types
begin

text \<open>
  \<open>crates/shmem-buffer/src/ring.rs\<close>: the frame ring, one operation at a time.  A region is
  its header, its slots and its frame areas; the operations are the code's, executed without
  interference (the interleaving of several processes is in \<open>Shm_Protocol\<close>).  Reads of the
  clock, of the process id and of the liveness of a process are arguments.
\<close>

section \<open>Configuration\<close>

datatype storage_format = StNv12 | StRgb24

fun format_code :: "storage_format \<Rightarrow> u32" where
  "format_code StNv12 = FORMAT_NV12"
| "format_code StRgb24 = FORMAT_RGB24"

definition format_from_code :: "u32 \<Rightarrow> storage_format option" where
  "format_from_code code =
    (if code = FORMAT_NV12 then Some StNv12 else if code = FORMAT_RGB24 then Some StRgb24 else None)"

fun format_pixel_format :: "storage_format \<Rightarrow> pixel_format" where
  "format_pixel_format StNv12 = Nv12"
| "format_pixel_format StRgb24 = Rgb24"

record ring_config =
  rc_capacity :: u32
  rc_width :: u32
  rc_height :: u32
  rc_format :: storage_format

definition ring_config_default :: ring_config where
  "ring_config_default = \<lparr>rc_capacity = 10, rc_width = 640, rc_height = 480, rc_format = StNv12\<rparr>"

datatype attach_error =
    ShorterThanHeader
  | BadMagic
  | BadLayoutVersion u16
  | BadCapacity
  | BadSegmentLen nat nat

datatype config_error =
    CapacityRange
  | UnsupportedGeometry u32 u32 storage_format
  | SegmentTooLarge nat

datatype ring_error =
    InvalidFrameSize nat nat
  | InvalidConfig config_error
  | Corrupted string
  | ShmError string
  | UnsupportedOs
  | SegmentExists string
  | AttachFailed attach_error

type_synonym 'a ring_result = "(ring_error, 'a) result"

definition frame_size_check :: "ring_config \<Rightarrow> u32 option" where
  "frame_size_check cfg = frame_size_of (format_code (rc_format cfg)) (rc_width cfg) (rc_height cfg)"

definition validate :: "ring_config \<Rightarrow> unit ring_result" where
  "validate cfg =
    (if rc_capacity cfg = 0 \<or> 4096 < rc_capacity cfg then Inl (InvalidConfig CapacityRange)
     else case frame_size_check cfg of
       None \<Rightarrow> Inl (InvalidConfig (UnsupportedGeometry (rc_width cfg) (rc_height cfg) (rc_format cfg)))
     | Some fs \<Rightarrow>
         let total = segment_size (rc_capacity cfg) fs
         in if 256 * 1024 * 1024 < total then Inl (InvalidConfig (SegmentTooLarge total))
            else Inr ())"

section \<open>Region\<close>

record region =
  rg_header :: buffer_header
  rg_slots :: "slot_meta list"
  rg_data :: "u8 list list"
  rg_len :: nat
  rg_capacity :: u32
  rg_frame_size :: u32

definition zero_slot :: slot_meta where
  "zero_slot = \<lparr>ref_count = 0, frame_id = 0, ts_ns = 0, s_width = 0, s_height = 0, s_format = 0,
     holder_pid = 0\<rparr>"

definition write_header_init :: "u64 \<Rightarrow> u32 \<Rightarrow> ring_config \<Rightarrow> u32 \<Rightarrow> buffer_header" where
  "write_header_init now pid cfg fs = \<lparr>magic = MAGIC, layout_version = LAYOUT_VERSION,
     capacity = rc_capacity cfg, h_width = rc_width cfg, h_height = rc_height cfg,
     h_format = format_code (rc_format cfg), frame_size = fs, write_seq = 0, dropped_frames = 0,
     created_ns = now, producer_pid = pid\<rparr>"

text \<open>A zeroed segment with its header written.\<close>

definition init_raw :: "u64 \<Rightarrow> u32 \<Rightarrow> ring_config \<Rightarrow> u32 \<Rightarrow> region" where
  "init_raw now pid cfg fs = \<lparr>rg_header = write_header_init now pid cfg fs,
     rg_slots = replicate (unat (rc_capacity cfg)) zero_slot,
     rg_data = replicate (unat (rc_capacity cfg)) (replicate (unat fs) 0),
     rg_len = segment_size (rc_capacity cfg) fs, rg_capacity = rc_capacity cfg, rg_frame_size = fs\<rparr>"

definition create_in_process :: "u64 \<Rightarrow> u32 \<Rightarrow> ring_config \<Rightarrow> region ring_result" where
  "create_in_process now pid cfg =
    (case validate cfg of
       Inl e \<Rightarrow> Inl e
     | Inr _ \<Rightarrow> (case frame_size_check cfg of
         None \<Rightarrow> Inl (InvalidConfig (UnsupportedGeometry (rc_width cfg) (rc_height cfg) (rc_format cfg)))
       | Some fs \<Rightarrow> Inr (init_raw now pid cfg fs)))"

text \<open>The checks of an attach, on a mapping of \<open>len\<close> bytes with header \<open>h\<close>.\<close>

definition attach_check :: "nat \<Rightarrow> buffer_header \<Rightarrow> (u32 \<times> u32) ring_result" where
  "attach_check len h =
    (if len < sizeof_BufferHeader then Inl (AttachFailed ShorterThanHeader)
     else if magic h \<noteq> MAGIC then Inl (AttachFailed BadMagic)
     else if layout_version h \<noteq> LAYOUT_VERSION
       then Inl (AttachFailed (BadLayoutVersion (layout_version h)))
     else if capacity h = 0 \<or> 4096 < capacity h then Inl (AttachFailed BadCapacity)
     else if len \<noteq> segment_size (capacity h) (frame_size h)
       then Inl (AttachFailed (BadSegmentLen len (segment_size (capacity h) (frame_size h))))
     else Inr (capacity h, frame_size h))"

text \<open>A view of the shared memory \<open>rg\<close> by another process.\<close>

definition attach_raw :: "nat \<Rightarrow> region \<Rightarrow> region ring_result" where
  "attach_raw len rg =
    (case attach_check len (rg_header rg) of
       Inl e \<Rightarrow> Inl e
     | Inr (cap, fs) \<Rightarrow> Inr (rg\<lparr>rg_len := len, rg_capacity := cap, rg_frame_size := fs\<rparr>))"

definition update_slot :: "nat \<Rightarrow> (slot_meta \<Rightarrow> slot_meta) \<Rightarrow> region \<Rightarrow> region" where
  "update_slot i f rg = rg\<lparr>rg_slots := (rg_slots rg)[i := f (rg_slots rg ! i)]\<rparr>"

section \<open>Producer\<close>

datatype drop_reason = HeldByReaders u32 u32 | WriterLockHeld u32

datatype publish_result = Published u64 | Dropped drop_reason

definition write_slot_meta :: "nat \<Rightarrow> u64 \<Rightarrow> region \<Rightarrow> region" where
  "write_slot_meta i ts rg = update_slot i (\<lambda>s. s\<lparr>ts_ns := ts, s_width := h_width (rg_header rg),
     s_height := h_height (rg_header rg), s_format := h_format (rg_header rg)\<rparr>) rg"

definition count_drop :: "region \<Rightarrow> region" where
  "count_drop rg =
     rg\<lparr>rg_header := (rg_header rg)\<lparr>dropped_frames := dropped_frames (rg_header rg) + 1\<rparr>\<rparr>"

definition set_write_seq :: "u64 \<Rightarrow> region \<Rightarrow> region" where
  "set_write_seq n rg = rg\<lparr>rg_header := (rg_header rg)\<lparr>write_seq := n\<rparr>\<rparr>"

definition copy_data :: "nat \<Rightarrow> u8 list \<Rightarrow> region \<Rightarrow> region" where
  "copy_data i bytes rg = rg\<lparr>rg_data := (rg_data rg)[i := bytes]\<rparr>"

definition slot_index :: "u64 \<Rightarrow> region \<Rightarrow> nat" where
  "slot_index fid rg = unat fid mod unat (capacity (rg_header rg))"

definition publish :: "u8 list \<Rightarrow> u64 \<Rightarrow> region \<Rightarrow> publish_result ring_result \<times> region" where
  "publish bytes ts rg =
    (if length bytes \<noteq> unat (rg_frame_size rg)
     then (Inl (InvalidFrameSize (unat (rg_frame_size rg)) (length bytes)), rg)
     else case checked_add (write_seq (rg_header rg)) 1 of
       None \<Rightarrow> (Inl (Corrupted ''frame id overflow''), rg)
     | Some next_id \<Rightarrow>
         let idx = slot_index next_id rg;
             cur = ref_count (rg_slots rg ! idx)
         in if cur \<noteq> 0 then
              (Inr (Dropped (if cur = WRITER_LOCK then WriterLockHeld (of_nat idx)
                             else HeldByReaders (of_nat idx) cur)), count_drop rg)
            else
              let rg = update_slot idx (\<lambda>s. s\<lparr>ref_count := WRITER_LOCK\<rparr>) rg;
                  rg = copy_data idx bytes rg;
                  rg = write_slot_meta idx ts rg;
                  rg = update_slot idx (\<lambda>s. s\<lparr>frame_id := next_id\<rparr>) rg;
                  rg = update_slot idx (\<lambda>s. s\<lparr>ref_count := 0\<rparr>) rg;
                  rg = set_write_seq next_id rg
              in (Inr (Published next_id), rg))"

record producer_stats =
  ps_published :: u64
  ps_dropped :: u64

definition producer_stats_of :: "region \<Rightarrow> producer_stats" where
  "producer_stats_of rg = \<lparr>ps_published = write_seq (rg_header rg),
     ps_dropped = dropped_frames (rg_header rg)\<rparr>"

definition producer_config :: "region \<Rightarrow> ring_config" where
  "producer_config rg = \<lparr>rc_capacity = capacity (rg_header rg), rc_width = h_width (rg_header rg),
     rc_height = h_height (rg_header rg),
     rc_format = (case format_from_code (h_format (rg_header rg)) of Some f \<Rightarrow> f | None \<Rightarrow> StNv12)\<rparr>"

section \<open>Consumer\<close>

record frame_view =
  fv_frame_id :: u64
  fv_ts_ns :: u64
  fv_width :: u32
  fv_height :: u32
  fv_format :: u32

definition storage_format_of :: "frame_view \<Rightarrow> storage_format option" where
  "storage_format_of v = format_from_code (fv_format v)"

text \<open>The seconds of a 64-bit nanosecond count are always in the range of \<open>chrono\<close>.\<close>

definition ts_ns_to_datetime :: "u64 \<Rightarrow> utc" where
  "ts_ns_to_datetime ts = int (unat ts)"

definition to_metadata :: "frame_view \<Rightarrow> frame_metadata" where
  "to_metadata v = \<lparr>fm_width = fv_width v, fm_height = fv_height v,
     fm_format = (case storage_format_of v of Some f \<Rightarrow> format_pixel_format f | None \<Rightarrow> Nv12),
     fm_captured_at = ts_ns_to_datetime (fv_ts_ns v), fm_seq = fv_frame_id v\<rparr>"

record frame_guard =
  g_slot :: nat
  g_view :: frame_view

text \<open>Dereferencing reads the frame area as it is now; dropping decrements the counter.\<close>

definition guard_data :: "frame_guard \<Rightarrow> region \<Rightarrow> u8 list" where
  "guard_data g rg = rg_data rg ! g_slot g"

definition guard_drop :: "frame_guard \<Rightarrow> region \<Rightarrow> region" where
  "guard_drop g rg = update_slot (g_slot g) (\<lambda>s. s\<lparr>ref_count := ref_count s - 1\<rparr>) rg"

definition to_frame :: "frame_guard \<Rightarrow> region \<Rightarrow> frame" where
  "to_frame g rg = \<lparr>frame_data = guard_data g rg, frame_meta = to_metadata (g_view g)\<rparr>"

datatype next_step = NextFrame frame_guard | UpToDate | TooFarBehind u64 u64

datatype acquired = Got frame_guard | Busy | Mismatch u64

definition ACQUIRE_SPINS :: nat where
  "ACQUIRE_SPINS = 64"

definition latest_id :: "region \<Rightarrow> u64" where
  "latest_id rg = write_seq (rg_header rg)"

text \<open>The view a reader takes of a slot it holds.\<close>

definition view_slot :: "slot_meta \<Rightarrow> frame_view" where
  "view_slot s = \<lparr>fv_frame_id = frame_id s, fv_ts_ns = ts_ns s, fv_width = s_width s,
     fv_height = s_height s, fv_format = s_format s\<rparr>"

text \<open>
  The spin loop of \<open>try_acquire\<close>; without interference the compare-and-swap succeeds as soon
  as the slot is not under the writer's lock.
\<close>

primrec acquire_spin ::
  "nat \<Rightarrow> u32 \<Rightarrow> nat \<Rightarrow> u64 option \<Rightarrow> region \<Rightarrow> acquired \<times> region" where
  "acquire_spin 0 pid idx expected rg = (Busy, rg)"
| "acquire_spin (Suc n) pid idx expected rg =
    (let cur = ref_count (rg_slots rg ! idx)
     in if cur = WRITER_LOCK then acquire_spin n pid idx expected rg
        else
          let target = (if cur = 0 then 1 else cur + 1);
              rg1 = update_slot idx (\<lambda>s. s\<lparr>ref_count := target\<rparr>) rg;
              rg2 = update_slot idx (\<lambda>s. s\<lparr>holder_pid := pid\<rparr>) rg1;
              actual = frame_id (rg_slots rg2 ! idx)
          in if (case expected of Some want \<Rightarrow> actual \<noteq> want | None \<Rightarrow> False)
             then (Mismatch actual, update_slot idx (\<lambda>s. s\<lparr>ref_count := ref_count s - 1\<rparr>) rg2)
             else (Got \<lparr>g_slot = idx, g_view = view_slot (rg_slots rg2 ! idx)\<rparr>, rg2))"

definition try_acquire ::
  "u32 \<Rightarrow> nat \<Rightarrow> u64 option \<Rightarrow> region \<Rightarrow> acquired \<times> region" where
  "try_acquire pid slot_idx expected rg =
     acquire_spin ACQUIRE_SPINS pid (slot_idx mod unat (capacity (rg_header rg))) expected rg"

definition latest :: "u32 \<Rightarrow> region \<Rightarrow> frame_guard option \<times> region" where
  "latest pid rg =
    (let seq = latest_id rg
     in if seq = 0 then (None, rg)
        else case try_acquire pid (slot_index seq rg) None rg of
               (Got g, rg) \<Rightarrow> (Some g, rg)
             | (_, rg) \<Rightarrow> (None, rg))"

primrec next_loop :: "nat \<Rightarrow> u32 \<Rightarrow> u64 \<Rightarrow> region \<Rightarrow> next_step \<times> region" where
  "next_loop 0 pid last_id rg = (UpToDate, rg)"
| "next_loop (Suc n) pid last_id rg =
    (let cap = ucast (capacity (rg_header rg));
         seq = latest_id rg;
         want = saturating_add last_id 1
     in if seq = 0 then (UpToDate, rg)
        else if seq < want then (UpToDate, rg)
        else if cap \<le> seq - want then (TooFarBehind last_id seq, rg)
        else case try_acquire pid (slot_index want rg) (Some want) rg of
               (Got g, rg) \<Rightarrow> (NextFrame g, rg)
             | (Mismatch _, rg) \<Rightarrow> next_loop n pid last_id rg
             | (Busy, rg) \<Rightarrow> next_loop n pid last_id rg)"

definition next_after :: "u32 \<Rightarrow> u64 \<Rightarrow> region \<Rightarrow> next_step \<times> region" where
  "next_after pid last_id rg = next_loop (ACQUIRE_SPINS * 4) pid last_id rg"

section \<open>Recovery\<close>

text \<open>
  One slot of \<open>recover_stale_slots\<close>: \<open>alive\<close> is \<open>pid_alive\<close>, \<open>self\<close> the caller's process.
  The result says whether the slot was freed.
\<close>

definition recover_slot ::
  "(u32 \<Rightarrow> bool) \<Rightarrow> u32 \<Rightarrow> bool \<Rightarrow> u64 \<Rightarrow> u64 \<Rightarrow> slot_meta \<Rightarrow> bool \<times> slot_meta" where
  "recover_slot alive self producer_dead now max_age_ns s =
    (let cur = ref_count s
     in if cur = WRITER_LOCK then
          (if producer_dead then (True, s\<lparr>ref_count := 0\<rparr>) else (False, s))
        else if cur = 1 then
          let pid = holder_pid s;
              stale = max_age_ns < saturating_sub now (ts_ns s);
              dead = pid \<noteq> 0 \<and> pid \<noteq> self \<and> \<not> alive pid
          in if dead \<and> stale then (True, s\<lparr>ref_count := 0\<rparr>) else (False, s)
        else (False, s))"

primrec recover_from ::
  "(u32 \<Rightarrow> bool) \<Rightarrow> u32 \<Rightarrow> bool \<Rightarrow> u64 \<Rightarrow> u64 \<Rightarrow> slot_meta list \<Rightarrow> nat \<times> slot_meta list" where
  "recover_from alive self producer_dead now max_age_ns [] = (0, [])"
| "recover_from alive self producer_dead now max_age_ns (s # ss) =
    (let (cleared, s') = recover_slot alive self producer_dead now max_age_ns s;
         (freed, ss') = recover_from alive self producer_dead now max_age_ns ss
     in ((if cleared then freed + 1 else freed), s' # ss'))"

definition recover_stale_slots ::
  "(u32 \<Rightarrow> bool) \<Rightarrow> u32 \<Rightarrow> u64 \<Rightarrow> u64 \<Rightarrow> region \<Rightarrow> nat \<times> region" where
  "recover_stale_slots alive self now max_age_ns rg =
    (let h = rg_header rg;
         producer_dead = (producer_pid h \<noteq> 0 \<and> \<not> alive (producer_pid h));
         n = unat (capacity h);
         (freed, ss) = recover_from alive self producer_dead now max_age_ns (take n (rg_slots rg))
     in (freed, rg\<lparr>rg_slots := ss @ drop n (rg_slots rg)\<rparr>))"

end
