(* ===== verification/Shm_Refine.thy ===== *)
theory Shm_Refine
  imports Shm_Ring
begin

text \<open>
  What the frame ring promises: it is the history of the published frames, of which the last
  \<open>capacity\<close> can be read.  \<open>ring_rep hist rg\<close> is the refinement relation between the
  history and the memory; each operation of the ring is proved to implement the operation on
  histories.
\<close>

section \<open>The abstract ring\<close>

type_synonym history = "(u8 list \<times> u64) list"

definition slot_of :: "nat \<Rightarrow> region \<Rightarrow> nat" where
  "slot_of k rg = Suc k mod unat (capacity (rg_header rg))"

definition ring_wf :: "region \<Rightarrow> bool" where
  "ring_wf rg \<longleftrightarrow> 0 < unat (capacity (rg_header rg))
     \<and> length (rg_slots rg) = unat (capacity (rg_header rg))
     \<and> length (rg_data rg) = unat (capacity (rg_header rg))
     \<and> unat (capacity (rg_header rg)) \<le> 4096"

text \<open>Frame \<open>k\<close> of the history (identifier \<open>k + 1\<close>) lies intact in its slot.\<close>

definition holds_frame :: "history \<Rightarrow> region \<Rightarrow> nat \<Rightarrow> bool" where
  "holds_frame hist rg k \<longleftrightarrow>
     (let s = rg_slots rg ! slot_of k rg
      in frame_id s = of_nat (Suc k) \<and> ts_ns s = snd (hist ! k)
         \<and> rg_data rg ! slot_of k rg = fst (hist ! k)
         \<and> s_width s = h_width (rg_header rg) \<and> s_height s = h_height (rg_header rg)
         \<and> s_format s = h_format (rg_header rg))"

definition in_window :: "history \<Rightarrow> region \<Rightarrow> nat \<Rightarrow> bool" where
  "in_window hist rg k \<longleftrightarrow>
     k < length hist \<and> length hist \<le> k + unat (capacity (rg_header rg))"

definition ring_rep :: "history \<Rightarrow> region \<Rightarrow> bool" where
  "ring_rep hist rg \<longleftrightarrow> ring_wf rg \<and> Suc (length hist) < 2 ^ 64
     \<and> write_seq (rg_header rg) = of_nat (length hist)
     \<and> (\<forall>k. in_window hist rg k \<longrightarrow> holds_frame hist rg k)"

section \<open>Lemmas\<close>

lemma mod_neq: "a < b \<Longrightarrow> b - a < n \<Longrightarrow> a mod n \<noteq> b mod (n::nat)"
  by (metis diff_is_0_eq dvd_imp_le mod_eq_dvd_iff_nat less_imp_le_nat not_less zero_less_diff)

lemma slot_of_less: "ring_wf rg \<Longrightarrow> slot_of k rg < length (rg_slots rg)"
  by (simp add: slot_of_def ring_wf_def)

lemma of_nat_u64: "n < 2 ^ 64 \<Longrightarrow> unat (of_nat n :: u64) = n"
  by (simp add: unat_of_nat)

text \<open>The header is touched only in \<open>write_seq\<close> and \<open>dropped_frames\<close>.\<close>

lemma header_simps [simp]:
  "rg_header (update_slot i f rg) = rg_header rg"
  "rg_header (copy_data i b rg) = rg_header rg"
  "rg_header (write_slot_meta i ts rg) = rg_header rg"
  "rg_data (update_slot i f rg) = rg_data rg"
  "rg_data (write_slot_meta i ts rg) = rg_data rg"
  "rg_data (set_write_seq n rg) = rg_data rg"
  "rg_data (count_drop rg) = rg_data rg"
  "rg_slots (copy_data i b rg) = rg_slots rg"
  "rg_slots (set_write_seq n rg) = rg_slots rg"
  "rg_slots (count_drop rg) = rg_slots rg"
  "capacity (rg_header (set_write_seq n rg)) = capacity (rg_header rg)"
  "capacity (rg_header (count_drop rg)) = capacity (rg_header rg)"
  by (simp_all add: update_slot_def copy_data_def write_slot_meta_def set_write_seq_def count_drop_def)

lemma slot_of_simps [simp]:
  "slot_of k (update_slot i f rg) = slot_of k rg"
  "slot_of k (copy_data i b rg) = slot_of k rg"
  "slot_of k (write_slot_meta i ts rg) = slot_of k rg"
  "slot_of k (set_write_seq n rg) = slot_of k rg"
  "slot_of k (count_drop rg) = slot_of k rg"
  by (simp_all add: slot_of_def)

lemma rg_slots_update [simp]: "rg_slots (update_slot i f rg) = (rg_slots rg)[i := f (rg_slots rg ! i)]"
  by (simp add: update_slot_def)

lemma ring_wf_simps [simp]:
  "ring_wf (update_slot i f rg) = ring_wf rg" "ring_wf (copy_data i b rg) = ring_wf rg"
  "ring_wf (write_slot_meta i ts rg) = ring_wf rg" "ring_wf (set_write_seq n rg) = ring_wf rg"
  "ring_wf (count_drop rg) = ring_wf rg"
  by (simp_all add: ring_wf_def copy_data_def write_slot_meta_def)

text \<open>Changing only reference counts and holders keeps the history.\<close>

lemma ring_rep_ref:
  assumes "ring_rep hist rg" and "\<And>s. frame_id (f s) = frame_id s \<and> ts_ns (f s) = ts_ns s
      \<and> s_width (f s) = s_width s \<and> s_height (f s) = s_height s \<and> s_format (f s) = s_format s"
  shows "ring_rep hist (update_slot i f rg)"
proof -
  have "holds_frame hist (update_slot i f rg) k" if "holds_frame hist rg k" for k
    using that assms(2) by (cases "slot_of k rg = i"; cases "i < length (rg_slots rg)")
      (auto simp: holds_frame_def Let_def list_update_beyond)
  then show ?thesis using assms(1) by (simp add: ring_rep_def in_window_def)
qed

lemma ring_rep_drop: "ring_rep hist rg \<Longrightarrow> ring_rep hist (count_drop rg)"
  by (simp add: ring_rep_def in_window_def holds_frame_def Let_def count_drop_def slot_of_def ring_wf_def)

lemma slot_index_of: "Suc k < 2 ^ 64 \<Longrightarrow> slot_index (of_nat (Suc k)) rg = slot_of k rg"
  by (simp only: slot_index_def slot_of_def of_nat_u64)

section \<open>Publishing\<close>

definition publish_commit :: "nat \<Rightarrow> u64 \<Rightarrow> u8 list \<Rightarrow> u64 \<Rightarrow> region \<Rightarrow> region" where
  "publish_commit idx next_id bytes ts rg =
     set_write_seq next_id
      (update_slot idx (\<lambda>s. s\<lparr>ref_count := 0\<rparr>)
       (update_slot idx (\<lambda>s. s\<lparr>frame_id := next_id\<rparr>)
        (write_slot_meta idx ts
         (copy_data idx bytes
          (update_slot idx (\<lambda>s. s\<lparr>ref_count := WRITER_LOCK\<rparr>) rg)))))"

lemma publish_eq:
  assumes "ring_rep hist rg" and "length bytes = unat (rg_frame_size rg)"
  shows "publish bytes ts rg =
    (let idx = slot_of (length hist) rg; cur = ref_count (rg_slots rg ! idx)
     in if cur \<noteq> 0 then (Inr (Dropped (if cur = WRITER_LOCK then WriterLockHeld (of_nat idx)
                             else HeldByReaders (of_nat idx) cur)), count_drop rg)
        else (Inr (Published (of_nat (Suc (length hist)))),
              publish_commit idx (of_nat (Suc (length hist))) bytes ts rg))"
proof -
  have L: "Suc (length hist) < 2 ^ 64" and seq: "write_seq (rg_header rg) = of_nat (length hist)"
    using assms(1) by (simp_all add: ring_rep_def)
  have "checked_add (write_seq (rg_header rg)) 1 = Some (of_nat (Suc (length hist)))"
    using L by (simp add: checked_add_def seq unat_of_nat)
  then show ?thesis
    using assms(2) slot_index_of [OF L, of rg]
    by (simp add: publish_def Let_def publish_commit_def del: of_nat_Suc)
qed

lemma publish_commit_slots:
  assumes "idx < length (rg_slots rg)" "idx < length (rg_data rg)"
  shows "rg_slots (publish_commit idx fid bytes ts rg) = (rg_slots rg)[idx := (rg_slots rg ! idx)
      \<lparr>ts_ns := ts, s_width := h_width (rg_header rg), s_height := h_height (rg_header rg),
       s_format := h_format (rg_header rg), frame_id := fid, ref_count := 0\<rparr>]"
    and "rg_data (publish_commit idx fid bytes ts rg) = (rg_data rg)[idx := bytes]"
    and "rg_header (publish_commit idx fid bytes ts rg) = (rg_header rg)\<lparr>write_seq := fid\<rparr>"
  using assms by (simp_all add: publish_commit_def copy_data_def write_slot_meta_def set_write_seq_def)

lemma slot_of_commit [simp]: "slot_of k (publish_commit i fid bytes ts rg) = slot_of k rg"
  by (simp add: publish_commit_def)

lemma publish_commit_rep:
  assumes rep: "ring_rep hist rg" and L: "Suc (Suc (length hist)) < 2 ^ 64"
  shows "ring_rep (hist @ [(bytes, ts)])
    (publish_commit (slot_of (length hist) rg) (of_nat (Suc (length hist))) bytes ts rg)"
proof -
  let ?i = "slot_of (length hist) rg"
  let ?rg = "publish_commit ?i (of_nat (Suc (length hist))) bytes ts rg"
  have wf: "ring_wf rg" using rep by (simp add: ring_rep_def)
  have i: "?i < length (rg_slots rg)" "?i < length (rg_data rg)"
    using slot_of_less [OF wf, of "length hist"] wf by (simp_all add: ring_wf_def)
  note c = publish_commit_slots [OF i]
  have "holds_frame (hist @ [(bytes, ts)]) ?rg k" if "in_window (hist @ [(bytes, ts)]) ?rg k" for k
  proof (cases "k = length hist")
    case True
    then show ?thesis using i by (simp add: holds_frame_def Let_def c)
  next
    case False
    then have k: "k < length hist" "length hist < k + unat (capacity (rg_header rg))"
      using that by (simp_all add: in_window_def c)
    then have "slot_of k rg \<noteq> ?i" unfolding slot_of_def by (intro mod_neq) simp_all
    moreover have "holds_frame hist rg k" using rep k by (simp add: ring_rep_def in_window_def)
    ultimately show ?thesis
      using i k(1) by (simp add: holds_frame_def Let_def c nth_append)
  qed
  moreover have "ring_wf ?rg" using wf by (simp add: publish_commit_def)
  ultimately show ?thesis using L by (simp add: ring_rep_def c)
qed

section \<open>Acquiring\<close>

text \<open>A slot a reader can take: not under the lock, and its counter does not become the lock.\<close>

definition takeable :: "u32 \<Rightarrow> bool" where
  "takeable c \<longleftrightarrow> c \<noteq> WRITER_LOCK \<and> c + 1 \<noteq> WRITER_LOCK"

definition take_slot :: "u32 \<Rightarrow> nat \<Rightarrow> region \<Rightarrow> region" where
  "take_slot pid i rg =
     update_slot i (\<lambda>s. s\<lparr>ref_count := ref_count s + 1, holder_pid := pid\<rparr>) rg"

lemma acquire_free:
  assumes "i < length (rg_slots rg)" and "ref_count (rg_slots rg ! i) \<noteq> WRITER_LOCK"
    and "case expected of Some want \<Rightarrow> frame_id (rg_slots rg ! i) = want | None \<Rightarrow> True"
  shows "acquire_spin (Suc n) pid i expected rg
    = (Got \<lparr>g_slot = i, g_view = view_slot (rg_slots rg ! i)\<rparr>, take_slot pid i rg)"
  using assms
  by (auto simp: Let_def take_slot_def update_slot_def view_slot_def split: option.splits)

lemma ring_rep_take: "ring_rep hist rg \<Longrightarrow> ring_rep hist (take_slot pid i rg)"
  unfolding take_slot_def by (rule ring_rep_ref) simp_all

lemma ring_rep_guard_drop: "ring_rep hist rg \<Longrightarrow> ring_rep hist (guard_drop g rg)"
  unfolding guard_drop_def by (rule ring_rep_ref) simp_all

lemma take_drop_refs:
  "g_slot g = i \<Longrightarrow> map ref_count (rg_slots (guard_drop g (take_slot pid i rg)))
     = map ref_count (rg_slots rg)"
  by (cases "i < length (rg_slots rg)")
    (auto simp: guard_drop_def take_slot_def update_slot_def list_eq_iff_nth_eq nth_list_update)

text \<open>The view of frame \<open>k\<close> of the history.\<close>

definition frame_view_of :: "history \<Rightarrow> region \<Rightarrow> nat \<Rightarrow> frame_view" where
  "frame_view_of hist rg k = \<lparr>fv_frame_id = of_nat (Suc k), fv_ts_ns = snd (hist ! k),
     fv_width = h_width (rg_header rg), fv_height = h_height (rg_header rg),
     fv_format = h_format (rg_header rg)\<rparr>"

definition guard_of :: "history \<Rightarrow> region \<Rightarrow> nat \<Rightarrow> frame_guard" where
  "guard_of hist rg k = \<lparr>g_slot = slot_of k rg, g_view = frame_view_of hist rg k\<rparr>"

lemma view_holds:
  "holds_frame hist rg k \<Longrightarrow> view_slot (rg_slots rg ! slot_of k rg) = frame_view_of hist rg k"
  by (simp add: holds_frame_def view_slot_def frame_view_of_def Let_def)

lemma try_acquire_frame:
  assumes "ring_rep hist rg" and "in_window hist rg k"
    and "ref_count (rg_slots rg ! slot_of k rg) \<noteq> WRITER_LOCK"
    and "expected = None \<or> expected = Some (of_nat (Suc k))"
  shows "try_acquire pid (slot_of k rg) expected rg
    = (Got (guard_of hist rg k), take_slot pid (slot_of k rg) rg)"
proof -
  have wf: "ring_wf rg" and h: "holds_frame hist rg k"
    using assms(1,2) by (simp_all add: ring_rep_def)
  have i: "slot_of k rg < length (rg_slots rg)" using slot_of_less [OF wf] .
  have m: "slot_of k rg mod unat (capacity (rg_header rg)) = slot_of k rg"
    by (simp add: slot_of_def)
  have e: "case expected of Some want \<Rightarrow> frame_id (rg_slots rg ! slot_of k rg) = want | None \<Rightarrow> True"
    using assms(4) h by (auto simp: holds_frame_def Let_def)
  have "ACQUIRE_SPINS = Suc 63" by (simp add: ACQUIRE_SPINS_def)
  then show ?thesis
    unfolding try_acquire_def m
    using acquire_free [OF i assms(3) e, of 63 pid] view_holds [OF h]
    by (simp only: guard_of_def)
qed

section \<open>The operations on the history\<close>

text \<open>No slot is under the writer's lock: the producer is between two publications.\<close>

definition quiescent :: "region \<Rightarrow> bool" where
  "quiescent rg \<longleftrightarrow> (\<forall>s \<in> set (rg_slots rg). ref_count s \<noteq> WRITER_LOCK)"

lemma quiescent_slot: "ring_wf rg \<Longrightarrow> quiescent rg \<Longrightarrow> ref_count (rg_slots rg ! slot_of k rg) \<noteq> WRITER_LOCK"
  by (simp add: quiescent_def slot_of_less)

lemma unat_want: "unat (saturating_add last_id (1::u64)) = min (Suc (unat last_id)) (2 ^ 64 - 1)"
proof -
  have "unat last_id < 2 ^ 64" using unsigned_less [of last_id] by simp
  moreover have "unat (- 1 :: u64) = 2 ^ 64 - 1"
    by (simp add: unsigned_minus_1_eq_mask mask_eq_exp_minus_1)
  ultimately show ?thesis by (auto simp: saturating_add_def unat_word_ariths)
qed

lemma next_after_cases:
  assumes rep: "ring_rep hist rg" and q: "quiescent rg"
  shows "next_after pid last_id rg =
    (if length hist \<le> unat last_id then (UpToDate, rg)
     else if unat last_id + unat (capacity (rg_header rg)) < length hist
       then (TooFarBehind last_id (of_nat (length hist)), rg)
     else (NextFrame (guard_of hist rg (unat last_id)), take_slot pid (slot_of (unat last_id) rg) rg))"
proof -
  let ?n = "unat last_id" and ?seq = "of_nat (length hist) :: u64"
  let ?cap = "capacity (rg_header rg)" and ?want = "saturating_add last_id (1::u64)"
  have L: "Suc (length hist) < 2 ^ 64" and wf: "ring_wf rg" and seq: "latest_id rg = ?seq"
    using rep by (simp_all add: ring_rep_def latest_id_def)
  have useq: "unat ?seq = length hist" using L by (intro of_nat_u64) simp
  have low: "?seq < ?want \<longleftrightarrow> length hist \<le> ?n"
    unfolding word_less_nat_alt useq unat_want using L by auto
  have step: "ACQUIRE_SPINS * 4 = Suc 255" by (simp add: ACQUIRE_SPINS_def)
  show ?thesis
  proof (cases "length hist \<le> ?n")
    case True
    then show ?thesis using low unfolding next_after_def step next_loop.simps(2) by (simp add: seq Let_def)
  next
    case False
    then have n: "?n < length hist" and s0: "?seq \<noteq> 0"
      using useq by (auto simp: word_unat_eq_iff)
    have uw: "unat ?want = Suc ?n" unfolding unat_want using n L by simp
    then have want: "?want = of_nat (Suc ?n)" by (metis of_nat_unat ucast_id)
    have "ucast ?cap \<le> ?seq - ?want \<longleftrightarrow> unat ?cap \<le> length hist - Suc ?n"
      using low False by (simp add: word_le_nat_alt unat_sub_if' useq uw unat_ucast_up not_less)
    then have far: "ucast ?cap \<le> ?seq - ?want \<longleftrightarrow> ?n + unat ?cap < length hist" using n by auto
    show ?thesis
    proof (cases "?n + unat ?cap < length hist")
      case True
      then show ?thesis using low far False s0
        unfolding next_after_def step next_loop.simps(2) by (simp add: seq Let_def)
    next
      case win: False
      then have w: "in_window hist rg ?n" using n by (simp add: in_window_def)
      have i: "slot_index ?want rg = slot_of ?n rg"
        unfolding want using n L by (intro slot_index_of) simp
      have "try_acquire pid (slot_of ?n rg) (Some ?want) rg
        = (Got (guard_of hist rg ?n), take_slot pid (slot_of ?n rg) rg)"
        unfolding want by (rule try_acquire_frame [OF rep w quiescent_slot [OF wf q]]) simp
      then show ?thesis using low far False s0 win
        unfolding next_after_def step next_loop.simps(2) by (simp add: seq Let_def i)
    qed
  qed
qed

lemma latest_cases:
  assumes rep: "ring_rep hist rg" and q: "quiescent rg"
  shows "latest pid rg = (if hist = [] then (None, rg)
     else (Some (guard_of hist rg (length hist - 1)),
           take_slot pid (slot_of (length hist - 1) rg) rg))"
proof (cases "hist = []")
  case True
  then show ?thesis using rep by (simp add: latest_def latest_id_def ring_rep_def)
next
  case False
  then obtain n where n: "length hist = Suc n" by (cases hist) auto
  have L: "Suc n < 2 ^ 64" and wf: "ring_wf rg" and seq: "latest_id rg = of_nat (Suc n)"
    using rep n by (simp_all add: ring_rep_def latest_id_def)
  have "0 < unat (capacity (rg_header rg))" using wf by (simp add: ring_wf_def)
  then have w: "in_window hist rg n" using n by (simp add: in_window_def)
  have ne: "(of_nat (Suc n) :: u64) \<noteq> 0"
    using of_nat_u64 [OF L] by (metis unat_0 nat.distinct(1))
  have "try_acquire pid (slot_of n rg) None rg
        = (Got (guard_of hist rg n), take_slot pid (slot_of n rg) rg)"
    by (rule try_acquire_frame [OF rep w quiescent_slot [OF wf q]]) simp
  then show ?thesis using ne False n
    by (simp only: latest_def seq Let_def slot_index_of [OF L]) simp
qed

lemma guard_data_of:
  "ring_rep hist rg \<Longrightarrow> in_window hist rg k
    \<Longrightarrow> guard_data (guard_of hist rg k) (take_slot pid i rg) = fst (hist ! k)"
  by (simp add: guard_data_def guard_of_def take_slot_def ring_rep_def holds_frame_def Let_def)

lemma init_rep:
  assumes "0 < unat (rc_capacity cfg)" "unat (rc_capacity cfg) \<le> 4096"
  shows "ring_rep [] (init_raw now pid cfg fs)" and "quiescent (init_raw now pid cfg fs)"
  using assms by (auto simp: ring_rep_def in_window_def ring_wf_def init_raw_def write_header_init_def
      quiescent_def zero_slot_def WRITER_LOCK_def)

lemma create_init:
  assumes "create_in_process now pid cfg = Inr rg"
  obtains fs where "rg = init_raw now pid cfg fs" "validate cfg = Inr ()"
    "0 < unat (rc_capacity cfg)" "unat (rc_capacity cfg) \<le> 4096"
proof -
  from assms obtain u fs where v: "validate cfg = Inr u" and r: "rg = init_raw now pid cfg fs"
    by (auto simp: create_in_process_def split: sum.splits option.splits)
  have "rc_capacity cfg \<noteq> 0" "\<not> 4096 < rc_capacity cfg"
    using v by (auto simp: validate_def split: if_splits)
  then have "0 < unat (rc_capacity cfg)" "unat (rc_capacity cfg) \<le> 4096"
    by (simp_all add: unat_gt_0 word_less_nat_alt)
  then show thesis using that r v by auto
qed

lemma commit_quiescent:
  assumes "ring_wf rg" "quiescent rg"
  shows "quiescent (publish_commit (slot_of k rg) fid bytes ts rg)"
proof -
  have i: "slot_of k rg < length (rg_slots rg)" "slot_of k rg < length (rg_data rg)"
    using assms(1) slot_of_less [OF assms(1), of k] by (simp_all add: ring_wf_def)
  show ?thesis
    using assms(2) i by (simp add: quiescent_def publish_commit_slots [OF i] WRITER_LOCK_def
        all_set_conv_all_nth nth_list_update)
qed

lemma publish_Published:
  assumes rep: "ring_rep hist rg" and q: "quiescent rg" and L: "Suc (Suc (length hist)) < 2 ^ 64"
    and pub: "publish bytes ts rg = (Inr (Published fid), rg')"
  shows "ring_rep (hist @ [(bytes, ts)]) rg'" "quiescent rg'" "fid = of_nat (Suc (length hist))"
proof -
  have wf: "ring_wf rg" using rep by (simp add: ring_rep_def)
  have "length bytes = unat (rg_frame_size rg)" using pub by (simp add: publish_def split: if_splits)
  from publish_eq [OF rep this, of ts] pub
  have "fid = of_nat (Suc (length hist))
    \<and> rg' = publish_commit (slot_of (length hist) rg) (of_nat (Suc (length hist))) bytes ts rg"
    by (auto simp: Let_def simp del: of_nat_Suc split: if_splits)
  then show "ring_rep (hist @ [(bytes, ts)]) rg'" "quiescent rg'" "fid = of_nat (Suc (length hist))"
    using publish_commit_rep [OF rep L] commit_quiescent [OF wf q] by simp_all
qed

section \<open>Properties\<close>

text \<open>Creation and attachment agree: a ring created from an accepted configuration has an
  empty history and no locked slot, and another process attaches it exactly when the mapping has
  the length the header announces; any other length is refused and no other check fails.\<close>

lemma attach_created:
  assumes "create_in_process now pid cfg = Inr rg"
  shows "ring_rep [] rg \<and> quiescent rg \<and>
    attach_raw len rg =
      (if len = rg_len rg then Inr rg
       else if len < sizeof_BufferHeader then Inl (AttachFailed ShorterThanHeader)
       else Inl (AttachFailed (BadSegmentLen len (rg_len rg))))"
proof -
  from assms obtain fs where r: "rg = init_raw now pid cfg fs"
    and c: "0 < unat (rc_capacity cfg)" "unat (rc_capacity cfg) \<le> 4096"
    by (rule create_init)
  have "rc_capacity cfg \<noteq> 0" "\<not> 4096 < rc_capacity cfg"
    using c by (auto simp: word_less_nat_alt)
  moreover have "64 \<le> segment_size (rc_capacity cfg) fs"
    by (simp add: segment_size_def data_area_offset_def)
  ultimately show ?thesis unfolding r using init_rep [OF c, of now pid fs]
    by (auto simp: attach_raw_def attach_check_def init_raw_def write_header_init_def)
qed

definition tiny_config :: ring_config where
  "tiny_config = \<lparr>rc_capacity = 2, rc_width = 1, rc_height = 1, rc_format = StRgb24\<rparr>"

definition tiny_ring :: region where
  "tiny_ring = init_raw 5 7 tiny_config 3"

lemma tiny_simps:
  "rg_len tiny_ring = 198" "rg_frame_size tiny_ring = 3" "write_seq (rg_header tiny_ring) = 0"
  "ref_count (rg_slots tiny_ring ! slot_of 0 tiny_ring) = 0"
  by (simp_all add: tiny_ring_def init_raw_def tiny_config_def segment_size_def data_area_offset_def
      write_header_init_def slot_of_def zero_slot_def)

lemma tiny_created: "create_in_process 5 7 tiny_config = Inr tiny_ring"
  by (simp add: create_in_process_def validate_def frame_size_check_def frame_size_of_def
      tiny_config_def tiny_ring_def checked_mul_def u32_try_from_def segment_size_def
      data_area_offset_def FORMAT_NV12_def FORMAT_RGB24_def)

lemma tiny_rep [simp]: "ring_rep [] tiny_ring" "quiescent tiny_ring" "ring_wf tiny_ring"
  using init_rep [of tiny_config 5 7 3]
  by (simp_all add: tiny_ring_def tiny_config_def ring_rep_def)

lemma attach_created_witness:
  "attach_raw 198 tiny_ring = Inr tiny_ring"
  using attach_created [OF tiny_created, of 198] by (simp add: tiny_simps)

lemma tiny_published:
  "publish [1, 2, 3] 9 tiny_ring = (Inr (Published 1), snd (publish [1, 2, 3] 9 tiny_ring))"
  using publish_eq [OF tiny_rep(1), of "[1, 2, 3]" 9] by (simp add: Let_def tiny_simps)

text \<open>C39: Publishing refines appending to the history.  A frame of the wrong size is an error
  and changes nothing; when the slot of the next frame is held by readers the frame is dropped,
  and nothing but the count of dropped frames changes; otherwise the frame gets the next number
  and becomes the last of the history, while the frames before it that are still in the window
  stay readable.\<close>

theorem publish_refines:
  assumes "ring_rep hist rg" "quiescent rg" "Suc (Suc (length hist)) < 2 ^ 64"
  shows "let n = ref_count (rg_slots rg ! slot_of (length hist) rg);
      (r, rg') = publish bytes ts rg
    in if length bytes \<noteq> unat (rg_frame_size rg)
       then r = Inl (InvalidFrameSize (unat (rg_frame_size rg)) (length bytes)) \<and> rg' = rg
       else if n \<noteq> 0
       then r = Inr (Dropped (HeldByReaders (of_nat (slot_of (length hist) rg)) n))
         \<and> rg' = count_drop rg \<and> ring_rep hist rg' \<and> quiescent rg'
       else r = Inr (Published (of_nat (Suc (length hist))))
         \<and> ring_rep (hist @ [(bytes, ts)]) rg' \<and> quiescent rg'"
proof (cases "length bytes = unat (rg_frame_size rg)")
  case False
  then show ?thesis by (simp add: publish_def)
next
  case True
  have wf: "ring_wf rg" using assms(1) by (simp add: ring_rep_def)
  have "ref_count (rg_slots rg ! slot_of (length hist) rg) \<noteq> WRITER_LOCK"
    using quiescent_slot [OF wf assms(2)] .
  moreover have "quiescent (count_drop rg)" using assms(2) by (simp add: quiescent_def)
  ultimately show ?thesis
    using True publish_eq [OF assms(1) True, of ts] publish_commit_rep [OF assms(1,3), of bytes ts]
      ring_rep_drop [OF assms(1)] commit_quiescent [OF wf assms(2)]
    by (simp add: Let_def del: of_nat_Suc)
qed

theorem publish_refines_witness:
  "fst (publish [1, 2, 3] 9 tiny_ring) = Inr (Published 1)
    \<and> ring_rep [([1, 2, 3], 9)] (snd (publish [1, 2, 3] 9 tiny_ring))"
  using publish_refines [OF tiny_rep(1,2), of "[1, 2, 3]" 9]
  by (simp add: Let_def tiny_simps split: prod.splits)

text \<open>Walking the ring refines indexing the history: after the frame number \<open>last_id\<close> a
  reader is told that it is up to date when the history is no longer than that, that it is too far
  behind when the next frame has left the window of \<open>capacity\<close> frames, and otherwise gets exactly
  the next frame of the history, with its bytes and its time stamp, and one more reference on its
  slot.  The retries of the loop are never exhausted.\<close>

lemma next_after_refines:
  assumes "ring_rep hist rg" "quiescent rg"
  shows "let n = unat last_id; (r, rg') = next_after pid last_id rg
    in if length hist \<le> n then r = UpToDate \<and> rg' = rg
       else if n + unat (capacity (rg_header rg)) < length hist
       then r = TooFarBehind last_id (of_nat (length hist)) \<and> rg' = rg
       else \<exists>g. r = NextFrame g \<and> guard_data g rg' = fst (hist ! n) \<and> fv_ts_ns (g_view g) = snd (hist ! n)
         \<and> unat (fv_frame_id (g_view g)) = Suc n \<and> g_slot g = slot_of n rg
         \<and> rg' = take_slot pid (slot_of n rg) rg \<and> ring_rep hist rg'"
proof -
  have "unat (of_nat (Suc n) :: u64) = Suc n" if "n < length hist" for n
    using assms(1) that by (intro of_nat_u64) (simp add: ring_rep_def)
  then show ?thesis
    using next_after_cases [OF assms, of pid last_id] guard_data_of [OF assms(1), of "unat last_id" pid]
      ring_rep_take [OF assms(1), of pid]
    by (auto simp: Let_def in_window_def guard_of_def frame_view_of_def simp del: of_nat_Suc)
qed

lemma next_after_refines_witness: "fst (next_after 8 0 tiny_ring) = UpToDate"
  using next_after_refines [OF tiny_rep(1,2), of 0 8] by (simp add: Let_def split: prod.splits)

text \<open>The latest frame is the frame just published: after a successful publication a
  reader's \<open>latest\<close> returns a guard whose bytes, time stamp and number are those published, and
  dropping the guard restores every reference count.\<close>

lemma publish_latest_roundtrip:
  assumes "ring_rep hist rg" "quiescent rg" "Suc (Suc (length hist)) < 2 ^ 64"
    and "publish bytes ts rg = (Inr (Published fid), rg')"
  shows "\<exists>g rg''. latest pid rg' = (Some g, rg'') \<and> guard_data g rg'' = bytes
    \<and> fv_ts_ns (g_view g) = ts \<and> fv_frame_id (g_view g) = fid
    \<and> map ref_count (rg_slots (guard_drop g rg'')) = map ref_count (rg_slots rg')"
proof -
  let ?h = "hist @ [(bytes, ts)]" and ?k = "length hist"
  have rep: "ring_rep ?h rg'" and q: "quiescent rg'" and fid: "fid = of_nat (Suc ?k)"
    using publish_Published [OF assms] by simp_all
  have w: "in_window ?h rg' ?k"
    using rep by (simp add: in_window_def ring_rep_def ring_wf_def)
  have "latest pid rg' = (Some (guard_of ?h rg' ?k), take_slot pid (slot_of ?k rg') rg')"
    using latest_cases [OF rep q, of pid] by simp
  moreover have "g_slot (guard_of ?h rg' ?k) = slot_of ?k rg'" by (simp add: guard_of_def)
  note take_drop_refs [OF this, of pid]
  moreover note guard_data_of [OF rep w, of pid "slot_of ?k rg'"]
  ultimately show ?thesis
    by (simp add: guard_of_def frame_view_of_def fid del: of_nat_Suc)
qed

lemma publish_latest_roundtrip_witness:
  "\<exists>g rg''. latest 8 (snd (publish [1, 2, 3] 9 tiny_ring)) = (Some g, rg'')
    \<and> guard_data g rg'' = [1, 2, 3] \<and> fv_ts_ns (g_view g) = 9"
  using publish_latest_roundtrip [OF tiny_rep(1,2) _ tiny_published, of 8] by auto

end
