(* ===== verification/Shm_Protocol.thy ===== *)
theory Shm_Protocol
  imports Shm_Refine
begin

text \<open>
  \<open>crates/shmem-buffer/src/ring.rs\<close>, the protocol: one producer and any number of readers over
  one region, as an interleaving of the accesses the operations of \<open>Shm_Ring\<close> make to shared
  memory.  Each load, store, compare-and-swap and fetch-and-subtract is a step of its own, and so
  is each copied byte; the four plain stores of \<open>write_slot_meta\<close> are one step, and so are the
  plain reads of a view.  Steps are sequentially consistent; the acquire and release orderings of
  the code are what makes the plain accesses ordered as the steps here are.  A process that dies is
  one that takes no further step.

  The history of the published frames is a ghost: a frame joins it when its identifier is stored.
\<close>

section \<open>Producer\<close>

record publishing =
  p_bytes :: "u8 list"
  p_ts :: u64
  p_next :: u64
  p_idx :: nat

datatype writer_pc =
    WIdle
  | WCas publishing
  | WFailed publishing
  | WCopy publishing nat
  | WMeta publishing
  | WFrameId publishing
  | WRelease publishing
  | WSeq publishing

text \<open>The checks of \<open>publish\<close> and its load of \<open>write_seq\<close>.\<close>

definition writer_start :: "u8 list \<Rightarrow> u64 \<Rightarrow> region \<Rightarrow> writer_pc" where
  "writer_start bytes ts rg =
    (if length bytes \<noteq> unat (rg_frame_size rg) then WIdle
     else case checked_add (write_seq (rg_header rg)) 1 of
       None \<Rightarrow> WIdle
     | Some next_id \<Rightarrow> WCas \<lparr>p_bytes = bytes, p_ts = ts, p_next = next_id,
                              p_idx = slot_index next_id rg\<rparr>)"

definition copy_byte :: "nat \<Rightarrow> nat \<Rightarrow> u8 \<Rightarrow> region \<Rightarrow> region" where
  "copy_byte i k b rg = rg\<lparr>rg_data := (rg_data rg)[i := (rg_data rg ! i)[k := b]]\<rparr>"

fun writer_step :: "writer_pc \<Rightarrow> region \<Rightarrow> (writer_pc \<times> region) option" where
  "writer_step WIdle rg = None"
| "writer_step (WCas p) rg =
    (if ref_count (rg_slots rg ! p_idx p) = 0
     then Some (WCopy p 0, update_slot (p_idx p) (\<lambda>s. s\<lparr>ref_count := WRITER_LOCK\<rparr>) rg)
     else Some (WFailed p, rg))"
| "writer_step (WFailed p) rg = Some (WIdle, count_drop rg)"
| "writer_step (WCopy p k) rg =
    (if k < length (p_bytes p)
     then Some (WCopy p (Suc k), copy_byte (p_idx p) k (p_bytes p ! k) rg)
     else Some (WMeta p, rg))"
| "writer_step (WMeta p) rg = Some (WFrameId p, write_slot_meta (p_idx p) (p_ts p) rg)"
| "writer_step (WFrameId p) rg =
    Some (WRelease p, update_slot (p_idx p) (\<lambda>s. s\<lparr>frame_id := p_next p\<rparr>) rg)"
| "writer_step (WRelease p) rg =
    Some (WSeq p, update_slot (p_idx p) (\<lambda>s. s\<lparr>ref_count := 0\<rparr>) rg)"
| "writer_step (WSeq p) rg = Some (WIdle, set_write_seq (p_next p) rg)"

fun commits :: "writer_pc \<Rightarrow> history" where
  "commits (WFrameId p) = [(p_bytes p, p_ts p)]"
| "commits _ = []"

section \<open>Readers\<close>

datatype request = ReqLatest | ReqNext u64

text \<open>
  The last state carries, beside the guard, the identifier that was asked for, which only the
  statements below look at.
\<close>

datatype reader_pc =
    RIdle
  | RSpin nat nat "u64 option"
  | RCas nat nat "u64 option" u32
  | RPid nat "u64 option"
  | RCheck nat "u64 option"
  | RMismatch nat
  | RView nat "u64 option" u64
  | RHold "u64 option" frame_guard

text \<open>
  \<open>latest\<close>, and one round of \<open>next_after\<close>: load \<open>write_seq\<close>, choose a slot or return.
  A further round of the retry loop is a new request.
\<close>

fun reader_start :: "request \<Rightarrow> region \<Rightarrow> reader_pc" where
  "reader_start ReqLatest rg =
    (if latest_id rg = 0 then RIdle
     else RSpin ACQUIRE_SPINS (slot_index (latest_id rg) rg) None)"
| "reader_start (ReqNext last_id) rg =
    (let seq = latest_id rg; want = saturating_add last_id 1
     in if seq = 0 \<or> seq < want \<or> ucast (capacity (rg_header rg)) \<le> seq - want then RIdle
        else RSpin ACQUIRE_SPINS (slot_index want rg) (Some want))"

definition wanted :: "u64 option \<Rightarrow> u64 \<Rightarrow> bool" where
  "wanted expected actual = (case expected of Some want \<Rightarrow> actual = want | None \<Rightarrow> True)"

text \<open>The loop of \<open>try_acquire\<close>; the last step is the drop of the guard.\<close>

fun reader_step :: "u32 \<Rightarrow> reader_pc \<Rightarrow> region \<Rightarrow> (reader_pc \<times> region) option" where
  "reader_step pid RIdle rg = None"
| "reader_step pid (RSpin 0 i e) rg = Some (RIdle, rg)"
| "reader_step pid (RSpin (Suc n) i e) rg =
    (let cur = ref_count (rg_slots rg ! i)
     in Some (if cur = WRITER_LOCK then RSpin n i e else RCas n i e cur, rg))"
| "reader_step pid (RCas n i e cur) rg =
    (if ref_count (rg_slots rg ! i) = cur
     then Some (RPid i e, update_slot i (\<lambda>s. s\<lparr>ref_count := if cur = 0 then 1 else cur + 1\<rparr>) rg)
     else Some (RSpin n i e, rg))"
| "reader_step pid (RPid i e) rg =
    Some (RCheck i e, update_slot i (\<lambda>s. s\<lparr>holder_pid := pid\<rparr>) rg)"
| "reader_step pid (RCheck i e) rg =
    (let actual = frame_id (rg_slots rg ! i)
     in Some (if wanted e actual then RView i e actual else RMismatch i, rg))"
| "reader_step pid (RMismatch i) rg =
    Some (RIdle, update_slot i (\<lambda>s. s\<lparr>ref_count := ref_count s - 1\<rparr>) rg)"
| "reader_step pid (RView i e actual) rg =
    Some (RHold e \<lparr>g_slot = i, g_view = (view_slot (rg_slots rg ! i))\<lparr>fv_frame_id := actual\<rparr>\<rparr>, rg)"
| "reader_step pid (RHold e g) rg = Some (RIdle, guard_drop g rg)"

section \<open>The system\<close>

record sys =
  sy_ring :: region
  sy_writer :: writer_pc
  sy_readers :: "reader_pc list"
  sy_hist :: history

definition sys_init :: "region \<Rightarrow> nat \<Rightarrow> sys" where
  "sys_init rg n = \<lparr>sy_ring = rg, sy_writer = WIdle, sy_readers = replicate n RIdle, sy_hist = []\<rparr>"

text \<open>\<open>pids r\<close> is the process of reader \<open>r\<close>.\<close>

inductive step :: "(nat \<Rightarrow> u32) \<Rightarrow> sys \<Rightarrow> sys \<Rightarrow> bool" for pids where
  step_publish: "sy_writer s = WIdle
     \<Longrightarrow> step pids s (s\<lparr>sy_writer := writer_start bytes ts (sy_ring s)\<rparr>)"
| step_writer: "writer_step (sy_writer s) (sy_ring s) = Some (w, rg)
     \<Longrightarrow> step pids s (s\<lparr>sy_writer := w, sy_ring := rg, sy_hist := sy_hist s @ commits (sy_writer s)\<rparr>)"
| step_request: "r < length (sy_readers s) \<Longrightarrow> sy_readers s ! r = RIdle
     \<Longrightarrow> step pids s (s\<lparr>sy_readers := (sy_readers s)[r := reader_start q (sy_ring s)]\<rparr>)"
| step_reader: "r < length (sy_readers s)
     \<Longrightarrow> reader_step (pids r) (sy_readers s ! r) (sy_ring s) = Some (pc, rg)
     \<Longrightarrow> step pids s (s\<lparr>sy_readers := (sy_readers s)[r := pc], sy_ring := rg\<rparr>)"

inductive reachable :: "(nat \<Rightarrow> u32) \<Rightarrow> sys \<Rightarrow> sys \<Rightarrow> bool" for pids s0 where
  reach_init: "reachable pids s0 s0"
| reach_step: "reachable pids s0 s \<Longrightarrow> step pids s t \<Longrightarrow> reachable pids s0 t"

section \<open>Invariant\<close>

fun job :: "writer_pc \<Rightarrow> publishing option" where
  "job WIdle = None"
| "job (WCas p) = Some p"
| "job (WFailed p) = Some p"
| "job (WCopy p k) = Some p"
| "job (WMeta p) = Some p"
| "job (WFrameId p) = Some p"
| "job (WRelease p) = Some p"
| "job (WSeq p) = Some p"

text \<open>The slot whose contents the producer is changing, and the slot it has locked.\<close>

fun writing :: "writer_pc \<Rightarrow> nat option" where
  "writing (WCopy p k) = Some (p_idx p)"
| "writing (WMeta p) = Some (p_idx p)"
| "writing (WFrameId p) = Some (p_idx p)"
| "writing _ = None"

fun locking :: "writer_pc \<Rightarrow> nat option" where
  "locking (WRelease p) = Some (p_idx p)"
| "locking w = writing w"

fun referencing :: "reader_pc \<Rightarrow> nat option" where
  "referencing (RPid i e) = Some i"
| "referencing (RCheck i e) = Some i"
| "referencing (RMismatch i) = Some i"
| "referencing (RView i e a) = Some i"
| "referencing (RHold e g) = Some (g_slot g)"
| "referencing _ = None"

definition holders :: "nat \<Rightarrow> reader_pc list \<Rightarrow> nat" where
  "holders i rs = sum_list (map (\<lambda>pc. of_bool (referencing pc = Some i)) rs)"

text \<open>A slot nobody is writing holds the newest frame of the history that belongs to it.\<close>

definition slot_ok :: "history \<Rightarrow> region \<Rightarrow> nat \<Rightarrow> bool" where
  "slot_ok hist rg i \<longleftrightarrow>
    (let s = rg_slots rg ! i in
     if frame_id s = 0 then \<forall>k<length hist. slot_of k rg \<noteq> i
     else \<exists>k<length hist. unat (frame_id s) = Suc k \<and> slot_of k rg = i
       \<and> ts_ns s = snd (hist ! k) \<and> rg_data rg ! i = fst (hist ! k)
       \<and> (\<forall>k'<length hist. slot_of k' rg = i \<longrightarrow> k' \<le> k))"

definition job_ok :: "publishing \<Rightarrow> region \<Rightarrow> bool" where
  "job_ok p rg \<longleftrightarrow> length (p_bytes p) = unat (rg_frame_size rg)
     \<and> unat (p_next p) = Suc (unat (write_seq (rg_header rg))) \<and> p_idx p = slot_index (p_next p) rg"

fun writer_inv :: "writer_pc \<Rightarrow> region \<Rightarrow> history \<Rightarrow> bool" where
  "writer_inv (WCopy p k) rg hist \<longleftrightarrow> unat (write_seq (rg_header rg)) = length hist
     \<and> k \<le> length (p_bytes p) \<and> take k (rg_data rg ! p_idx p) = take k (p_bytes p)"
| "writer_inv (WMeta p) rg hist \<longleftrightarrow> unat (write_seq (rg_header rg)) = length hist
     \<and> rg_data rg ! p_idx p = p_bytes p"
| "writer_inv (WFrameId p) rg hist \<longleftrightarrow> unat (write_seq (rg_header rg)) = length hist
     \<and> rg_data rg ! p_idx p = p_bytes p \<and> ts_ns (rg_slots rg ! p_idx p) = p_ts p"
| "writer_inv (WRelease p) rg hist \<longleftrightarrow> Suc (unat (write_seq (rg_header rg))) = length hist"
| "writer_inv (WSeq p) rg hist \<longleftrightarrow> Suc (unat (write_seq (rg_header rg))) = length hist"
| "writer_inv w rg hist \<longleftrightarrow> unat (write_seq (rg_header rg)) = length hist"

definition target_ok :: "history \<Rightarrow> region \<Rightarrow> nat \<Rightarrow> u64 option \<Rightarrow> bool" where
  "target_ok hist rg i e \<longleftrightarrow> i < unat (capacity (rg_header rg))
     \<and> (case e of None \<Rightarrow> \<exists>k<length hist. slot_of k rg = i | Some want \<Rightarrow> want \<noteq> 0)"

fun reader_inv :: "reader_pc \<Rightarrow> region \<Rightarrow> history \<Rightarrow> bool" where
  "reader_inv RIdle rg hist \<longleftrightarrow> True"
| "reader_inv (RSpin n i e) rg hist \<longleftrightarrow> target_ok hist rg i e"
| "reader_inv (RCas n i e cur) rg hist \<longleftrightarrow> target_ok hist rg i e \<and> cur \<noteq> WRITER_LOCK"
| "reader_inv (RPid i e) rg hist \<longleftrightarrow> target_ok hist rg i e"
| "reader_inv (RCheck i e) rg hist \<longleftrightarrow> target_ok hist rg i e"
| "reader_inv (RMismatch i) rg hist \<longleftrightarrow> i < unat (capacity (rg_header rg))"
| "reader_inv (RView i e a) rg hist \<longleftrightarrow> target_ok hist rg i e \<and> wanted e a
     \<and> a = frame_id (rg_slots rg ! i)"
| "reader_inv (RHold e g) rg hist \<longleftrightarrow> target_ok hist rg (g_slot g) e
     \<and> wanted e (fv_frame_id (g_view g)) \<and> g_view g = view_slot (rg_slots rg ! g_slot g)"

definition ring_inv :: "region \<Rightarrow> bool" where
  "ring_inv rg \<longleftrightarrow> ring_wf rg
     \<and> (\<forall>i<unat (capacity (rg_header rg)). length (rg_data rg ! i) = unat (rg_frame_size rg))"

definition count_inv :: "writer_pc \<Rightarrow> reader_pc list \<Rightarrow> region \<Rightarrow> bool" where
  "count_inv w rs rg \<longleftrightarrow> (\<forall>i<unat (capacity (rg_header rg)).
     if locking w = Some i then ref_count (rg_slots rg ! i) = WRITER_LOCK \<and> holders i rs = 0
     else unat (ref_count (rg_slots rg ! i)) = holders i rs)"

definition sys_inv :: "sys \<Rightarrow> bool" where
  "sys_inv s \<longleftrightarrow> ring_inv (sy_ring s) \<and> length (sy_readers s) < 2 ^ 32 - 1
     \<and> (\<forall>p. job (sy_writer s) = Some p \<longrightarrow> job_ok p (sy_ring s))
     \<and> writer_inv (sy_writer s) (sy_ring s) (sy_hist s)
     \<and> count_inv (sy_writer s) (sy_readers s) (sy_ring s)
     \<and> (\<forall>i<unat (capacity (rg_header (sy_ring s))). writing (sy_writer s) \<noteq> Some i
          \<longrightarrow> slot_ok (sy_hist s) (sy_ring s) i)
     \<and> (\<forall>pc \<in> set (sy_readers s). reader_inv pc (sy_ring s) (sy_hist s))"

section \<open>Reference counts\<close>

lemma holders_update:
  "r < length rs \<Longrightarrow> holders i (rs[r := pc]) + of_bool (referencing (rs ! r) = Some i)
     = holders i rs + of_bool (referencing pc = Some i)"
  using member_le_sum_list [of "of_bool (referencing (rs ! r) = Some i) :: nat"
      "map (\<lambda>pc. of_bool (referencing pc = Some i)) rs"]
  by (auto simp: holders_def map_update sum_list_update)

lemma holders_card:
  "holders i rs = card {r. r < length rs \<and> referencing (rs ! r) = Some i}"
proof -
  have "holders i rs = length (filter (\<lambda>pc. referencing pc = Some i) rs)"
    unfolding holders_def by (induction rs) auto
  then show ?thesis by (simp add: length_filter_conv_card)
qed

lemma holders_le: "holders i rs \<le> length rs"
  unfolding holders_def by (induction rs) auto

lemma holders_pos: "pc \<in> set rs \<Longrightarrow> referencing pc = Some i \<Longrightarrow> 0 < holders i rs"
  unfolding holders_def by (induction rs) auto

lemma writing_locking: "writing w = Some i \<Longrightarrow> locking w = Some i"
  by (cases w) simp_all

section \<open>Steps that leave the frames alone\<close>

definition same_frames :: "region \<Rightarrow> region \<Rightarrow> bool" where
  "same_frames rg rg' \<longleftrightarrow> capacity (rg_header rg') = capacity (rg_header rg)
     \<and> write_seq (rg_header rg') = write_seq (rg_header rg)
     \<and> rg_data rg' = rg_data rg \<and> rg_frame_size rg' = rg_frame_size rg
     \<and> length (rg_slots rg') = length (rg_slots rg)
     \<and> (\<forall>i. let a = rg_slots rg ! i; b = rg_slots rg' ! i in frame_id b = frame_id a
          \<and> ts_ns b = ts_ns a \<and> view_slot b = view_slot a)"

lemma same_frames_refl [simp]: "same_frames rg rg"
  by (simp add: same_frames_def)

lemma same_frames_drop [simp]: "same_frames rg (count_drop rg)"
  by (simp add: same_frames_def count_drop_def)

lemma frame_size_simps [simp]:
  "rg_frame_size (update_slot i f rg) = rg_frame_size rg"
  "rg_frame_size (write_slot_meta i ts rg) = rg_frame_size rg"
  "rg_frame_size (set_write_seq n rg) = rg_frame_size rg"
  "rg_frame_size (copy_byte i k b rg) = rg_frame_size rg"
  "rg_frame_size (count_drop rg) = rg_frame_size rg"
  "rg_header (copy_byte i k b rg) = rg_header rg" "rg_slots (copy_byte i k b rg) = rg_slots rg"
  "write_seq (rg_header (count_drop rg)) = write_seq (rg_header rg)"
  by (simp_all add: update_slot_def write_slot_meta_def set_write_seq_def copy_byte_def count_drop_def)

lemma same_frames_update:
  assumes "\<And>s. frame_id (f s) = frame_id s \<and> ts_ns (f s) = ts_ns s \<and> s_width (f s) = s_width s
      \<and> s_height (f s) = s_height s \<and> s_format (f s) = s_format s"
  shows "same_frames rg (update_slot i f rg)"
proof -
  have v: "view_slot (f s) = view_slot s" for s using assms [of s] by (simp add: view_slot_def)
  have "frame_id ((rg_slots rg)[i := f (rg_slots rg ! i)] ! j) = frame_id (rg_slots rg ! j)
      \<and> ts_ns ((rg_slots rg)[i := f (rg_slots rg ! i)] ! j) = ts_ns (rg_slots rg ! j)
      \<and> view_slot ((rg_slots rg)[i := f (rg_slots rg ! i)] ! j) = view_slot (rg_slots rg ! j)" for j
  proof (cases "j = i \<and> i < length (rg_slots rg)")
    case True
    then show ?thesis using assms [of "rg_slots rg ! i"] v by simp
  next
    case False
    then have "(rg_slots rg)[i := f (rg_slots rg ! i)] ! j = rg_slots rg ! j"
      by (cases "j = i") (simp_all add: list_update_beyond)
    then show ?thesis by simp
  qed
  then show ?thesis by (simp add: same_frames_def Let_def)
qed

lemma same_slot_of: "same_frames rg rg' \<Longrightarrow> slot_of k rg' = slot_of k rg"
  by (simp add: same_frames_def slot_of_def)

lemma same_slot_ok: "same_frames rg rg' \<Longrightarrow> slot_ok hist rg' i = slot_ok hist rg i"
  using same_slot_of [of rg rg'] by (simp add: slot_ok_def same_frames_def Let_def)

lemma same_target_ok: "same_frames rg rg' \<Longrightarrow> target_ok hist rg' i e = target_ok hist rg i e"
  using same_slot_of [of rg rg'] by (simp add: same_frames_def target_ok_def split: option.splits)

lemma same_reader_inv: "same_frames rg rg' \<Longrightarrow> reader_inv pc rg' hist = reader_inv pc rg hist"
  using same_slot_of [of rg rg']
    same_target_ok [of rg rg' hist]
  by (cases pc) (simp_all add: same_frames_def Let_def)

lemma same_writer_inv: "same_frames rg rg' \<Longrightarrow> writer_inv w rg' hist = writer_inv w rg hist"
  by (cases w) (simp_all add: same_frames_def Let_def)

lemma same_job_ok: "same_frames rg rg' \<Longrightarrow> job_ok p rg' = job_ok p rg"
  by (simp add: same_frames_def job_ok_def slot_index_def)

lemma same_ring_inv: "same_frames rg rg' \<Longrightarrow> ring_inv rg' = ring_inv rg"
  unfolding ring_inv_def ring_wf_def same_frames_def by simp

lemmas same_simps = same_slot_ok same_reader_inv same_writer_inv same_job_ok same_ring_inv

lemma reader_preserves:
  assumes "sys_inv s" "r < length (sy_readers s)" "same_frames (sy_ring s) rg"
    and "reader_inv pc rg (sy_hist s)" and "count_inv (sy_writer s) ((sy_readers s)[r := pc]) rg"
  shows "sys_inv (s\<lparr>sy_readers := (sy_readers s)[r := pc], sy_ring := rg\<rparr>)"
proof -
  have "capacity (rg_header rg) = capacity (rg_header (sy_ring s))"
    using assms(3) by (simp add: same_frames_def)
  moreover have "\<forall>q \<in> set ((sy_readers s)[r := pc]). reader_inv q rg (sy_hist s)"
    using assms(1,4) set_update_subset_insert [of "sy_readers s" r pc]
    by (auto simp: sys_inv_def same_simps [OF assms(3)])
  ultimately show ?thesis using assms(1,5)
    by (simp add: sys_inv_def same_simps [OF assms(3)])
qed

text \<open>A counter that changes with the references of one reader.\<close>

lemma count_inv_keep:
  assumes "count_inv w rs rg" "r < length rs" "referencing pc = referencing (rs ! r)"
    and "same_frames rg rg'" "\<And>i. ref_count (rg_slots rg' ! i) = ref_count (rg_slots rg ! i)"
  shows "count_inv w (rs[r := pc]) rg'"
  using assms holders_update [OF assms(2), of _ pc]
  by (simp add: count_inv_def same_frames_def)

lemma count_inv_change:
  assumes inv: "count_inv w rs rg" and r: "r < length rs"
    and slot: "i < unat (capacity (rg_header rg))" "i < length (rg_slots rg)" "locking w \<noteq> Some i"
    and refs: "\<And>j. j \<noteq> i \<Longrightarrow> (referencing pc = Some j) = (referencing (rs ! r) = Some j)"
    and new: "unat (f (rg_slots rg ! i)) = holders i (rs[r := pc])"
  shows "count_inv w (rs[r := pc]) (update_slot i (\<lambda>s. s\<lparr>ref_count := f s\<rparr>) rg)"
  unfolding count_inv_def
proof (intro allI impI)
  fix j assume "j < unat (capacity (rg_header (update_slot i (\<lambda>s. s\<lparr>ref_count := f s\<rparr>) rg)))"
  then have j: "j < unat (capacity (rg_header rg))" by simp
  show "if locking w = Some j
    then ref_count (rg_slots (update_slot i (\<lambda>s. s\<lparr>ref_count := f s\<rparr>) rg) ! j) = WRITER_LOCK
      \<and> holders j (rs[r := pc]) = 0
    else unat (ref_count (rg_slots (update_slot i (\<lambda>s. s\<lparr>ref_count := f s\<rparr>) rg) ! j))
      = holders j (rs[r := pc])"
  proof (cases "j = i")
    case True
    then show ?thesis using slot new by simp
  next
    case False
    then have "holders j (rs[r := pc]) = holders j rs"
      using holders_update [OF r, of j pc] refs [OF False] by simp
    then show ?thesis using inv j False by (simp add: count_inv_def)
  qed
qed

section \<open>Readers keep the invariant\<close>

lemma sys_invD:
  assumes "sys_inv s"
  shows "ring_inv (sy_ring s)" "length (sy_readers s) < 2 ^ 32 - 1"
    "job (sy_writer s) = Some p \<Longrightarrow> job_ok p (sy_ring s)"
    "writer_inv (sy_writer s) (sy_ring s) (sy_hist s)"
    "count_inv (sy_writer s) (sy_readers s) (sy_ring s)"
    "i < unat (capacity (rg_header (sy_ring s))) \<Longrightarrow> writing (sy_writer s) \<noteq> Some i
      \<Longrightarrow> slot_ok (sy_hist s) (sy_ring s) i"
    "r < length (sy_readers s) \<Longrightarrow> reader_inv (sy_readers s ! r) (sy_ring s) (sy_hist s)"
    "length (rg_slots (sy_ring s)) = unat (capacity (rg_header (sy_ring s)))"
    "length (rg_data (sy_ring s)) = unat (capacity (rg_header (sy_ring s)))"
    "0 < unat (capacity (rg_header (sy_ring s)))"
  using assms by (simp_all add: sys_inv_def ring_inv_def ring_wf_def)

lemma not_locking:
  "count_inv w rs rg \<Longrightarrow> i < unat (capacity (rg_header rg))
    \<Longrightarrow> ref_count (rg_slots rg ! i) \<noteq> WRITER_LOCK \<or> 0 < holders i rs
    \<Longrightarrow> locking w \<noteq> Some i \<and> unat (ref_count (rg_slots rg ! i)) = holders i rs"
  by (auto simp: count_inv_def split: if_splits)

lemma referencing_bound:
  "reader_inv pc rg hist \<Longrightarrow> referencing pc = Some i \<Longrightarrow> i < unat (capacity (rg_header rg))"
  by (cases pc) (auto simp: target_ok_def)

text \<open>A reader that gives its reference back.\<close>

lemma release_inv:
  assumes inv: "sys_inv s" and r: "r < length (sy_readers s)"
    and ref: "referencing (sy_readers s ! r) = Some i"
  shows "sys_inv (s\<lparr>sy_readers := (sy_readers s)[r := RIdle],
    sy_ring := update_slot i (\<lambda>t. t\<lparr>ref_count := ref_count t - 1\<rparr>) (sy_ring s)\<rparr>)"
proof (rule reader_preserves [OF inv r])
  note d = sys_invD [OF inv]
  have i: "i < unat (capacity (rg_header (sy_ring s)))"
    using referencing_bound [OF d(7) [OF r] ref] .
  have pos: "0 < holders i (sy_readers s)" using ref r by (intro holders_pos) auto
  have n: "locking (sy_writer s) \<noteq> Some i"
      "unat (ref_count (rg_slots (sy_ring s) ! i)) = holders i (sy_readers s)"
    using not_locking [OF d(5) i] pos by simp_all
  have "holders i ((sy_readers s)[r := RIdle]) + 1 = holders i (sy_readers s)"
    using holders_update [OF r, of i RIdle] ref by simp
  moreover from this have "unat (ref_count (rg_slots (sy_ring s) ! i) - 1)
      = unat (ref_count (rg_slots (sy_ring s) ! i)) - 1"
    using n(2) by (intro unat_minus_one) auto
  ultimately have "unat (ref_count (rg_slots (sy_ring s) ! i) - 1)
      = holders i ((sy_readers s)[r := RIdle])"
    using n(2) by simp
  then show "count_inv (sy_writer s) ((sy_readers s)[r := RIdle])
      (update_slot i (\<lambda>t. t\<lparr>ref_count := ref_count t - 1\<rparr>) (sy_ring s))"
    using d(5) r i d(8) n(1) ref by (intro count_inv_change) auto
qed (simp_all add: same_frames_update)

lemma reader_local_inv:
  assumes inv: "sys_inv s" and r: "r < length (sy_readers s)"
    and "reader_inv pc (sy_ring s) (sy_hist s)" "referencing pc = referencing (sy_readers s ! r)"
  shows "sys_inv (s\<lparr>sy_readers := (sy_readers s)[r := pc]\<rparr>)"
proof -
  have "count_inv (sy_writer s) ((sy_readers s)[r := pc]) (sy_ring s)"
    using sys_invD(5) [OF inv] r assms(4) by (intro count_inv_keep) auto
  then have "sys_inv (s\<lparr>sy_readers := (sy_readers s)[r := pc], sy_ring := sy_ring s\<rparr>)"
    using assms by (intro reader_preserves) simp_all
  then show ?thesis by simp
qed

lemma take_inv:
  assumes inv: "sys_inv s" and r: "r < length (sy_readers s)"
    and pc: "sy_readers s ! r = RCas n i e cur" and cur: "ref_count (rg_slots (sy_ring s) ! i) = cur"
  shows "sys_inv (s\<lparr>sy_readers := (sy_readers s)[r := RPid i e],
    sy_ring := update_slot i (\<lambda>t. t\<lparr>ref_count := if cur = 0 then 1 else cur + 1\<rparr>) (sy_ring s)\<rparr>)"
    (is "sys_inv (s\<lparr>sy_readers := _, sy_ring := ?rg\<rparr>)")
proof (rule reader_preserves [OF inv r])
  note d = sys_invD [OF inv]
  have t: "target_ok (sy_hist s) (sy_ring s) i e" "cur \<noteq> WRITER_LOCK" using d(7) [OF r] pc by simp_all
  then have i: "i < unat (capacity (rg_header (sy_ring s)))" by (simp add: target_ok_def)
  have n: "locking (sy_writer s) \<noteq> Some i" "unat cur = holders i (sy_readers s)"
    using not_locking [OF d(5) i] cur t(2) by simp_all
  have same: "same_frames (sy_ring s) ?rg" by (rule same_frames_update) simp
  then show "same_frames (sy_ring s) ?rg" .
  show "reader_inv (RPid i e) ?rg (sy_hist s)" using t by (simp add: same_target_ok [OF same])
  have "unat cur + 1 < 2 ^ 32" using n(2) holders_le [of i "sy_readers s"] d(2) by simp
  then have "unat (if cur = 0 then 1 else cur + 1) = unat cur + 1"
    by (simp add: unat_word_ariths)
  moreover have "holders i ((sy_readers s)[r := RPid i e]) = holders i (sy_readers s) + 1"
    using holders_update [OF r, of i "RPid i e"] pc by simp
  ultimately show "count_inv (sy_writer s) ((sy_readers s)[r := RPid i e]) ?rg"
    using d(5) r i d(8) n pc by (intro count_inv_change) auto
qed

lemma reader_step_inv:
  assumes inv: "sys_inv s" and r: "r < length (sy_readers s)"
    and step: "reader_step pid (sy_readers s ! r) (sy_ring s) = Some (pc, rg)"
  shows "sys_inv (s\<lparr>sy_readers := (sy_readers s)[r := pc], sy_ring := rg\<rparr>)"
proof -
  note d = sys_invD [OF inv]
  have here: "reader_inv (sy_readers s ! r) (sy_ring s) (sy_hist s)" using d(7) [OF r] .
  have local: ?thesis if "rg = sy_ring s" "reader_inv pc (sy_ring s) (sy_hist s)"
      "referencing pc = referencing (sy_readers s ! r)"
    using reader_local_inv [OF inv r that(2,3)] that(1) by simp
  show ?thesis
  proof (cases "sy_readers s ! r")
    case RIdle then show ?thesis using step by simp
  next
    case (RSpin n i e)
    then show ?thesis
      using step here by (cases n; intro local) (auto simp: Let_def split: if_splits)
  next
    case (RCas n i e cur)
    show ?thesis
    proof (cases "ref_count (rg_slots (sy_ring s) ! i) = cur")
      case True
      then show ?thesis using take_inv [OF inv r RCas True] step RCas by (auto simp: Let_def)
    next
      case False
      then show ?thesis using step here RCas by (intro local) auto
    qed
  next
    case (RPid i e)
    have eq: "pc = RCheck i e" "rg = update_slot i (\<lambda>t. t\<lparr>holder_pid := pid\<rparr>) (sy_ring s)"
      using step RPid by simp_all
    have same: "same_frames (sy_ring s) rg" unfolding eq(2) by (rule same_frames_update) simp
    have "ref_count (rg_slots rg ! j) = ref_count (rg_slots (sy_ring s) ! j)" for j
      unfolding eq(2) by (cases "j = i"; cases "i < length (rg_slots (sy_ring s))")
        (simp_all add: list_update_beyond)
    then have "count_inv (sy_writer s) ((sy_readers s)[r := pc]) rg"
      using d(5) r same RPid eq(1) by (intro count_inv_keep) auto
    moreover have "reader_inv pc rg (sy_hist s)"
      using here RPid eq(1) by (simp add: same_target_ok [OF same])
    ultimately show ?thesis by (rule reader_preserves [OF inv r same, rotated])
  next
    case (RCheck i e)
    then show ?thesis
      using step here by (intro local) (auto simp: Let_def target_ok_def split: if_splits)
  next
    case (RMismatch i)
    then show ?thesis using step release_inv [OF inv r] by auto
  next
    case (RView i e a)
    then show ?thesis using step here by (intro local) (auto simp: view_slot_def)
  next
    case (RHold e g)
    then show ?thesis using step release_inv [OF inv r] by (auto simp: guard_drop_def)
  qed
qed

lemma write_seq_le: "writer_inv w rg hist \<Longrightarrow> unat (write_seq (rg_header rg)) \<le> length hist"
  by (cases w) simp_all

lemma reader_start_inv:
  assumes "sys_inv s"
  shows "reader_inv (reader_start q (sy_ring s)) (sy_ring s) (sy_hist s)"
    and "referencing (reader_start q (sy_ring s)) = None"
proof -
  note d = sys_invD [OF assms]
  let ?seq = "latest_id (sy_ring s)"
  have le: "unat ?seq \<le> length (sy_hist s)" using write_seq_le [OF d(4)] by (simp add: latest_id_def)
  have idx: "slot_index x (sy_ring s) < unat (capacity (rg_header (sy_ring s)))" for x
    using d(10) by (simp add: slot_index_def)
  show "reader_inv (reader_start q (sy_ring s)) (sy_ring s) (sy_hist s)"
  proof (cases q)
    case ReqLatest
    have "\<exists>k<length (sy_hist s). slot_of k (sy_ring s) = slot_index ?seq (sy_ring s)" if "?seq \<noteq> 0"
    proof (intro exI conjI)
      have "0 < unat ?seq" using that by (simp add: unat_gt_0)
      then show "unat ?seq - 1 < length (sy_hist s)" using le by simp
      show "slot_of (unat ?seq - 1) (sy_ring s) = slot_index ?seq (sy_ring s)"
        using \<open>0 < unat ?seq\<close> by (simp add: slot_of_def slot_index_def)
    qed
    then show ?thesis using idx ReqLatest by (simp add: target_ok_def)
  next
    case (ReqNext last_id)
    have "0 < unat (saturating_add last_id 1)" by (simp add: unat_want)
    then have "saturating_add last_id 1 \<noteq> 0" using unat_gt_0 by blast
    then show ?thesis using idx ReqNext by (simp add: target_ok_def Let_def)
  qed
  show "referencing (reader_start q (sy_ring s)) = None"
    by (cases q) (simp_all add: Let_def)
qed

section \<open>The producer keeps the invariant\<close>

text \<open>A region that differs from \<open>rg\<close> only in slot \<open>i\<close>.\<close>

definition only_slot :: "nat \<Rightarrow> region \<Rightarrow> region \<Rightarrow> bool" where
  "only_slot i rg rg' \<longleftrightarrow> rg_header rg' = rg_header rg \<and> rg_frame_size rg' = rg_frame_size rg
     \<and> length (rg_slots rg') = length (rg_slots rg) \<and> length (rg_data rg') = length (rg_data rg)
     \<and> length (rg_data rg' ! i) = length (rg_data rg ! i)
     \<and> (\<forall>j. j \<noteq> i \<longrightarrow> rg_slots rg' ! j = rg_slots rg ! j \<and> rg_data rg' ! j = rg_data rg ! j)"

lemma only_slot_update [simp]: "only_slot i rg (update_slot i f rg)"
  by (simp add: only_slot_def)

lemma only_slot_meta [simp]: "only_slot i rg (write_slot_meta i ts rg)"
  by (simp add: only_slot_def write_slot_meta_def)

lemma only_slot_copy [simp]: "only_slot i rg (copy_byte i k b rg)"
  by (cases "i < length (rg_data rg)") (simp_all add: only_slot_def copy_byte_def list_update_beyond)

lemma only_slot_slot_of: "only_slot i rg rg' \<Longrightarrow> slot_of k rg' = slot_of k rg"
  by (simp add: only_slot_def slot_of_def)

lemma slot_ok_append:
  assumes "slot_ok hist rg j" "only_slot i rg rg'" "j \<noteq> i"
    and "h = [] \<or> (\<exists>x. h = [x] \<and> slot_of (length hist) rg = i)"
  shows "slot_ok (hist @ h) rg' j"
proof -
  have s: "slot_of k rg' = slot_of k rg" for k using only_slot_slot_of [OF assms(2)] .
  have e: "rg_slots rg' ! j = rg_slots rg ! j" "rg_data rg' ! j = rg_data rg ! j"
    using assms(2,3) by (simp_all add: only_slot_def)
  have old: "k < length hist" if "slot_of k rg = j" "k < length (hist @ h)" for k
    using that assms(3,4) by (auto simp: less_Suc_eq)
  show ?thesis
  proof (cases "frame_id (rg_slots rg ! j) = 0")
    case True
    then show ?thesis using assms(1) old by (auto simp: slot_ok_def s e Let_def)
  next
    case False
    then obtain k where k: "k < length hist" "unat (frame_id (rg_slots rg ! j)) = Suc k"
        "slot_of k rg = j" "ts_ns (rg_slots rg ! j) = snd (hist ! k)"
        "rg_data rg ! j = fst (hist ! k)" "\<forall>k'<length hist. slot_of k' rg = j \<longrightarrow> k' \<le> k"
      using assms(1) by (auto simp: slot_ok_def Let_def)
    have "\<forall>k'<length (hist @ h). slot_of k' rg = j \<longrightarrow> k' \<le> k" using old k(6) by blast
    then show ?thesis using False k
      by (auto simp: slot_ok_def s e Let_def nth_append intro!: exI [of _ k])
  qed
qed

lemma target_ok_append:
  "target_ok hist rg j e \<Longrightarrow> only_slot i rg rg' \<Longrightarrow> target_ok (hist @ h) rg' j e"
  using only_slot_slot_of [of i rg rg']
  by (auto simp: target_ok_def only_slot_def split: option.splits intro: trans_less_add1)

lemma reader_inv_append:
  assumes "reader_inv pc rg hist" "only_slot i rg rg'" "referencing pc \<noteq> Some i"
  shows "reader_inv pc rg' (hist @ h)"
  using assms target_ok_append [OF _ assms(2), of hist _ _ h]
  by (cases pc) (auto simp: only_slot_def)

lemma writer_preserves:
  assumes inv: "sys_inv s" and only: "only_slot i (sy_ring s) rg"
    and free: "holders i (sy_readers s) = 0"
    and wr: "\<And>j. j \<noteq> i \<Longrightarrow> writing (sy_writer s) \<noteq> Some j"
    and h: "h = [] \<or> (\<exists>x. h = [x] \<and> slot_of (length (sy_hist s)) (sy_ring s) = i)"
    and job: "job w = job (sy_writer s)" and w: "writer_inv w rg (sy_hist s @ h)"
    and count: "count_inv w (sy_readers s) rg"
    and own: "writing w \<noteq> Some i \<Longrightarrow> slot_ok (sy_hist s @ h) rg i"
  shows "sys_inv (s\<lparr>sy_writer := w, sy_ring := rg, sy_hist := sy_hist s @ h\<rparr>)"
proof -
  note d = sys_invD [OF inv]
  have hd: "rg_header rg = rg_header (sy_ring s)" "rg_frame_size rg = rg_frame_size (sy_ring s)"
    using only by (simp_all add: only_slot_def)
  have "length (rg_data rg ! j) = unat (rg_frame_size rg)"
    if "j < unat (capacity (rg_header (sy_ring s)))" for j
    using d(1) that only by (cases "j = i") (simp_all add: ring_inv_def only_slot_def)
  then have "ring_inv rg" using d(1) only
    by (simp add: ring_inv_def ring_wf_def only_slot_def)
  moreover have "job_ok p rg" if "job w = Some p" for p
    using d(3) [of p] job that by (simp add: job_ok_def hd slot_index_def)
  moreover have "slot_ok (sy_hist s @ h) rg j"
    if "j < unat (capacity (rg_header rg))" "writing w \<noteq> Some j" for j
    using own slot_ok_append [OF d(6) only _ h, of j] wr [of j] that
    by (cases "j = i") (simp_all add: hd)
  moreover have "reader_inv pc rg (sy_hist s @ h)" if "pc \<in> set (sy_readers s)" for pc
  proof (rule reader_inv_append [OF _ only])
    show "reader_inv pc (sy_ring s) (sy_hist s)" using inv that by (simp add: sys_inv_def)
    show "referencing pc \<noteq> Some i" using holders_pos [OF that, of i] free by auto
  qed
  ultimately show ?thesis using d(2) w count by (simp add: sys_inv_def)
qed

lemma count_inv_lock:
  assumes "count_inv w rs rg" "holders i rs = 0" "only_slot i rg rg'"
    and "\<And>j. j \<noteq> i \<Longrightarrow> locking w \<noteq> Some j \<and> locking w' \<noteq> Some j"
    and "ref_count (rg_slots rg' ! i) = (if locking w' = Some i then WRITER_LOCK else 0)"
  shows "count_inv w' rs rg'"
  unfolding count_inv_def
proof (intro allI impI)
  fix j assume "j < unat (capacity (rg_header rg'))"
  then have j: "j < unat (capacity (rg_header rg))" using assms(3) by (simp add: only_slot_def)
  show "if locking w' = Some j then ref_count (rg_slots rg' ! j) = WRITER_LOCK \<and> holders j rs = 0
    else unat (ref_count (rg_slots rg' ! j)) = holders j rs"
    using assms j by (cases "j = i") (simp_all add: count_inv_def only_slot_def)
qed

text \<open>What the invariant says while the producer works on \<open>p\<close>.\<close>

lemma jobD:
  assumes inv: "sys_inv s" and j: "job (sy_writer s) = Some p"
  shows "p_idx p < unat (capacity (rg_header (sy_ring s)))"
    "p_idx p < length (rg_slots (sy_ring s))" "p_idx p < length (rg_data (sy_ring s))"
    "length (rg_data (sy_ring s) ! p_idx p) = length (p_bytes p)"
    "unat (p_next p) = Suc (unat (write_seq (rg_header (sy_ring s))))"
    "p_idx p = slot_of (unat (write_seq (rg_header (sy_ring s)))) (sy_ring s)"
    "locking (sy_writer s) = Some (p_idx p)
      \<Longrightarrow> holders (p_idx p) (sy_readers s) = 0
        \<and> ref_count (rg_slots (sy_ring s) ! p_idx p) = WRITER_LOCK"
    "k \<noteq> p_idx p \<Longrightarrow> writing (sy_writer s) \<noteq> Some k \<and> locking (sy_writer s) \<noteq> Some k"
proof -
  note d = sys_invD [OF inv]
  have ok: "job_ok p (sy_ring s)" using d(3) j .
  then show i: "p_idx p < unat (capacity (rg_header (sy_ring s)))"
    using d(10) by (simp add: job_ok_def slot_index_def)
  then show "p_idx p < length (rg_slots (sy_ring s))" "p_idx p < length (rg_data (sy_ring s))"
    using d(8,9) by simp_all
  show "length (rg_data (sy_ring s) ! p_idx p) = length (p_bytes p)"
    using d(1) i ok by (simp add: ring_inv_def job_ok_def)
  show "unat (p_next p) = Suc (unat (write_seq (rg_header (sy_ring s))))"
    using ok by (simp add: job_ok_def)
  then show "p_idx p = slot_of (unat (write_seq (rg_header (sy_ring s)))) (sy_ring s)"
    using ok by (simp add: job_ok_def slot_index_def slot_of_def)
  show "holders (p_idx p) (sy_readers s) = 0
        \<and> ref_count (rg_slots (sy_ring s) ! p_idx p) = WRITER_LOCK"
    if "locking (sy_writer s) = Some (p_idx p)"
    using d(5) i that by (simp add: count_inv_def)
  show "writing (sy_writer s) \<noteq> Some k \<and> locking (sy_writer s) \<noteq> Some k" if "k \<noteq> p_idx p"
    using j that by (cases "sy_writer s") auto
qed

lemma commit_slot_ok:
  assumes inv: "sys_inv s" and w: "sy_writer s = WFrameId p"
  shows "slot_ok (sy_hist s @ [(p_bytes p, p_ts p)])
    (update_slot (p_idx p) (\<lambda>t. t\<lparr>frame_id := p_next p\<rparr>) (sy_ring s)) (p_idx p)"
proof -
  have j: "job (sy_writer s) = Some p" by (simp add: w)
  have n: "unat (p_next p) = Suc (length (sy_hist s))"
      "p_idx p = slot_of (length (sy_hist s)) (sy_ring s)"
    using jobD(5,6) [OF inv j] sys_invD(4) [OF inv] w by simp_all
  have b: "rg_data (sy_ring s) ! p_idx p = p_bytes p"
      "ts_ns (rg_slots (sy_ring s) ! p_idx p) = p_ts p"
    using sys_invD(4) [OF inv] w by simp_all
  have nz: "p_next p \<noteq> 0" using n(1) by auto
  have "length (sy_hist s) < length (sy_hist s @ [(p_bytes p, p_ts p)])
    \<and> unat (p_next p) = Suc (length (sy_hist s))
    \<and> (\<forall>k'<length (sy_hist s @ [(p_bytes p, p_ts p)]). k' \<le> length (sy_hist s))" using n by simp
  then show ?thesis using b nz n(2) jobD(2) [OF inv j]
    unfolding slot_ok_def
    by (simp add: Let_def)
qed

lemma writer_step_inv:
  assumes inv: "sys_inv s" and step: "writer_step (sy_writer s) (sy_ring s) = Some (w, rg)"
  shows "sys_inv (s\<lparr>sy_writer := w, sy_ring := rg, sy_hist := sy_hist s @ commits (sy_writer s)\<rparr>)"
proof -
  note d = sys_invD [OF inv]
  show ?thesis
  proof (cases "sy_writer s")
    case WIdle then show ?thesis using step by simp
  next
    case (WCas p)
    then have j: "job (sy_writer s) = Some p" by simp
    note J = jobD [OF inv j]
    show ?thesis
    proof (cases "ref_count (rg_slots (sy_ring s) ! p_idx p) = 0")
      case True
      then have eq: "w = WCopy p 0"
          "rg = update_slot (p_idx p) (\<lambda>s. s\<lparr>ref_count := WRITER_LOCK\<rparr>) (sy_ring s)"
        using step WCas by simp_all
      have free: "holders (p_idx p) (sy_readers s) = 0"
        using not_locking [OF d(5) J(1)] True by (simp add: WRITER_LOCK_def)
      show ?thesis
        using writer_preserves [OF inv only_slot_update free, of "[]" "WCopy p 0"] d(4) WCas J(2)
          count_inv_lock [OF d(5) free only_slot_update, of "WCopy p 0"]
        by (simp add: eq)
    next
      case False
      then show ?thesis using step WCas inv by (auto simp: sys_inv_def count_inv_def)
    qed
  next
    case (WFailed p)
    have same: "same_frames (sy_ring s) (count_drop (sy_ring s))" by simp
    show ?thesis using step WFailed inv
      by (auto simp: sys_inv_def count_inv_def same_simps [OF same])
  next
    case (WCopy p k)
    then have j: "job (sy_writer s) = Some p" by simp
    note J = jobD [OF inv j]
    have free: "holders (p_idx p) (sy_readers s) = 0"
      and lock: "ref_count (rg_slots (sy_ring s) ! p_idx p) = WRITER_LOCK" using J(7) WCopy by simp_all
    have seq: "unat (write_seq (rg_header (sy_ring s))) = length (sy_hist s)" "k \<le> length (p_bytes p)"
      and copied: "take k (rg_data (sy_ring s) ! p_idx p) = take k (p_bytes p)" using d(4) WCopy by simp_all
    show ?thesis
    proof (cases "k < length (p_bytes p)")
      case True
      let ?rg = "copy_byte (p_idx p) k (p_bytes p ! k) (sy_ring s)"
      have eq: "w = WCopy p (Suc k)" "rg = ?rg" using step WCopy True by simp_all
      have "take (Suc k) (rg_data ?rg ! p_idx p) = take (Suc k) (p_bytes p)"
        using True J(3,4) copied by (simp add: copy_byte_def take_Suc_conv_app_nth)
      then show ?thesis
        using writer_preserves [OF inv only_slot_copy free, of "[]" "WCopy p (Suc k)" k "p_bytes p ! k"]
          count_inv_lock [OF d(5) free only_slot_copy, of "WCopy p (Suc k)"] seq True lock WCopy J(8)
        by (simp add: eq)
    next
      case False
      then have "rg_data (sy_ring s) ! p_idx p = p_bytes p" using seq(2) copied J(4) by simp
      then show ?thesis
        using step WCopy False inv by (auto simp: sys_inv_def count_inv_def)
    qed
  next
    case (WMeta p)
    then have j: "job (sy_writer s) = Some p" by simp
    note J = jobD [OF inv j]
    have free: "holders (p_idx p) (sy_readers s) = 0"
      and lock: "ref_count (rg_slots (sy_ring s) ! p_idx p) = WRITER_LOCK" using J(7) WMeta by simp_all
    have eq: "w = WFrameId p" "rg = write_slot_meta (p_idx p) (p_ts p) (sy_ring s)"
      using step WMeta by simp_all
    have slot: "ts_ns (rg_slots rg ! p_idx p) = p_ts p" "ref_count (rg_slots rg ! p_idx p) = WRITER_LOCK"
      using J(2) lock by (simp_all add: eq write_slot_meta_def)
    show ?thesis
      using writer_preserves [OF inv only_slot_meta free, of "[]" "WFrameId p" "p_ts p"]
        count_inv_lock [OF d(5) free only_slot_meta, of "WFrameId p"] d(4) slot WMeta J(8)
      by (simp add: eq)
  next
    case (WFrameId p)
    then have j: "job (sy_writer s) = Some p" by simp
    note J = jobD [OF inv j]
    have free: "holders (p_idx p) (sy_readers s) = 0"
      and lock: "ref_count (rg_slots (sy_ring s) ! p_idx p) = WRITER_LOCK" using J(7) WFrameId by simp_all
    have seq: "unat (write_seq (rg_header (sy_ring s))) = length (sy_hist s)" using d(4) WFrameId by simp
    have eq: "w = WRelease p" "rg = update_slot (p_idx p) (\<lambda>s. s\<lparr>frame_id := p_next p\<rparr>) (sy_ring s)"
      using step WFrameId by simp_all
    show ?thesis
      using writer_preserves [OF inv only_slot_update free, of "[(p_bytes p, p_ts p)]" "WRelease p"]
        count_inv_lock [OF d(5) free only_slot_update, of "WRelease p"] seq lock WFrameId J(2,6,8)
        commit_slot_ok [OF inv WFrameId]
      by (simp add: eq)
  next
    case (WRelease p)
    then have j: "job (sy_writer s) = Some p" by simp
    note J = jobD [OF inv j]
    have free: "holders (p_idx p) (sy_readers s) = 0" using J(7) WRelease by simp
    have eq: "w = WSeq p" "rg = update_slot (p_idx p) (\<lambda>s. s\<lparr>ref_count := 0\<rparr>) (sy_ring s)"
      using step WRelease by simp_all
    have "same_frames (sy_ring s) rg" unfolding eq(2) by (rule same_frames_update) simp
    then have "slot_ok (sy_hist s) rg (p_idx p)"
      using d(6) [OF J(1)] WRelease by (simp add: same_slot_ok)
    then show ?thesis
      using writer_preserves [OF inv only_slot_update free, of "[]" "WSeq p"]
        count_inv_lock [OF d(5) free only_slot_update, of "WSeq p"] d(4) WRelease J(2,8)
      by (simp add: eq)
  next
    case (WSeq p)
    then have j: "job (sy_writer s) = Some p" by simp
    note J = jobD [OF inv j]
    have eq: "w = WIdle" "rg = set_write_seq (p_next p) (sy_ring s)" using step WSeq by simp_all
    have "slot_ok h rg i = slot_ok h (sy_ring s) i" for h i by (simp add: slot_ok_def eq Let_def)
    moreover have "reader_inv pc rg h = reader_inv pc (sy_ring s) h" for pc h
    proof -
      have "target_ok h rg i e = target_ok h (sy_ring s) i e" for i e
        by (simp add: eq target_ok_def split: option.splits)
      then show ?thesis by (cases pc) (simp_all add: eq)
    qed
    moreover have "ring_inv rg = ring_inv (sy_ring s)" by (simp add: ring_inv_def eq)
    moreover have "unat (write_seq (rg_header rg)) = length (sy_hist s)"
      using d(4) J(5) WSeq by (simp add: eq set_write_seq_def)
    ultimately show ?thesis using inv WSeq eq by (simp add: sys_inv_def count_inv_def)
  qed
qed

lemma writer_start_inv:
  assumes "sys_inv s" "sy_writer s = WIdle"
  shows "sys_inv (s\<lparr>sy_writer := writer_start bytes ts (sy_ring s)\<rparr>)"
  using assms by (auto simp: writer_start_def sys_inv_def count_inv_def job_ok_def checked_add_Some_iff
      split: option.splits)

lemma step_inv [inv_intros]: "step pids s t \<Longrightarrow> sys_inv s \<Longrightarrow> sys_inv t"
proof (induction rule: step.induct)
  case (step_request r s q)
  then show ?case using reader_start_inv [of s q] by (intro reader_local_inv) auto
qed (auto intro: writer_start_inv writer_step_inv reader_step_inv)

lemma init_inv:
  assumes "create_in_process now pid cfg = Inr rg" "n < 2 ^ 32 - 1"
  shows "sys_inv (sys_init rg n)"
proof -
  from assms(1) obtain fs where rg: "rg = init_raw now pid cfg fs"
      and c: "0 < unat (rc_capacity cfg)" "unat (rc_capacity cfg) \<le> 4096" by (rule create_init)
  have "holders i (replicate n RIdle) = 0" for i by (induction n) (simp_all add: holders_def)
  then show ?thesis using c assms(2)
    by (simp add: sys_inv_def sys_init_def rg init_raw_def write_header_init_def ring_inv_def
        ring_wf_def count_inv_def zero_slot_def slot_ok_def)
qed

lemma reachable_inv: "reachable pids s0 s \<Longrightarrow> sys_inv s0 \<Longrightarrow> sys_inv s"
  by (induction rule: reachable.induct) (auto intro: inv_intros)

section \<open>The producer alone\<close>

primrec writer_run :: "nat \<Rightarrow> writer_pc \<times> region \<Rightarrow> writer_pc \<times> region" where
  "writer_run 0 c = c"
| "writer_run (Suc n) c =
    (case writer_step (fst c) (snd c) of None \<Rightarrow> c | Some c' \<Rightarrow> writer_run n c')"

lemma writer_run_idle: "writer_run n (WIdle, rg) = (WIdle, rg)"
  by (induction n) simp_all

lemma copy_run:
  assumes "p_idx p < length (rg_data rg)" "length (rg_data rg ! p_idx p) = length (p_bytes p)"
    and "take k (rg_data rg ! p_idx p) = take k (p_bytes p)" "k + m = length (p_bytes p)"
  shows "writer_run (m + n) (WCopy p k, rg)
    = writer_run n (WCopy p (length (p_bytes p)), copy_data (p_idx p) (p_bytes p) rg)"
  using assms
proof (induction m arbitrary: k rg)
  case 0
  then have "rg_data rg ! p_idx p = p_bytes p" by simp
  then have "copy_data (p_idx p) (p_bytes p) rg = rg"
    by (metis copy_data_def list_update_id region.surjective region.update_convs(3))
  then show ?case using 0 by simp
next
  case (Suc m)
  let ?rg = "copy_byte (p_idx p) k (p_bytes p ! k) rg"
  have "take (Suc k) (rg_data ?rg ! p_idx p) = take (Suc k) (p_bytes p)"
    using Suc.prems by (simp add: copy_byte_def take_Suc_conv_app_nth)
  moreover have "copy_data (p_idx p) (p_bytes p) ?rg = copy_data (p_idx p) (p_bytes p) rg"
    by (simp add: copy_data_def copy_byte_def)
  ultimately show ?case
    using Suc.IH [of ?rg "Suc k"] Suc.prems by (simp add: copy_byte_def)
qed

lemma copy_data_update: "copy_data i b (update_slot j f rg) = update_slot j f (copy_data i b rg)"
  by (simp add: copy_data_def update_slot_def)

lemma writer_run_tail:
  "k = length (p_bytes p) \<Longrightarrow> writer_run 5 (WCopy p k, rg) = (WIdle,
     set_write_seq (p_next p) (update_slot (p_idx p) (\<lambda>s. s\<lparr>ref_count := 0\<rparr>)
       (update_slot (p_idx p) (\<lambda>s. s\<lparr>frame_id := p_next p\<rparr>)
         (write_slot_meta (p_idx p) (p_ts p) rg))))"
  by (simp add: eval_nat_numeral)

end
