(* ===== verification/Shm_Properties.thy ===== *)
theory Shm_Properties
  imports Shm_Protocol
begin

text \<open>
  Properties of the shared ring (\<open>crates/shmem-buffer/src/ring.rs\<close>): what the protocol of
  \<open>Shm_Protocol\<close> guarantees in every interleaving, and what the operator's recovery of stale
  slots, which is outside that protocol, can break.
\<close>

section \<open>Runs with recovery\<close>

text \<open>
  \<open>recover_stale_slots\<close> run by a process \<open>self\<close>, between two steps of the others; \<open>alive\<close> is
  the liveness of processes at that moment.
\<close>

record operator =
  op_alive :: "u32 \<Rightarrow> bool"
  op_self :: u32
  op_now :: u64
  op_max_age :: u64

inductive recovery_reachable :: "operator \<Rightarrow> (nat \<Rightarrow> u32) \<Rightarrow> sys \<Rightarrow> sys \<Rightarrow> bool" for op pids s0 where
  rec_init: "recovery_reachable op pids s0 s0"
| rec_step: "recovery_reachable op pids s0 s \<Longrightarrow> step pids s t \<Longrightarrow> recovery_reachable op pids s0 t"
| rec_recover: "recovery_reachable op pids s0 s \<Longrightarrow> recovery_reachable op pids s0
    (s\<lparr>sy_ring := snd (recover_stale_slots (op_alive op) (op_self op) (op_now op) (op_max_age op)
        (sy_ring s))\<rparr>)"

datatype action = APublish "u8 list" u64 | AWriter | ARequest nat request | AReader nat | ARecover

fun act :: "operator \<Rightarrow> (nat \<Rightarrow> u32) \<Rightarrow> action \<Rightarrow> sys \<Rightarrow> sys option" where
  "act op pids (APublish bytes ts) s =
    (case sy_writer s of WIdle \<Rightarrow> Some (s\<lparr>sy_writer := writer_start bytes ts (sy_ring s)\<rparr>)
     | _ \<Rightarrow> None)"
| "act op pids AWriter s =
    (case writer_step (sy_writer s) (sy_ring s) of None \<Rightarrow> None
     | Some (w, rg) \<Rightarrow> Some (s\<lparr>sy_writer := w, sy_ring := rg,
                             sy_hist := sy_hist s @ commits (sy_writer s)\<rparr>))"
| "act op pids (ARequest r q) s =
    (if r < length (sy_readers s)
     then case sy_readers s ! r of RIdle \<Rightarrow>
            Some (s\<lparr>sy_readers := (sy_readers s)[r := reader_start q (sy_ring s)]\<rparr>)
          | _ \<Rightarrow> None
     else None)"
| "act op pids (AReader r) s =
    (if r < length (sy_readers s)
     then case reader_step (pids r) (sy_readers s ! r) (sy_ring s) of None \<Rightarrow> None
          | Some (pc, rg) \<Rightarrow> Some (s\<lparr>sy_readers := (sy_readers s)[r := pc], sy_ring := rg\<rparr>)
     else None)"
| "act op pids ARecover s = Some (s\<lparr>sy_ring := snd (recover_stale_slots (op_alive op) (op_self op)
     (op_now op) (op_max_age op) (sy_ring s))\<rparr>)"

primrec acts :: "operator \<Rightarrow> (nat \<Rightarrow> u32) \<Rightarrow> action list \<Rightarrow> sys \<Rightarrow> sys option" where
  "acts op pids [] s = Some s"
| "acts op pids (a # as) s = (case act op pids a s of None \<Rightarrow> None | Some t \<Rightarrow> acts op pids as t)"

lemma act_step: "act op pids a s = Some t \<Longrightarrow> a \<noteq> ARecover \<Longrightarrow> step pids s t"
  by (cases a) (auto split: writer_pc.splits reader_pc.splits option.splits if_splits
      intro: step.intros)

lemma acts_steps:
  "acts op pids as s = Some t \<Longrightarrow> ARecover \<notin> set as \<Longrightarrow> reachable pids s0 s \<Longrightarrow> reachable pids s0 t"
proof (induction as arbitrary: s)
  case (Cons a as)
  then obtain u where u: "act op pids a s = Some u" "acts op pids as u = Some t"
    by (auto split: option.splits)
  have "step pids s u" using act_step [OF u(1)] Cons.prems by auto
  then have "reachable pids s0 u" using Cons.prems(3) by (rule reach_step [rotated])
  then show ?case using Cons u by auto
qed simp

lemma act_reachable:
  "act op pids a s = Some t \<Longrightarrow> recovery_reachable op pids s0 s \<Longrightarrow> recovery_reachable op pids s0 t"
  using act_step [of op pids a s t] by (cases "a = ARecover") (auto intro: recovery_reachable.intros)

lemma acts_reachable:
  "acts op pids as s = Some t \<Longrightarrow> recovery_reachable op pids s0 s \<Longrightarrow> recovery_reachable op pids s0 t"
  by (induction as arbitrary: s) (auto split: option.splits intro: act_reachable)

section \<open>Properties\<close>

text \<open>C3: No torn reads.  In every interleaving of one producer with fewer than \<open>2^32 - 1\<close>
  readers, started on a newly created ring, a reader that holds a guard sees exactly one frame of
  the history: the bytes in memory are those published, the time stamp and the number of its view
  belong to that frame, and the frame is the one that was asked for.  As it holds at every moment
  of the hold, the bytes do not change while they are read.\<close>

theorem no_torn_reads:
  assumes "create_in_process now pid cfg = Inr rg" "n < 2 ^ 32 - 1"
    and "reachable pids (sys_init rg n) s"
    and "r < length (sy_readers s)" "sy_readers s ! r = RHold e g"
  shows "\<exists>k<length (sy_hist s). unat (fv_frame_id (g_view g)) = Suc k
    \<and> guard_data g (sy_ring s) = fst (sy_hist s ! k) \<and> fv_ts_ns (g_view g) = snd (sy_hist s ! k)
    \<and> wanted e (fv_frame_id (g_view g))"
proof -
  have inv: "sys_inv s" using reachable_inv [OF assms(3) init_inv [OF assms(1,2)]] .
  note d = sys_invD [OF inv]
  let ?i = "g_slot g" and ?slot = "rg_slots (sy_ring s) ! g_slot g"
  have t: "target_ok (sy_hist s) (sy_ring s) ?i e" "wanted e (fv_frame_id (g_view g))"
    and v: "g_view g = view_slot ?slot"
    using d(7) [OF assms(4)] by (auto simp: assms(5))
  have i: "?i < unat (capacity (rg_header (sy_ring s)))" using t(1) by (simp add: target_ok_def)
  have "referencing (sy_readers s ! r) = Some ?i" using assms(5) by simp
  then have "0 < holders ?i (sy_readers s)" using assms(4) by (intro holders_pos) auto
  then have "writing (sy_writer s) \<noteq> Some ?i"
    using not_locking [OF d(5) i] writing_locking by blast
  then have ok: "slot_ok (sy_hist s) (sy_ring s) ?i" using d(6) [OF i] by simp
  have "frame_id ?slot \<noteq> 0"
  proof (cases e)
    case None
    then show ?thesis using t(1) ok by (auto simp: target_ok_def slot_ok_def Let_def)
  next
    case (Some want)
    then show ?thesis using t v by (auto simp: target_ok_def wanted_def view_slot_def)
  qed
  then show ?thesis using ok t(2) v by (auto simp: slot_ok_def Let_def guard_data_def view_slot_def)
qed

text \<open>C33: Mutual exclusion.  In every reachable state the slot the producer has locked is
  referenced by no reader, and the counter of every other slot is the number of readers that
  reference it, so a counter returns to zero when they have all let go.\<close>

theorem writer_excludes_readers:
  assumes "create_in_process now pid cfg = Inr rg" "n < 2 ^ 32 - 1"
    and "reachable pids (sys_init rg n) s" "i < length (rg_slots (sy_ring s))"
  shows "if locking (sy_writer s) = Some i
    then ref_count (rg_slots (sy_ring s) ! i) = WRITER_LOCK
      \<and> (\<forall>pc \<in> set (sy_readers s). referencing pc \<noteq> Some i)
    else unat (ref_count (rg_slots (sy_ring s) ! i))
      = card {r. r < length (sy_readers s) \<and> referencing (sy_readers s ! r) = Some i}"
proof -
  have inv: "sys_inv s" using reachable_inv [OF assms(3) init_inv [OF assms(1,2)]] .
  have i: "i < unat (capacity (rg_header (sy_ring s)))" using assms(4) sys_invD(8) [OF inv] by simp
  show ?thesis
  proof (cases "locking (sy_writer s) = Some i")
    case True
    then have "ref_count (rg_slots (sy_ring s) ! i) = WRITER_LOCK" "holders i (sy_readers s) = 0"
      using sys_invD(5) [OF inv] i by (simp_all add: count_inv_def)
    then show ?thesis using True holders_pos [of _ "sy_readers s" i] by force
  next
    case False
    then show ?thesis using sys_invD(5) [OF inv] i by (simp add: count_inv_def holders_card)
  qed
qed

text \<open>C40: The step-by-step publication implements the operation: left alone, the producer's
  steps end after at most \<open>length bytes + 6\<close> of them with exactly the memory \<open>publish\<close>
  computes, whatever the slot's state.\<close>

theorem solo_publish:
  assumes "ring_inv rg"
  shows "writer_run (length bytes + 6) (writer_start bytes ts rg, rg) = (WIdle, snd (publish bytes ts rg))"
proof (cases "length bytes \<noteq> unat (rg_frame_size rg) \<or> checked_add (write_seq (rg_header rg)) 1 = None")
  case True
  then show ?thesis by (auto simp: writer_start_def publish_def writer_run_idle split: option.splits)
next
  case False
  then obtain fid where len: "length bytes = unat (rg_frame_size rg)"
    and fid: "checked_add (write_seq (rg_header rg)) 1 = Some fid" by auto
  define i where "i = slot_index fid rg"
  define p where "p = \<lparr>p_bytes = bytes, p_ts = ts, p_next = fid, p_idx = i\<rparr>"
  have p: "p_bytes p = bytes" "p_ts p = ts" "p_next p = fid" "p_idx p = i" by (simp_all add: p_def)
  have start: "writer_start bytes ts rg = WCas p"
    using len fid by (simp add: writer_start_def p_def i_def)
  have i: "i < length (rg_data rg)" "length (rg_data rg ! i) = length bytes"
    using assms len by (simp_all add: ring_inv_def ring_wf_def i_def slot_index_def)
  have six: "length bytes + 6 = Suc (length bytes + 5)" by simp
  show ?thesis
  proof (cases "ref_count (rg_slots rg ! i) = 0")
    case True
    let ?rg = "update_slot i (\<lambda>s. s\<lparr>ref_count := WRITER_LOCK\<rparr>) rg"
    have "writer_run (length bytes + 5) (WCopy p 0, ?rg)
        = writer_run 5 (WCopy p (length bytes), copy_data i bytes ?rg)"
      using copy_run [of p ?rg 0 "length bytes" 5] i p by simp
    moreover have "writer_run (length bytes + 6) (WCas p, rg)
        = writer_run (length bytes + 5) (WCopy p 0, ?rg)"
      by (subst six, subst writer_run.simps(2)) (simp add: True p)
    ultimately show ?thesis using True len fid writer_run_tail [of "length bytes" p] p
      by (simp add: start publish_def Let_def i_def)
  next
    case False
    then have "writer_run (length bytes + 6) (WCas p, rg) = (WIdle, count_drop rg)"
    proof -
      have "length bytes + 6 = Suc (Suc (length bytes + 4))" by simp
      then show ?thesis using False p
        by (simp only: writer_run.simps(2) fst_conv snd_conv writer_step.simps if_False
            option.case prod.case p(4) writer_run_idle)
    qed
    then show ?thesis using False len fid by (simp add: start publish_def Let_def i_def)
  qed
qed

text \<open>A ring of one slot of three bytes, two readers, and an operator for whom process 30 is dead.\<close>

definition one_ring :: region where
  "one_ring = init_raw 5 7 \<lparr>rc_capacity = 1, rc_width = 1, rc_height = 1, rc_format = StRgb24\<rparr> 3"

definition two_pids :: "nat \<Rightarrow> u32" where
  "two_pids r = (if r = 0 then 20 else 30)"

definition reaper :: operator where
  "reaper = \<lparr>op_alive = (\<lambda>p. p = 7 \<or> p = 20), op_self = 99, op_now = 100, op_max_age = 10\<rparr>"

definition undertaker :: operator where
  "undertaker = \<lparr>op_alive = (\<lambda>p. p = 20), op_self = 99, op_now = 100, op_max_age = 10\<rparr>"

definition publish_acts :: "u8 list \<Rightarrow> u64 \<Rightarrow> action list" where
  "publish_acts bytes ts = [APublish bytes ts, AWriter, AWriter, AWriter, AWriter, AWriter,
     AWriter, AWriter, AWriter, AWriter]"

definition hold_acts :: "nat \<Rightarrow> request \<Rightarrow> action list" where
  "hold_acts r q = [ARequest r q, AReader r, AReader r, AReader r, AReader r, AReader r]"

lemma one_created:
  "create_in_process 5 7 \<lparr>rc_capacity = 1, rc_width = 1, rc_height = 1, rc_format = StRgb24\<rparr> = Inr one_ring"
  by (simp add: create_in_process_def validate_def frame_size_check_def frame_size_of_def
      one_ring_def checked_mul_def u32_try_from_def segment_size_def
      data_area_offset_def FORMAT_NV12_def FORMAT_RGB24_def)

lemma one_start: "sys_init one_ring 2 = \<lparr>sy_ring = \<lparr>
    rg_header = \<lparr>magic = MAGIC, layout_version = LAYOUT_VERSION, capacity = 1, h_width = 1,
      h_height = 1, h_format = 1, frame_size = 3, write_seq = 0, dropped_frames = 0, created_ns = 5,
      producer_pid = 7\<rparr>,
    rg_slots = [\<lparr>ref_count = 0, frame_id = 0, ts_ns = 0, s_width = 0, s_height = 0, s_format = 0,
      holder_pid = 0\<rparr>],
    rg_data = [[0, 0, 0]], rg_len = 131, rg_capacity = 1, rg_frame_size = 3\<rparr>,
    sy_writer = WIdle, sy_readers = [RIdle, RIdle], sy_hist = []\<rparr>"
proof -
  have "replicate 3 (0 :: u8) = [0, 0, 0]" "replicate 2 RIdle = [RIdle, RIdle]"
    by (simp_all add: numeral_3_eq_3 numeral_2_eq_2)
  then show ?thesis by (simp add: sys_init_def one_ring_def init_raw_def write_header_init_def
      zero_slot_def segment_size_def data_area_offset_def FORMAT_RGB24_def)
qed

lemma spin_step: "reader_step pid (RSpin (numeral n) i e) rg =
    (let cur = ref_count (rg_slots rg ! i)
     in Some (if cur = WRITER_LOCK then RSpin (pred_numeral n) i e
              else RCas (pred_numeral n) i e cur, rg))"
  by (simp only: numeral_eq_Suc reader_step.simps)

lemmas run_simps = spin_step Let_def publish_acts_def hold_acts_def one_start two_pids_def writer_start_def checked_add_def slot_index_def latest_id_def
  update_slot_def copy_byte_def write_slot_meta_def set_write_seq_def count_drop_def WRITER_LOCK_def
  ACQUIRE_SPINS_def wanted_def view_slot_def guard_drop_def saturating_add_def
  FORMAT_NV12_def FORMAT_RGB24_def

lemmas recovery_simps = recover_stale_slots_def recover_slot_def reaper_def undertaker_def
  saturating_sub_def

definition held_run :: "action list" where
  "held_run = publish_acts [1, 1, 1] 1 @ hold_acts 0 ReqLatest"

definition held_view :: frame_view where
  "held_view = \<lparr>fv_frame_id = 1, fv_ts_ns = 1, fv_width = 1, fv_height = 1, fv_format = 1\<rparr>"

lemma held_reached:
  obtains s where "reachable two_pids (sys_init one_ring 2) s" "length (sy_readers s) = 2"
    "sy_readers s ! 0 = RHold None \<lparr>g_slot = 0, g_view = held_view\<rparr>" "length (rg_slots (sy_ring s)) = 1"
    "sy_hist s = [([1, 1, 1], 1)]" "locking (sy_writer s) = None"
    "referencing (sy_readers s ! 1) = None"
proof -
  obtain s where s: "acts reaper two_pids held_run (sys_init one_ring 2) = Some s" and
      p: "length (sy_readers s) = 2" "length (rg_slots (sy_ring s)) = 1"
      "sy_readers s ! 0 = RHold None \<lparr>g_slot = 0, g_view = held_view\<rparr>"
      "sy_hist s = [([1, 1, 1], 1)]" "locking (sy_writer s) = None"
      "referencing (sy_readers s ! 1) = None"
    by (simp add: run_simps held_run_def held_view_def)
  have "ARecover \<notin> set held_run" by (simp add: held_run_def publish_acts_def hold_acts_def)
  then show thesis using that p acts_steps [OF s _ reach_init] by simp
qed

theorem no_torn_reads_witness:
  "\<exists>s. reachable two_pids (sys_init one_ring 2) s
    \<and> guard_data \<lparr>g_slot = 0, g_view = held_view\<rparr> (sy_ring s) = [1, 1, 1]"
proof -
  obtain s where s: "reachable two_pids (sys_init one_ring 2) s" "length (sy_readers s) = 2"
    "sy_readers s ! 0 = RHold None \<lparr>g_slot = 0, g_view = held_view\<rparr>" "sy_hist s = [([1, 1, 1], 1)]"
    by (rule held_reached)
  then show ?thesis using no_torn_reads [OF one_created _ s(1) _ s(3)] by auto
qed

theorem writer_excludes_readers_witness:
  "\<exists>s. reachable two_pids (sys_init one_ring 2) s
    \<and> unat (ref_count (rg_slots (sy_ring s) ! 0)) = 1"
proof -
  obtain s where s: "reachable two_pids (sys_init one_ring 2) s" "length (sy_readers s) = 2"
    "sy_readers s ! 0 = RHold None \<lparr>g_slot = 0, g_view = held_view\<rparr>" "length (rg_slots (sy_ring s)) = 1"
    "locking (sy_writer s) = None" "referencing (sy_readers s ! 1) = None"
    by (rule held_reached)
  have "{r. r < length (sy_readers s) \<and> referencing (sy_readers s ! r) = Some 0} = {0}"
    using s by (auto simp: less_2_cases_iff)
  then show ?thesis using writer_excludes_readers [OF one_created _ s(1), of 0] s by auto
qed

theorem solo_publish_witness:
  "writer_run 9 (writer_start [1, 2, 3] 9 tiny_ring, tiny_ring) = (WIdle, snd (publish [1, 2, 3] 9 tiny_ring))"
proof -
  have "ring_inv tiny_ring" using tiny_rep(3)
    by (simp add: ring_inv_def tiny_ring_def tiny_config_def init_raw_def write_header_init_def)
  from solo_publish [OF this, of "[1, 2, 3]" 9] show ?thesis by simp
qed

text \<open>Reader \<open>r\<close> holds a guard whose bytes are not those of the frame its view names.\<close>

definition torn :: "sys \<Rightarrow> nat \<Rightarrow> bool" where
  "torn s r = (case sy_readers s ! r of
     RHold e g \<Rightarrow> \<not> (\<exists>k<length (sy_hist s). unat (fv_frame_id (g_view g)) = Suc k
       \<and> guard_data g (sy_ring s) = fst (sy_hist s ! k))
   | _ \<Rightarrow> False)"

definition shared_hold_run :: "action list" where
  "shared_hold_run = held_run @ hold_acts 1 ReqLatest
     @ [AReader 1, ARecover, APublish [2, 2, 2] 2, AWriter, AWriter]"

definition dead_producer_run :: "action list" where
  "dead_producer_run = publish_acts [1, 1, 1] 1
     @ [APublish [2, 2, 2] 2, AWriter, AWriter, ARecover] @ hold_acts 0 (ReqNext 0)"

text \<open>C4: The operator's recovery of stale slots is outside the protocol and can break it in two
  ways.  A live reader loses its slot when another process took the same slot after it, let go
  and then died: the counter is one, the holder recorded is the dead process, and the producer
  overwrites the frame that is being read.  And when a producer died in the middle of a copy, the
  lock is cleared while the slot keeps the number of the frame it held before, so that the
  half-overwritten bytes are handed out as that frame.\<close>

theorem recovery_tears_frames:
  "(\<exists>s. recovery_reachable reaper two_pids (sys_init one_ring 2) s
     \<and> op_alive reaper (two_pids 0) \<and> torn s 0)
   \<and> (\<exists>s. recovery_reachable undertaker two_pids (sys_init one_ring 2) s
     \<and> sy_readers s ! 0 = RHold (Some 1) \<lparr>g_slot = 0, g_view = held_view\<rparr> \<and> torn s 0)"
proof
  obtain s where "acts reaper two_pids shared_hold_run (sys_init one_ring 2) = Some s" "torn s 0"
    by (simp add: run_simps recovery_simps shared_hold_run_def held_run_def torn_def guard_data_def)
  moreover have "op_alive reaper (two_pids 0)" by (simp add: reaper_def two_pids_def)
  ultimately show "\<exists>s. recovery_reachable reaper two_pids (sys_init one_ring 2) s
     \<and> op_alive reaper (two_pids 0) \<and> torn s 0"
    using acts_reachable [OF _ rec_init] by blast
next
  obtain s where "acts undertaker two_pids dead_producer_run (sys_init one_ring 2) = Some s" "torn s 0"
      "sy_readers s ! 0 = RHold (Some 1) \<lparr>g_slot = 0, g_view = held_view\<rparr>"
    by (simp add: run_simps recovery_simps dead_producer_run_def torn_def guard_data_def held_view_def)
  then show "\<exists>s. recovery_reachable undertaker two_pids (sys_init one_ring 2) s
     \<and> sy_readers s ! 0 = RHold (Some 1) \<lparr>g_slot = 0, g_view = held_view\<rparr> \<and> torn s 0"
    using acts_reachable [OF _ rec_init] by blast
qed

end
