(* ===== verification/Suppression.thy ===== *)
theory Suppression
  imports Common_Types "HOL-Library.Multiset"
begin

text \<open>
  Greedy suppression, the routine that \<open>crates/cv-inference/src/nms.rs\<close> and the output parser of
  \<open>crates/yolov8/src/lib.rs\<close> share: a stable sort by confidence and two nested loops over a
  vector of flags.  The functions take what the two differ in: the confidence, the test for an
  overlap, and what is pushed for a kept element.  The standard library's \<open>sort_by\<close> is stable; its
  result is specified when the comparison is a total preorder, that is when no confidence is NaN.
\<close>

section \<open>The code\<close>

text \<open>The stable sort, highest confidence first.\<close>

fun sort_insert :: "('a \<Rightarrow> f32) \<Rightarrow> 'a \<Rightarrow> 'a list \<Rightarrow> 'a list" where
  "sort_insert conf d [] = [d]"
| "sort_insert conf d (e # es) =
     (if conf d < conf e then e # sort_insert conf d es else d # e # es)"

definition sort_by_confidence :: "('a \<Rightarrow> f32) \<Rightarrow> 'a list \<Rightarrow> 'a list" where
  "sort_by_confidence conf ds = foldr (sort_insert conf) ds []"

definition suppress :: "('a \<Rightarrow> 'a \<Rightarrow> bool) \<Rightarrow> 'a list \<Rightarrow> nat \<Rightarrow> nat \<Rightarrow> bool list \<Rightarrow> bool list" where
  "suppress over ds i j suppressed =
     (if suppressed ! j then suppressed
      else if over (ds ! i) (ds ! j) then suppressed[j := True]
      else suppressed)"

definition suppression_step ::
  "('a \<Rightarrow> 'a \<Rightarrow> bool) \<Rightarrow> ('a \<Rightarrow> 'b) \<Rightarrow> 'a list \<Rightarrow> nat \<Rightarrow> 'b list \<times> bool list \<Rightarrow> 'b list \<times> bool list" where
  "suppression_step over emit ds i st =
     (case st of (keep, suppressed) \<Rightarrow>
        if suppressed ! i then (keep, suppressed)
        else (keep @ [emit (ds ! i)], fold (suppress over ds i) [Suc i..<length ds] suppressed))"

definition suppression :: "('a \<Rightarrow> 'a \<Rightarrow> bool) \<Rightarrow> ('a \<Rightarrow> 'b) \<Rightarrow> 'a list \<Rightarrow> 'b list" where
  "suppression over emit ds =
     fst (fold (suppression_step over emit ds) [0..<length ds] ([], replicate (length ds) False))"

section \<open>Reference definition\<close>

text \<open>Keep the first, drop what overlaps it, go on with the rest.\<close>

function greedy :: "('a \<Rightarrow> 'a \<Rightarrow> bool) \<Rightarrow> 'a list \<Rightarrow> 'a list" where
  "greedy over [] = []"
| "greedy over (x # xs) = x # greedy over (filter (\<lambda>y. \<not> over x y) xs)"
  by pat_completeness auto
termination by (relation "measure (length \<circ> snd)") (auto simp: less_Suc_eq_le)

lemma greedy_subset: "set (greedy over xs) \<subseteq> set xs"
  by (induction over xs rule: greedy.induct) auto

lemma greedy_disjoint: "sorted_wrt (\<lambda>x y. \<not> over x y) (greedy over xs)"
proof (induction over xs rule: greedy.induct)
  case (2 over x xs)
  then show ?case using greedy_subset [of over "filter (\<lambda>y. \<not> over x y) xs"] by auto
qed simp

lemma greedy_sorted: "sorted_wrt R xs \<Longrightarrow> sorted_wrt R (greedy over xs)"
proof (induction over xs rule: greedy.induct)
  case (2 over x xs)
  then have "sorted_wrt R (filter (\<lambda>y. \<not> over x y) xs)" by (simp add: sorted_wrt_filter)
  then show ?case using 2 greedy_subset [of over "filter (\<lambda>y. \<not> over x y) xs"] by auto
qed simp

lemma greedy_covers:
  "y \<in> set xs \<Longrightarrow> sorted_wrt R xs \<Longrightarrow> y \<in> set (greedy over xs) \<or> (\<exists>x\<in>set (greedy over xs). over x y \<and> R x y)"
proof (induction over xs rule: greedy.induct)
  case (2 over x xs)
  let ?rest = "filter (\<lambda>y. \<not> over x y) xs"
  consider "y = x" | "y \<in> set xs" "over x y" | "y \<in> set ?rest" using 2(2) by auto
  then show ?case
  proof cases
    case 3
    have "sorted_wrt R ?rest" using 2(3) by (simp add: sorted_wrt_filter)
    then show ?thesis using 2(1) [OF 3] by auto
  qed (use 2(3) in auto)
qed simp

lemma greedy_map: "greedy over (map f xs) = map f (greedy (\<lambda>x y. over (f x) (f y)) xs)"
proof (induction xs rule: length_induct)
  case (1 xs)
  show ?case
  proof (cases xs)
    case (Cons x ys)
    have "length (filter (\<lambda>y. \<not> over (f x) (f y)) ys) < length xs"
      using Cons by (simp add: le_imp_less_Suc)
    then show ?thesis using 1 Cons by (simp add: filter_map comp_def)
  qed simp
qed

section \<open>The loops compute it\<close>

lemma suppress_fold:
  assumes "n \<le> length s" "s' = fold (suppress over ds i) [m..<n] s"
  shows "length s' = length s \<and> (\<forall>j<length s. s' ! j
    \<longleftrightarrow> s ! j \<or> (m \<le> j \<and> j < n \<and> over (ds ! i) (ds ! j)))"
  using assms
proof (induction n arbitrary: s')
  case (Suc n)
  show ?case
  proof (cases "m \<le> n")
    case True
    define t where "t = fold (suppress over ds i) [m..<n] s"
    have IH: "length t = length s" "\<forall>j<length s. t ! j
        \<longleftrightarrow> s ! j \<or> (m \<le> j \<and> j < n \<and> over (ds ! i) (ds ! j))"
      using Suc.IH [OF _ t_def] Suc.prems(1) by simp_all
    have "s' = suppress over ds i n t" using Suc.prems(2) True by (simp add: t_def)
    then show ?thesis using IH Suc.prems(1) True
      by (auto simp: suppress_def nth_list_update less_Suc_eq)
  next
    case False
    then show ?thesis using Suc.prems by auto
  qed
qed auto

lemma suppression_fold:
  assumes "i \<le> length ds" "length s = length ds"
  shows "fst (fold (suppression_step over emit ds) [i..<length ds] (keep, s))
    = keep @ map (\<lambda>j. emit (ds ! j)) (greedy (\<lambda>j k. over (ds ! j) (ds ! k))
        (filter (\<lambda>j. \<not> s ! j) [i..<length ds]))"
  using assms
proof (induction "length ds - i" arbitrary: i keep s)
  case 0
  then show ?case by simp
next
  case (Suc n)
  have i: "[i..<length ds] = i # [Suc i..<length ds]" "Suc i \<le> length ds" "n = length ds - Suc i"
    using Suc by (simp_all add: upt_conv_Cons)
  show ?case
  proof (cases "s ! i")
    case True
    then show ?thesis using Suc.hyps(1) [OF i(3,2) Suc.prems(2)] by (simp add: i(1) suppression_step_def)
  next
    case False
    define s' where "s' = fold (suppress over ds i) [Suc i..<length ds] s"
    have s': "length s' = length ds" "\<forall>j<length ds. s' ! j
        \<longleftrightarrow> s ! j \<or> (Suc i \<le> j \<and> j < length ds \<and> over (ds ! i) (ds ! j))"
      using suppress_fold [OF _ s'_def] Suc.prems(2) by simp_all
    then have "filter (\<lambda>j. \<not> s' ! j) [Suc i..<length ds]
        = filter (\<lambda>j. \<not> over (ds ! i) (ds ! j)) (filter (\<lambda>j. \<not> s ! j) [Suc i..<length ds])"
      by (auto intro!: filter_cong)
    then show ?thesis
      using Suc.hyps(1) [OF i(3,2) s'(1), of "keep @ [emit (ds ! i)]"] False
      by (simp add: i(1) suppression_step_def s'_def)
  qed
qed

lemma suppression_greedy: "suppression over emit ds = map emit (greedy over ds)"
proof -
  have f: "filter (\<lambda>j. \<not> replicate (length ds) False ! j) [0..<length ds] = [0..<length ds]"
    by (rule filter_True) simp
  have "suppression over emit ds = map (emit \<circ> (!) ds) (greedy (\<lambda>j k. over (ds ! j) (ds ! k)) [0..<length ds])"
    using suppression_fold [of 0 ds "replicate (length ds) False" over emit "[]"]
    unfolding f by (simp add: suppression_def comp_def)
  also have "\<dots> = map emit (greedy over (map ((!) ds) [0..<length ds]))"
    by (simp add: greedy_map)
  finally show ?thesis by (simp only: map_nth)
qed

section \<open>The sort\<close>

lemma mset_sort_insert: "mset (sort_insert conf d es) = add_mset d (mset es)"
  by (induction es) auto

lemma mset_sort_by_confidence: "mset (sort_by_confidence conf ds) = mset ds"
  by (induction ds) (simp_all add: sort_by_confidence_def mset_sort_insert)

lemma set_sort_insert [simp]: "set (sort_insert conf d es) = insert d (set es)"
  using mset_sort_insert [of conf d es] by (metis set_mset_add_mset_insert set_mset_mset)

lemma set_sort_by_confidence [simp]: "set (sort_by_confidence conf ds) = set ds"
  by (metis mset_sort_by_confidence set_mset_mset)

lemma sort_insert_sorted:
  assumes "sorted_wrt (\<lambda>d e. conf e \<le> conf d) es" "\<forall>e\<in>set (d # es). \<not> is_nan (conf e)"
  shows "sorted_wrt (\<lambda>d e. conf e \<le> conf d) (sort_insert conf d es)"
  using assms
proof (induction es)
  case (Cons e es)
  show ?case
  proof (cases "conf d < conf e")
    case True
    then show ?thesis using Cons fl_less_imp_le by auto
  next
    case False
    then have "conf e \<le> conf d" using Cons.prems(2) by (simp add: fl_not_less)
    then show ?thesis using False Cons.prems fl_le_trans by auto
  qed
qed simp

lemma sort_sorted:
  "\<forall>d\<in>set ds. \<not> is_nan (conf d) \<Longrightarrow> sorted_wrt (\<lambda>d e. conf e \<le> conf d) (sort_by_confidence conf ds)"
proof (induction ds)
  case (Cons d ds)
  have "sorted_wrt (\<lambda>d e. conf e \<le> conf d) (sort_insert conf d (sort_by_confidence conf ds))"
    using Cons by (intro sort_insert_sorted) auto
  then show ?case by (simp add: sort_by_confidence_def)
qed (simp add: sort_by_confidence_def)

section \<open>What suppression keeps\<close>

text \<open>With no NaN the kept elements are of the input, sorted, pairwise apart, and cover the rest.\<close>

lemma kept_correct:
  assumes "\<forall>d\<in>set ds. \<not> is_nan (conf d)" "ks = greedy over (sort_by_confidence conf ds)"
  shows "set ks \<subseteq> set ds \<and> sorted_wrt (\<lambda>d e. conf e \<le> conf d \<and> \<not> over d e) ks
    \<and> (\<forall>d\<in>set ds. d \<notin> set ks \<longrightarrow> (\<exists>k\<in>set ks. over k d \<and> conf d \<le> conf k))"
proof (intro conjI ballI impI)
  note s = sort_sorted [OF assms(1)]
  show "set ks \<subseteq> set ds"
    using greedy_subset [of over "sort_by_confidence conf ds"] by (simp add: assms(2))
  show "sorted_wrt (\<lambda>d e. conf e \<le> conf d \<and> \<not> over d e) ks"
    using greedy_sorted [OF s] greedy_disjoint unfolding assms(2) sorted_wrt_iff_nth_less by blast
  show "\<exists>k\<in>set ks. over k d \<and> conf d \<le> conf k" if "d \<in> set ds" "d \<notin> set ks" for d
    using greedy_covers [OF _ s, of d over] that by (auto simp: assms(2))
qed

end
