(* ===== verification/Nms.thy ===== *)
theory Nms
  imports Suppression
begin

text \<open>
  \<open>crates/cv-inference/src/nms.rs\<close>: greedy suppression of overlapping detections.
\<close>

definition overlaps :: "f32 \<Rightarrow> detection \<Rightarrow> detection \<Rightarrow> bool" where
  "overlaps iou_threshold d e \<longleftrightarrow> iou_threshold < bbox_iou (d_bbox d) (d_bbox e)"

definition non_max_suppression :: "f32 \<Rightarrow> detection list \<Rightarrow> detection list" where
  "non_max_suppression iou_threshold detections =
     (if detections = [] then []
      else suppression (overlaps iou_threshold) id (sort_by_confidence d_confidence detections))"

lemma nms_greedy: "non_max_suppression thr ds = greedy (overlaps thr) (sort_by_confidence d_confidence ds)"
  by (simp add: non_max_suppression_def suppression_greedy sort_by_confidence_def)

text \<open>Suppression returns detections of the input, highest confidence first, of which no
  later one overlaps an earlier one by more than the threshold, and every detection it drops
  overlaps one it keeps whose confidence is not lower.\<close>

lemma nms_correct:
  assumes "\<forall>d\<in>set ds. \<not> is_nan (d_confidence d)"
  shows "set (non_max_suppression thr ds) \<subseteq> set ds
    \<and> sorted_wrt (\<lambda>d e. d_confidence e \<le> d_confidence d \<and> \<not> thr < bbox_iou (d_bbox d) (d_bbox e))
        (non_max_suppression thr ds)
    \<and> (\<forall>d\<in>set ds. d \<notin> set (non_max_suppression thr ds) \<longrightarrow>
        (\<exists>k\<in>set (non_max_suppression thr ds).
           thr < bbox_iou (d_bbox k) (d_bbox d) \<and> d_confidence d \<le> d_confidence k))"
  using kept_correct [OF assms nms_greedy, of thr] by (simp add: overlaps_def)

definition sample_detection :: "u32 \<Rightarrow> f32 \<Rightarrow> detection" where
  "sample_detection x conf = \<lparr>d_bbox = \<lparr>b_x = x, b_y = 100, b_width = 50, b_height = 80\<rparr>,
     d_class = ''person'', d_class_id = 0, d_confidence = conf, d_frame_seq = 1, d_detected_at = 0\<rparr>"

lemma nms_correct_witness:
  "set (non_max_suppression (Fin (1 / 2)) [sample_detection 100 (Fin (1 / 2)), sample_detection 500 (Fin (3 / 4))])
     \<subseteq> {sample_detection 100 (Fin (1 / 2)), sample_detection 500 (Fin (3 / 4))}"
proof -
  have "\<forall>d\<in>set [sample_detection 100 (Fin (1 / 2)), sample_detection 500 (Fin (3 / 4))].
      \<not> is_nan (d_confidence d)" by (simp add: sample_detection_def)
  from nms_correct [OF this] show ?thesis by simp
qed

end
