(* ===== verification/Target_Tracker.thy ===== *)
theory Target_Tracker
  imports Common_Types
begin

text \<open>
  \<open>crates/target-tracker/src/kalman.rs\<close> and \<open>tracker.rs\<close>: the fixed-gain filter in 32-bit
  arithmetic and the tracker of a single target.  The counter behind \<open>next_target_id\<close> is a
  process-wide atomic: it is an argument and a result of \<open>acquire\<close>.  Clock readings are
  arguments.
\<close>

section \<open>Kalman filter\<close>

record kalman_state =
  ks_x :: f32
  ks_y :: f32
  ks_vx :: f32
  ks_vy :: f32

definition at_position :: "f32 \<Rightarrow> f32 \<Rightarrow> kalman_state" where
  "at_position x y = \<lparr>ks_x = x, ks_y = y, ks_vx = Fin 0, ks_vy = Fin 0\<rparr>"

definition predicted_position :: "f32 \<Rightarrow> kalman_state \<Rightarrow> f32 \<times> f32" where
  "predicted_position dt s = (ks_x s + ks_vx s * dt, ks_y s + ks_vy s * dt)"

record kalman_filter =
  kf_state :: kalman_state
  process_noise :: f32
  measurement_noise :: f32

definition kalman_new :: "f32 \<Rightarrow> f32 \<Rightarrow> kalman_filter" where
  "kalman_new x y = \<lparr>kf_state = at_position x y, process_noise = Fin 1, measurement_noise = Fin 4\<rparr>"

definition kalman_with_noise :: "f32 \<Rightarrow> f32 \<Rightarrow> f32 \<Rightarrow> f32 \<Rightarrow> kalman_filter" where
  "kalman_with_noise x y process measurement =
     \<lparr>kf_state = at_position x y, process_noise = process, measurement_noise = measurement\<rparr>"

definition kalman_predict :: "f32 \<Rightarrow> kalman_filter \<Rightarrow> kalman_filter" where
  "kalman_predict dt kf =
    (let s = kf_state kf
     in kf\<lparr>kf_state := s\<lparr>ks_x := ks_x s + ks_vx s * dt, ks_y := ks_y s + ks_vy s * dt\<rparr>\<rparr>)"

definition kalman_update :: "f32 \<Rightarrow> f32 \<Rightarrow> f32 \<Rightarrow> kalman_filter \<Rightarrow> kalman_filter" where
  "kalman_update obs_x obs_y dt kf =
    (let gain = measurement_noise kf / (measurement_noise kf + process_noise kf);
         inv_gain = Fin 1 - gain;
         s = kf_state kf;
         pred_x = ks_x s;
         pred_y = ks_y s;
         s = s\<lparr>ks_x := inv_gain * pred_x + gain * obs_x, ks_y := inv_gain * pred_y + gain * obs_y\<rparr>
     in if lit (1 / 1000000) < dt
        then let residual_vx = (obs_x - pred_x) / dt;
                 residual_vy = (obs_y - pred_y) / dt;
                 alpha = lit (3 / 10)
             in kf\<lparr>kf_state := s\<lparr>ks_vx := (Fin 1 - alpha) * ks_vx s + alpha * residual_vx,
                                ks_vy := (Fin 1 - alpha) * ks_vy s + alpha * residual_vy\<rparr>\<rparr>
        else kf\<lparr>kf_state := s\<rparr>)"

definition kalman_update_from_bbox :: "bounding_box \<Rightarrow> f32 \<Rightarrow> kalman_filter \<Rightarrow> kalman_filter" where
  "kalman_update_from_bbox bbox dt kf =
    (case bbox_center bbox of (cx, cy) \<Rightarrow> kalman_update cx cy dt kf)"

definition kalman_position :: "kalman_filter \<Rightarrow> f32 \<times> f32" where
  "kalman_position kf = (ks_x (kf_state kf), ks_y (kf_state kf))"

definition kalman_velocity :: "kalman_filter \<Rightarrow> f32 \<times> f32" where
  "kalman_velocity kf = (ks_vx (kf_state kf), ks_vy (kf_state kf))"

section \<open>Single target\<close>

datatype tracker_error =
    NoActiveTarget
  | TargetNotFound target_id
  | LockNotAcquired
  | TrackerInternal string

record active_track =
  at_id :: target_id
  at_kalman :: kalman_filter
  at_last_bbox :: bounding_box
  at_confidence :: f32
  at_last_seen :: utc
  at_missed_frames :: u32
  at_confirmation_count :: u32

record target_tracker =
  tt_max_target_age_ms :: nat
  tt_max_missed_frames :: u32
  tt_lock_confirmation_frames :: u32
  tt_match_iou_threshold :: f32
  tt_active :: "active_track option"

definition target_tracker_new :: "nat \<Rightarrow> u32 \<Rightarrow> u32 \<Rightarrow> f32 \<Rightarrow> target_tracker" where
  "target_tracker_new max_age max_missed lock_frames iou =
     \<lparr>tt_max_target_age_ms = max_age, tt_max_missed_frames = max_missed,
      tt_lock_confirmation_frames = lock_frames, tt_match_iou_threshold = iou, tt_active = None\<rparr>"

definition target_tracker_from_common :: "tracker_config \<Rightarrow> target_tracker" where
  "target_tracker_from_common cfg = target_tracker_new (tc_max_target_age_ms cfg)
     (tc_max_missed_frames cfg) (tc_lock_confirmation_frames cfg) (tc_match_iou_threshold cfg)"

text \<open>\<open>fetch_add\<close> wraps.\<close>

definition next_target_id :: "u64 \<Rightarrow> target_id \<times> u64" where
  "next_target_id counter = (counter, counter + 1)"

definition acquire ::
  "utc \<Rightarrow> u64 \<Rightarrow> detection \<Rightarrow> target_tracker \<Rightarrow> target_id \<times> u64 \<times> target_tracker" where
  "acquire now counter det t =
    (case bbox_center (d_bbox det) of (cx, cy) \<Rightarrow>
     case next_target_id counter of (i, counter) \<Rightarrow>
       (i, counter, t\<lparr>tt_active := Some \<lparr>at_id = i, at_kalman = kalman_new cx cy,
          at_last_bbox = d_bbox det, at_confidence = d_confidence det, at_last_seen = now,
          at_missed_frames = 0, at_confirmation_count = 1\<rparr>\<rparr>))"

text \<open>
  \<open>Iterator::max_by\<close> keeps the later of two elements unless the earlier compares greater;
  a comparison with NaN counts as equal.
\<close>

fun max_by_last :: "('a \<Rightarrow> 'f::len fl) \<Rightarrow> 'a list \<Rightarrow> 'a option" where
  "max_by_last f [] = None"
| "max_by_last f (x # xs) = Some (fold (\<lambda>y best. if f y < f best then best else y) xs x)"

definition best_match :: "f32 \<Rightarrow> bounding_box \<Rightarrow> detection list \<Rightarrow> detection option" where
  "best_match threshold bbox detections =
     map_option fst (max_by_last snd
       (filter (\<lambda>x. threshold < snd x) (map (\<lambda>d. (d, bbox_iou (d_bbox d) bbox)) detections)))"

text \<open>The box follows the prediction: its centre moves, its size stays.\<close>

definition predict_bbox :: "f32 \<times> f32 \<Rightarrow> bounding_box \<Rightarrow> bounding_box" where
  "predict_bbox p b =
    (let cx = as_u32 (fmax (fst p) (Fin 0));
         cy = as_u32 (fmax (snd p) (Fin 0));
         half_w = b_width b div 2;
         half_h = b_height b div 2
     in b\<lparr>b_x := saturating_sub cx half_w, b_y := saturating_sub cy half_h\<rparr>)"

definition frame_dt :: f32 where
  "frame_dt = Fin 1 / Fin 30"

definition tracker_update :: "utc \<Rightarrow> detection list \<Rightarrow> target_tracker \<Rightarrow> target_tracker" where
  "tracker_update now detections t =
    (case tt_active t of
       None \<Rightarrow> t
     | Some a \<Rightarrow>
        (case best_match (tt_match_iou_threshold t) (at_last_bbox a) detections of
           Some det \<Rightarrow> t\<lparr>tt_active := Some (a\<lparr>
               at_kalman := kalman_update_from_bbox (d_bbox det) frame_dt (at_kalman a),
               at_last_bbox := d_bbox det, at_confidence := d_confidence det, at_last_seen := now,
               at_missed_frames := 0,
               at_confirmation_count :=
                 (if at_confirmation_count a < tt_lock_confirmation_frames t
                  then at_confirmation_count a + 1 else at_confirmation_count a)\<rparr>)\<rparr>
         | None \<Rightarrow>
             let kalman = kalman_predict frame_dt (at_kalman a)
             in t\<lparr>tt_active := Some (a\<lparr>at_kalman := kalman,
               at_missed_frames := at_missed_frames a + 1,
               at_last_bbox := predict_bbox (kalman_position kalman) (at_last_bbox a)\<rparr>)\<rparr>))"

definition active_target :: "target_tracker \<Rightarrow> target_state option" where
  "active_target t = map_option (\<lambda>a. \<lparr>ts_id = at_id a, ts_bbox = at_last_bbox a,
     ts_velocity = kalman_velocity (at_kalman a), ts_confidence = at_confidence a,
     ts_last_seen = at_last_seen a, ts_missed_frames = at_missed_frames a\<rparr>) (tt_active t)"

definition tracker_is_locked :: "target_tracker \<Rightarrow> bool" where
  "tracker_is_locked t = (case tt_active t of None \<Rightarrow> False
     | Some a \<Rightarrow> tt_lock_confirmation_frames t \<le> at_confirmation_count a)"

definition active_track_is_lost :: "utc \<Rightarrow> nat \<Rightarrow> active_track \<Rightarrow> bool" where
  "active_track_is_lost now max_age_ms a \<longleftrightarrow> max_age_ms < utc_elapsed_ms now (at_last_seen a)"

definition tracker_is_lost :: "utc \<Rightarrow> target_tracker \<Rightarrow> bool" where
  "tracker_is_lost now t = (case tt_active t of None \<Rightarrow> False
     | Some a \<Rightarrow> tt_max_missed_frames t < at_missed_frames a
         \<or> active_track_is_lost now (tt_max_target_age_ms t) a)"

definition tracker_clear :: "target_tracker \<Rightarrow> target_tracker" where
  "tracker_clear t = t\<lparr>tt_active := None\<rparr>"

section \<open>Properties\<close>

text \<open>The gain of the filter grows with the measurement noise: a filter whose measurements
  are declared exact ignores every one of them.\<close>

lemma exact_measurements_ignored:
  assumes "measurement_noise kf = Fin 0" "process_noise kf = Fin p" "0 < p" "representable TYPE(32) p"
    and "ks_x (kf_state kf) = Fin x" "ks_y (kf_state kf) = Fin y"
    and "representable TYPE(32) x" "representable TYPE(32) y" "is_finite ox" "is_finite oy"
  shows "kalman_position (kalman_update ox oy dt kf) = kalman_position kf"
proof -
  have gain: "Fin 0 / (Fin 0 + Fin p) = (Fin 0 :: f32)"
    using rnd_representable [OF assms(4)] assms(3)
    by (simp add: plus_fl_def divide_fl_def signed_zero_def)
  have inv: "Fin 1 - Fin 0 = (Fin 1 :: f32)"
    using rnd_representable [of 1, where 'f=32] representable_int [of 1, where 'f=32]
    by (simp add: minus_fl_def uminus_fl_def plus_fl_def)
  have blend: "Fin 1 * Fin a + Fin 0 * b = (Fin a :: f32)" if "representable TYPE(32) a" "is_finite b" for a b
    using rnd_representable [OF that(1)] that(2)
    by (cases b) (auto simp: times_fl_def plus_fl_def Let_def signed_zero_def)
  show ?thesis
    using assms by (simp add: kalman_update_def kalman_position_def Let_def gain inv blend)
qed

lemma exact_measurements_ignored_witness:
  "kalman_position (kalman_update (Fin 50) (Fin 60) frame_dt (kalman_with_noise (Fin 10) (Fin 20) (Fin 1) (Fin 0)))
    = (Fin 10, Fin 20)"
  using exact_measurements_ignored [of "kalman_with_noise (Fin 10) (Fin 20) (Fin 1) (Fin 0)" 1 10 20 "Fin 50" "Fin 60" frame_dt]
    representable_int [of 1, where 'f=32] representable_int [of 10, where 'f=32] representable_int [of 20, where 'f=32]
  by (simp add: kalman_with_noise_def at_position_def kalman_position_def)

lemma miss_step:
  assumes "tt_active t = Some a"
  shows "\<exists>b. tracker_update now [] t = t\<lparr>tt_active := Some b\<rparr> \<and> at_id b = at_id a
    \<and> at_last_seen b = at_last_seen a \<and> at_missed_frames b = at_missed_frames a + 1"
  using assms
  by (intro exI [of _ "a\<lparr>at_kalman := kalman_predict frame_dt (at_kalman a),
        at_missed_frames := at_missed_frames a + 1,
        at_last_bbox := predict_bbox (kalman_position (kalman_predict frame_dt (at_kalman a))) (at_last_bbox a)\<rparr>"])
    (simp add: tracker_update_def best_match_def Let_def)

lemma miss_run:
  assumes "tt_active t = Some a"
  shows "\<exists>b. (tracker_update now [] ^^ n) t = t\<lparr>tt_active := Some b\<rparr> \<and> at_id b = at_id a
    \<and> at_last_seen b = at_last_seen a \<and> at_missed_frames b = at_missed_frames a + of_nat n"
proof (induction n)
  case 0
  then show ?case using assms by (cases t) simp
next
  case (Suc n)
  then obtain b where b: "(tracker_update now [] ^^ n) t = t\<lparr>tt_active := Some b\<rparr>" "at_id b = at_id a"
    "at_last_seen b = at_last_seen a" "at_missed_frames b = at_missed_frames a + of_nat n" by blast
  then show ?case using miss_step [of "t\<lparr>tt_active := Some b\<rparr>" b now] by (auto simp: add.commute)
qed

text \<open>A target that is never seen again keeps its identity, and is lost exactly when more
  frames than the limit have missed it or its last sighting is too old.\<close>

lemma lost_after_misses:
  assumes "tt_active t = Some a" "at_missed_frames a = 0" "n < 2 ^ 32"
  shows "map_option ts_id (active_target ((tracker_update now [] ^^ n) t)) = Some (at_id a)
    \<and> (tracker_is_lost later ((tracker_update now [] ^^ n) t) \<longleftrightarrow>
         unat (tt_max_missed_frames t) < n \<or> tt_max_target_age_ms t < utc_elapsed_ms later (at_last_seen a))"
proof -
  obtain b where b: "(tracker_update now [] ^^ n) t = t\<lparr>tt_active := Some b\<rparr>" "at_id b = at_id a"
    "at_last_seen b = at_last_seen a" "at_missed_frames b = of_nat n"
    using miss_run [OF assms(1), where n = n and now = now] assms(2) by auto
  have "unat (of_nat n :: u32) = n" using assms(3) by (simp add: unat_of_nat take_bit_nat_eq_self)
  then show ?thesis
    by (simp add: b active_target_def tracker_is_lost_def active_track_is_lost_def word_less_nat_alt)
qed

lemma acquire_active:
  "\<exists>a. tt_active (snd (snd (acquire now c d t))) = Some a \<and> at_missed_frames a = 0
    \<and> tt_max_missed_frames (snd (snd (acquire now c d t))) = tt_max_missed_frames t"
  by (cases "bbox_center (d_bbox d)") (simp add: acquire_def next_target_id_def)

lemma lost_after_misses_witness:
  "\<exists>a. tt_active (snd (snd (acquire 0 1 \<lparr>d_bbox = \<lparr>b_x = 100, b_y = 100, b_width = 50, b_height = 80\<rparr>,
       d_class = ''person'', d_class_id = 0, d_confidence = Fin 1, d_frame_seq = 1, d_detected_at = 0\<rparr>
       (target_tracker_new 2000 5 3 (Fin 0))))) = Some a
    \<and> tracker_is_lost 0 ((tracker_update 0 [] ^^ 6) (snd (snd (acquire 0 1
       \<lparr>d_bbox = \<lparr>b_x = 100, b_y = 100, b_width = 50, b_height = 80\<rparr>,
       d_class = ''person'', d_class_id = 0, d_confidence = Fin 1, d_frame_seq = 1, d_detected_at = 0\<rparr>
       (target_tracker_new 2000 5 3 (Fin 0))))))"
proof -
  let ?d = "\<lparr>d_bbox = \<lparr>b_x = 100, b_y = 100, b_width = 50, b_height = 80\<rparr>, d_class = ''person'',
    d_class_id = 0, d_confidence = Fin 1, d_frame_seq = 1, d_detected_at = 0\<rparr>"
  let ?t = "snd (snd (acquire 0 1 ?d (target_tracker_new 2000 5 3 (Fin 0))))"
  obtain a where a: "tt_active ?t = Some a" "at_missed_frames a = 0" "tt_max_missed_frames ?t = 5"
    using acquire_active [of 0 1 ?d "target_tracker_new 2000 5 3 (Fin 0)"] by (auto simp: target_tracker_new_def)
  have "(6::nat) < 2 ^ 32" by simp
  from lost_after_misses [OF a(1,2) this, where now = 0 and later = 0]
  have "tracker_is_lost 0 ((tracker_update 0 [] ^^ 6) ?t)" by (simp only: a(3)) simp
  then show ?thesis using a(1) by blast
qed

end
