(* ===== verification/Hungarian_Correct.thy ===== *)
theory Hungarian_Correct
  imports Hungarian
begin

text \<open>
  The search of \<open>Hungarian\<close> is correct on the costs the trackers produce.  One minus an overlap
  is a multiple of \<open>2^-24\<close> between 0 and 1, the padding is an integer, and the potentials stay
  between the largest cost and its negative, so that no operation on 64-bit floats rounds; the
  invariants are therefore those of the exact algorithm: feasible potentials, tight matched
  edges, and a tree of tight edges that grows by one column a round.
\<close>

section \<open>Exact arithmetic\<close>

definition grid :: "rat \<Rightarrow> bool" where
  "grid q \<longleftrightarrow> (\<exists>n::int. q = of_int n / 2 ^ 24)"

lemma grid_of_int [simp]: "grid (of_int n)"
  unfolding grid_def by (rule exI [of _ "n * 2 ^ 24"]) simp

lemma grid_0 [simp]: "grid 0"
  using grid_of_int [of 0] by simp

lemma grid_add: "grid a \<Longrightarrow> grid b \<Longrightarrow> grid (a + b)"
proof -
  assume "grid a" "grid b"
  then obtain n m :: int where "a = of_int n / 2 ^ 24" "b = of_int m / 2 ^ 24"
    unfolding grid_def by blast
  then have "a + b = of_int (n + m) / 2 ^ 24" by (simp add: add_divide_distrib)
  then show ?thesis unfolding grid_def by blast
qed

lemma grid_diff: "grid a \<Longrightarrow> grid b \<Longrightarrow> grid (a - b)"
proof -
  assume "grid a" "grid b"
  then obtain n m :: int where "a = of_int n / 2 ^ 24" "b = of_int m / 2 ^ 24"
    unfolding grid_def by blast
  then have "a - b = of_int (n - m) / 2 ^ 24" by (simp add: diff_divide_distrib)
  then show ?thesis unfolding grid_def by blast
qed

lemma grid_representable:
  assumes "grid q" "\<bar>q\<bar> \<le> 2 ^ 28"
  shows "representable TYPE(64) q"
proof -
  obtain n :: int where n: "q = of_int n / 2 ^ 24" using assms(1) by (auto simp: grid_def)
  then have q: "q = of_int n * 2 powi (- 24)" by (simp only: power_int_minus power_int_numeral divide_inverse)
  have "of_int \<bar>n\<bar> \<le> (2::rat) ^ 28 * 2 ^ 24" using assms(2) by (simp add: n abs_divide divide_simps)
  then have "of_int \<bar>n\<bar> \<le> (of_int (2 ^ 52) :: rat)" by simp
  then have "\<bar>n\<bar> \<le> 2 ^ 52" by (simp only: of_int_le_iff)
  then have "\<bar>n\<bar> \<le> 2 ^ prec TYPE(64)" by (simp add: prec_def)
  moreover have "\<bar>q\<bar> < 2 powi emax TYPE(64)"
  proof -
    have "(2::rat) ^ 28 = 2 powi 28" by simp
    also have "\<dots> < 2 powi emax TYPE(64)" by (intro power_int_strict_increasing) (auto simp: emax_def)
    finally show ?thesis using assms(2) by simp
  qed
  ultimately show ?thesis unfolding q by (intro representable_scaled) (auto simp: emin_def)
qed

lemma Fin_minus:
  "grid a \<Longrightarrow> grid b \<Longrightarrow> \<bar>a - b\<bar> \<le> 2 ^ 28 \<Longrightarrow> Fin a - Fin b = (Fin (a - b) :: f64)"
  using rnd_representable [OF grid_representable [of "a - b"]]
  by (auto simp: grid_diff minus_fl_def uminus_fl_def plus_fl_def)

lemma Fin_plus:
  "grid a \<Longrightarrow> grid b \<Longrightarrow> \<bar>a + b\<bar> \<le> 2 ^ 28 \<Longrightarrow> Fin a + Fin b = (Fin (a + b) :: f64)"
  using rnd_representable [OF grid_representable [of "a + b"]]
  by (auto simp: grid_add plus_fl_def)

text \<open>A finite value on the grid.\<close>

definition exact :: "f64 \<Rightarrow> bool" where
  "exact x \<longleftrightarrow> x = Fin (qval x) \<and> grid (qval x)"

lemma exact_Fin [simp]: "exact (Fin q) = grid q"
  by (simp add: exact_def)

lemma exact_minus:
  assumes "exact a" "exact b" "\<bar>qval a - qval b\<bar> \<le> 2 ^ 28"
  shows "exact (a - b)" "qval (a - b) = qval a - qval b"
proof -
  have "a - b = Fin (qval a - qval b)"
    using Fin_minus [of "qval a" "qval b"] assms by (simp add: exact_def)
  then show "exact (a - b)" "qval (a - b) = qval a - qval b"
    using assms by (auto simp: exact_def grid_diff)
qed

lemma exact_plus:
  assumes "exact a" "exact b" "\<bar>qval a + qval b\<bar> \<le> 2 ^ 28"
  shows "exact (a + b)" "qval (a + b) = qval a + qval b"
proof -
  have "a + b = Fin (qval a + qval b)"
    using Fin_plus [of "qval a" "qval b"] assms by (simp add: exact_def)
  then show "exact (a + b)" "qval (a + b) = qval a + qval b"
    using assms by (auto simp: exact_def grid_add)
qed

lemma exact_less: "exact a \<Longrightarrow> exact b \<Longrightarrow> a < b \<longleftrightarrow> qval a < qval b"
  by (cases a; cases b) (simp_all add: exact_def)

lemma exact_less_inf [simp]: "exact a \<Longrightarrow> a < PInf"
  by (cases a) (simp_all add: exact_def less_fl_def less_eq_fl_def)

section \<open>The two inner loops\<close>

text \<open>What the scan leaves in a column that is not in the tree.\<close>

definition new_minv :: "f64 list list \<Rightarrow> f64 list \<Rightarrow> f64 list \<Rightarrow> nat \<Rightarrow> f64 list \<Rightarrow> nat \<Rightarrow> f64" where
  "new_minv cost u v i0 minv j =
     (let cur = cost ! i0 ! j - u ! i0 - v ! j in if cur < minv ! j then cur else minv ! j)"

definition new_way ::
  "f64 list list \<Rightarrow> f64 list \<Rightarrow> f64 list \<Rightarrow> nat \<Rightarrow> nat \<Rightarrow> f64 list \<Rightarrow> nat list \<Rightarrow> nat \<Rightarrow> nat" where
  "new_way cost u v j0 i0 minv way j =
     (let cur = cost ! i0 ! j - u ! i0 - v ! j in if cur < minv ! j then j0 else way ! j)"

text \<open>The columns up to \<open>n\<close> outside the tree, and the least slack among them.\<close>

definition free :: "bool list \<Rightarrow> nat \<Rightarrow> nat set" where
  "free used n = {j. 1 \<le> j \<and> j \<le> n \<and> \<not> used ! j}"

lemma free_0 [simp]: "free used 0 = {}"
  by (auto simp: free_def)

lemma free_Suc: "free used (Suc n) = (if used ! Suc n then free used n else insert (Suc n) (free used n))"
  by (auto simp: free_def le_Suc_eq)

lemma free_le: "j \<in> free used n \<Longrightarrow> 1 \<le> j \<and> j \<le> n \<and> \<not> used ! j"
  by (simp add: free_def)

definition least :: "(nat \<Rightarrow> f64) \<Rightarrow> nat set \<Rightarrow> f64 \<Rightarrow> nat \<Rightarrow> bool" where
  "least f A d k \<longleftrightarrow> (if A = {} then d = PInf \<and> k = 0
     else k \<in> A \<and> d = f k \<and> (\<forall>j\<in>A. qval d \<le> qval (f j)))"

lemma least_insert:
  assumes "least f A d k" "\<forall>j \<in> insert x A. exact (f j)"
  shows "least f (insert x A) (if f x < d then f x else d) (if f x < d then x else k)"
proof (cases "A = {}")
  case True
  then show ?thesis using assms by (simp add: least_def)
next
  case False
  then have "exact d" using assms by (auto simp: least_def)
  then have "f x < d \<longleftrightarrow> qval (f x) < qval d" using assms(2) by (intro exact_less) auto
  then show ?thesis using assms(1) False by (auto simp: least_def)
qed

lemma scan_fold:
  assumes "n \<le> sz" "length minv = Suc sz" "length way = Suc sz"
    and fin: "\<And>j. j \<in> free used sz \<Longrightarrow> exact (new_minv cost u v i0 minv j)"
    and s: "s = fold (scan_column cost u v used j0 i0) [1..<Suc n]
               \<lparr>se_minv = minv, se_way = way, se_delta = PInf, se_j1 = 0\<rparr>"
  shows "length (se_minv s) = Suc sz \<and> length (se_way s) = Suc sz
     \<and> (\<forall>j\<le> sz. se_minv s ! j = (if j \<in> free used n then new_minv cost u v i0 minv j else minv ! j))
     \<and> (\<forall>j\<le> sz. se_way s ! j
          = (if j \<in> free used n then new_way cost u v j0 i0 minv way j else way ! j))
     \<and> least (new_minv cost u v i0 minv) (free used n) (se_delta s) (se_j1 s)"
  using assms(1) s
proof (induction n arbitrary: s)
  case 0
  then show ?case using assms(2,3) by (simp add: least_def)
next
  case (Suc n)
  define t where "t = fold (scan_column cost u v used j0 i0) [1..<Suc n]
               \<lparr>se_minv = minv, se_way = way, se_delta = PInf, se_j1 = 0\<rparr>"
  have n: "n \<le> sz" "Suc n \<le> sz" using Suc.prems by simp_all
  note IH = Suc.IH [OF n(1) t_def]
  have step: "s = scan_column cost u v used j0 i0 (Suc n) t"
    by (simp add: Suc.prems(2) t_def)
  have out: "Suc n \<notin> free used n" by (simp add: free_def)
  show ?case
  proof (cases "used ! Suc n")
    case True
    then show ?thesis using IH by (simp add: step scan_column_def free_Suc)
  next
    case False
    let ?m = "new_minv cost u v i0 minv (Suc n)"
    have ex: "\<forall>j \<in> insert (Suc n) (free used n). exact (new_minv cost u v i0 minv j)"
      using fin n False by (auto simp: free_def)
    have cur: "se_minv t ! Suc n = minv ! Suc n" "se_way t ! Suc n = way ! Suc n"
      "length (se_minv t) = Suc sz" "length (se_way t) = Suc sz"
      using IH n(2) out by simp_all
    have s': "s = t\<lparr>se_minv := (se_minv t)[Suc n := ?m],
        se_way := (se_way t)[Suc n := new_way cost u v j0 i0 minv way (Suc n)],
        se_delta := if ?m < se_delta t then ?m else se_delta t,
        se_j1 := if ?m < se_delta t then Suc n else se_j1 t\<rparr>"
      using False n cur(3,4) unfolding step scan_column_def new_minv_def new_way_def
      by (auto simp: Let_def cur(1,2) [symmetric])
    have "least (new_minv cost u v i0 minv) (insert (Suc n) (free used n)) (se_delta s) (se_j1 s)"
      using least_insert [OF _ ex] IH by (simp add: s')
    moreover have "se_minv s ! j = (if j \<in> insert (Suc n) (free used n)
        then new_minv cost u v i0 minv j else minv ! j)" if "j \<le> sz" for j
      using IH that cur n by (cases "j = Suc n") (simp_all add: s')
    moreover have "se_way s ! j = (if j \<in> insert (Suc n) (free used n)
        then new_way cost u v j0 i0 minv way j else way ! j)" if "j \<le> sz" for j
      using IH that cur n by (cases "j = Suc n") (simp_all add: s')
    ultimately show ?thesis using False cur by (simp add: free_Suc s')
  qed
qed

text \<open>The shift changes the row of each tree column once, because those rows are distinct.\<close>

lemma shift_fold:
  assumes "n \<le> Suc sz" "length u = Suc sz" "length v = Suc sz" "length minv = Suc sz"
    and inj: "\<And>j k. j \<le> sz \<Longrightarrow> k \<le> sz \<Longrightarrow> used ! j \<Longrightarrow> used ! k \<Longrightarrow> p ! j = p ! k \<Longrightarrow> j = k"
    and rows: "\<And>j. j \<le> sz \<Longrightarrow> p ! j \<le> sz"
    and s: "s = fold (shift_column p used delta) [0..<n] \<lparr>po_u = u, po_v = v, po_minv = minv\<rparr>"
  shows "length (po_u s) = Suc sz \<and> length (po_v s) = Suc sz \<and> length (po_minv s) = Suc sz
     \<and> (\<forall>r\<le> sz. po_u s ! r = (if \<exists>j<n. used ! j \<and> p ! j = r then u ! r + delta else u ! r))
     \<and> (\<forall>j\<le> sz. po_v s ! j = (if j < n \<and> used ! j then v ! j - delta else v ! j))
     \<and> (\<forall>j\<le> sz. po_minv s ! j = (if j < n \<and> \<not> used ! j then minv ! j - delta else minv ! j))"
  using assms(1) s
proof (induction n arbitrary: s)
  case 0
  then show ?case using assms(2-4) by simp
next
  case (Suc n)
  define t where "t = fold (shift_column p used delta) [0..<n] \<lparr>po_u = u, po_v = v, po_minv = minv\<rparr>"
  have n: "n \<le> Suc sz" "n \<le> sz" using Suc.prems by simp_all
  note IH = Suc.IH [OF n(1) t_def]
  have step: "s = shift_column p used delta n t" by (simp add: Suc.prems(2) t_def)
  show ?case
  proof (cases "used ! n")
    case True
    have fresh: "\<not> (\<exists>j<n. used ! j \<and> p ! j = p ! n)"
      using inj [OF _ n(2) _ True] n(2) by (metis less_imp_le_nat less_irrefl le_trans)
    have u: "po_u s ! r = (if \<exists>j<Suc n. used ! j \<and> p ! j = r then u ! r + delta else u ! r)"
      if "r \<le> sz" for r
    proof (cases "r = p ! n")
      case eq: True
      have "p ! n < length (po_u t)" using IH rows [OF n(2)] by simp
      moreover have "po_u t ! (p ! n) = u ! (p ! n)" using IH rows [OF n(2)] fresh by auto
      ultimately show ?thesis using True eq by (auto simp: step shift_column_def)
    next
      case ne: False
      then have "(\<exists>j<Suc n. used ! j \<and> p ! j = r) = (\<exists>j<n. used ! j \<and> p ! j = r)"
        by (auto simp: less_Suc_eq)
      then show ?thesis using True IH ne that by (simp add: step shift_column_def)
    qed
    moreover have "po_v s ! j = (if j < Suc n \<and> used ! j then v ! j - delta else v ! j)" if "j \<le> sz" for j
      using IH True that n
      by (cases "j = n") (simp add: step shift_column_def, auto simp: step shift_column_def less_Suc_eq)
    moreover have "po_minv s ! j = (if j < Suc n \<and> \<not> used ! j then minv ! j - delta else minv ! j)"
      if "j \<le> sz" for j
      using IH True that n by (auto simp: step shift_column_def less_Suc_eq)
    ultimately show ?thesis using IH True by (simp add: step shift_column_def)
  next
    case False
    have "(\<exists>j<Suc n. used ! j \<and> p ! j = r) = (\<exists>j<n. used ! j \<and> p ! j = r)" for r
      using False by (auto simp: less_Suc_eq)
    moreover have "po_v s ! j = (if j < Suc n \<and> used ! j then v ! j - delta else v ! j)" if "j \<le> sz" for j
      using IH False that n by (auto simp: step shift_column_def less_Suc_eq)
    moreover have "po_minv s ! j = (if j < Suc n \<and> \<not> used ! j then minv ! j - delta else minv ! j)"
      if "j \<le> sz" for j
      using IH False that n
      by (cases "j = n") (simp add: step shift_column_def, auto simp: step shift_column_def less_Suc_eq)
    ultimately show ?thesis using IH False by (simp add: step shift_column_def)
  qed
qed

section \<open>Invariants\<close>

text \<open>Costs on the grid between 0 and a million; rows and columns are numbered from 1.\<close>

definition max_cost :: rat where
  "max_cost = 1000000"

definition cost_ok :: "nat \<Rightarrow> f64 list list \<Rightarrow> bool" where
  "cost_ok sz cost \<longleftrightarrow> (\<forall>r\<in>{1..sz}. \<forall>j\<in>{1..sz}. exact (cost ! r ! j)
     \<and> 0 \<le> qval (cost ! r ! j) \<and> qval (cost ! r ! j) \<le> max_cost)"

text \<open>Feasible potentials of the first \<open>k\<close> rows, tight on the matching \<open>p\<close>.\<close>

definition potentials_ok ::
  "nat \<Rightarrow> f64 list list \<Rightarrow> nat \<Rightarrow> f64 list \<Rightarrow> f64 list \<Rightarrow> nat list \<Rightarrow> bool" where
  "potentials_ok sz cost k u v p \<longleftrightarrow> length u = Suc sz \<and> length v = Suc sz
     \<and> (\<forall>r\<in>{1..sz}. exact (u ! r) \<and> 0 \<le> qval (u ! r) \<and> (k < r \<longrightarrow> qval (u ! r) = 0))
     \<and> (\<forall>j\<in>{1..sz}. exact (v ! j) \<and> qval (v ! j) \<le> 0 \<and> (p ! j = 0 \<longrightarrow> qval (v ! j) = 0))
     \<and> (\<forall>r\<in>{1..k}. \<forall>j\<in>{1..sz}. qval (u ! r) + qval (v ! j) \<le> qval (cost ! r ! j))
     \<and> (\<forall>j\<in>{1..sz}. p ! j \<noteq> 0
          \<longrightarrow> qval (u ! (p ! j)) + qval (v ! j) = qval (cost ! (p ! j) ! j))"

text \<open>A matching of exactly the rows \<open>1..k\<close>.\<close>

definition match_ok :: "nat \<Rightarrow> nat \<Rightarrow> nat list \<Rightarrow> bool" where
  "match_ok sz k p \<longleftrightarrow> length p = Suc sz \<and> (\<forall>j\<in>{1..sz}. p ! j \<le> k)
     \<and> (\<forall>j\<in>{1..sz}. \<forall>j'\<in>{1..sz}. p ! j = p ! j' \<longrightarrow> p ! j \<noteq> 0 \<longrightarrow> j = j')
     \<and> (\<forall>r\<in>{1..k}. \<exists>j\<in>{1..sz}. p ! j = r)"

definition slack :: "f64 list list \<Rightarrow> f64 list \<Rightarrow> f64 list \<Rightarrow> nat list \<Rightarrow> nat \<Rightarrow> nat \<Rightarrow> rat" where
  "slack cost u v p s j = qval (cost ! (p ! s) ! j) - qval (u ! (p ! s)) - qval (v ! j)"

text \<open>
  The tree of tight edges: \<open>ord\<close> lists its columns in the order they entered, the next column
  \<open>tr_j0\<close> hangs on it, and \<open>tr_minv\<close> is the least slack from the tree to every other column.
\<close>

definition tree_ok ::
  "nat \<Rightarrow> f64 list list \<Rightarrow> nat \<Rightarrow> nat list \<Rightarrow> tree \<Rightarrow> nat list \<Rightarrow> bool" where
  "tree_ok sz cost i p t ord \<longleftrightarrow> length (tr_way t) = Suc sz \<and> length (tr_minv t) = Suc sz
     \<and> length (tr_used t) = Suc sz
     \<and> potentials_ok sz cost i (tr_u t) (tr_v t) p
     \<and> distinct (ord @ [tr_j0 t]) \<and> set (ord @ [tr_j0 t]) \<subseteq> {0..sz} \<and> hd (ord @ [tr_j0 t]) = 0
     \<and> (\<forall>j\<le> sz. tr_used t ! j = (j \<in> set ord)) \<and> (\<forall>j\<in>set ord. p ! j \<noteq> 0)
     \<and> (\<forall>n < length (ord @ [tr_j0 t]). 0 < n \<longrightarrow>
          (let j = (ord @ [tr_j0 t]) ! n
           in tr_way t ! j \<in> set (take n (ord @ [tr_j0 t]))
              \<and> slack cost (tr_u t) (tr_v t) p (tr_way t ! j) j = 0))
     \<and> (\<forall>j\<in>{1..sz} - set ord. if ord = [] then tr_minv t ! j = PInf
          else exact (tr_minv t ! j) \<and> tr_way t ! j \<in> set ord
             \<and> qval (tr_minv t ! j) = slack cost (tr_u t) (tr_v t) p (tr_way t ! j) j
             \<and> (\<forall>s\<in>set ord. qval (tr_minv t ! j) \<le> slack cost (tr_u t) (tr_v t) p s j))"

lemma unmatched_column:
  assumes "match_ok sz k p" "k < sz"
  shows "\<exists>j\<in>{1..sz}. p ! j = 0"
proof (rule ccontr)
  assume "\<not> (\<exists>j\<in>{1..sz}. p ! j = 0)"
  then have nz: "p ! j \<noteq> 0" if "j \<in> {1..sz}" for j using that by auto
  then have "inj_on ((!) p) {1..sz}" using assms(1) unfolding match_ok_def by (intro inj_onI) blast
  moreover have "p ! j \<in> {1..k}" if "j \<in> {1..sz}" for j
  proof -
    have "p ! j \<le> k" using assms(1) that unfolding match_ok_def by blast
    then show ?thesis using nz [OF that] by simp
  qed
  then have "(!) p ` {1..sz} \<subseteq> {1..k}" by blast
  ultimately have "card {1..sz} \<le> card {1..k}" by (metis card_inj_on_le finite_atLeastAtMost)
  then show False using assms(2) by simp
qed

lemma potential_bounds:
  assumes pot: "potentials_ok sz cost i u v p" and m: "match_ok sz k p" "k < sz" and i: "i \<le> sz"
    and c: "cost_ok sz cost"
  shows "r \<in> {1..sz} \<Longrightarrow> 0 \<le> qval (u ! r) \<and> qval (u ! r) \<le> max_cost"
    and "j \<in> {1..sz} \<Longrightarrow> - max_cost \<le> qval (v ! j) \<and> qval (v ! j) \<le> 0"
proof -
  obtain e where e: "e \<in> {1..sz}" "p ! e = 0" using unmatched_column [OF m] by blast
  have ve: "qval (v ! e) = 0" using pot e unfolding potentials_ok_def by blast
  have u: "0 \<le> qval (u ! r) \<and> qval (u ! r) \<le> max_cost" if r: "r \<in> {1..sz}" for r
  proof (cases "r \<le> i")
    case True
    then have "qval (u ! r) + qval (v ! e) \<le> qval (cost ! r ! e)"
      using pot e(1) r unfolding potentials_ok_def by (meson atLeastAtMost_iff)
    moreover have "qval (cost ! r ! e) \<le> max_cost" using c r e(1) unfolding cost_ok_def by blast
    moreover have "0 \<le> qval (u ! r)" using pot r unfolding potentials_ok_def by blast
    ultimately show ?thesis using ve by linarith
  next
    case False
    then have "qval (u ! r) = 0" using pot r unfolding potentials_ok_def by (meson not_le)
    then show ?thesis by (simp add: max_cost_def)
  qed
  then show "r \<in> {1..sz} \<Longrightarrow> 0 \<le> qval (u ! r) \<and> qval (u ! r) \<le> max_cost" by blast
  show "- max_cost \<le> qval (v ! j) \<and> qval (v ! j) \<le> 0" if j: "j \<in> {1..sz}"
  proof (cases "p ! j = 0")
    case True
    then have "qval (v ! j) = 0" using pot j unfolding potentials_ok_def by blast
    then show ?thesis by (simp add: max_cost_def)
  next
    case False
    have "p ! j \<le> k" using m(1) j unfolding match_ok_def by blast
    then have pj: "p ! j \<in> {1..sz}" using m(2) False by simp
    have "qval (u ! (p ! j)) + qval (v ! j) = qval (cost ! (p ! j) ! j)" "qval (v ! j) \<le> 0"
      using pot j False unfolding potentials_ok_def by blast+
    moreover have "0 \<le> qval (cost ! (p ! j) ! j)" using c pj j unfolding cost_ok_def by blast
    ultimately show ?thesis using u [OF pj] by linarith
  qed
qed

section \<open>One round of the search\<close>

text \<open>What the steps of a round know: the tree, and a next column that is matched.\<close>

definition round_ctx ::
  "nat \<Rightarrow> f64 list list \<Rightarrow> nat \<Rightarrow> nat list \<Rightarrow> tree \<Rightarrow> nat list \<Rightarrow> bool" where
  "round_ctx sz cost k p t ord \<longleftrightarrow> cost_ok sz cost \<and> match_ok sz k p \<and> k < sz \<and> p ! 0 = Suc k
     \<and> tree_ok sz cost (Suc k) p t ord \<and> p ! tr_j0 t \<noteq> 0"

lemma round_facts:
  assumes "round_ctx sz cost k p t ord"
  defines "T \<equiv> set (ord @ [tr_j0 t])"
  shows "cost_ok sz cost" "match_ok sz k p" "k < sz" "p ! 0 = Suc k"
    "potentials_ok sz cost (Suc k) (tr_u t) (tr_v t) p" "tr_j0 t \<le> sz"
    "s \<in> T \<Longrightarrow> s \<le> sz \<and> p ! s \<in> {1..Suc k} \<and> p ! s \<in> {1..sz}"
    "s \<in> T \<Longrightarrow> j \<in> {0..sz} \<Longrightarrow> p ! s = p ! j \<Longrightarrow> s = j"
    "j \<le> sz \<Longrightarrow> (tr_used t)[tr_j0 t := True] ! j = (j \<in> T)"
    "j \<in> free ((tr_used t)[tr_j0 t := True]) sz \<longleftrightarrow> j \<in> {1..sz} - T"
    "{1..sz} - T \<noteq> {}" "0 \<in> T"
proof -
  show c: "cost_ok sz cost" and m: "match_ok sz k p" and k: "k < sz" and p0: "p ! 0 = Suc k"
    and "potentials_ok sz cost (Suc k) (tr_u t) (tr_v t) p"
    using assms(1) by (simp_all add: round_ctx_def tree_ok_def)
  have tr: "tree_ok sz cost (Suc k) p t ord" and j0: "p ! tr_j0 t \<noteq> 0"
    using assms(1) by (simp_all add: round_ctx_def)
  show j0le: "tr_j0 t \<le> sz" using tr by (simp add: tree_ok_def)
  have sub: "T \<subseteq> {0..sz}" and nz: "\<And>s. s \<in> T \<Longrightarrow> p ! s \<noteq> 0" and len: "length (tr_used t) = Suc sz"
    and used: "\<And>j. j \<le> sz \<Longrightarrow> tr_used t ! j = (j \<in> set ord)"
    using tr j0 unfolding tree_ok_def T_def by auto
  have "hd (ord @ [tr_j0 t]) = 0" using tr by (simp add: tree_ok_def)
  then show zero: "0 \<in> T" unfolding T_def by (metis hd_in_set snoc_eq_iff_butlast)
  have row: "p ! j \<le> k" if "j \<in> {1..sz}" for j using m that unfolding match_ok_def by blast
  show "s \<le> sz \<and> p ! s \<in> {1..Suc k} \<and> p ! s \<in> {1..sz}" if "s \<in> T" for s
    using sub nz [OF that] that row [of s] p0 k by (cases "s = 0") auto
  show "s = j" if "s \<in> T" "j \<in> {0..sz}" "p ! s = p ! j" for s j
  proof (cases "s = 0 \<or> j = 0")
    case True
    then show ?thesis using that row [of s] row [of j] p0 sub by (cases "s = 0"; cases "j = 0") auto
  next
    case False
    then have "s \<in> {1..sz}" "j \<in> {1..sz}" using that sub by auto
    then show ?thesis using m that(3) nz [OF that(1)] unfolding match_ok_def by blast
  qed
  show u: "(tr_used t)[tr_j0 t := True] ! j = (j \<in> T)" if "j \<le> sz" for j
    using used [OF that] len that j0le by (cases "j = tr_j0 t") (auto simp: T_def)
  show "j \<in> free ((tr_used t)[tr_j0 t := True]) sz \<longleftrightarrow> j \<in> {1..sz} - T" for j
    using u [of j] by (auto simp: free_def)
  obtain e where "e \<in> {1..sz}" "p ! e = 0" using unmatched_column [OF m k] by blast
  then show "{1..sz} - T \<noteq> {}" using nz by blast
qed

lemma exact_slack:
  assumes "round_ctx sz cost k p t ord" "s \<in> set (ord @ [tr_j0 t])" "j \<in> {1..sz}"
  defines "cur \<equiv> cost ! (p ! s) ! j - tr_u t ! (p ! s) - tr_v t ! j"
  shows "exact cur" "qval cur = slack cost (tr_u t) (tr_v t) p s j"
    "0 \<le> slack cost (tr_u t) (tr_v t) p s j" "slack cost (tr_u t) (tr_v t) p s j \<le> 3 * max_cost"
proof -
  note f = round_facts [OF assms(1)]
  have ps: "p ! s \<in> {1..Suc k}" "p ! s \<in> {1..sz}" using f(7) [OF assms(2)] by blast+
  have c: "exact (cost ! (p ! s) ! j)" "0 \<le> qval (cost ! (p ! s) ! j)" "qval (cost ! (p ! s) ! j) \<le> max_cost"
    using f(1) ps(2) assms(3) unfolding cost_ok_def by blast+
  have e: "exact (tr_u t ! (p ! s))" "exact (tr_v t ! j)"
    and le: "qval (tr_u t ! (p ! s)) + qval (tr_v t ! j) \<le> qval (cost ! (p ! s) ! j)"
    using f(5) ps assms(3) unfolding potentials_ok_def by blast+
  note b = potential_bounds [OF f(5,2,3) Suc_leI [OF f(3)] f(1)]
  have u: "0 \<le> qval (tr_u t ! (p ! s))" "qval (tr_u t ! (p ! s)) \<le> max_cost"
    and v: "- max_cost \<le> qval (tr_v t ! j)" "qval (tr_v t ! j) \<le> 0"
    using b(1) [OF ps(2)] b(2) [OF assms(3)] by blast+
  have m: "max_cost = 1000000" by (simp add: max_cost_def)
  have x: "exact (cost ! (p ! s) ! j - tr_u t ! (p ! s))"
    "qval (cost ! (p ! s) ! j - tr_u t ! (p ! s)) = qval (cost ! (p ! s) ! j) - qval (tr_u t ! (p ! s))"
    using exact_minus [OF c(1) e(1)] c u unfolding m by (auto simp: abs_le_iff)
  have y: "\<bar>qval (cost ! (p ! s) ! j - tr_u t ! (p ! s)) - qval (tr_v t ! j)\<bar> \<le> 2 ^ 28"
    using x(2) c u v unfolding m by (auto simp: abs_le_iff)
  show "exact cur" "qval cur = slack cost (tr_u t) (tr_v t) p s j"
    using exact_minus [OF x(1) e(2) y] x(2) by (simp_all add: cur_def slack_def)
  show "0 \<le> slack cost (tr_u t) (tr_v t) p s j" "slack cost (tr_u t) (tr_v t) p s j \<le> 3 * max_cost"
    using le c u v by (simp_all add: slack_def m)
qed

text \<open>After the scan, the least slack from the whole tree to a column outside it.\<close>

lemma scan_slack:
  assumes ctx: "round_ctx sz cost k p t ord" and j: "j \<in> {1..sz} - set (ord @ [tr_j0 t])"
  defines "m \<equiv> new_minv cost (tr_u t) (tr_v t) (p ! tr_j0 t) (tr_minv t) j"
    and "w \<equiv> new_way cost (tr_u t) (tr_v t) (tr_j0 t) (p ! tr_j0 t) (tr_minv t) (tr_way t) j"
  shows "exact m" "w \<in> set (ord @ [tr_j0 t])" "qval m = slack cost (tr_u t) (tr_v t) p w j"
    "s \<in> set (ord @ [tr_j0 t]) \<Longrightarrow> qval m \<le> slack cost (tr_u t) (tr_v t) p s j"
proof -
  let ?sl = "slack cost (tr_u t) (tr_v t) p"
  let ?cur = "cost ! (p ! tr_j0 t) ! j - tr_u t ! (p ! tr_j0 t) - tr_v t ! j"
  have j0: "tr_j0 t \<in> set (ord @ [tr_j0 t])" by simp
  have cur: "exact ?cur" "qval ?cur = ?sl (tr_j0 t) j"
    using exact_slack [OF ctx j0, of j] j by simp_all
  have col: "if ord = [] then tr_minv t ! j = PInf
    else exact (tr_minv t ! j) \<and> tr_way t ! j \<in> set ord \<and> qval (tr_minv t ! j) = ?sl (tr_way t ! j) j
      \<and> (\<forall>s\<in>set ord. qval (tr_minv t ! j) \<le> ?sl s j)"
  proof -
    have "tree_ok sz cost (Suc k) p t ord" using ctx by (simp add: round_ctx_def)
    moreover have "j \<in> {1..sz} - set ord" using j by auto
    ultimately show ?thesis unfolding tree_ok_def by (elim conjE) (erule bspec)
  qed
  have "exact m \<and> w \<in> set (ord @ [tr_j0 t]) \<and> qval m = ?sl w j
    \<and> (\<forall>s\<in>set (ord @ [tr_j0 t]). qval m \<le> ?sl s j)"
  proof (cases "ord = []")
    case True
    then have "?cur < tr_minv t ! j" using col cur(1) by simp
    then show ?thesis using True cur by (simp add: m_def w_def new_minv_def new_way_def)
  next
    case False
    then have c: "exact (tr_minv t ! j)" "tr_way t ! j \<in> set ord"
        "qval (tr_minv t ! j) = ?sl (tr_way t ! j) j" "\<forall>s\<in>set ord. qval (tr_minv t ! j) \<le> ?sl s j"
      using col unfolding if_not_P [OF False] by blast+
    show ?thesis
    proof (cases "?cur < tr_minv t ! j")
      case less: True
      then have "m = ?cur" "w = tr_j0 t" by (simp_all add: m_def w_def new_minv_def new_way_def)
      moreover have "qval ?cur < qval (tr_minv t ! j)" using less exact_less [OF cur(1) c(1)] by simp
      ultimately show ?thesis using cur c(4) by (auto intro: order.trans less_imp_le)
    next
      case ge: False
      then have "m = tr_minv t ! j" "w = tr_way t ! j"
        by (simp_all add: m_def w_def new_minv_def new_way_def)
      moreover have "qval (tr_minv t ! j) \<le> qval ?cur" using ge exact_less [OF cur(1) c(1)] by simp
      ultimately show ?thesis using cur c by auto
    qed
  qed
  then show "exact m" "w \<in> set (ord @ [tr_j0 t])" "qval m = ?sl w j"
    "s \<in> set (ord @ [tr_j0 t]) \<Longrightarrow> qval m \<le> ?sl s j" by blast+
qed

text \<open>The result of a round, entry by entry; \<open>d\<close> is the least slack and \<open>c\<close> its column.\<close>

lemma round_result:
  assumes ctx: "round_ctx sz cost k p t ord"
  defines "T \<equiv> set (ord @ [tr_j0 t])" and "t' \<equiv> search_round sz cost p t"
    and "nm \<equiv> new_minv cost (tr_u t) (tr_v t) (p ! tr_j0 t) (tr_minv t)"
    and "nw \<equiv> new_way cost (tr_u t) (tr_v t) (tr_j0 t) (p ! tr_j0 t) (tr_minv t) (tr_way t)"
  obtains d where "tr_j0 t' \<in> {1..sz} - T" "d = nm (tr_j0 t')"
    "\<forall>j \<in> {1..sz} - T. qval d \<le> qval (nm j)"
    "length (tr_u t') = Suc sz" "length (tr_v t') = Suc sz" "length (tr_way t') = Suc sz"
    "length (tr_minv t') = Suc sz" "tr_used t' = (tr_used t)[tr_j0 t := True]"
    "\<forall>r\<le> sz. tr_u t' ! r = (if \<exists>s\<in>T. p ! s = r then tr_u t ! r + d else tr_u t ! r)"
    "\<forall>j\<le> sz. tr_v t' ! j = (if j \<in> T then tr_v t ! j - d else tr_v t ! j)"
    "\<forall>j\<le> sz. tr_way t' ! j = (if j \<in> {1..sz} - T then nw j else tr_way t ! j)"
    "\<forall>j \<in> {1..sz} - T. tr_minv t' ! j = nm j - d"
proof -
  note f = round_facts [OF ctx, folded T_def]
  let ?used = "(tr_used t)[tr_j0 t := True]"
  define s where "s = fold (scan_column cost (tr_u t) (tr_v t) ?used (tr_j0 t) (p ! tr_j0 t)) [1..<Suc sz]
    \<lparr>se_minv = tr_minv t, se_way = tr_way t, se_delta = PInf, se_j1 = 0\<rparr>"
  define q where "q = fold (shift_column p ?used (se_delta s)) [0..<Suc sz]
    \<lparr>po_u = tr_u t, po_v = tr_v t, po_minv = se_minv s\<rparr>"
  have t': "t' = \<lparr>tr_u = po_u q, tr_v = po_v q, tr_way = se_way s, tr_minv = po_minv q,
    tr_used = ?used, tr_j0 = se_j1 s\<rparr>"
    unfolding t'_def search_round_def Let_def s_def [symmetric] q_def [symmetric] ..
  have lens: "length (tr_minv t) = Suc sz" "length (tr_way t) = Suc sz"
    "length (tr_u t) = Suc sz" "length (tr_v t) = Suc sz"
    using ctx by (simp_all add: round_ctx_def tree_ok_def potentials_ok_def)
  have free: "free ?used sz = {1..sz} - T" using f(10) by blast
  have "exact (nm j)" if "j \<in> free ?used sz" for j
    using scan_slack(1) [OF ctx, of j] that unfolding free T_def nm_def by blast
  note scan = scan_fold [OF order.refl lens(1,2) this [unfolded nm_def] s_def, folded nm_def, unfolded free]
  have l: "least nm ({1..sz} - T) (se_delta s) (se_j1 s)" using scan by blast
  have inj: "j = l" if "j \<le> sz" "l \<le> sz" "?used ! j" "?used ! l" "p ! j = p ! l" for j l
    using f(8) [of j l] f(9) that by simp
  have rows: "p ! j \<le> sz" if "j \<le> sz" for j
  proof (cases "j = 0")
    case True
    then show ?thesis using f(3,4) by simp
  next
    case False
    then have "j \<in> {1..sz}" using that by simp
    then have "p ! j \<le> k" using f(2) unfolding match_ok_def by blast
    then show ?thesis using f(3) by simp
  qed
  have ls: "length (se_minv s) = Suc sz" using scan by blast
  note shift = shift_fold [OF order.refl lens(3,4) ls inj rows q_def]
  have ex: "(\<exists>j<Suc sz. ?used ! j \<and> p ! j = r) = (\<exists>s\<in>T. p ! s = r)" for r
  proof -
    have "s \<in> T \<longleftrightarrow> s < Suc sz \<and> ?used ! s" for s using f(7) [of s] f(9) [of s] by (metis less_Suc_eq_le)
    then show ?thesis by blast
  qed
  show thesis
  proof (rule that [of "se_delta s"])
    show "tr_j0 t' \<in> {1..sz} - T" "se_delta s = nm (tr_j0 t')"
      using l f(11) by (simp_all add: least_def t')
    show "\<forall>j \<in> {1..sz} - T. qval (se_delta s) \<le> qval (nm j)"
      using l by (auto simp: least_def split: if_splits)
    show "length (tr_u t') = Suc sz" "length (tr_v t') = Suc sz" "length (tr_way t') = Suc sz"
      "length (tr_minv t') = Suc sz" "tr_used t' = ?used"
      unfolding t' tree.simps using scan shift by blast+
    show "\<forall>r\<le> sz. tr_u t' ! r
        = (if \<exists>s\<in>T. p ! s = r then tr_u t ! r + se_delta s else tr_u t ! r)"
      unfolding t' tree.simps using shift unfolding ex by blast
    show "\<forall>j\<le> sz. tr_v t' ! j = (if j \<in> T then tr_v t ! j - se_delta s else tr_v t ! j)"
    proof -
      have "\<forall>j\<le> sz. po_v q ! j
          = (if j < Suc sz \<and> ?used ! j then tr_v t ! j - se_delta s else tr_v t ! j)" using shift by blast
      then show ?thesis unfolding t' using f(9) by simp
    qed
    show "\<forall>j\<le> sz. tr_way t' ! j = (if j \<in> {1..sz} - T then nw j else tr_way t ! j)"
      unfolding t' tree.simps nw_def using scan by blast
    show "\<forall>j \<in> {1..sz} - T. tr_minv t' ! j = nm j - se_delta s"
    proof
      fix j assume j: "j \<in> {1..sz} - T"
      have "\<forall>j\<le> sz. po_minv q ! j
          = (if j < Suc sz \<and> \<not> ?used ! j then se_minv s ! j - se_delta s else se_minv s ! j)"
        using shift by blast
      moreover have "\<forall>j\<le> sz. se_minv s ! j = (if j \<in> {1..sz} - T then nm j else tr_minv t ! j)"
        using scan by blast
      ultimately show "tr_minv t' ! j = nm j - se_delta s" unfolding t' using f(9) j by simp
    qed
  qed
qed

text \<open>A round keeps the potentials feasible and tight, and adds its column to the tree.\<close>

lemma round_preserves:
  assumes ctx: "round_ctx sz cost k p t ord"
  shows "tree_ok sz cost (Suc k) p (search_round sz cost p t) (ord @ [tr_j0 t])"
proof -
  define T where "T = set (ord @ [tr_j0 t])"
  define t' where "t' = search_round sz cost p t"
  define sl where "sl = slack cost (tr_u t) (tr_v t) p"
  define sl' where "sl' = slack cost (tr_u t') (tr_v t') p"
  note f = round_facts [OF ctx, folded T_def]
  define nm where "nm = new_minv cost (tr_u t) (tr_v t) (p ! tr_j0 t) (tr_minv t)"
  define nw where "nw = new_way cost (tr_u t) (tr_v t) (tr_j0 t) (p ! tr_j0 t) (tr_minv t) (tr_way t)"
  obtain d where c: "tr_j0 t' \<in> {1..sz} - T" and d: "d = nm (tr_j0 t')"
    and dmin: "\<forall>j \<in> {1..sz} - T. qval d \<le> qval (nm j)"
    and len: "length (tr_u t') = Suc sz" "length (tr_v t') = Suc sz" "length (tr_way t') = Suc sz"
      "length (tr_minv t') = Suc sz" and used: "tr_used t' = (tr_used t)[tr_j0 t := True]"
    and u: "\<forall>r\<le> sz. tr_u t' ! r = (if \<exists>s\<in>T. p ! s = r then tr_u t ! r + d else tr_u t ! r)"
    and v: "\<forall>j\<le> sz. tr_v t' ! j = (if j \<in> T then tr_v t ! j - d else tr_v t ! j)"
    and w: "\<forall>j\<le> sz. tr_way t' ! j = (if j \<in> {1..sz} - T then nw j else tr_way t ! j)"
    and m: "\<forall>j \<in> {1..sz} - T. tr_minv t' ! j = nm j - d"
    by (rule round_result [OF ctx, folded T_def t'_def nm_def nw_def])
  note ss = scan_slack [OF ctx, folded T_def sl_def nm_def nw_def]
  note es = exact_slack [OF ctx, folded T_def sl_def]
  have "exact d" "qval d = sl (nw (tr_j0 t')) (tr_j0 t')" "nw (tr_j0 t') \<in> T"
    using ss(1-3) [OF c] unfolding d by simp_all
  then have ex: "exact d" and D0: "0 \<le> qval d" and D3: "qval d \<le> 3 * max_cost"
    using es(3,4) c by auto
  have M: "max_cost = 1000000" by (simp add: max_cost_def)
  note b = potential_bounds [OF f(5,2,3) Suc_leI [OF f(3)] f(1)]
  have pot: "potentials_ok sz cost (Suc k) (tr_u t) (tr_v t) p" by (rule f(5))
  have U: "exact (tr_u t' ! r) \<and> qval (tr_u t' ! r)
      = (if \<exists>s\<in>T. p ! s = r then qval (tr_u t ! r) + qval d else qval (tr_u t ! r))"
    if r: "r \<in> {1..sz}" for r
  proof -
    have "exact (tr_u t ! r)" using pot r unfolding potentials_ok_def by blast
    moreover have "\<bar>qval (tr_u t ! r) + qval d\<bar> \<le> 2 ^ 28"
      using b(1) [OF r] D0 D3 unfolding M by (simp add: abs_le_iff)
    ultimately show ?thesis using u r exact_plus [OF _ ex, of "tr_u t ! r"] by simp
  qed
  have V: "exact (tr_v t' ! j) \<and> qval (tr_v t' ! j)
      = (if j \<in> T then qval (tr_v t ! j) - qval d else qval (tr_v t ! j))"
    if j: "j \<in> {1..sz}" for j
  proof -
    have "exact (tr_v t ! j)" using pot j unfolding potentials_ok_def by blast
    moreover have "\<bar>qval (tr_v t ! j) - qval d\<bar> \<le> 2 ^ 28"
      using b(2) [OF j] D0 D3 unfolding M by (simp add: abs_le_iff)
    ultimately show ?thesis using v j exact_minus [OF _ ex, of "tr_v t ! j"] by simp
  qed
  have rowT: "(\<exists>s\<in>T. p ! s = p ! j) = (j \<in> T)" if "j \<in> {0..sz}" for j
    using f(8) [of _ j] that by blast
  have SL: "sl' s j = (if j \<in> T then sl s j else sl s j - qval d)"
    if s: "s \<in> T" and j: "j \<in> {1..sz}" for s j
  proof -
    have "p ! s \<in> {1..sz}" using f(7) [OF s] by blast
    then show ?thesis using U [of "p ! s"] V [OF j] s by (auto simp: sl_def sl'_def slack_def)
  qed
  have potentials: "potentials_ok sz cost (Suc k) (tr_u t') (tr_v t') p"
    unfolding potentials_ok_def
  proof (intro conjI ballI impI)
    fix r assume r: "r \<in> {1..sz}"
    then show "exact (tr_u t' ! r)" using U by blast
    show "0 \<le> qval (tr_u t' ! r)" using U [OF r] b(1) [OF r] D0 by (auto split: if_splits)
    assume "Suc k < r"
    then have "\<not> (\<exists>s\<in>T. p ! s = r)" using f(7) by fastforce
    moreover have "qval (tr_u t ! r) = 0" using pot r \<open>Suc k < r\<close> unfolding potentials_ok_def by blast
    ultimately show "qval (tr_u t' ! r) = 0" using U [OF r] by simp
  next
    fix j assume j: "j \<in> {1..sz}"
    then show "exact (tr_v t' ! j)" using V by blast
    show "qval (tr_v t' ! j) \<le> 0" using V [OF j] b(2) [OF j] D0 by (auto split: if_splits)
    assume z: "p ! j = 0"
    then have "j \<notin> T" using f(7) [of j] by auto
    moreover have "qval (tr_v t ! j) = 0" using pot j z unfolding potentials_ok_def by blast
    ultimately show "qval (tr_v t' ! j) = 0" using V [OF j] by simp
  next
    fix r j assume r: "r \<in> {1..Suc k}" and j: "j \<in> {1..sz}"
    have r': "r \<in> {1..sz}" using r f(3) by auto
    have old: "qval (tr_u t ! r) + qval (tr_v t ! j) \<le> qval (cost ! r ! j)"
      using pot r j unfolding potentials_ok_def by blast
    show "qval (tr_u t' ! r) + qval (tr_v t' ! j) \<le> qval (cost ! r ! j)"
    proof (cases "(\<exists>s\<in>T. p ! s = r) \<and> j \<notin> T")
      case True
      then obtain s where s: "s \<in> T" "p ! s = r" by blast
      have jT: "j \<in> {1..sz} - T" using True j by blast
      have "qval d \<le> sl s j" using order.trans [OF bspec [OF dmin jT] ss(4) [OF jT s(1)]] .
      then show ?thesis using U [OF r'] V [OF j] True s by (auto simp: sl_def slack_def)
    next
      case False
      then show ?thesis using U [OF r'] V [OF j] old D0 by (auto split: if_splits)
    qed
  next
    fix j assume j: "j \<in> {1..sz}" and nz: "p ! j \<noteq> 0"
    have pj: "p ! j \<in> {1..sz}" using f(2,3) j nz unfolding match_ok_def by (meson atLeastAtMost_iff
        le_trans less_imp_le_nat not_less_eq_eq not_one_le_zero nat_le_linear less_one not_le)
    have "qval (tr_u t ! (p ! j)) + qval (tr_v t ! j) = qval (cost ! (p ! j) ! j)"
      using pot j nz unfolding potentials_ok_def by blast
    then show "qval (tr_u t' ! (p ! j)) + qval (tr_v t' ! j) = qval (cost ! (p ! j) ! j)"
      using U [OF pj] V [OF j] rowT [of j] j by simp
  qed (use len in simp_all)
  have tr: "tree_ok sz cost (Suc k) p t ord" using ctx by (simp add: round_ctx_def)
  have edges: "let j = ((ord @ [tr_j0 t]) @ [tr_j0 t']) ! n
      in tr_way t' ! j \<in> set (take n ((ord @ [tr_j0 t]) @ [tr_j0 t'])) \<and> sl' (tr_way t' ! j) j = 0"
    if n: "n < length ((ord @ [tr_j0 t]) @ [tr_j0 t'])" "0 < n" for n
  proof (cases "n = length (ord @ [tr_j0 t])")
    case True
    have "tr_way t' ! tr_j0 t' = nw (tr_j0 t')" using w c by simp
    moreover have "sl' (nw (tr_j0 t')) (tr_j0 t') = 0"
      using SL [of "nw (tr_j0 t')" "tr_j0 t'"] \<open>nw (tr_j0 t') \<in> T\<close> \<open>qval d = sl (nw (tr_j0 t')) (tr_j0 t')\<close> c
      by simp
    ultimately show ?thesis using True \<open>nw (tr_j0 t') \<in> T\<close> by (simp add: T_def nth_append)
  next
    case False
    define j where "j = (ord @ [tr_j0 t]) ! n"
    have n': "n < length (ord @ [tr_j0 t])" using n(1) False by simp
    have j: "j \<in> T" using n' unfolding j_def T_def by (rule nth_mem)
    have e: "tr_way t ! j \<in> set (take n (ord @ [tr_j0 t]))" "sl (tr_way t ! j) j = 0"
      using tr n' n(2) unfolding tree_ok_def j_def sl_def by (auto simp: Let_def)
    have "tr_way t ! j \<in> T" using e(1) set_take_subset unfolding T_def by fastforce
    moreover have "j \<in> {1..sz}"
    proof -
      have "j \<noteq> 0"
      proof
        assume "j = 0"
        moreover have "(ord @ [tr_j0 t]) ! 0 = 0" "distinct (ord @ [tr_j0 t])"
          using tr unfolding tree_ok_def by (simp_all add: hd_conv_nth)
        ultimately show False using n' n(2) unfolding j_def
          by (metis distinct_conv_nth length_pos_if_in_set less_irrefl nth_mem)
      qed
      then show ?thesis using f(7) [OF j] by simp
    qed
    ultimately have "sl' (tr_way t ! j) j = 0" using SL [of "tr_way t ! j" j] e(2) j by simp
    moreover have "tr_way t' ! j = tr_way t ! j" using w j f(7) [OF j] by simp
    moreover have "((ord @ [tr_j0 t]) @ [tr_j0 t']) ! n = j" "take n ((ord @ [tr_j0 t]) @ [tr_j0 t'])
        = take n (ord @ [tr_j0 t])" using n' by (simp_all add: j_def nth_append)
    ultimately show ?thesis using e(1) by (simp only: Let_def)
  qed
  have cols: "exact (tr_minv t' ! j) \<and> tr_way t' ! j \<in> T \<and> qval (tr_minv t' ! j) = sl' (tr_way t' ! j) j
      \<and> (\<forall>s\<in>T. qval (tr_minv t' ! j) \<le> sl' s j)" if j: "j \<in> {1..sz} - T" for j
  proof -
    have way: "tr_way t' ! j = nw j" and minv: "tr_minv t' ! j = nm j - d" using w m j by simp_all
    note s = ss [OF j]
    have "0 \<le> qval (nm j)" "qval (nm j) \<le> 3 * max_cost" using es(3,4) [OF s(2)] s(3) j by auto
    then have "\<bar>qval (nm j) - qval d\<bar> \<le> 2 ^ 28" using D0 D3 unfolding M by (simp add: abs_le_iff)
    note x = exact_minus [OF s(1) ex this]
    show ?thesis using x s SL [OF _ DiffD1 [OF j]] j unfolding way minv by auto
  qed
  show ?thesis unfolding t'_def [symmetric] tree_ok_def
  proof (intro conjI)
    show "distinct ((ord @ [tr_j0 t]) @ [tr_j0 t'])" "set ((ord @ [tr_j0 t]) @ [tr_j0 t']) \<subseteq> {0..sz}"
      using tr c unfolding tree_ok_def T_def by auto
    show "hd ((ord @ [tr_j0 t]) @ [tr_j0 t']) = 0"
      using tr unfolding tree_ok_def by (simp add: hd_append split: if_splits)
    show "\<forall>j\<le> sz. tr_used t' ! j = (j \<in> set (ord @ [tr_j0 t]))"
      using f(9) used unfolding T_def by simp
    show "\<forall>j\<in>set (ord @ [tr_j0 t]). p ! j \<noteq> 0" using f(7) unfolding T_def by fastforce
    show "length (tr_way t') = Suc sz" "length (tr_minv t') = Suc sz" using len by simp_all
    show "length (tr_used t') = Suc sz" using tr used unfolding tree_ok_def by simp
    show "potentials_ok sz cost (Suc k) (tr_u t') (tr_v t') p" by (rule potentials)
    show "\<forall>n < length ((ord @ [tr_j0 t]) @ [tr_j0 t']). 0 < n \<longrightarrow>
        (let j = ((ord @ [tr_j0 t]) @ [tr_j0 t']) ! n
         in tr_way t' ! j \<in> set (take n ((ord @ [tr_j0 t]) @ [tr_j0 t']))
            \<and> slack cost (tr_u t') (tr_v t') p (tr_way t' ! j) j = 0)"
      using edges unfolding sl'_def by blast
    show "\<forall>j\<in>{1..sz} - set (ord @ [tr_j0 t]). if ord @ [tr_j0 t] = [] then tr_minv t' ! j = PInf
        else exact (tr_minv t' ! j) \<and> tr_way t' ! j \<in> set (ord @ [tr_j0 t])
          \<and> qval (tr_minv t' ! j) = slack cost (tr_u t') (tr_v t') p (tr_way t' ! j) j
          \<and> (\<forall>s\<in>set (ord @ [tr_j0 t]). qval (tr_minv t' ! j) \<le> slack cost (tr_u t') (tr_v t') p s j)"
    proof -
      have "ord @ [tr_j0 t] \<noteq> []" by simp
      from cols show ?thesis unfolding if_not_P [OF \<open>ord @ [tr_j0 t] \<noteq> []\<close>] sl'_def T_def by blast
    qed
  qed
qed

section \<open>The search ends at an unmatched column\<close>

lemma search_loop_ok:
  assumes "round_ctx sz cost k p t ord"
  shows "\<exists>t' ord'. search_loop sz cost p t = Some t' \<and> tree_ok sz cost (Suc k) p t' ord'
    \<and> ord' \<noteq> [] \<and> p ! tr_j0 t' = 0"
  using assms
proof (induction "Suc sz - length ord" arbitrary: t ord rule: less_induct)
  case less
  let ?t = "search_round sz cost p t"
  have tr: "tree_ok sz cost (Suc k) p ?t (ord @ [tr_j0 t])" using round_preserves [OF less.prems] .
  show ?case
  proof (cases "p ! tr_j0 ?t = 0")
    case True
    then have "search_loop sz cost p t = Some ?t" by (subst search_loop.simps) (simp add: Let_def)
    then show ?thesis using tr True by blast
  next
    case False
    then have ctx: "round_ctx sz cost k p ?t (ord @ [tr_j0 t])"
      using less.prems tr by (simp add: round_ctx_def)
    have "distinct (ord @ [tr_j0 t])" "set (ord @ [tr_j0 t]) \<subseteq> {0..sz}"
      using less.prems by (simp_all add: round_ctx_def tree_ok_def)
    then have "length (ord @ [tr_j0 t]) \<le> card {0..sz}"
      by (metis card_mono distinct_card finite_atLeastAtMost)
    then have "Suc sz - length (ord @ [tr_j0 t]) < Suc sz - length ord" by simp
    from less.hyps [OF this ctx]
    obtain t' ord' where "search_loop sz cost p ?t = Some t'" "tree_ok sz cost (Suc k) p t' ord'"
      "ord' \<noteq> []" "p ! tr_j0 t' = 0" by blast
    moreover have "search_loop sz cost p t = search_loop sz cost p ?t"
      using False by (subst search_loop.simps) (simp add: Let_def)
    ultimately show ?thesis by auto
  qed
qed

section \<open>Augmentation\<close>

text \<open>
  A matching of the rows \<open>1..k\<close> on the columns \<open>0..sz\<close> with a hole at \<open>j\<close>; the edges on real
  columns are tight, and the columns \<open>L ! 0, ..., L ! (n - 1)\<close> still have the row of \<open>p0\<close>.
\<close>

definition hole_ok ::
  "nat \<Rightarrow> f64 list list \<Rightarrow> f64 list \<Rightarrow> f64 list \<Rightarrow> nat \<Rightarrow> nat list \<Rightarrow> nat list \<Rightarrow> nat \<Rightarrow> bool" where
  "hole_ok sz cost u v k p0 p j \<longleftrightarrow> length p = Suc sz
     \<and> (\<forall>c\<in>{0..sz} - {j}. p ! c \<le> k)
     \<and> (\<forall>c\<in>{0..sz} - {j}. \<forall>c'\<in>{0..sz} - {j}. p ! c = p ! c' \<longrightarrow> p ! c \<noteq> 0 \<longrightarrow> c = c')
     \<and> (\<forall>r\<in>{1..k}. \<exists>c\<in>{0..sz} - {j}. p ! c = r)
     \<and> (\<forall>c\<in>{1..sz} - {j}. (p ! c = 0 \<longrightarrow> p0 ! c = 0)
          \<and> (p ! c \<noteq> 0 \<longrightarrow> qval (u ! (p ! c)) + qval (v ! c) = qval (cost ! (p ! c) ! c)))"

lemma hole_move:
  assumes h: "hole_ok sz cost u v k p0 p j" and j: "j \<in> {1..sz}" and i: "i \<in> {0..sz}" "i \<noteq> j"
    and pi: "p ! i \<noteq> 0" and tight: "qval (u ! (p ! i)) + qval (v ! j) = qval (cost ! (p ! i) ! j)"
  shows "hole_ok sz cost u v k p0 (p[j := p ! i]) i"
proof -
  have len: "j < length p" using h j by (simp add: hole_ok_def)
  have at: "p[j := p ! i] ! c = (if c = j then p ! i else p ! c)" for c
    using len by (simp add: nth_list_update)
  have le: "\<And>c. c \<in> {0..sz} - {j} \<Longrightarrow> p ! c \<le> k"
    and inj: "\<And>c c'. c \<in> {0..sz} - {j} \<Longrightarrow> c' \<in> {0..sz} - {j} \<Longrightarrow> p ! c = p ! c' \<Longrightarrow> p ! c \<noteq> 0 \<Longrightarrow> c = c'"
    and all: "\<And>r. r \<in> {1..k} \<Longrightarrow> \<exists>c\<in>{0..sz} - {j}. p ! c = r"
    and tt: "\<And>c. c \<in> {1..sz} - {j} \<Longrightarrow> (p ! c = 0 \<longrightarrow> p0 ! c = 0)
        \<and> (p ! c \<noteq> 0 \<longrightarrow> qval (u ! (p ! c)) + qval (v ! c) = qval (cost ! (p ! c) ! c))"
    using h unfolding hole_ok_def by blast+
  show ?thesis unfolding hole_ok_def at
  proof (intro conjI ballI impI)
    show "length (p[j := p ! i]) = Suc sz" using h by (simp add: hole_ok_def)
    show "(if c = j then p ! i else p ! c) \<le> k" if "c \<in> {0..sz} - {i}" for c
      using le [of c] le [of i] that i by auto
    show "c = c'" if "c \<in> {0..sz} - {i}" "c' \<in> {0..sz} - {i}"
      "(if c = j then p ! i else p ! c) = (if c' = j then p ! i else p ! c')"
      "(if c = j then p ! i else p ! c) \<noteq> 0" for c c'
      using inj [of c c'] inj [of c i] inj [of i c'] that i by (auto split: if_splits)
    show "\<exists>c\<in>{0..sz} - {i}. (if c = j then p ! i else p ! c) = r" if r: "r \<in> {1..k}" for r
    proof -
      obtain c where c: "c \<in> {0..sz} - {j}" "p ! c = r" using all [OF r] by blast
      show ?thesis
      proof (cases "c = i")
        case True
        then show ?thesis using c i j by (intro bexI [of _ j]) auto
      next
        case False
        then show ?thesis using c by (intro bexI [of _ c]) auto
      qed
    qed
    show "p0 ! c = 0" if "c \<in> {1..sz} - {i}" "(if c = j then p ! i else p ! c) = 0" for c
      using tt [of c] that pi by (auto split: if_splits)
    show "qval (u ! (if c = j then p ! i else p ! c)) + qval (v ! c)
        = qval (cost ! (if c = j then p ! i else p ! c) ! c)"
      if "c \<in> {1..sz} - {i}" "(if c = j then p ! i else p ! c) \<noteq> 0" for c
      using tt [of c] that tight by (auto split: if_splits)
  qed
qed

lemma augment_ok:
  assumes "hole_ok sz cost u v k p0 p (L ! n)" "0 < n" "n < length L"
    and "distinct L" "set L \<subseteq> {0..sz}" "L ! 0 = 0"
    and path: "\<And>m. 0 < m \<Longrightarrow> m \<le> n \<Longrightarrow> way ! (L ! m) \<in> set (take m L)
        \<and> slack cost u v p0 (way ! (L ! m)) (L ! m) = 0"
    and same: "\<And>m. m < n \<Longrightarrow> p ! (L ! m) = p0 ! (L ! m) \<and> p0 ! (L ! m) \<noteq> 0"
  shows "\<exists>q. augment way p (L ! n) = Some q \<and> hole_ok sz cost u v k p0 q 0"
  using assms(1-3) path same
proof (induction n arbitrary: p rule: less_induct)
  case (less n)
  let ?j = "L ! n"
  define i where "i = way ! ?j"
  obtain m where m: "m < n" "L ! m = i"
    using less.prems(4) [OF less.prems(2) order.refl] unfolding i_def
    by (metis in_set_conv_nth length_take min_less_iff_conj nth_take)
  have ij: "i \<noteq> ?j" using m less.prems(3) assms(4) by (auto simp: nth_eq_iff_index_eq)
  have j0: "?j \<noteq> 0" using assms(4,6) less.prems(2,3) by (metis length_greater_0_conv list.size(3)
        not_less0 nth_eq_iff_index_eq order.strict_trans less_irrefl)
  have "?j \<in> set L" "L ! m \<in> set L" using m less.prems(3) by auto
  then have range: "?j \<in> {1..sz}" "i \<in> {0..sz}" using assms(5) j0 m(2) by auto
  have pi: "p ! i = p0 ! i" "p ! i \<noteq> 0" using less.prems(5) [OF m(1)] m(2) by auto
  have tight: "qval (u ! (p ! i)) + qval (v ! ?j) = qval (cost ! (p ! i) ! ?j)"
    using less.prems(4) [OF less.prems(2) order.refl] pi(1) by (simp add: slack_def i_def)
  note h = hole_move [OF less.prems(1) range ij pi(2) tight]
  show ?case
  proof (cases "i = 0")
    case True
    then have "augment way p ?j = Some (p[?j := p ! i])"
      by (subst augment.simps) (simp add: Let_def i_def)
    then show ?thesis using h True by auto
  next
    case False
    then have m0: "0 < m" using m assms(6) by (cases m) auto
    have "augment way p ?j = augment way (p[?j := p ! i]) i"
      using False by (subst augment.simps) (simp add: Let_def i_def)
    moreover have "p[?j := p ! i] ! (L ! l) = p0 ! (L ! l) \<and> p0 ! (L ! l) \<noteq> 0" if "l < m" for l
    proof -
      have "L ! l \<noteq> ?j" using that m(1) less.prems(3) assms(4) by (auto simp: nth_eq_iff_index_eq)
      then show ?thesis using less.prems(5) [of l] that m(1) by simp
    qed
    moreover have "way ! (L ! l) \<in> set (take l L) \<and> slack cost u v p0 (way ! (L ! l)) (L ! l) = 0"
      if "0 < l" "l \<le> m" for l using less.prems(4) [of l] that m(1) by simp
    ultimately show ?thesis
      using less.IH [OF m(1) _ m0, of "p[?j := p ! i]"] h m less.prems(3) by auto
  qed
qed

end
