(* ===== verification/Hungarian_Optimal.thy ===== *)
theory Hungarian_Optimal
  imports Hungarian_Correct
begin

text \<open>
  From the search to the result: every row is inserted, the matching of all rows is a permutation
  of the columns, and its cost is least because feasible potentials that are tight on it bound
  every other permutation from below.
\<close>

section \<open>Insertion of the rows\<close>

definition matching_ok :: "nat \<Rightarrow> f64 list list \<Rightarrow> nat \<Rightarrow> matching \<Rightarrow> bool" where
  "matching_ok sz cost k m \<longleftrightarrow> match_ok sz k (ma_p m) \<and> length (ma_way m) = Suc sz
     \<and> potentials_ok sz cost k (ma_u m) (ma_v m) (ma_p m)"

text \<open>A new row has potential 0 and is feasible, because costs are not negative.\<close>

lemma potentials_next:
  assumes "potentials_ok sz cost k u v p" "cost_ok sz cost" "k < sz"
    and p': "\<And>j. j \<in> {1..sz} \<Longrightarrow> p' ! j = p ! j"
  shows "potentials_ok sz cost (Suc k) u v p'"
  unfolding potentials_ok_def
proof (intro conjI ballI impI)
  show "length u = Suc sz" "length v = Suc sz" using assms(1) by (simp_all add: potentials_ok_def)
  fix r assume r: "r \<in> {1..sz}"
  show "exact (u ! r)" "0 \<le> qval (u ! r)" using assms(1) r unfolding potentials_ok_def by blast+
  assume "Suc k < r"
  then have "k < r" by simp
  then show "qval (u ! r) = 0" using assms(1) r unfolding potentials_ok_def by blast
next
  fix j assume j: "j \<in> {1..sz}"
  show "exact (v ! j)" "qval (v ! j) \<le> 0" using assms(1) j unfolding potentials_ok_def by blast+
  show "p' ! j = 0 \<Longrightarrow> qval (v ! j) = 0"
    using assms(1) j unfolding p' [OF j] potentials_ok_def by blast
  show "p' ! j \<noteq> 0 \<Longrightarrow> qval (u ! (p' ! j)) + qval (v ! j) = qval (cost ! (p' ! j) ! j)"
    using assms(1) j unfolding p' [OF j] potentials_ok_def by blast
next
  fix r j assume r: "r \<in> {1..Suc k}" and j: "j \<in> {1..sz}"
  show "qval (u ! r) + qval (v ! j) \<le> qval (cost ! r ! j)"
  proof (cases "r = Suc k")
    case True
    then have r': "r \<in> {1..sz}" "k < r" using assms(3) by simp_all
    then have "qval (u ! r) = 0" using assms(1) unfolding potentials_ok_def by blast
    moreover have "qval (v ! j) \<le> 0" using assms(1) j unfolding potentials_ok_def by blast
    moreover have "0 \<le> qval (cost ! r ! j)" using assms(2) r' j unfolding cost_ok_def by blast
    ultimately show ?thesis by linarith
  next
    case False
    then have "r \<in> {1..k}" using r by simp
    then show ?thesis using assms(1) j unfolding potentials_ok_def by blast
  qed
qed

lemma match_same:
  assumes "match_ok sz k p" "length p' = length p" "\<And>j. j \<in> {1..sz} \<Longrightarrow> p' ! j = p ! j"
  shows "match_ok sz k p'"
  unfolding match_ok_def
proof (intro conjI ballI impI)
  show "length p' = Suc sz" using assms(1,2) by (simp add: match_ok_def)
  fix j assume j: "j \<in> {1..sz}"
  then show "p' ! j \<le> k" using assms(1) unfolding assms(3) [OF j] match_ok_def by blast
  fix j' assume j': "j' \<in> {1..sz}"
  show "p' ! j = p' ! j' \<Longrightarrow> p' ! j \<noteq> 0 \<Longrightarrow> j = j'"
    using assms(1) j j' unfolding assms(3) [OF j] assms(3) [OF j'] match_ok_def by blast
next
  fix r assume "r \<in> {1..k}"
  then obtain j where "j \<in> {1..sz}" "p ! j = r" using assms(1) unfolding match_ok_def by blast
  then show "\<exists>j\<in>{1..sz}. p' ! j = r" using assms(3) [of j] by auto
qed

text \<open>The search starts from a tree with the column 0 alone.\<close>

lemma first_ctx:
  assumes m: "matching_ok sz cost k m" and c: "cost_ok sz cost" and k: "k < sz"
  defines "p \<equiv> (ma_p m)[0 := Suc k]"
  shows "round_ctx sz cost k p
    \<lparr>tr_u = ma_u m, tr_v = ma_v m, tr_way = ma_way m, tr_minv = replicate (Suc sz) PInf,
      tr_used = replicate (Suc sz) False, tr_j0 = 0\<rparr> []"
proof -
  have len: "length (ma_p m) = Suc sz" using m by (simp add: matching_ok_def match_ok_def)
  have same: "p ! j = ma_p m ! j" if "j \<in> {1..sz}" for j using that by (simp add: p_def)
  have p0: "p ! 0 = Suc k" using len by (simp add: p_def)
  have "match_ok sz k p"
    by (rule match_same [of sz k "ma_p m"]) (use m same len in \<open>simp_all add: matching_ok_def p_def\<close>)
  moreover have "potentials_ok sz cost (Suc k) (ma_u m) (ma_v m) p"
    by (rule potentials_next [OF _ c k same]) (use m in \<open>simp_all add: matching_ok_def\<close>)
  moreover have "\<forall>j\<in>{1..sz}. replicate (Suc sz) PInf ! j = (PInf :: f64)"
    by (simp del: replicate_Suc)
  moreover have "\<forall>j\<le> sz. \<not> replicate (Suc sz) False ! j" by (simp del: replicate_Suc)
  ultimately show ?thesis
    using m p0 c k unfolding round_ctx_def tree_ok_def
    by (simp add: matching_ok_def del: replicate_Suc)
qed

text \<open>The column the search ends at is the hole of the matching with the new row at column 0.\<close>

lemma first_hole:
  assumes "match_ok sz k p" "potentials_ok sz cost (Suc k) u v p" "k < sz" "p ! 0 = Suc k"
    and "j \<le> sz" "p ! j = 0"
  shows "hole_ok sz cost u v (Suc k) p p j"
proof -
  have le: "\<And>c. c \<in> {1..sz} \<Longrightarrow> p ! c \<le> k"
    and inj: "\<And>c c'. c \<in> {1..sz} \<Longrightarrow> c' \<in> {1..sz} \<Longrightarrow> p ! c = p ! c' \<Longrightarrow> p ! c \<noteq> 0 \<Longrightarrow> c = c'"
    and all: "\<And>r. r \<in> {1..k} \<Longrightarrow> \<exists>c\<in>{1..sz}. p ! c = r"
    using assms(1) unfolding match_ok_def by blast+
  have tight: "\<And>c. c \<in> {1..sz} \<Longrightarrow> p ! c \<noteq> 0
      \<Longrightarrow> qval (u ! (p ! c)) + qval (v ! c) = qval (cost ! (p ! c) ! c)"
    using assms(2) unfolding potentials_ok_def by blast
  have j0: "j \<noteq> 0" using assms(4,6) by (cases j) auto
  show ?thesis unfolding hole_ok_def
  proof (intro conjI ballI impI)
    show "length p = Suc sz" using assms(1) by (simp add: match_ok_def)
    show "p ! c \<le> Suc k" if "c \<in> {0..sz} - {j}" for c
      using le [of c] that assms(4) by (cases "c = 0") auto
    show "c = c'" if c: "c \<in> {0..sz} - {j}" "c' \<in> {0..sz} - {j}" "p ! c = p ! c'" "p ! c \<noteq> 0" for c c'
      using inj [of c c'] le [of c] le [of c'] c assms(4) by (cases "c = 0"; cases "c' = 0") auto
    show "\<exists>c\<in>{0..sz} - {j}. p ! c = r" if r: "r \<in> {1..Suc k}" for r
    proof (cases "r = Suc k")
      case True
      then show ?thesis using assms(4) j0 by (intro bexI [of _ 0]) auto
    next
      case False
      then obtain c where "c \<in> {1..sz}" "p ! c = r" using all [of r] r by auto
      then show ?thesis using assms(6) r by (intro bexI [of _ c]) auto
    qed
    show "p ! c = 0" if "c \<in> {1..sz} - {j}" "p ! c = 0" for c using that by simp
    show "qval (u ! (p ! c)) + qval (v ! c) = qval (cost ! (p ! c) ! c)"
      if "c \<in> {1..sz} - {j}" "p ! c \<noteq> 0" for c using tight [of c] that by simp
  qed
qed

lemma no_hole:
  assumes h: "hole_ok sz cost u v k p0 q 0" and pot: "potentials_ok sz cost k u v p0"
  shows "match_ok sz k q \<and> potentials_ok sz cost k u v q"
proof -
  have e: "{0..sz} - {0} = {1..sz}" "{1..sz} - {0} = {1..sz}" by auto
  have "match_ok sz k q" using h unfolding hole_ok_def match_ok_def e by blast
  moreover have zt: "\<forall>c\<in>{1..sz}. (q ! c = 0 \<longrightarrow> p0 ! c = 0) \<and> (q ! c \<noteq> 0
      \<longrightarrow> qval (u ! (q ! c)) + qval (v ! c) = qval (cost ! (q ! c) ! c))"
    using h unfolding hole_ok_def e by blast
  have "potentials_ok sz cost k u v q" unfolding potentials_ok_def
  proof (intro conjI)
    show "\<forall>j\<in>{1..sz}. exact (v ! j) \<and> qval (v ! j) \<le> 0 \<and> (q ! j = 0 \<longrightarrow> qval (v ! j) = 0)"
      using pot zt unfolding potentials_ok_def by meson
    show "\<forall>j\<in>{1..sz}. q ! j \<noteq> 0 \<longrightarrow> qval (u ! (q ! j)) + qval (v ! j) = qval (cost ! (q ! j) ! j)"
      using zt by blast
  qed (use pot in \<open>unfold potentials_ok_def, blast+\<close>)
  ultimately show ?thesis by blast
qed

lemma insert_row_ok:
  assumes m: "matching_ok sz cost k m" and c: "cost_ok sz cost" and k: "k < sz"
  shows "\<exists>m'. insert_row sz cost (Suc k) m = Some m' \<and> matching_ok sz cost (Suc k) m'"
proof -
  define p where "p = (ma_p m)[0 := Suc k]"
  define t where "t = \<lparr>tr_u = ma_u m, tr_v = ma_v m, tr_way = ma_way m,
    tr_minv = replicate (Suc sz) PInf, tr_used = replicate (Suc sz) False, tr_j0 = 0\<rparr>"
  have ctx: "round_ctx sz cost k p t []" using first_ctx [OF m c k] by (simp only: p_def t_def)
  obtain t' ord where s: "search_loop sz cost p t = Some t'" and tr: "tree_ok sz cost (Suc k) p t' ord"
    and ne: "ord \<noteq> []" and hole: "p ! tr_j0 t' = 0" using search_loop_ok [OF ctx] by blast
  define L where "L = ord @ [tr_j0 t']"
  have pot: "potentials_ok sz cost (Suc k) (tr_u t') (tr_v t') p" and dist: "distinct L"
    and sub: "set L \<subseteq> {0..sz}" and hd: "hd L = 0" and way: "length (tr_way t') = Suc sz"
    and nz: "\<forall>j\<in>set ord. p ! j \<noteq> 0"
    and path: "\<forall>n<length L. 0 < n \<longrightarrow> (let j = L ! n in tr_way t' ! j \<in> set (take n L)
      \<and> slack cost (tr_u t') (tr_v t') p (tr_way t' ! j) j = 0)"
    using tr unfolding tree_ok_def L_def [symmetric] by blast+
  have match: "match_ok sz k p" and p0: "p ! 0 = Suc k" using ctx by (simp_all add: round_ctx_def)
  have j: "tr_j0 t' \<le> sz" "L ! length ord = tr_j0 t'" using sub by (simp_all add: L_def)
  have "hole_ok sz cost (tr_u t') (tr_v t') (Suc k) p p (L ! length ord)"
    unfolding j(2) by (rule first_hole [OF match pot k p0 j(1) hole])
  moreover have "L ! 0 = 0" using hd by (simp add: hd_conv_nth L_def)
  moreover have "p ! (L ! l) = p ! (L ! l) \<and> p ! (L ! l) \<noteq> 0" if "l < length ord" for l
    using nz that by (simp add: L_def nth_append)
  moreover have "tr_way t' ! (L ! l) \<in> set (take l L)
      \<and> slack cost (tr_u t') (tr_v t') p (tr_way t' ! (L ! l)) (L ! l) = 0"
    if "0 < l" "l \<le> length ord" for l using path that by (simp add: Let_def L_def)
  ultimately obtain q where q: "augment (tr_way t') p (L ! length ord) = Some q"
    and h: "hole_ok sz cost (tr_u t') (tr_v t') (Suc k) p q 0"
    using augment_ok [of sz cost "tr_u t'" "tr_v t'" "Suc k" p p L "length ord" "tr_way t'"]
      dist sub ne by (auto simp: L_def)
  have "insert_row sz cost (Suc k) m = Some \<lparr>ma_u = tr_u t', ma_v = tr_v t', ma_p = q, ma_way = tr_way t'\<rparr>"
    using s q unfolding insert_row_def Let_def p_def [symmetric] t_def [symmetric] j(2) by simp
  then show ?thesis using no_hole [OF h pot] way by (simp add: matching_ok_def)
qed

lemma insert_rows_ok:
  assumes "matching_ok sz cost k m" "cost_ok sz cost" "k \<le> sz"
  shows "\<exists>m'. insert_rows sz cost [Suc k..<Suc sz] m = Some m' \<and> matching_ok sz cost sz m'"
  using assms
proof (induction "sz - k" arbitrary: k m)
  case 0
  then show ?case by simp
next
  case (Suc d)
  then have k: "k < sz" by simp
  obtain m' where "insert_row sz cost (Suc k) m = Some m'" "matching_ok sz cost (Suc k) m'"
    using insert_row_ok [OF Suc.prems(1,2) k] by blast
  moreover have "d = sz - Suc k" "Suc k \<le> sz" using Suc.hyps(2) k by simp_all
  ultimately show ?case using Suc.hyps(1) [of "Suc k" m'] Suc.prems(2) k
    by (simp add: upt_conv_Cons del: upt_Suc)
qed

section \<open>From columns to rows\<close>

lemma column_to_row_fold:
  assumes "n \<le> sz" "\<And>j. j \<in> {1..sz} \<Longrightarrow> p ! j \<in> {1..sz}" "inj_on ((!) p) {1..sz}"
    and "res = fold (\<lambda>j result. if 0 < p ! j then result[p ! j - 1 := j - 1] else result) [1..<Suc n]
       (replicate sz 0)"
  shows "length res = sz \<and> (\<forall>j\<in>{1..n}. res ! (p ! j - 1) = j - 1)"
  using assms(1,4)
proof (induction n arbitrary: res)
  case 0
  then show ?case by simp
next
  case (Suc n)
  define r where "r = fold (\<lambda>j result. if 0 < p ! j then result[p ! j - 1 := j - 1] else result)
    [1..<Suc n] (replicate sz 0)"
  have IH: "length r = sz \<and> (\<forall>j\<in>{1..n}. r ! (p ! j - 1) = j - 1)"
    using Suc.IH [OF _ r_def] Suc.prems(1) by simp
  have new: "p ! Suc n \<in> {1..sz}" using assms(2) [of "Suc n"] Suc.prems(1) by simp
  then have res: "res = r[p ! Suc n - 1 := n]" using Suc.prems(2) by (simp add: r_def)
  have "res ! (p ! j - 1) = j - 1" if j: "j \<in> {1..Suc n}" for j
  proof (cases "j = Suc n")
    case True
    have "p ! Suc n - 1 < length r" using new IH by auto
    then show ?thesis using True by (simp add: res)
  next
    case False
    then have "p ! j \<noteq> p ! Suc n" "p ! j \<in> {1..sz}"
      using assms(2) [of j] inj_onD [OF assms(3), of j "Suc n"] j Suc.prems(1) by auto
    then have "p ! Suc n - 1 \<noteq> p ! j - 1" using new by auto
    then show ?thesis using IH j False by (simp add: res)
  qed
  then show ?case using IH by (simp add: res)
qed

lemma full_match:
  assumes "match_ok sz sz p"
  shows "bij_betw ((!) p) {1..sz} {1..sz}"
proof -
  have "\<forall>r\<in>{1..sz}. \<exists>j\<in>{1..sz}. p ! j = r" using assms unfolding match_ok_def by blast
  then have all: "{1..sz} \<subseteq> (!) p ` {1..sz}" by (auto simp: image_iff)
  have "(!) p ` {1..sz} = {1..sz}"
    by (metis all card_image_le card_seteq finite_atLeastAtMost finite_imageI)
  moreover from this have "inj_on ((!) p) {1..sz}" by (intro eq_card_imp_inj_on) auto
  ultimately show ?thesis by (simp add: bij_betw_def)
qed

lemma column_to_row_ok:
  assumes "match_ok sz sz p"
  shows "length (column_to_row sz p) = sz"
    and "j \<in> {1..sz} \<Longrightarrow> column_to_row sz p ! (p ! j - 1) = j - 1"
proof -
  note b = full_match [OF assms]
  have "p ! j \<in> {1..sz}" if "j \<in> {1..sz}" for j using b that by (auto simp: bij_betw_def)
  then have "length (column_to_row sz p) = sz
      \<and> (\<forall>j\<in>{1..sz}. column_to_row sz p ! (p ! j - 1) = j - 1)"
    unfolding column_to_row_def
    by (intro column_to_row_fold) (use b in \<open>auto simp: bij_betw_def\<close>)
  then show "length (column_to_row sz p) = sz"
    "j \<in> {1..sz} \<Longrightarrow> column_to_row sz p ! (p ! j - 1) = j - 1" by blast+
qed

section \<open>Optimality\<close>

text \<open>Feasible potentials bound the cost of every permutation, and equal it on the matching.\<close>

lemma feasible_bound:
  assumes pot: "potentials_ok sz cost sz u v p" and b: "bij_betw \<sigma> {1..sz} {1..sz}"
  shows "(\<Sum>j\<in>{1..sz}. qval (u ! j)) + (\<Sum>j\<in>{1..sz}. qval (v ! j))
    \<le> (\<Sum>j\<in>{1..sz}. qval (cost ! \<sigma> j ! j))"
proof -
  have "(\<Sum>j\<in>{1..sz}. qval (u ! j)) = (\<Sum>j\<in>{1..sz}. qval (u ! \<sigma> j))"
    by (rule sum.reindex_bij_betw [OF b, symmetric])
  moreover have "qval (u ! \<sigma> j) + qval (v ! j) \<le> qval (cost ! \<sigma> j ! j)" if j: "j \<in> {1..sz}" for j
  proof -
    have "\<sigma> j \<in> {1..sz}" using b j by (auto simp: bij_betw_def)
    then show ?thesis using pot j unfolding potentials_ok_def by blast
  qed
  then have "(\<Sum>j\<in>{1..sz}. qval (u ! \<sigma> j) + qval (v ! j)) \<le> (\<Sum>j\<in>{1..sz}. qval (cost ! \<sigma> j ! j))"
    by (rule sum_mono)
  ultimately show ?thesis by (simp only: sum.distrib)
qed

lemma tight_sum:
  assumes pot: "potentials_ok sz cost sz u v p" and b: "bij_betw ((!) p) {1..sz} {1..sz}"
  shows "(\<Sum>j\<in>{1..sz}. qval (cost ! (p ! j) ! j))
    = (\<Sum>j\<in>{1..sz}. qval (u ! j)) + (\<Sum>j\<in>{1..sz}. qval (v ! j))"
proof -
  have "(\<Sum>j\<in>{1..sz}. qval (u ! j)) = (\<Sum>j\<in>{1..sz}. qval (u ! (p ! j)))"
    by (rule sum.reindex_bij_betw [OF b, symmetric])
  moreover have "qval (cost ! (p ! j) ! j) = qval (u ! (p ! j)) + qval (v ! j)" if j: "j \<in> {1..sz}" for j
  proof -
    have "p ! j \<in> {1..sz}" using bij_betwE [OF b] j by blast
    then have "p ! j \<noteq> 0" by simp
    then have "qval (u ! (p ! j)) + qval (v ! j) = qval (cost ! (p ! j) ! j)"
      using pot j unfolding potentials_ok_def by blast
    then show ?thesis by simp
  qed
  then have "(\<Sum>j\<in>{1..sz}. qval (cost ! (p ! j) ! j)) = (\<Sum>j\<in>{1..sz}. qval (u ! (p ! j)) + qval (v ! j))"
    by (rule sum.cong [OF refl])
  ultimately show ?thesis by (simp only: sum.distrib)
qed

lemma insert_rows_optimal:
  assumes m: "matching_ok sz cost sz m" and b: "bij_betw \<sigma> {1..sz} {1..sz}"
  shows "(\<Sum>j\<in>{1..sz}. qval (cost ! (ma_p m ! j) ! j)) \<le> (\<Sum>j\<in>{1..sz}. qval (cost ! \<sigma> j ! j))"
proof -
  have p: "potentials_ok sz cost sz (ma_u m) (ma_v m) (ma_p m)" "match_ok sz sz (ma_p m)"
    using m by (simp_all add: matching_ok_def)
  show ?thesis unfolding tight_sum [OF p(1) full_match [OF p(2)]] by (rule feasible_bound [OF p(1) b])
qed

end
