(* ===== verification/Hungarian_Solve.thy ===== *)
theory Hungarian_Solve
  imports Hungarian_Optimal
begin

text \<open>
  \<open>hungarian\<close> returns a permutation of least cost and \<open>solve\<close>, which pads the matrix, an
  assignment of least cost among those that match as many rows as possible.
\<close>

section \<open>The square matrix\<close>

definition square_ok :: "nat \<Rightarrow> f64 list list \<Rightarrow> bool" where
  "square_ok sz M \<longleftrightarrow> length M = sz \<and> (\<forall>r< sz. length (M ! r) = sz
     \<and> (\<forall>c< sz. exact (M ! r ! c) \<and> 0 \<le> qval (M ! r ! c) \<and> qval (M ! r ! c) \<le> max_cost))"

lemma one_indexed_nth:
  assumes "square_ok sz M" "r \<in> {1..sz}" "j \<in> {1..sz}"
  shows "one_indexed sz M ! r ! j = M ! (r - 1) ! (j - 1)"
proof -
  obtain r' j' where "r = Suc r'" "j = Suc j'" "r' < sz" "j' < sz"
    using assms(2,3) by (cases r; cases j) auto
  then show ?thesis using assms(1) by (simp add: one_indexed_def square_ok_def)
qed

lemma one_indexed_ok:
  assumes "square_ok sz M"
  shows "cost_ok sz (one_indexed sz M)"
  unfolding cost_ok_def
proof (intro ballI)
  fix r j assume r: "r \<in> {1..sz}" and j: "j \<in> {1..sz}"
  then have "r - 1 < sz" "j - 1 < sz" by auto
  then show "exact (one_indexed sz M ! r ! j) \<and> 0 \<le> qval (one_indexed sz M ! r ! j)
      \<and> qval (one_indexed sz M ! r ! j) \<le> max_cost"
    using assms unfolding one_indexed_nth [OF assms r j] square_ok_def by blast
qed

lemma initial_matching_ok:
  "matching_ok sz cost 0 \<lparr>ma_u = replicate (Suc sz) (Fin 0), ma_v = replicate (Suc sz) (Fin 0),
     ma_p = replicate (Suc sz) 0, ma_way = replicate (Suc sz) 0\<rparr>"
  unfolding matching_ok_def match_ok_def potentials_ok_def
  by (simp del: replicate_Suc)

text \<open>A permutation of the rows, numbered from 0, as one of the columns, numbered from 1.\<close>

lemma bij_pred: "bij_betw (\<lambda>j. j - 1) {1..n} {..<n::nat}"
  by (rule bij_betw_byWitness [of _ Suc]) auto

lemma bij_Suc: "bij_betw Suc {..<n::nat} {1..n}"
  by (rule bij_betw_byWitness [of _ "\<lambda>j. j - 1"]) auto

lemma sum_by_columns:
  assumes b: "bij_betw p {1..n} {1..n}" and a: "\<And>j. j \<in> {1..n} \<Longrightarrow> a (p j - 1) = j - 1"
  shows "(\<Sum>r<n. f r (a r)) = (\<Sum>j\<in>{1..n}. f (p j - 1) (j - 1 :: nat))"
proof -
  have "bij_betw (\<lambda>j. p j - 1) {1..n} {..<n}" using bij_betw_trans [OF b bij_pred] by (simp add: comp_def)
  then have "(\<Sum>r<n. f r (a r)) = (\<Sum>j\<in>{1..n}. f (p j - 1) (a (p j - 1)))"
    by (rule sum.reindex_bij_betw [symmetric])
  then show ?thesis using a by simp
qed

lemma column_permutation:
  assumes "bij_betw \<sigma> {..<n::nat} {..<n}"
  defines "p \<equiv> \<lambda>j. Suc (the_inv_into {..<n} \<sigma> (j - 1))"
  shows "bij_betw p {1..n} {1..n}" "j \<in> {1..n} \<Longrightarrow> \<sigma> (p j - 1) = j - 1"
proof -
  note i = bij_betw_the_inv_into [OF assms(1)]
  have "bij_betw (Suc \<circ> (the_inv_into {..<n} \<sigma> \<circ> (\<lambda>j. j - 1))) {1..n} {1..n}"
    by (rule bij_betw_trans [OF bij_betw_trans [OF bij_pred i] bij_Suc])
  then show "bij_betw p {1..n} {1..n}" by (simp add: p_def comp_def)
  show "\<sigma> (p j - 1) = j - 1" if "j \<in> {1..n}"
  proof -
    have "j - 1 \<in> \<sigma> ` {..<n}" using assms(1) that by (auto simp: bij_betw_def)
    then show ?thesis using assms(1) by (simp add: p_def bij_betw_def f_the_inv_into_f)
  qed
qed

lemma row_permutation:
  assumes b: "bij_betw p {1..n} {1..n}" and a: "\<And>j. j \<in> {1..n} \<Longrightarrow> a (p j - 1) = j - (1::nat)"
  shows "bij_betw a {..<n} {..<n}"
proof -
  have c: "bij_betw (\<lambda>j. p j - 1) {1..n} {..<n}" using bij_betw_trans [OF b bij_pred] by (simp add: comp_def)
  have "bij_betw (a \<circ> (\<lambda>j. p j - 1)) {1..n} {..<n}"
    by (rule bij_betw_cong [THEN iffD2, OF _ bij_pred]) (use a in simp)
  then show ?thesis using bij_betw_comp_iff [OF c] by blast
qed

lemma hungarian_ok:
  assumes M: "square_ok sz M" and "0 < sz"
  obtains a where "hungarian sz M = Some a" "length a = sz" "bij_betw ((!) a) {..< sz} {..< sz}"
    "\<forall>\<sigma>. bij_betw \<sigma> {..< sz} {..< sz} \<longrightarrow>
       (\<Sum>r< sz. qval (M ! r ! (a ! r))) \<le> (\<Sum>r< sz. qval (M ! r ! \<sigma> r))"
proof -
  let ?C = "one_indexed sz M"
  obtain m where m: "insert_rows sz ?C [1..<Suc sz] \<lparr>ma_u = replicate (Suc sz) (Fin 0),
      ma_v = replicate (Suc sz) (Fin 0), ma_p = replicate (Suc sz) 0, ma_way = replicate (Suc sz) 0\<rparr> = Some m"
    and ok: "matching_ok sz ?C sz m"
    using insert_rows_ok [OF initial_matching_ok one_indexed_ok [OF M]] by auto
  define a where "a = column_to_row sz (ma_p m)"
  have full: "match_ok sz sz (ma_p m)" using ok by (simp add: matching_ok_def)
  note b = full_match [OF full] and c = column_to_row_ok [OF full, folded a_def]
  have cost: "(\<Sum>r< sz. qval (M ! r ! \<sigma> r)) = (\<Sum>j\<in>{1..sz}. qval (?C ! p j ! j))"
    if "bij_betw p {1..sz} {1..sz}" "\<And>j. j \<in> {1..sz} \<Longrightarrow> \<sigma> (p j - 1) = j - 1" for p \<sigma>
  proof -
    have "(\<Sum>r< sz. qval (M ! r ! \<sigma> r)) = (\<Sum>j\<in>{1..sz}. qval (M ! (p j - 1) ! (j - 1)))"
      using sum_by_columns [of p sz \<sigma> "\<lambda>r c. qval (M ! r ! c)", OF that] .
    also have "\<dots> = (\<Sum>j\<in>{1..sz}. qval (?C ! p j ! j))"
      using one_indexed_nth [OF M] bij_betwE [OF that(1)] by (intro sum.cong refl) metis
    finally show ?thesis .
  qed
  have least: "(\<Sum>r< sz. qval (M ! r ! (a ! r))) \<le> (\<Sum>r< sz. qval (M ! r ! \<sigma> r))"
    if s: "bij_betw \<sigma> {..< sz} {..< sz}" for \<sigma>
  proof -
    note p = column_permutation [OF s]
    have "(\<Sum>r< sz. qval (M ! r ! (a ! r))) = (\<Sum>j\<in>{1..sz}. qval (?C ! (ma_p m ! j) ! j))"
      using cost [OF b c(2)] .
    moreover have "(\<Sum>r< sz. qval (M ! r ! \<sigma> r))
        = (\<Sum>j\<in>{1..sz}. qval (?C ! Suc (the_inv_into {..< sz} \<sigma> (j - 1)) ! j))"
      using cost [OF p] .
    ultimately show ?thesis using insert_rows_optimal [OF ok p(1)] by simp
  qed
  show thesis
  proof (rule that)
    show "hungarian sz M = Some a" using m assms(2) by (simp add: hungarian_def a_def)
    show "length a = sz" by (rule c(1))
    show "bij_betw ((!) a) {..< sz} {..< sz}" by (rule row_permutation [of "(!) (ma_p m)", OF b c(2)])
  qed (use least in blast)
qed

section \<open>Padding\<close>

text \<open>Costs that are multiples of \<open>2^-24\<close> between 0 and the padding cost.\<close>

definition cost_entry :: "f32 \<Rightarrow> bool" where
  "cost_entry x \<longleftrightarrow> (case x of Fin q \<Rightarrow> grid q \<and> 0 \<le> q \<and> q \<le> max_cost | _ \<Rightarrow> False)"

definition costs_ok :: "nat \<Rightarrow> nat \<Rightarrow> f32 list list \<Rightarrow> bool" where
  "costs_ok n m costs \<longleftrightarrow> length costs = n
     \<and> (\<forall>row\<in>set costs. length row = m \<and> (\<forall>x\<in>set row. cost_entry x))"

lemma costs_entry:
  assumes "costs_ok n m costs" "r < n" "k < m"
  shows "cost_entry (costs ! r ! k)"
proof -
  have "costs ! r \<in> set costs" using assms by (simp add: costs_ok_def)
  then have "length (costs ! r) = m" "\<forall>x\<in>set (costs ! r). cost_entry x"
    using assms(1) by (simp_all add: costs_ok_def)
  then show ?thesis using assms(3) by simp
qed

lemma large_cost: "f64_of_f32 large_cost = Fin max_cost"
proof -
  have "representable TYPE(32) (of_int 1000000)" by (rule representable_int) (simp add: prec_def)
  from rnd_representable [OF this] show ?thesis by (simp add: large_cost_def lit_def f64_of_f32_def max_cost_def)
qed

lemma pad_nth:
  assumes "costs_ok n m costs" "n \<le> sz" "m \<le> sz" "r < sz" "c < sz"
  shows "pad_square n m sz costs ! r ! c
    = (if r < n \<and> c < m then f64_of_f32 (costs ! r ! c) else Fin max_cost)"
proof (cases "r < n")
  case True
  then have "length (costs ! r) = m" using assms(1) by (simp add: costs_ok_def)
  then show ?thesis using assms True by (simp add: pad_square_def costs_ok_def nth_append large_cost)
next
  case False
  then show ?thesis using assms by (simp add: pad_square_def costs_ok_def nth_append large_cost)
qed

lemma pad_square_ok:
  assumes c: "costs_ok n m costs" "n \<le> sz" "m \<le> sz"
  shows "square_ok sz (pad_square n m sz costs)"
  unfolding square_ok_def
proof (intro conjI allI impI)
  show "length (pad_square n m sz costs) = sz" using c by (simp add: pad_square_def costs_ok_def)
  fix r assume r: "r < sz"
  show "length (pad_square n m sz costs ! r) = sz"
    using c r by (cases "r < n") (simp_all add: pad_square_def costs_ok_def nth_append)
  fix k assume k: "k < sz"
  have "cost_entry (costs ! r ! k)" if "r < n" "k < m" by (rule costs_entry [OF c(1) that])
  then show "exact (pad_square n m sz costs ! r ! k)" "0 \<le> qval (pad_square n m sz costs ! r ! k)"
    "qval (pad_square n m sz costs ! r ! k) \<le> max_cost"
    using grid_of_int [of 1000000] unfolding pad_nth [OF c r k]
    by (auto simp: cost_entry_def f64_of_f32_def max_cost_def split: fl.splits)
qed

section \<open>Assignments\<close>

definition valid_assignment :: "nat \<Rightarrow> nat \<Rightarrow> nat option list \<Rightarrow> bool" where
  "valid_assignment n m a \<longleftrightarrow> length a = n \<and> (\<forall>j. Some j \<in> set a \<longrightarrow> j < m)
     \<and> distinct (filter (\<lambda>x. x \<noteq> None) a)"

definition matched :: "nat option list \<Rightarrow> nat" where
  "matched a = length (filter (\<lambda>x. x \<noteq> None) a)"

definition total_cost :: "f32 list list \<Rightarrow> nat option list \<Rightarrow> rat" where
  "total_cost costs a =
     (\<Sum>r<length a. case a ! r of None \<Rightarrow> 0 | Some j \<Rightarrow> qval (costs ! r ! j))"

lemma matched_card: "matched a = card {r. r < length a \<and> a ! r \<noteq> None}"
  by (simp add: matched_def length_filter_conv_card)

lemma distinct_filter_nth:
  "distinct (filter (\<lambda>x. x \<noteq> None) a)
    \<longleftrightarrow> (\<forall>r<length a. \<forall>r'<length a. a ! r \<noteq> None \<longrightarrow> a ! r = a ! r' \<longrightarrow> r = r')"
proof (induction a)
  case (Cons x a)
  have "(\<forall>r<length (x # a). \<forall>r'<length (x # a).
        (x # a) ! r \<noteq> None \<longrightarrow> (x # a) ! r = (x # a) ! r' \<longrightarrow> r = r')
    \<longleftrightarrow> (x \<noteq> None \<longrightarrow> x \<notin> set a) \<and> (\<forall>r<length a. \<forall>r'<length a. a ! r \<noteq> None \<longrightarrow> a ! r = a ! r' \<longrightarrow> r = r')"
    by (auto simp: All_less_Suc2 in_set_conv_nth)
  then show ?case using Cons by auto
qed simp

lemma valid_nth:
  assumes "valid_assignment n m a"
  shows "r < n \<Longrightarrow> a ! r = Some j \<Longrightarrow> j < m"
    and "r < n \<Longrightarrow> r' < n \<Longrightarrow> a ! r = Some j \<Longrightarrow> a ! r' = Some j \<Longrightarrow> r = r'"
  using assms unfolding valid_assignment_def distinct_filter_nth by (metis nth_mem option.discI)+

text \<open>The rows a permutation of the square matches to real columns.\<close>

lemma card_real:
  assumes b: "bij_betw \<sigma> {..< sz} {..< sz}" and sz: "sz = max n m"
  shows "card {r. r < n \<and> \<sigma> r < m} = min n m"
proof (cases "n \<le> m")
  case True
  then have "{r. r < n \<and> \<sigma> r < m} = {..<n}" using bij_betwE [OF b] sz by auto
  then show ?thesis using True by simp
next
  case False
  then have n: "sz = n" using sz by simp
  have "\<sigma> ` {r. r < n \<and> \<sigma> r < m} = {..<m}"
    using b False unfolding n bij_betw_def by (auto simp: image_iff)
  moreover have "inj_on \<sigma> {r. r < n \<and> \<sigma> r < m}"
    using b unfolding n by (auto simp: bij_betw_def intro: inj_on_subset)
  ultimately have "card {r. r < n \<and> \<sigma> r < m} = card {..<m}" using card_image by metis
  then show ?thesis using False by simp
qed

text \<open>The padding adds the same to every permutation.\<close>

lemma padded_sum:
  assumes c: "costs_ok n m costs" and b: "bij_betw \<sigma> {..< sz} {..< sz}" and sz: "sz = max n m"
  shows "(\<Sum>r< sz. qval (pad_square n m sz costs ! r ! \<sigma> r))
    = (\<Sum>r<n. if \<sigma> r < m then qval (costs ! r ! \<sigma> r) else 0) + of_nat (sz - min n m) * max_cost"
proof -
  let ?R = "{r. r < n \<and> \<sigma> r < m}"
  have le: "n \<le> sz" "m \<le> sz" using sz by simp_all
  have entry: "qval (pad_square n m sz costs ! r ! \<sigma> r)
      = (if r < n \<and> \<sigma> r < m then qval (costs ! r ! \<sigma> r) else max_cost)" if "r < sz" for r
  proof -
    have "cost_entry (costs ! r ! \<sigma> r)" if "r < n" "\<sigma> r < m" by (rule costs_entry [OF c that])
    then show ?thesis using bij_betwE [OF b] that unfolding cost_entry_def
      by (subst pad_nth [OF c le that]) (auto simp: f64_of_f32_def split: fl.splits)
  qed
  have "(\<Sum>r< sz. qval (pad_square n m sz costs ! r ! \<sigma> r))
      = (\<Sum>r< sz. if r \<in> ?R then qval (costs ! r ! \<sigma> r) else max_cost)"
    by (rule sum.cong) (simp_all add: entry)
  also have "\<dots> = (\<Sum>r\<in>?R. qval (costs ! r ! \<sigma> r)) + (\<Sum>r\<in>{..< sz} - ?R. max_cost)"
  proof -
    have "{..< sz} \<inter> {r. r \<in> ?R} = ?R" "{..< sz} \<inter> - {r. r \<in> ?R} = {..< sz} - ?R" using le by auto
    then show ?thesis by (subst sum.If_cases) simp_all
  qed
  also have "(\<Sum>r\<in>?R. qval (costs ! r ! \<sigma> r)) = (\<Sum>r<n. if \<sigma> r < m then qval (costs ! r ! \<sigma> r) else 0)"
    by (simp add: sum.If_cases Collect_conj_eq lessThan_def)
  also have "(\<Sum>r\<in>{..< sz} - ?R. max_cost) = of_nat (sz - min n m) * max_cost"
  proof -
    have "?R \<subseteq> {..< sz}" "finite ?R" using le by auto
    then show ?thesis using card_real [OF b sz] by (simp add: card_Diff_subset)
  qed
  finally show ?thesis .
qed

text \<open>An assignment that matches as many rows as possible is part of a permutation of the square.\<close>

lemma extend_assignment:
  assumes v: "valid_assignment n m b" and k: "matched b = min n m" and sz: "sz = max n m"
  obtains \<sigma> where "bij_betw \<sigma> {..< sz} {..< sz}"
    "\<forall>r<n. case b ! r of None \<Rightarrow> m \<le> \<sigma> r | Some j \<Rightarrow> \<sigma> r = j"
proof -
  define A where "A = {r. r < n \<and> b ! r \<noteq> None}"
  define f where "f r = the (b ! r)" for r
  have len: "length b = n" using v by (simp add: valid_assignment_def)
  have A: "A \<subseteq> {..< sz}" "finite A" "card A = min n m"
    using k sz len by (auto simp: A_def matched_card)
  have f: "inj_on f A" "f ` A \<subseteq> {..<m}"
    using valid_nth [OF v] by (auto simp: A_def f_def inj_on_def)
  then have B: "f ` A \<subseteq> {..< sz}" "card (f ` A) = min n m" using sz A by (auto simp: card_image)
  then have "card ({..< sz} - A) = card ({..< sz} - f ` A)" using A by (simp add: card_Diff_subset)
  then obtain g where g: "bij_betw g ({..< sz} - A) ({..< sz} - f ` A)"
    using finite_same_card_bij by blast
  define \<sigma> where "\<sigma> r = (if r \<in> A then f r else g r)" for r
  have "bij_betw \<sigma> A (f ` A)" using f(1) by (simp add: bij_betw_def \<sigma>_def inj_on_def)
  moreover have "bij_betw \<sigma> ({..< sz} - A) ({..< sz} - f ` A)"
    by (rule bij_betw_cong [THEN iffD2, OF _ g]) (simp add: \<sigma>_def)
  ultimately have "bij_betw \<sigma> (A \<union> ({..< sz} - A)) (f ` A \<union> ({..< sz} - f ` A))"
    by (rule bij_betw_combine) blast
  then have bij: "bij_betw \<sigma> {..< sz} {..< sz}" using A(1) B(1) by (simp add: Un_absorb1)
  have "m \<le> \<sigma> r" if "r < n" "b ! r = None" for r
  proof -
    have r: "r \<in> {..< sz} - A" using that sz by (simp add: A_def)
    have sub: "A \<subseteq> {..<n}" by (auto simp: A_def)
    have "r \<in> {..<n}" "r \<notin> A" using that by (simp_all add: A_def)
    then have "A \<noteq> {..<n}" by blast
    then have "card A \<noteq> n" using card_subset_eq [OF _ sub] by auto
    then have "card (f ` A) = m" using A(3) B(2) by simp
    then have "f ` A = {..<m}" using f(2) card_subset_eq [of "{..<m}" "f ` A"] by simp
    then show ?thesis using bij_betwE [OF g] r by (auto simp: \<sigma>_def)
  qed
  moreover have "\<sigma> r = j" if "r < n" "b ! r = Some j" for r j
    using that by (simp add: \<sigma>_def A_def f_def)
  ultimately show thesis using bij by (intro that [of \<sigma>]) (auto split: option.splits)
qed

lemma total_cost_part:
  assumes "length b = n" "\<forall>r<n. case b ! r of None \<Rightarrow> m \<le> \<sigma> r | Some j \<Rightarrow> \<sigma> r = j"
    and "\<forall>r<n. \<forall>j. b ! r = Some j \<longrightarrow> j < m"
  shows "total_cost costs b = (\<Sum>r<n. if \<sigma> r < m then qval (costs ! r ! \<sigma> r) else 0)"
  unfolding total_cost_def assms(1)
  using assms(2,3) by (intro sum.cong) (fastforce split: option.splits)+

text \<open>The columns beyond \<open>m\<close> become no assignment.\<close>

lemma trim_assignment:
  assumes "length a = sz" "bij_betw ((!) a) {..< sz} {..< sz}" "sz = max n m"
  defines "b \<equiv> map (\<lambda>a. if a < m then Some a else None) (take n a)"
  shows "valid_assignment n m b" "matched b = min n m"
    "total_cost costs b = (\<Sum>r<n. if a ! r < m then qval (costs ! r ! (a ! r)) else 0)"
proof -
  have len: "length b = n" and nth: "\<And>r. r < n \<Longrightarrow> b ! r = (if a ! r < m then Some (a ! r) else None)"
    using assms(1,3) by (simp_all add: b_def)
  have inj: "a ! r = a ! r' \<Longrightarrow> r < n \<Longrightarrow> r' < n \<Longrightarrow> r = r'" for r r'
    using assms(2,3) by (auto simp: bij_betw_def dest: inj_onD)
  have "j < m" if "Some j \<in> set b" for j using that by (auto simp: b_def split: if_splits)
  moreover have "distinct (filter (\<lambda>x. x \<noteq> None) b)"
    unfolding distinct_filter_nth len using inj nth by (auto split: if_splits)
  ultimately show v: "valid_assignment n m b" by (simp add: valid_assignment_def len)
  have "{r. r < n \<and> b ! r \<noteq> None} = {r. r < n \<and> a ! r < m}" using nth by (auto split: if_splits)
  then show "matched b = min n m" using card_real [OF assms(2,3)] by (simp add: matched_card len)
  show "total_cost costs b = (\<Sum>r<n. if a ! r < m then qval (costs ! r ! (a ! r)) else 0)"
  proof (rule total_cost_part [OF len])
    show "\<forall>r<n. \<forall>j. b ! r = Some j \<longrightarrow> j < m" using valid_nth(1) [OF v] by blast
    show "\<forall>r<n. case b ! r of None \<Rightarrow> m \<le> a ! r | Some j \<Rightarrow> a ! r = j" by (simp add: nth)
  qed
qed

section \<open>The result\<close>

lemma solve_least:
  assumes c: "costs_ok n m costs" and "0 < n" "0 < m"
  shows "\<exists>a. solve costs = Some a \<and> valid_assignment n m a \<and> matched a = min n m
    \<and> (\<forall>b. valid_assignment n m b \<longrightarrow> matched b = min n m \<longrightarrow> total_cost costs a \<le> total_cost costs b)"
proof -
  define sz where "sz = max n m"
  have le: "n \<le> sz" "m \<le> sz" "0 < sz" using assms(2) by (auto simp: sz_def)
  let ?M = "pad_square n m sz costs"
  obtain a where h: "hungarian sz ?M = Some a" and a: "length a = sz" "bij_betw ((!) a) {..< sz} {..< sz}"
    and least: "\<forall>\<sigma>. bij_betw \<sigma> {..< sz} {..< sz} \<longrightarrow>
       (\<Sum>r< sz. qval (?M ! r ! (a ! r))) \<le> (\<Sum>r< sz. qval (?M ! r ! \<sigma> r))"
    by (rule hungarian_ok [OF pad_square_ok [OF c le(1,2)] le(3)])
  define b where "b = map (\<lambda>a. if a < m then Some a else None) (take n a)"
  have n: "length costs = n" "length (hd costs) = m"
    using c assms(2) by (cases costs; simp add: costs_ok_def)+
  then have "solve costs = Some b" using h assms(2,3) by (simp add: solve_def Let_def sz_def b_def)
  note t = trim_assignment [OF a sz_def, folded b_def]
  have "total_cost costs b \<le> total_cost costs b'"
    if v: "valid_assignment n m b'" and k: "matched b' = min n m" for b'
  proof -
    obtain \<sigma> where s: "bij_betw \<sigma> {..< sz} {..< sz}"
      and e: "\<forall>r<n. case b' ! r of None \<Rightarrow> m \<le> \<sigma> r | Some j \<Rightarrow> \<sigma> r = j"
      by (rule extend_assignment [OF v k sz_def])
    have "total_cost costs b' = (\<Sum>r<n. if \<sigma> r < m then qval (costs ! r ! \<sigma> r) else 0)"
      using v e valid_nth(1) [OF v] by (intro total_cost_part) (auto simp: valid_assignment_def)
    moreover have "(\<Sum>r< sz. qval (?M ! r ! (a ! r))) \<le> (\<Sum>r< sz. qval (?M ! r ! \<sigma> r))"
      using least s by blast
    ultimately show ?thesis
      by (simp add: t(3) padded_sum [OF c s sz_def] padded_sum [OF c a(2) sz_def])
  qed
  then show ?thesis using \<open>solve costs = Some b\<close> t(1,2) by blast
qed

text \<open>C29: on costs on the grid, the solver returns a valid assignment of min(n, m) rows, of
  least total cost among all valid assignments of that many rows.\<close>

theorem solve_optimal:
  assumes "costs_ok n m costs" and "0 < n" "0 < m"
  shows "\<exists>a. solve costs = Some a \<and> valid_assignment n m a \<and> matched a = min n m
    \<and> (\<forall>b. valid_assignment n m b \<longrightarrow> matched b = min n m \<longrightarrow> total_cost costs a \<le> total_cost costs b)"
  by (rule solve_least [OF assms])

lemma grid_half [simp]: "grid (1 / 2)" "grid (1 / 4)"
  unfolding grid_def by (rule exI [of _ "2 ^ 23"], simp, rule exI [of _ "2 ^ 22"], simp)

lemma grid_1 [simp]: "grid 1"
  using grid_of_int [of 1] by simp

theorem solve_optimal_witness:
  "costs_ok 2 3 [[Fin (1 / 2), Fin (1 / 4), Fin 1], [Fin 1, Fin 0, Fin (1 / 2)]]
   \<and> (\<exists>a. solve [[Fin (1 / 2), Fin (1 / 4), Fin 1], [Fin 1, Fin 0, Fin (1 / 2)]] = Some a
        \<and> valid_assignment 2 3 a \<and> matched a = 2)"
proof -
  have c: "costs_ok 2 3 [[Fin (1 / 2), Fin (1 / 4), Fin 1], [Fin 1, Fin 0, Fin (1 / 2)]]"
    by (simp add: costs_ok_def cost_entry_def max_cost_def)
  from solve_optimal [OF c] show ?thesis using c by auto
qed

end
