(* ===== verification/Overlap.thy ===== *)
theory Overlap
  imports Hungarian_Solve
begin

text \<open>
  The overlap of two boxes of a 4K frame, as \<open>BoundingBox::iou\<close> computes it: the products and
  sums of the areas are exact, so that the quotient is between 0 and 1 and one minus it is a
  cost on the grid of \<open>Hungarian_Correct\<close>.
\<close>

definition in_4k :: "bounding_box \<Rightarrow> bool" where
  "in_4k b \<longleftrightarrow> unat (b_x b) + unat (b_width b) \<le> 3840 \<and> unat (b_y b) + unat (b_height b) \<le> 2160"

lemma u32_as_f32_exact: "unat w \<le> 16777216 \<Longrightarrow> u32_as_f32 w = Fin (of_nat (unat w))"
  unfolding u32_as_f32_def fl_of_nat_def by (intro rnd_representable representable_nat)

lemma unat_max: "unat (max a b) = max (unat a) (unat b)" and unat_min: "unat (min a b) = min (unat a) (unat b)"
  for a b :: "'a::len word"
  by (simp_all add: max_def min_def word_le_nat_alt)

lemma unat_add_small: "unat a + unat b < 2 ^ 32 \<Longrightarrow> unat (a + b) = unat a + unat b" for a b :: u32
  by (simp add: unat_word_ariths)

lemma unat_mult_small: "unat a * unat b < 2 ^ 32 \<Longrightarrow> unat (a * b) = unat a * unat b" for a b :: u32
  by (simp add: unat_word_ariths)

lemma rnd_unit:
  assumes "0 \<le> q" "q \<le> 1"
  obtains r where "rnd q = (Fin r :: f32)" "0 \<le> r" "r \<le> 1" "representable TYPE(32) r"
proof -
  have "(Fin 0 :: f32) \<le> rnd q"
    using rnd_ge_representable [OF assms(1), where 'f=32] representable_int [of 0, where 'f=32] by simp
  moreover have "rnd q \<le> (Fin 1 :: f32)"
    using rnd_le_representable [OF assms(2), where 'f=32] representable_int [of 1, where 'f=32] by simp
  moreover have "rnd q \<noteq> (NZero :: f32)"
    using assms(1) by (simp add: rnd_def Let_def not_less)
  moreover have "wf_fl (rnd q :: f32)" by simp
  ultimately show thesis using that by (cases "rnd q :: f32") simp_all
qed

text \<open>A 32-bit value between a half and one is on the grid.\<close>

lemma grid_upper_half:
  assumes "representable TYPE(32) y" "1 / 2 \<le> y"
  shows "grid y"
proof -
  obtain m e where y: "y = of_int m * 2 powi e" and m: "\<bar>m\<bar> \<le> 2 ^ prec TYPE(32)"
    using rndq_form [of "TYPE(32)" y] assms(1) unfolding representable_def by metis
  have m24: "m \<le> 2 ^ 24" using m by (simp add: prec_def)
  show ?thesis
  proof (cases "- 24 \<le> e")
    case True
    then obtain k where k: "e = int k - 24" by (metis add_diff_cancel_left' diff_add_cancel minus_diff_eq
          uminus_add_conv_diff zle_iff_zadd)
    then have "y = of_int (m * 2 ^ k) / 2 ^ 24" by (simp add: y power_int_diff)
    then show ?thesis unfolding grid_def by blast
  next
    case False
    have "y \<le> 2 ^ 24 * 2 powi e"
      unfolding y using m24 by (intro mult_right_mono) (simp_all add: of_int_le_numeral_power_cancel_iff)
    also have "\<dots> \<le> 2 ^ 24 * 2 powi (- 25)"
      using False by (intro mult_left_mono power_int_increasing) simp_all
    also have "\<dots> = 1 / 2" by (simp add: power_int_minus)
    finally have half: "y = 1 / 2" using assms(2) by simp
    show ?thesis unfolding half by (rule grid_half(1))
  qed
qed

lemma one_minus_unit:
  assumes "representable TYPE(32) q" "0 \<le> q" "q \<le> 1"
  shows "cost_entry (Fin 1 - Fin q)"
proof -
  have s: "Fin 1 - Fin q = (rnd (1 - q) :: f32)"
    by (simp add: minus_fl_def uminus_fl_def plus_fl_def)
  have "0 \<le> 1 - q" "1 - q \<le> 1" using assms by simp_all
  then obtain r where r: "rnd (1 - q) = (Fin r :: f32)" "0 \<le> r" "r \<le> 1" "representable TYPE(32) r"
    by (rule rnd_unit)
  have "grid r"
  proof (cases "1 / 2 \<le> q")
    case True
    have "grid q" using grid_upper_half [OF assms(1) True] .
    then have g: "grid (1 - q)" by (intro grid_diff) simp_all
    have "representable TYPE(32) (1 - q)"
    proof -
      obtain n :: int where n: "1 - q = of_int n / 2 ^ 24" using g by (auto simp: grid_def)
      then have p: "1 - q = of_int n * 2 powi (- 24)" by (simp only: power_int_minus power_int_numeral divide_inverse)
      have "of_int n \<le> (of_int (2 ^ 24) :: rat)" "of_int 0 \<le> (of_int n :: rat)"
        using n assms by (simp_all add: divide_simps)
      then have "\<bar>n\<bar> \<le> 2 ^ prec TYPE(32)" unfolding of_int_le_iff by (simp add: prec_def)
      moreover have "\<bar>1 - q\<bar> < 2 powi emax TYPE(32)"
        using assms less_le_trans [of 1 "2 powi 1" "2 powi emax TYPE(32) :: rat"]
        by (simp add: emax_def)
      ultimately show ?thesis unfolding p by (intro representable_scaled) (auto simp: emin_def)
    qed
    then show ?thesis using r(1) g by (simp add: rnd_representable)
  next
    case False
    have "representable TYPE(32) (1 / 2)" using representable_half_int [of 1, where 'f=32] by simp
    then have "(Fin (1 / 2) :: f32) \<le> rnd (1 - q)" using False by (intro rnd_ge_representable) simp_all
    then show ?thesis using r by (intro grid_upper_half) simp_all
  qed
  then show ?thesis using r by (simp add: s cost_entry_def max_cost_def)
qed

lemma guarded_quotient:
  "0 < n \<Longrightarrow> 0 < d \<Longrightarrow> (if (Fin (of_nat d) :: f32) \<le> Fin 0 then Fin 0 else Fin (of_nat n) / Fin (of_nat d))
     = rnd (of_nat n / of_nat d)"
  by (simp add: divide_fl_def)

lemma iou_unit:
  assumes a: "in_4k a" and b: "in_4k b"
  obtains q where "bbox_iou a b = Fin q" "0 \<le> q" "q \<le> 1" "representable TYPE(32) q"
proof -
  define x1 y1 x2 y2 where "x1 = max (b_x a) (b_x b)" and "y1 = max (b_y a) (b_y b)"
    and "x2 = min (b_x a + b_width a) (b_x b + b_width b)"
    and "y2 = min (b_y a + b_height a) (b_y b + b_height b)"
  show thesis
  proof (cases "x2 \<le> x1 \<or> y2 \<le> y1")
    case True
    then have "bbox_iou a b = Fin 0"
      by (simp add: bbox_iou_def Let_def x1_def y1_def x2_def y2_def)
    then show thesis using that [of 0] representable_int [of 0, where 'f=32] by simp
  next
    case False
    define w h where "w = unat (x2 - x1)" and "h = unat (y2 - y1)"
    have x: "unat x1 < unat x2" "unat y1 < unat y2" using False by (simp_all add: word_le_nat_alt)
    then have wh: "w = unat x2 - unat x1" "h = unat y2 - unat y1"
      by (simp_all add: w_def h_def unat_sub_if')
    have ends: "unat (b_x c + b_width c) = unat (b_x c) + unat (b_width c)"
      "unat (b_y c + b_height c) = unat (b_y c) + unat (b_height c)" if "in_4k c" for c
      using that by (simp_all add: in_4k_def unat_add_small)
    have sides: "w \<le> unat (b_width a)" "w \<le> unat (b_width b)" "h \<le> unat (b_height a)" "h \<le> unat (b_height b)"
      using x by (auto simp: wh x1_def x2_def y1_def y2_def unat_max unat_min ends [OF a] ends [OF b])
    have pos: "0 < w" "0 < h" using x by (simp_all add: wh)
    define A where "A c = unat (b_width c) * unat (b_height c)" for c :: bounding_box
    have A: "A c \<le> 3840 * 2160" if "in_4k c" for c
      unfolding A_def using that by (intro mult_le_mono) (simp_all add: in_4k_def)
    have "w * h \<le> A a" "w * h \<le> A b" using sides by (simp_all add: A_def mult_le_mono)
    then have I: "w * h \<le> A a" "w * h \<le> A b" "w * h \<le> 3840 * 2160"
      using A [OF a] by linarith+
    have area: "unat (b_width c * b_height c) = A c" if "in_4k c" for c
      using A [OF that] by (simp add: A_def unat_mult_small)
    have sum: "unat (b_width a * b_height a + b_width b * b_height b) = A a + A b"
      using A [OF a] A [OF b] by (simp add: unat_add_small area [OF a] area [OF b])
    have inter: "u32_as_f32 (x2 - x1) * u32_as_f32 (y2 - y1) = Fin (of_nat (w * h))"
    proof -
      have "w \<le> 16777216" "h \<le> 16777216" using sides a by (simp_all add: in_4k_def)
      then have "u32_as_f32 (x2 - x1) = Fin (of_nat w)" "u32_as_f32 (y2 - y1) = Fin (of_nat h)"
        by (simp_all add: u32_as_f32_exact w_def h_def)
      then show ?thesis
        using pos I(3) rnd_representable [OF representable_nat [of "w * h"], where 'f=32]
        by (simp add: times_fl_def Let_def)
    qed
    have union: "u32_as_f32 (b_width a * b_height a + b_width b * b_height b) - Fin (of_nat (w * h))
        = Fin (of_nat (A a + A b - w * h))"
    proof -
      have "A a + A b \<le> 16777216" using A [OF a] A [OF b] by simp
      then have "u32_as_f32 (b_width a * b_height a + b_width b * b_height b) = Fin (of_nat (A a + A b))"
        using sum by (simp add: u32_as_f32_exact)
      moreover have "rnd (of_nat (A a + A b) - of_nat (w * h)) = (Fin (of_nat (A a + A b - w * h)) :: f32)"
        using rnd_representable [OF representable_nat [of "A a + A b - w * h"], where 'f=32] I
          \<open>A a + A b \<le> 16777216\<close> by (simp add: of_nat_diff)
      ultimately show ?thesis using pos by (simp add: minus_fl_def uminus_fl_def plus_fl_def)
    qed
    have U: "w * h \<le> A a + A b - w * h" "0 < A a + A b - w * h"
    proof -
      have "0 < w * h" using pos by simp
      then show "w * h \<le> A a + A b - w * h" "0 < A a + A b - w * h" using I by linarith+
    qed
    have "bbox_iou a b = rnd (of_nat (w * h) / of_nat (A a + A b - w * h))"
      using False guarded_quotient [of "w * h" "A a + A b - w * h"] U pos
      unfolding bbox_iou_def Let_def x1_def [symmetric] y1_def [symmetric] x2_def [symmetric]
        y2_def [symmetric] inter union by simp
    moreover have "0 \<le> (of_nat (w * h) / of_nat (A a + A b - w * h) :: rat)" by simp
    moreover have "of_nat (w * h) / of_nat (A a + A b - w * h) \<le> (1 :: rat)"
      using U by (simp only: divide_le_eq_1_pos of_nat_0_less_iff of_nat_le_iff)
    ultimately show thesis using rnd_unit that by metis
  qed
qed

lemma overlap_cost_entry: "in_4k a \<Longrightarrow> in_4k b \<Longrightarrow> cost_entry (Fin 1 - bbox_iou a b)"
  using iou_unit one_minus_unit by metis

end
