(* ===== verification/Multi_Tracker.thy ===== *)
theory Multi_Tracker
  imports Target_Tracker Overlap Watchdogs
begin

text \<open>
  \<open>crates/target-tracker/src/multi_tracker.rs\<close>.  The tracks are a \<open>HashMap\<close>: operations that
  visit them take the order \<open>iter\<close> under the laws of \<open>hash_order\<close>.  \<open>Utc::now\<close> is read once per
  track that is created or matched (\<open>seen\<close>) and once per track that is checked for age
  (\<open>checked\<close>); the readings are indexed by the track.  \<open>update\<close> is \<open>None\<close> if the assignment does
  not end.
\<close>

section \<open>Tracks\<close>

record track =
  tk_id :: target_id
  tk_kalman :: kalman_filter
  tk_last_bbox :: bounding_box
  tk_confidence :: f32
  tk_last_seen :: utc
  tk_missed_frames :: u32
  tk_confirmation_count :: u32

definition track_new :: "utc \<Rightarrow> target_id \<Rightarrow> detection \<Rightarrow> track" where
  "track_new now i det = (case bbox_center (d_bbox det) of (cx, cy) \<Rightarrow>
     \<lparr>tk_id = i, tk_kalman = kalman_new cx cy, tk_last_bbox = d_bbox det,
      tk_confidence = d_confidence det, tk_last_seen = now, tk_missed_frames = 0,
      tk_confirmation_count = 1\<rparr>)"

definition update_with_detection :: "utc \<Rightarrow> detection \<Rightarrow> track \<Rightarrow> track" where
  "update_with_detection now det tk = tk\<lparr>
     tk_kalman := kalman_update_from_bbox (d_bbox det) frame_dt (tk_kalman tk),
     tk_last_bbox := d_bbox det, tk_confidence := d_confidence det, tk_last_seen := now,
     tk_missed_frames := 0, tk_confirmation_count := saturating_add (tk_confirmation_count tk) 1\<rparr>"

definition predict_only :: "track \<Rightarrow> track" where
  "predict_only tk = tk\<lparr>tk_kalman := kalman_predict frame_dt (tk_kalman tk),
     tk_missed_frames := saturating_add (tk_missed_frames tk) 1\<rparr>"

definition to_state :: "track \<Rightarrow> target_state" where
  "to_state tk = \<lparr>ts_id = tk_id tk, ts_bbox = tk_last_bbox tk,
     ts_velocity = kalman_velocity (tk_kalman tk), ts_confidence = tk_confidence tk,
     ts_last_seen = tk_last_seen tk, ts_missed_frames = tk_missed_frames tk\<rparr>"

section \<open>The tracker\<close>

type_synonym tracks = "target_id \<rightharpoonup> track"
type_synonym tracks_iter = "tracks \<Rightarrow> target_id list"

record multi_tracker =
  mt_tracks :: tracks
  mt_max_target_age_ms :: nat
  mt_max_missed_frames :: u32
  mt_match_iou_threshold :: f32
  mt_lock_confirmation_frames :: u32
  mt_next_id :: target_id
  mt_auto_create_tracks :: bool
  mt_max_tracks :: nat

definition multi_tracker_new :: "nat \<Rightarrow> u32 \<Rightarrow> f32 \<Rightarrow> multi_tracker" where
  "multi_tracker_new max_age max_missed iou =
     \<lparr>mt_tracks = Map.empty, mt_max_target_age_ms = max_age, mt_max_missed_frames = max_missed,
      mt_match_iou_threshold = iou, mt_lock_confirmation_frames = 3, mt_next_id = 1,
      mt_auto_create_tracks = False, mt_max_tracks = 64\<rparr>"

definition multi_tracker_from_common :: "tracker_config \<Rightarrow> multi_tracker" where
  "multi_tracker_from_common cfg = multi_tracker_new (tc_max_target_age_ms cfg)
     (tc_max_missed_frames cfg) (tc_match_iou_threshold cfg)"

definition with_max_tracks :: "nat \<Rightarrow> multi_tracker \<Rightarrow> multi_tracker" where
  "with_max_tracks n t = t\<lparr>mt_max_tracks := max n 1\<rparr>"

definition with_auto_create :: "bool \<Rightarrow> multi_tracker \<Rightarrow> multi_tracker" where
  "with_auto_create enabled t = t\<lparr>mt_auto_create_tracks := enabled\<rparr>"

text \<open>The identifier counter wraps in the release profile.\<close>

definition create_track :: "utc \<Rightarrow> detection \<Rightarrow> multi_tracker \<Rightarrow> target_id \<times> multi_tracker" where
  "create_track now det t =
    (let i = mt_next_id t
     in (i, t\<lparr>mt_next_id := mt_next_id t + 1, mt_tracks := (mt_tracks t)(i \<mapsto> track_new now i det)\<rparr>))"

definition track_count :: "tracks_iter \<Rightarrow> multi_tracker \<Rightarrow> nat" where
  "track_count iter t = length (iter (mt_tracks t))"

text \<open>The loops that create tracks, up to the limit.\<close>

definition admit ::
  "tracks_iter \<Rightarrow> (target_id \<Rightarrow> utc) \<Rightarrow> detection \<Rightarrow> multi_tracker \<Rightarrow> multi_tracker" where
  "admit iter seen det t =
     (if mt_max_tracks t \<le> track_count iter t then t
      else snd (create_track (seen (mt_next_id t)) det t))"

definition bootstrap ::
  "tracks_iter \<Rightarrow> (target_id \<Rightarrow> utc) \<Rightarrow> detection list \<Rightarrow> multi_tracker \<Rightarrow> multi_tracker" where
  "bootstrap iter seen detections t =
     (if mt_auto_create_tracks t then fold (admit iter seen) detections t else t)"

definition create_unmatched ::
  "tracks_iter \<Rightarrow> (target_id \<Rightarrow> utc) \<Rightarrow> nat set \<Rightarrow> detection list \<Rightarrow> multi_tracker \<Rightarrow> multi_tracker" where
  "create_unmatched iter seen matched_detections detections t =
     (if mt_auto_create_tracks t
      then fold (\<lambda>(j, det) t. if j \<in> matched_detections then t else admit iter seen det t)
             (enumerate 0 detections) t
      else t)"

text \<open>\<open>retain\<close>.\<close>

definition track_lost :: "multi_tracker \<Rightarrow> utc \<Rightarrow> track \<Rightarrow> bool" where
  "track_lost t now tk \<longleftrightarrow> mt_max_missed_frames t < tk_missed_frames tk
     \<or> mt_max_target_age_ms t < utc_elapsed_ms now (tk_last_seen tk)"

definition remove_lost_tracks :: "(target_id \<Rightarrow> utc) \<Rightarrow> multi_tracker \<Rightarrow> multi_tracker" where
  "remove_lost_tracks checked t = t\<lparr>mt_tracks := (\<lambda>i. case mt_tracks t i of
     None \<Rightarrow> None | Some tk \<Rightarrow> if track_lost t (checked i) tk then None else Some tk)\<rparr>"

text \<open>\<open>values_mut\<close> with \<open>predict_only\<close>.\<close>

definition age_all :: "multi_tracker \<Rightarrow> multi_tracker" where
  "age_all t = t\<lparr>mt_tracks := (\<lambda>i. map_option predict_only (mt_tracks t i))\<rparr>"

text \<open>\<open>get_mut\<close>.\<close>

definition modify_track :: "target_id \<Rightarrow> (track \<Rightarrow> track) \<Rightarrow> multi_tracker \<Rightarrow> multi_tracker" where
  "modify_track i f t = (case mt_tracks t i of
     None \<Rightarrow> t | Some tk \<Rightarrow> t\<lparr>mt_tracks := (mt_tracks t)(i \<mapsto> f tk)\<rparr>)"

definition cost_matrix :: "target_id list \<Rightarrow> detection list \<Rightarrow> multi_tracker \<Rightarrow> f32 list list" where
  "cost_matrix track_ids detections t =
     map (\<lambda>i. map (\<lambda>det. Fin 1 - bbox_iou (tk_last_bbox (the (mt_tracks t i))) (d_bbox det)) detections)
       track_ids"

record matches =
  mm_tracker :: multi_tracker
  mm_detections :: "nat set"
  mm_tracks :: "target_id set"

definition apply_assignment ::
  "(target_id \<Rightarrow> utc) \<Rightarrow> f32 list list \<Rightarrow> target_id list \<Rightarrow> detection list
    \<Rightarrow> nat \<times> nat option \<Rightarrow> matches \<Rightarrow> matches" where
  "apply_assignment seen costs track_ids detections ia s =
    (case ia of
       (i, None) \<Rightarrow> s
     | (i, Some j) \<Rightarrow>
         let iou = Fin 1 - costs ! i ! j
         in if mt_match_iou_threshold (mm_tracker s) \<le> iou
            then let tid = track_ids ! i
                 in if mt_tracks (mm_tracker s) tid = None then s
                    else s\<lparr>mm_tracker := modify_track tid
                             (update_with_detection (seen tid) (detections ! j)) (mm_tracker s),
                           mm_detections := insert j (mm_detections s),
                           mm_tracks := insert tid (mm_tracks s)\<rparr>
            else s)"

definition age_unmatched :: "target_id set \<Rightarrow> target_id \<Rightarrow> multi_tracker \<Rightarrow> multi_tracker" where
  "age_unmatched matched_tracks tid t =
     (if tid \<in> matched_tracks then t else modify_track tid predict_only t)"

definition multi_update ::
  "tracks_iter \<Rightarrow> (target_id \<Rightarrow> utc) \<Rightarrow> (target_id \<Rightarrow> utc) \<Rightarrow> detection list \<Rightarrow> multi_tracker
    \<Rightarrow> multi_tracker option" where
  "multi_update iter seen checked detections t =
    (if track_count iter t = 0 then Some (bootstrap iter seen detections t)
     else if detections = [] then Some (remove_lost_tracks checked (age_all t))
     else let track_ids = iter (mt_tracks t);
              costs = cost_matrix track_ids detections t
          in case solve costs of
               None \<Rightarrow> None
             | Some assignment \<Rightarrow>
                 let s = fold (apply_assignment seen costs track_ids detections) (enumerate 0 assignment)
                           \<lparr>mm_tracker = t, mm_detections = {}, mm_tracks = {}\<rparr>;
                     t = fold (age_unmatched (mm_tracks s)) track_ids (mm_tracker s);
                     t = create_unmatched iter seen (mm_detections s) detections t
                 in Some (remove_lost_tracks checked t))"

section \<open>Queries and removal\<close>

definition active_tracks :: "tracks_iter \<Rightarrow> multi_tracker \<Rightarrow> target_state list" where
  "active_tracks iter t = map (\<lambda>i. to_state (the (mt_tracks t i))) (iter (mt_tracks t))"

definition get_track :: "target_id \<Rightarrow> multi_tracker \<Rightarrow> target_state option" where
  "get_track i t = map_option to_state (mt_tracks t i)"

definition multi_is_locked :: "target_id \<Rightarrow> multi_tracker \<Rightarrow> bool" where
  "multi_is_locked i t = (case mt_tracks t i of
     None \<Rightarrow> False | Some tk \<Rightarrow> mt_lock_confirmation_frames t \<le> tk_confirmation_count tk)"

definition remove_track :: "target_id \<Rightarrow> multi_tracker \<Rightarrow> bool \<times> multi_tracker" where
  "remove_track i t = (mt_tracks t i \<noteq> None, t\<lparr>mt_tracks := (mt_tracks t)(i := None)\<rparr>)"

definition multi_clear :: "multi_tracker \<Rightarrow> multi_tracker" where
  "multi_clear t = t\<lparr>mt_tracks := Map.empty\<rparr>"

end
