(* ===== verification/Multi_Tracker_Properties.thy ===== *)
theory Multi_Tracker_Properties
  imports Multi_Tracker
begin

text \<open>
  What one frame does to the tracks: every old track is refreshed from the detection the optimal
  assignment gives it, or ages; the number of tracks stays below the limit.
\<close>

section \<open>A concrete iteration order\<close>

definition tracks_order :: tracks_iter where
  "tracks_order m = sorted_list_of_set (dom m)"

interpretation track_order: hash_order tracks_order
  by unfold_locales (simp_all add: tracks_order_def)

section \<open>The limit\<close>

lemma count_card: "hash_order iter \<Longrightarrow> track_count iter t = card (dom (mt_tracks t))"
  by (simp add: track_count_def hash_order.iter_length)

definition limited :: "multi_tracker \<Rightarrow> bool" where
  "limited t \<longleftrightarrow> card (dom (mt_tracks t)) \<le> mt_max_tracks t
     \<and> (\<forall>i tk. mt_tracks t i = Some tk \<longrightarrow> tk_id tk = i)"

lemma limited_shrink:
  assumes "limited t" "dom m \<subseteq> dom (mt_tracks t)"
    and "\<And>i tk. m i = Some tk \<Longrightarrow> tk_id tk = i"
  shows "limited (t\<lparr>mt_tracks := m\<rparr>)"
  using assms card_mono [OF _ assms(2)] by (auto simp: limited_def)

lemma tk_id_simps [simp]:
  "tk_id (update_with_detection now det tk) = tk_id tk" "tk_id (predict_only tk) = tk_id tk"
  "tk_id (track_new now i det) = i"
  by (simp_all add: update_with_detection_def predict_only_def track_new_def split: prod.splits)

lemma limited_modify:
  assumes "limited t" "\<And>tk. tk_id (f tk) = tk_id tk"
  shows "limited (modify_track i f t)"
  unfolding modify_track_def
  using assms(1) by (auto split: option.splits simp: limited_def assms(2) insert_absorb domI)

lemma limited_admit: "hash_order iter \<Longrightarrow> limited t \<Longrightarrow> limited (admit iter seen det t)"
  by (auto simp: admit_def count_card create_track_def Let_def limited_def card_insert_if)

lemma limited_fold: "(\<And>x t. limited t \<Longrightarrow> limited (f x t)) \<Longrightarrow> limited t \<Longrightarrow> limited (fold f xs t)"
  by (induction xs arbitrary: t) auto

lemma limited_bootstrap: "hash_order iter \<Longrightarrow> limited t \<Longrightarrow> limited (bootstrap iter seen ds t)"
  by (simp add: bootstrap_def limited_fold limited_admit)

lemma limited_create_unmatched:
  "hash_order iter \<Longrightarrow> limited t \<Longrightarrow> limited (create_unmatched iter seen M ds t)"
  by (auto simp: create_unmatched_def intro!: limited_fold limited_admit)

lemma limited_remove_lost: "limited t \<Longrightarrow> limited (remove_lost_tracks checked t)"
  unfolding remove_lost_tracks_def
  by (rule limited_shrink) (auto simp: limited_def split: option.splits if_splits)

lemma limited_age_all: "limited t \<Longrightarrow> limited (age_all t)"
  unfolding age_all_def
  by (rule limited_shrink) (auto simp: limited_def)

lemma limited_apply:
  "limited (mm_tracker s) \<Longrightarrow> limited (mm_tracker (apply_assignment seen costs ids ds ia s))"
  by (auto simp: apply_assignment_def Let_def limited_modify split: prod.splits option.splits)

lemma limited_apply_fold:
  "limited (mm_tracker s) \<Longrightarrow> limited (mm_tracker (fold (apply_assignment seen costs ids ds) xs s))"
  by (induction xs arbitrary: s) (auto simp: limited_apply)

lemma limited_age_unmatched: "limited t \<Longrightarrow> limited (age_unmatched M i t)"
  by (simp add: age_unmatched_def limited_modify)

section \<open>One frame, track by track\<close>

text \<open>The detection the assignment gives to the track at position \<open>i\<close>, if its overlap suffices.\<close>

definition accepted :: "f32 \<Rightarrow> f32 list list \<Rightarrow> nat option list \<Rightarrow> nat \<Rightarrow> nat option" where
  "accepted thr costs a i = (case a ! i of None \<Rightarrow> None
     | Some j \<Rightarrow> if thr \<le> Fin 1 - costs ! i ! j then Some j else None)"

definition refreshed :: "utc \<Rightarrow> detection list \<Rightarrow> nat option \<Rightarrow> track \<Rightarrow> track" where
  "refreshed now detections k tk = (case k of None \<Rightarrow> predict_only tk
     | Some j \<Rightarrow> update_with_detection now (detections ! j) tk)"

lemma enumerate_upt: "enumerate 0 xs = map (\<lambda>i. (i, xs ! i)) [0..<length xs]"
  by (rule nth_equalityI) (simp_all add: nth_enumerate_eq)

lemma apply_fold:
  assumes "k \<le> length ids" "distinct ids" "set ids = dom (mt_tracks t)"
    and "s = fold (\<lambda>i. apply_assignment seen costs ids ds (i, a ! i)) [0..<k]
       \<lparr>mm_tracker = t, mm_detections = {}, mm_tracks = {}\<rparr>"
  defines "acc \<equiv> accepted (mt_match_iou_threshold t) costs a"
  shows "(\<exists>m. mm_tracker s = t\<lparr>mt_tracks := m\<rparr>)
    \<and> dom (mt_tracks (mm_tracker s)) = dom (mt_tracks t)
    \<and> (\<forall>i<length ids. mt_tracks (mm_tracker s) (ids ! i) = (if i < k then
         map_option (\<lambda>tk. case acc i of None \<Rightarrow> tk | Some j \<Rightarrow> update_with_detection (seen (ids ! i)) (ds ! j) tk)
           (mt_tracks t (ids ! i)) else mt_tracks t (ids ! i)))
    \<and> (\<forall>i<length ids. ids ! i \<in> mm_tracks s \<longleftrightarrow> i < k \<and> acc i \<noteq> None)
    \<and> mm_detections s = {j. \<exists>i<k. acc i = Some j}"
  using assms(1,4)
proof (induction k arbitrary: s)
  case 0
  then show ?case by (auto intro: exI [of _ "mt_tracks t"])
next
  case (Suc k)
  define r where "r = fold (\<lambda>i. apply_assignment seen costs ids ds (i, a ! i)) [0..<k]
    \<lparr>mm_tracker = t, mm_detections = {}, mm_tracks = {}\<rparr>"
  have k: "k \<le> length ids" "k < length ids" using Suc.prems(1) by simp_all
  note IH = Suc.IH [OF k(1) r_def]
  have s: "s = apply_assignment seen costs ids ds (k, a ! k) r" by (simp add: Suc.prems(2) r_def)
  obtain m where m: "mm_tracker r = t\<lparr>mt_tracks := m\<rparr>" using IH by blast
  then have thr: "mt_match_iou_threshold (mm_tracker r) = mt_match_iou_threshold t" by simp
  have eq: "ids ! i = ids ! k \<longleftrightarrow> i = k" if "i < length ids" for i
    using that k(2) assms(2) by (simp add: nth_eq_iff_index_eq)
  have some: "mt_tracks (mm_tracker r) (ids ! k) = mt_tracks t (ids ! k)" "mt_tracks t (ids ! k) \<noteq> None"
    using IH k(2) assms(3) nth_mem [OF k(2)] by auto
  show ?case
  proof (cases "acc k")
    case None
    then have "s = r" using s some thr by (auto simp: apply_assignment_def acc_def accepted_def Let_def
          split: option.splits if_splits)
    then show ?thesis using IH None by (auto simp: less_Suc_eq option.map_ident)
  next
    case (Some j)
    obtain tk where tk: "mt_tracks t (ids ! k) = Some tk" using some(2) by blast
    have s': "s = r\<lparr>mm_tracker := (mm_tracker r)\<lparr>mt_tracks := (mt_tracks (mm_tracker r))(ids ! k
            \<mapsto> update_with_detection (seen (ids ! k)) (ds ! j) tk)\<rparr>,
        mm_detections := insert j (mm_detections r), mm_tracks := insert (ids ! k) (mm_tracks r)\<rparr>"
      using s some tk thr Some by (auto simp: apply_assignment_def acc_def accepted_def Let_def modify_track_def
          split: option.splits if_splits)
    have "\<exists>m. mm_tracker s = t\<lparr>mt_tracks := m\<rparr>" by (simp add: s' m) blast
    moreover have "dom (mt_tracks (mm_tracker s)) = dom (mt_tracks t)"
      using IH tk by (auto simp: s')
    moreover have "\<forall>i<length ids. mt_tracks (mm_tracker s) (ids ! i) = (if i < Suc k then
         map_option (\<lambda>tk. case acc i of None \<Rightarrow> tk | Some j \<Rightarrow> update_with_detection (seen (ids ! i)) (ds ! j) tk)
           (mt_tracks t (ids ! i)) else mt_tracks t (ids ! i))"
      using IH eq tk Some k(2) by (simp add: s' less_Suc_eq)
    moreover have "\<forall>i<length ids. ids ! i \<in> mm_tracks s \<longleftrightarrow> i < Suc k \<and> acc i \<noteq> None"
      using IH eq Some k(2) by (auto simp: s' less_Suc_eq)
    moreover have "mm_detections s = {j. \<exists>i<Suc k. acc i = Some j}"
      using IH Some by (auto simp: s' less_Suc_eq)
    ultimately show ?thesis by blast
  qed
qed

lemma modify_track_apply:
  "mt_tracks (modify_track i f t) j = (if j = i then map_option f (mt_tracks t i) else mt_tracks t j)"
  by (auto simp: modify_track_def split: option.splits)

lemma modify_track_frame: "\<exists>m. modify_track i f t = t\<lparr>mt_tracks := m\<rparr>"
  by (cases "mt_tracks t i") (auto simp: modify_track_def intro: exI [of _ "mt_tracks t"])

lemma age_fold:
  assumes "distinct ids"
  shows "mt_tracks (fold (age_unmatched M) ids t) j
    = (if j \<in> set ids - M then map_option predict_only (mt_tracks t j) else mt_tracks t j)"
  using assms by (induction ids arbitrary: t) (auto simp: age_unmatched_def modify_track_apply)

lemma age_frame: "\<exists>m. fold (age_unmatched M) ids t = t\<lparr>mt_tracks := m\<rparr>"
proof (induction ids arbitrary: t)
  case Nil
  then show ?case by (auto intro: exI [of _ "mt_tracks t"])
next
  case (Cons i ids)
  have "\<exists>m. age_unmatched M i t = t\<lparr>mt_tracks := m\<rparr>"
    using modify_track_frame by (auto simp: age_unmatched_def intro: exI [of _ "mt_tracks t"])
  then obtain m where m: "age_unmatched M i t = t\<lparr>mt_tracks := m\<rparr>" by blast
  obtain n where "fold (age_unmatched M) ids (t\<lparr>mt_tracks := m\<rparr>) = t\<lparr>mt_tracks := m\<rparr>\<lparr>mt_tracks := n\<rparr>"
    using Cons by blast
  then show ?case using m by (auto intro: exI [of _ n])
qed

section \<open>Creation leaves the old tracks\<close>

definition fresh_ids :: "multi_tracker \<Rightarrow> nat \<Rightarrow> bool" where
  "fresh_ids t n \<longleftrightarrow> (\<forall>i\<in>dom (mt_tracks t). unat i < unat (mt_next_id t)) \<and> unat (mt_next_id t) + n < 2 ^ 64"

lemma admit_old:
  assumes "unat i < unat (mt_next_id t)" "unat (mt_next_id t) + Suc n < 2 ^ 64"
  shows "mt_tracks (admit iter seen det t) i = mt_tracks t i"
    "unat i < unat (mt_next_id (admit iter seen det t))"
    "unat (mt_next_id (admit iter seen det t)) + n < 2 ^ 64"
proof -
  have "unat (mt_next_id t + 1) = Suc (unat (mt_next_id t))"
    using assms(2) by (subst unat_word_ariths) simp
  then show "mt_tracks (admit iter seen det t) i = mt_tracks t i"
    "unat i < unat (mt_next_id (admit iter seen det t))"
    "unat (mt_next_id (admit iter seen det t)) + n < 2 ^ 64"
    using assms by (auto simp: admit_def create_track_def Let_def)
qed

lemma create_fold_old:
  assumes "unat i < unat (mt_next_id t)" "unat (mt_next_id t) + length xs < 2 ^ 64"
  shows "mt_tracks (fold (\<lambda>(j, det) t. if j \<in> M then t else admit iter seen det t) xs t) i = mt_tracks t i"
  using assms
proof (induction xs arbitrary: t)
  case (Cons x xs)
  have "unat (mt_next_id t) + Suc (length xs) < 2 ^ 64" using Cons.prems(2) by simp
  note a = admit_old [OF Cons.prems(1) this, of iter seen "snd x"]
  show ?case using Cons a by (cases x) simp
qed simp

lemma create_unmatched_old:
  assumes "unat i < unat (mt_next_id t)" "unat (mt_next_id t) + length ds < 2 ^ 64"
  shows "mt_tracks (create_unmatched iter seen M ds t) i = mt_tracks t i"
  using assms by (simp add: create_unmatched_def create_fold_old)

text \<open>The limits are not changed.\<close>

definition limits :: "multi_tracker \<Rightarrow> u32 \<times> nat \<times> nat \<times> u32" where
  "limits t = (mt_max_missed_frames t, mt_max_target_age_ms t, mt_max_tracks t,
     mt_lock_confirmation_frames t)"

lemma limits_admit [simp]: "limits (admit iter seen det t) = limits t"
  by (simp add: limits_def admit_def create_track_def Let_def)

lemma limits_fold: "(\<And>x t. limits (f x t) = limits t) \<Longrightarrow> limits (fold f xs t) = limits t"
  by (induction xs arbitrary: t) simp_all

lemma limits_create: "limits (create_unmatched iter seen M ds t) = limits t"
  unfolding create_unmatched_def by (auto intro!: limits_fold)

lemma track_lost_limits: "limits t = limits t' \<Longrightarrow> track_lost t = track_lost t'"
  by (auto simp: limits_def track_lost_def fun_eq_iff)

lemma cost_matrix_ok:
  assumes "\<forall>i\<in>set ids. in_4k (tk_last_bbox (the (mt_tracks t i)))" "\<forall>d\<in>set ds. in_4k (d_bbox d)"
  shows "costs_ok (length ids) (length ds) (cost_matrix ids ds t)"
  using assms overlap_cost_entry by (auto simp: costs_ok_def cost_matrix_def)

section \<open>Properties\<close>

text \<open>C7: one frame on boxes of a 4K image always ends; the assignment it uses is valid and of
  least total cost, and every old track is refreshed from the detection the assignment gives it
  if their overlap reaches the threshold, ages by one frame otherwise, and is dropped exactly
  when it is then lost.\<close>

theorem multi_update_frame:
  assumes o: "hash_order iter" and ne: "mt_tracks t \<noteq> Map.empty" "ds \<noteq> []"
    and box: "\<forall>tk\<in>ran (mt_tracks t). in_4k (tk_last_bbox tk)" "\<forall>d\<in>set ds. in_4k (d_bbox d)"
    and fresh: "fresh_ids t (length ds)"
  shows "\<exists>a t'. multi_update iter seen checked ds t = Some t'
    \<and> valid_assignment (length (iter (mt_tracks t))) (length ds) a
    \<and> matched a = min (length (iter (mt_tracks t))) (length ds)
    \<and> (\<forall>b. valid_assignment (length (iter (mt_tracks t))) (length ds) b \<longrightarrow> matched b = matched a \<longrightarrow>
         total_cost (cost_matrix (iter (mt_tracks t)) ds t) a
         \<le> total_cost (cost_matrix (iter (mt_tracks t)) ds t) b)
    \<and> (\<forall>i<length (iter (mt_tracks t)). mt_tracks t' (iter (mt_tracks t) ! i) =
         (let tid = iter (mt_tracks t) ! i;
              tk = refreshed (seen tid) ds (accepted (mt_match_iou_threshold t)
                     (cost_matrix (iter (mt_tracks t)) ds t) a i) (the (mt_tracks t tid))
          in if track_lost t (checked tid) tk then None else Some tk))"
proof -
  define ids where "ids = iter (mt_tracks t)"
  define costs where "costs = cost_matrix ids ds t"
  have ids: "set ids = dom (mt_tracks t)" "distinct ids"
    using hash_order.iter_set [OF o] hash_order.iter_distinct [OF o] by (simp_all add: ids_def)
  have ne': "ids \<noteq> []" using ids(1) ne(1) by (metis dom_eq_empty_conv set_empty)
  have "\<forall>i\<in>set ids. in_4k (tk_last_bbox (the (mt_tracks t i)))"
    using box(1) ids(1) by (auto simp: ran_def)
  then have c: "costs_ok (length ids) (length ds) costs"
    unfolding costs_def by (rule cost_matrix_ok [OF _ box(2)])
  obtain a where a: "solve costs = Some a" "valid_assignment (length ids) (length ds) a"
    "matched a = min (length ids) (length ds)"
    "\<forall>b. valid_assignment (length ids) (length ds) b \<longrightarrow> matched b = min (length ids) (length ds)
       \<longrightarrow> total_cost costs a \<le> total_cost costs b"
    using solve_least [OF c] ne' ne(2) by auto
  define acc where "acc = accepted (mt_match_iou_threshold t) costs a"
  define s where "s = fold (\<lambda>i. apply_assignment seen costs ids ds (i, a ! i)) [0..<length ids]
    \<lparr>mm_tracker = t, mm_detections = {}, mm_tracks = {}\<rparr>"
  define u where "u = fold (age_unmatched (mm_tracks s)) ids (mm_tracker s)"
  define w where "w = create_unmatched iter seen (mm_detections s) ds u"
  have la: "length a = length ids" using a(2) by (simp add: valid_assignment_def)
  then have upd: "multi_update iter seen checked ds t = Some (remove_lost_tracks checked w)"
    using a(1) ne' ne(2) by (simp add: multi_update_def track_count_def Let_def ids_def [symmetric]
        costs_def [symmetric] enumerate_upt fold_map comp_def s_def [symmetric] u_def [symmetric] w_def [symmetric])
  note ap = apply_fold [OF order.refl ids(2,1) s_def, folded acc_def]
  obtain m where m: "mm_tracker s = t\<lparr>mt_tracks := m\<rparr>" using ap by blast
  obtain n where n: "u = t\<lparr>mt_tracks := n\<rparr>" using age_frame [of "mm_tracks s" ids "mm_tracker s"] by (auto simp: u_def m)
  have "mt_tracks w (ids ! i) = Some (refreshed (seen (ids ! i)) ds (acc i) (the (mt_tracks t (ids ! i))))"
    if i: "i < length ids" for i
  proof -
    have dom: "ids ! i \<in> dom (mt_tracks t)" using ids(1) nth_mem [OF i] by blast
    have "unat (ids ! i) < unat (mt_next_id u)" "unat (mt_next_id u) + length ds < 2 ^ 64"
      using fresh dom by (auto simp: n fresh_ids_def)
    then have "mt_tracks w (ids ! i) = mt_tracks u (ids ! i)" unfolding w_def by (rule create_unmatched_old)
    also have "\<dots> = Some (refreshed (seen (ids ! i)) ds (acc i) (the (mt_tracks t (ids ! i))))"
      using ap dom i unfolding u_def age_fold [OF ids(2)] by (auto simp: refreshed_def split: option.splits)
    finally show ?thesis .
  qed
  moreover have "track_lost w = track_lost t"
    by (rule track_lost_limits) (simp add: w_def limits_create, simp add: n limits_def)
  ultimately have "\<forall>i<length ids. mt_tracks (remove_lost_tracks checked w) (ids ! i)
      = (let tid = ids ! i; tk = refreshed (seen tid) ds (acc i) (the (mt_tracks t tid))
         in if track_lost t (checked tid) tk then None else Some tk)"
    by (simp add: remove_lost_tracks_def Let_def)
  then show ?thesis using upd a(2-4) unfolding ids_def [symmetric] costs_def [symmetric] acc_def
    by metis
qed

definition sample_box :: "u32 \<Rightarrow> detection" where
  "sample_box x = \<lparr>d_bbox = \<lparr>b_x = x, b_y = 100, b_width = 50, b_height = 80\<rparr>,
     d_class = ''person'', d_class_id = 0, d_confidence = Fin (1 / 2), d_frame_seq = 1, d_detected_at = 0\<rparr>"

definition sample_tracker :: multi_tracker where
  "sample_tracker = snd (create_track 0 (sample_box 300)
     (snd (create_track 0 (sample_box 100) (with_auto_create True (multi_tracker_new 2000 60 (Fin (1 / 4)))))))"

lemma sample_tracks: "mt_tracks sample_tracker
    = [1 \<mapsto> track_new 0 1 (sample_box 100), 2 \<mapsto> track_new 0 2 (sample_box 300)]"
  "mt_next_id sample_tracker = 3" "mt_max_tracks sample_tracker = 64"
  by (simp_all add: sample_tracker_def create_track_def Let_def with_auto_create_def multi_tracker_new_def)

theorem multi_update_frame_witness:
  "\<exists>t'. multi_update tracks_order (\<lambda>_. 33000000) (\<lambda>_. 34000000) [sample_box 310, sample_box 700] sample_tracker = Some t'"
proof -
  have "mt_tracks sample_tracker \<noteq> Map.empty" by (simp add: sample_tracks)
  moreover have "\<forall>tk\<in>ran (mt_tracks sample_tracker). in_4k (tk_last_bbox tk)"
    by (simp add: sample_tracks ran_map_upd track_new_def sample_box_def in_4k_def split: prod.splits)
  moreover have "\<forall>d\<in>set [sample_box 310, sample_box 700]. in_4k (d_bbox d)"
    by (simp add: sample_box_def in_4k_def)
  moreover have "fresh_ids sample_tracker (length [sample_box 310, sample_box 700])"
    by (simp add: fresh_ids_def sample_tracks)
  ultimately show ?thesis
    using multi_update_frame [OF track_order.hash_order_axioms, of sample_tracker "[sample_box 310, sample_box 700]"]
    by blast
qed

lemma limited_multi_update:
  assumes "hash_order iter" "limited t" "multi_update iter seen checked ds t = Some t'"
  shows "limited t'"
proof -
  have "limited (remove_lost_tracks checked (create_unmatched iter seen (mm_detections s) ds
      (fold (age_unmatched (mm_tracks s)) ids (mm_tracker s))))"
    if "s = fold (apply_assignment seen costs ids ds) xs \<lparr>mm_tracker = t, mm_detections = {}, mm_tracks = {}\<rparr>"
    for s costs ids xs
    unfolding that using assms(1,2)
    by (intro limited_remove_lost limited_create_unmatched limited_fold limited_age_unmatched
        limited_apply_fold) simp_all
  then show ?thesis using assms
    by (auto simp: multi_update_def Let_def limited_bootstrap limited_remove_lost limited_age_all
        split: if_splits option.splits)
qed

text \<open>C38: no frame makes the tracks more than the limit, and every track stays under its own
  identifier.\<close>

theorem multi_update_limited:
  assumes "hash_order iter" "limited t" "multi_update iter seen checked ds t = Some t'"
  shows "limited t'"
  by (rule limited_multi_update [OF assms])

theorem multi_update_limited_witness:
  "\<exists>t'. multi_update tracks_order (\<lambda>_. 33000000) (\<lambda>_. 34000000) [] sample_tracker = Some t' \<and> limited t'"
proof -
  have l: "limited sample_tracker" by (simp add: limited_def sample_tracks split: if_splits)
  have "\<exists>t'. multi_update tracks_order (\<lambda>_. 33000000) (\<lambda>_. 34000000) [] sample_tracker = Some t'"
    by (simp add: multi_update_def)
  then show ?thesis using multi_update_limited [OF track_order.hash_order_axioms l] by blast
qed

end
