(* ===== verification/Tracker_Component.thy ===== *)
theory Tracker_Component
  imports Multi_Tracker_Properties Event_Bus
begin

text \<open>
  \<open>crates/tracker/src/lib.rs\<close>: the component between the detections and the tracks of the bus.
  One iteration of its loop is \<open>tracker_tick\<close>; what the subscription delivers, whether a message
  goes out and the clock readings are its inputs.
\<close>

section \<open>Configuration and status\<close>

datatype component_error =
    ComponentBus bus_error
  | ComponentInvalidConfig string

record component_config =
  cc_bus :: string
  cc_max_target_age_ms :: nat
  cc_max_missed_frames :: u32
  cc_match_iou_threshold :: f32
  cc_locked_only :: bool
  cc_status_interval :: duration
  cc_max_duration :: "duration option"
  cc_quiet_timeout :: "duration option"

definition component_config_default :: component_config where
  "component_config_default = \<lparr>cc_bus = ''tcp/127.0.0.1:7447'', cc_max_target_age_ms = 2000,
     cc_max_missed_frames = 60, cc_match_iou_threshold = lit (3 / 10), cc_locked_only = False,
     cc_status_interval = from_secs 5, cc_max_duration = None, cc_quiet_timeout = None\<rparr>"

record tracker_status =
  st_v :: u8
  st_frames_in :: u64
  st_tracks_published :: u64
  st_active_tracks :: nat
  st_fps :: f32

record metrics =
  window_start :: instant
  window_frames :: u64

definition metrics_new :: "instant \<Rightarrow> metrics" where
  "metrics_new now = \<lparr>window_start = now, window_frames = 0\<rparr>"

definition metrics_bump :: "metrics \<Rightarrow> metrics" where
  "metrics_bump m = m\<lparr>window_frames := window_frames m + 1\<rparr>"

definition metrics_fps :: "instant \<Rightarrow> instant \<Rightarrow> metrics \<Rightarrow> f32 \<times> metrics" where
  "metrics_fps now restart m =
    (let secs = as_secs_f32 (now - window_start m);
         fps = (if Fin 0 < secs then fl_of_nat (unat (window_frames m)) / secs else Fin 0)
     in (fps, \<lparr>window_start = restart, window_frames = 0\<rparr>))"

definition component_new :: "component_config \<Rightarrow> (component_error, component_config) result" where
  "component_new cfg =
    (if \<not> (Fin 0 \<le> cc_match_iou_threshold cfg \<and> cc_match_iou_threshold cfg \<le> Fin 1)
     then Inl (ComponentInvalidConfig ''iou threshold'') else Inr cfg)"

section \<open>The loop\<close>

record component_state =
  co_tracker :: multi_tracker
  co_frames_in :: u64
  co_tracks_published :: u64
  co_metrics :: metrics
  co_last_det :: instant
  co_last_status :: instant

definition component_start :: "component_config \<Rightarrow> instant \<Rightarrow> instant \<Rightarrow> instant \<Rightarrow> component_state" where
  "component_start cfg metrics_now det_now status_now =
     \<lparr>co_tracker = with_auto_create True (with_max_tracks 64
        (multi_tracker_new (cc_max_target_age_ms cfg) (cc_max_missed_frames cfg) (cc_match_iou_threshold cfg))),
      co_frames_in = 0, co_tracks_published = 0, co_metrics = metrics_new metrics_now,
      co_last_det = det_now, co_last_status = status_now\<rparr>"

text \<open>
  One iteration reads the time since the start and since the last detection, waits for a
  message, and reads the clock for the frame, the status and its frame rate.
\<close>

record tracker_input =
  in_started :: duration
  in_quiet :: instant
  in_event :: "bus_error + detections_frame"
  in_det :: instant
  in_seen :: "target_id \<Rightarrow> utc"
  in_checked :: "target_id \<Rightarrow> utc"
  in_publish_ok :: "track_msg \<Rightarrow> bool"
  in_status :: instant
  in_fps :: instant
  in_window :: instant
  in_status_done :: instant

definition track_class :: "detection list \<Rightarrow> string" where
  "track_class detections =
     (case max_by_last d_confidence detections of None \<Rightarrow> [] | Some d \<Rightarrow> d_class d)"

definition track_msg_of :: "u64 \<Rightarrow> detection list \<Rightarrow> target_state \<Rightarrow> track_msg" where
  "track_msg_of frame_seq detections t =
     \<lparr>tm_v = contract_version, tm_track_id = ts_id t, tm_frame_seq = frame_seq, tm_bbox = ts_bbox t,
      tm_vx = fst (ts_velocity t), tm_vy = snd (ts_velocity t), tm_class = track_class detections,
      tm_class_id = 0, tm_confidence = ts_confidence t, tm_age = ts_missed_frames t,
      tm_misses = ts_missed_frames t\<rparr>"

definition track_msgs ::
  "component_config \<Rightarrow> tracks_iter \<Rightarrow> detections_frame \<Rightarrow> multi_tracker \<Rightarrow> track_msg list" where
  "track_msgs cfg iter frame mt =
     map (track_msg_of (df_frame_seq frame) (df_detections frame))
       (filter (\<lambda>t. \<not> (cc_locked_only cfg \<and> \<not> multi_is_locked (ts_id t) mt)) (active_tracks iter mt))"

definition component_status ::
  "tracks_iter \<Rightarrow> tracker_input \<Rightarrow> component_state \<Rightarrow> tracker_status \<times> component_state" where
  "component_status iter ti s =
    (case metrics_fps (in_fps ti) (in_window ti) (co_metrics s) of (fps, m) \<Rightarrow>
      (\<lparr>st_v = contract_version, st_frames_in = co_frames_in s, st_tracks_published = co_tracks_published s,
        st_active_tracks = track_count iter (co_tracker s), st_fps = fps\<rparr>,
       s\<lparr>co_metrics := m, co_last_status := in_status_done ti\<rparr>))"

definition status_if_due ::
  "component_config \<Rightarrow> tracks_iter \<Rightarrow> tracker_input \<Rightarrow> component_state
    \<Rightarrow> tracker_status option \<times> component_state" where
  "status_if_due cfg iter ti s =
    (if cc_status_interval cfg \<le> in_status ti - co_last_status s
     then map_prod Some id (component_status iter ti s) else (None, s))"

text \<open>
  \<open>Proceed\<close> carries the messages that went out and the status; \<open>Quit\<close> is the regular end,
  \<open>Fail\<close> an error of the bus, and \<open>Stuck\<close> an assignment that does not end.
\<close>

datatype tick_outcome =
    Proceed component_state "track_msg list" "tracker_status option"
  | Quit
  | Fail component_error
  | Stuck

definition tracker_tick ::
  "component_config \<Rightarrow> tracks_iter \<Rightarrow> tracker_input \<Rightarrow> component_state \<Rightarrow> tick_outcome" where
  "tracker_tick cfg iter ti s =
    (if (case cc_max_duration cfg of None \<Rightarrow> False | Some d \<Rightarrow> d \<le> in_started ti) then Quit
     else if (case cc_quiet_timeout cfg of None \<Rightarrow> False
              | Some q \<Rightarrow> 0 < co_frames_in s \<and> q \<le> in_quiet ti - co_last_det s) then Quit
     else case in_event ti of
       Inl BusTimeout \<Rightarrow> (case status_if_due cfg iter ti s of (st, s) \<Rightarrow> Proceed s [] st)
     | Inl e \<Rightarrow> Fail (ComponentBus e)
     | Inr frame \<Rightarrow>
        (let s = s\<lparr>co_last_det := in_det ti, co_frames_in := co_frames_in s + 1,
                   co_metrics := metrics_bump (co_metrics s)\<rparr>
         in case multi_update iter (in_seen ti) (in_checked ti) (df_detections frame) (co_tracker s) of
              None \<Rightarrow> Stuck
            | Some mt \<Rightarrow>
                let sent = filter (in_publish_ok ti) (track_msgs cfg iter frame mt);
                    s = s\<lparr>co_tracker := mt,
                          co_tracks_published := co_tracks_published s + of_nat (length sent)\<rparr>
                in case status_if_due cfg iter ti s of (st, s) \<Rightarrow> Proceed s sent st))"

text \<open>The loop over its inputs; the final status has no frame rate.\<close>

definition final_status :: "tracks_iter \<Rightarrow> component_state \<Rightarrow> tracker_status" where
  "final_status iter s =
     \<lparr>st_v = contract_version, st_frames_in = co_frames_in s, st_tracks_published = co_tracks_published s,
      st_active_tracks = track_count iter (co_tracker s), st_fps = Fin 0\<rparr>"

fun tracker_run ::
  "component_config \<Rightarrow> tracks_iter \<Rightarrow> tracker_input list \<Rightarrow> component_state \<Rightarrow> tick_outcome" where
  "tracker_run cfg iter [] s = Proceed s [] None"
| "tracker_run cfg iter (ti # tis) s =
    (case tracker_tick cfg iter ti s of
       Proceed s' sent st \<Rightarrow>
         (case tracker_run cfg iter tis s' of
            Proceed s'' sent' st' \<Rightarrow> Proceed s'' (sent @ sent') (if tis = [] then st else st')
          | r \<Rightarrow> r)
     | Quit \<Rightarrow> Proceed s [] (Some (final_status iter s))
     | r \<Rightarrow> r)"

definition detections_to_frame :: "utc \<Rightarrow> u64 \<Rightarrow> detection list \<Rightarrow> detections_frame" where
  "detections_to_frame now frame_seq detections =
     \<lparr>df_frame_seq = frame_seq, df_captured_at = now, df_detections = detections,
      df_frame_w = 0, df_frame_h = 0\<rparr>"

section \<open>Properties\<close>

lemma limits_multi_update:
  "multi_update iter seen checked ds t = Some t' \<Longrightarrow> limits t' = limits t"
proof -
  have m: "limits (modify_track i f u) = limits u" for i f u
    by (simp add: modify_track_def limits_def split: option.splits)
  have a: "limits (mm_tracker (apply_assignment sn c ids ds x s)) = limits (mm_tracker s)" for sn c ids x s
    by (auto simp: apply_assignment_def Let_def m split: prod.splits option.splits)
  have f: "limits (mm_tracker (fold (apply_assignment sn c ids ds) xs s)) = limits (mm_tracker s)" for sn c ids xs s
    by (induction xs arbitrary: s) (simp_all add: a)
  have r: "limits (remove_lost_tracks ch u) = limits u" "limits (age_all u) = limits u" for ch u
    by (simp_all add: remove_lost_tracks_def age_all_def limits_def)
  have g: "limits (fold (age_unmatched M) xs u) = limits u" for M xs u
    by (rule limits_fold) (simp add: age_unmatched_def m)
  have b: "limits (bootstrap iter seen ds u) = limits u" for u
    by (simp add: bootstrap_def limits_fold)
  assume "multi_update iter seen checked ds t = Some t'"
  then show ?thesis
    by (auto simp: multi_update_def Let_def f g r b limits_create split: if_splits option.splits)
qed

lemma status_tracker: "status_if_due cfg iter ti s = (st, s') \<Longrightarrow> co_tracker s' = co_tracker s"
  by (auto simp: status_if_due_def component_status_def split: if_splits prod.splits)

lemma active_track_ids: "limited t \<Longrightarrow> hash_order iter \<Longrightarrow> map ts_id (active_tracks iter t) = iter (mt_tracks t)"
  by (auto simp: active_tracks_def to_state_def limited_def hash_order.iter_set intro!: map_idI)

text \<open>The states of the loop: from the start, by iterations that go on.\<close>

inductive component_reaches :: "component_config \<Rightarrow> tracks_iter \<Rightarrow> component_state \<Rightarrow> bool" where
  reach_start: "component_reaches cfg iter (component_start cfg m d st)"
| reach_tick: "component_reaches cfg iter s \<Longrightarrow> tracker_tick cfg iter ti s = Proceed s' sent st
    \<Longrightarrow> component_reaches cfg iter s'"

lemma tick_tracker:
  assumes "tracker_tick cfg iter ti s = Proceed s' sent st"
  obtains "co_tracker s' = co_tracker s" "sent = []"
  | frame where "multi_update iter (in_seen ti) (in_checked ti) (df_detections frame) (co_tracker s) = Some (co_tracker s')"
      "sent = filter (in_publish_ok ti) (track_msgs cfg iter frame (co_tracker s'))"
  using assms status_tracker
  by (fastforce simp: tracker_tick_def Let_def split: if_splits sum.splits bus_error.splits option.splits prod.splits)

definition component_ok :: "component_state \<Rightarrow> bool" where
  "component_ok s \<longleftrightarrow> limited (co_tracker s) \<and> mt_max_tracks (co_tracker s) = 64
     \<and> mt_lock_confirmation_frames (co_tracker s) = 3"

lemma component_ok_tick:
  assumes "hash_order iter" "component_ok s" "tracker_tick cfg iter ti s = Proceed s' sent st"
  shows "component_ok s'"
  using assms(3)
proof (cases rule: tick_tracker)
  case 1
  then show ?thesis using assms(2) by (simp add: component_ok_def)
next
  case (2 frame)
  then show ?thesis
    using limited_multi_update [OF assms(1) _ 2(1)] limits_multi_update [OF 2(1)] assms(2)
    by (simp add: component_ok_def limits_def)
qed

lemma component_reaches_ok: "component_reaches cfg iter s \<Longrightarrow> hash_order iter \<Longrightarrow> component_ok s"
proof (induction rule: component_reaches.induct)
  case reach_start
  then show ?case
    by (simp add: component_ok_def component_start_def with_auto_create_def with_max_tracks_def
        multi_tracker_new_def limited_def)
next
  case reach_tick
  then show ?case using component_ok_tick by blast
qed

text \<open>In every iteration the component holds at most 64 tracks and publishes at most one
  message per track, with the box of the track; with \<open>locked_only\<close> only tracks that were
  confirmed three times.\<close>

lemma component_publishes:
  assumes "component_reaches cfg iter s" "hash_order iter"
    and "tracker_tick cfg iter ti s = Proceed s' sent st"
  shows "card (dom (mt_tracks (co_tracker s'))) \<le> 64 \<and> length sent \<le> 64 \<and> distinct (map tm_track_id sent)
    \<and> (\<forall>m\<in>set sent. \<exists>tk. mt_tracks (co_tracker s') (tm_track_id m) = Some tk \<and> tm_bbox m = tk_last_bbox tk
         \<and> (cc_locked_only cfg \<longrightarrow> 3 \<le> tk_confirmation_count tk))"
proof -
  have ok: "component_ok s'" using component_ok_tick [OF assms(2) component_reaches_ok [OF assms(1,2)] assms(3)] .
  then have c: "card (dom (mt_tracks (co_tracker s'))) \<le> 64" and l: "limited (co_tracker s')"
    and k: "mt_lock_confirmation_frames (co_tracker s') = 3"
    by (simp_all add: component_ok_def limited_def)
  from assms(3) show ?thesis
  proof (cases rule: tick_tracker)
    case 1
    then show ?thesis using c by simp
  next
    case (2 frame)
    let ?mt = "co_tracker s'"
    have msg: "tm_track_id (track_msg_of n ds t) = ts_id t" "tm_bbox (track_msg_of n ds t) = ts_bbox t" for n ds t
      by (simp_all add: track_msg_of_def)
    have ids: "map ts_id (active_tracks iter ?mt) = iter (mt_tracks ?mt)" by (rule active_track_ids [OF l assms(2)])
    have d: "distinct (map ts_id (active_tracks iter ?mt))"
      unfolding ids using hash_order.iter_distinct [OF assms(2)] by simp
    have "distinct (map tm_track_id (track_msgs cfg iter frame ?mt))"
      using d unfolding track_msgs_def by (simp add: comp_def msg distinct_map inj_on_def)
    then have dist: "distinct (map tm_track_id sent)" unfolding 2(2) by (simp add: distinct_map inj_on_def)
    have cur: "\<exists>tk. mt_tracks ?mt (tm_track_id m) = Some tk \<and> tm_bbox m = tk_last_bbox tk
         \<and> (cc_locked_only cfg \<longrightarrow> 3 \<le> tk_confirmation_count tk)" if m: "m \<in> set sent" for m
    proof -
      obtain t where t: "t \<in> set (active_tracks iter ?mt)" "tm_track_id m = ts_id t" "tm_bbox m = ts_bbox t"
        "cc_locked_only cfg \<longrightarrow> multi_is_locked (ts_id t) ?mt"
        using m unfolding 2(2) track_msgs_def by (auto simp: msg)
      obtain i where i: "i \<in> dom (mt_tracks ?mt)" "t = to_state (the (mt_tracks ?mt i))"
        using t(1) hash_order.iter_set [OF assms(2)] by (auto simp: active_tracks_def)
      then obtain tk where tk: "mt_tracks ?mt i = Some tk" "t = to_state tk" by auto
      then have "ts_id t = i" using l by (simp add: limited_def to_state_def)
      then show ?thesis using t tk k by (auto simp: to_state_def multi_is_locked_def)
    qed
    have "length sent = card (tm_track_id ` set sent)" using dist by (metis distinct_card length_map set_map)
    also have "\<dots> \<le> card (dom (mt_tracks ?mt))" using cur by (intro card_mono) auto
    finally show ?thesis using c dist cur by simp
  qed
qed

definition sample_input :: "u64 \<Rightarrow> u32 \<Rightarrow> tracker_input" where
  "sample_input n x = \<lparr>in_started = 0, in_quiet = 0,
     in_event = Inr \<lparr>df_frame_seq = n, df_captured_at = 0, df_detections = [sample_box x],
       df_frame_w = 1920, df_frame_h = 1080\<rparr>,
     in_det = 0, in_seen = (\<lambda>_. 0), in_checked = (\<lambda>_. 0), in_publish_ok = (\<lambda>_. True),
     in_status = 0, in_fps = 0, in_window = 0, in_status_done = 0\<rparr>"

lemma component_publishes_witness:
  "\<exists>s' sent st. tracker_tick component_config_default tracks_order (sample_input 1 100)
      (component_start component_config_default 0 0 0) = Proceed s' sent st
    \<and> length sent \<le> 64 \<and> card (dom (mt_tracks (co_tracker s'))) \<le> 64"
proof -
  let ?s = "component_start component_config_default 0 0 0"
  have "\<exists>s' sent st. tracker_tick component_config_default tracks_order (sample_input 1 100) ?s = Proceed s' sent st"
    by (simp add: tracker_tick_def sample_input_def component_config_default_def component_start_def
        multi_update_def track_count_def tracks_order_def Let_def with_auto_create_def with_max_tracks_def
        multi_tracker_new_def split: prod.splits)
  then show ?thesis
    using component_publishes [OF reach_start track_order.hash_order_axioms] by blast
qed

end
