(* ===== verification/Convert.thy ===== *)
theory Convert
  imports Common_Types
begin

text \<open>
  \<open>crates/video-capture/src/convert.rs\<close>: conversions between pixel formats.  Bytes are words,
  the arithmetic of the conversions is done on \<open>int\<close> (on bytes every intermediate value stays
  below \<open>2 ^ 18\<close>, so the \<open>i32\<close> of the code never wraps), sizes are natural numbers (a product of
  two 32-bit dimensions by three can leave \<open>usize\<close> only for frames no memory holds), a slice out of range or a chunk size of zero panics (\<open>None\<close>).  The
  JPEG decoder is third-party code: the parameter \<open>jpeg\<close> gives its pixels and dimensions.
\<close>

section \<open>Errors and chunks\<close>

datatype conversion_error =
    JpegDecode string
  | InvalidFormat pixel_format pixel_format
  | InvalidDimensions u32 u32 nat
  | UnsupportedConversion pixel_format pixel_format

text \<open>\<open>chunks_exact\<close> and its \<open>remainder\<close>, for a positive chunk size.\<close>

function chunks_exact :: "nat \<Rightarrow> 'a list \<Rightarrow> 'a list list" where
  "chunks_exact n xs =
     (if n = 0 \<or> length xs < n then [] else take n xs # chunks_exact n (drop n xs))"
  by pat_completeness auto
termination by (relation "measure (length \<circ> snd)") auto

declare chunks_exact.simps [simp del]

definition remainder :: "nat \<Rightarrow> 'a list \<Rightarrow> 'a list" where
  "remainder n xs = drop (n * (length xs div n)) xs"

text \<open>A slice of \<open>len\<close> elements from \<open>off\<close>; out of range it panics.\<close>

definition slice :: "nat \<Rightarrow> nat \<Rightarrow> 'a list \<Rightarrow> 'a list option" where
  "slice off len xs = (if off + len \<le> length xs then Some (take len (drop off xs)) else None)"

definition byte_at :: "u8 list \<Rightarrow> nat \<Rightarrow> int" where
  "byte_at p i = uint (p ! i)"

definition get_or_128 :: "u8 list \<Rightarrow> nat \<Rightarrow> u8" where
  "get_or_128 p i = (if i < length p then p ! i else 128)"

section \<open>Integer BT.601\<close>

definition clamp_i32_to_u8 :: "int \<Rightarrow> u8" where
  "clamp_i32_to_u8 v = word_of_int (max 0 (min 255 v))"

definition ycbcr_to_rgb_i32 :: "int \<Rightarrow> int \<Rightarrow> int \<Rightarrow> u8 \<times> u8 \<times> u8" where
  "ycbcr_to_rgb_i32 y cb cr =
    (let r = y + (359 * cr) div 256;
         g = y - (88 * cb + 183 * cr) div 256;
         b = y + (454 * cb) div 256
     in (clamp_i32_to_u8 r, clamp_i32_to_u8 g, clamp_i32_to_u8 b))"

definition rgb_to_y_u8 :: "int \<Rightarrow> int \<Rightarrow> int \<Rightarrow> u8" where
  "rgb_to_y_u8 r g b = clamp_i32_to_u8 ((77 * r + 150 * g + 29 * b + 128) div 256)"

definition rgb_to_cb :: "u8 list \<Rightarrow> int" where
  "rgb_to_cb px = - 43 * byte_at px 0 - 85 * byte_at px 1 + 128 * byte_at px 2 + 32768"

definition rgb_to_cr :: "u8 list \<Rightarrow> int" where
  "rgb_to_cr px = 128 * byte_at px 0 - 107 * byte_at px 1 - 21 * byte_at px 2 + 32768"

text \<open>
  The reference in \<open>f32\<close>: \<open>round\<close> rounds half away from zero, and \<open>as u8\<close> saturates after the
  clamp.
\<close>

definition round_half :: "rat \<Rightarrow> int" where
  "round_half q = (if 0 \<le> q then \<lfloor>q + 1 / 2\<rfloor> else \<lceil>q - 1 / 2\<rceil>)"

definition f32_round :: "f32 \<Rightarrow> f32" where
  "f32_round x = (case x of Fin q \<Rightarrow> if round_half q = 0 \<and> q < 0 then NZero else Fin (of_int (round_half q)) | _ \<Rightarrow> x)"

definition f32_to_u8 :: "f32 \<Rightarrow> u8" where
  "f32_to_u8 x = (case clamp x (Fin 0) (Fin 255) of
     Some (Fin q) \<Rightarrow> word_of_int (max 0 (min 255 (truncq q))) | _ \<Rightarrow> 0)"

definition ycbcr_to_rgb :: "f32 \<Rightarrow> f32 \<Rightarrow> f32 \<Rightarrow> u8 \<times> u8 \<times> u8" where
  "ycbcr_to_rgb y cb cr =
    (let r = y + lit (1402 / 1000) * cr;
         g = y - lit (344 / 1000) * cb - lit (714 / 1000) * cr;
         b = y + lit (1772 / 1000) * cb
     in (f32_to_u8 (f32_round r), f32_to_u8 (f32_round g), f32_to_u8 (f32_round b)))"

definition rgb_to_ycbcr :: "f32 \<Rightarrow> f32 \<Rightarrow> f32 \<Rightarrow> u8 \<times> u8 \<times> u8" where
  "rgb_to_ycbcr r g b =
    (let y = lit (299 / 1000) * r + lit (587 / 1000) * g + lit (114 / 1000) * b;
         cb = - lit (169 / 1000) * r - lit (331 / 1000) * g + lit (500 / 1000) * b + lit 128;
         cr = lit (500 / 1000) * r - lit (419 / 1000) * g - lit (81 / 1000) * b + lit 128
     in (f32_to_u8 (f32_round y), f32_to_u8 (f32_round cb), f32_to_u8 (f32_round cr)))"

section \<open>Conversions\<close>

definition with_pixels :: "frame \<Rightarrow> u8 list \<Rightarrow> nat \<Rightarrow> nat \<Rightarrow> pixel_format \<Rightarrow> frame" where
  "with_pixels frame pixels w h fmt =
     \<lparr>frame_data = pixels,
      frame_meta = \<lparr>fm_width = of_nat w, fm_height = of_nat h, fm_format = fmt,
        fm_captured_at = fm_captured_at (frame_meta frame), fm_seq = fm_seq (frame_meta frame)\<rparr>\<rparr>"

type_synonym 'a conversion = "((conversion_error, 'a) result) option"

definition decode_mjpeg_to_rgb ::
  "(u8 list \<Rightarrow> string + u8 list \<times> (nat \<times> nat) option) \<Rightarrow> frame \<Rightarrow> (conversion_error, frame) result" where
  "decode_mjpeg_to_rgb jpeg frame =
    (if fm_format (frame_meta frame) \<noteq> Mjpeg then Inl (InvalidFormat Mjpeg (fm_format (frame_meta frame)))
     else case jpeg (frame_data frame) of
            Inl e \<Rightarrow> Inl (JpegDecode e)
          | Inr (pixels, None) \<Rightarrow> Inl (JpegDecode ''no JPEG info'')
          | Inr (pixels, Some (w, h)) \<Rightarrow> Inr (with_pixels frame pixels w h Rgb24))"

text \<open>
  The checks every conversion starts with, then its body.  A width of zero passes them with an
  empty frame and panics in \<open>chunks_exact\<close>.
\<close>

definition checked ::
  "pixel_format \<Rightarrow> (nat \<Rightarrow> nat \<Rightarrow> nat) \<Rightarrow> (nat \<Rightarrow> nat \<Rightarrow> u8 list \<Rightarrow> frame option) \<Rightarrow> frame \<Rightarrow> frame conversion" where
  "checked fmt expected_len body frame =
    (if fm_format (frame_meta frame) \<noteq> fmt then Some (Inl (InvalidFormat fmt (fm_format (frame_meta frame))))
     else let w = unat (fm_width (frame_meta frame));
              h = unat (fm_height (frame_meta frame))
          in if length (frame_data frame) \<noteq> expected_len w h
             then Some (Inl (InvalidDimensions (of_nat w) (of_nat h) (length (frame_data frame))))
             else if w = 0 then None
             else map_option Inr (body w h (frame_data frame)))"

subsection \<open>YUYV\<close>

text \<open>A row of the luma plane, and a row of the chroma plane.\<close>

definition yuyv_y_row :: "nat \<Rightarrow> u8 list \<Rightarrow> u8 list" where
  "yuyv_y_row w src = concat (map (\<lambda>p. [p ! 0, p ! 2]) (chunks_exact 4 src))
     @ (if odd w then take 1 (remainder 4 src) else [])"

definition yuyv_uv_row :: "nat \<Rightarrow> u8 list \<Rightarrow> u8 list" where
  "yuyv_uv_row w src = concat (map (\<lambda>p. [p ! 1, p ! 3]) (chunks_exact 4 src))
     @ (if odd w then [get_or_128 (remainder 4 src) 1] else [])"

text \<open>
  Every even source row gives a chroma row; what the loops do not write stays zero (the half
  row that an odd height leaves).
\<close>

definition yuyv_nv12_bytes :: "nat \<Rightarrow> nat \<Rightarrow> u8 list \<Rightarrow> u8 list" where
  "yuyv_nv12_bytes w h data =
    (let rows = chunks_exact (w * 2) data
     in concat (map (yuyv_y_row w) rows)
        @ concat (map (\<lambda>r. yuyv_uv_row w (rows ! (2 * r))) [0..<h div 2])
        @ replicate (w * h * 3 div 2 - w * h - h div 2 * w) 0)"

definition yuyv_to_nv12 :: "frame \<Rightarrow> frame conversion" where
  "yuyv_to_nv12 frame = checked Yuyv (\<lambda>w h. w * h * 2) (\<lambda>w h data.
     Some (with_pixels frame (yuyv_nv12_bytes w h data) w h Nv12)) frame"

definition rgb_bytes :: "u8 \<times> u8 \<times> u8 \<Rightarrow> u8 list" where
  "rgb_bytes p = (case p of (r, g, b) \<Rightarrow> [r, g, b])"

definition yuyv_rgb_row :: "nat \<Rightarrow> u8 list \<Rightarrow> u8 list" where
  "yuyv_rgb_row w src =
     concat (map (\<lambda>p. let u = byte_at p 1 - 128; v = byte_at p 3 - 128
                      in rgb_bytes (ycbcr_to_rgb_i32 (byte_at p 0) u v)
                         @ rgb_bytes (ycbcr_to_rgb_i32 (byte_at p 2) u v)) (chunks_exact 4 src))
     @ (if odd w
        then let tail = remainder 4 src
             in rgb_bytes (ycbcr_to_rgb_i32 (uint (get_or_128 tail 0)) (uint (get_or_128 tail 1) - 128)
                  (uint (get_or_128 tail 3) - 128))
        else [])"

definition yuyv_to_rgb24 :: "frame \<Rightarrow> frame conversion" where
  "yuyv_to_rgb24 frame = checked Yuyv (\<lambda>w h. w * h * 2) (\<lambda>w h data.
     Some (with_pixels frame (concat (map (yuyv_rgb_row w) (chunks_exact (w * 2) data))) w h Rgb24)) frame"

subsection \<open>NV12\<close>

text \<open>An odd last column is not converted: its three bytes stay zero.\<close>

definition nv12_rgb_row :: "nat \<Rightarrow> u8 list \<Rightarrow> u8 list \<Rightarrow> u8 list" where
  "nv12_rgb_row w y_row uv_row =
     concat (map (\<lambda>(k, y2).
        let u = byte_at uv_row (k * 2) - 128; v = byte_at uv_row (k * 2 + 1) - 128
        in rgb_bytes (ycbcr_to_rgb_i32 (byte_at y2 0) u v) @ rgb_bytes (ycbcr_to_rgb_i32 (byte_at y2 1) u v))
        (enumerate 0 (chunks_exact 2 y_row)))
     @ replicate (3 * (w mod 2)) 0"

text \<open>The rows, with the slice of the chroma plane of each; out of range it panics.\<close>

fun nv12_rgb_rows :: "nat \<Rightarrow> nat \<Rightarrow> u8 list \<Rightarrow> nat \<Rightarrow> u8 list list \<Rightarrow> u8 list option" where
  "nv12_rgb_rows w uv_off data j [] = Some []"
| "nv12_rgb_rows w uv_off data j (y_row # rows) =
     (case slice (uv_off + j div 2 * w) w data of
        None \<Rightarrow> None
      | Some uv_row \<Rightarrow> map_option ((@) (nv12_rgb_row w y_row uv_row)) (nv12_rgb_rows w uv_off data (Suc j) rows))"

definition nv12_to_rgb24 :: "frame \<Rightarrow> frame conversion" where
  "nv12_to_rgb24 frame = checked Nv12 (\<lambda>w h. w * h * 3 div 2) (\<lambda>w h data.
     map_option (\<lambda>out. with_pixels frame out w h Rgb24)
       (nv12_rgb_rows w (w * h) data 0 (chunks_exact w (take (w * h) data)))) frame"

subsection \<open>RGB24\<close>

definition rgb_y_row :: "u8 list \<Rightarrow> u8 list" where
  "rgb_y_row src = map (\<lambda>p. rgb_to_y_u8 (byte_at p 0) (byte_at p 1) (byte_at p 2)) (chunks_exact 3 src)"

text \<open>The chroma of a 2x2 block, of the 1x2 block an odd width leaves, and of a 2x1 block.\<close>

definition pixel :: "u8 list \<Rightarrow> nat \<Rightarrow> u8 list" where
  "pixel src x = take 3 (drop (x * 3) src)"

definition chroma_block :: "u8 list \<Rightarrow> u8 list \<Rightarrow> nat \<Rightarrow> u8 list" where
  "chroma_block src0 src1 x =
    (let ps = [pixel src0 x, pixel src0 (x + 1), pixel src1 x, pixel src1 (x + 1)]
     in [clamp_i32_to_u8 (sum_list (map rgb_to_cb ps) div 1024),
         clamp_i32_to_u8 (sum_list (map rgb_to_cr ps) div 1024)])"

definition rgb_uv_row :: "nat \<Rightarrow> u8 list \<Rightarrow> u8 list \<Rightarrow> u8 list" where
  "rgb_uv_row w src0 src1 =
     concat (map (\<lambda>k. chroma_block src0 src1 (2 * k)) [0..<w div 2])
     @ (if odd w
        then [clamp_i32_to_u8 ((rgb_to_cb (pixel src0 (w - 1)) + rgb_to_cb (pixel src1 (w - 1))) div 2 div 256)]
        else [])"

text \<open>The chroma of the last row of an odd height: half a row.\<close>

definition rgb_uv_last :: "nat \<Rightarrow> u8 list \<Rightarrow> u8 list" where
  "rgb_uv_last len src =
     concat (map (\<lambda>k. [clamp_i32_to_u8 ((rgb_to_cb (pixel src (2 * k)) + rgb_to_cb (pixel src (2 * k + 1))) div 2 div 256),
                       clamp_i32_to_u8 ((rgb_to_cr (pixel src (2 * k)) + rgb_to_cr (pixel src (2 * k + 1))) div 2 div 256)])
        [0..<len div 2])
     @ replicate (len mod 2) 0"

definition rgb_nv12_bytes :: "nat \<Rightarrow> nat \<Rightarrow> u8 list \<Rightarrow> u8 list" where
  "rgb_nv12_bytes w h data =
    (let rows = chunks_exact (w * 3) data;
         tail = w * h * 3 div 2 - w * h - h div 2 * w
     in concat (map rgb_y_row rows)
        @ concat (map (\<lambda>r. rgb_uv_row w (rows ! (2 * r)) (rows ! (2 * r + 1))) [0..<h div 2])
        @ (if odd h then rgb_uv_last tail (rows ! (h - 1)) else replicate tail 0))"

definition rgb24_to_nv12 :: "frame \<Rightarrow> frame conversion" where
  "rgb24_to_nv12 frame = checked Rgb24 (\<lambda>w h. w * h * 3) (\<lambda>w h data.
     Some (with_pixels frame (rgb_nv12_bytes w h data) w h Nv12)) frame"

definition decode_mjpeg_to_nv12 ::
  "(u8 list \<Rightarrow> string + u8 list \<times> (nat \<times> nat) option) \<Rightarrow> frame \<Rightarrow> frame conversion" where
  "decode_mjpeg_to_nv12 jpeg frame =
    (case decode_mjpeg_to_rgb jpeg frame of Inl e \<Rightarrow> Some (Inl e) | Inr rgb \<Rightarrow> rgb24_to_nv12 rgb)"

definition convert_to ::
  "(u8 list \<Rightarrow> string + u8 list \<times> (nat \<times> nat) option) \<Rightarrow> pixel_format \<Rightarrow> frame \<Rightarrow> frame conversion" where
  "convert_to jpeg target frame =
    (if fm_format (frame_meta frame) = target then Some (Inr frame)
     else case (fm_format (frame_meta frame), target) of
            (Mjpeg, Rgb24) \<Rightarrow> Some (decode_mjpeg_to_rgb jpeg frame)
          | (Mjpeg, Nv12) \<Rightarrow> decode_mjpeg_to_nv12 jpeg frame
          | (Yuyv, Nv12) \<Rightarrow> yuyv_to_nv12 frame
          | (Yuyv, Rgb24) \<Rightarrow> yuyv_to_rgb24 frame
          | (Rgb24, Nv12) \<Rightarrow> rgb24_to_nv12 frame
          | (Nv12, Rgb24) \<Rightarrow> nv12_to_rgb24 frame
          | (from, to) \<Rightarrow> Some (Inl (UnsupportedConversion from to)))"

section \<open>Chunks\<close>

lemma chunks_exact_nil [simp]: "length xs < n \<Longrightarrow> chunks_exact n xs = []"
  by (simp add: chunks_exact.simps)

lemma chunks_exact_step: "0 < n \<Longrightarrow> n \<le> length xs \<Longrightarrow> chunks_exact n xs = take n xs # chunks_exact n (drop n xs)"
  by (subst chunks_exact.simps) simp

lemma length_chunks_exact: "0 < n \<Longrightarrow> length (chunks_exact n xs) = length xs div n"
proof (induction n xs rule: chunks_exact.induct)
  case (1 n xs)
  show ?case
  proof (cases "length xs < n")
    case False
    then have "length xs div n = Suc ((length xs - n) div n)" using 1(2) by (simp add: le_div_geq)
    then show ?thesis using 1 False by (simp add: chunks_exact_step)
  qed simp
qed

lemma chunks_exact_nth:
  "0 < n \<Longrightarrow> i < length xs div n \<Longrightarrow> chunks_exact n xs ! i = take n (drop (i * n) xs)"
proof (induction n xs arbitrary: i rule: chunks_exact.induct)
  case (1 n xs)
  then have n: "n \<le> length xs" by (metis div_less not_less_zero not_le)
  show ?case
  proof (cases i)
    case 0
    then show ?thesis using 1(2) n by (simp add: chunks_exact_step)
  next
    case (Suc j)
    have "length xs div n = Suc ((length xs - n) div n)" using 1(2) n by (simp add: le_div_geq)
    then show ?thesis using 1 Suc n by (simp add: chunks_exact_step add.commute)
  qed
qed

lemma chunk_length: "0 < n \<Longrightarrow> c \<in> set (chunks_exact n xs) \<Longrightarrow> length c = n"
proof (induction n xs rule: chunks_exact.induct)
  case (1 n xs)
  then show ?case by (cases "length xs < n") (auto simp: chunks_exact_step)
qed

lemma chunk_entry:
  "0 < n \<Longrightarrow> i < length xs div n \<Longrightarrow> k < n \<Longrightarrow> chunks_exact n xs ! i ! k = xs ! (i * n + k)"
proof -
  assume a: "0 < n" "i < length xs div n" "k < n"
  then have "(i + 1) * n \<le> length xs div n * n" by (intro mult_le_mono) simp_all
  also have "\<dots> \<le> length xs" by simp
  finally show ?thesis using a by (simp add: chunks_exact_nth)
qed

text \<open>Lists of lists of one length.\<close>

lemma length_concat_equal: "\<forall>x\<in>set xss. length x = n \<Longrightarrow> length (concat xss) = length xss * n"
  by (induction xss) simp_all

lemma nth_concat_equal:
  "\<forall>x\<in>set xss. length x = n \<Longrightarrow> i < length xss \<Longrightarrow> k < n \<Longrightarrow> concat xss ! (i * n + k) = xss ! i ! k"
proof (induction xss arbitrary: i)
  case (Cons x xss)
  show ?case
  proof (cases i)
    case 0
    then show ?thesis using Cons.prems by (simp add: nth_append)
  next
    case (Suc j)
    then have "concat (x # xss) ! (i * n + k) = concat xss ! (j * n + k)"
      using Cons.prems by (simp add: nth_append)
    then show ?thesis using Cons Suc by simp
  qed
qed simp

section \<open>Sizes\<close>

definition raw_size :: "pixel_format \<Rightarrow> nat \<Rightarrow> nat \<Rightarrow> nat" where
  "raw_size fmt w h = (case fmt of Yuyv \<Rightarrow> w * h * 2 | Rgb24 \<Rightarrow> w * h * 3 | _ \<Rightarrow> w * h * 3 div 2)"

definition raw_frame :: "frame \<Rightarrow> bool" where
  "raw_frame f \<longleftrightarrow> fm_format (frame_meta f) \<noteq> Mjpeg \<and> fm_width (frame_meta f) \<noteq> 0
     \<and> length (frame_data f) = raw_size (fm_format (frame_meta f))
         (unat (fm_width (frame_meta f))) (unat (fm_height (frame_meta f)))"

lemma remainder_length: "length (remainder n xs) = length xs mod n"
  by (simp add: remainder_def minus_mult_div_eq_mod)

lemma halves: "w div 2 * 2 + w mod 2 = (w :: nat)"
  by simp

lemma length_pairs:
  assumes "\<And>p. length (f p) = m"
  shows "length (concat (map f xs)) = length xs * m"
  by (induction xs) (simp_all add: assms)

lemma yuyv_row_lengths:
  assumes "length src = w * 2"
  shows "length (yuyv_y_row w src) = w" "length (yuyv_uv_row w src) = w"
    "length (yuyv_rgb_row w src) = w * 3"
proof -
  have c: "length (chunks_exact 4 src) = w div 2" using assms by (simp add: length_chunks_exact)
  have r: "odd w \<Longrightarrow> length (remainder 4 src) = 2" unfolding remainder_length assms by presburger
  have o: "odd w \<Longrightarrow> w div 2 * 2 + 1 = w" by presburger
  have e: "even w \<Longrightarrow> w div 2 * 2 = w" by simp
  show "length (yuyv_y_row w src) = w" "length (yuyv_uv_row w src) = w"
    using c r o e by (auto simp: yuyv_y_row_def yuyv_uv_row_def length_pairs [where m = 2])
  have rgb: "length (rgb_bytes x) = 3" for x by (simp add: rgb_bytes_def split: prod.splits)
  have "w div 2 * 6 + (if odd w then 3 else 0) = w * 3" by presburger
  then show "length (yuyv_rgb_row w src) = w * 3"
    using c by (auto simp: yuyv_rgb_row_def Let_def rgb length_pairs [where m = 6])
qed

lemma rgb_row_lengths:
  assumes "length src = w * 3"
  shows "length (rgb_y_row src) = w" "length (rgb_uv_row w src src') = w"
    "length (rgb_uv_last n src) = n"
proof -
  show "length (rgb_y_row src) = w" using assms by (simp add: rgb_y_row_def length_chunks_exact)
  have o: "odd w \<Longrightarrow> w div 2 * 2 + 1 = w" by presburger
  show "length (rgb_uv_row w src src') = w"
    using o by (auto simp: rgb_uv_row_def chroma_block_def Let_def length_pairs [where m = 2])
  show "length (rgb_uv_last n src) = n"
    by (simp add: rgb_uv_last_def length_pairs [where m = 2] mult.commute)
qed

lemma rows_of:
  assumes "length data = h * n" "0 < n"
  shows "length (chunks_exact n data) = h" "\<forall>r\<in>set (chunks_exact n data). length r = n"
  using assms chunk_length by (auto simp: length_chunks_exact)

text \<open>The chroma plane of NV12 and what an odd height leaves of it.\<close>

lemma nv12_size:
  fixes w h :: nat
  shows "h * w + (h div 2 * w + (w * h * 3 div 2 - w * h - h div 2 * w)) = w * h * 3 div 2"
proof -
  have "q * 3 div 2 = q + q div 2" for q :: nat by presburger
  then have q: "w * h * 3 div 2 = w * h + w * h div 2" by simp
  have "h div 2 * w * 2 = h div 2 * 2 * w" by simp
  also have "\<dots> \<le> h * w" by (intro mult_le_mono1) simp
  finally have "h div 2 * w \<le> w * h div 2" by (simp add: mult.commute less_eq_div_iff_mult_less_eq)
  moreover have "h * w = w * h" by simp
  ultimately show ?thesis using q by linarith
qed

section \<open>The conversions succeed\<close>

lemma raw_frame_facts:
  assumes "raw_frame f" "fm_format (frame_meta f) = fmt"
  shows "0 < unat (fm_width (frame_meta f))"
    "length (frame_data f) = raw_size fmt (unat (fm_width (frame_meta f))) (unat (fm_height (frame_meta f)))"
    "checked fmt (raw_size fmt) body f
      = map_option Inr (body (unat (fm_width (frame_meta f))) (unat (fm_height (frame_meta f))) (frame_data f))"
proof -
  show w: "0 < unat (fm_width (frame_meta f))" using assms(1) by (simp add: raw_frame_def unat_gt_0)
  show "length (frame_data f) = raw_size fmt (unat (fm_width (frame_meta f))) (unat (fm_height (frame_meta f)))"
    using assms by (simp add: raw_frame_def)
  then show "checked fmt (raw_size fmt) body f
      = map_option Inr (body (unat (fm_width (frame_meta f))) (unat (fm_height (frame_meta f))) (frame_data f))"
    using w assms(2) by (simp add: checked_def Let_def)
qed

text \<open>A frame of the size of its format, with the dimensions, time and number of the source.\<close>

definition converted :: "frame \<Rightarrow> pixel_format \<Rightarrow> frame \<Rightarrow> bool" where
  "converted f fmt g \<longleftrightarrow> raw_frame g \<and> frame_meta g = (frame_meta f)\<lparr>fm_format := fmt\<rparr>"

lemma converted_with_pixels:
  assumes "raw_frame f" "fmt \<noteq> Mjpeg"
    and "length px = raw_size fmt (unat (fm_width (frame_meta f))) (unat (fm_height (frame_meta f)))"
  shows "converted f fmt (with_pixels f px (unat (fm_width (frame_meta f))) (unat (fm_height (frame_meta f))) fmt)"
  using assms by (simp add: converted_def raw_frame_def with_pixels_def)

lemma length_rows:
  assumes "length data = h * n" "0 < n" "\<And>r. length r = n \<Longrightarrow> length (f r) = k"
  shows "length (concat (map f (chunks_exact n data))) = h * k"
proof -
  note c = rows_of [OF assms(1,2)]
  have "\<forall>x\<in>set (map f (chunks_exact n data)). length x = k"
    using c(2) assms(3) by (metis (no_types, lifting) imageE list.set_map)
  then have "length (concat (map f (chunks_exact n data))) = length (map f (chunks_exact n data)) * k"
    by (rule length_concat_equal)
  then show ?thesis using c(1) by simp
qed

lemma length_indexed:
  assumes "\<And>i. i < m \<Longrightarrow> length (f i) = k"
  shows "length (concat (map f [0..<m])) = m * k"
proof -
  have "\<forall>x\<in>set (map f [0..<m]). length x = k" using assms by auto
  then have "length (concat (map f [0..<m])) = length (map f [0..<m]) * k" by (rule length_concat_equal)
  then show ?thesis by simp
qed

lemma row_length:
  assumes "length data = h * n" "0 < n" "i < h"
  shows "length (chunks_exact n data ! i) = n"
  using rows_of [OF assms(1,2)] assms(3) by simp

lemma yuyv_nv12_length:
  assumes "0 < w" "length data = w * h * 2"
  shows "length (yuyv_nv12_bytes w h data) = w * h * 3 div 2"
proof -
  have d: "length data = h * (w * 2)" "0 < w * 2" using assms by simp_all
  note row = row_length [OF d]
  have "length (concat (map (yuyv_y_row w) (chunks_exact (w * 2) data))) = h * w"
    by (rule length_rows [OF d yuyv_row_lengths(1)])
  moreover have "length (concat (map (\<lambda>r. yuyv_uv_row w (chunks_exact (w * 2) data ! (2 * r))) [0..<h div 2]))
      = h div 2 * w"
    by (rule length_indexed, rule yuyv_row_lengths(2), rule row) simp
  ultimately show ?thesis by (simp only: yuyv_nv12_bytes_def Let_def length_append length_replicate nv12_size)
qed

lemma rgb_nv12_length:
  assumes "0 < w" "length data = w * h * 3"
  shows "length (rgb_nv12_bytes w h data) = w * h * 3 div 2"
proof -
  have d: "length data = h * (w * 3)" "0 < w * 3" using assms by simp_all
  note row = row_length [OF d]
  have "length (concat (map rgb_y_row (chunks_exact (w * 3) data))) = h * w"
    by (rule length_rows [OF d rgb_row_lengths(1)])
  moreover have "length (concat (map (\<lambda>r. rgb_uv_row w (chunks_exact (w * 3) data ! (2 * r))
      (chunks_exact (w * 3) data ! (2 * r + 1))) [0..<h div 2])) = h div 2 * w"
    by (rule length_indexed, rule rgb_row_lengths(2), rule row) simp
  moreover have "length (if odd h then rgb_uv_last n (chunks_exact (w * 3) data ! (h - 1))
      else replicate n 0) = n" for n
    using rgb_row_lengths(3) [OF row, of "h - 1"] by (cases h) simp_all
  ultimately show ?thesis by (simp only: rgb_nv12_bytes_def Let_def length_append nv12_size)
qed

lemma yuyv_rgb_length:
  assumes "0 < w" "length data = w * h * 2"
  shows "length (concat (map (yuyv_rgb_row w) (chunks_exact (w * 2) data))) = w * h * 3"
proof -
  have d: "length data = h * (w * 2)" "0 < w * 2" using assms by simp_all
  show ?thesis using length_rows [OF d yuyv_row_lengths(3)] by simp
qed

lemma nv12_rgb_row_length:
  assumes "length y_row = w"
  shows "length (nv12_rgb_row w y_row uv_row) = w * 3"
proof -
  have rgb: "length (rgb_bytes x) = 3" for x by (simp add: rgb_bytes_def split: prod.splits)
  have "length (chunks_exact 2 y_row) = w div 2" using assms by (simp add: length_chunks_exact)
  then have "length (nv12_rgb_row w y_row uv_row) = w div 2 * 6 + 3 * (w mod 2)"
    by (simp add: nv12_rgb_row_def length_pairs [where m = 6] Let_def rgb split: prod.splits)
  also have "\<dots> = w * 3" by presburger
  finally show ?thesis .
qed

text \<open>
  Row \<open>j\<close> reads the chroma row \<open>j div 2\<close>: within the frame when the height is even, and beyond
  its end for the last row of an odd height.
\<close>

lemma nv12_rows_ok:
  assumes "\<forall>r\<in>set rows. length r = w" "\<forall>i < length rows. uv_off + (j + i) div 2 * w + w \<le> length data"
  shows "\<exists>out. nv12_rgb_rows w uv_off data j rows = Some out \<and> length out = length rows * (w * 3)"
  using assms
proof (induction rows arbitrary: j)
  case (Cons y_row rows)
  have s: "uv_off + j div 2 * w + w \<le> length data"
    using spec [OF Cons.prems(2), of 0] by simp
  have r: "\<forall>r\<in>set rows. length r = w" "length y_row = w" using Cons.prems(1) by simp_all
  have "\<forall>i < length rows. uv_off + (Suc j + i) div 2 * w + w \<le> length data"
  proof (intro allI impI)
    fix i assume "i < length rows"
    then show "uv_off + (Suc j + i) div 2 * w + w \<le> length data"
      using spec [OF Cons.prems(2), of "Suc i"] by simp
  qed
  from Cons.IH [OF r(1) this] obtain out where
    "nv12_rgb_rows w uv_off data (Suc j) rows = Some out" "length out = length rows * (w * 3)" by blast
  then show ?case using s r(2) by (simp add: slice_def nv12_rgb_row_length)
qed simp

lemma nv12_rows_panic:
  assumes "i < length rows" "length data < uv_off + (j + i) div 2 * w + w"
  shows "nv12_rgb_rows w uv_off data j rows = None"
  using assms
proof (induction rows arbitrary: i j)
  case (Cons y_row rows)
  show ?case
  proof (cases i)
    case 0
    then show ?thesis using Cons.prems by (simp add: slice_def)
  next
    case (Suc k)
    then show ?thesis using Cons.IH [of k "Suc j"] Cons.prems by (simp split: option.split)
  qed
qed simp

lemma nv12_rows_fit:
  fixes w h i :: nat
  assumes "even h" "i < h"
  shows "w * h + i div 2 * w + w \<le> w * h * 3 div 2"
proof -
  obtain k where h: "h = 2 * k" using assms(1) by blast
  have "i div 2 + 1 \<le> k" using assms(2) unfolding h by linarith
  then have "(i div 2 + 1) * w \<le> k * w" by (rule mult_le_mono1)
  moreover have "w * h * 3 div 2 = w * h + k * w" unfolding h by simp
  ultimately show ?thesis by simp
qed

lemma nv12_rows_beyond:
  fixes w h :: nat
  assumes "odd h" "0 < w"
  shows "w * h * 3 div 2 < w * h + (h - 1) div 2 * w + w"
proof -
  obtain k where h: "h = 2 * k + 1" using assms(1) by (auto elim: oddE)
  have "w * h * 3 = 2 * (w * h + k * w) + w" unfolding h by (simp add: algebra_simps)
  then have "w * h * 3 div 2 = (2 * (w * h + k * w) + w) div 2" by (simp only:)
  also have "\<dots> = w * h + k * w + w div 2" by simp
  finally have "w * h * 3 div 2 = w * h + k * w + w div 2" .
  then show ?thesis using assms(2) unfolding h by simp
qed

lemma nv12_rgb_ok:
  assumes "0 < w" "length data = w * h * 3 div 2" "even h"
  shows "\<exists>out. nv12_rgb_rows w (w * h) data 0 (chunks_exact w (take (w * h) data)) = Some out
    \<and> length out = w * h * 3"
proof -
  have "w * h \<le> w * h * 3 div 2" by simp
  then have d: "length (take (w * h) data) = h * w" using assms(2) by (simp add: min_def)
  note c = rows_of [OF d assms(1)]
  have "\<forall>i < length (chunks_exact w (take (w * h) data)). w * h + (0 + i) div 2 * w + w \<le> length data"
    using nv12_rows_fit [OF assms(3)] unfolding c(1) assms(2) by simp
  moreover have "h * (w * 3) = w * h * 3" by simp
  ultimately show ?thesis using nv12_rows_ok [OF c(2), of "w * h" 0 data] unfolding c(1) by (simp only:)
qed

lemma nv12_rgb_panics:
  assumes "0 < w" "length data = w * h * 3 div 2" "odd h"
  shows "nv12_rgb_rows w (w * h) data 0 (chunks_exact w (take (w * h) data)) = None"
proof -
  have "w * h \<le> w * h * 3 div 2" by simp
  then have d: "length (take (w * h) data) = h * w" using assms(2) by (simp add: min_def)
  note c = rows_of [OF d assms(1)]
  have "h - 1 < length (chunks_exact w (take (w * h) data))" using assms(3) unfolding c(1) by (cases h) simp_all
  moreover have "length data < w * h + (0 + (h - 1)) div 2 * w + w"
    using nv12_rows_beyond [OF assms(3,1)] assms(2) by simp
  ultimately show ?thesis by (rule nv12_rows_panic)
qed

text \<open>A frame of the size of its format and of positive width converts to every other raw
  format the code supports without an error or a panic, into a frame of the size of the target
  format with the dimensions, the time and the number of the source; only an NV12 frame of odd
  height makes the conversion to RGB panic.\<close>

lemma convert_raw:
  assumes f: "raw_frame f" and t: "(fm_format (frame_meta f), target) \<in> {(Yuyv, Nv12), (Yuyv, Rgb24), (Rgb24, Nv12), (Nv12, Rgb24)}"
  shows "if fm_format (frame_meta f) = Nv12 \<and> odd (unat (fm_height (frame_meta f)))
    then convert_to jpeg target f = None
    else \<exists>g. convert_to jpeg target f = Some (Inr g) \<and> converted f target g"
proof -
  let ?w = "unat (fm_width (frame_meta f))" and ?h = "unat (fm_height (frame_meta f))"
  have sizes: "raw_size Yuyv = (\<lambda>w h. w * h * 2)" "raw_size Rgb24 = (\<lambda>w h. w * h * 3)"
    "raw_size Nv12 = (\<lambda>w h. w * h * 3 div 2)" by (simp_all add: raw_size_def fun_eq_iff)
  note r = raw_frame_facts [OF f]
  note c = converted_with_pixels [OF f]
  consider (a) "fm_format (frame_meta f) = Yuyv" "target = Nv12" | (b) "fm_format (frame_meta f) = Yuyv" "target = Rgb24"
    | (c) "fm_format (frame_meta f) = Rgb24" "target = Nv12" | (d) "fm_format (frame_meta f) = Nv12" "target = Rgb24"
    using t by auto
  then show ?thesis
  proof cases
    case a
    note r = r [OF a(1), unfolded sizes]
    show ?thesis using a r(3) c [of Nv12, unfolded sizes] yuyv_nv12_length [OF r(1,2)]
      by (simp add: convert_to_def yuyv_to_nv12_def)
  next
    case b
    note r = r [OF b(1), unfolded sizes]
    show ?thesis using b r(3) c [of Rgb24, unfolded sizes] yuyv_rgb_length [OF r(1,2)]
      by (simp add: convert_to_def yuyv_to_rgb24_def)
  next
    case c
    note r = r [OF c(1), unfolded sizes]
    show ?thesis using c r(3) converted_with_pixels [OF f, of Nv12, unfolded sizes] rgb_nv12_length [OF r(1,2)]
      by (simp add: convert_to_def rgb24_to_nv12_def)
  next
    case d
    note r = r [OF d(1), unfolded sizes]
    show ?thesis
    proof (cases "odd ?h")
      case True
      then show ?thesis using d r(3) nv12_rgb_panics [OF r(1,2)] by (simp add: convert_to_def nv12_to_rgb24_def)
    next
      case False
      then obtain out where "nv12_rgb_rows ?w (?w * ?h) (frame_data f) 0 (chunks_exact ?w (take (?w * ?h) (frame_data f))) = Some out"
        "length out = ?w * ?h * 3" using nv12_rgb_ok [OF r(1,2)] by blast
      then show ?thesis using False d r(3) c [of Rgb24, unfolded sizes]
        by (simp add: convert_to_def nv12_to_rgb24_def)
    qed
  qed
qed

definition gray_frame :: "pixel_format \<Rightarrow> nat \<Rightarrow> u32 \<Rightarrow> frame" where
  "gray_frame fmt n h = \<lparr>frame_data = replicate n 128,
     frame_meta = \<lparr>fm_width = 2, fm_height = h, fm_format = fmt, fm_captured_at = 0, fm_seq = 7\<rparr>\<rparr>"

lemma convert_raw_witness:
  "(\<exists>g. convert_to (\<lambda>_. Inl ''none'') Nv12 (gray_frame Yuyv 8 2) = Some (Inr g) \<and> converted (gray_frame Yuyv 8 2) Nv12 g)
   \<and> convert_to (\<lambda>_. Inl ''none'') Rgb24 (gray_frame Nv12 9 3) = None"
  using convert_raw [of "gray_frame Yuyv 8 2" Nv12] convert_raw [of "gray_frame Nv12 9 3" Rgb24]
  by (simp add: gray_frame_def raw_frame_def raw_size_def)

section \<open>Pixels\<close>

lemma pair_entry:
  assumes "length src = w * 2" "even w" "x < w" and ab: "a < 4" "b < 4"
  shows "concat (map (\<lambda>p. [p ! a, p ! b]) (chunks_exact 4 src)) ! x
    = src ! (x div 2 * 4 + (if even x then a else b))"
proof -
  have l: "length src div 4 = w div 2" using assms(1,2) by auto
  have i: "x div 2 < length src div 4" using assms(2,3) unfolding l by auto
  have n: "length (chunks_exact 4 src) = w div 2" by (simp add: length_chunks_exact l)
  have "concat (map (\<lambda>p. [p ! a, p ! b]) (chunks_exact 4 src)) ! (x div 2 * 2 + x mod 2)
      = map (\<lambda>p. [p ! a, p ! b]) (chunks_exact 4 src) ! (x div 2) ! (x mod 2)"
    using i l n by (intro nth_concat_equal) auto
  also have "\<dots> = chunks_exact 4 src ! (x div 2) ! (if even x then a else b)"
  proof -
    have "x mod 2 = (if even x then 0 else 1)" by presburger
    then show ?thesis using i l n by simp
  qed
  also have "\<dots> = src ! (x div 2 * 4 + (if even x then a else b))"
    using i ab by (intro chunk_entry) auto
  finally show ?thesis by simp
qed

lemma row_entry:
  assumes "length data = h * n" "0 < n" "y < h" "k < n"
  shows "chunks_exact n data ! y ! k = data ! (y * n + k)"
proof -
  have "y < length data div n" using assms by simp
  then show ?thesis using assms(2,4) by (intro chunk_entry)
qed

text \<open>The NV12 frame of a YUYV frame of even width has at each place the luma byte of that
  pixel, and for each pair of columns and rows the chroma bytes of the pair in its upper row.\<close>

lemma yuyv_nv12_pixels:
  assumes "0 < w" "even w" "length data = w * h * 2"
  shows "(\<forall>x<w. \<forall>y<h. yuyv_nv12_bytes w h data ! (y * w + x) = data ! (2 * (y * w + x)))
    \<and> (\<forall>x<w. \<forall>y<h div 2. yuyv_nv12_bytes w h data ! (h * w + (y * w + x))
         = data ! (2 * y * (w * 2) + (x div 2 * 4 + (if even x then 1 else 3))))"
proof -
  have d: "length data = h * (w * 2)" "0 < w * 2" using assms by simp_all
  define rows where "rows = chunks_exact (w * 2) data"
  note row = row_length [OF d, folded rows_def] and entry = row_entry [OF d, folded rows_def]
  have n: "length rows = h" using rows_of [OF d] by (simp add: rows_def)
  define Y where "Y = map (yuyv_y_row w) rows"
  define U where "U = map (\<lambda>r. yuyv_uv_row w (rows ! (2 * r))) [0..<h div 2]"
  have Yl: "\<forall>x\<in>set Y. length x = w"
    using row yuyv_row_lengths(1) n unfolding Y_def by (metis (no_types, lifting) in_set_conv_nth length_map nth_map)
  have Ul: "\<forall>x\<in>set U. length x = w"
    unfolding U_def using row yuyv_row_lengths(2) by auto
  have Yc: "length (concat Y) = h * w" using length_concat_equal [OF Yl] n by (simp add: Y_def)
  have Uc: "length (concat U) = h div 2 * w" using length_concat_equal [OF Ul] by (simp add: U_def)
  have b: "yuyv_nv12_bytes w h data = concat Y @ concat U @ replicate (w * h * 3 div 2 - w * h - h div 2 * w) 0"
    by (simp add: yuyv_nv12_bytes_def Let_def rows_def Y_def U_def)
  have less: "y * w + x < m * w" if "y < m" "x < w" for x y m :: nat
  proof -
    have "y * w + x < (y + 1) * w" using that by simp
    also have "\<dots> \<le> m * w" using that by (intro mult_le_mono1) simp
    finally show ?thesis .
  qed
  have luma: "yuyv_nv12_bytes w h data ! (y * w + x) = data ! (2 * (y * w + x))" if "x < w" "y < h" for x y
  proof -
    have "yuyv_nv12_bytes w h data ! (y * w + x) = concat Y ! (y * w + x)"
      using less [OF that(2,1)] by (simp add: b nth_append Yc)
    also have "\<dots> = yuyv_y_row w (rows ! y) ! x"
      using nth_concat_equal [OF Yl, of y x] that n by (simp add: Y_def)
    also have "\<dots> = rows ! y ! (x div 2 * 4 + (if even x then 0 else 2))"
      using pair_entry [OF row assms(2) that(1), of y 0 2] that assms(2) by (simp add: yuyv_y_row_def)
    also have "x div 2 * 4 + (if even x then 0 else 2) = 2 * x" by (auto elim: oddE)
    also have "rows ! y ! (2 * x) = data ! (2 * (y * w + x))"
      using entry [of y "2 * x"] that by (simp add: algebra_simps)
    finally show ?thesis .
  qed
  have chroma: "yuyv_nv12_bytes w h data ! (h * w + (y * w + x))
      = data ! (2 * y * (w * 2) + (x div 2 * 4 + (if even x then 1 else 3)))" if "x < w" "y < h div 2" for x y
  proof -
    let ?k = "x div 2 * 4 + (if even x then 1 else 3)"
    have y: "2 * y < h" using that(2) by linarith
    have "yuyv_nv12_bytes w h data ! (h * w + (y * w + x)) = concat U ! (y * w + x)"
      using less [OF that(2,1)] by (simp add: b nth_append Yc Uc)
    also have "\<dots> = yuyv_uv_row w (rows ! (2 * y)) ! x"
      using nth_concat_equal [OF Ul, of y x] that by (simp add: U_def)
    also have "\<dots> = rows ! (2 * y) ! ?k"
      using pair_entry [OF row assms(2) that(1), of "2 * y" 1 3] y assms(2) by (simp add: yuyv_uv_row_def)
    also have "\<dots> = data ! (2 * y * (w * 2) + ?k)"
    proof (rule entry [OF y])
      show "?k < w * 2" using that(1) assms(2) by (auto elim!: evenE oddE)
    qed
    finally show ?thesis .
  qed
  show ?thesis using luma chroma by blast
qed

lemma yuyv_nv12_pixels_witness:
  "yuyv_nv12_bytes 2 2 [10, 1, 20, 2, 30, 3, 40, 4] ! 3 = 40
   \<and> yuyv_nv12_bytes 2 2 [10, 1, 20, 2, 30, 3, 40, 4] ! 5 = 2"
proof -
  have l: "length [10, 1, 20, 2, 30, 3, 40, 4 :: u8] = 2 * 2 * 2" by simp
  have "(0::nat) < 2" "even (2::nat)" by simp_all
  note p = yuyv_nv12_pixels [OF this l]
  have "yuyv_nv12_bytes 2 2 [10, 1, 20, 2, 30, 3, 40, 4] ! (1 * 2 + 1) = [10, 1, 20, 2, 30, 3, 40, 4] ! (2 * (1 * 2 + 1))"
    using p [THEN conjunct1, rule_format, of 1 1] by simp
  moreover have "yuyv_nv12_bytes 2 2 [10, 1, 20, 2, 30, 3, 40, 4] ! (2 * 2 + (0 * 2 + 1))
      = [10, 1, 20, 2, 30, 3, 40, 4] ! (2 * 0 * (2 * 2) + (1 div 2 * 4 + (if even (1::nat) then 1 else 3)))"
    using p [THEN conjunct2, rule_format, of 1 0] by simp
  ultimately show ?thesis by simp
qed

section \<open>The integer arithmetic against the floats\<close>

text \<open>A finite float within \<open>e\<close> of \<open>v\<close>.\<close>

definition near :: "f32 \<Rightarrow> rat \<Rightarrow> rat \<Rightarrow> bool" where
  "near x v e \<longleftrightarrow> is_finite x \<and> v - e \<le> qval x \<and> qval x \<le> v + e"

abbreviation ulp :: rat where
  "ulp \<equiv> 1 / 32768"

lemma rnd_near:
  assumes "- 1024 < q" "q < 1024"
  shows "near (rnd q) q ulp"
proof (cases "q = 0")
  case True
  then show ?thesis by (simp add: near_def)
next
  case False
  then have "ilog2 \<bar>q\<bar> < 10" using assms by (intro ilog2_less_powi) (simp_all add: power_int_def abs_less_iff)
  then have "lsb TYPE(32) q \<le> - 14" by (simp add: lsb_def emin_def prec_def)
  then have "(2::rat) powi lsb TYPE(32) q \<le> 2 powi (- 14)" by (intro power_int_increasing) simp_all
  also have "\<dots> = 2 * ulp" by (simp add: power_int_minus)
  finally have "\<bar>rndq TYPE(32) q - q\<bar> \<le> ulp" using rndq_error [of "TYPE(32)" q] by linarith
  then have e: "q - ulp \<le> rndq TYPE(32) q" "rndq TYPE(32) q \<le> q + ulp" unfolding abs_le_iff by linarith+
  have "(2048::rat) \<le> 2 powi emax TYPE(32)"
    using power_int_increasing [of 11 "emax TYPE(32)" "2::rat"] by (simp add: emax_def power_int_def)
  then have "\<not> 2 powi emax TYPE(32) \<le> rndq TYPE(32) q" "\<not> rndq TYPE(32) q \<le> - (2 powi emax TYPE(32))"
    using e assms by linarith+
  then show ?thesis using e by (auto simp: near_def rnd_def Let_def)
qed

lemma near_trans: "near x v e \<Longrightarrow> v - f \<le> w \<Longrightarrow> w \<le> v + f \<Longrightarrow> near x w (e + f)"
  by (simp add: near_def)

lemma near_plus:
  assumes "near x v e" "near y w f" "- 1024 < v + w - e - f" "v + w + e + f < 1024"
  shows "near (x + y) (v + w) (e + f + ulp)"
proof -
  have x: "is_finite x" "v - e \<le> qval x" "qval x \<le> v + e" and y: "is_finite y" "w - f \<le> qval y" "qval y \<le> w + f"
    using assms(1,2) by (simp_all add: near_def)
  have "near (rnd (qval x + qval y)) (qval x + qval y) ulp" using x y assms(3,4) by (intro rnd_near) linarith+
  moreover have "x + y = NZero \<and> qval x = 0 \<and> qval y = 0 \<or> x + y = rnd (qval x + qval y)"
    using x(1) y(1) by (auto simp: plus_fl_def finite_not_nan)
  ultimately have "near (x + y) (qval x + qval y) ulp" by (auto simp: near_def)
  then have "near (x + y) (v + w) (ulp + (e + f))" using x y by (elim near_trans) linarith+
  then show ?thesis by (simp add: add_ac)
qed

lemma near_minus: "near x v e \<Longrightarrow> near (- x) (- v) e"
  by (cases x) (auto simp: near_def uminus_fl_def)

lemma near_diff:
  assumes "near x v e" "near y w f" "- 1024 < v - w - e - f" "v - w + e + f < 1024"
  shows "near (x - y) (v - w) (e + f + ulp)"
  using near_plus [OF assms(1) near_minus [OF assms(2)]] assms(3,4) by (simp add: minus_fl_def)

lemma near_int: "near (Fin (of_int n)) (of_int n) 0"
  by (simp add: near_def)

text \<open>A literal below two times a small integer.\<close>

lemma near_lit_times:
  assumes "0 < c" "c < 2" "- 255 \<le> n" "n \<le> 255"
  shows "near (lit c * Fin (of_int n)) (c * of_int n) (1 / 100)"
proof -
  have l: "near (lit c) c ulp" unfolding lit_def using assms(1,2) by (intro rnd_near) linarith+
  define q where "q = qval (lit c :: f32)"
  have q: "\<bar>q - c\<bar> \<le> ulp" "is_finite (lit c :: f32)" using l unfolding near_def q_def abs_le_iff by linarith+
  have "of_int n \<le> (of_int 255 :: rat)" "of_int (- 255) \<le> (of_int n :: rat)"
    using assms(3,4) unfolding of_int_le_iff by simp_all
  then have n: "\<bar>of_int n :: rat\<bar> \<le> 255" by (simp add: abs_le_iff)
  have "\<bar>(q - c) * of_int n\<bar> \<le> ulp * 255" unfolding abs_mult using q(1) n by (intro mult_mono) simp_all
  then have d: "c * of_int n - 1 / 128 \<le> q * of_int n" "q * of_int n \<le> c * of_int n + 1 / 128"
    unfolding left_diff_distrib abs_le_iff by linarith+
  have "\<bar>c * of_int n\<bar> \<le> 2 * 255" unfolding abs_mult using assms n by (intro mult_mono) simp_all
  then have b: "- 1024 < q * of_int n" "q * of_int n < 1024" using d unfolding abs_le_iff by linarith+
  have "near (rnd (q * of_int n)) (q * of_int n) ulp" using b by (rule rnd_near)
  moreover have "q * of_int n = 0 \<and> lit c * Fin (of_int n) \<in> {Fin 0, NZero :: f32}
      \<or> lit c * Fin (of_int n) = (rnd (q * of_int n) :: f32)"
    using q(2) by (auto simp: times_fl_def Let_def finite_not_nan signed_zero_def q_def)
  ultimately have "near (lit c * Fin (of_int n)) (q * of_int n) ulp" by (auto simp: near_def)
  then show ?thesis using d unfolding near_def by linarith
qed

lemma to_u8_round:
  assumes "is_finite x"
  shows "uint (f32_to_u8 (f32_round x)) = max 0 (min 255 (round_half (qval x)))"
proof -
  have w: "uint (word_of_int (max 0 (min 255 k)) :: u8) = max 0 (min 255 k)" for k
    by (simp add: uint_word_of_int max_def min_def)
  have w2: "0 \<le> k \<Longrightarrow> k \<le> 255 \<Longrightarrow> uint (word_of_int k :: u8) = k" for k
    using w [of k] by simp
  have r0: "round_half 0 = 0" by (simp add: round_half_def floor_eq_iff)
  show ?thesis
  proof (cases x)
    case (Fin q)
    then show ?thesis
      by (auto simp: f32_round_def f32_to_u8_def clamp_def truncq_def w w2)
  qed (use assms r0 in \<open>simp_all add: f32_round_def f32_to_u8_def clamp_def\<close>)
qed

lemma clamp_u8: "uint (clamp_i32_to_u8 k) = max 0 (min 255 k)"
  by (simp add: clamp_i32_to_u8_def uint_word_of_int max_def min_def)

text \<open>An integer within 1.4 of the value the floats round gives a byte that differs by one at most.\<close>

lemma byte_within_one:
  assumes "near x v (1 / 20)" "v - 7 / 5 < of_int k" "of_int k < v + 7 / 5"
  shows "\<bar>uint (f32_to_u8 (f32_round x)) - uint (clamp_i32_to_u8 k)\<bar> \<le> 1"
proof -
  have fin: "is_finite x" and q: "v - 1 / 20 \<le> qval x" "qval x \<le> v + 1 / 20" using assms(1) by (simp_all add: near_def)
  have "of_int (round_half (qval x)) \<le> qval x + 1 / 2 \<and> qval x - 1 / 2 \<le> of_int (round_half (qval x))"
    using floor_correct [of "qval x + 1 / 2"] ceiling_correct [of "qval x - 1 / 2"]
    by (cases "0 \<le> qval x"; simp only: round_half_def if_True if_False of_int_add of_int_1; linarith)
  then have "(of_int (round_half (qval x)) :: rat) < of_int (k + 2)" "(of_int (k - 2) :: rat) < of_int (round_half (qval x))"
    using q assms(2,3) by (simp_all only: of_int_add of_int_diff of_int_numeral) linarith+
  then have "round_half (qval x) < k + 2" "k - 2 < round_half (qval x)" by (simp_all only: of_int_less_iff)
  then show ?thesis unfolding to_u8_round [OF fin] clamp_u8 by (auto simp: max_def min_def)
qed

lemma div_256: "of_int (a div 256) \<le> (of_int a / 256 :: rat)" "(of_int a / 256 :: rat) - 1 < of_int (a div 256)"
proof -
  have "a div 256 = \<lfloor>of_int a / 256 :: rat\<rfloor>" by (metis floor_divide_of_int_eq of_int_numeral)
  then show "of_int (a div 256) \<le> (of_int a / 256 :: rat)" "(of_int a / 256 :: rat) - 1 < of_int (a div 256)"
    using floor_correct [of "of_int a / 256 :: rat"] by linarith+
qed

text \<open>The integer conversion of luma and chroma to RGB gives bytes that differ by at most one
  from those of the 32-bit float reference.\<close>

lemma bt601_within_one:
  assumes "0 \<le> y" "y \<le> 255" "- 128 \<le> cb" "cb \<le> 127" "- 128 \<le> cr" "cr \<le> 127"
  shows "case (ycbcr_to_rgb (Fin (of_int y)) (Fin (of_int cb)) (Fin (of_int cr)), ycbcr_to_rgb_i32 y cb cr) of
    ((r, g, b), (r', g', b')) \<Rightarrow>
      \<bar>uint r - uint r'\<bar> \<le> 1 \<and> \<bar>uint g - uint g'\<bar> \<le> 1 \<and> \<bar>uint b - uint b'\<bar> \<le> 1"
proof -
  have q: "0 \<le> (of_int y :: rat)" "(of_int y :: rat) \<le> 255" "- 128 \<le> (of_int cb :: rat)" "(of_int cb :: rat) \<le> 127"
    "- 128 \<le> (of_int cr :: rat)" "(of_int cr :: rat) \<le> 127"
    using assms by (simp_all add: of_int_le_iff [of _ 255, where 'a=rat, simplified]
        of_int_le_iff [of _ 127, where 'a=rat, simplified] of_int_le_iff [of "- 128", where 'a=rat, simplified])
  have t: "near (lit c * Fin (of_int n)) (c * of_int n) (1 / 100)" if "0 < c" "c < 2" "- 128 \<le> n" "n \<le> 127" for c n
    using near_lit_times [of c n] that by simp
  have r: "near (Fin (of_int y) + lit (1402 / 1000) * Fin (of_int cr)) (of_int y + 1402 / 1000 * of_int cr) (0 + 1 / 100 + ulp)"
    using q by (intro near_plus near_int t assms(5,6)) linarith+
  have b: "near (Fin (of_int y) + lit (1772 / 1000) * Fin (of_int cb)) (of_int y + 1772 / 1000 * of_int cb) (0 + 1 / 100 + ulp)"
    using q by (intro near_plus near_int t assms(3,4)) linarith+
  have g0: "near (Fin (of_int y) - lit (344 / 1000) * Fin (of_int cb)) (of_int y - 344 / 1000 * of_int cb) (0 + 1 / 100 + ulp)"
    using q by (intro near_diff near_int t assms(3,4)) linarith+
  have g: "near (Fin (of_int y) - lit (344 / 1000) * Fin (of_int cb) - lit (714 / 1000) * Fin (of_int cr))
      (of_int y - 344 / 1000 * of_int cb - 714 / 1000 * of_int cr) (0 + 1 / 100 + ulp + 1 / 100 + ulp)"
    using q by (intro near_diff g0 t assms(5,6)) linarith+
  have wide: "near x v (1 / 20)" if "near x v e" "e \<le> 1 / 20" for x v e
    using that by (simp add: near_def)
  have R: "\<bar>uint (f32_to_u8 (f32_round (Fin (of_int y) + lit (1402 / 1000) * Fin (of_int cr))))
      - uint (clamp_i32_to_u8 (y + 359 * cr div 256))\<bar> \<le> 1"
    using div_256 [of "359 * cr"] q unfolding of_int_add of_int_mult of_int_numeral
    by (intro byte_within_one [OF wide [OF r]]; (simp only: of_int_add of_int_diff)?; linarith)
  have B: "\<bar>uint (f32_to_u8 (f32_round (Fin (of_int y) + lit (1772 / 1000) * Fin (of_int cb))))
      - uint (clamp_i32_to_u8 (y + 454 * cb div 256))\<bar> \<le> 1"
    using div_256 [of "454 * cb"] q unfolding of_int_add of_int_mult of_int_numeral
    by (intro byte_within_one [OF wide [OF b]]; (simp only: of_int_add of_int_diff)?; linarith)
  have G: "\<bar>uint (f32_to_u8 (f32_round (Fin (of_int y) - lit (344 / 1000) * Fin (of_int cb) - lit (714 / 1000) * Fin (of_int cr))))
      - uint (clamp_i32_to_u8 (y - (88 * cb + 183 * cr) div 256))\<bar> \<le> 1"
    using div_256 [of "88 * cb + 183 * cr"] q unfolding of_int_add of_int_mult of_int_numeral
    by (intro byte_within_one [OF wide [OF g]]; (simp only: of_int_add of_int_diff)?; linarith)
  show ?thesis using R G B by (simp add: ycbcr_to_rgb_def ycbcr_to_rgb_i32_def Let_def)
qed

lemma bt601_within_one_witness:
  "case (ycbcr_to_rgb (Fin (of_int 200)) (Fin (of_int (- 100))) (Fin (of_int 50)), ycbcr_to_rgb_i32 200 (- 100) 50) of
    ((r, g, b), (r', g', b')) \<Rightarrow>
      \<bar>uint r - uint r'\<bar> \<le> 1 \<and> \<bar>uint g - uint g'\<bar> \<le> 1 \<and> \<bar>uint b - uint b'\<bar> \<le> 1"
  by (rule bt601_within_one) simp_all

end
