(* ===== verification/Mavlink_Core.thy ===== *)
theory Mavlink_Core
  imports Fc_Adapter
begin

text \<open>
  \<open>crates/fc-adapter/src/mavlink_core.rs\<close>, its two wrappers \<open>sitl_mavlink.rs\<close> and
  \<open>ardupilot_mavlink.rs\<close>, and the factory of \<open>lib.rs\<close>: the adapter that speaks MAVLink.  The mavlink
  crate is third-party code: its enumerations are datatypes with its names, opening a connection and
  sending on it are the parameter record \<open>net_ops\<close> over a state of the network.  The reader thread
  is the function \<open>process_message\<close>, applied to each message the connection delivers.
\<close>

section \<open>Messages\<close>

datatype mav_cmd =
    MAV_CMD_DO_SET_ROI_LOCATION
  | MAV_CMD_DO_SET_ROI_NONE
  | MAV_CMD_DO_SET_MODE
  | MAV_CMD_COMPONENT_ARM_DISARM

datatype typemask =
    VX_IGNORE | VY_IGNORE | VZ_IGNORE | AX_IGNORE | AY_IGNORE | AZ_IGNORE | YAW_RATE_IGNORE

datatype mav_frame = MAV_FRAME_LOCAL_OFFSET_NED

datatype mav_autopilot = MAV_AUTOPILOT_ARDUPILOTMEGA | MAV_AUTOPILOT_OTHER nat

datatype mav_mode_flag = MAV_MODE_FLAG_SAFETY_ARMED | MAV_MODE_FLAG_OTHER nat

record mav_header =
  mh_system_id :: u8
  mh_component_id :: u8
  mh_sequence :: u8

record command_long_data =
  cl_target_system :: u8
  cl_target_component :: u8
  cl_command :: mav_cmd
  cl_confirmation :: u8
  cl_params :: "f32 list"

record set_position_data =
  sp_time_boot_ms :: u32
  sp_target_system :: u8
  sp_target_component :: u8
  sp_coordinate_frame :: mav_frame
  sp_type_mask :: "typemask list"
  sp_x :: f32
  sp_y :: f32
  sp_z :: f32
  sp_velocity :: "f32 list"
  sp_acceleration :: "f32 list"
  sp_yaw :: f32
  sp_yaw_rate :: f32

record heartbeat_data =
  hbd_autopilot :: mav_autopilot
  hbd_base_mode :: "mav_mode_flag set"
  hbd_custom_mode :: u32

record attitude_data =
  atd_roll :: f32
  atd_pitch :: f32
  atd_yaw :: f32
  atd_rollspeed :: f32
  atd_pitchspeed :: f32
  atd_yawspeed :: f32

record position_data =
  gpi_lat :: "32 word"
  gpi_lon :: "32 word"
  gpi_alt :: "32 word"
  gpi_relative_alt :: "32 word"

datatype mav_message =
    COMMAND_LONG command_long_data
  | SET_POSITION_TARGET_LOCAL_NED set_position_data
  | HEARTBEAT heartbeat_data
  | ATTITUDE attitude_data
  | GLOBAL_POSITION_INT position_data
  | OTHER_MESSAGE nat

section \<open>Configuration and cache\<close>

record mavlink_core_config =
  mcc_endpoint :: string
  mcc_system_id :: u8
  mcc_component_id :: u8
  mcc_target_system_id :: u8
  mcc_target_component_id :: u8
  mcc_heartbeat_timeout_ms :: nat

definition mavlink_core_config_default :: mavlink_core_config where
  "mavlink_core_config_default = \<lparr>mcc_endpoint = ''serial:/dev/ttyACM0:115200'', mcc_system_id = 255,
     mcc_component_id = 1, mcc_target_system_id = 1, mcc_target_component_id = 1,
     mcc_heartbeat_timeout_ms = 1000\<rparr>"

definition core_config_from_common :: "fc_config \<Rightarrow> mavlink_core_config" where
  "core_config_from_common cfg = \<lparr>mcc_endpoint = fcc_endpoint cfg, mcc_system_id = fcc_system_id cfg,
     mcc_component_id = fcc_component_id cfg, mcc_target_system_id = fcc_target_system_id cfg,
     mcc_target_component_id = fcc_target_component_id cfg,
     mcc_heartbeat_timeout_ms = fcc_heartbeat_timeout_ms cfg\<rparr>"

record telemetry_cache =
  tc_attitude :: attitude
  tc_global_position :: "global_position option"
  tc_last_heartbeat :: "instant option"
  tc_last_heartbeat_chrono :: utc
  tc_armed :: bool
  tc_mode :: flight_mode

definition cache_fresh :: "utc \<Rightarrow> telemetry_cache" where
  "cache_fresh now = \<lparr>tc_attitude = attitude_default, tc_global_position = None, tc_last_heartbeat = None,
     tc_last_heartbeat_chrono = now - int (from_secs 60), tc_armed = False, tc_mode = Unknown\<rparr>"

definition heartbeat_to_flight_mode :: "heartbeat_data \<Rightarrow> flight_mode" where
  "heartbeat_to_flight_mode hb =
    (if hbd_autopilot hb \<noteq> MAV_AUTOPILOT_ARDUPILOTMEGA then Unknown
     else if hbd_custom_mode hb = 0 then Manual
     else if hbd_custom_mode hb = 2 then Stabilize
     else if hbd_custom_mode hb = 10 then Auto
     else if hbd_custom_mode hb = 11 then Rtl
     else if hbd_custom_mode hb = 12 then Loiter
     else if hbd_custom_mode hb = 15 then Guided
     else Unknown)"

text \<open>The header of a message, and so its sender, is not looked at.\<close>

definition process_message :: "clocks \<Rightarrow> mav_header \<times> mav_message \<Rightarrow> telemetry_cache \<Rightarrow> telemetry_cache" where
  "process_message now m c =
    (case snd m of
       HEARTBEAT hb \<Rightarrow>
         c\<lparr>tc_last_heartbeat := Some (mono now), tc_last_heartbeat_chrono := wall now,
           tc_armed := MAV_MODE_FLAG_SAFETY_ARMED \<in> hbd_base_mode hb,
           tc_mode := heartbeat_to_flight_mode hb\<rparr>
     | ATTITUDE att \<Rightarrow>
         c\<lparr>tc_attitude := \<lparr>att_roll = atd_roll att, att_pitch = atd_pitch att, att_yaw = atd_yaw att,
             att_roll_rate = atd_rollspeed att, att_pitch_rate = atd_pitchspeed att,
             att_yaw_rate = atd_yawspeed att\<rparr>\<rparr>
     | GLOBAL_POSITION_INT pos \<Rightarrow>
         c\<lparr>tc_global_position := Some \<lparr>
             gp_lat = fl_of_int (sint (gpi_lat pos)) / lit 10000000,
             gp_lon = fl_of_int (sint (gpi_lon pos)) / lit 10000000,
             gp_alt_msl = fl_of_int (sint (gpi_alt pos)) / lit 1000,
             gp_alt_agl = fl_of_int (sint (gpi_relative_alt pos)) / lit 1000\<rparr>\<rparr>
     | _ \<Rightarrow> c)"

section \<open>The core\<close>

text \<open>Opening a connection yields a handle; sending on a handle succeeds or fails with a text.\<close>

record 'net net_ops =
  net_connect :: "string \<Rightarrow> 'net \<Rightarrow> (string, nat) result \<times> 'net"
  net_send :: "nat \<Rightarrow> mav_header \<Rightarrow> mav_message \<Rightarrow> 'net \<Rightarrow> (string, unit) result \<times> 'net"

record 'net mavlink_core =
  mc_config :: mavlink_core_config
  mc_vehicle :: "nat option"
  mc_cache :: telemetry_cache
  mc_connected :: bool
  mc_net :: 'net

definition core_new :: "utc \<Rightarrow> 'net \<Rightarrow> mavlink_core_config \<Rightarrow> 'net mavlink_core" where
  "core_new now net config = \<lparr>mc_config = config, mc_vehicle = None, mc_cache = cache_fresh now,
     mc_connected = False, mc_net = net\<rparr>"

definition core_from_common :: "utc \<Rightarrow> 'net \<Rightarrow> fc_config \<Rightarrow> 'net mavlink_core" where
  "core_from_common now net cfg = core_new now net (core_config_from_common cfg)"

text \<open>One message of the reader thread.\<close>

definition reader_receives :: "clocks \<Rightarrow> mav_header \<times> mav_message \<Rightarrow> 'net mavlink_core \<Rightarrow> 'net mavlink_core" where
  "reader_receives now m s = s\<lparr>mc_cache := process_message now m (mc_cache s)\<rparr>"

definition core_header :: "mavlink_core_config \<Rightarrow> mav_header" where
  "core_header config = \<lparr>mh_system_id = mcc_system_id config, mh_component_id = mcc_component_id config,
     mh_sequence = 0\<rparr>"

text \<open>Sending a message that is built when the adapter is connected.\<close>

definition send_on ::
  "'net net_ops \<Rightarrow> string \<Rightarrow> string \<Rightarrow> (mavlink_core_config \<Rightarrow> mav_message) \<Rightarrow> 'net mavlink_core
    \<Rightarrow> unit fc_result \<times> 'net mavlink_core" where
  "send_on net missing failed msg s =
    (case mc_vehicle s of
       None \<Rightarrow> (Inl (FcConnection missing), s)
     | Some v \<Rightarrow>
         (case net_send net v (core_header (mc_config s)) (msg (mc_config s)) (mc_net s) of
            (Inl e, n) \<Rightarrow> (Inl (FcConnection (failed @ e)), s\<lparr>mc_net := n\<rparr>)
          | (Inr _, n) \<Rightarrow> (Inr (), s\<lparr>mc_net := n\<rparr>)))"

definition command_long :: "mav_cmd \<Rightarrow> f32 list \<Rightarrow> mavlink_core_config \<Rightarrow> mav_message" where
  "command_long command params config = COMMAND_LONG
     \<lparr>cl_target_system = mcc_target_system_id config, cl_target_component = mcc_target_component_id config,
      cl_command = command, cl_confirmation = 0, cl_params = params\<rparr>"

definition send_command_long ::
  "'net net_ops \<Rightarrow> mav_cmd \<Rightarrow> f32 list \<Rightarrow> 'net mavlink_core \<Rightarrow> unit fc_result \<times> 'net mavlink_core" where
  "send_command_long net command params s =
     send_on net (''not connected '' @ [CHR 0xE2, CHR 0x80, CHR 0x94] @ '' call connect() first'')
       ''send COMMAND_LONG failed: '' (command_long command params) s"

section \<open>The operations of the adapter\<close>

definition core_connect :: "'net net_ops \<Rightarrow> clocks \<Rightarrow> 'net mavlink_core \<Rightarrow> unit fc_result \<times> 'net mavlink_core" where
  "core_connect net c s =
    (case net_connect net (mcc_endpoint (mc_config s)) (mc_net s) of
       (Inl e, n) \<Rightarrow> (Inl (FcConnection (''mavlink connect failed: '' @ e)), s\<lparr>mc_net := n\<rparr>)
     | (Inr v, n) \<Rightarrow> (Inr (), s\<lparr>mc_net := n, mc_vehicle := Some v, mc_connected := True\<rparr>))"

definition core_disconnect :: "'net mavlink_core \<Rightarrow> unit fc_result \<times> 'net mavlink_core" where
  "core_disconnect s = (Inr (), s\<lparr>mc_connected := False, mc_vehicle := None\<rparr>)"

definition roi_command :: "roi_target \<Rightarrow> mav_cmd \<times> f32 list" where
  "roi_command roi = (case roi of
     GlobalLatLng lat lon alt \<Rightarrow>
       (MAV_CMD_DO_SET_ROI_LOCATION, [Fin 0, Fin 0, Fin 0, Fin 0, f32_of_f64 lat, f32_of_f64 lon, alt])
   | LocalNed north east down \<Rightarrow>
       (MAV_CMD_DO_SET_ROI_LOCATION, [Fin 0, Fin 0, Fin 0, Fin 0, north, east, down])
   | RoiNone \<Rightarrow> (MAV_CMD_DO_SET_ROI_NONE, replicate 7 (Fin 0)))"

definition core_set_roi :: "'net net_ops \<Rightarrow> roi_target \<Rightarrow> 'net mavlink_core \<Rightarrow> unit fc_result \<times> 'net mavlink_core" where
  "core_set_roi net roi s = (case roi_command roi of (cmd, params) \<Rightarrow> send_command_long net cmd params s)"

definition position_message :: "position_target_ned \<Rightarrow> mavlink_core_config \<Rightarrow> mav_message" where
  "position_message t config = SET_POSITION_TARGET_LOCAL_NED
     \<lparr>sp_time_boot_ms = 0, sp_target_system = mcc_target_system_id config,
      sp_target_component = mcc_target_component_id config,
      sp_coordinate_frame = MAV_FRAME_LOCAL_OFFSET_NED,
      sp_type_mask = [VX_IGNORE, VY_IGNORE, VZ_IGNORE, AX_IGNORE, AY_IGNORE, AZ_IGNORE, YAW_RATE_IGNORE],
      sp_x = pt_north t, sp_y = pt_east t, sp_z = pt_down t,
      sp_velocity = replicate 3 (Fin 0), sp_acceleration = replicate 3 (Fin 0),
      sp_yaw = pt_yaw t, sp_yaw_rate = Fin 0\<rparr>"

definition core_set_position ::
  "'net net_ops \<Rightarrow> position_target_ned \<Rightarrow> 'net mavlink_core \<Rightarrow> unit fc_result \<times> 'net mavlink_core" where
  "core_set_position net t s =
     send_on net ''not connected'' ''send SET_POSITION_TARGET_LOCAL_NED failed: '' (position_message t) s"

fun custom_mode :: "flight_mode \<Rightarrow> u32 option" where
  "custom_mode Manual = Some 0"
| "custom_mode Stabilize = Some 2"
| "custom_mode Loiter = Some 12"
| "custom_mode Guided = Some 15"
| "custom_mode Rtl = Some 11"
| "custom_mode Auto = Some 10"
| "custom_mode _ = None"

definition mode_params :: "u32 \<Rightarrow> f32 list" where
  "mode_params m = [Fin 1, fl_of_nat (unat m), Fin 0, Fin 0, Fin 0, Fin 0, Fin 0]"

definition core_set_mode :: "'net net_ops \<Rightarrow> flight_mode \<Rightarrow> 'net mavlink_core \<Rightarrow> unit fc_result \<times> 'net mavlink_core" where
  "core_set_mode net mode s =
    (case custom_mode mode of
       None \<Rightarrow> (Inl (FcUnsupportedMode mode), s)
     | Some m \<Rightarrow> send_command_long net MAV_CMD_DO_SET_MODE (mode_params m) s)"

definition core_arm :: "'net net_ops \<Rightarrow> 'net mavlink_core \<Rightarrow> unit fc_result \<times> 'net mavlink_core" where
  "core_arm net s = send_command_long net MAV_CMD_COMPONENT_ARM_DISARM (Fin 1 # replicate 6 (Fin 0)) s"

definition core_disarm :: "'net net_ops \<Rightarrow> 'net mavlink_core \<Rightarrow> unit fc_result \<times> 'net mavlink_core" where
  "core_disarm net s = send_command_long net MAV_CMD_COMPONENT_ARM_DISARM (replicate 7 (Fin 0)) s"

definition core_heartbeat_status :: "clocks \<Rightarrow> 'net mavlink_core \<Rightarrow> heartbeat_status" where
  "core_heartbeat_status c s = \<lparr>last_heartbeat = tc_last_heartbeat_chrono (mc_cache s),
     hb_armed = tc_armed (mc_cache s), hb_mode = tc_mode (mc_cache s)\<rparr>"

definition core_ops :: "'net net_ops \<Rightarrow> 'net mavlink_core fc_ops" where
  "core_ops net = \<lparr>op_set_roi = core_set_roi net, op_set_position = core_set_position net,
     op_set_mode = core_set_mode net, op_arm = core_arm net, op_disarm = core_disarm net,
     op_attitude = (\<lambda>s. tc_attitude (mc_cache s)), op_global_position = (\<lambda>s. tc_global_position (mc_cache s)),
     op_heartbeat_status = core_heartbeat_status, op_connect = core_connect net,
     op_disconnect = core_disconnect\<rparr>"

section \<open>Wrappers and factory\<close>

text \<open>The wrappers keep a configuration of their own and delegate every operation to the core.\<close>

record sitl_config =
  sc_endpoint :: string
  sc_system_id :: u8
  sc_component_id :: u8
  sc_target_system_id :: u8
  sc_target_component_id :: u8

definition sitl_config_default :: sitl_config where
  "sitl_config_default = \<lparr>sc_endpoint = ''127.0.0.1:14550'', sc_system_id = 255, sc_component_id = 1,
     sc_target_system_id = 1, sc_target_component_id = 1\<rparr>"

definition sitl_from_common :: "fc_config \<Rightarrow> sitl_config" where
  "sitl_from_common cfg = \<lparr>sc_endpoint = fcc_endpoint cfg, sc_system_id = fcc_system_id cfg,
     sc_component_id = fcc_component_id cfg, sc_target_system_id = fcc_target_system_id cfg,
     sc_target_component_id = fcc_target_component_id cfg\<rparr>"

definition sitl_to_core :: "sitl_config \<Rightarrow> mavlink_core_config" where
  "sitl_to_core c = \<lparr>mcc_endpoint = ''udpin:'' @ sc_endpoint c, mcc_system_id = sc_system_id c,
     mcc_component_id = sc_component_id c, mcc_target_system_id = sc_target_system_id c,
     mcc_target_component_id = sc_target_component_id c, mcc_heartbeat_timeout_ms = 1000\<rparr>"

record ardupilot_config = sitl_config +
  ac_heartbeat_timeout_ms :: nat

definition ardupilot_config_default :: ardupilot_config where
  "ardupilot_config_default = \<lparr>sc_endpoint = ''serial:/dev/ttyACM0:115200'', sc_system_id = 255,
     sc_component_id = 1, sc_target_system_id = 1, sc_target_component_id = 1, ac_heartbeat_timeout_ms = 1000\<rparr>"

definition ardupilot_from_common :: "fc_config \<Rightarrow> ardupilot_config" where
  "ardupilot_from_common cfg = \<lparr>sc_endpoint = fcc_endpoint cfg, sc_system_id = fcc_system_id cfg,
     sc_component_id = fcc_component_id cfg, sc_target_system_id = fcc_target_system_id cfg,
     sc_target_component_id = fcc_target_component_id cfg,
     ac_heartbeat_timeout_ms = fcc_heartbeat_timeout_ms cfg\<rparr>"

definition ardupilot_to_core :: "ardupilot_config \<Rightarrow> mavlink_core_config" where
  "ardupilot_to_core c = \<lparr>mcc_endpoint = sc_endpoint c, mcc_system_id = sc_system_id c,
     mcc_component_id = sc_component_id c, mcc_target_system_id = sc_target_system_id c,
     mcc_target_component_id = sc_target_component_id c, mcc_heartbeat_timeout_ms = ac_heartbeat_timeout_ms c\<rparr>"

datatype 'net adapter =
    MockFcAdapter mock_fc_state
  | SitlMavlinkAdapter "'net mavlink_core" sitl_config
  | ArduPilotMavlinkAdapter "'net mavlink_core" ardupilot_config

definition build_adapter :: "utc \<Rightarrow> 'net \<Rightarrow> fc_config \<Rightarrow> 'net adapter" where
  "build_adapter now net cfg =
    (if fcc_adapter cfg = ''mock'' then MockFcAdapter mock_new
     else if fcc_adapter cfg = ''sitl-mavlink''
          then let c = sitl_from_common cfg in SitlMavlinkAdapter (core_new now net (sitl_to_core c)) c
     else if fcc_adapter cfg = ''ardupilot-mavlink''
          then let c = ardupilot_from_common cfg in ArduPilotMavlinkAdapter (core_new now net (ardupilot_to_core c)) c
     else MockFcAdapter mock_new)"

text \<open>A trait call on a built adapter: the mock runs it itself, a wrapper delegates it to its core.\<close>

definition delegate ::
  "(mock_fc_state \<Rightarrow> 'r \<times> mock_fc_state) \<Rightarrow> ('net mavlink_core \<Rightarrow> 'r \<times> 'net mavlink_core)
    \<Rightarrow> 'net adapter \<Rightarrow> 'r \<times> 'net adapter" where
  "delegate on_mock on_core a = (case a of
     MockFcAdapter m \<Rightarrow> map_prod id MockFcAdapter (on_mock m)
   | SitlMavlinkAdapter s c \<Rightarrow> map_prod id (\<lambda>s. SitlMavlinkAdapter s c) (on_core s)
   | ArduPilotMavlinkAdapter s c \<Rightarrow> map_prod id (\<lambda>s. ArduPilotMavlinkAdapter s c) (on_core s))"

definition query :: "(mock_fc_state \<Rightarrow> 'r) \<Rightarrow> ('net mavlink_core \<Rightarrow> 'r) \<Rightarrow> 'net adapter \<Rightarrow> 'r" where
  "query on_mock on_core a = (case a of
     MockFcAdapter m \<Rightarrow> on_mock m | SitlMavlinkAdapter s c \<Rightarrow> on_core s | ArduPilotMavlinkAdapter s c \<Rightarrow> on_core s)"

definition adapter_ops :: "'net net_ops \<Rightarrow> 'net adapter fc_ops" where
  "adapter_ops net = (let m = mock_ops; k = core_ops net in
     \<lparr>op_set_roi = (\<lambda>roi. delegate (op_set_roi m roi) (op_set_roi k roi)),
      op_set_position = (\<lambda>t. delegate (op_set_position m t) (op_set_position k t)),
      op_set_mode = (\<lambda>f. delegate (op_set_mode m f) (op_set_mode k f)),
      op_arm = delegate (op_arm m) (op_arm k), op_disarm = delegate (op_disarm m) (op_disarm k),
      op_attitude = query (op_attitude m) (op_attitude k),
      op_global_position = query (op_global_position m) (op_global_position k),
      op_heartbeat_status = (\<lambda>c. query (op_heartbeat_status m c) (op_heartbeat_status k c)),
      op_connect = (\<lambda>c. delegate (op_connect m c) (op_connect k c)),
      op_disconnect = delegate (op_disconnect m) (op_disconnect k)\<rparr>)"

section \<open>What goes over the wire\<close>

text \<open>
  A frame on the wire carries the system and the component of its sender and a message; the sequence
  number is the business of the crate, which does not keep the one of the header.  The link is honest
  when a send that succeeds transmits its message, one that fails transmits nothing, and opening a
  connection transmits nothing.
\<close>

type_synonym wire_frame = "u8 \<times> u8 \<times> mav_message"

definition link_contract :: "'net net_ops \<Rightarrow> ('net \<Rightarrow> wire_frame list) \<Rightarrow> bool" where
  "link_contract net wire \<longleftrightarrow>
     (\<forall>v h m n. wire (snd (net_send net v h m n))
        = wire n @ (if is_ok (fst (net_send net v h m n)) then [(mh_system_id h, mh_component_id h, m)] else []))
     \<and> (\<forall>url n. wire (snd (net_connect net url n)) = wire n)"

text \<open>
  What the autopilot at the other end is ordered to do.  \<open>vehicle_reads\<close> follows the definition of the
  messages in MAVLink's common dialect and ArduPlane's numbers of the flight modes, not the code: an
  offset from the present position in metres north, east and down with a heading, when nothing but the
  position and the yaw is to be used; a custom mode, when the first parameter says that a custom mode
  is meant; the place to point the camera at, in degrees of latitude and longitude and an altitude.
\<close>

datatype vehicle_order =
    FlyTo f32 f32 f32 f32
  | SwitchMode flight_mode
  | LookAt f32 f32 f32
  | LookAhead
  | ArmMotors bool

definition plane_modes :: "(f32 \<times> flight_mode) list" where
  "plane_modes = [(Fin 0, Manual), (Fin 2, Stabilize), (Fin 10, Auto), (Fin 11, Rtl), (Fin 12, Loiter),
     (Fin 15, Guided)]"

definition long_order :: "mav_cmd \<Rightarrow> f32 list \<Rightarrow> vehicle_order option" where
  "long_order cmd ps =
    (if length ps \<noteq> 7 then None
     else case cmd of
       MAV_CMD_DO_SET_MODE \<Rightarrow> if ps ! 0 = Fin 1 then map_option SwitchMode (map_of plane_modes (ps ! 1)) else None
     | MAV_CMD_DO_SET_ROI_LOCATION \<Rightarrow> Some (LookAt (ps ! 4) (ps ! 5) (ps ! 6))
     | MAV_CMD_DO_SET_ROI_NONE \<Rightarrow> Some LookAhead
     | MAV_CMD_COMPONENT_ARM_DISARM \<Rightarrow>
         if ps ! 0 = Fin 1 then Some (ArmMotors True) else if ps ! 0 = Fin 0 then Some (ArmMotors False) else None)"

fun vehicle_reads :: "mav_message \<Rightarrow> (u8 \<times> u8 \<times> vehicle_order) option" where
  "vehicle_reads (COMMAND_LONG d) =
     map_option (\<lambda>ord. (cl_target_system d, cl_target_component d, ord)) (long_order (cl_command d) (cl_params d))"
| "vehicle_reads (SET_POSITION_TARGET_LOCAL_NED d) =
     (if sp_coordinate_frame d = MAV_FRAME_LOCAL_OFFSET_NED
       \<and> set (sp_type_mask d) = {VX_IGNORE, VY_IGNORE, VZ_IGNORE, AX_IGNORE, AY_IGNORE, AZ_IGNORE, YAW_RATE_IGNORE}
      then Some (sp_target_system d, sp_target_component d, FlyTo (sp_x d) (sp_y d) (sp_z d) (sp_yaw d))
      else None)"
| "vehicle_reads _ = None"

text \<open>A frame as it is read: its sender, its addressee and the order.\<close>

definition read_frame_order :: "wire_frame \<Rightarrow> (u8 \<times> u8 \<times> u8 \<times> u8 \<times> vehicle_order) option" where
  "read_frame_order f = (case f of (from_sys, from_comp, m) \<Rightarrow>
     map_option (\<lambda>(to_sys, to_comp, ord). (from_sys, from_comp, to_sys, to_comp, ord)) (vehicle_reads m))"

text \<open>What each command of the trait means.  A local region of interest is the exception: its metres
  are read as degrees.\<close>

fun meant :: "recorded_command \<Rightarrow> vehicle_order" where
  "meant (SetPositionTargetLocalNed t) = FlyTo (pt_north t) (pt_east t) (pt_down t) (pt_yaw t)"
| "meant (SetMode m) = SwitchMode m"
| "meant (SetRoi (GlobalLatLng lat lon alt)) = LookAt (f32_of_f64 lat) (f32_of_f64 lon) alt"
| "meant (SetRoi (LocalNed n e d)) = LookAt n e d"
| "meant (SetRoi RoiNone) = LookAhead"
| "meant CmdArm = ArmMotors True"
| "meant CmdDisarm = ArmMotors False"

definition addressed :: "mavlink_core_config \<Rightarrow> recorded_command \<Rightarrow> u8 \<times> u8 \<times> u8 \<times> u8 \<times> vehicle_order" where
  "addressed config c = (mcc_system_id config, mcc_component_id config, mcc_target_system_id config,
     mcc_target_component_id config, meant c)"

text \<open>An adapter with a log of the commands it accepted; the log changes nothing.\<close>

definition log_ok :: "recorded_command list \<Rightarrow> ('fc \<Rightarrow> unit fc_result \<times> 'fc) \<Rightarrow> 'fc \<times> recorded_command list
    \<Rightarrow> unit fc_result \<times> 'fc \<times> recorded_command list" where
  "log_ok cs f s = (case f (fst s) of (r, fc) \<Rightarrow> (r, fc, snd s @ (if is_ok r then cs else [])))"

definition logged :: "'fc fc_ops \<Rightarrow> ('fc \<times> recorded_command list) fc_ops" where
  "logged ops = \<lparr>op_set_roi = (\<lambda>roi. log_ok [SetRoi roi] (op_set_roi ops roi)),
     op_set_position = (\<lambda>t. log_ok [SetPositionTargetLocalNed t] (op_set_position ops t)),
     op_set_mode = (\<lambda>m. log_ok [SetMode m] (op_set_mode ops m)),
     op_arm = log_ok [CmdArm] (op_arm ops), op_disarm = log_ok [CmdDisarm] (op_disarm ops),
     op_attitude = (\<lambda>s. op_attitude ops (fst s)), op_global_position = (\<lambda>s. op_global_position ops (fst s)),
     op_heartbeat_status = (\<lambda>c s. op_heartbeat_status ops c (fst s)),
     op_connect = (\<lambda>c. log_ok [] (op_connect ops c)), op_disconnect = log_ok [] (op_disconnect ops)\<rparr>"

lemma log_ok_appends: "appends snd cs s (log_ok cs f s)"
  by (auto simp: appends_def log_ok_def is_ok_def split: prod.splits sum.splits)

interpretation logged: fc_contract "logged ops" snd for ops :: "'fc fc_ops"
  by unfold_locales (simp_all add: logged_def log_ok_appends)

text \<open>From the wire \<open>w0\<close> and the log \<open>cs0\<close> on, the wire carries the log.\<close>

definition on_wire :: "('net \<Rightarrow> wire_frame list) \<Rightarrow> wire_frame list \<Rightarrow> recorded_command list
    \<Rightarrow> mavlink_core_config \<Rightarrow> 'net mavlink_core \<times> recorded_command list \<Rightarrow> bool" where
  "on_wire wire w0 cs0 config s \<longleftrightarrow> mc_config (fst s) = config
     \<and> (\<exists>fs cs. wire (mc_net (fst s)) = w0 @ fs \<and> snd s = cs0 @ cs
          \<and> map read_frame_order fs = map (Some \<circ> addressed config) cs)"

lemma on_wireI:
  "\<lbrakk>mc_config (fst s) = config; wire (mc_net (fst s)) = w0 @ fs; snd s = cs0 @ cs;
    map read_frame_order fs = map (Some \<circ> addressed config) cs\<rbrakk> \<Longrightarrow> on_wire wire w0 cs0 config s"
  by (auto simp: on_wire_def)

lemma on_wire_start: "on_wire wire (wire (mc_net (fst s))) (snd s) (mc_config (fst s)) s"
  by (rule on_wireI [of _ _ _ _ "[]" _ "[]"]) simp_all

lemma on_wire_send:
  assumes "link_contract net wire" "on_wire wire w0 cs0 config s"
    and "read_frame_order (mcc_system_id config, mcc_component_id config, msg config) = Some (addressed config c)"
  shows "on_wire wire w0 cs0 config (snd (log_ok [c] (send_on net missing failed msg) s))"
proof (cases "mc_vehicle (fst s)")
  case None
  then show ?thesis using assms(2) by (simp add: log_ok_def send_on_def)
next
  case (Some v)
  let ?f = "(mcc_system_id config, mcc_component_id config, msg config)"
  obtain fs cs where fs: "mc_config (fst s) = config" "wire (mc_net (fst s)) = w0 @ fs" "snd s = cs0 @ cs"
    "map read_frame_order fs = map (Some \<circ> addressed config) cs"
    using assms(2) by (auto simp: on_wire_def)
  let ?sent = "net_send net v (core_header config) (msg config) (mc_net (fst s))"
  have w: "wire (snd ?sent) = w0 @ fs @ (if is_ok (fst ?sent) then [?f] else [])"
    using assms(1) fs(2) by (simp add: link_contract_def core_header_def)
  show ?thesis
  proof (cases "fst ?sent")
    case (Inl e)
    then have "wire (snd ?sent) = w0 @ fs" using w by simp
    then show ?thesis
      by (intro on_wireI [of _ _ _ _ fs _ cs]) (use fs Some Inl in \<open>simp_all add: log_ok_def send_on_def case_prod_beta\<close>)
  next
    case (Inr u)
    then have "wire (snd ?sent) = w0 @ fs @ [?f]" using w by simp
    then show ?thesis
      by (intro on_wireI [of _ _ _ _ "fs @ [?f]" _ "cs @ [c]"])
        (use fs Some Inr assms(3) in \<open>simp_all add: log_ok_def send_on_def case_prod_beta\<close>)
  qed
qed

text \<open>Each message is read as the command it stands for.\<close>

lemma small_code: "k \<le> 15 \<Longrightarrow> fl_of_nat k = (Fin (of_nat k) :: f32)"
proof -
  assume "k \<le> 15"
  then have "k \<le> 16777216" by simp
  then show ?thesis unfolding fl_of_nat_def by (intro rnd_representable representable_nat)
qed

lemma read_command_long:
  "read_frame_order (mcc_system_id config, mcc_component_id config, command_long cmd ps config) = Some (addressed config c)
    \<longleftrightarrow> long_order cmd ps = Some (meant c)"
  by (auto simp: read_frame_order_def command_long_def addressed_def)

lemma read_messages:
  "case roi_command roi of (cmd, ps) \<Rightarrow> long_order cmd ps = Some (meant (SetRoi roi))"
  "read_frame_order (mcc_system_id config, mcc_component_id config, position_message t config)
     = Some (addressed config (SetPositionTargetLocalNed t))"
  "custom_mode m = Some n \<Longrightarrow> long_order MAV_CMD_DO_SET_MODE (mode_params n) = Some (meant (SetMode m))"
  "long_order MAV_CMD_COMPONENT_ARM_DISARM (Fin 1 # replicate 6 (Fin 0)) = Some (meant CmdArm)"
  "long_order MAV_CMD_COMPONENT_ARM_DISARM (replicate 7 (Fin 0)) = Some (meant CmdDisarm)"
proof -
  show "case roi_command roi of (cmd, ps) \<Rightarrow> long_order cmd ps = Some (meant (SetRoi roi))"
    by (cases roi) (simp_all add: roi_command_def long_order_def)
  show "read_frame_order (mcc_system_id config, mcc_component_id config, position_message t config)
     = Some (addressed config (SetPositionTargetLocalNed t))"
    by (simp add: read_frame_order_def position_message_def addressed_def)
  show "custom_mode m = Some n \<Longrightarrow> long_order MAV_CMD_DO_SET_MODE (mode_params n) = Some (meant (SetMode m))"
    by (cases m) (auto simp: long_order_def mode_params_def plane_modes_def small_code)
  show "long_order MAV_CMD_COMPONENT_ARM_DISARM (Fin 1 # replicate 6 (Fin 0)) = Some (meant CmdArm)"
    "long_order MAV_CMD_COMPONENT_ARM_DISARM (replicate 7 (Fin 0)) = Some (meant CmdDisarm)"
    by (simp_all add: long_order_def)
qed

lemma on_wire_ops:
  assumes "link_contract net wire" "on_wire wire w0 cs0 config s"
  shows "on_wire wire w0 cs0 config (snd (op_set_roi (logged (core_ops net)) roi s))"
    "on_wire wire w0 cs0 config (snd (op_set_position (logged (core_ops net)) t s))"
    "on_wire wire w0 cs0 config (snd (op_set_mode (logged (core_ops net)) m s))"
    "on_wire wire w0 cs0 config (snd (op_arm (logged (core_ops net)) s))"
    "on_wire wire w0 cs0 config (snd (op_disarm (logged (core_ops net)) s))"
    "on_wire wire w0 cs0 config (snd (op_connect (logged (core_ops net)) c s))"
    "on_wire wire w0 cs0 config (snd (op_disconnect (logged (core_ops net)) s))"
proof -
  note send = on_wire_send [OF assms] and read = read_command_long read_messages
  have l: "logged (core_ops net) = \<lparr>op_set_roi = (\<lambda>roi. log_ok [SetRoi roi] (core_set_roi net roi)),
     op_set_position = (\<lambda>t. log_ok [SetPositionTargetLocalNed t] (core_set_position net t)),
     op_set_mode = (\<lambda>m. log_ok [SetMode m] (core_set_mode net m)),
     op_arm = log_ok [CmdArm] (core_arm net), op_disarm = log_ok [CmdDisarm] (core_disarm net),
     op_attitude = (\<lambda>s. tc_attitude (mc_cache (fst s))), op_global_position = (\<lambda>s. tc_global_position (mc_cache (fst s))),
     op_heartbeat_status = (\<lambda>c s. core_heartbeat_status c (fst s)),
     op_connect = (\<lambda>c. log_ok [] (core_connect net c)), op_disconnect = log_ok [] core_disconnect\<rparr>"
    by (simp add: logged_def core_ops_def)
  note defs = l core_set_roi_def [abs_def] core_set_position_def [abs_def] core_set_mode_def [abs_def]
    core_arm_def [abs_def] core_disarm_def [abs_def] send_command_long_def [abs_def] roi_command_def
  show "on_wire wire w0 cs0 config (snd (op_set_roi (logged (core_ops net)) roi s))"
  proof -
    obtain cmd ps where r: "roi_command roi = (cmd, ps)" by fastforce
    then show ?thesis using read_messages(1) [of roi] by (simp add: defs send read_command_long)
  qed
  show "on_wire wire w0 cs0 config (snd (op_set_position (logged (core_ops net)) t s))"
    by (simp add: defs send read)
  show "on_wire wire w0 cs0 config (snd (op_set_mode (logged (core_ops net)) m s))"
  proof (cases "custom_mode m")
    case None
    then show ?thesis using assms(2) by (simp add: defs log_ok_def)
  next
    case (Some n)
    then show ?thesis by (simp add: defs send read)
  qed
  show "on_wire wire w0 cs0 config (snd (op_arm (logged (core_ops net)) s))"
    "on_wire wire w0 cs0 config (snd (op_disarm (logged (core_ops net)) s))"
    by (simp_all add: defs send read)
  show "on_wire wire w0 cs0 config (snd (op_connect (logged (core_ops net)) c s))"
    using assms by (auto simp: l log_ok_def core_connect_def on_wire_def link_contract_def
        split: prod.splits sum.splits) (metis snd_conv)+
  show "on_wire wire w0 cs0 config (snd (op_disconnect (logged (core_ops net)) s))"
    using assms(2) by (simp add: l log_ok_def core_disconnect_def on_wire_def)
qed

section \<open>Modes and heartbeats\<close>

text \<open>A mode the adapter can set is the mode it reports when the autopilot's heartbeat carries the
  same custom mode, its code goes over the wire without rounding, and the modes without a code are
  refused without sending anything.\<close>

lemma mode_roundtrip:
  "case custom_mode m of
     Some n \<Rightarrow>
       heartbeat_to_flight_mode \<lparr>hbd_autopilot = MAV_AUTOPILOT_ARDUPILOTMEGA, hbd_base_mode = flags, hbd_custom_mode = n\<rparr> = m
       \<and> mode_params n ! 1 = Fin (of_nat (unat n))
   | None \<Rightarrow> m \<in> {AltHold, Unknown} \<and> core_set_mode net m s = (Inl (FcUnsupportedMode m), s)"
  by (cases m) (simp_all add: heartbeat_to_flight_mode_def mode_params_def core_set_mode_def small_code)

text \<open>The sender of a heartbeat is not checked: one of a ground station keeps the link fresh and marks
  the vehicle as disarmed.\<close>

lemma foreign_heartbeat:
  assumes "hbd_autopilot hb \<noteq> MAV_AUTOPILOT_ARDUPILOTMEGA" "MAV_MODE_FLAG_SAFETY_ARMED \<notin> hbd_base_mode hb"
  shows "\<not> is_heartbeat_stale (core_ops net) c (wall now + 1000000 * int ms) (reader_receives now (h, HEARTBEAT hb) s) ms
    \<and> \<not> hb_armed (core_heartbeat_status c (reader_receives now (h, HEARTBEAT hb) s))
    \<and> hb_mode (core_heartbeat_status c (reader_receives now (h, HEARTBEAT hb) s)) = Unknown"
  using assms
  by (simp add: is_heartbeat_stale_def heartbeat_is_stale_def core_ops_def core_heartbeat_status_def
      reader_receives_def process_message_def heartbeat_to_flight_mode_def utc_elapsed_ms_def)

text \<open>A local region of interest is sent as if its metres were degrees.\<close>

lemma local_roi_as_location:
  "roi_command (LocalNed (f32_of_f64 lat) (f32_of_f64 lon) alt) = roi_command (GlobalLatLng lat lon alt)"
  by (simp add: roi_command_def)

end
