(* ===== verification/Mavlink_Commander.thy ===== *)
theory Mavlink_Commander
  imports Mavlink_Core Commander_Properties "HOL-Library.Sublist"
begin

text \<open>
  The commander over the MAVLink adapter: what its operations put on the wire while the reader
  thread delivers messages in between.  An invariant of the adapter that each trait call keeps is an
  invariant of every run of the commander (the locale \<open>fc_invariant\<close>).
\<close>

section \<open>Invariants of the adapter\<close>

locale fc_invariant =
  fixes ops :: "'fc fc_ops" and P :: "'fc \<Rightarrow> bool"
  assumes keeps_roi: "P fc \<Longrightarrow> P (snd (op_set_roi ops roi fc))"
    and keeps_position: "P fc \<Longrightarrow> P (snd (op_set_position ops t fc))"
    and keeps_mode: "P fc \<Longrightarrow> P (snd (op_set_mode ops m fc))"
    and keeps_arm: "P fc \<Longrightarrow> P (snd (op_arm ops fc))"
    and keeps_disarm: "P fc \<Longrightarrow> P (snd (op_disarm ops fc))"
    and keeps_connect: "P fc \<Longrightarrow> P (snd (op_connect ops c fc))"
    and keeps_disconnect: "P fc \<Longrightarrow> P (snd (op_disconnect ops fc))"
begin

lemma keeps_abort: "P (cm_fc cm) \<Longrightarrow> P (cm_fc (snd (abort_internal ops now cm)))"
  using keeps_mode [of "cm_fc cm" Rtl]
  by (auto simp: abort_internal_def Let_def split: prod.splits sum.splits)

lemma keeps_correction: "P (cm_fc cm) \<Longrightarrow> P (cm_fc (snd (send_correction_to_fc ops now cmd cm)))"
  using keeps_position [of "cm_fc cm"]
  by (auto simp: send_correction_to_fc_def Let_def split: prod.splits sum.splits bool.splits) (metis snd_conv)+

lemma keeps_update:
  assumes "P (cm_fc cm)"
  shows "P (cm_fc (snd (update ops uc dets off cm)))"
proof -
  obtain r cm1 where u: "update_control ops uc off (frame_start uc cm) = (r, cm1)" by fastforce
  have s: "P (cm_fc (frame_start uc cm))" using assms by (simp add: frame_start_def)
  from u have "P (cm_fc cm1)"
  proof (cases rule: update_control_cases)
    case idle
    then show ?thesis using s by simp
  next
    case (guarded o1 d al)
    then show ?thesis using s by (cases d) (auto simp: keeps_correction keeps_abort)
  qed
  then show ?thesis by (simp add: update_fields [OF u])
qed

lemma keeps_step:
  assumes P: "P (cm_fc cm)"
  shows "P (cm_fc (cm_step ops iter x cm))"
proof (cases x)
  case (OpConnect c now)
  have "cm_fc (snd (connect ops c now cm)) = snd (op_connect ops c (cm_fc cm))"
    by (auto simp: connect_def Let_def cm_transition_def split: prod.splits sum.splits)
  then show ?thesis using OpConnect keeps_connect [OF P] by simp
next
  case OpDisconnect
  have "cm_fc (snd (disconnect ops cm)) = snd (op_disconnect ops (cm_fc cm))"
    by (auto simp: disconnect_def split: prod.splits sum.splits)
  then show ?thesis using OpDisconnect keeps_disconnect [OF P] by simp
next
  case OpStartScanning
  have "cm_fc (snd (start_scanning cm)) = cm_fc cm"
    by (auto simp: start_scanning_def cm_transition_eq split: prod.splits sum.splits if_splits)
  then show ?thesis using OpStartScanning P by simp
next
  case OpReset
  have "cm_fc (snd (reset cm)) = cm_fc cm"
    by (auto simp: reset_def cm_transition_eq split: prod.splits sum.splits if_splits)
  then show ?thesis using OpReset P by simp
qed (simp_all add: P call_fc keeps_arm keeps_disarm keeps_mode keeps_roi keeps_update keeps_abort abort_def
    select_target_eq feed_watchdog_def process_expiries_eq)

end

text \<open>The commands of the mock only grow.\<close>

interpretation mock_grows: fc_invariant mock_ops "\<lambda>fc. prefix cs (mf_commands fc)" for cs
  by unfold_locales (auto simp: mock_defs)

text \<open>Over an honest link the wire of the core carries its log.\<close>

lemma core_invariant: "link_contract net wire \<Longrightarrow> fc_invariant (logged (core_ops net)) (on_wire wire w0 cs0 config)"
  by unfold_locales (rule on_wire_ops, assumption+)+

section \<open>Runs with the reader thread\<close>

type_synonym 'net logged_core = "'net mavlink_core \<times> recorded_command list"

datatype link_event =
    Call cm_op
  | Received clocks "mav_header \<times> mav_message"

definition receive :: "clocks \<Rightarrow> mav_header \<times> mav_message \<Rightarrow> 'net logged_core commander \<Rightarrow> 'net logged_core commander" where
  "receive now m cm = cm\<lparr>cm_fc := (reader_receives now m (fst (cm_fc cm)), snd (cm_fc cm))\<rparr>"

fun link_step :: "'net net_ops \<Rightarrow> wd_iter \<Rightarrow> 'net logged_core commander \<Rightarrow> link_event \<Rightarrow> 'net logged_core commander" where
  "link_step net iter cm (Call x) = cm_step (logged (core_ops net)) iter x cm"
| "link_step net iter cm (Received now m) = receive now m cm"

definition link_run :: "'net net_ops \<Rightarrow> wd_iter \<Rightarrow> link_event list \<Rightarrow> 'net logged_core commander \<Rightarrow> 'net logged_core commander" where
  "link_run net iter evs cm = foldl (link_step net iter) cm evs"

lemma link_step_wire:
  assumes "link_contract net wire" "on_wire wire w0 cs0 config (cm_fc cm)"
  shows "on_wire wire w0 cs0 config (cm_fc (link_step net iter cm ev))"
proof (cases ev)
  case (Call x)
  then show ?thesis using fc_invariant.keeps_step [OF core_invariant [OF assms(1)] assms(2)] by simp
next
  case (Received now m)
  then show ?thesis using assms(2) by (simp add: receive_def reader_receives_def on_wire_def)
qed

lemma link_run_wire:
  "link_contract net wire \<Longrightarrow> on_wire wire w0 cs0 config (cm_fc cm) \<Longrightarrow> on_wire wire w0 cs0 config (cm_fc (link_run net iter evs cm))"
  by (induction evs arbitrary: cm) (simp_all add: link_run_def link_step_wire)

text \<open>C9: However the commander is used and whatever the reader thread receives, an autopilot that
  reads what has gone over an honest link by the MAVLink definitions (\<open>vehicle_reads\<close>) finds exactly the
  commands the adapter accepted, in their order and each once: from the configured sender, for the
  configured vehicle, a correction as the same offset north, east and down with the same heading, a
  mode as that mode, a global region of interest at its coordinates rounded to 32 bits, arming as
  arming.  A local region of interest is read as a location (\<open>meant\<close>).\<close>

theorem mavlink_wire:
  assumes "link_contract net wire"
  shows "\<exists>fs cs. wire (mc_net (fst (cm_fc (link_run net iter evs cm)))) = wire (mc_net (fst (cm_fc cm))) @ fs
    \<and> snd (cm_fc (link_run net iter evs cm)) = snd (cm_fc cm) @ cs
    \<and> map read_frame_order fs = map (Some \<circ> addressed (mc_config (fst (cm_fc cm)))) cs"
  using link_run_wire [OF assms on_wire_start] by (simp add: on_wire_def)

lemma halted_link_step:
  assumes "halted cm" "\<forall>tid. ev \<noteq> Call (OpSelect tid)"
  shows "halted (link_step net iter cm ev)
    \<and> (\<exists>cs. snd (cm_fc (link_step net iter cm ev)) = snd (cm_fc cm) @ cs \<and> filter is_position cs = [])"
proof (cases ev)
  case (Call x)
  then show ?thesis using halted_step [OF assms(1)] assms(2) fc_contract.halted_step_sent [OF logged.fc_contract_axioms assms(1)] by auto
next
  case (Received now m)
  then show ?thesis using assms(1) by (simp add: receive_def halted_def)
qed

lemma halted_link_run:
  "halted cm \<Longrightarrow> \<forall>tid. Call (OpSelect tid) \<notin> set evs
    \<Longrightarrow> \<exists>cs. snd (cm_fc (link_run net iter evs cm)) = snd (cm_fc cm) @ cs \<and> filter is_position cs = []"
proof (induction evs arbitrary: cm)
  case (Cons ev evs)
  obtain cs1 where 1: "halted (link_step net iter cm ev)" "snd (cm_fc (link_step net iter cm ev)) = snd (cm_fc cm) @ cs1"
    "filter is_position cs1 = []"
    using halted_link_step [OF Cons.prems(1), of ev net iter] Cons.prems(2) by auto
  obtain cs2 where "snd (cm_fc (link_run net iter evs (link_step net iter cm ev))) = snd (cm_fc (link_step net iter cm ev)) @ cs2"
    "filter is_position cs2 = []"
    using Cons.IH [OF 1(1)] Cons.prems(2) by auto
  then show ?case using 1 by (intro exI [of _ "cs1 @ cs2"]) (simp add: link_run_def)
qed (simp add: link_run_def)

fun is_setpoint :: "wire_frame \<Rightarrow> bool" where
  "is_setpoint (from_sys, from_comp, SET_POSITION_TARGET_LOCAL_NED d) = True"
| "is_setpoint _ = False"

lemma setpoint_read: "read_frame_order f = Some (addressed config c) \<Longrightarrow> is_setpoint f \<Longrightarrow> is_position c"
  by (cases c rule: meant.cases; cases f rule: is_setpoint.cases)
    (auto simp: read_frame_order_def addressed_def split: if_splits)

lemma read_positions:
  "map read_frame_order fs = map (Some \<circ> addressed config) cs \<Longrightarrow> filter is_position cs = []
    \<Longrightarrow> filter is_setpoint fs = []"
  by (induction fs cs rule: list_induct2') (auto dest: setpoint_read split: if_splits)

text \<open>C8: after an abort no position target goes over the wire, whatever is called and received,
  until a new target is selected.\<close>

theorem mavlink_abort_silences:
  assumes "link_contract net wire" "\<forall>tid. Call (OpSelect tid) \<notin> set evs"
    and "aborted = link_run net iter (evs0 @ [Call (OpAbort now)]) cm"
  shows "\<exists>fs. wire (mc_net (fst (cm_fc (link_run net iter evs aborted)))) = wire (mc_net (fst (cm_fc aborted))) @ fs
    \<and> filter is_setpoint fs = []"
proof -
  have h: "halted aborted" by (simp add: assms(3) link_run_def halted_def abort_def)
  obtain cs where cs: "snd (cm_fc (link_run net iter evs aborted)) = snd (cm_fc aborted) @ cs" "filter is_position cs = []"
    using halted_link_run [OF h assms(2)] by blast
  obtain fs where "wire (mc_net (fst (cm_fc (link_run net iter evs aborted)))) = wire (mc_net (fst (cm_fc aborted))) @ fs"
    "map read_frame_order fs = map (Some \<circ> addressed (mc_config (fst (cm_fc aborted)))) cs"
    using link_run_wire [OF assms(1) on_wire_start, where iter = iter and evs = evs and cm = aborted] cs(1) by (auto simp: on_wire_def)
  then show ?thesis using read_positions [OF _ cs(2)] by blast
qed

section \<open>A loopback link\<close>

text \<open>A network that keeps what is sent and numbers the frames itself, for the witnesses.\<close>

definition loopback :: "(mav_header \<times> mav_message) list net_ops" where
  "loopback = \<lparr>net_connect = (\<lambda>url n. (Inr 0, n)),
     net_send = (\<lambda>v h m n. (Inr (), n @ [(h \<lparr>mh_sequence := of_nat (length n)\<rparr>, m)]))\<rparr>"

definition kept :: "(mav_header \<times> mav_message) list \<Rightarrow> wire_frame list" where
  "kept n = map (\<lambda>(h, m). (mh_system_id h, mh_component_id h, m)) n"

lemma loopback_honest: "link_contract loopback kept"
  by (simp add: link_contract_def loopback_def kept_def)

definition linked_commander :: "(mav_header \<times> mav_message) list logged_core commander" where
  "linked_commander = the (commander_new (0, 0, 0, 0) dyadic_config (core_new 0 [] mavlink_core_config_default, []))"

lemma linked_commander_fc: "cm_fc linked_commander = (core_new 0 [] mavlink_core_config_default, [])"
  unfolding linked_commander_def
  by (rule commander_new_Some [of "(0, 0, 0, 0)" dyadic_config "(core_new 0 [] mavlink_core_config_default, [])"])
    (auto simp: commander_new_def Let_def split: option.splits)

definition sample_events :: "link_event list" where
  "sample_events = [Call (OpConnect \<lparr>mono = 0, wall = 0\<rparr> 0), Call OpArm,
     Received \<lparr>mono = 3, wall = 3\<rparr> (\<lparr>mh_system_id = 1, mh_component_id = 1, mh_sequence = 0\<rparr>, OTHER_MESSAGE 0),
     Call (OpSetMode Guided)]"

theorem mavlink_wire_witness:
  "map read_frame_order (kept (mc_net (fst (cm_fc (link_run loopback decl_iter sample_events linked_commander)))))
    = map (Some \<circ> addressed mavlink_core_config_default)
        (snd (cm_fc (link_run loopback decl_iter sample_events linked_commander)))"
  using mavlink_wire [OF loopback_honest, of decl_iter sample_events linked_commander]
  by (auto simp: linked_commander_fc core_new_def kept_def)

theorem mavlink_abort_silences_witness:
  "\<exists>fs. kept (mc_net (fst (cm_fc (link_run loopback decl_iter sample_events (link_run loopback decl_iter (sample_events @ [Call (OpAbort 9)]) linked_commander)))))
      = kept (mc_net (fst (cm_fc (link_run loopback decl_iter (sample_events @ [Call (OpAbort 9)]) linked_commander)))) @ fs
    \<and> filter is_setpoint fs = []"
  using mavlink_abort_silences [OF loopback_honest, of sample_events _ decl_iter sample_events 9 linked_commander]
  by (simp add: linked_commander_fc sample_events_def core_new_def)

end
