(* ===== verification/Fc_Bridge.thy ===== *)
theory Fc_Bridge
  imports Event_Bus Fc_Adapter "HOL-Library.Sublist"
begin

text \<open>
  \<open>crates/fc-bridge/src/lib.rs\<close>: the bridge between the flight controller and the bus.  JSON
  values are those of serde_json, third-party code: the record \<open>json_ops\<close> holds the accessors and
  the constructors the bridge calls.  One iteration of the loop is \<open>bridge_tick\<close>; the commands
  that are waiting, the clock readings and what happens to the adapter between two iterations are
  its inputs.
\<close>

section \<open>Configuration, status and errors\<close>

datatype bridge_error =
    BridgeBus bus_error
  | BridgeFc fc_error
  | BadCommand string

record bridge_config =
  br_telemetry_hz :: u32
  br_heartbeat_timeout_ms :: nat
  br_status_interval :: duration
  br_max_duration :: "duration option"

definition bridge_config_default :: bridge_config where
  "bridge_config_default = \<lparr>br_telemetry_hz = 10, br_heartbeat_timeout_ms = 2000,
     br_status_interval = from_secs 1, br_max_duration = None\<rparr>"

record fc_bridge_status =
  bst_v :: u8
  bst_adapter :: string
  bst_heartbeat_alive :: bool
  bst_mode :: string
  bst_armed :: bool
  bst_telemetry_published :: u64
  bst_commands_handled :: u64
  bst_command_errors :: u64
  bst_telemetry_hz_actual :: f32

record bridge_stats =
  telemetry_published :: u64
  commands_handled :: u64
  command_errors :: u64

definition bridge_stats_default :: bridge_stats where
  "bridge_stats_default = \<lparr>telemetry_published = 0, commands_handled = 0, command_errors = 0\<rparr>"

fun mode_to_u8 :: "flight_mode \<Rightarrow> u8" where
  "mode_to_u8 Unknown = 255"
| "mode_to_u8 Manual = 0"
| "mode_to_u8 Stabilize = 2"
| "mode_to_u8 Auto = 10"
| "mode_to_u8 Rtl = 11"
| "mode_to_u8 Loiter = 12"
| "mode_to_u8 Guided = 15"
| "mode_to_u8 AltHold = 17"

text \<open>The derived \<open>Debug\<close> of a flight mode.\<close>

fun mode_debug :: "flight_mode \<Rightarrow> string" where
  "mode_debug Unknown = ''Unknown''"
| "mode_debug Manual = ''Manual''"
| "mode_debug Stabilize = ''Stabilize''"
| "mode_debug AltHold = ''AltHold''"
| "mode_debug Loiter = ''Loiter''"
| "mode_debug Guided = ''Guided''"
| "mode_debug Rtl = ''Rtl''"
| "mode_debug Auto = ''Auto''"

section \<open>JSON and strings\<close>

text \<open>\<open>Value::get\<close>, the index operator (\<open>Null\<close> for a missing field), the typed accessors, and
  the three shapes of event details.\<close>

record 'json json_ops =
  js_get :: "'json \<Rightarrow> string \<Rightarrow> 'json option"
  js_index :: "'json \<Rightarrow> string \<Rightarrow> 'json"
  js_as_bool :: "'json \<Rightarrow> bool option"
  js_as_f64 :: "'json \<Rightarrow> f64 option"
  js_as_str :: "'json \<Rightarrow> string option"
  js_empty :: 'json
  js_armed :: "bool \<Rightarrow> 'json"
  js_mode :: "string \<Rightarrow> 'json"

definition quoted :: "string \<Rightarrow> string" where
  "quoted s = CHR 0x27 # s @ [CHR 0x27]"

definition to_ascii_lower :: "char \<Rightarrow> char" where
  "to_ascii_lower c = (let n = of_char c :: nat in if 65 \<le> n \<and> n \<le> 90 then char_of (n + 32) else c)"

definition to_ascii_lowercase :: "string \<Rightarrow> string" where
  "to_ascii_lowercase s = List.map to_ascii_lower s"

definition need :: "string \<Rightarrow> bridge_error" where
  "need field = BadCommand (''missing arg '' @ quoted field)"

section \<open>Commands\<close>

text \<open>\<open>args[k].as_f64().ok_or_else(|| need(k))\<close>, and the flight modes by name.\<close>

definition arg_f64 :: "'json json_ops \<Rightarrow> 'json \<Rightarrow> string \<Rightarrow> (bridge_error, f64) result" where
  "arg_f64 js args k = (case js_as_f64 js (js_index js args k) of Some v \<Rightarrow> Inr v | None \<Rightarrow> Inl (need k))"

definition arg_f32 :: "'json json_ops \<Rightarrow> 'json \<Rightarrow> string \<Rightarrow> (bridge_error, f32) result" where
  "arg_f32 js args k = (case arg_f64 js args k of Inl e \<Rightarrow> Inl e | Inr v \<Rightarrow> Inr (f32_of_f64 v))"

definition mode_by_name :: "string \<Rightarrow> flight_mode option" where
  "mode_by_name s =
    (if s = ''manual'' then Some Manual
     else if s = ''stabilize'' \<or> s = ''stabilised'' then Some Stabilize
     else if s = ''althold'' \<or> s = ''alt_hold'' then Some AltHold
     else if s = ''loiter'' then Some Loiter
     else if s = ''guided'' then Some Guided
     else if s = ''rtl'' \<or> s = ''return'' then Some Rtl
     else if s = ''auto'' then Some Auto
     else None)"

text \<open>An adapter call, its error wrapped.\<close>

definition call_fc :: "unit fc_result \<times> 'fc \<Rightarrow> (bridge_error, unit) result \<times> 'fc" where
  "call_fc r = (case r of (Inl e, fc) \<Rightarrow> (Inl (BridgeFc e), fc) | (Inr u, fc) \<Rightarrow> (Inr u, fc))"

definition dispatch_roi ::
  "'fc fc_ops \<Rightarrow> 'json json_ops \<Rightarrow> 'json \<Rightarrow> 'fc \<Rightarrow> (bridge_error, unit) result \<times> 'fc" where
  "dispatch_roi ops js args fc =
    (if Option.bind (js_get js args ''none'') (js_as_bool js) = Some True
     then call_fc (op_set_roi ops RoiNone fc)
     else case arg_f64 js args ''lat'' of
            Inl e \<Rightarrow> (Inl e, fc)
          | Inr lat \<Rightarrow>
              (case arg_f64 js args ''lon'' of
                 Inl e \<Rightarrow> (Inl e, fc)
               | Inr lon \<Rightarrow>
                   let alt = (case Option.bind (js_get js args ''alt'') (js_as_f64 js) of
                                Some a \<Rightarrow> f32_of_f64 a | None \<Rightarrow> f32_of_f64 (Fin 0))
                   in call_fc (op_set_roi ops (GlobalLatLng lat lon alt) fc)))"

definition dispatch_position ::
  "'fc fc_ops \<Rightarrow> 'json json_ops \<Rightarrow> 'json \<Rightarrow> 'fc \<Rightarrow> (bridge_error, unit) result \<times> 'fc" where
  "dispatch_position ops js args fc =
    (case arg_f32 js args ''north'' of Inl e \<Rightarrow> (Inl e, fc) | Inr n \<Rightarrow>
      (case arg_f32 js args ''east'' of Inl e \<Rightarrow> (Inl e, fc) | Inr e' \<Rightarrow>
        (case arg_f32 js args ''down'' of Inl e \<Rightarrow> (Inl e, fc) | Inr d \<Rightarrow>
          (case arg_f32 js args ''yaw'' of Inl e \<Rightarrow> (Inl e, fc) | Inr y \<Rightarrow>
             call_fc (op_set_position ops \<lparr>pt_north = n, pt_east = e', pt_down = d, pt_yaw = y\<rparr> fc)))))"

definition dispatch_mode ::
  "'fc fc_ops \<Rightarrow> 'json json_ops \<Rightarrow> 'json \<Rightarrow> 'fc \<Rightarrow> (bridge_error, unit) result \<times> 'fc" where
  "dispatch_mode ops js args fc =
    (case js_as_str js (js_index js args ''mode'') of
       None \<Rightarrow> (Inl (need ''mode''), fc)
     | Some name \<Rightarrow>
         (case mode_by_name (to_ascii_lowercase name) of
            None \<Rightarrow> (Inl (BadCommand (''mode '' @ quoted (to_ascii_lowercase name))), fc)
          | Some m \<Rightarrow> call_fc (op_set_mode ops m fc)))"

definition dispatch ::
  "'fc fc_ops \<Rightarrow> 'json json_ops \<Rightarrow> 'json command_msg \<Rightarrow> 'fc \<Rightarrow> (bridge_error, unit) result \<times> 'fc" where
  "dispatch ops js cmd fc =
    (if cmd_target cmd \<noteq> ''fc''
     then (Inl (BadCommand (''target '' @ quoted (cmd_target cmd) @ '' != '' @ quoted ''fc'')), fc)
     else if cmd_name cmd = ''set_roi'' then dispatch_roi ops js (cmd_args cmd) fc
     else if cmd_name cmd = ''set_pos_ned'' \<or> cmd_name cmd = ''set_position_target_local_ned''
          then dispatch_position ops js (cmd_args cmd) fc
     else if cmd_name cmd = ''set_mode'' then dispatch_mode ops js (cmd_args cmd) fc
     else if cmd_name cmd = ''arm'' then call_fc (op_arm ops fc)
     else if cmd_name cmd = ''disarm'' then call_fc (op_disarm ops fc)
     else (Inl (BadCommand (''cmd '' @ quoted (cmd_name cmd))), fc))"

section \<open>The loop\<close>

text \<open>\<open>prev_*\<close> remember the last published edges.  \<open>last_tele\<close> starts a period before the first
  reading of the clock, which a monotonic clock allows to lie before its origin.\<close>

record 'fc bridge_state =
  bb_fc :: 'fc
  bb_stats :: bridge_stats
  bb_last_tele :: int
  bb_last_status :: instant
  bb_prev_alive :: "bool option"
  bb_prev_armed :: "bool option"
  bb_prev_mode :: "flight_mode option"
  bb_win_frames :: u64
  bb_win_start :: instant

record ('fc, 'json) bridge_input =
  bi_elapsed :: duration
  bi_between :: "'fc \<Rightarrow> 'fc"
  bi_commands :: "'json command_msg list"
  bi_check :: instant
  bi_tele :: instant
  bi_heartbeat :: clocks
  bi_stale :: clocks
  bi_stale_utc :: utc
  bi_t_ms :: int
  bi_sample_ok :: bool
  bi_alive_at :: utc
  bi_armed_at :: utc
  bi_mode_at :: utc
  bi_status :: instant
  bi_window :: instant
  bi_st_heartbeat :: clocks
  bi_st_stale :: clocks
  bi_st_stale_utc :: utc
  bi_win_start :: instant
  bi_status_done :: instant

definition telemetry_period :: "bridge_config \<Rightarrow> duration" where
  "telemetry_period cfg = from_millis (unat (1000 div max (br_telemetry_hz cfg) 1))"

definition bridge_start :: "bridge_config \<Rightarrow> 'fc \<Rightarrow> instant \<Rightarrow> instant \<Rightarrow> instant \<Rightarrow> 'fc bridge_state" where
  "bridge_start cfg fc tele_now status_now win_now =
     \<lparr>bb_fc = fc, bb_stats = bridge_stats_default,
      bb_last_tele = int tele_now - int (telemetry_period cfg), bb_last_status = status_now,
      bb_prev_alive = None, bb_prev_armed = None, bb_prev_mode = None,
      bb_win_frames = 0, bb_win_start = win_now\<rparr>"

text \<open>The commands that are waiting, in order, each counted as handled or failed.\<close>

definition handle_command ::
  "'fc fc_ops \<Rightarrow> 'json json_ops \<Rightarrow> 'json command_msg \<Rightarrow> bridge_stats \<times> 'fc \<Rightarrow> bridge_stats \<times> 'fc" where
  "handle_command ops js cmd s =
    (case s of (stats, fc) \<Rightarrow>
      (case dispatch ops js cmd fc of
         (Inr _, fc') \<Rightarrow> (stats\<lparr>commands_handled := commands_handled stats + 1\<rparr>, fc')
       | (Inl _, fc') \<Rightarrow> (stats\<lparr>command_errors := command_errors stats + 1\<rparr>, fc')))"

definition drain_commands ::
  "'fc fc_ops \<Rightarrow> 'json json_ops \<Rightarrow> 'json command_msg list \<Rightarrow> bridge_stats \<times> 'fc \<Rightarrow> bridge_stats \<times> 'fc" where
  "drain_commands ops js cmds s = fold (handle_command ops js) cmds s"

definition telemetry_sample_of ::
  "int \<Rightarrow> attitude \<Rightarrow> global_position option \<Rightarrow> flight_mode \<Rightarrow> telemetry_sample" where
  "telemetry_sample_of t_ms att pos m =
     \<lparr>tel_t_ms = t_ms, tel_roll_deg = f32_to_degrees (att_roll att),
      tel_pitch_deg = f32_to_degrees (att_pitch att), tel_yaw_deg = f32_to_degrees (att_yaw att),
      tel_alt_m = (case pos of None \<Rightarrow> Fin 0 | Some p \<Rightarrow> gp_alt_agl p),
      tel_lat_deg = (case pos of None \<Rightarrow> Fin 0 | Some p \<Rightarrow> gp_lat p),
      tel_lon_deg = (case pos of None \<Rightarrow> Fin 0 | Some p \<Rightarrow> gp_lon p),
      tel_battery_v = Fin 0, tel_mode = mode_to_u8 m\<rparr>"

definition event :: "string \<Rightarrow> 'json \<Rightarrow> utc \<Rightarrow> 'json fc_event" where
  "event kind detail t = \<lparr>fe_v = contract_version, fe_kind = kind, fe_detail = detail, fe_at = t\<rparr>"

definition edge_events ::
  "'json json_ops \<Rightarrow> ('fc, 'json) bridge_input \<Rightarrow> bool \<Rightarrow> bool \<Rightarrow> flight_mode \<Rightarrow> 'fc bridge_state \<Rightarrow> 'json fc_event list" where
  "edge_events js bi alive armed m s =
     (if bb_prev_alive s \<noteq> Some alive
      then [event (if alive then ''link_up'' else ''link_down'') (js_empty js) (bi_alive_at bi)] else [])
     @ (if bb_prev_armed s \<noteq> Some armed then [event ''armed'' (js_armed js armed) (bi_armed_at bi)] else [])
     @ (if bb_prev_mode s \<noteq> Some m
        then [event ''mode_change'' (js_mode js (mode_debug m)) (bi_mode_at bi)] else [])"

definition telemetry_step ::
  "bridge_config \<Rightarrow> 'fc fc_ops \<Rightarrow> 'json json_ops \<Rightarrow> ('fc, 'json) bridge_input \<Rightarrow> 'fc bridge_state
    \<Rightarrow> 'fc bridge_state \<times> telemetry_sample list \<times> 'json fc_event list" where
  "telemetry_step cfg ops js bi s =
    (if int (telemetry_period cfg) \<le> max 0 (int (bi_check bi) - bb_last_tele s)
     then let fc = bb_fc s;
              hb = op_heartbeat_status ops (bi_heartbeat bi) fc;
              alive = (\<not> is_heartbeat_stale ops (bi_stale bi) (bi_stale_utc bi) fc (br_heartbeat_timeout_ms cfg));
              sample = telemetry_sample_of (bi_t_ms bi) (op_attitude ops fc) (op_global_position ops fc) (hb_mode hb);
              stats = bb_stats s;
              sent = (if bi_sample_ok bi then [sample] else []);
              stats' = (if bi_sample_ok bi then stats\<lparr>telemetry_published := telemetry_published stats + 1\<rparr> else stats);
              win = (if bi_sample_ok bi then bb_win_frames s + 1 else bb_win_frames s);
              evs = edge_events js bi alive (hb_armed hb) (hb_mode hb) s
          in (s\<lparr>bb_last_tele := int (bi_tele bi), bb_stats := stats', bb_win_frames := win,
                bb_prev_alive := Some alive, bb_prev_armed := Some (hb_armed hb),
                bb_prev_mode := Some (hb_mode hb)\<rparr>, sent, evs)
     else (s, [], []))"

definition status_step ::
  "bridge_config \<Rightarrow> 'fc fc_ops \<Rightarrow> string \<Rightarrow> ('fc, 'json) bridge_input \<Rightarrow> 'fc bridge_state
    \<Rightarrow> 'fc bridge_state \<times> fc_bridge_status option" where
  "status_step cfg ops name bi s =
    (if br_status_interval cfg \<le> bi_status bi - bb_last_status s
     then let secs = as_secs_f32 (bi_window bi - bb_win_start s);
              fps = (if Fin 0 < secs then fl_of_nat (unat (bb_win_frames s)) / secs else Fin 0);
              hb = op_heartbeat_status ops (bi_st_heartbeat bi) (bb_fc s);
              st = \<lparr>bst_v = contract_version, bst_adapter = name,
                    bst_heartbeat_alive = (\<not> is_heartbeat_stale ops (bi_st_stale bi) (bi_st_stale_utc bi) (bb_fc s)
                       (br_heartbeat_timeout_ms cfg)),
                    bst_mode = mode_debug (hb_mode hb), bst_armed = hb_armed hb,
                    bst_telemetry_published = telemetry_published (bb_stats s),
                    bst_commands_handled = commands_handled (bb_stats s),
                    bst_command_errors = command_errors (bb_stats s), bst_telemetry_hz_actual = fps\<rparr>
          in (s\<lparr>bb_win_frames := 0, bb_win_start := bi_win_start bi, bb_last_status := bi_status_done bi\<rparr>, Some st)
     else (s, None))"

record 'json bridge_output =
  bo_samples :: "telemetry_sample list"
  bo_events :: "'json fc_event list"
  bo_status :: "fc_bridge_status option"

text \<open>One iteration; \<open>None\<close> ends the loop.\<close>

definition bridge_tick ::
  "bridge_config \<Rightarrow> 'fc fc_ops \<Rightarrow> 'json json_ops \<Rightarrow> string \<Rightarrow> ('fc, 'json) bridge_input \<Rightarrow> 'fc bridge_state
    \<Rightarrow> ('fc bridge_state \<times> 'json bridge_output) option" where
  "bridge_tick cfg ops js name bi s =
    (if (case br_max_duration cfg of None \<Rightarrow> False | Some d \<Rightarrow> d \<le> bi_elapsed bi) then None
     else case drain_commands ops js (bi_commands bi) (bb_stats s, bi_between bi (bb_fc s)) of
            (stats, fc) \<Rightarrow>
              (case telemetry_step cfg ops js bi (s\<lparr>bb_stats := stats, bb_fc := fc\<rparr>) of
                 (s', samples, evs) \<Rightarrow>
                   (case status_step cfg ops name bi s' of
                      (s'', st) \<Rightarrow> Some (s'', \<lparr>bo_samples = samples, bo_events = evs, bo_status = st\<rparr>))))"

section \<open>Commands reach the controller once, in order\<close>

text \<open>The command a message asks for, if it is addressed to the controller and well-formed.\<close>

definition asked_command :: "'json json_ops \<Rightarrow> 'json command_msg \<Rightarrow> recorded_command option" where
  "asked_command js cmd =
    (let args = cmd_args cmd; num = (\<lambda>k. js_as_f64 js (js_index js args k)) in
     if cmd_target cmd \<noteq> ''fc'' then None
     else if cmd_name cmd = ''set_roi'' then
       (if Option.bind (js_get js args ''none'') (js_as_bool js) = Some True then Some (SetRoi RoiNone)
        else Option.bind (num ''lat'') (\<lambda>lat. Option.bind (num ''lon'') (\<lambda>lon.
          Some (SetRoi (GlobalLatLng lat lon
            (case Option.bind (js_get js args ''alt'') (js_as_f64 js) of Some a \<Rightarrow> f32_of_f64 a | None \<Rightarrow> f32_of_f64 (Fin 0)))))))
     else if cmd_name cmd \<in> {''set_pos_ned'', ''set_position_target_local_ned''} then
       (case List.map num [''north'', ''east'', ''down'', ''yaw''] of
          [Some n, Some e, Some d, Some y] \<Rightarrow>
            Some (SetPositionTargetLocalNed \<lparr>pt_north = f32_of_f64 n, pt_east = f32_of_f64 e,
              pt_down = f32_of_f64 d, pt_yaw = f32_of_f64 y\<rparr>)
        | _ \<Rightarrow> None)
     else if cmd_name cmd = ''set_mode'' then
       Option.bind (js_as_str js (js_index js args ''mode'')) (\<lambda>name.
         map_option SetMode (mode_by_name (to_ascii_lowercase name)))
     else if cmd_name cmd = ''arm'' then Some CmdArm
     else if cmd_name cmd = ''disarm'' then Some CmdDisarm
     else None)"

lemma call_fc_appends:
  "appends sent [c] fc r \<Longrightarrow> call_fc r = (res, fc')
    \<Longrightarrow> sent fc' = sent fc @ (if is_ok res then [c] else [])"
  by (auto simp: appends_def call_fc_def split: prod.splits sum.splits)

lemmas arg_defs = arg_f64_def arg_f32_def

context fc_contract
begin

lemma dispatch_roi_sent:
  assumes "dispatch_roi ops js (cmd_args cmd) fc = (res, fc')" "cmd_target cmd = ''fc''" "cmd_name cmd = ''set_roi''"
  shows "sent fc' = sent fc @ (if is_ok res then [the (asked_command js cmd)] else [])
    \<and> (is_ok res \<longrightarrow> asked_command js cmd \<noteq> None)"
  using assms call_fc_appends [OF set_roi]
  by (auto simp: dispatch_roi_def asked_command_def arg_defs Let_def split: if_splits option.splits)

lemma dispatch_position_sent:
  assumes "dispatch_position ops js (cmd_args cmd) fc = (res, fc')" "cmd_target cmd = ''fc''"
    "cmd_name cmd \<in> {''set_pos_ned'', ''set_position_target_local_ned''}"
  shows "sent fc' = sent fc @ (if is_ok res then [the (asked_command js cmd)] else [])
    \<and> (is_ok res \<longrightarrow> asked_command js cmd \<noteq> None)"
  using assms call_fc_appends [OF set_position]
  by (auto simp: dispatch_position_def asked_command_def arg_defs Let_def split: if_splits option.splits)

lemma dispatch_mode_sent:
  assumes "dispatch_mode ops js (cmd_args cmd) fc = (res, fc')" "cmd_target cmd = ''fc''" "cmd_name cmd = ''set_mode''"
  shows "sent fc' = sent fc @ (if is_ok res then [the (asked_command js cmd)] else [])
    \<and> (is_ok res \<longrightarrow> asked_command js cmd \<noteq> None)"
  using assms call_fc_appends [OF set_mode]
  by (auto simp: dispatch_mode_def asked_command_def Let_def split: if_splits option.splits)

lemma dispatch_sent:
  assumes "dispatch ops js cmd fc = (res, fc')"
  shows "sent fc' = sent fc @ (if is_ok res then [the (asked_command js cmd)] else [])
    \<and> (is_ok res \<longrightarrow> asked_command js cmd \<noteq> None)"
  using assms dispatch_roi_sent [of js cmd] dispatch_position_sent [of js cmd] dispatch_mode_sent [of js cmd]
    call_fc_appends [OF arm] call_fc_appends [OF disarm]
  by (auto simp: dispatch_def asked_command_def Let_def split: if_splits)

lemma drain_sent:
  assumes "drain_commands ops js cmds (stats, fc) = (stats', fc')"
  shows "\<exists>cs. sent fc' = sent fc @ cs \<and> subseq cs (List.map_filter (asked_command js) cmds)
    \<and> commands_handled stats' = commands_handled stats + of_nat (length cs)
    \<and> command_errors stats' = command_errors stats + of_nat (length cmds - length cs) \<and> length cs \<le> length cmds
    \<and> telemetry_published stats' = telemetry_published stats"
  using assms
proof (induction cmds arbitrary: stats fc)
  case Nil
  then show ?case by (auto simp: drain_commands_def)
next
  case (Cons cmd cmds)
  obtain res fc1 where d: "dispatch ops js cmd fc = (res, fc1)" by fastforce
  define stats1 where "stats1 = (if is_ok res then stats\<lparr>commands_handled := commands_handled stats + 1\<rparr>
    else stats\<lparr>command_errors := command_errors stats + 1\<rparr>)"
  have "handle_command ops js cmd (stats, fc) = (stats1, fc1)"
    by (auto simp: handle_command_def d stats1_def split: sum.splits)
  then have "drain_commands ops js cmds (stats1, fc1) = (stats', fc')"
    using Cons.prems by (simp add: drain_commands_def)
  from Cons.IH [OF this] obtain cs where cs: "sent fc' = sent fc1 @ cs"
    "subseq cs (List.map_filter (asked_command js) cmds)"
    "commands_handled stats' = commands_handled stats1 + of_nat (length cs)"
    "command_errors stats' = command_errors stats1 + of_nat (length cmds - length cs)" "length cs \<le> length cmds"
    "telemetry_published stats' = telemetry_published stats1"
    by blast
  show ?case
  proof (cases "is_ok res")
    case True
    then obtain c where c: "asked_command js cmd = Some c" "sent fc1 = sent fc @ [c]"
      using dispatch_sent [OF d] by auto
    then show ?thesis using cs True
      by (intro exI [of _ "c # cs"]) (simp add: stats1_def List.map_filter_simps)
  next
    case False
    then have "sent fc1 = sent fc" using dispatch_sent [OF d] by auto
    then show ?thesis using cs False
      by (intro exI [of _ cs]) (auto simp: stats1_def List.map_filter_simps Suc_diff_le split: option.splits)
  qed
qed

end

text \<open>C36: the commands of one iteration reach the controller at most once each and in the order of the
  bus, each exactly as its message asks; a message for another component, an unknown command and a
  missing argument reach nothing; every message is counted once, as handled or as an error.\<close>

theorem bridge_commands_once:
  assumes "fc_contract ops sent" "drain_commands ops js cmds (stats, fc) = (stats', fc')"
  shows "\<exists>cs. sent fc' = sent fc @ cs \<and> subseq cs (List.map_filter (asked_command js) cmds)
    \<and> commands_handled stats' = commands_handled stats + of_nat (length cs)
    \<and> command_errors stats' = command_errors stats + of_nat (length cmds - length cs) \<and> length cs \<le> length cmds
    \<and> telemetry_published stats' = telemetry_published stats"
  by (rule fc_contract.drain_sent [OF assms])

text \<open>A small JSON for examples.\<close>

datatype sample_json = SNull | SNum f64 | SStr string | SBool bool | SObj "(string \<times> sample_json) list"

definition sample_field :: "sample_json \<Rightarrow> string \<Rightarrow> sample_json option" where
  "sample_field v k = (case v of SObj kvs \<Rightarrow> map_of kvs k | _ \<Rightarrow> None)"

definition sample_js :: "sample_json json_ops" where
  "sample_js = \<lparr>js_get = sample_field,
     js_index = (\<lambda>v k. case sample_field v k of Some x \<Rightarrow> x | None \<Rightarrow> SNull),
     js_as_bool = (\<lambda>v. case v of SBool b \<Rightarrow> Some b | _ \<Rightarrow> None),
     js_as_f64 = (\<lambda>v. case v of SNum x \<Rightarrow> Some x | _ \<Rightarrow> None),
     js_as_str = (\<lambda>v. case v of SStr x \<Rightarrow> Some x | _ \<Rightarrow> None),
     js_empty = SObj [], js_armed = (\<lambda>b. SObj [(''armed'', SBool b)]), js_mode = (\<lambda>m. SObj [(''mode'', SStr m)])\<rparr>"

definition position_msg :: "f64 \<Rightarrow> sample_json command_msg" where
  "position_msg yaw = \<lparr>cmd_v = 1, cmd_target = ''fc'', cmd_name = ''set_pos_ned'',
     cmd_args = SObj [(''north'', SNum (Fin 0)), (''east'', SNum (Fin 0)), (''down'', SNum (Fin 0)), (''yaw'', SNum yaw)],
     cmd_source = ''ui'', cmd_id = 0\<rparr>"

definition ned :: "f64 \<Rightarrow> position_target_ned" where
  "ned yaw = \<lparr>pt_north = f32_of_f64 (Fin 0), pt_east = f32_of_f64 (Fin 0), pt_down = f32_of_f64 (Fin 0),
     pt_yaw = f32_of_f64 yaw\<rparr>"

lemma mock_position_msg:
  assumes "mf_connected fc"
  shows "handle_command mock_ops sample_js (position_msg yaw) (stats, fc)
    = (stats\<lparr>commands_handled := commands_handled stats + 1\<rparr>,
       fc\<lparr>mf_commands := mf_commands fc @ [SetPositionTargetLocalNed (ned yaw)]\<rparr>)"
  using assms by (simp add: handle_command_def dispatch_def dispatch_position_def arg_defs sample_js_def
      sample_field_def position_msg_def call_fc_def mock_defs ned_def)

text \<open>Nothing limits the rate of the commands of the bus: however many position targets wait,
  one iteration forwards them all at once.\<close>

lemma bridge_forwards_all:
  assumes "mf_connected fc"
  shows "mf_commands (snd (drain_commands mock_ops sample_js (List.map position_msg yaws) (stats, fc)))
    = mf_commands fc @ List.map (\<lambda>y. SetPositionTargetLocalNed (ned y)) yaws"
  using assms
proof (induction yaws arbitrary: stats fc)
  case (Cons y yaws)
  then show ?case using mock_position_msg [OF Cons.prems, of y stats] by (simp add: drain_commands_def)
qed (simp add: drain_commands_def)

definition connected_mock :: mock_fc_state where
  "connected_mock = mock_new\<lparr>mf_connected := True\<rparr>"

lemma bridge_forwards_all_witness:
  "mf_commands (snd (drain_commands mock_ops sample_js (List.map position_msg (replicate 20 (Fin 1)))
      (bridge_stats_default, connected_mock)))
    = List.map (\<lambda>y. SetPositionTargetLocalNed (ned y)) (replicate 20 (Fin 1))"
  using bridge_forwards_all [of connected_mock "replicate 20 (Fin 1)" bridge_stats_default]
  by (simp add: connected_mock_def mock_new_def)

theorem bridge_commands_once_witness:
  "\<exists>stats' fc' cs. drain_commands mock_ops sample_js
      [position_msg (Fin 1), (position_msg (Fin 2))\<lparr>cmd_target := ''tracker''\<rparr>] (bridge_stats_default, connected_mock) = (stats', fc')
    \<and> mf_commands fc' = cs \<and> length cs \<le> 2 \<and> commands_handled stats' = of_nat (length cs)"
proof -
  obtain stats' fc' where d: "drain_commands mock_ops sample_js
      [position_msg (Fin 1), (position_msg (Fin 2))\<lparr>cmd_target := ''tracker''\<rparr>] (bridge_stats_default, connected_mock) = (stats', fc')"
    by fastforce
  show ?thesis using bridge_commands_once [OF mock.fc_contract_axioms d] d
    by (auto simp: connected_mock_def mock_new_def bridge_stats_default_def)
qed

section \<open>Edges and rates\<close>

text \<open>The runs of the loop: the state, the events and the times of the samples so far.\<close>

inductive bridge_run ::
  "bridge_config \<Rightarrow> 'fc fc_ops \<Rightarrow> 'json json_ops \<Rightarrow> 'fc bridge_state \<Rightarrow> 'json fc_event list \<Rightarrow> instant list \<Rightarrow> bool"
  for cfg ops js where
  bridge_run_start: "bridge_run cfg ops js (bridge_start cfg fc t0 t1 t2) [] []"
| bridge_run_tick: "bridge_run cfg ops js s evs ts \<Longrightarrow> bi_check bi \<le> bi_tele bi
    \<Longrightarrow> bridge_tick cfg ops js name bi s = Some (s', out)
    \<Longrightarrow> bridge_run cfg ops js s' (evs @ bo_events out)
          (if bo_samples out = [] then ts else ts @ [bi_tele bi])"

definition link_events :: "'json fc_event list \<Rightarrow> bool list" where
  "link_events evs = List.map (\<lambda>e. fe_kind e = ''link_up'')
     (filter (\<lambda>e. fe_kind e \<in> {''link_up'', ''link_down''}) evs)"

definition details_of :: "string \<Rightarrow> 'json fc_event list \<Rightarrow> 'json list" where
  "details_of kind evs = List.map fe_detail (filter (\<lambda>e. fe_kind e = kind) evs)"

text \<open>A sequence without repetitions whose last element is the remembered one.\<close>

definition edges :: "'a option \<Rightarrow> 'a list \<Rightarrow> bool" where
  "edges prev xs \<longleftrightarrow> distinct_adj xs \<and> prev = (if xs = [] then None else Some (last xs))"

lemma edges_step: "edges prev xs \<Longrightarrow> edges (Some x) (xs @ (if prev \<noteq> Some x then [x] else []))"
  by (auto simp: edges_def distinct_adj_append_iff)

lemma event_simps: "fe_kind (event k d t) = k" "fe_detail (event k d t) = d"
  by (simp_all add: event_def)

lemma edge_projections:
  "link_events (edge_events js bi alive armed m s) = (if bb_prev_alive s \<noteq> Some alive then [alive] else [])"
  "details_of ''armed'' (edge_events js bi alive armed m s) = (if bb_prev_armed s \<noteq> Some armed then [js_armed js armed] else [])"
  "details_of ''mode_change'' (edge_events js bi alive armed m s) = (if bb_prev_mode s \<noteq> Some m then [js_mode js (mode_debug m)] else [])"
  by (auto simp: link_events_def details_of_def edge_events_def event_simps)

lemma tick_cases:
  assumes "bridge_tick cfg ops js name bi s = Some (s', out)"
  obtains (quiet) "bo_samples out = []" "bo_events out = []" "bb_last_tele s' = bb_last_tele s"
      "bb_prev_alive s' = bb_prev_alive s" "bb_prev_armed s' = bb_prev_armed s" "bb_prev_mode s' = bb_prev_mode s"
  | (tele) alive armed m s1 where "bo_events out = edge_events js bi alive armed m s1"
      "int (telemetry_period cfg) \<le> max 0 (int (bi_check bi) - bb_last_tele s)"
      "bb_prev_alive s1 = bb_prev_alive s" "bb_prev_armed s1 = bb_prev_armed s" "bb_prev_mode s1 = bb_prev_mode s"
      "bb_last_tele s' = int (bi_tele bi)" "bb_prev_alive s' = Some alive" "bb_prev_armed s' = Some armed"
      "bb_prev_mode s' = Some m"
  using assms
  by (fastforce simp: bridge_tick_def telemetry_step_def status_step_def Let_def split: if_splits prod.splits)

definition edges_ok :: "'json json_ops \<Rightarrow> 'fc bridge_state \<Rightarrow> 'json fc_event list \<Rightarrow> bool" where
  "edges_ok js s evs \<longleftrightarrow> edges (bb_prev_alive s) (link_events evs)
     \<and> (\<exists>bs. details_of ''armed'' evs = List.map (js_armed js) bs \<and> edges (bb_prev_armed s) bs)
     \<and> (\<exists>ms. details_of ''mode_change'' evs = List.map (\<lambda>m. js_mode js (mode_debug m)) ms \<and> edges (bb_prev_mode s) ms)"

lemma projections_append:
  "link_events (evs @ evs') = link_events evs @ link_events evs'"
  "details_of k (evs @ evs') = details_of k evs @ details_of k evs'"
  by (simp_all add: link_events_def details_of_def)

lemma edges_ok_tick:
  assumes "edges_ok js s evs" "bridge_tick cfg ops js name bi s = Some (s', out)"
  shows "edges_ok js s' (evs @ bo_events out)"
  using assms(2)
proof (cases rule: tick_cases)
  case quiet
  then show ?thesis using assms(1) by (simp add: edges_ok_def)
next
  case (tele alive armed m s1)
  obtain bs ms where e: "edges (bb_prev_alive s) (link_events evs)"
    "details_of ''armed'' evs = List.map (js_armed js) bs" "edges (bb_prev_armed s) bs"
    "details_of ''mode_change'' evs = List.map (\<lambda>m. js_mode js (mode_debug m)) ms" "edges (bb_prev_mode s) ms"
    using assms(1) unfolding edges_ok_def by blast
  note step = edges_step [OF e(1), of alive] edges_step [OF e(3), of armed] edges_step [OF e(5), of m]
  show ?thesis
    unfolding edges_ok_def projections_append tele(1) edge_projections tele(3-5,7-9) e(2,4)
    using step(1)
    by (intro conjI exI [of _ "bs @ (if bb_prev_armed s \<noteq> Some armed then [armed] else [])"] step(2)
        exI [of _ "ms @ (if bb_prev_mode s \<noteq> Some m then [m] else [])"] step(3)) simp_all
qed

lemma bridge_run_edges: "bridge_run cfg ops js s evs ts \<Longrightarrow> edges_ok js s evs"
proof (induction rule: bridge_run.induct)
  case (bridge_run_start fc t0 t1 t2)
  show ?case unfolding edges_ok_def
    by (intro conjI exI [of _ "[]"]) (simp_all add: bridge_start_def edges_def link_events_def details_of_def)
next
  case bridge_run_tick
  then show ?case using edges_ok_tick by blast
qed

text \<open>On the event topic the link goes up and down in turns, the arming and the mode events
  report a change each, and the last of each kind is what the bridge saw last.\<close>

lemma bridge_events_are_edges:
  assumes "bridge_run cfg ops js s evs ts"
  shows "edges (bb_prev_alive s) (link_events evs)
    \<and> (\<exists>bs. details_of ''armed'' evs = List.map (js_armed js) bs \<and> edges (bb_prev_armed s) bs)
    \<and> (\<exists>ms. details_of ''mode_change'' evs = List.map (\<lambda>m. js_mode js (mode_debug m)) ms \<and> edges (bb_prev_mode s) ms)"
  using bridge_run_edges [OF assms] by (simp only: edges_ok_def)

lemma period_pos: "br_telemetry_hz cfg \<le> 1000 \<Longrightarrow> 0 < telemetry_period cfg"
proof -
  assume hz: "br_telemetry_hz cfg \<le> 1000"
  have m: "max (br_telemetry_hz cfg) 1 \<le> 1000" "max (br_telemetry_hz cfg) 1 \<noteq> 0" using hz by (auto simp: max_def)
  then have "unat (max (br_telemetry_hz cfg) 1) \<le> 1000" "0 < unat (max (br_telemetry_hz cfg) 1)"
    by (simp_all add: word_le_nat_alt unat_gt_0)
  then have "0 < unat (1000 div max (br_telemetry_hz cfg) 1)"
    by (simp add: unat_div div_greater_zero_iff)
  then show ?thesis by (simp add: telemetry_period_def from_millis_def)
qed

definition spaced_samples :: "duration \<Rightarrow> int \<Rightarrow> instant list \<Rightarrow> bool" where
  "spaced_samples p t ts \<longleftrightarrow> successively (\<lambda>a b. a + p \<le> b) ts \<and> (ts \<noteq> [] \<longrightarrow> int (last ts) \<le> t)"

lemma bridge_run_spaced:
  "bridge_run cfg ops js s evs ts \<Longrightarrow> 0 < telemetry_period cfg \<Longrightarrow> spaced_samples (telemetry_period cfg) (bb_last_tele s) ts"
proof (induction rule: bridge_run.induct)
  case (bridge_run_start fc t0 t1 t2)
  then show ?case by (simp add: spaced_samples_def)
next
  case (bridge_run_tick s evs ts bi name s' out)
  then have IH: "successively (\<lambda>a b. a + telemetry_period cfg \<le> b) ts" "ts \<noteq> [] \<Longrightarrow> int (last ts) \<le> bb_last_tele s"
    by (simp_all add: spaced_samples_def)
  from bridge_run_tick.hyps(3) show ?case
  proof (cases rule: tick_cases)
    case quiet
    then show ?thesis using IH by (simp add: spaced_samples_def)
  next
    case (tele alive armed m s1)
    then have "bb_last_tele s + int (telemetry_period cfg) \<le> int (bi_tele bi)"
      using bridge_run_tick.hyps(2) bridge_run_tick.prems by (simp add: max_def split: if_splits)
    moreover from this have "last ts + telemetry_period cfg \<le> bi_tele bi" "last ts \<le> bi_tele bi" if "ts \<noteq> []"
      using IH(2) [OF that] by linarith+
    ultimately show ?thesis using IH(1) tele(6)
      by (auto simp: spaced_samples_def successively_append_iff)
  qed
qed

text \<open>With at most 1000 Hz asked for and a clock that does not run backwards within an
  iteration, telemetry samples are a full period apart.\<close>

lemma telemetry_spacing:
  assumes "bridge_run cfg ops js s evs ts" "br_telemetry_hz cfg \<le> 1000"
  shows "successively (\<lambda>a b. a + from_millis (1000 div unat (max (br_telemetry_hz cfg) 1)) \<le> b) ts"
  using bridge_run_spaced [OF assms(1) period_pos [OF assms(2)]]
  by (simp add: spaced_samples_def telemetry_period_def unat_div)

definition sample_tick :: "instant \<Rightarrow> (mock_fc_state, sample_json) bridge_input" where
  "sample_tick t = (let c = \<lparr>mono = t, wall = int t\<rparr> in
     \<lparr>bi_elapsed = t, bi_between = id, bi_commands = [], bi_check = t, bi_tele = t, bi_heartbeat = c,
      bi_stale = c, bi_stale_utc = int t, bi_t_ms = 0, bi_sample_ok = True, bi_alive_at = 0, bi_armed_at = 0,
      bi_mode_at = 0, bi_status = 0, bi_window = 0, bi_st_heartbeat = c, bi_st_stale = c, bi_st_stale_utc = 0,
      bi_win_start = 0, bi_status_done = 0\<rparr>)"

lemma sample_tick_sends:
  assumes "int (telemetry_period bridge_config_default) \<le> int t - bb_last_tele s"
  shows "\<exists>s' out. bridge_tick bridge_config_default mock_ops sample_js ''mock'' (sample_tick t) s = Some (s', out)
    \<and> bo_samples out \<noteq> [] \<and> bb_last_tele s' = int t"
  using assms
  by (auto simp: bridge_tick_def bridge_config_default_def sample_tick_def drain_commands_def
      telemetry_step_def status_step_def Let_def)

lemma default_period: "telemetry_period bridge_config_default = 100000000"
  by (simp add: telemetry_period_def bridge_config_default_def from_millis_def)

lemma sample_run:
  "\<exists>s evs. bridge_run bridge_config_default mock_ops sample_js s evs [5, 100000005]"
proof -
  have b: "bi_check (sample_tick t) \<le> bi_tele (sample_tick t)" "bi_tele (sample_tick t) = t" for t
    by (simp_all add: sample_tick_def Let_def)
  let ?s = "bridge_start bridge_config_default connected_mock 5 5 5"
  obtain s1 o1 where t1: "bridge_tick bridge_config_default mock_ops sample_js ''mock'' (sample_tick 5) ?s = Some (s1, o1)"
    "bo_samples o1 \<noteq> []" "bb_last_tele s1 = 5"
    using sample_tick_sends [of 5 ?s] by (auto simp: bridge_start_def default_period)
  obtain s2 o2 where t2: "bridge_tick bridge_config_default mock_ops sample_js ''mock'' (sample_tick 100000005) s1 = Some (s2, o2)"
    "bo_samples o2 \<noteq> []"
    using sample_tick_sends [of 100000005 s1] t1(3) by (auto simp: default_period)
  from bridge_run_tick [OF bridge_run_tick [OF bridge_run_start b(1) t1(1)] b(1) t2(1)] t1(2) t2(2) b(2)
  show ?thesis by auto
qed

lemma bridge_events_are_edges_witness:
  "\<exists>s evs. bridge_run bridge_config_default mock_ops sample_js s evs [5, 100000005]
    \<and> edges (bb_prev_alive s) (link_events evs)"
  using sample_run bridge_events_are_edges by blast

lemma telemetry_spacing_witness:
  "successively (\<lambda>a b. a + from_millis (1000 div unat (max (br_telemetry_hz bridge_config_default) 1)) \<le> b) [5, 100000005]"
proof -
  have "br_telemetry_hz bridge_config_default \<le> 1000" by (simp add: bridge_config_default_def)
  then show ?thesis using sample_run telemetry_spacing by blast
qed

end
