(* ===== verification/Ota.thy ===== *)
theory Ota
  imports Prelude
begin

text \<open>
  \<open>crates/commander/src/ota.rs\<close>: over-the-air updates.  What the HTTP client returns and how every
  file operation goes are inputs; the file system is a map from paths to contents, and an
  installation yields the list of all the file systems a crash could leave behind.  Permissions and
  the caches of the operating system are not modelled.
\<close>

section \<open>Configuration and errors\<close>

type_synonym bytes = "u8 list"
type_synonym path = "string list"
type_synonym fs = "path \<Rightarrow> bytes option"

datatype ota_error =
    OtaHttp string
  | ChecksumMismatch string string
  | OtaIo string
  | VersionCheck string

record update_info =
  ui_version :: string
  ui_binary_url :: string
  ui_checksum_sha256 :: string
  ui_release_notes :: "string option"

record ota_config =
  oc_server_url :: string
  oc_current_version :: string
  oc_binary_path :: path
  oc_backup_path :: path
  oc_check_interval_secs :: nat
  oc_enabled :: bool

definition ota_config_default :: ota_config where
  "ota_config_default = \<lparr>oc_server_url = ''http://localhost:9090'', oc_current_version = ''0.1.0'',
     oc_binary_path = [''/'', ''opt'', ''auto-targeting'', ''bin'', ''auto-targeting''],
     oc_backup_path = [''/'', ''opt'', ''auto-targeting'', ''previous'', ''auto-targeting''],
     oc_check_interval_secs = 3600, oc_enabled = False\<rparr>"

section \<open>The checksum\<close>

definition sha256_step :: "u64 \<Rightarrow> u8 \<Rightarrow> u64" where
  "sha256_step hash byte = hash * 31 + ucast byte"

definition hex_digit :: "nat \<Rightarrow> char" where
  "hex_digit n = (if n < 10 then char_of (48 + n) else char_of (87 + n))"

definition hex16 :: "u64 \<Rightarrow> string" where
  "hex16 w = map (\<lambda>i. hex_digit (unat w div 16 ^ (15 - i) mod 16)) [0..<16]"

definition sha256_hex :: "bytes \<Rightarrow> string" where
  "sha256_hex data = hex16 (foldl sha256_step 0 data)"

section \<open>Looking for an update\<close>

text \<open>Strings compare by their bytes.\<close>

fun str_less :: "string \<Rightarrow> string \<Rightarrow> bool" where
  "str_less a [] \<longleftrightarrow> False"
| "str_less [] (c # b) \<longleftrightarrow> True"
| "str_less (c # a) (d # b) \<longleftrightarrow> (of_char c :: nat) < of_char d \<or> c = d \<and> str_less a b"

text \<open>What the version request returns: a transport error, a status other than success, a body that
  does not parse, or the information.\<close>

datatype version_response =
    SendFailed string
  | StatusFailed string
  | BodyFailed string
  | VersionInfo update_info

definition check_for_update :: "ota_config \<Rightarrow> version_response \<Rightarrow> (ota_error, update_info option) result" where
  "check_for_update cfg resp =
    (if \<not> oc_enabled cfg then Inr None
     else case resp of
       SendFailed e \<Rightarrow> Inl (OtaHttp e)
     | StatusFailed s \<Rightarrow> Inl (VersionCheck (''HTTP '' @ s))
     | BodyFailed e \<Rightarrow> Inl (VersionCheck e)
     | VersionInfo info \<Rightarrow>
         if str_less (oc_current_version cfg) (ui_version info) then Inr (Some info) else Inr None)"

section \<open>Installing it\<close>

text \<open>\<open>PathBuf::with_extension\<close> on the components of a path.\<close>

definition file_stem :: "string \<Rightarrow> string" where
  "file_stem name =
    (let stem = rev (tl (dropWhile (\<lambda>c. c \<noteq> CHR ''.'') (rev name)))
     in if CHR ''.'' \<notin> set name \<or> stem = [] then name else stem)"

definition with_extension :: "string \<Rightarrow> path \<Rightarrow> path" where
  "with_extension ext p =
    (if p = [] \<or> last p \<in> {''/'', ''.'', ''..''} then p
     else butlast p @ [file_stem (last p) @ CHR ''.'' # ext])"

text \<open>
  How the file operations go.  A copy and a write report the contents that are seen in the target
  while they run, and may fail there; the other operations succeed (\<open>None\<close>) or fail.
\<close>

record install_io =
  io_exists :: bool
  io_copy :: "bytes list \<times> string option"
  io_create :: "string option"
  io_write :: "bytes list \<times> string option"
  io_sync :: "string option"
  io_metadata :: "string option"
  io_permissions :: "string option"
  io_rename :: "string option"

type_synonym install_step = "fs \<Rightarrow> (ota_error, unit) result \<times> fs list"

definition final_fs :: "fs \<Rightarrow> fs list \<Rightarrow> fs" where
  "final_fs fs trace = (if trace = [] then fs else last trace)"

definition and_then :: "install_step \<Rightarrow> install_step \<Rightarrow> install_step" where
  "and_then f g fs =
    (case f fs of
       (Inl e, trace) \<Rightarrow> (Inl e, trace)
     | (Inr _, trace) \<Rightarrow> (case g (final_fs fs trace) of (r, trace') \<Rightarrow> (r, trace @ trace')))"

definition io_result :: "string option \<Rightarrow> install_step" where
  "io_result err fs = (case err of None \<Rightarrow> (Inr (), []) | Some e \<Rightarrow> (Inl (OtaIo e), []))"

definition backup_current :: "ota_config \<Rightarrow> install_io \<Rightarrow> install_step" where
  "backup_current cfg io fs =
    (let binary_path = oc_binary_path cfg; backup_path = oc_backup_path cfg in
     case fs binary_path of
       None \<Rightarrow> (Inr (), [])
     | Some old \<Rightarrow>
         if \<not> io_exists io then (Inr (), [])
         else case io_copy io of
                (seen, Some e) \<Rightarrow> (Inl (OtaIo e), map (\<lambda>c. fs(backup_path \<mapsto> c)) seen)
              | (seen, None) \<Rightarrow> (Inr (), map (\<lambda>c. fs(backup_path \<mapsto> c)) seen @ [fs(backup_path \<mapsto> old)]))"

definition create_temp :: "path \<Rightarrow> install_io \<Rightarrow> install_step" where
  "create_temp temp io fs =
    (case io_create io of Some e \<Rightarrow> (Inl (OtaIo e), []) | None \<Rightarrow> (Inr (), [fs(temp \<mapsto> [])]))"

definition write_temp :: "path \<Rightarrow> bytes \<Rightarrow> install_io \<Rightarrow> install_step" where
  "write_temp temp binary io fs =
    (case io_write io of
       (seen, Some e) \<Rightarrow> (Inl (OtaIo e), map (\<lambda>c. fs(temp \<mapsto> c)) seen)
     | (seen, None) \<Rightarrow> (Inr (), map (\<lambda>c. fs(temp \<mapsto> c)) seen @ [fs(temp \<mapsto> binary)]))"

definition rename_temp :: "path \<Rightarrow> path \<Rightarrow> install_io \<Rightarrow> install_step" where
  "rename_temp temp binary_path io fs =
    (case io_rename io of
       Some e \<Rightarrow> (Inl (OtaIo e), [])
     | None \<Rightarrow> (Inr (), [if temp = binary_path then fs else fs(binary_path := fs temp, temp := None)]))"

definition install_binary :: "ota_config \<Rightarrow> bytes \<Rightarrow> install_io \<Rightarrow> install_step" where
  "install_binary cfg binary io =
    (let temp = with_extension ''new'' (oc_binary_path cfg) in
     and_then (backup_current cfg io)
      (and_then (create_temp temp io)
        (and_then (write_temp temp binary io)
          (and_then (io_result (io_sync io))
            (and_then (io_result (io_metadata io))
              (and_then (io_result (io_permissions io))
                (rename_temp temp (oc_binary_path cfg) io)))))))"

definition download_and_install ::
  "ota_config \<Rightarrow> update_info \<Rightarrow> (string, bytes) result \<Rightarrow> install_io \<Rightarrow> install_step" where
  "download_and_install cfg info download io fs =
    (case download of
       Inl e \<Rightarrow> (Inl (OtaHttp e), [])
     | Inr binary \<Rightarrow>
         let actual_checksum = sha256_hex binary in
         if actual_checksum \<noteq> ui_checksum_sha256 info
         then (Inl (ChecksumMismatch (ui_checksum_sha256 info) actual_checksum), [])
         else install_binary cfg binary io fs)"

definition check_and_update ::
  "ota_config \<Rightarrow> version_response \<Rightarrow> (update_info \<Rightarrow> (string, bytes) result) \<Rightarrow> install_io \<Rightarrow> fs
    \<Rightarrow> (ota_error, bool) result \<times> fs list" where
  "check_and_update cfg resp download io fs =
    (case check_for_update cfg resp of
       Inl e \<Rightarrow> (Inl e, [])
     | Inr None \<Rightarrow> (Inr False, [])
     | Inr (Some info) \<Rightarrow>
         (case download_and_install cfg info (download info) io fs of
            (Inl e, trace) \<Rightarrow> (Inl e, trace)
          | (Inr _, trace) \<Rightarrow> (Inr True, trace)))"

section \<open>Atomic installation\<close>

text \<open>A step that never touches a path, and the composition of such steps.\<close>

definition keeps :: "path \<Rightarrow> install_step \<Rightarrow> bool" where
  "keeps p f \<longleftrightarrow> (\<forall>fs. \<forall>fs'\<in>set (snd (f fs)). fs' p = fs p)"

lemma keepsD: "keeps p f \<Longrightarrow> f fs = (r, trace) \<Longrightarrow> fs' \<in> set trace \<Longrightarrow> fs' p = fs p"
  unfolding keeps_def by (metis snd_conv)

lemma keeps_final: "keeps p f \<Longrightarrow> f fs = (r, trace) \<Longrightarrow> final_fs fs trace p = fs p"
  using keepsD [of p f fs r trace "last trace"] by (simp add: final_fs_def)

lemma and_then_cases:
  assumes "and_then f g fs = (r, trace)"
  obtains (fail) e where "f fs = (Inl e, trace)" "r = Inl e"
  | (ok) t1 t2 where "f fs = (Inr (), t1)" "g (final_fs fs t1) = (r, t2)" "trace = t1 @ t2"
  using assms by (cases "f fs"; cases "fst (f fs)") (auto simp: and_then_def split: prod.splits)

lemma final_append: "final_fs fs (t1 @ t2) = final_fs (final_fs fs t1) t2"
  by (simp add: final_fs_def)

lemma keeps_and_then:
  assumes f: "keeps p f" and g: "keeps p g"
  shows "keeps p (and_then f g)"
  unfolding keeps_def
proof (intro allI ballI)
  fix fs fs' assume m: "fs' \<in> set (snd (and_then f g fs))"
  obtain r trace where e: "and_then f g fs = (r, trace)" by fastforce
  then show "fs' p = fs p"
  proof (cases rule: and_then_cases)
    case fail
    then show ?thesis using keepsD [OF f] m e by simp
  next
    case ok
    then show ?thesis using keepsD [OF f ok(1)] keepsD [OF g ok(2)] keeps_final [OF f ok(1)] m e by auto
  qed
qed

lemma keeps_steps:
  "p \<noteq> oc_backup_path cfg \<Longrightarrow> keeps p (backup_current cfg io)"
  "p \<noteq> temp \<Longrightarrow> keeps p (create_temp temp io)"
  "p \<noteq> temp \<Longrightarrow> keeps p (write_temp temp binary io)"
  "keeps p (io_result err)"
  by (auto simp: keeps_def backup_current_def create_temp_def write_temp_def io_result_def Let_def
      split: option.splits prod.splits)

text \<open>
  From file systems where \<open>pre\<close> holds a step leaves \<open>p\<close> as it is or puts \<open>new\<close> there, in one go,
  and it does the latter exactly when it succeeds.
\<close>

definition installs :: "path \<Rightarrow> bytes option \<Rightarrow> (fs \<Rightarrow> bool) \<Rightarrow> install_step \<Rightarrow> bool" where
  "installs p new pre f \<longleftrightarrow> (\<forall>fs r trace. pre fs \<longrightarrow> f fs = (r, trace) \<longrightarrow>
     (\<forall>fs'\<in>set trace. fs' p = fs p \<or> fs' p = new)
     \<and> final_fs fs trace p = (case r of Inl _ \<Rightarrow> fs p | Inr _ \<Rightarrow> new))"

lemma installs_and_then:
  assumes f: "keeps p f" and step: "\<And>fs t. pre fs \<Longrightarrow> f fs = (Inr (), t) \<Longrightarrow> pre' (final_fs fs t)"
    and g: "installs p new pre' g"
  shows "installs p new pre (and_then f g)"
  unfolding installs_def
proof (intro allI impI)
  fix fs r trace assume pre: "pre fs" and e: "and_then f g fs = (r, trace)"
  from e show "(\<forall>fs'\<in>set trace. fs' p = fs p \<or> fs' p = new)
     \<and> final_fs fs trace p = (case r of Inl _ \<Rightarrow> fs p | Inr _ \<Rightarrow> new)"
  proof (cases rule: and_then_cases)
    case fail
    then show ?thesis using keepsD [OF f fail(1)] keeps_final [OF f fail(1)] by simp
  next
    case (ok t1 t2)
    have k: "final_fs fs t1 p = fs p" by (rule keeps_final [OF f ok(1)])
    have "(\<forall>fs'\<in>set t2. fs' p = fs p \<or> fs' p = new)
        \<and> final_fs (final_fs fs t1) t2 p = (case r of Inl _ \<Rightarrow> fs p | Inr _ \<Rightarrow> new)"
      using g step [OF pre ok(1)] ok(2) k unfolding installs_def by metis
    then show ?thesis using keepsD [OF f ok(1)] by (auto simp: ok(3) final_append)
  qed
qed

lemma installs_rename:
  "temp \<noteq> p \<Longrightarrow> installs p (Some binary) (\<lambda>fs. fs temp = Some binary) (rename_temp temp p io)"
  by (auto simp: installs_def rename_temp_def final_fs_def split: option.splits)

lemma installs_install:
  assumes "oc_binary_path cfg \<noteq> oc_backup_path cfg" "with_extension ''new'' (oc_binary_path cfg) \<noteq> oc_binary_path cfg"
  shows "installs (oc_binary_path cfg) (Some binary) (\<lambda>_. True) (install_binary cfg binary io)"
proof -
  let ?p = "oc_binary_path cfg" and ?temp = "with_extension ''new'' (oc_binary_path cfg)"
  let ?written = "\<lambda>fs. fs ?temp = Some binary"
  have io: "keeps ?p (io_result e)" "io_result e fs = (Inr (), t) \<Longrightarrow> ?written fs \<Longrightarrow> ?written (final_fs fs t)" for e fs t
    by (simp_all add: keeps_steps) (simp add: io_result_def final_fs_def split: option.splits)
  have w: "write_temp ?temp binary io fs = (Inr (), t) \<Longrightarrow> ?written (final_fs fs t)" for fs t
    by (auto simp: write_temp_def final_fs_def split: prod.splits option.splits)
  show ?thesis
    unfolding install_binary_def Let_def
    by (intro installs_and_then [where pre' = "\<lambda>_. True"] installs_and_then [where pre' = ?written]
        installs_rename keeps_steps(1,2,3) io w) (use assms in auto)
qed

lemma backup_ensured:
  assumes "backup_current cfg io fs = (Inr (), t)" "fs (oc_binary_path cfg) = Some old" "io_exists io"
  shows "final_fs fs t (oc_backup_path cfg) = Some old"
  using assms by (auto simp: backup_current_def Let_def final_fs_def split: prod.splits option.splits)

lemma install_backup:
  assumes "install_binary cfg binary io fs = (Inr (), t)" "fs (oc_binary_path cfg) = Some old" "io_exists io"
    and "oc_backup_path cfg \<noteq> oc_binary_path cfg" "oc_backup_path cfg \<noteq> with_extension ''new'' (oc_binary_path cfg)"
  shows "final_fs fs t (oc_backup_path cfg) = Some old"
proof -
  have r: "keeps (oc_backup_path cfg) (rename_temp temp (oc_binary_path cfg) io)" if "oc_backup_path cfg \<noteq> temp" for temp
    using assms(4) that by (auto simp: keeps_def rename_temp_def split: option.splits)
  from assms(1) show ?thesis
    unfolding install_binary_def Let_def
  proof (cases rule: and_then_cases)
    case (ok t1 t2)
    have "final_fs (final_fs fs t1) t2 (oc_backup_path cfg) = final_fs fs t1 (oc_backup_path cfg)"
      by (rule keeps_final [rotated], rule ok(2)) (intro keeps_and_then keeps_steps(2-4) r assms(5))
    then show ?thesis using backup_ensured [OF ok(1) assms(2,3)] ok(3) by (simp add: final_append)
  qed simp
qed

definition distinct_paths :: "ota_config \<Rightarrow> bool" where
  "distinct_paths cfg \<longleftrightarrow> distinct [oc_binary_path cfg, oc_backup_path cfg, with_extension ''new'' (oc_binary_path cfg)]"

text \<open>C35: whatever fails and wherever a crash stops it, an update leaves the old binary or the
  complete downloaded one with the announced checksum, never a part; an error leaves the old one; a
  success has the new one in place and the old one in the backup.\<close>

theorem install_atomic:
  assumes "distinct_paths cfg" "download_and_install cfg info download io fs = (r, trace)"
  shows "(\<forall>fs'\<in>set trace. fs' (oc_binary_path cfg) = fs (oc_binary_path cfg)
        \<or> (\<exists>binary. download = Inr binary \<and> sha256_hex binary = ui_checksum_sha256 info
              \<and> fs' (oc_binary_path cfg) = Some binary))
    \<and> (case r of
         Inl _ \<Rightarrow> final_fs fs trace (oc_binary_path cfg) = fs (oc_binary_path cfg)
       | Inr _ \<Rightarrow> (\<exists>binary. download = Inr binary \<and> sha256_hex binary = ui_checksum_sha256 info
             \<and> final_fs fs trace (oc_binary_path cfg) = Some binary)
           \<and> (io_exists io \<and> fs (oc_binary_path cfg) \<noteq> None
                \<longrightarrow> final_fs fs trace (oc_backup_path cfg) = fs (oc_binary_path cfg)))"
proof (cases "\<exists>binary. download = Inr binary \<and> sha256_hex binary = ui_checksum_sha256 info")
  case False
  then have "trace = [] \<and> \<not> is_ok r"
    using assms(2) by (auto simp: download_and_install_def Let_def split: sum.splits if_splits)
  then show ?thesis by (cases r) (simp_all add: final_fs_def)
next
  case True
  then obtain binary where b: "download = Inr binary" "sha256_hex binary = ui_checksum_sha256 info" by blast
  then have i: "install_binary cfg binary io fs = (r, trace)"
    using assms(2) by (simp add: download_and_install_def)
  have d: "oc_binary_path cfg \<noteq> oc_backup_path cfg" "with_extension ''new'' (oc_binary_path cfg) \<noteq> oc_binary_path cfg"
    "oc_backup_path cfg \<noteq> with_extension ''new'' (oc_binary_path cfg)"
    using assms(1) by (auto simp: distinct_paths_def)
  note p = installs_install [OF d(1,2), of binary io, unfolded installs_def, rule_format, OF TrueI i]
  show ?thesis
  proof (cases r)
    case (Inl e)
    then show ?thesis using p b by auto
  next
    case (Inr u)
    then have "final_fs fs trace (oc_backup_path cfg) = Some old"
      if "io_exists io" "fs (oc_binary_path cfg) = Some old" for old
      using install_backup [of cfg binary io fs trace old] i that d by auto
    then show ?thesis using p b Inr by auto
  qed
qed

definition quiet_io :: install_io where
  "quiet_io = \<lparr>io_exists = True, io_copy = ([[], [1]], None), io_create = None, io_write = ([[0]], None),
     io_sync = None, io_metadata = None, io_permissions = None, io_rename = None\<rparr>"

definition sample_update :: update_info where
  "sample_update = \<lparr>ui_version = ''0.2.0'', ui_binary_url = ''http://localhost:9090/binary'',
     ui_checksum_sha256 = sha256_hex [0, 31], ui_release_notes = None\<rparr>"

lemma default_paths_distinct: "distinct_paths ota_config_default"
  by (simp add: distinct_paths_def ota_config_default_def with_extension_def file_stem_def)

theorem install_atomic_witness:
  "\<exists>trace. download_and_install ota_config_default sample_update (Inr [0, 31]) quiet_io
      (Map.empty(oc_binary_path ota_config_default \<mapsto> [7])) = (Inr (), trace)
    \<and> final_fs (Map.empty(oc_binary_path ota_config_default \<mapsto> [7])) trace (oc_binary_path ota_config_default) = Some [0, 31]
    \<and> final_fs (Map.empty(oc_binary_path ota_config_default \<mapsto> [7])) trace (oc_backup_path ota_config_default) = Some [7]"
proof -
  let ?fs = "Map.empty(oc_binary_path ota_config_default \<mapsto> [7]) :: fs"
  have "\<exists>trace. download_and_install ota_config_default sample_update (Inr [0, 31]) quiet_io ?fs = (Inr (), trace)"
    by (simp add: download_and_install_def sample_update_def install_binary_def and_then_def backup_current_def
        create_temp_def write_temp_def io_result_def rename_temp_def quiet_io_def Let_def split: prod.splits)
  then obtain trace where t: "download_and_install ota_config_default sample_update (Inr [0, 31]) quiet_io ?fs = (Inr (), trace)" ..
  from install_atomic [OF default_paths_distinct t] t show ?thesis by (auto simp: quiet_io_def)
qed

lemma length_sha256_hex: "length (sha256_hex data) = 16"
  by (simp add: sha256_hex_def hex16_def)

text \<open>The checksum has sixteen characters, so a real SHA-256 digest (64 characters) is refused for
  every download; and it is not injective, different binaries pass as each other.\<close>

lemma sha256_always_refused:
  assumes "length (ui_checksum_sha256 info) = 64"
  shows "(\<exists>e. download_and_install cfg info download io fs = (Inl e, []))
    \<and> sha256_hex [1, 0] = sha256_hex [0, 31]"
proof
  have "sha256_hex binary \<noteq> ui_checksum_sha256 info" for binary
    using assms length_sha256_hex [of binary] by auto
  then show "\<exists>e. download_and_install cfg info download io fs = (Inl e, [])"
    by (cases download) (simp_all add: download_and_install_def)
  show "sha256_hex [1, 0] = sha256_hex [0, 31]" by (simp add: sha256_hex_def sha256_step_def)
qed

lemma sha256_always_refused_witness:
  "\<exists>e. download_and_install ota_config_default (sample_update\<lparr>ui_checksum_sha256 := replicate 64 CHR ''a''\<rparr>) (Inr [1]) quiet_io Map.empty = (Inl e, [])"
  using sha256_always_refused [of "sample_update\<lparr>ui_checksum_sha256 := replicate 64 CHR ''a''\<rparr>"] by simp

text \<open>Versions are compared as strings: 0.10.0 is no update for 0.9.0.\<close>

lemma string_versions:
  "check_for_update (ota_config_default\<lparr>oc_enabled := True, oc_current_version := ''0.9.0''\<rparr>)
     (VersionInfo (sample_update\<lparr>ui_version := ''0.10.0''\<rparr>)) = Inr None"
  by (simp add: check_for_update_def)

text \<open>The whole cycle reports an update exactly when it installed one.\<close>

lemma check_and_update_true:
  "check_and_update cfg resp download io fs = (Inr True, trace)
    \<longleftrightarrow> (\<exists>info. check_for_update cfg resp = Inr (Some info)
          \<and> download_and_install cfg info (download info) io fs = (Inr (), trace))"
  by (auto simp: check_and_update_def split: sum.splits option.splits prod.splits)

end
