(* ===== verification/Health.thy ===== *)
theory Health
  imports Prelude
begin

text \<open>
  \<open>crates/commander/src/health.rs\<close>: the health snapshot the HTTP endpoint serves.  The HTTP server,
  its routes and the notifications of systemd are third-party code; \<open>systemd_loop\<close> lists what the
  notification task sends, which takes nothing from the main loop.
\<close>

record health_status =
  hs_status :: string
  hs_version :: string
  hs_uptime_secs :: nat
  hs_state :: string
  hs_connected :: bool
  hs_armed :: bool
  hs_fc_mode :: string
  hs_fc_heartbeat_stale :: bool
  hs_watchdogs_expired :: u32
  hs_watchdogs_total :: u32
  hs_active_target_id :: "u64 option"
  hs_rate_limiter_sent :: u64
  hs_rate_limiter_dropped :: u64
  hs_last_command_age_ms :: nat

definition health_status_default :: health_status where
  "health_status_default = \<lparr>hs_status = ''starting'', hs_version = ''0.1.0'', hs_uptime_secs = 0,
     hs_state = ''IDLE'', hs_connected = False, hs_armed = False, hs_fc_mode = ''Unknown'',
     hs_fc_heartbeat_stale = True, hs_watchdogs_expired = 0, hs_watchdogs_total = 0,
     hs_active_target_id = None, hs_rate_limiter_sent = 0, hs_rate_limiter_dropped = 0,
     hs_last_command_age_ms = 2 ^ 64 - 1\<rparr>"

record health_config =
  hc_port :: nat
  hc_notify_interval_secs :: nat
  hc_enable_systemd_notify :: bool

definition health_config_default :: health_config where
  "health_config_default = \<lparr>hc_port = 8080, hc_notify_interval_secs = 5, hc_enable_systemd_notify = True\<rparr>"

record health_server =
  hv_config :: health_config
  hv_status :: health_status
  hv_start_time :: instant
  hv_shutdown :: bool

definition health_new :: "health_config \<Rightarrow> instant \<Rightarrow> health_server" where
  "health_new config now = \<lparr>hv_config = config, hv_status = health_status_default, hv_start_time = now,
     hv_shutdown = False\<rparr>"

definition uptime :: "instant \<Rightarrow> instant \<Rightarrow> nat" where
  "uptime start now = (now - start) div 1000000000"

definition update_status :: "instant \<Rightarrow> (health_status \<Rightarrow> health_status) \<Rightarrow> health_server \<Rightarrow> health_server" where
  "update_status now update_fn s =
     s\<lparr>hv_status := (update_fn (hv_status s))\<lparr>hs_uptime_secs := uptime (hv_start_time s) now\<rparr>\<rparr>"

definition health_shutdown :: "health_server \<Rightarrow> health_server" where
  "health_shutdown s = s\<lparr>hv_shutdown := True\<rparr>"

text \<open>The response: its HTTP code and the snapshot.\<close>

definition health_handler :: "instant \<Rightarrow> health_server \<Rightarrow> nat \<times> health_status" where
  "health_handler now s =
    (let snapshot = (hv_status s)\<lparr>hs_uptime_secs := uptime (hv_start_time s) now\<rparr>;
         status = (if hs_fc_heartbeat_stale snapshot \<or> 0 < hs_watchdogs_expired snapshot then ''degraded''
                   else if hs_connected snapshot then ''ok'' else ''starting'');
         snapshot = snapshot\<lparr>hs_status := status\<rparr>;
         code = (if status = ''ok'' then 200 else if status = ''degraded'' then 503 else 200)
     in (code, snapshot))"

datatype sd_notification = SdReady | SdWatchdog | SdStopping

text \<open>What systemd receives while the server runs: one start, a watchdog message per tick of the timer,
  one stop.\<close>

definition systemd_loop :: "health_config \<Rightarrow> nat \<Rightarrow> sd_notification list" where
  "systemd_loop config ticks =
    (if hc_enable_systemd_notify config then SdReady # replicate ticks SdWatchdog @ [SdStopping] else [])"

text \<open>The answer has no notion of age: a main loop that stopped updating keeps its last status.\<close>

lemma health_never_ages:
  "fst (health_handler later s) = fst (health_handler now s)
   \<and> hs_status (snd (health_handler later s)) = hs_status (snd (health_handler now s))"
  by (simp add: health_handler_def Let_def)

text \<open>Before the first update the endpoint answers 503, not ``starting''.\<close>

lemma health_starts_degraded:
  "fst (health_handler now (health_new config t)) = 503
   \<and> hs_status (snd (health_handler now (health_new config t))) = ''degraded''"
  by (simp add: health_handler_def health_new_def health_status_default_def Let_def)

lemma health_ok_iff:
  "hs_status (snd (health_handler now s)) = ''ok'' \<longleftrightarrow>
     hs_connected (hv_status s) \<and> \<not> hs_fc_heartbeat_stale (hv_status s) \<and> hs_watchdogs_expired (hv_status s) = 0"
  by (auto simp: health_handler_def Let_def word_gt_0)

end
