(* ===== verification/Yolo.thy ===== *)
theory Yolo
  imports Suppression Convert Overlap
begin

text \<open>
  \<open>crates/yolov8/src/lib.rs\<close>: from a frame to the input tensor of the network (letterbox and
  normalisation), and from its output tensor to detections.  The table of the COCO labels is data and
  a parameter.  A failed assertion and a slice out of range panic (\<open>None\<close>).
\<close>

section \<open>Letterbox\<close>

definition input_size :: nat where
  "input_size = 640"

definition pad_value :: u8 where
  "pad_value = 114"

record letterbox_params =
  lp_orig_w :: u32
  lp_orig_h :: u32
  lp_scale :: f32
  lp_pad_x :: f32
  lp_pad_y :: f32

text \<open>\<open>f32::MIN_POSITIVE\<close> is \<open>2 ^ -126\<close>.\<close>

definition compute_letterbox :: "u32 \<Rightarrow> u32 \<Rightarrow> nat \<Rightarrow> f32 \<times> f32 \<times> f32" where
  "compute_letterbox orig_w orig_h target =
    (let ow = u32_as_f32 orig_w; oh = u32_as_f32 orig_h; tg = fl_of_nat target;
         scale_raw = fmin (tg / ow) (tg / oh);
         scale = fmax scale_raw (Fin (1 / 2 ^ 126));
         new_w = ow * scale; new_h = oh * scale
     in (scale, (tg - new_w) * lit (1 / 2), (tg - new_h) * lit (1 / 2)))"

definition params_for_size :: "u32 \<Rightarrow> u32 \<Rightarrow> letterbox_params" where
  "params_for_size orig_w orig_h =
    (case compute_letterbox orig_w orig_h input_size of
       (scale, pad_x, pad_y) \<Rightarrow>
         \<lparr>lp_orig_w = orig_w, lp_orig_h = orig_h, lp_scale = scale, lp_pad_x = pad_x, lp_pad_y = pad_y\<rparr>)"

definition unproject_xy :: "letterbox_params \<Rightarrow> f32 \<Rightarrow> f32 \<Rightarrow> f32 \<times> f32" where
  "unproject_xy p cx640 cy640 = ((cx640 - lp_pad_x p) / lp_scale p, (cy640 - lp_pad_y p) / lp_scale p)"

text \<open>Overwriting a slice, and a row of pixels by nearest-neighbour sampling.\<close>

definition write_at :: "nat \<Rightarrow> 'a list \<Rightarrow> 'a list \<Rightarrow> 'a list option" where
  "write_at off row out =
    (if off + length row \<le> length out then Some (take off out @ row @ drop (off + length row) out) else None)"

definition source_index :: "f32 \<Rightarrow> u32 \<Rightarrow> nat \<Rightarrow> nat" where
  "source_index unscale src_n t =
     unat (min (as_u32 (f32_round (fl_of_nat t * unscale))) (if src_n = 0 then 0 else src_n - 1))"

fun gather :: "u8 list \<Rightarrow> nat list \<Rightarrow> u8 list option" where
  "gather src [] = Some []"
| "gather src (x # xs) =
     (case slice (x * 3) 3 src of
        None \<Rightarrow> None
      | Some px \<Rightarrow> map_option ((@) px) (gather src xs))"

fun letterbox_rows :: "(nat \<Rightarrow> u8 list option) \<Rightarrow> (nat \<Rightarrow> nat) \<Rightarrow> nat list \<Rightarrow> u8 list \<Rightarrow> u8 list option" where
  "letterbox_rows row_of offset [] out = Some out"
| "letterbox_rows row_of offset (ty # tys) out =
     (case row_of ty of
        None \<Rightarrow> None
      | Some row \<Rightarrow>
          (case write_at (offset ty) row out of
             None \<Rightarrow> None
           | Some out' \<Rightarrow> letterbox_rows row_of offset tys out'))"

definition as_usize :: "f32 \<Rightarrow> nat" where
  "as_usize x = (case x of Fin q \<Rightarrow> nat (truncq q) | PInf \<Rightarrow> 2 ^ 64 - 1 | _ \<Rightarrow> 0)"

definition letterbox :: "u8 list \<Rightarrow> u32 \<Rightarrow> u32 \<Rightarrow> (u8 list \<times> letterbox_params) option" where
  "letterbox rgb_src src_w src_h =
    (if length rgb_src \<noteq> unat src_w * unat src_h * 3 then None
     else
      let params = params_for_size src_w src_h;
          scale = lp_scale params;
          out = replicate (input_size * input_size * 3) pad_value;
          vis_w = as_u32 (f32_round (u32_as_f32 src_w * scale));
          vis_h = as_u32 (f32_round (u32_as_f32 src_h * scale));
          unscale = (if Fin 0 < scale then Fin 1 / scale else Fin 0);
          w = unat src_w;
          pad_x = as_usize (f32_round (lp_pad_x params));
          pad_y = as_usize (f32_round (lp_pad_y params));
          offset = (\<lambda>ty. (pad_y + ty) * input_size * 3 + pad_x * 3);
          row_of = (if feq scale (Fin 1) \<and> unat vis_w = w
                    then (\<lambda>ty. slice (ty * w * 3) (w * 3) rgb_src)
                    else (\<lambda>ty. case slice (source_index unscale src_h ty * w * 3) (w * 3) rgb_src of
                                 None \<Rightarrow> None
                               | Some src_row \<Rightarrow> gather src_row (map (source_index unscale src_w) [0..<unat vis_w])))
      in map_option (\<lambda>out. (out, params)) (letterbox_rows row_of offset [0..<unat vis_h] out))"

text \<open>\<open>INV_255\<close> is the rounded quotient.\<close>

definition rgb_to_nchw_f32 :: "u8 list \<Rightarrow> f32 list option" where
  "rgb_to_nchw_f32 rgb =
    (if length rgb \<noteq> input_size * input_size * 3 then None
     else let inv_255 = Fin 1 / lit 255;
              plane = (\<lambda>c. map (\<lambda>px. fl_of_nat (unat (px ! c)) * inv_255) (chunks_exact 3 rgb))
          in Some (plane 0 @ plane 1 @ plane 2))"

section \<open>Reading the output\<close>

record candidate =
  ca_cx :: f32
  ca_cy :: f32
  ca_w :: f32
  ca_h :: f32
  ca_class_id :: u32
  ca_confidence :: f32

text \<open>One row of class scores: an anchor takes the class when its score is higher.\<close>

definition scan_row :: "nat \<Rightarrow> f32 list \<Rightarrow> (f32 \<times> u32) list \<Rightarrow> (f32 \<times> u32) list" where
  "scan_row c row best = map2 (\<lambda>s b. if fst b < s then (s, of_nat c) else b) row best"

definition best_classes :: "f32 list \<Rightarrow> nat \<Rightarrow> nat \<Rightarrow> (f32 \<times> u32) list" where
  "best_classes class_rows num_classes num_anchors =
     fold (\<lambda>c. scan_row c (take num_anchors (drop (c * num_anchors) class_rows))) [0..<num_classes]
       (replicate num_anchors (NInf, 0))"

definition clamp_score :: "f32 \<Rightarrow> f32" where
  "clamp_score s = (case clamp s (Fin 0) (Fin 1) of Some x \<Rightarrow> x | None \<Rightarrow> NaN)"

fun fl_finite :: "'f fl \<Rightarrow> bool" where
  "fl_finite (Fin q) = True"
| "fl_finite NZero = True"
| "fl_finite _ = False"

definition candidate_of :: "f32 \<Rightarrow> f32 list \<Rightarrow> nat \<Rightarrow> (f32 \<times> u32) list \<Rightarrow> nat \<Rightarrow> candidate option" where
  "candidate_of conf_threshold output num_anchors best a =
    (let conf = clamp_score (fst (best ! a));
         cx = output ! a; cy = output ! (num_anchors + a);
         w = output ! (2 * num_anchors + a); h = output ! (3 * num_anchors + a)
     in if conf < conf_threshold then None
        else if \<not> fl_finite cx \<or> \<not> fl_finite cy \<or> w \<le> Fin 0 \<or> h \<le> Fin 0 then None
        else Some \<lparr>ca_cx = cx, ca_cy = cy, ca_w = w, ca_h = h, ca_class_id = snd (best ! a), ca_confidence = conf\<rparr>)"

definition iou_640 :: "candidate \<Rightarrow> candidate \<Rightarrow> f32" where
  "iou_640 a b =
    (let half = lit (1 / 2);
         ax1 = ca_cx a - ca_w a * half; ay1 = ca_cy a - ca_h a * half;
         ax2 = ca_cx a + ca_w a * half; ay2 = ca_cy a + ca_h a * half;
         bx1 = ca_cx b - ca_w b * half; by1 = ca_cy b - ca_h b * half;
         bx2 = ca_cx b + ca_w b * half; by2 = ca_cy b + ca_h b * half;
         iw = fmax (fmin ax2 bx2 - fmax ax1 bx1) (Fin 0);
         ih = fmax (fmin ay2 by2 - fmax ay1 by1) (Fin 0);
         inter = iw * ih;
         union = ca_w a * ca_h a + ca_w b * ca_h b - inter
     in if union \<le> Fin 0 then Fin 0 else inter / union)"

text \<open>A coordinate rounded, clamped to the frame and truncated; the box of a candidate.\<close>

definition clamp_pixel :: "f32 \<Rightarrow> u32 \<Rightarrow> u32" where
  "clamp_pixel v limit = (case clamp (f32_round v) (Fin 0) (u32_as_f32 limit) of Some x \<Rightarrow> as_u32 x | None \<Rightarrow> 0)"

definition extent :: "u32 \<Rightarrow> u32 \<Rightarrow> u32" where
  "extent x x1 = max (if x1 < x then 0 else x1 - x) 1"

definition box_of :: "letterbox_params \<Rightarrow> candidate \<Rightarrow> bounding_box" where
  "box_of params c =
    (case unproject_xy params (ca_cx c) (ca_cy c) of
       (ox, oy) \<Rightarrow>
         let bw = ca_w c / lp_scale params; bh = ca_h c / lp_scale params; half = lit (1 / 2);
             x = clamp_pixel (ox - bw * half) (lp_orig_w params);
             y = clamp_pixel (oy - bh * half) (lp_orig_h params);
             x1 = clamp_pixel (ox + bw * half) (lp_orig_w params);
             y1 = clamp_pixel (oy + bh * half) (lp_orig_h params)
         in \<lparr>b_x = x, b_y = y, b_width = extent x x1, b_height = extent y y1\<rparr>)"

definition label_of :: "string list \<Rightarrow> u32 \<Rightarrow> string" where
  "label_of labels i = (if unat i < length labels then labels ! unat i else ''unknown'')"

definition detection_of :: "letterbox_params \<Rightarrow> string list \<Rightarrow> u64 \<Rightarrow> utc \<Rightarrow> candidate \<Rightarrow> detection" where
  "detection_of params labels frame_seq now c =
     \<lparr>d_bbox = box_of params c, d_class = label_of labels (ca_class_id c), d_class_id = ca_class_id c,
      d_confidence = ca_confidence c, d_frame_seq = frame_seq, d_detected_at = now\<rparr>"

definition candidates :: "f32 list \<Rightarrow> nat \<Rightarrow> nat \<Rightarrow> f32 \<Rightarrow> candidate list" where
  "candidates output num_classes num_anchors conf_threshold =
    (let best = best_classes (drop (4 * num_anchors) output) num_classes num_anchors
     in List.map_filter (candidate_of conf_threshold output num_anchors best) [0..<num_anchors])"

text \<open>\<open>4 + num_classes\<close> is a 32-bit sum; overflow panics in checked builds.\<close>

definition postprocess ::
  "f32 list \<Rightarrow> u32 \<Rightarrow> nat \<Rightarrow> letterbox_params \<Rightarrow> f32 \<Rightarrow> f32 \<Rightarrow> u64 \<Rightarrow> utc \<Rightarrow> string list \<Rightarrow> detection list option" where
  "postprocess output num_classes num_anchors params conf_threshold iou_threshold frame_seq now labels =
    (if 2 ^ 32 \<le> 4 + unat num_classes \<or> length output \<noteq> (4 + unat num_classes) * num_anchors then None
     else Some (suppression (\<lambda>a b. iou_threshold < iou_640 a b) (detection_of params labels frame_seq now)
       (sort_by_confidence ca_confidence (candidates output (unat num_classes) num_anchors conf_threshold))))"

section \<open>The class of an anchor\<close>

definition class_score :: "f32 list \<Rightarrow> nat \<Rightarrow> nat \<Rightarrow> nat \<Rightarrow> f32" where
  "class_score class_rows num_anchors a c = class_rows ! (c * num_anchors + a)"

definition better :: "(nat \<Rightarrow> f32) \<Rightarrow> nat \<Rightarrow> f32 \<times> u32 \<Rightarrow> f32 \<times> u32" where
  "better score c b = (if fst b < score c then (score c, of_nat c) else b)"

lemma best_classes_column:
  assumes "n * na \<le> length rows" "a < na"
  shows "length (best_classes rows n na) = na
    \<and> best_classes rows n na ! a = fold (better (class_score rows na a)) [0..<n] (NInf, 0)"
  using assms
proof (induction n)
  case (Suc n)
  let ?row = "take na (drop (n * na) rows)"
  have l: "length ?row = na" "?row ! a = class_score rows na a n"
    using Suc.prems by (simp_all add: class_score_def)
  have b: "best_classes rows (Suc n) na = scan_row n ?row (best_classes rows n na)"
    by (simp add: best_classes_def)
  show ?case using Suc l unfolding b by (simp add: scan_row_def better_def)
qed (simp add: best_classes_def)

text \<open>The pair after the classes below \<open>n\<close>: the greatest score, with the first class that has it.\<close>

definition is_best :: "(nat \<Rightarrow> f32) \<Rightarrow> nat \<Rightarrow> f32 \<times> u32 \<Rightarrow> bool" where
  "is_best score n b \<longleftrightarrow> \<not> is_nan (fst b) \<and> (\<forall>c<n. \<not> fst b < score c)
     \<and> (b = (NInf, 0) \<or> unat (snd b) < n \<and> fst b = score (unat (snd b))
          \<and> (\<forall>c<unat (snd b). is_nan (score c) \<or> score c < fst b))"

lemma is_best_better:
  assumes "is_best score n b" "n < 2 ^ 32"
  shows "is_best score (Suc n) (better score n b)"
proof (cases "fst b < score n")
  case True
  have n: "unat (of_nat n :: u32) = n" using assms(2) by (simp add: unat_of_nat take_bit_nat_eq_self)
  have "is_nan (score c) \<or> score c < score n" if "c < n" for c
  proof (cases "is_nan (score c)")
    case False
    then have "score c \<le> fst b" using assms(1) that by (auto simp: is_best_def fl_not_less)
    then show ?thesis using True by (auto intro: fl_le_less_trans)
  qed simp
  moreover from this have "\<not> score n < score c" if "c < Suc n" for c
    using that fl_less_imp_le [of "score n" "score c"] by (auto simp: less_Suc_eq fl_less_iff)
  ultimately show ?thesis using True n fl_less_not_nan [OF True] by (simp add: is_best_def better_def)
next
  case False
  then show ?thesis using assms(1) by (auto simp: is_best_def better_def less_Suc_eq)
qed

lemma is_best_fold: "n \<le> 2 ^ 32 \<Longrightarrow> is_best score n (fold (better score) [0..<n] (NInf, 0))"
proof (induction n)
  case (Suc n)
  then show ?case using is_best_better [of score n] by simp
qed (simp add: is_best_def)

lemma best_classes_best:
  "n * na \<le> length rows \<Longrightarrow> a < na \<Longrightarrow> n \<le> 2 ^ 32 \<Longrightarrow> is_best (class_score rows na a) n (best_classes rows n na ! a)"
  using best_classes_column [of n na rows a] is_best_fold [of n "class_score rows na a"] by simp

text \<open>The scan over the rows of the classes gives every anchor its greatest score that is not NaN and
  the first class that has it, or minus infinity and class 0 when no score is above that.\<close>

lemma class_scan_argmax:
  assumes "length rows = n * na" "a < na" "n \<le> 2 ^ 32"
    and "best_classes rows n na ! a = (s, i)"
  shows "(\<forall>c<n. is_nan (rows ! (c * na + a)) \<or> rows ! (c * na + a) \<le> s)
    \<and> ((s, i) = (NInf, 0) \<or> unat i < n \<and> s = rows ! (unat i * na + a)
         \<and> (\<forall>c<unat i. is_nan (rows ! (c * na + a)) \<or> rows ! (c * na + a) < s))"
  using best_classes_best [of n na rows a] assms
  by (auto simp: is_best_def class_score_def fl_less_iff)

lemma class_scan_argmax_witness:
  "\<exists>s i. best_classes [Fin 1, Fin 0, Fin 0, Fin 1, Fin 1, Fin 1] 3 2 ! 1 = (s, i) \<and> Fin 1 \<le> s \<and> s \<noteq> NInf"
proof -
  obtain s i where b: "best_classes [Fin 1, Fin 0, Fin 0, Fin 1, Fin 1, Fin 1] 3 2 ! 1 = (s, i)" by fastforce
  have l: "length [Fin 1 :: f32, Fin 0, Fin 0, Fin 1, Fin 1, Fin 1] = 3 * 2" "(1::nat) < 2" "(3::nat) \<le> 2 ^ 32" by simp_all
  have "(1::nat) < 3" by simp
  with class_scan_argmax [OF l b] have "is_nan ([Fin 1 :: f32, Fin 0, Fin 0, Fin 1, Fin 1, Fin 1] ! (1 * 2 + 1))
      \<or> [Fin 1 :: f32, Fin 0, Fin 0, Fin 1, Fin 1, Fin 1] ! (1 * 2 + 1) \<le> s" by blast
  then have "Fin 1 \<le> s" by simp
  then show ?thesis using b by (cases s) auto
qed

section \<open>Detections\<close>

lemma clamp_score_range:
  assumes "\<not> is_nan s"
  shows "Fin 0 \<le> clamp_score s \<and> clamp_score s \<le> Fin 1"
  using assms by (cases s) (auto simp: clamp_score_def clamp_def)

lemma candidate_facts:
  assumes "length output = (4 + n) * na" "n \<le> 2 ^ 32" "c \<in> set (candidates output n na thr)"
  shows "Fin 0 \<le> ca_confidence c \<and> ca_confidence c \<le> Fin 1 \<and> \<not> ca_confidence c < thr \<and> unat (ca_class_id c) < max n 1
    \<and> \<not> ca_w c \<le> Fin 0 \<and> \<not> ca_h c \<le> Fin 0"
proof -
  define best where "best = best_classes (drop (4 * na) output) n na"
  obtain a where a: "a < na" "candidate_of thr output na best a = Some c"
    using assms(3) by (auto simp: candidates_def best_def List.map_filter_def Let_def)
  have "n * na \<le> length (drop (4 * na) output)" using assms(1) by (simp add: algebra_simps)
  from best_classes_best [OF this a(1) assms(2)]
  have "\<not> is_nan (fst (best ! a))" "best ! a = (NInf, 0) \<or> unat (snd (best ! a)) < n"
    by (auto simp: is_best_def best_def)
  then show ?thesis using a(2) clamp_score_range [of "fst (best ! a)"]
    by (auto simp: candidate_of_def Let_def split: if_splits)
qed

text \<open>C34: the detections of an output are its anchors over the threshold after greedy suppression: each
  has a confidence in [0, 1] that is not below the threshold, and a known class; they are sorted, no
  later one overlaps an earlier one by more than the IoU threshold, and every candidate that is
  dropped overlaps a kept one of no lower confidence.\<close>

theorem postprocess_correct:
  assumes "postprocess output nc na params thr iou seq now labels = Some ds" "cands = candidates output (unat nc) na thr"
  shows "\<exists>ks. ds = map (detection_of params labels seq now) ks \<and> set ks \<subseteq> set cands
    \<and> sorted_wrt (\<lambda>a b. ca_confidence b \<le> ca_confidence a \<and> \<not> iou < iou_640 a b) ks
    \<and> (\<forall>c\<in>set cands. c \<notin> set ks \<longrightarrow> (\<exists>k\<in>set ks. iou < iou_640 k c \<and> ca_confidence c \<le> ca_confidence k))
    \<and> (\<forall>k\<in>set ks. Fin 0 \<le> ca_confidence k \<and> ca_confidence k \<le> Fin 1 \<and> \<not> ca_confidence k < thr
          \<and> unat (ca_class_id k) < max (unat nc) 1)"
proof -
  let ?over = "\<lambda>a b. iou < iou_640 a b"
  have l: "length output = (4 + unat nc) * na" "unat nc \<le> 2 ^ 32"
    and ds: "ds = suppression ?over (detection_of params labels seq now) (sort_by_confidence ca_confidence cands)"
    using assms by (auto simp: postprocess_def split: if_splits)
  note c = candidate_facts [OF l, of _ thr, folded assms(2)]
  have "\<forall>d\<in>set cands. \<not> is_nan (ca_confidence d)" using c fl_le_not_nan by blast
  from kept_correct [OF this refl, of ?over] c show ?thesis
    unfolding ds suppression_greedy by (intro exI [of _ "greedy ?over (sort_by_confidence ca_confidence cands)"]) blast
qed

text \<open>Two anchors with one class; both pass a threshold of zero.\<close>

definition sample_output :: "f32 list" where
  "sample_output = [Fin 100, Fin 500, Fin 100, Fin 500, Fin 50, Fin 50, Fin 50, Fin 50, Fin 1, Fin (1 / 2)]"

theorem postprocess_correct_witness:
  "\<exists>ds ks. postprocess sample_output 1 2 (params_for_size 640 640) (Fin 0) (Fin (1 / 2)) 7 0 [''person''] = Some ds
    \<and> ds = map (detection_of (params_for_size 640 640) [''person''] 7 0) ks
    \<and> set ks \<subseteq> set (candidates sample_output 1 2 (Fin 0))"
proof -
  obtain ds where ds: "postprocess sample_output 1 2 (params_for_size 640 640) (Fin 0) (Fin (1 / 2)) 7 0 [''person''] = Some ds"
    by (simp add: postprocess_def sample_output_def)
  from postprocess_correct [OF ds refl] ds show ?thesis by auto
qed

section \<open>Boxes\<close>

lemma clamp_pixel_le:
  assumes "unat limit \<le> 16777216"
  shows "unat (clamp_pixel v limit) \<le> unat limit"
proof -
  have e: "u32_as_f32 limit = Fin (of_nat (unat limit))" by (rule u32_as_f32_exact [OF assms])
  have q: "unat (as_u32 (Fin r :: f32)) \<le> unat limit" if "0 \<le> r" "r \<le> of_nat (unat limit)" for r :: rat
  proof -
    have f: "truncq r = \<lfloor>r\<rfloor>" "0 \<le> \<lfloor>r\<rfloor>" using that(1) by (simp_all add: truncq_def)
    have r: "\<lfloor>r\<rfloor> \<le> int (unat limit)" using that(2) by (metis floor_mono floor_of_nat)
    have "int (unat limit) \<le> int 16777216" using assms by (simp only: of_nat_le_iff)
    then have b: "\<lfloor>r\<rfloor> \<le> 16777216" using r by (simp only: of_nat_numeral)
    then have "max 0 (min (2 ^ 32 - 1) \<lfloor>r\<rfloor>) = \<lfloor>r\<rfloor>" using f(2) by (simp only: max_def min_def) auto
    then have "as_u32 (Fin r :: f32) = word_of_int \<lfloor>r\<rfloor>" by (simp only: as_u32_def fl.case f(1))
    moreover have "uint (word_of_int \<lfloor>r\<rfloor> :: u32) = \<lfloor>r\<rfloor>"
      unfolding uint_word_of_int_eq by (rule take_bit_int_eq_self) (use b f(2) in simp_all)
    ultimately show ?thesis using r by (simp only: unat_eq_nat_uint)
  qed
  have "unat (as_u32 x) \<le> unat limit" if "clamp y (Fin 0) (Fin (of_nat (unat limit))) = Some x" for x y :: f32
    using that q by (cases y) (auto simp: clamp_def as_u32_def split: if_splits)
  then show ?thesis unfolding clamp_pixel_def e by (auto split: option.splits)
qed

lemma extent_bounds:
  "0 < unat (extent x y)" "unat y \<le> n \<Longrightarrow> unat x + unat (extent x y) \<le> max n (Suc (unat x))"
proof -
  have e: "extent x y = (if x < y then y - x else 1)"
  proof (cases "x < y")
    case True
    then have "1 \<le> y - x" by (simp add: word_le_nat_alt word_less_nat_alt unat_sub)
    then show ?thesis using True by (auto simp: extent_def max_def)
  qed (auto simp: extent_def max_def not_less)
  show "0 < unat (extent x y)" "unat y \<le> n \<Longrightarrow> unat x + unat (extent x y) \<le> max n (Suc (unat x))"
    by (auto simp: e word_less_nat_alt unat_sub word_le_nat_alt)
qed

text \<open>C37: on frames of at most 2 ^ 24 pixels a side, every detection starts within the frame and is at
  least a pixel wide and high; it ends within the frame, or one pixel outside when it starts at the
  edge.\<close>

theorem boxes_in_frame:
  assumes "postprocess output nc na params thr iou seq now labels = Some ds" "d \<in> set ds"
    and "unat (lp_orig_w params) \<le> 16777216" "unat (lp_orig_h params) \<le> 16777216"
  shows "unat (b_x (d_bbox d)) \<le> unat (lp_orig_w params) \<and> unat (b_y (d_bbox d)) \<le> unat (lp_orig_h params)
    \<and> 0 < unat (b_width (d_bbox d)) \<and> 0 < unat (b_height (d_bbox d))
    \<and> unat (b_x (d_bbox d)) + unat (b_width (d_bbox d)) \<le> max (unat (lp_orig_w params)) (unat (b_x (d_bbox d)) + 1)
    \<and> unat (b_y (d_bbox d)) + unat (b_height (d_bbox d)) \<le> max (unat (lp_orig_h params)) (unat (b_y (d_bbox d)) + 1)"
proof -
  obtain c where c: "d_bbox d = box_of params c"
    using assms(1,2) by (auto simp: postprocess_def suppression_greedy detection_of_def split: if_splits)
  show ?thesis
    unfolding c box_of_def
    using clamp_pixel_le [OF assms(3)] clamp_pixel_le [OF assms(4)]
    by (simp add: Let_def extent_bounds split: prod.splits)
qed

theorem boxes_in_frame_witness:
  "\<exists>d. postprocess [Fin 100, Fin 100, Fin 50, Fin 50, Fin 1] 1 1 (params_for_size 640 640) (Fin 0) (Fin (1 / 2)) 7 0 [''person''] = Some [d]
    \<and> unat (b_x (d_bbox d)) \<le> 640"
proof -
  have "\<exists>d. postprocess [Fin 100, Fin 100, Fin 50, Fin 50, Fin 1] 1 1 (params_for_size 640 640) (Fin 0) (Fin (1 / 2)) 7 0 [''person''] = Some [d]"
    by (simp add: postprocess_def suppression_greedy sort_by_confidence_def candidates_def List.map_filter_def
        candidate_of_def best_classes_def scan_row_def clamp_score_def clamp_def Let_def)
  then obtain d where d: "postprocess [Fin 100, Fin 100, Fin 50, Fin 50, Fin 1] 1 1 (params_for_size 640 640) (Fin 0) (Fin (1 / 2)) 7 0 [''person''] = Some [d]" ..
  have p: "lp_orig_w (params_for_size 640 640) = 640" "lp_orig_h (params_for_size 640 640) = 640"
    by (simp_all add: params_for_size_def split: prod.splits)
  from boxes_in_frame [OF d, of d] p d show ?thesis by auto
qed

text \<open>A box that starts beyond the right edge is moved to the column next to the frame, and a width
  that is not a number passes the filter of degenerate boxes.\<close>

lemma edge_box_outside:
  assumes "unat limit \<le> 16777216" "Fin (of_nat (unat limit)) < f32_round v" "Fin (of_nat (unat limit)) < f32_round v'"
    and "x = clamp_pixel v limit" "x1 = clamp_pixel v' limit"
  shows "x = limit \<and> extent x x1 = 1"
proof -
  have e: "u32_as_f32 limit = Fin (of_nat (unat limit))" by (rule u32_as_f32_exact [OF assms(1)])
  have c: "clamp y (Fin 0) (Fin (of_nat n)) = Some (Fin (of_nat n))" if "Fin (of_nat n) < y" for y :: f32 and n
    using that by (cases y) (auto simp: clamp_def)
  have "truncq (of_nat n) = int n" for n by (simp add: truncq_def)
  moreover have "max 0 (min (2 ^ 32 - 1) (int (unat limit))) = int (unat limit)"
  proof -
    have "int (unat limit) \<le> int 16777216" using assms(1) by (simp only: of_nat_le_iff)
    then show ?thesis by (simp only: max_def min_def of_nat_numeral) auto
  qed
  ultimately have "as_u32 (Fin (of_nat (unat limit)) :: f32) = limit"
    by (simp only: as_u32_def fl.case) simp
  then show ?thesis using c [OF assms(2)] c [OF assms(3)]
    by (simp only: assms(4,5) clamp_pixel_def e extent_def option.case) (simp add: max_def)
qed

lemma nan_width_passes:
  "candidate_of (Fin 0) [Fin 1, Fin 1, NaN, Fin 1] 1 [(Fin 1, 0)] 0 \<noteq> None"
  by (simp add: candidate_of_def clamp_score_def clamp_def Let_def)

end
