(* ===== verification/Backend.thy ===== *)
theory Backend
  imports Common_Types
begin

text \<open>
  \<open>crates/cv-inference/src/backend.rs\<close>: the errors of inference, the trait of the back ends as a
  record of operations on their state, the mock back end and the two stubs.  A detection gets its
  time stamp from the clock, which a back end reads as often as it needs: operations that do take
  the readings as a function.
\<close>

section \<open>Errors and configuration\<close>

datatype inference_error =
    BridgeConnection string
  | BridgeProtocol string
  | Inference string
  | ModelNotLoaded
  | Unavailable string

type_synonym 'a inference_result = "(inference_error, 'a) result"

text \<open>\<open>InferenceConfig\<close> of \<open>crates/common/src/config.rs\<close>\<close>

record inference_config =
  ic_model_path :: string
  ic_confidence_threshold :: f32
  ic_nms_threshold :: f32
  ic_track_classes :: "string list"
  ic_bridge_socket :: string
  ic_allow_cpu_fallback :: bool

definition inference_config_default :: inference_config where
  "inference_config_default = \<lparr>
     ic_model_path = ''/opt/auto-targeting/models/yolov8n_int8.rknn'',
     ic_confidence_threshold = lit (45 / 100),
     ic_nms_threshold = lit (45 / 100),
     ic_track_classes = [''person''],
     ic_bridge_socket = ''/tmp/rknn-bridge.sock'',
     ic_allow_cpu_fallback = False \<rparr>"

section \<open>The trait\<close>

record 'b backend_ops =
  be_init :: "'b \<Rightarrow> unit inference_result \<times> 'b"
  be_infer :: "frame \<Rightarrow> 'b \<Rightarrow> detection list inference_result \<times> 'b"
  be_health_check :: "'b \<Rightarrow> unit inference_result"
  be_name :: string

section \<open>The mock and the stubs\<close>

text \<open>The state of the mock is its list of canned detections.\<close>

type_synonym mock_backend = "detection list"

definition mock_empty :: mock_backend where
  "mock_empty = []"

definition mock_ops :: "mock_backend backend_ops" where
  "mock_ops = \<lparr>
     be_init = (\<lambda>m. (Inr (), m)),
     be_infer = (\<lambda>_ m. (Inr m, m)),
     be_health_check = (\<lambda>_. Inr ()),
     be_name = ''MockInferenceBackend'' \<rparr>"

text \<open>A stub holds its paths and refuses everything.\<close>

definition stub_refusal :: "string \<Rightarrow> 'a inference_result" where
  "stub_refusal name = Inl (Unavailable (name @ '' not implemented yet (Phase 2)''))"

definition bridge_stub_ops :: "(string \<times> string) backend_ops" where
  "bridge_stub_ops = \<lparr>
     be_init = (\<lambda>b. (stub_refusal ''RknnBridgeClient'', b)),
     be_infer = (\<lambda>_ b. (stub_refusal ''RknnBridgeClient'', b)),
     be_health_check = (\<lambda>_. stub_refusal ''RknnBridgeClient''),
     be_name = ''RknnBridgeClient'' \<rparr>"

definition cpu_stub_ops :: "string backend_ops" where
  "cpu_stub_ops = \<lparr>
     be_init = (\<lambda>b. (stub_refusal ''CpuInferenceBackend'', b)),
     be_infer = (\<lambda>_ b. (stub_refusal ''CpuInferenceBackend'', b)),
     be_health_check = (\<lambda>_. stub_refusal ''CpuInferenceBackend''),
     be_name = ''CpuInferenceBackend'' \<rparr>"

section \<open>The contract of the clients\<close>

text \<open>
  What the detector relies on: a successful initialisation makes the back end ready, inference keeps
  it so, and a back end that is not ready refuses every frame and does not change.
\<close>

locale inference_backend =
  fixes ops :: "'b backend_ops" and ready :: "'b \<Rightarrow> bool"
  assumes init_ready: "be_init ops b = (Inr (), b') \<Longrightarrow> ready b'"
    and infer_ready: "be_infer ops f b = (r, b') \<Longrightarrow> ready b' = ready b"
    and not_ready: "\<not> ready b \<Longrightarrow> \<exists>e. be_infer ops f b = (Inl e, b)"
begin

text \<open>A run over frames keeps the back end ready, and one that is not ready changes nothing.\<close>

fun infer_all :: "frame list \<Rightarrow> 'b \<Rightarrow> detection list inference_result list \<times> 'b" where
  "infer_all [] b = ([], b)"
| "infer_all (f # fs) b =
    (let (r, b') = be_infer ops f b; (rs, b'') = infer_all fs b' in (r # rs, b''))"

lemma infer_all_ready: "infer_all fs b = (rs, b') \<Longrightarrow> ready b' = ready b"
  by (induction fs arbitrary: b rs) (auto simp: Let_def split: prod.splits dest: infer_ready)

lemma infer_all_not_ready:
  assumes "\<not> ready b"
  shows "snd (infer_all fs b) = b \<and> (\<forall>r \<in> set (fst (infer_all fs b)). \<not> is_ok r)"
proof (induction fs)
  case (Cons f fs)
  obtain e where "be_infer ops f b = (Inl e, b)" using not_ready [OF assms] by blast
  with Cons show ?case by (auto simp: Let_def split: prod.splits)
qed simp

end

text \<open>The mock is always ready; a stub never is.\<close>

interpretation mock: inference_backend mock_ops "\<lambda>_. True"
  by unfold_locales (simp_all add: mock_ops_def)

interpretation cpu_stub: inference_backend cpu_stub_ops "\<lambda>_. False"
  by unfold_locales (simp_all add: cpu_stub_ops_def stub_refusal_def)

end
