(* ===== verification/Base64.thy ===== *)
theory Base64
  imports Convert Text
begin

text \<open>
  The encoding of frames on the bridge's socket: the hand-written encoder of
  \<open>crates/cv-inference/src/bridge_client.rs\<close> (\<open>base64_encode\<close>) and the decoder of
  \<open>rknn-bridge/src/bridge_main.cpp\<close> (\<open>b64_char_value\<close>, \<open>base64_decode\<close>) that reads it.  The
  encoder computes in \<open>u32\<close>; the decoder in C++ \<open>int\<close>, 32 bits wide, whose left shift is taken
  to drop the bits that leave the word (the last twelve bits are the only ones it reads).
\<close>

unbundle bit_operations_syntax

section \<open>The encoder\<close>

definition base64_chars :: string where
  "base64_chars = ''ABCDEFGHIJKLMNOPQRSTUVWXYZabcdefghijklmnopqrstuvwxyz0123456789+/''"

text \<open>\<open>CHARS[(t & 0x3F) as usize]\<close>\<close>

definition sextet :: "u32 \<Rightarrow> u32" where
  "sextet t = t AND 63"

definition b64_char :: "u32 \<Rightarrow> char" where
  "b64_char t = base64_chars ! unat (sextet t)"

definition triple :: "u8 \<Rightarrow> u8 \<Rightarrow> u8 \<Rightarrow> u32" where
  "triple b0 b1 b2 = push_bit 16 (ucast b0) OR push_bit 8 (ucast b1) OR ucast b2"

definition base64_quad :: "u8 list \<Rightarrow> string" where
  "base64_quad chunk =
    (let t = triple (chunk ! 0) (chunk ! 1) (chunk ! 2)
     in [b64_char (drop_bit 18 t), b64_char (drop_bit 12 t), b64_char (drop_bit 6 t), b64_char t])"

fun base64_tail :: "u8 list \<Rightarrow> string" where
  "base64_tail [b0] =
    (let t = push_bit 16 (ucast b0 :: u32)
     in [b64_char (drop_bit 18 t), b64_char (drop_bit 12 t), CHR ''='', CHR ''=''])"
| "base64_tail [b0, b1] =
    (let t = push_bit 16 (ucast b0 :: u32) OR push_bit 8 (ucast b1)
     in [b64_char (drop_bit 18 t), b64_char (drop_bit 12 t), b64_char (drop_bit 6 t), CHR ''=''])"
| "base64_tail _ = []"

definition base64_encode :: "u8 list \<Rightarrow> string" where
  "base64_encode data = concat (map base64_quad (chunks_exact 3 data)) @ base64_tail (remainder 3 data)"

section \<open>The decoder\<close>

definition b64_char_value :: "char \<Rightarrow> int" where
  "b64_char_value c =
    (let n = of_char c :: int
     in if 65 \<le> n \<and> n \<le> 90 then n - 65
        else if 97 \<le> n \<and> n \<le> 122 then n - 97 + 26
        else if 48 \<le> n \<and> n \<le> 57 then n - 48 + 52
        else if c = CHR ''+'' then 62
        else if c = CHR ''/'' then 63
        else - 1)"

text \<open>\<open>(val << 6) | d\<close>, \<open>static_cast<uint8_t>((val >> valb) & 0xFF)\<close>, and one character: the output so far, \<open>val\<close>
  and \<open>valb\<close>.\<close>

definition shift_in :: "u32 \<Rightarrow> u32 \<Rightarrow> u32" where
  "shift_in val d = push_bit 6 val OR d"

definition out_byte :: "nat \<Rightarrow> u32 \<Rightarrow> u8" where
  "out_byte valb val = ucast (signed_drop_bit valb val AND 255)"

fun decode_char :: "char \<Rightarrow> u8 list \<times> u32 \<times> int \<Rightarrow> u8 list \<times> u32 \<times> int" where
  "decode_char c (out, val, valb) =
    (if c = CHR ''='' \<or> c = CHR 0x0A \<or> c = CHR 0x0D \<or> c = CHR '' '' then (out, val, valb)
     else let d = b64_char_value c
          in if d < 0 then (out, val, valb)
             else let val' = shift_in val (word_of_int d); valb' = valb + 6
                  in if 0 \<le> valb'
                     then (out @ [out_byte (nat valb') val'], val', valb' - 8)
                     else (out, val', valb'))"

definition base64_decode :: "string \<Rightarrow> u8 list" where
  "base64_decode s = fst (fold decode_char s ([], 0, - 8))"

section \<open>Characters and sextets\<close>

lemma base64_alphabet: "map b64_char_value base64_chars = map int [0..<64]"
  by code_simp

lemma base64_chars_length [simp]: "length base64_chars = 64"
  by (simp add: base64_chars_def)

lemma sextet_bound: "unat (sextet t) < 64"
proof -
  have "sextet t \<le> 63" unfolding sextet_def by (rule word_and_le1)
  then show ?thesis by (simp add: word_le_nat_alt)
qed

lemma b64_char_in [simp]: "b64_char t \<in> set base64_chars"
  using sextet_bound [of t] by (simp add: b64_char_def)

lemma not_padding: "c \<in> set base64_chars \<Longrightarrow> c \<noteq> CHR ''='' \<and> c \<noteq> CHR 0x0A \<and> c \<noteq> CHR 0x0D \<and> c \<noteq> CHR '' ''"
  by (auto simp: base64_chars_def)

lemma b64_char_value_char: "b64_char_value (b64_char t) = int (unat (sextet t))"
proof -
  have "b64_char_value (base64_chars ! k) = int k" if "k < 64" for k
    using arg_cong [where f = "\<lambda>l. l ! k", OF base64_alphabet] that by simp
  then show ?thesis using sextet_bound [of t] by (simp add: b64_char_def)
qed

lemma decode_b64_char:
  "decode_char (b64_char t) (out, val, valb) =
    (let val' = shift_in val (sextet t); valb' = valb + 6
     in if 0 \<le> valb' then (out @ [out_byte (nat valb') val'], val', valb' - 8)
        else (out, val', valb'))"
  using not_padding [OF b64_char_in [of t]] by (simp add: b64_char_value_char Let_def)

section \<open>Bytes from sextets\<close>

lemma bit_sextet [bit_simps]: "bit (sextet t) n \<longleftrightarrow> n < 6 \<and> bit t n"
proof -
  have "sextet t = t AND mask 6" by (simp add: sextet_def mask_eq_exp_minus_1)
  then show ?thesis by (auto simp: bit_simps)
qed

lemma bit_out_byte [bit_simps]: "m \<le> 8 \<Longrightarrow> bit (out_byte m w) n \<longleftrightarrow> n < 8 \<and> bit w (m + n)"
proof -
  have "out_byte m w = ucast (signed_drop_bit m w AND mask 8)"
    by (simp add: out_byte_def mask_eq_exp_minus_1)
  then show "m \<le> 8 \<Longrightarrow> ?thesis" by (auto simp: bit_simps)
qed

lemma byte_bitD: "bit (b :: u8) n \<Longrightarrow> n < 8"
  using bit_imp_le_length [of b n] by simp

text \<open>The three bytes of a quad, whatever value the decoder held before.\<close>

lemma decoded_byte_0:
  "out_byte 4 (shift_in (shift_in v (sextet (drop_bit 18 t))) (sextet (drop_bit 12 t)))
     = ucast (drop_bit 16 t)"
  by (rule bit_word_eqI) (auto simp: shift_in_def bit_simps)

lemma decoded_byte_1:
  "out_byte 2 (shift_in (shift_in v (sextet (drop_bit 12 t))) (sextet (drop_bit 6 t)))
     = ucast (drop_bit 8 t)"
  by (rule bit_word_eqI) (auto simp: shift_in_def bit_simps)

lemma decoded_byte_2:
  "out_byte 0 (shift_in (shift_in v (sextet (drop_bit 6 t))) (sextet t)) = ucast t"
  by (rule bit_word_eqI) (auto simp: shift_in_def bit_simps)

lemma triple_bytes:
  "ucast (drop_bit 16 (triple b0 b1 b2)) = b0"
  "ucast (drop_bit 8 (triple b0 b1 b2)) = b1"
  "ucast (triple b0 b1 b2) = b2"
proof -
  show "ucast (drop_bit 16 (triple b0 b1 b2)) = b0"
    by (rule bit_word_eqI) (auto simp: triple_def bit_simps dest: byte_bitD)
  show "ucast (drop_bit 8 (triple b0 b1 b2)) = b1"
    by (rule bit_word_eqI) (auto simp: triple_def bit_simps dest: byte_bitD)
  show "ucast (triple b0 b1 b2) = b2"
    by (rule bit_word_eqI) (auto simp: triple_def bit_simps dest: byte_bitD)
qed

section \<open>Round trip\<close>

lemma decode_two:
  "fold decode_char [b64_char (drop_bit 18 t), b64_char (drop_bit 12 t)] (out, v, - 8)
     = (out @ [ucast (drop_bit 16 t)],
        shift_in (shift_in v (sextet (drop_bit 18 t))) (sextet (drop_bit 12 t)), - 4)"
  by (simp add: decode_b64_char Let_def decoded_byte_0 del: decode_char.simps)

lemma decode_three:
  "fold decode_char [b64_char (drop_bit 18 t), b64_char (drop_bit 12 t), b64_char (drop_bit 6 t)] (out, v, - 8)
     = (out @ [ucast (drop_bit 16 t), ucast (drop_bit 8 t)],
        shift_in (shift_in (shift_in v (sextet (drop_bit 18 t))) (sextet (drop_bit 12 t)))
          (sextet (drop_bit 6 t)), - 6)"
  by (simp add: decode_b64_char Let_def decoded_byte_0 decoded_byte_1 del: decode_char.simps)

lemma decode_quad:
  "length c = 3 \<Longrightarrow> \<exists>v'. fold decode_char (base64_quad c) (out, v, - 8) = (out @ c, v', - 8)"
proof -
  assume "length c = 3"
  then obtain b0 b1 b2 where c: "c = [b0, b1, b2]" by (auto simp: length_Suc_conv numeral_3_eq_3)
  show ?thesis
    by (simp add: c base64_quad_def Let_def decode_b64_char decoded_byte_0 decoded_byte_1 decoded_byte_2
        triple_bytes del: decode_char.simps)
qed

lemma decode_quads:
  "\<forall>c \<in> set cs. length c = 3 \<Longrightarrow>
     \<exists>v'. fold decode_char (concat (map base64_quad cs)) (out, v, - 8) = (out @ concat cs, v', - 8)"
proof (induction cs arbitrary: out v)
  case (Cons c cs)
  then obtain v1 where "fold decode_char (base64_quad c) (out, v, - 8) = (out @ c, v1, - 8)"
    using decode_quad [of c out v] by auto
  moreover have "\<exists>v'. fold decode_char (concat (map base64_quad cs)) (out @ c, v1, - 8) = ((out @ c) @ concat cs, v', - 8)"
    using Cons.IH [of "out @ c" v1] Cons.prems by simp
  ultimately show ?case by simp
qed simp

lemma decode_pad [simp]: "decode_char CHR ''='' s = s"
  by (cases s) simp

lemma decode_tail: "length r < 3 \<Longrightarrow> fst (fold decode_char (base64_tail r) (out, v, - 8)) = out @ r"
proof -
  assume "length r < 3"
  then consider "r = []" | b0 where "r = [b0]" | b0 b1 where "r = [b0, b1]"
    by (cases r rule: base64_tail.cases) auto
  then show ?thesis
  proof cases
    case (2 b0)
    have "push_bit 16 (ucast b0 :: u32) = triple b0 0 0" by (simp add: triple_def)
    with 2 decode_two [of "triple b0 0 0" out v] show ?thesis by (simp add: Let_def triple_bytes del: decode_char.simps)
  next
    case (3 b0 b1)
    have "push_bit 16 (ucast b0 :: u32) OR push_bit 8 (ucast b1) = triple b0 b1 0" by (simp add: triple_def)
    with 3 decode_three [of "triple b0 b1 0" out v] show ?thesis by (simp add: Let_def triple_bytes del: decode_char.simps)
  qed simp
qed

lemma chunks_remainder: "0 < n \<Longrightarrow> concat (chunks_exact n xs) @ remainder n xs = xs"
proof (induction n xs rule: chunks_exact.induct)
  case (1 n xs)
  show ?case
  proof (cases "length xs < n")
    case True
    then show ?thesis by (simp add: remainder_def)
  next
    case False
    have "remainder n xs = remainder n (drop n xs)"
      using False "1.prems" by (simp add: remainder_def le_div_geq add.commute)
    then show ?thesis using 1 False by (simp add: chunks_exact_step)
  qed
qed

lemma decode_encode: "base64_decode (base64_encode data) = data"
proof -
  have "\<forall>c \<in> set (chunks_exact 3 data). length c = 3" by (auto dest: chunk_length [rotated])
  then obtain v where v: "fold decode_char (concat (map base64_quad (chunks_exact 3 data))) ([], 0, - 8)
      = (concat (chunks_exact 3 data), v, - 8)"
    using decode_quads [of "chunks_exact 3 data" "[]" 0] by (simp only: append_Nil) blast
  have "length (remainder 3 data) < 3" by (simp add: remainder_length)
  then show ?thesis
    unfolding base64_decode_def base64_encode_def fold_append comp_apply v
    by (rule trans [OF decode_tail chunks_remainder]) simp
qed

section \<open>Size and alphabet\<close>

lemma base64_quad_length: "length (base64_quad c) = 4"
  by (simp add: base64_quad_def Let_def)

lemma base64_tail_length: "length r < 3 \<Longrightarrow> length (base64_tail r) = (if r = [] then 0 else 4)"
  by (cases r rule: base64_tail.cases) (auto simp: Let_def)

lemma base64_length: "length (base64_encode data) = 4 * ((length data + 2) div 3)"
proof -
  have l: "length (concat (map base64_quad cs)) = 4 * length cs" for cs
    by (induction cs) (simp_all add: base64_quad_length)
  have r: "length (remainder 3 data) = length data mod 3" by (simp add: remainder_length)
  have t: "length (base64_tail (remainder 3 data)) = (if length data mod 3 = 0 then 0 else 4)"
    using base64_tail_length [of "remainder 3 data"] r
    by (auto simp del: length_greater_0_conv length_0_conv simp flip: length_0_conv)
  have d: "4 * (n div 3) + (if n mod 3 = 0 then 0 else 4) = 4 * ((n + 2) div 3)" for n :: nat
  proof -
    have "n mod 3 = 0 \<or> n mod 3 = 1 \<or> n mod 3 = 2" by linarith
    moreover have "(n + 2) div 3 = n div 3 + (n mod 3 + 2) div 3"
      using div_add1_eq [of n 2 3] by simp
    ultimately show ?thesis by (elim disjE) (simp_all only:, simp_all)
  qed
  show ?thesis
    by (simp only: base64_encode_def length_append l t length_chunks_exact zero_less_numeral d)
qed

lemma base64_quad_set: "set (base64_quad c) \<subseteq> set base64_chars"
  by (simp add: base64_quad_def Let_def)

lemma base64_tail_set: "set (base64_tail r) \<subseteq> insert CHR ''='' (set base64_chars)"
  by (cases r rule: base64_tail.cases) (auto simp: Let_def)

lemma base64_set: "set (base64_encode data) \<subseteq> insert CHR ''='' (set base64_chars)"
  using base64_tail_set base64_quad_set by (fastforce simp: base64_encode_def)

text \<open>C15: The bridge's decoder (C++) reads back exactly the bytes the client's encoder (Rust) was
  given, whatever they are and however many; the encoded text has the length of the standard and
  consists of the sixty-four characters of the alphabet and the padding sign.\<close>

theorem base64_round_trip:
  "base64_decode (base64_encode data) = data
    \<and> length (base64_encode data) = 4 * ((length data + 2) div 3)
    \<and> set (base64_encode data) \<subseteq> insert CHR ''='' (set base64_chars)"
  by (intro conjI decode_encode base64_length base64_set)

section \<open>The field of the JSON envelope\<close>

definition frame_data_key :: string where
  "frame_data_key = [CHR 0x22] @ ''frame_data_b64'' @ [CHR 0x22, CHR 0x3A, CHR 0x22]"

definition extract_frame_data_b64 :: "string \<Rightarrow> string" where
  "extract_frame_data_b64 json =
    (case find_sub frame_data_key json of
       None \<Rightarrow> []
     | Some start \<Rightarrow>
         let s = drop (start + length frame_data_key) json
         in case find_sub [CHR 0x22] s of None \<Rightarrow> [] | Some end \<Rightarrow> take end s)"

lemma no_quote: "CHR 0x22 \<notin> set (base64_encode data)"
  using base64_set [of data] by (auto simp: base64_chars_def)

text \<open>The bridge takes the encoded frame out of any message in which the field's key does not
  occur before the field.\<close>

lemma extract_encoded:
  assumes "find_sub frame_data_key (before @ frame_data_key @ base64_encode data @ CHR 0x22 # after)
             = Some (length before)"
  shows "extract_frame_data_b64 (before @ frame_data_key @ base64_encode data @ CHR 0x22 # after)
           = base64_encode data"
  by (simp add: extract_frame_data_b64_def assms find_sub_char [OF no_quote])

end
