(* ===== verification/Bridge_Client.thy ===== *)
theory Bridge_Client
  imports Backend Base64
begin

text \<open>
  \<open>crates/cv-inference/src/bridge_client.rs\<close>: the client of the C++ process that owns the NPU.
  Messages are JSON texts behind a length of four bytes on a Unix socket; a frame travels as base64
  inside the message or through a named shared-memory segment that the client creates.  The socket
  is the record \<open>stream_ops\<close>, of operations of the operating system; \<open>serde_json\<close> is third-party
  code, the record \<open>bridge_codec\<close>.  Sizes are natural numbers.
\<close>

section \<open>Configuration\<close>

record bridge_client_config =
  rc_socket_path :: string
  rc_model_path :: string
  rc_input_width :: u32
  rc_input_height :: u32
  rc_input_format :: string
  rc_confidence_threshold :: f32
  rc_nms_threshold :: f32
  rc_connect_timeout_ms :: nat
  rc_response_timeout_ms :: nat
  rc_frame_shm :: "string option"
  rc_frame_shm_buffers :: u32

definition bridge_client_config_default :: bridge_client_config where
  "bridge_client_config_default = \<lparr>
     rc_socket_path = ''/tmp/rknn-bridge.sock'',
     rc_model_path = ''/opt/auto-targeting/models/yolov8n_int8.rknn'',
     rc_input_width = 1280,
     rc_input_height = 720,
     rc_input_format = ''nv12'',
     rc_confidence_threshold = lit (45 / 100),
     rc_nms_threshold = lit (45 / 100),
     rc_connect_timeout_ms = 5000,
     rc_response_timeout_ms = 1000,
     rc_frame_shm = None,
     rc_frame_shm_buffers = 2 \<rparr>"

definition client_config_from_common :: "inference_config \<Rightarrow> bridge_client_config" where
  "client_config_from_common cfg = bridge_client_config_default \<lparr>
     rc_socket_path := ic_bridge_socket cfg,
     rc_model_path := ic_model_path cfg,
     rc_input_width := 1280,
     rc_input_height := 720,
     rc_input_format := ''nv12'',
     rc_confidence_threshold := ic_confidence_threshold cfg,
     rc_nms_threshold := ic_nms_threshold cfg \<rparr>"

section \<open>Messages\<close>

record init_request =
  iq_model_path :: string
  iq_input_width :: u32
  iq_input_height :: u32
  iq_input_format :: string
  iq_confidence_threshold :: f32
  iq_nms_threshold :: f32
  iq_frame_shm :: "string option"
  iq_frame_shm_buffers :: "u32 option"
  iq_frame_shm_size :: "u64 option"

record init_response =
  ia_ok :: bool
  ia_error :: string
  ia_output_classes :: u32
  ia_backend :: string

record infer_request =
  fq_frame_seq :: u64
  fq_frame_data_b64 :: "string option"
  fq_frame_shm_buf :: "u32 option"
  fq_frame_width :: u32
  fq_frame_height :: u32
  fq_frame_format :: string
  fq_captured_at_ms :: u64

record detection_json =
  dj_bbox :: bounding_box
  dj_class :: string
  dj_class_id :: u32
  dj_confidence :: f32

record infer_response =
  fa_ok :: bool
  fa_error :: string
  fa_frame_seq :: u64
  fa_latency_ms :: u32
  fa_detections :: "detection_json list"

record health_response =
  ha_ok :: bool
  ha_model_loaded :: bool
  ha_npu_utilization :: f32
  ha_backend :: string

text \<open>\<open>From<DetectionJson> for Detection\<close>; the clock reading is an argument.\<close>

definition detection_of_json :: "utc \<Rightarrow> detection_json \<Rightarrow> detection" where
  "detection_of_json now d = \<lparr>
     d_bbox = dj_bbox d, d_class = dj_class d, d_class_id = dj_class_id d,
     d_confidence = dj_confidence d, d_frame_seq = 0, d_detected_at = now \<rparr>"

text \<open>\<open>serde_json::to_string\<close> and \<open>from_str\<close> (\<open>from_slice\<close> for the health answer).\<close>

record bridge_codec =
  enc_init :: "init_request \<Rightarrow> (string, string) result"
  enc_infer :: "infer_request \<Rightarrow> (string, string) result"
  enc_health :: "(string, string) result"
  enc_shutdown :: "(string, string) result"
  dec_init :: "string \<Rightarrow> (string, init_response) result"
  dec_infer :: "string \<Rightarrow> (string, infer_response) result"
  dec_health :: "u8 list \<Rightarrow> (string, health_response) result"

section \<open>The shared-memory segment\<close>

record frame_shm =
  fs_path :: string
  fs_data :: "u8 list"
  fs_frame_size :: nat
  fs_buffers :: u32

text \<open>
  \<open>FrameShm::create\<close>: the outcomes of \<open>open\<close>, \<open>ftruncate\<close> and \<open>mmap\<close> are inputs; \<open>ftruncate\<close>
  fills with zeros and \<open>mmap\<close> refuses an empty mapping.
\<close>

record shm_outcome =
  so_open :: "(string, unit) result"
  so_set_len :: "(string, unit) result"
  so_mmap :: bool

definition frame_shm_create :: "shm_outcome \<Rightarrow> string \<Rightarrow> nat \<Rightarrow> u32 \<Rightarrow> (string, frame_shm) result" where
  "frame_shm_create os path frame_size buffers =
    (let len = frame_size * unat buffers
     in case so_open os of
          Inl e \<Rightarrow> Inl (''create '' @ path @ '': '' @ e)
        | Inr _ \<Rightarrow>
            (case so_set_len os of
               Inl e \<Rightarrow> Inl (''ftruncate '' @ path @ '': '' @ e)
             | Inr _ \<Rightarrow>
                 if \<not> so_mmap os \<or> len = 0 then Inl (''mmap '' @ path)
                 else Inr \<lparr>fs_path = path, fs_data = replicate len 0,
                           fs_frame_size = frame_size, fs_buffers = buffers\<rparr>))"

definition write_frame :: "u32 \<Rightarrow> u8 list \<Rightarrow> frame_shm \<Rightarrow> (string, unit) result \<times> frame_shm" where
  "write_frame index data shm =
    (if fs_buffers shm \<le> index
     then (Inl (''buf index '' @ dec (unat index) @ '' >= '' @ dec (unat (fs_buffers shm))), shm)
     else if fs_frame_size shm < length data
     then (Inl (''frame '' @ dec (length data) @ '' > buffer '' @ dec (fs_frame_size shm)), shm)
     else let off = unat index * fs_frame_size shm
          in (Inr (), shm \<lparr>fs_data := take off (fs_data shm) @ data
                             @ drop (off + length data) (fs_data shm)\<rparr>))"

section \<open>The client\<close>

record 's rknn_client =
  rk_config :: bridge_client_config
  rk_stream :: "'s option"
  rk_initialized :: bool
  rk_backend_name :: string
  rk_output_classes :: u32
  rk_last_health_check :: "instant option"
  rk_frame_shm :: "frame_shm option"
  rk_shm_buf_cursor :: u32

definition client_new :: "bridge_client_config \<Rightarrow> 's rknn_client" where
  "client_new config = \<lparr>
     rk_config = config, rk_stream = None, rk_initialized = False, rk_backend_name = [],
     rk_output_classes = 0, rk_last_health_check = None, rk_frame_shm = None, rk_shm_buf_cursor = 0 \<rparr>"

definition client_from_common :: "inference_config \<Rightarrow> 's rknn_client" where
  "client_from_common cfg = client_new (client_config_from_common cfg)"

record 's stream_ops =
  st_set_read_timeout :: "nat \<Rightarrow> 's \<Rightarrow> (string, unit) result \<times> 's"
  st_set_write_timeout :: "nat \<Rightarrow> 's \<Rightarrow> (string, unit) result \<times> 's"
  st_write_all :: "u8 list \<Rightarrow> 's \<Rightarrow> (string, unit) result \<times> 's"
  st_read_exact :: "nat \<Rightarrow> 's \<Rightarrow> (string, u8 list) result \<times> 's"

text \<open>
  \<open>connect_socket\<close>: each attempt is the clock reading at the head of the loop and what
  \<open>UnixStream::connect\<close> answers; \<open>None\<close> when the attempts given end before the deadline.
\<close>

definition prepare_stream ::
  "'s stream_ops \<Rightarrow> nat \<Rightarrow> 's \<Rightarrow> 's inference_result" where
  "prepare_stream io timeout s =
    (case st_set_read_timeout io timeout s of
       (Inl e, _) \<Rightarrow> Inl (BridgeConnection (''set_read_timeout: '' @ e))
     | (Inr _, s1) \<Rightarrow>
         (case st_set_write_timeout io timeout s1 of
            (Inl e, _) \<Rightarrow> Inl (BridgeConnection (''set_write_timeout: '' @ e))
          | (Inr _, s2) \<Rightarrow> Inr s2))"

fun connect_loop ::
  "'s stream_ops \<Rightarrow> bridge_client_config \<Rightarrow> instant \<Rightarrow> string option
     \<Rightarrow> (instant \<times> (string, 's) result) list \<Rightarrow> 's inference_result option" where
  "connect_loop io cfg deadline last_err [] = None"
| "connect_loop io cfg deadline last_err ((now, attempt) # rest) =
    (if now < deadline
     then case attempt of
            Inr s \<Rightarrow> Some (prepare_stream io (rc_response_timeout_ms cfg) s)
          | Inl e \<Rightarrow> connect_loop io cfg deadline (Some e) rest
     else Some (Inl (BridgeConnection
            (''failed to connect to '' @ rc_socket_path cfg @ '' within ''
             @ dec (rc_connect_timeout_ms cfg) @ ''ms: ''
             @ (case last_err of Some e \<Rightarrow> e | None \<Rightarrow> ''unknown'')))))"

definition connect_socket ::
  "'s stream_ops \<Rightarrow> bridge_client_config \<Rightarrow> instant \<Rightarrow> (instant \<times> (string, 's) result) list
     \<Rightarrow> 's inference_result option" where
  "connect_socket io cfg now attempts =
    connect_loop io cfg (now + from_millis (rc_connect_timeout_ms cfg)) None attempts"

text \<open>\<open>send_recv\<close>: one message out, one message in, on the connected stream.\<close>

definition max_response :: nat where
  "max_response = 10000000"

definition receive_body :: "'s stream_ops \<Rightarrow> nat \<Rightarrow> 's \<Rightarrow> string inference_result \<times> 's" where
  "receive_body io resp_len s =
    (case st_read_exact io resp_len s of
       (Inl e, s') \<Rightarrow> (Inl (BridgeProtocol (''read data: '' @ e)), s')
     | (Inr buf, s') \<Rightarrow>
         (case from_utf8 buf of
            None \<Rightarrow> (Inl (BridgeProtocol ''utf8 decode''), s')
          | Some text \<Rightarrow> (Inr text, s')))"

definition receive :: "'s stream_ops \<Rightarrow> 's \<Rightarrow> string inference_result \<times> 's" where
  "receive io s =
    (case st_read_exact io 4 s of
       (Inl e, s') \<Rightarrow> (Inl (BridgeProtocol (''read length: '' @ e)), s')
     | (Inr len_buf, s') \<Rightarrow>
         let resp_len = unat (from_be_bytes len_buf)
         in if max_response < resp_len
            then (Inl (BridgeProtocol (''response too large: '' @ dec resp_len @ '' bytes'')), s')
            else receive_body io resp_len s')"

definition exchange :: "'s stream_ops \<Rightarrow> string \<Rightarrow> 's \<Rightarrow> string inference_result \<times> 's" where
  "exchange io json s =
    (case st_write_all io (to_be_bytes (of_nat (length json))) s of
       (Inl e, s1) \<Rightarrow> (Inl (BridgeProtocol (''write length: '' @ e)), s1)
     | (Inr _, s1) \<Rightarrow>
         (case st_write_all io (bytes_of json) s1 of
            (Inl e, s2) \<Rightarrow> (Inl (BridgeProtocol (''write data: '' @ e)), s2)
          | (Inr _, s2) \<Rightarrow> receive io s2))"

definition send_recv ::
  "'s stream_ops \<Rightarrow> string \<Rightarrow> 's rknn_client \<Rightarrow> string inference_result \<times> 's rknn_client" where
  "send_recv io json c =
    (case rk_stream c of
       None \<Rightarrow> (Inl (BridgeConnection ''not conn''), c)
     | Some s \<Rightarrow> (case exchange io json s of (r, s') \<Rightarrow> (r, c \<lparr>rk_stream := Some s'\<rparr>)))"

text \<open>A request: serialise, exchange, deserialise.\<close>

definition ask ::
  "'s stream_ops \<Rightarrow> string \<Rightarrow> (string, string) result \<Rightarrow> (string \<Rightarrow> (string, 'a) result)
     \<Rightarrow> 's rknn_client \<Rightarrow> 'a inference_result \<times> 's rknn_client" where
  "ask io what encoded decode c =
    (case encoded of
       Inl e \<Rightarrow> (Inl (BridgeProtocol (''serialize '' @ what @ '': '' @ e)), c)
     | Inr json \<Rightarrow>
         (case send_recv io json c of
            (Inl e, c') \<Rightarrow> (Inl e, c')
          | (Inr text, c') \<Rightarrow>
              (case decode text of
                 Inl e \<Rightarrow> (Inl (BridgeProtocol (''deserialize '' @ what @ ''_ack: '' @ e)), c')
               | Inr resp \<Rightarrow> (Inr resp, c'))))"

section \<open>Initialisation\<close>

text \<open>The segment, when it is wanted and not there yet: its path, count and size go into the request.\<close>

definition tensor_bytes :: "bridge_client_config \<Rightarrow> nat" where
  "tensor_bytes cfg =
    (let tensor = max (unat (rc_input_width cfg)) (unat (rc_input_height cfg)) in tensor * tensor * 3)"

definition setup_frame_shm ::
  "shm_outcome \<Rightarrow> 's rknn_client \<Rightarrow> (string \<times> u32 \<times> u64) option \<times> 's rknn_client" where
  "setup_frame_shm os c =
    (case (rc_frame_shm (rk_config c), rk_frame_shm c) of
       (Some path, None) \<Rightarrow>
         (case frame_shm_create os path (tensor_bytes (rk_config c)) (rc_frame_shm_buffers (rk_config c)) of
            Inr shm \<Rightarrow> (Some (fs_path shm, fs_buffers shm, of_nat (fs_frame_size shm)),
                         c \<lparr>rk_frame_shm := Some shm\<rparr>)
          | Inl _ \<Rightarrow> (None, c \<lparr>rk_config := rk_config c \<lparr>rc_frame_shm := None\<rparr>\<rparr>))
     | _ \<Rightarrow> (None, c))"

definition init_request_of ::
  "bridge_client_config \<Rightarrow> (string \<times> u32 \<times> u64) option \<Rightarrow> init_request" where
  "init_request_of cfg shm = \<lparr>
     iq_model_path = rc_model_path cfg,
     iq_input_width = rc_input_width cfg,
     iq_input_height = rc_input_height cfg,
     iq_input_format = rc_input_format cfg,
     iq_confidence_threshold = rc_confidence_threshold cfg,
     iq_nms_threshold = rc_nms_threshold cfg,
     iq_frame_shm = map_option fst shm,
     iq_frame_shm_buffers = map_option (fst \<circ> snd) shm,
     iq_frame_shm_size = map_option (snd \<circ> snd) shm \<rparr>"

definition client_init ::
  "'s stream_ops \<Rightarrow> bridge_codec \<Rightarrow> 's inference_result \<Rightarrow> shm_outcome
     \<Rightarrow> 's rknn_client \<Rightarrow> unit inference_result \<times> 's rknn_client" where
  "client_init io codec conn os c0 =
    (case conn of
       Inl e \<Rightarrow> (Inl e, c0)
     | Inr stream \<Rightarrow>
         let (shm, c) = setup_frame_shm os (c0 \<lparr>rk_stream := Some stream\<rparr>)
         in case ask io ''init'' (enc_init codec (init_request_of (rk_config c) shm)) (dec_init codec) c of
              (Inl e, c') \<Rightarrow> (Inl e, c')
            | (Inr resp, c') \<Rightarrow>
                if \<not> ia_ok resp then (Inl (BridgeConnection (''init failed: '' @ ia_error resp)), c')
                else (Inr (), c' \<lparr>rk_initialized := True, rk_backend_name := ia_backend resp,
                                   rk_output_classes := ia_output_classes resp\<rparr>))"

section \<open>Inference\<close>

fun format_str :: "pixel_format \<Rightarrow> string" where
  "format_str Nv12 = ''nv12''"
| "format_str Rgb24 = ''rgb24''"
| "format_str Yuyv = ''yuyv''"
| "format_str Mjpeg = ''mjpeg''"

text \<open>The frame goes into the next buffer of the segment, or into the message as base64.\<close>

definition place_frame ::
  "u8 list \<Rightarrow> 's rknn_client \<Rightarrow> (string option \<times> u32 option) inference_result \<times> 's rknn_client" where
  "place_frame data c =
    (case rk_frame_shm c of
       Some shm \<Rightarrow>
         let index = rk_shm_buf_cursor c mod fs_buffers shm;
             c1 = c \<lparr>rk_shm_buf_cursor := rk_shm_buf_cursor c + 1\<rparr>
         in (case write_frame index data shm of
               (Inl e, shm') \<Rightarrow> (Inl (BridgeProtocol (''shm write: '' @ e)), c1 \<lparr>rk_frame_shm := Some shm'\<rparr>)
             | (Inr _, shm') \<Rightarrow> (Inr (None, Some index), c1 \<lparr>rk_frame_shm := Some shm'\<rparr>))
     | None \<Rightarrow> (Inr (Some (base64_encode data), None), c))"

definition infer_request_of :: "frame \<Rightarrow> string option \<Rightarrow> u32 option \<Rightarrow> infer_request" where
  "infer_request_of frame b64 buf =
    (let m = frame_meta frame
     in \<lparr>fq_frame_seq = fm_seq m, fq_frame_data_b64 = b64, fq_frame_shm_buf = buf,
         fq_frame_width = fm_width m, fq_frame_height = fm_height m,
         fq_frame_format = format_str (fm_format m),
         fq_captured_at_ms = word_of_int (fm_captured_at m div 1000000)\<rparr>)"

definition detections_of_response :: "(nat \<Rightarrow> utc) \<Rightarrow> u64 \<Rightarrow> infer_response \<Rightarrow> detection list" where
  "detections_of_response now seq resp =
    map (\<lambda>d. d \<lparr>d_frame_seq := seq\<rparr>)
      (map2 (\<lambda>i d. detection_of_json (now i) d) [0..<length (fa_detections resp)] (fa_detections resp))"

definition client_infer ::
  "'s stream_ops \<Rightarrow> bridge_codec \<Rightarrow> (nat \<Rightarrow> utc) \<Rightarrow> frame \<Rightarrow> 's rknn_client
     \<Rightarrow> detection list inference_result \<times> 's rknn_client" where
  "client_infer io codec now frame c =
    (if \<not> rk_initialized c then (Inl ModelNotLoaded, c)
     else case place_frame (frame_data frame) c of
            (Inl e, c1) \<Rightarrow> (Inl e, c1)
          | (Inr (b64, buf), c1) \<Rightarrow>
              (case ask io ''infer'' (enc_infer codec (infer_request_of frame b64 buf)) (dec_infer codec) c1 of
                 (Inl e, c2) \<Rightarrow> (Inl e, c2)
               | (Inr resp, c2) \<Rightarrow>
                   if \<not> fa_ok resp then (Inl (Inference (''infer failed: '' @ fa_error resp)), c2)
                   else (Inr (detections_of_response now (fm_seq (frame_meta frame)) resp), c2)))"

section \<open>Health check and shutdown\<close>

text \<open>
  The health check opens a stream of its own, without time limits and without the bound on the
  answer; \<open>conn\<close> is what \<open>UnixStream::connect\<close> answers.
\<close>

definition client_health_check ::
  "'s stream_ops \<Rightarrow> bridge_codec \<Rightarrow> (string, 's) result \<Rightarrow> 's rknn_client \<Rightarrow> unit inference_result" where
  "client_health_check io codec conn c =
    (if \<not> rk_initialized c then Inl ModelNotLoaded
     else case conn of
       Inl e \<Rightarrow> Inl (BridgeConnection (''health connect: '' @ e))
     | Inr s \<Rightarrow> (case enc_health codec of
         Inl e \<Rightarrow> Inl (BridgeProtocol (''serialize health: '' @ e))
       | Inr json \<Rightarrow> (case st_write_all io (to_be_bytes (of_nat (length json))) s of
           (Inl e, _) \<Rightarrow> Inl (BridgeProtocol (''write: '' @ e))
         | (Inr _, s1) \<Rightarrow> (case st_write_all io (bytes_of json) s1 of
             (Inl e, _) \<Rightarrow> Inl (BridgeProtocol (''write: '' @ e))
           | (Inr _, s2) \<Rightarrow> (case st_read_exact io 4 s2 of
               (Inl e, _) \<Rightarrow> Inl (BridgeProtocol (''read: '' @ e))
             | (Inr len_buf, s3) \<Rightarrow> (case st_read_exact io (unat (from_be_bytes len_buf)) s3 of
                 (Inl e, _) \<Rightarrow> Inl (BridgeProtocol (''read: '' @ e))
               | (Inr buf, _) \<Rightarrow> (case dec_health codec buf of
                   Inl e \<Rightarrow> Inl (BridgeProtocol (''deserialize health_ack: '' @ e))
                 | Inr resp \<Rightarrow> if \<not> ha_ok resp then Inl (BridgeConnection ''health check failed'')
                               else Inr ())))))))"

text \<open>\<open>Drop\<close>: a best-effort shutdown message; the stream as it is when it is closed.\<close>

definition client_drop :: "'s stream_ops \<Rightarrow> bridge_codec \<Rightarrow> 's rknn_client \<Rightarrow> 's option" where
  "client_drop io codec c =
    (if rk_initialized c
     then case enc_shutdown codec of
            Inr json \<Rightarrow> rk_stream (snd (send_recv io json c))
          | Inl _ \<Rightarrow> rk_stream c
     else rk_stream c)"

section \<open>The client as a back end\<close>

definition client_ops ::
  "'s stream_ops \<Rightarrow> bridge_codec \<Rightarrow> (nat \<Rightarrow> utc) \<Rightarrow> 's inference_result \<Rightarrow> shm_outcome
     \<Rightarrow> (string, 's) result \<Rightarrow> 's rknn_client backend_ops" where
  "client_ops io codec now conn os health_conn = \<lparr>
     be_init = client_init io codec conn os,
     be_infer = client_infer io codec now,
     be_health_check = client_health_check io codec health_conn,
     be_name = ''RknnBridgeClient'' \<rparr>"

lemma send_recv_frame:
  assumes "send_recv io json c = (r, c')"
  shows "rk_frame_shm c' = rk_frame_shm c \<and> rk_initialized c' = rk_initialized c
    \<and> rk_config c' = rk_config c \<and> rk_shm_buf_cursor c' = rk_shm_buf_cursor c"
  using assms by (auto simp: send_recv_def split: option.splits prod.splits)

lemma ask_frame:
  assumes "ask io what enc decode c = (r, c')"
  shows "rk_frame_shm c' = rk_frame_shm c \<and> rk_initialized c' = rk_initialized c
    \<and> rk_config c' = rk_config c \<and> rk_shm_buf_cursor c' = rk_shm_buf_cursor c"
  using assms by (auto simp: ask_def split: sum.splits prod.splits dest: send_recv_frame)

lemma place_frame_initialized:
  "place_frame data c = (r, c') \<Longrightarrow> rk_initialized c' = rk_initialized c \<and> rk_stream c' = rk_stream c"
  by (auto simp: place_frame_def Let_def split: option.splits prod.splits sum.splits)

lemma client_infer_initialized:
  "client_infer io codec now f c = (r, c') \<Longrightarrow> rk_initialized c' = rk_initialized c"
  by (auto simp: client_infer_def split: if_splits prod.splits sum.splits
      dest!: ask_frame place_frame_initialized)

lemma client_init_initialized:
  "client_init io codec conn os c = (Inr (), c') \<Longrightarrow> rk_initialized c'"
  by (auto simp: client_init_def split: if_splits prod.splits sum.splits)

lemma client_infer_not_ready:
  "\<not> rk_initialized c \<Longrightarrow> client_infer io codec now f c = (Inl ModelNotLoaded, c)"
  by (simp add: client_infer_def)

interpretation bridge_client: inference_backend "client_ops io codec now conn os hc" rk_initialized
  by unfold_locales
    (auto simp: client_ops_def client_infer_not_ready dest: client_init_initialized client_infer_initialized)

end
