(* ===== verification/Detector.thy ===== *)
theory Detector
  imports Bridge_Client Yolo Shm_Refine Event_Bus
begin

text \<open>
  \<open>crates/detector/src/lib.rs\<close>: the component that takes frames from the shared-memory ring, runs
  the inference back end on them and publishes the detections.  One iteration of the loop is
  \<open>detector_tick\<close>; the clock readings, the temperature, the outcome of the publication and the ring
  as the iteration finds it are its inputs.  \<open>None\<close> of the preprocessing is a panic of the pixel
  routines.
\<close>

section \<open>Configuration\<close>

datatype detector_error =
    DetectorBus bus_error
  | DetectorRing ring_error
  | DetectorInfer inference_error
  | DetectorPreprocess conversion_error
  | DetectorInvalidConfig string
  | NoFrames

datatype backend_kind = BridgeBackend | CpuOnnx | MockBackend

record detector_config =
  dc_segment :: string
  dc_model_path :: string
  dc_backend :: backend_kind
  dc_confidence_threshold :: f32
  dc_nms_threshold :: f32
  dc_bridge_socket :: string
  dc_frame_shm_path :: string
  dc_quiet_timeout :: duration
  dc_status_interval :: duration
  dc_max_duration :: "duration option"
  dc_throttle_temp_c :: f32
  dc_throttle_every_n :: u32

definition detector_config_default :: detector_config where
  "detector_config_default = \<lparr>
     dc_segment = ''autotarget.frames'',
     dc_model_path = ''/opt/auto-targeting/models/yolov8n_int8.rknn'',
     dc_backend = BridgeBackend,
     dc_confidence_threshold = lit (45 / 100),
     dc_nms_threshold = lit (45 / 100),
     dc_bridge_socket = ''/tmp/rknn-bridge.sock'',
     dc_frame_shm_path = ''/dev/shm/at-infer'',
     dc_quiet_timeout = from_secs 5,
     dc_status_interval = from_secs 5,
     dc_max_duration = None,
     dc_throttle_temp_c = lit 85,
     dc_throttle_every_n = 3 \<rparr>"

definition detector_new :: "detector_config \<Rightarrow> (detector_error, detector_config) result" where
  "detector_new cfg =
    (if dc_confidence_threshold cfg < Fin 0 \<or> Fin 1 < dc_confidence_threshold cfg
     then Inl (DetectorInvalidConfig ''conf threshold'') else Inr cfg)"

section \<open>Statistics\<close>

record detector_stats =
  ds_frames_processed :: u64
  ds_frames_published :: u64
  ds_jumps :: u64
  ds_infer_errors :: u64
  ds_detections_total :: u64

definition detector_stats_default :: detector_stats where
  "detector_stats_default = \<lparr>ds_frames_processed = 0, ds_frames_published = 0, ds_jumps = 0,
     ds_infer_errors = 0, ds_detections_total = 0\<rparr>"

record detector_status =
  st_fps :: f32
  st_infer_p50_us :: u64
  st_infer_p95_us :: u64
  st_e2e_p50_us :: u64
  st_stats :: detector_stats
  st_frame_w :: u32
  st_frame_h :: u32

record metrics =
  mt_infer_us :: "u64 list"
  mt_e2e_us :: "u64 list"
  mt_window_start :: instant
  mt_window_frames :: u64

definition metrics_new :: "instant \<Rightarrow> metrics" where
  "metrics_new now = \<lparr>mt_infer_us = [], mt_e2e_us = [], mt_window_start = now, mt_window_frames = 0\<rparr>"

text \<open>\<open>rotate\<close> computes a rate, drops it, and restarts the window.\<close>

definition metrics_rotate :: "instant \<Rightarrow> metrics \<Rightarrow> metrics" where
  "metrics_rotate now m = m \<lparr>mt_window_start := now, mt_window_frames := 0\<rparr>"

definition metrics_push :: "instant \<Rightarrow> u64 \<Rightarrow> u64 \<Rightarrow> metrics \<Rightarrow> metrics" where
  "metrics_push now infer e2e m =
    (let m = (if 512 \<le> length (mt_infer_us m) then metrics_rotate now m else m)
     in m \<lparr>mt_infer_us := mt_infer_us m @ [infer], mt_e2e_us := mt_e2e_us m @ [e2e],
           mt_window_frames := mt_window_frames m + 1\<rparr>)"

definition metrics_fps :: "instant \<Rightarrow> metrics \<Rightarrow> f32" where
  "metrics_fps now m =
    (let secs = as_secs_f32 (now - mt_window_start m)
     in if secs \<le> Fin 0 then Fin 0 else fl_of_nat (unat (mt_window_frames m)) / secs)"

definition percentile_index :: "f64 \<Rightarrow> nat \<Rightarrow> nat" where
  "percentile_index q n =
    (case q / lit 100 * (fl_of_nat n - lit 1) of
       Fin r \<Rightarrow> nat (round_half r) | PInf \<Rightarrow> 2 ^ 64 - 1 | _ \<Rightarrow> 0)"

definition metrics_p :: "u64 list \<Rightarrow> f64 \<Rightarrow> u64" where
  "metrics_p stats q =
    (if stats = [] then 0
     else let v = sort stats in v ! min (percentile_index q (length v)) (length v - 1))"

definition metrics_snapshot ::
  "instant \<Rightarrow> detector_stats \<Rightarrow> u32 \<Rightarrow> u32 \<Rightarrow> metrics \<Rightarrow> detector_status \<times> metrics" where
  "metrics_snapshot now s w h m =
    (\<lparr>st_fps = metrics_fps now m,
      st_infer_p50_us = metrics_p (mt_infer_us m) (lit 50),
      st_infer_p95_us = metrics_p (mt_infer_us m) (lit 95),
      st_e2e_p50_us = metrics_p (mt_e2e_us m) (lit 50),
      st_stats = s, st_frame_w = w, st_frame_h = h\<rparr>,
     m \<lparr>mt_window_start := now, mt_window_frames := 0\<rparr>)"

section \<open>Back ends and preprocessing\<close>

text \<open>What \<open>build_backend\<close> constructs; \<open>cpu_onnx\<close> is the feature of the build.\<close>

datatype backend_choice =
    ChooseBridge bridge_client_config
  | ChooseCpu string f32 f32
  | ChooseMock

definition bridge_config_of :: "detector_config \<Rightarrow> u32 \<Rightarrow> u32 \<Rightarrow> string \<Rightarrow> bridge_client_config" where
  "bridge_config_of cfg w h frame_shm_path = bridge_client_config_default \<lparr>
     rc_socket_path := dc_bridge_socket cfg,
     rc_model_path := dc_model_path cfg,
     rc_input_width := w,
     rc_input_height := h,
     rc_input_format := ''rgb24'',
     rc_confidence_threshold := dc_confidence_threshold cfg,
     rc_nms_threshold := dc_nms_threshold cfg,
     rc_frame_shm := Some frame_shm_path,
     rc_frame_shm_buffers := 2 \<rparr>"

definition build_backend ::
  "bool \<Rightarrow> detector_config \<Rightarrow> u32 \<Rightarrow> u32 \<Rightarrow> string \<Rightarrow> (detector_error, backend_choice) result" where
  "build_backend cpu_onnx cfg w h frame_shm_path =
    (case dc_backend cfg of
       BridgeBackend \<Rightarrow> Inr (ChooseBridge (bridge_config_of cfg w h frame_shm_path))
     | CpuOnnx \<Rightarrow>
         if cpu_onnx
         then Inr (ChooseCpu (dc_model_path cfg) (dc_confidence_threshold cfg) (dc_nms_threshold cfg))
         else Inl (DetectorInvalidConfig ''cpu-onnx backend requires feature cpu-onnx'')
     | MockBackend \<Rightarrow> Inr ChooseMock)"

definition letterboxed :: "frame \<Rightarrow> frame option" where
  "letterboxed rgb =
    map_option (\<lambda>(lb, _). \<lparr>frame_data = lb, frame_meta = \<lparr>
        fm_width = of_nat input_size, fm_height = of_nat input_size, fm_format = Rgb24,
        fm_captured_at = fm_captured_at (frame_meta rgb), fm_seq = fm_seq (frame_meta rgb)\<rparr>\<rparr>)
      (letterbox (frame_data rgb) (fm_width (frame_meta rgb)) (fm_height (frame_meta rgb)))"

definition preprocess_frame ::
  "frame \<Rightarrow> storage_format \<Rightarrow> backend_kind \<Rightarrow> (detector_error, frame) result option" where
  "preprocess_frame raw format backend =
    (case (backend, format) of
       (BridgeBackend, StNv12) \<Rightarrow>
         (case nv12_to_rgb24 raw of
            None \<Rightarrow> None
          | Some (Inl e) \<Rightarrow> Some (Inl (DetectorPreprocess e))
          | Some (Inr rgb) \<Rightarrow> map_option Inr (letterboxed rgb))
     | (BridgeBackend, StRgb24) \<Rightarrow> map_option Inr (letterboxed raw)
     | _ \<Rightarrow> Some (Inr raw))"

section \<open>Taking frames\<close>

definition acquire :: "u32 \<Rightarrow> u64 \<Rightarrow> detector_stats \<Rightarrow> region
    \<Rightarrow> frame_guard option \<times> u64 \<times> detector_stats \<times> region" where
  "acquire pid last_id stats rg =
    (case next_after pid last_id rg of
       (NextFrame g, rg1) \<Rightarrow> (Some g, fv_frame_id (g_view g), stats, rg1)
     | (UpToDate, rg1) \<Rightarrow> (None, last_id, stats, rg1)
     | (TooFarBehind _ newest, rg1) \<Rightarrow>
         let stats1 = stats \<lparr>ds_jumps := ds_jumps stats + 1\<rparr>
         in (case next_after pid newest rg1 of
               (NextFrame g, rg2) \<Rightarrow> (Some g, fv_frame_id (g_view g), stats1, rg2)
             | (_, rg2) \<Rightarrow> (None, newest, stats1, rg2)))"

text \<open>\<open>wait_first\<close>: the clock reading and the ring of each attempt; \<open>None\<close> while it still waits.\<close>

fun wait_first :: "u32 \<Rightarrow> instant \<Rightarrow> u64 \<Rightarrow> detector_stats \<Rightarrow> (instant \<times> region) list
    \<Rightarrow> (detector_error, frame_guard \<times> region) result option" where
  "wait_first pid deadline last_id stats [] = None"
| "wait_first pid deadline last_id stats ((now, rg) # rest) =
    (if now < deadline
     then case acquire pid last_id stats rg of
            (Some g, _, _, rg') \<Rightarrow> Some (Inr (g, rg'))
          | (None, last', stats', _) \<Rightarrow> wait_first pid deadline last' stats' rest
     else Some (Inl NoFrames))"

definition thermal_poll :: "instant \<Rightarrow> f32 option \<Rightarrow> f32 option \<times> instant \<Rightarrow> f32 option \<times> instant" where
  "thermal_poll now reading = (\<lambda>(cache, last_poll).
     if from_secs 5 \<le> now - last_poll then (reading, now) else (cache, last_poll))"

section \<open>The loop\<close>

text \<open>
  The local variables of \<open>run\<close>.  \<open>pending\<close> is part of them although nothing in the source ever
  fills it.
\<close>

record 'b detector_state =
  dt_backend :: 'b
  dt_stats :: detector_stats
  dt_metrics :: metrics
  dt_last :: u64
  dt_pending :: "frame_guard option"
  dt_started :: instant
  dt_last_frame_at :: instant
  dt_last_status :: instant
  dt_thermal :: "f32 option \<times> instant"
  dt_throttle_skip :: u32

text \<open>
  Before the loop: the format of the first frame, whose guard is dropped at once, the back end and
  its initialisation.  \<open>new_backend\<close> is the constructor behind \<open>build_backend\<close>'s choice.
\<close>

definition detector_start ::
  "bool \<Rightarrow> detector_config \<Rightarrow> 'b backend_ops \<Rightarrow> (backend_choice \<Rightarrow> 'b) \<Rightarrow> instant \<Rightarrow> frame_view
     \<Rightarrow> (detector_error, storage_format \<times> 'b detector_state) result" where
  "detector_start cpu_onnx cfg ops new_backend now first =
    (case storage_format_of first of
       None \<Rightarrow> Inl (DetectorInvalidConfig ''unsupported ring format'')
     | Some format \<Rightarrow>
         (case build_backend cpu_onnx cfg (fv_width first) (fv_height first) (dc_frame_shm_path cfg) of
            Inl e \<Rightarrow> Inl e
          | Inr choice \<Rightarrow>
              (case be_init ops (new_backend choice) of
                 (Inl e, _) \<Rightarrow> Inl (DetectorInfer e)
               | (Inr _, backend) \<Rightarrow> Inr (format,
                   \<lparr>dt_backend = backend, dt_stats = detector_stats_default, dt_metrics = metrics_new now,
                    dt_last = fv_frame_id first, dt_pending = None, dt_started = now,
                    dt_last_frame_at = now, dt_last_status = now,
                    dt_thermal = (None, now - from_secs 10), dt_throttle_skip = 0\<rparr>))))"

record tick_input =
  ti_now :: instant
  ti_temperature :: "f32 option"
  ti_infer_start :: instant
  ti_infer_end :: instant
  ti_unix_ns :: nat
  ti_publish_ok :: bool

text \<open>
  How an iteration ends: the loop is left, there was no frame, the frame was skipped to cool the
  NPU, the preprocessing failed (\<open>Failed\<close> ends the component) or panicked, the inference failed
  (the frame is skipped), or an event went to the bus, perhaps with a status.
\<close>

datatype tick_outcome =
    Exit
  | Waiting
  | Throttled
  | Failed detector_error
  | Panicked
  | InferFailed inference_error
  | Event detections_frame "detector_status option"

definition must_exit :: "detector_config \<Rightarrow> instant \<Rightarrow> 'b detector_state \<Rightarrow> bool" where
  "must_exit cfg now st \<longleftrightarrow>
     (case dc_max_duration cfg of Some limit \<Rightarrow> limit \<le> now - dt_started st | None \<Rightarrow> False)
     \<or> (dc_quiet_timeout cfg \<le> now - dt_last_frame_at st \<and> 0 < ds_frames_processed (dt_stats st))"

definition take_frame :: "u32 \<Rightarrow> 'b detector_state \<Rightarrow> region
    \<Rightarrow> frame_guard option \<times> 'b detector_state \<times> region" where
  "take_frame pid st rg =
    (case dt_pending st of
       Some g \<Rightarrow> (Some g, st \<lparr>dt_pending := None\<rparr>, rg)
     | None \<Rightarrow> (case acquire pid (dt_last st) (dt_stats st) rg of
         (g, last', stats', rg') \<Rightarrow> (g, st \<lparr>dt_last := last', dt_stats := stats'\<rparr>, rg')))"

text \<open>The thermal branch: whether the frame is skipped.\<close>

definition throttle :: "detector_config \<Rightarrow> tick_input \<Rightarrow> 'b detector_state \<Rightarrow> bool \<times> 'b detector_state" where
  "throttle cfg inp st =
    (if Fin 0 < dc_throttle_temp_c cfg
     then let th = thermal_poll (ti_now inp) (ti_temperature inp) (dt_thermal st);
              st1 = st \<lparr>dt_thermal := th\<rparr>
          in case fst th of
               None \<Rightarrow> (False, st1)
             | Some t \<Rightarrow>
                 if dc_throttle_temp_c cfg \<le> t
                 then let skip = saturating_add (dt_throttle_skip st1) 1
                      in (skip mod max (dc_throttle_every_n cfg) 1 \<noteq> 0, st1 \<lparr>dt_throttle_skip := skip\<rparr>)
                 else (False, st1)
     else (False, st))"

text \<open>The event, its metrics and the status, once the back end has answered.\<close>

definition publish_event ::
  "detector_config \<Rightarrow> u32 \<Rightarrow> u32 \<Rightarrow> tick_input \<Rightarrow> frame_view \<Rightarrow> detection list \<Rightarrow> 'b detector_state
     \<Rightarrow> tick_outcome \<times> 'b detector_state" where
  "publish_event cfg w h inp v detections st =
    (let infer_us = of_nat ((ti_infer_end inp - ti_infer_start inp) div 1000);
         event = \<lparr>df_frame_seq = fv_frame_id v, df_captured_at = ts_ns_to_datetime (fv_ts_ns v),
                  df_detections = detections, df_frame_w = w, df_frame_h = h\<rparr>;
         e2e_us = saturating_sub (of_nat (ti_unix_ns inp)) (fv_ts_ns v) div 1000;
         stats1 = dt_stats st \<lparr>ds_detections_total :=
                    ds_detections_total (dt_stats st) + of_nat (length detections)\<rparr>;
         stats = (if ti_publish_ok inp
                  then stats1 \<lparr>ds_frames_published := ds_frames_published stats1 + 1\<rparr> else stats1);
         m = metrics_push (ti_infer_end inp) infer_us e2e_us (dt_metrics st);
         st1 = st \<lparr>dt_stats := stats, dt_metrics := m\<rparr>
     in if dc_status_interval cfg \<le> ti_infer_end inp - dt_last_status st
        then case metrics_snapshot (ti_infer_end inp) stats w h m of
               (snap, m') \<Rightarrow> (Event event (Some snap),
                              st1 \<lparr>dt_metrics := m', dt_last_status := ti_infer_end inp\<rparr>)
        else (Event event None, st1))"

text \<open>The frame is copied and its guard dropped before it is prepared and inferred.\<close>

definition process_frame ::
  "detector_config \<Rightarrow> 'b backend_ops \<Rightarrow> u32 \<Rightarrow> u32 \<Rightarrow> storage_format \<Rightarrow> tick_input \<Rightarrow> frame_view \<Rightarrow> frame
     \<Rightarrow> 'b detector_state \<Rightarrow> tick_outcome \<times> 'b detector_state" where
  "process_frame cfg ops w h format inp v raw st =
    (case preprocess_frame raw format (dc_backend cfg) of
       None \<Rightarrow> (Panicked, st)
     | Some (Inl e) \<Rightarrow> (Failed e, st)
     | Some (Inr prepared) \<Rightarrow>
         (case be_infer ops prepared (dt_backend st) of
            (Inl e, backend) \<Rightarrow>
              (InferFailed e, st \<lparr>dt_backend := backend,
                 dt_stats := dt_stats st \<lparr>ds_infer_errors := ds_infer_errors (dt_stats st) + 1\<rparr>\<rparr>)
          | (Inr detections, backend) \<Rightarrow>
              publish_event cfg w h inp v detections (st \<lparr>dt_backend := backend\<rparr>)))"

definition detector_tick ::
  "detector_config \<Rightarrow> 'b backend_ops \<Rightarrow> u32 \<Rightarrow> u32 \<Rightarrow> u32 \<Rightarrow> storage_format \<Rightarrow> tick_input
     \<Rightarrow> 'b detector_state \<Rightarrow> region \<Rightarrow> tick_outcome \<times> 'b detector_state \<times> region" where
  "detector_tick cfg ops pid w h format inp st rg =
    (if must_exit cfg (ti_now inp) st then (Exit, st, rg)
     else case take_frame pid st rg of
            (None, st1, rg1) \<Rightarrow> (Waiting, st1, rg1)
          | (Some g, st1, rg1) \<Rightarrow>
              (case throttle cfg inp st1 of
                 (True, st2) \<Rightarrow> (Throttled, st2, guard_drop g rg1)
               | (False, st2) \<Rightarrow>
                   let st3 = st2 \<lparr>dt_last_frame_at := ti_now inp,
                         dt_stats := dt_stats st2 \<lparr>ds_frames_processed := ds_frames_processed (dt_stats st2) + 1\<rparr>\<rparr>
                   in case process_frame cfg ops w h format inp (g_view g) (to_frame g rg1) st3 of
                        (outcome, st4) \<Rightarrow> (outcome, st4, guard_drop g rg1)))"

text \<open>The loop over the iterations' inputs, and the status it publishes when it is left.\<close>

fun ends_loop :: "tick_outcome \<Rightarrow> bool" where
  "ends_loop Exit = True"
| "ends_loop (Failed _) = True"
| "ends_loop Panicked = True"
| "ends_loop _ = False"

fun detector_loop ::
  "detector_config \<Rightarrow> 'b backend_ops \<Rightarrow> u32 \<Rightarrow> u32 \<Rightarrow> u32 \<Rightarrow> storage_format \<Rightarrow> (tick_input \<times> region) list
     \<Rightarrow> 'b detector_state \<Rightarrow> tick_outcome list \<times> 'b detector_state" where
  "detector_loop cfg ops pid w h format [] st = ([], st)"
| "detector_loop cfg ops pid w h format ((inp, rg) # rest) st =
    (case detector_tick cfg ops pid w h format inp st rg of
       (outcome, st', _) \<Rightarrow>
         if ends_loop outcome then ([outcome], st')
         else case detector_loop cfg ops pid w h format rest st' of
                (outcomes, st'') \<Rightarrow> (outcome # outcomes, st''))"

definition detector_finish ::
  "instant \<Rightarrow> u32 \<Rightarrow> u32 \<Rightarrow> 'b detector_state \<Rightarrow> detector_status \<times> detector_stats" where
  "detector_finish now w h st = (fst (metrics_snapshot now (dt_stats st) w h (dt_metrics st)), dt_stats st)"

end
