(* ===== verification/Bridge_Session.thy ===== *)
theory Bridge_Session
  imports Bridge_Client
begin

text \<open>
  What the client of the NPU process guarantees: framing over a byte pipe (one message out, one
  message in, nothing lost), the invariant of the shared-memory segment, where a frame is written,
  and what becomes of an answer that arrives after its request timed out.
\<close>

section \<open>A byte pipe\<close>

text \<open>
  The bytes that have arrived and those that were written.  A read of more than has arrived ends
  with the time limit; \<open>read_exact\<close> then has consumed what there was.
\<close>

record pipe =
  p_in :: "u8 list"
  p_out :: "u8 list"

definition pipe_ops :: "pipe stream_ops" where
  "pipe_ops = \<lparr>
     st_set_read_timeout = (\<lambda>_ p. (Inr (), p)),
     st_set_write_timeout = (\<lambda>_ p. (Inr (), p)),
     st_write_all = (\<lambda>bs p. (Inr (), p \<lparr>p_out := p_out p @ bs\<rparr>)),
     st_read_exact = (\<lambda>n p.
       if n \<le> length (p_in p) then (Inr (take n (p_in p)), p \<lparr>p_in := drop n (p_in p)\<rparr>)
       else (Inl ''timed out'', p \<lparr>p_in := []\<rparr>)) \<rparr>"

definition framed :: "string \<Rightarrow> u8 list" where
  "framed json = to_be_bytes (of_nat (length json)) @ bytes_of json"

definition well_formed_answer :: "string \<Rightarrow> bool" where
  "well_formed_answer a \<longleftrightarrow> length a \<le> max_response \<and> utf8_valid (bytes_of a)"

lemma pipe_ops_simps [simp]:
  "st_write_all pipe_ops bs p = (Inr (), p \<lparr>p_out := p_out p @ bs\<rparr>)"
  "st_read_exact pipe_ops n p =
     (if n \<le> length (p_in p) then (Inr (take n (p_in p)), p \<lparr>p_in := drop n (p_in p)\<rparr>)
      else (Inl ''timed out'', p \<lparr>p_in := []\<rparr>))"
  by (simp_all add: pipe_ops_def)

lemma unat_length: "length a \<le> max_response \<Longrightarrow> unat (of_nat (length a) :: u32) = length a"
  by (simp add: max_response_def unat_of_nat take_bit_nat_eq_self)

lemma receive_framed:
  assumes "well_formed_answer a" and "p_in p = framed a @ rest"
  shows "receive pipe_ops p = (Inr a, p \<lparr>p_in := rest\<rparr>)"
proof -
  have "from_be_bytes (take 4 (p_in p)) = of_nat (length a)" "drop 4 (p_in p) = bytes_of a @ rest"
    using assms(2) by (simp_all add: framed_def)
  moreover have "\<not> max_response < length a" "from_utf8 (bytes_of a) = Some a"
    using assms(1) by (simp_all add: well_formed_answer_def from_utf8_def)
  moreover have "4 \<le> length (p_in p)" using assms(2) by (simp add: framed_def)
  ultimately show ?thesis
    using assms(1) by (simp add: receive_def receive_body_def unat_length well_formed_answer_def)
qed

lemma exchange_framed:
  assumes "well_formed_answer a" and "p_in p = framed a @ rest"
  shows "exchange pipe_ops json p = (Inr a, \<lparr>p_in = rest, p_out = p_out p @ framed json\<rparr>)"
  using receive_framed [OF assms(1), of "p \<lparr>p_out := p_out p @ framed json\<rparr>" rest] assms(2)
  by (simp add: exchange_def framed_def)

lemma exchange_empty:
  assumes "p_in p = []"
  shows "exchange pipe_ops json p
    = (Inl (BridgeProtocol (''read length: '' @ ''timed out'')), \<lparr>p_in = [], p_out = p_out p @ framed json\<rparr>)"
  using assms by (simp add: exchange_def receive_def framed_def)

text \<open>An answer above the limit is refused with its body still in the stream: the next exchange
  takes four bytes of that body for a length.\<close>

lemma exchange_oversize:
  assumes "max_response < length a" "length a < 2 ^ 32" and "p_in p = framed a @ rest"
  shows "\<exists>e. exchange pipe_ops json p
    = (Inl e, \<lparr>p_in = bytes_of a @ rest, p_out = p_out p @ framed json\<rparr>)"
proof -
  have "from_be_bytes (take 4 (p_in p)) = of_nat (length a)" "drop 4 (p_in p) = bytes_of a @ rest"
    using assms(3) by (simp_all add: framed_def)
  moreover have "unat (of_nat (length a) :: u32) = length a"
    using assms(2) by (simp add: unat_of_nat take_bit_nat_eq_self)
  moreover have "4 \<le> length (p_in p)" using assms(3) by (simp add: framed_def)
  ultimately show ?thesis
    using assms(1) by (simp add: exchange_def receive_def Let_def framed_def)
qed

section \<open>The segment\<close>

definition segment_ok :: "frame_shm \<Rightarrow> bool" where
  "segment_ok shm \<longleftrightarrow> fs_buffers shm \<noteq> 0 \<and> 0 < fs_frame_size shm
     \<and> length (fs_data shm) = fs_frame_size shm * unat (fs_buffers shm)"

definition client_ok :: "'s rknn_client \<Rightarrow> bool" where
  "client_ok c \<longleftrightarrow> (\<forall>shm. rk_frame_shm c = Some shm \<longrightarrow> segment_ok shm)"

definition buffer_of :: "frame_shm \<Rightarrow> u32 \<Rightarrow> u8 list" where
  "buffer_of shm i = take (fs_frame_size shm) (drop (unat i * fs_frame_size shm) (fs_data shm))"

lemma frame_shm_create_ok: "frame_shm_create os path len n = Inr shm \<Longrightarrow> segment_ok shm"
proof -
  assume "frame_shm_create os path len n = Inr shm"
  moreover have "n \<noteq> 0" if "0 < len * unat n" using that by auto
  ultimately show ?thesis
    by (auto simp: frame_shm_create_def segment_ok_def Let_def split: sum.splits if_splits)
qed

lemma segment_room:
  assumes "segment_ok shm" "i < fs_buffers shm"
  shows "unat i * fs_frame_size shm + fs_frame_size shm \<le> length (fs_data shm)"
proof -
  have "Suc (unat i) \<le> unat (fs_buffers shm)" using assms(2) by (simp add: word_less_nat_alt)
  then have "Suc (unat i) * fs_frame_size shm \<le> unat (fs_buffers shm) * fs_frame_size shm"
    by (rule mult_le_mono1)
  then show ?thesis using assms(1) by (simp add: segment_ok_def mult.commute)
qed

lemma write_frame_cases:
  assumes "segment_ok shm" and "write_frame i data shm = (r, shm')"
  shows "segment_ok shm' \<and> fs_buffers shm' = fs_buffers shm \<and> fs_frame_size shm' = fs_frame_size shm
    \<and> (case r of
         Inl _ \<Rightarrow> shm' = shm
       | Inr _ \<Rightarrow> i < fs_buffers shm \<and> length data \<le> fs_frame_size shm
           \<and> take (length data) (buffer_of shm' i) = data
           \<and> buffer_of shm' i = data @ drop (length data) (buffer_of shm i)
           \<and> (\<forall>j. j < fs_buffers shm \<longrightarrow> j \<noteq> i \<longrightarrow> buffer_of shm' j = buffer_of shm j))"
proof (cases "i < fs_buffers shm \<and> length data \<le> fs_frame_size shm")
  case False
  then show ?thesis using assms by (auto simp: write_frame_def split: if_splits)
next
  case True
  let ?n = "fs_frame_size shm" and ?d = "fs_data shm" and ?off = "unat i * fs_frame_size shm"
  have r: "r = Inr ()" and s: "shm' = shm \<lparr>fs_data := take ?off ?d @ data @ drop (?off + length data) ?d\<rparr>"
    using assms(2) True by (simp_all add: write_frame_def Let_def linorder_not_less [symmetric])
  have room: "?off + ?n \<le> length ?d" using segment_room assms(1) True by blast
  have len: "length (fs_data shm') = length ?d" using room True by (simp add: s)
  have here: "take (length data) (buffer_of shm' i) = data"
    using room True by (simp add: buffer_of_def s min_def)
  have rest: "buffer_of shm' i = data @ drop (length data) (buffer_of shm i)"
    using room True by (simp add: buffer_of_def s min_def drop_take add.commute)
  have others: "buffer_of shm' j = buffer_of shm j" if j: "j < fs_buffers shm" "j \<noteq> i" for j
  proof (cases "j < i")
    case True
    then have "Suc (unat j) \<le> unat i" by (simp add: word_less_nat_alt)
    then have "Suc (unat j) * ?n \<le> ?off" by (rule mult_le_mono1)
    with room show ?thesis by (simp add: buffer_of_def s drop_take min_def)
  next
    case False
    then have "Suc (unat i) \<le> unat j" using j(2) by (simp add: word_less_nat_alt word_unat_eq_iff)
    then have "Suc (unat i) * ?n \<le> unat j * ?n" by (rule mult_le_mono1)
    then have "?n + ?off \<le> unat j * ?n" by simp
    then have "?off + length data \<le> unat j * ?n" "?off \<le> unat j * ?n" using True by linarith+
    then show ?thesis using room by (simp add: buffer_of_def s min_def)
  qed
  from r s len here rest others assms(1) True show ?thesis by (simp add: segment_ok_def)
qed

text \<open>What the client sends of a frame, and where.\<close>

lemma place_frame_cases:
  assumes "client_ok c" and "place_frame data c = (r, c')"
  shows "client_ok c' \<and> rk_stream c' = rk_stream c \<and> rk_initialized c' = rk_initialized c"
  using assms write_frame_cases
  by (fastforce simp: place_frame_def client_ok_def Let_def split: option.splits sum.splits prod.splits)

lemma client_init_ok:
  assumes "client_ok c" and "client_init io codec conn os c = (r, c')"
  shows "client_ok c'"
proof (cases conn)
  case (Inr s)
  obtain shm c1 where c1: "setup_frame_shm os (c \<lparr>rk_stream := Some s\<rparr>) = (shm, c1)" by force
  have "client_ok c1"
    using c1 assms(1) frame_shm_create_ok
    by (fastforce simp: setup_frame_shm_def client_ok_def split: option.splits sum.splits)
  then show ?thesis
    using assms(2) Inr c1
    by (auto simp: client_init_def client_ok_def split: prod.splits sum.splits if_splits dest!: ask_frame)
qed (use assms in \<open>simp add: client_init_def\<close>)

lemma client_infer_ok:
  assumes "client_ok c" and "client_infer io codec now f c = (r, c')"
  shows "client_ok c' \<and> rk_initialized c' = rk_initialized c"
proof (cases "rk_initialized c")
  case True
  obtain p c1 where c1: "place_frame (frame_data f) c = (p, c1)" by force
  note placed = place_frame_cases [OF assms(1) c1]
  show ?thesis
    using assms(2) True c1 placed
    by (auto simp: client_infer_def client_ok_def split: prod.splits sum.splits if_splits dest!: ask_frame)
qed (use assms in \<open>simp add: client_infer_def\<close>)

section \<open>Sessions\<close>

text \<open>A frame can be sent when it fits the buffers of the segment, if there is one.\<close>

definition fits :: "'s rknn_client \<Rightarrow> frame \<Rightarrow> bool" where
  "fits c f \<longleftrightarrow> (case rk_frame_shm c of
     None \<Rightarrow> True | Some shm \<Rightarrow> segment_ok shm \<and> length (frame_data f) \<le> fs_frame_size shm)"

lemma place_frame_fits:
  assumes "fits c f"
  obtains b64 buf c' where "place_frame (frame_data f) c = (Inr (b64, buf), c')"
    and "rk_stream c' = rk_stream c" and "rk_initialized c' = rk_initialized c"
    and "\<And>g. fits c g \<Longrightarrow> fits c' g"
proof (cases "rk_frame_shm c")
  case None
  then show ?thesis using that by (auto simp: place_frame_def)
next
  case (Some shm)
  define i where "i = rk_shm_buf_cursor c mod fs_buffers shm"
  obtain r shm' where w: "write_frame i (frame_data f) shm = (r, shm')" by force
  have ok: "segment_ok shm" "length (frame_data f) \<le> fs_frame_size shm"
    using assms Some by (simp_all add: fits_def)
  have "i < fs_buffers shm" using ok(1) by (simp add: i_def segment_ok_def word_mod_less_divisor word_neq_0_conv)
  then have "r = Inr ()" using w ok(2) by (auto simp: write_frame_def Let_def linorder_not_less [symmetric])
  then show ?thesis
    using that Some w write_frame_cases [OF ok(1) w]
    by (simp add: place_frame_def fits_def Let_def i_def)
qed

text \<open>One frame after the other; before each request the bytes given arrive.\<close>

definition arrive :: "u8 list \<Rightarrow> pipe rknn_client \<Rightarrow> pipe rknn_client" where
  "arrive bs c = c \<lparr>rk_stream := map_option (\<lambda>p. p \<lparr>p_in := p_in p @ bs\<rparr>) (rk_stream c)\<rparr>"

fun session ::
  "bridge_codec \<Rightarrow> (nat \<Rightarrow> utc) \<Rightarrow> (frame \<times> u8 list) list \<Rightarrow> pipe rknn_client
     \<Rightarrow> detection list inference_result list" where
  "session codec now [] c = []"
| "session codec now ((f, bs) # rest) c =
    (let (r, c') = client_infer pipe_ops codec now f (arrive bs c) in r # session codec now rest c')"

text \<open>The client between two requests: initialised, connected, no byte waiting.\<close>

definition idle_client :: "pipe rknn_client \<Rightarrow> bool" where
  "idle_client c \<longleftrightarrow> rk_initialized c \<and> (\<exists>p. rk_stream c = Some p \<and> p_in p = [])"

definition encodes :: "bridge_codec \<Rightarrow> bool" where
  "encodes codec \<longleftrightarrow> (\<forall>req. is_ok (enc_infer codec req))"

lemma fits_arrive [simp]: "fits (arrive bs c) f = fits c f"
  by (simp add: fits_def arrive_def)

lemma infer_answered:
  assumes c: "idle_client c" "fits c f" "encodes codec"
    and a: "well_formed_answer a" "dec_infer codec a = Inr resp" "fa_ok resp"
  obtains c' where "client_infer pipe_ops codec now f (arrive (framed a) c)
      = (Inr (detections_of_response now (fm_seq (frame_meta f)) resp), c')"
    and "idle_client c'" and "\<And>g. fits c g \<Longrightarrow> fits c' g"
proof -
  obtain p where p: "rk_stream c = Some p" "p_in p = []" "rk_initialized c"
    using c(1) by (auto simp: idle_client_def)
  let ?c = "arrive (framed a) c"
  obtain b64 buf c1 where c1: "place_frame (frame_data f) ?c = (Inr (b64, buf), c1)"
    "rk_stream c1 = rk_stream ?c" "rk_initialized c1 = rk_initialized ?c" "\<And>g. fits ?c g \<Longrightarrow> fits c1 g"
    using place_frame_fits [of ?c f] c(2) by auto
  obtain json where json: "enc_infer codec (infer_request_of f b64 buf) = Inr json"
    using c(3) by (auto simp: encodes_def elim!: is_okE [rotated])
  have s: "rk_stream c1 = Some (p \<lparr>p_in := framed a @ []\<rparr>)" using c1(2) p by (simp add: arrive_def)
  have i: "rk_initialized ?c" "rk_initialized c1" using c1(3) p(3) by (simp_all add: arrive_def)
  let ?c2 = "c1 \<lparr>rk_stream := Some \<lparr>p_in = [], p_out = p_out p @ framed json\<rparr>\<rparr>"
  have "send_recv pipe_ops json c1 = (Inr a, ?c2)"
    using exchange_framed [OF a(1), of "p \<lparr>p_in := framed a @ []\<rparr>" "[]" json] s
    by (simp add: send_recv_def)
  then have "client_infer pipe_ops codec now f ?c
      = (Inr (detections_of_response now (fm_seq (frame_meta f)) resp), ?c2)"
    using a c1(1) i json by (simp add: client_infer_def ask_def)
  moreover have "idle_client ?c2" using i by (simp add: idle_client_def)
  moreover have "fits ?c2 g" if "fits c g" for g
  proof -
    from c1(4) [of g] that have "fits c1 g" by simp
    then show ?thesis by (simp add: fits_def)
  qed
  ultimately show ?thesis using that by blast
qed

lemma infer_timed_out:
  assumes c: "idle_client c" "fits c f" "encodes codec"
  obtains e c' where "client_infer pipe_ops codec now f c = (Inl e, c')"
    and "idle_client c'" and "\<And>g. fits c g \<Longrightarrow> fits c' g"
proof -
  obtain p where p: "rk_stream c = Some p" "p_in p = []" "rk_initialized c"
    using c(1) by (auto simp: idle_client_def)
  obtain b64 buf c1 where c1: "place_frame (frame_data f) c = (Inr (b64, buf), c1)"
    "rk_stream c1 = rk_stream c" "rk_initialized c1 = rk_initialized c" "\<And>g. fits c g \<Longrightarrow> fits c1 g"
    using place_frame_fits [of c f] c(2) by auto
  obtain json where json: "enc_infer codec (infer_request_of f b64 buf) = Inr json"
    using c(3) by (auto simp: encodes_def elim!: is_okE [rotated])
  let ?c2 = "c1 \<lparr>rk_stream := Some \<lparr>p_in = [], p_out = p_out p @ framed json\<rparr>\<rparr>"
  have "send_recv pipe_ops json c1 = (Inl (BridgeProtocol (''read length: '' @ ''timed out'')), ?c2)"
    using exchange_empty [OF p(2)] c1(2) p(1) by (simp add: send_recv_def)
  then have "client_infer pipe_ops codec now f c = (Inl (BridgeProtocol (''read length: '' @ ''timed out'')), ?c2)"
    using c1(1) p(3) json by (simp add: client_infer_def ask_def)
  moreover have "idle_client ?c2" using c1(3) p(3) by (simp add: idle_client_def)
  moreover have "fits ?c2 g" if "fits c g" for g
  proof -
    from c1(4) [of g] that have "fits c1 g" by simp
    then show ?thesis by (simp add: fits_def)
  qed
  ultimately show ?thesis using that by blast
qed

text \<open>C13: An answer that arrives after its request timed out is taken for the answer to the next frame:
  from then on every frame gets the detections of the frame before it, stamped with its own
  sequence number.  (The client compares no sequence numbers and keeps the stream after an error.)
\<close>

theorem late_answers_shift:
  assumes "idle_client c" and "encodes codec"
    and "fits c f" and "\<And>g. g \<in> set fs \<Longrightarrow> fits c g"
    and "\<And>g. well_formed_answer (answer g)"
    and "\<And>g. dec_infer codec (answer g) = Inr (resp g)" and "\<And>g. fa_ok (resp g)"
  shows "\<exists>e. session codec now ((f, []) # map2 (\<lambda>before g. (g, framed (answer before))) (f # fs) fs) c
    = Inl e # map2 (\<lambda>before g. Inr (detections_of_response now (fm_seq (frame_meta g)) (resp before))) (f # fs) fs"
proof -
  have shifted: "session codec now (map2 (\<lambda>before g. (g, framed (answer before))) (f # fs) fs) c
      = map2 (\<lambda>before g. Inr (detections_of_response now (fm_seq (frame_meta g)) (resp before))) (f # fs) fs"
    if "idle_client c" "\<And>g. g \<in> set fs \<Longrightarrow> fits c g" for f fs c
    using that
  proof (induction fs arbitrary: f c)
    case (Cons g fs)
    obtain c' where "client_infer pipe_ops codec now g (arrive (framed (answer f)) c)
        = (Inr (detections_of_response now (fm_seq (frame_meta g)) (resp f)), c')"
      and c': "idle_client c'" "\<And>h. fits c h \<Longrightarrow> fits c' h"
      using infer_answered [of c g codec "answer f" "resp f" now] Cons.prems assms by auto
    moreover have "session codec now (map2 (\<lambda>before g. (g, framed (answer before))) (g # fs) fs) c'
        = map2 (\<lambda>before g. Inr (detections_of_response now (fm_seq (frame_meta g)) (resp before))) (g # fs) fs"
      by (rule Cons.IH) (use c' Cons.prems in auto)
    ultimately show ?case by simp
  qed simp
  obtain e c' where first: "client_infer pipe_ops codec now f c = (Inl e, c')"
    and c': "idle_client c'" "\<And>g. fits c g \<Longrightarrow> fits c' g"
    using infer_timed_out [OF assms(1) assms(3) assms(2)] by metis
  have "arrive [] c = c" using assms(1) by (auto simp: arrive_def idle_client_def)
  then have "session codec now ((f, []) # map2 (\<lambda>before g. (g, framed (answer before))) (f # fs) fs) c
    = Inl e # session codec now (map2 (\<lambda>before g. (g, framed (answer before))) (f # fs) fs) c'"
    by (simp add: first)
  moreover have "session codec now (map2 (\<lambda>before g. (g, framed (answer before))) (f # fs) fs) c'
    = map2 (\<lambda>before g. Inr (detections_of_response now (fm_seq (frame_meta g)) (resp before))) (f # fs) fs"
    by (rule shifted) (use c' assms(4) in auto)
  ultimately show ?thesis by metis
qed

text \<open>A bridge that answers every frame with one detection, the answer naming frame 1.\<close>

definition sample_response :: infer_response where
  "sample_response = \<lparr>fa_ok = True, fa_error = [], fa_frame_seq = 1, fa_latency_ms = 40,
     fa_detections = [\<lparr>dj_bbox = \<lparr>b_x = 10, b_y = 20, b_width = 5, b_height = 5\<rparr>,
       dj_class = ''person'', dj_class_id = 0, dj_confidence = Fin 1\<rparr>]\<rparr>"

definition sample_codec :: bridge_codec where
  "sample_codec = \<lparr>enc_init = (\<lambda>_. Inr ''i''), enc_infer = (\<lambda>_. Inr ''q''), enc_health = Inr ''h'',
     enc_shutdown = Inr ''s'', dec_init = (\<lambda>_. Inl ''no''), dec_infer = (\<lambda>_. Inr sample_response),
     dec_health = (\<lambda>_. Inl ''no'')\<rparr>"

definition sample_client :: "pipe rknn_client" where
  "sample_client = (client_new bridge_client_config_default)
     \<lparr>rk_initialized := True, rk_stream := Some \<lparr>p_in = [], p_out = []\<rparr>\<rparr>"

definition sample_frame :: "u64 \<Rightarrow> frame" where
  "sample_frame seq = \<lparr>frame_data = [1, 2, 3],
     frame_meta = \<lparr>fm_width = 1, fm_height = 1, fm_format = Rgb24, fm_captured_at = 0, fm_seq = seq\<rparr>\<rparr>"

theorem late_answers_shift_witness:
  "\<exists>e. session sample_codec (\<lambda>_. 0)
      [(sample_frame 1, []), (sample_frame 2, framed ''a''), (sample_frame 3, framed ''a'')] sample_client
    = [Inl e, Inr (detections_of_response (\<lambda>_. 0) 2 sample_response),
       Inr (detections_of_response (\<lambda>_. 0) 3 sample_response)]"
proof -
  have "idle_client sample_client" "encodes sample_codec" "\<And>g. fits sample_client g"
    "well_formed_answer ''a''" "fa_ok sample_response"
    "\<And>a. dec_infer sample_codec a = Inr sample_response"
    by (simp_all add: idle_client_def encodes_def fits_def sample_client_def sample_codec_def
        client_new_def well_formed_answer_def max_response_def bytes_of_def sample_response_def)
  from late_answers_shift [of sample_client sample_codec "sample_frame 1" "[sample_frame 2, sample_frame 3]"
      "\<lambda>_. ''a''" "\<lambda>_. sample_response" "\<lambda>_. 0", OF this(1,2,3,3,4,6,5)]
  show ?thesis by (simp add: sample_frame_def)
qed

end
