(* ===== verification/Letterbox.thy ===== *)
theory Letterbox
  imports Yolo
begin

text \<open>
  The letterbox of \<open>crates/yolov8/src/lib.rs\<close> never panics: for every frame of up to 16384 pixels
  in either direction the scaled image and its padding stay inside the network's square, in spite of
  the roundings of the float computation, and the sampling stays inside the source.
\<close>

section \<open>Roundings\<close>

lemma as_usize_round:
  "is_finite x \<Longrightarrow> as_usize (f32_round x) = nat (round_half (qval x))"
  by (cases x) (auto simp: as_usize_def f32_round_def truncq_def round_half_def)

lemma as_u32_round:
  assumes "is_finite x" "0 \<le> qval x" "qval x < 1024"
  shows "unat (as_u32 (f32_round x)) = nat (round_half (qval x))"
proof -
  have r: "0 \<le> round_half (qval x)" "round_half (qval x) \<le> 1024"
    using assms(2,3) by (simp_all add: round_half_def floor_le_iff)
  have "unat (word_of_int k :: u32) = nat k" if "0 \<le> k" "k \<le> 1024" for k
    using that by (simp add: unat_eq_nat_uint uint_word_of_int_eq take_bit_int_eq_self)
  then show ?thesis
    using assms(1,2) r by (cases x) (auto simp: as_u32_def f32_round_def truncq_def round_half_def)
qed

lemma near_times_half:
  assumes "near x v e" "- 1024 < v - e" "v + e < 1024"
  shows "near (x * lit (1 / 2)) (v / 2) (e + ulp)"
proof -
  have x: "is_finite x" "v - e \<le> qval x" "qval x \<le> v + e" using assms(1) by (simp_all add: near_def)
  have l: "lit (1 / 2) = (Fin (1 / 2) :: f32)"
    using representable_half_int [of 1, where 'f = 32] by (simp add: lit_def rnd_representable)
  have "near (rnd (qval x * (1 / 2))) (qval x * (1 / 2)) ulp" using x assms by (intro rnd_near) linarith+
  moreover have "qval x = 0 \<and> x * lit (1 / 2) \<in> {Fin 0, NZero} \<or> x * lit (1 / 2) = rnd (qval x * (1 / 2))"
    using x(1) unfolding l by (auto simp: times_fl_def Let_def finite_not_nan signed_zero_def)
  ultimately have "near (x * lit (1 / 2)) (qval x * (1 / 2)) ulp" by (auto simp: near_def)
  then show ?thesis using x unfolding near_def by linarith
qed

section \<open>The scale\<close>

text \<open>The quotient \<open>640 / m\<close>, rounded: relative error at most \<open>2 ^ -23\<close>.\<close>

lemma quotient_640:
  assumes "0 < m" "m \<le> 16384"
  obtains s where "rnd (640 / of_nat m) = (Fin s :: f32)" "1 / 64 < s"
    "\<bar>s * of_nat m - 640\<bar> \<le> 640 / 2 ^ 23"
proof -
  define q :: rat where "q = 640 / of_nat m"
  define r where "r = rndq TYPE(32) q"
  have m: "(1::rat) \<le> of_nat m" "(of_nat m :: rat) \<le> 16384"
    using assms by (simp_all add: Suc_leI)
  have q: "640 / 16384 \<le> q" "q \<le> 640" "q * of_nat m = 640" using m by (simp_all add: q_def field_simps)
  have i: "2 powi ilog2 q \<le> q" by (rule ilog2_bounds) (use q in linarith)
  have "ilog2 (1 / 32) = - 5"
    by (rule ilog2_unique) (simp_all add: power_int_def power_one_over)
  moreover have "ilog2 (1 / 32) \<le> ilog2 q" by (rule ilog2_mono) (use q in linarith)+
  ultimately have "- 5 \<le> ilog2 q" by simp
  then have "lsb TYPE(32) q = ilog2 q - 23"
    using q by (simp add: lsb_def emin_def prec_def)
  then have "(2::rat) powi lsb TYPE(32) q = 2 powi ilog2 q / 2 ^ 23"
    by (simp add: power_int_diff)
  moreover have "\<bar>r - q\<bar> \<le> 2 powi lsb TYPE(32) q / 2" unfolding r_def by (rule rndq_error)
  ultimately have "\<bar>r - q\<bar> \<le> 2 powi ilog2 q / 8388608 / 2" by simp
  then have e: "\<bar>r - q\<bar> \<le> q / 8388608" using i q(1) by linarith
  then have "\<bar>r - q\<bar> * of_nat m \<le> q / 8388608 * of_nat m" by (intro mult_right_mono) simp_all
  moreover have "\<bar>r - q\<bar> * of_nat m = \<bar>r * of_nat m - 640\<bar>"
    using q(3) by (metis abs_mult abs_of_nat left_diff_distrib)
  ultimately have rel: "\<bar>r * of_nat m - 640\<bar> \<le> 640 / 2 ^ 23" using q(3) by simp
  have b: "1 / 64 < r" "r \<le> 1000" using e q(1,2) unfolding abs_le_iff by linarith+
  moreover have "(1024::rat) \<le> 2 powi emax TYPE(32)"
    using power_int_increasing [of 10 "emax TYPE(32)" "2::rat"] by (simp add: emax_def power_int_def)
  ultimately have "rnd q = (Fin r :: f32)" by (auto simp: rnd_def Let_def r_def)
  from that [OF this [unfolded q_def] b(1) rel] show ?thesis .
qed

lemma quotient_mono: "0 < j \<Longrightarrow> j \<le> k \<Longrightarrow> 640 / of_nat k \<le> (640 / of_nat j :: rat)"
  by (simp add: frac_le)

text \<open>The letterbox takes the quotient of the longer side.\<close>

lemma scale_of:
  assumes "0 < unat w" "0 < unat h" "unat w \<le> 16384" "unat h \<le> 16384"
  obtains s where "lp_scale (params_for_size w h) = Fin s" "1 / 64 < s"
    "\<bar>s * of_nat (max (unat w) (unat h)) - 640\<bar> \<le> 640 / 2 ^ 23"
proof -
  let ?m = "max (unat w) (unat h)"
  have "0 < ?m" "?m \<le> 16384" using assms by simp_all
  then obtain s where s: "rnd (640 / of_nat ?m) = (Fin s :: f32)" "1 / 64 < s"
    "\<bar>s * of_nat ?m - 640\<bar> \<le> 640 / 2 ^ 23"
    by (rule quotient_640)
  obtain a where a: "rnd (640 / of_nat (unat w)) = (Fin a :: f32)" using quotient_640 [of "unat w"] assms by metis
  obtain b where b: "rnd (640 / of_nat (unat h)) = (Fin b :: f32)" using quotient_640 [of "unat h"] assms by metis
  have t: "fl_of_nat input_size = (Fin 640 :: f32)"
    using representable_nat [of 640, where 'f = 32] by (simp add: fl_of_nat_def input_size_def rnd_representable)
  have d: "Fin 640 / u32_as_f32 v = (rnd (640 / of_nat (unat v)) :: f32)" if "0 < unat v" "unat v \<le> 16384" for v
  proof -
    have "Fin 640 / Fin (of_nat k) = (rnd (640 / of_nat k) :: f32)" if "0 < k" for k
      using that by (simp add: divide_fl_def Let_def)
    from this [OF that(1)] show ?thesis using that(2) u32_as_f32_exact [of v] by simp
  qed
  have "fmin (Fin a) (Fin b) = (Fin s :: f32)"
  proof (cases "unat h \<le> unat w")
    case True
    then have "rnd (640 / of_nat (unat w)) \<le> (rnd (640 / of_nat (unat h)) :: f32)"
      using assms(2) by (intro rnd_mono quotient_mono)
    moreover have "s = a" using s(1) a True by (simp add: max_def split: if_splits)
    ultimately show ?thesis unfolding a b by (simp add: fmin_def)
  next
    case False
    then have "rnd (640 / of_nat (unat h)) \<le> (rnd (640 / of_nat (unat w)) :: f32)"
      using assms(1) by (intro rnd_mono quotient_mono) simp_all
    moreover have "s = b" using s(1) b False by (simp add: max_def split: if_splits)
    ultimately show ?thesis unfolding a b by (simp add: fmin_def)
  qed
  moreover have "(1 / 2 ^ 126 :: rat) \<le> 1 / 64" by simp
  then have "fmax (Fin s) (Fin (1 / 2 ^ 126)) = (Fin s :: f32)" using s(2) by (simp add: fmax_def)
  ultimately have "lp_scale (params_for_size w h) = Fin s"
    using d [of w, unfolded a] d [of h, unfolded b] assms
    by (simp add: params_for_size_def compute_letterbox_def Let_def t)
  from that [OF this s(2,3)] show ?thesis .
qed

text \<open>A scaled side fits the square, and so does it with its padding.\<close>

definition side_ok :: "f32 \<Rightarrow> bool" where
  "side_ok x \<longleftrightarrow> is_finite x \<and> 0 \<le> qval x \<and> qval x \<le> 640 + 1 / 1024"

lemma scaled_side:
  assumes "n \<le> m" "0 < n" "m \<le> 16384" "1 / 64 < s" "\<bar>s * of_nat m - 640\<bar> \<le> 640 / 2 ^ 23"
  shows "side_ok (Fin (of_nat n) * Fin s)"
proof -
  have "of_nat n * s \<le> of_nat m * s" using assms by (intro mult_right_mono) simp_all
  moreover have "s * of_nat m \<le> 640 + 640 / 8388608" using assms(5) unfolding abs_le_iff by simp
  ultimately have u: "of_nat n * s \<le> 640 + 640 / 8388608" by (simp add: mult.commute)
  have p: "0 < of_nat n * s" using assms(2,4) by simp
  have x: "Fin (of_nat n) * Fin s = (rnd (of_nat n * s) :: f32)"
    using assms(2,4) by (simp add: times_fl_def Let_def)
  have "near (rnd (of_nat n * s) :: f32) (of_nat n * s) ulp" using u p by (intro rnd_near) linarith+
  then have f: "is_finite (rnd (of_nat n * s) :: f32)" "qval (rnd (of_nat n * s) :: f32) \<le> of_nat n * s + ulp"
    by (simp_all add: near_def)
  have "Fin 0 \<le> (rnd (of_nat n * s) :: f32)"
    using p by (intro rnd_ge_representable) (simp_all add: representable_def)
  then have "0 \<le> qval (rnd (of_nat n * s) :: f32)" using f(1) by (cases "rnd (of_nat n * s) :: f32") auto
  with f u show ?thesis by (simp add: side_ok_def x)
qed

lemma padded_side:
  assumes "side_ok x"
  shows "as_usize (f32_round ((Fin 640 - x) * lit (1 / 2))) + unat (as_u32 (f32_round x)) \<le> 640"
proof -
  define n where "n = qval x"
  define p where "p = qval ((Fin 640 - x) * lit (1 / 2))"
  have x: "is_finite x" "0 \<le> n" "n \<le> 640 + 1 / 1024" using assms by (simp_all add: side_ok_def n_def)
  have "near (Fin 640 - x) (640 - n) (0 + 0 + ulp)"
    by (rule near_diff) (use x in \<open>auto simp: near_def n_def\<close>)
  then have "near ((Fin 640 - x) * lit (1 / 2)) ((640 - n) / 2) (ulp + ulp)"
    using x by (intro near_times_half) simp_all
  then have p: "is_finite ((Fin 640 - x) * lit (1 / 2))" "p \<le> 320 - n / 2 + 1 / 16384"
    "320 - n / 2 - 1 / 16384 \<le> p"
    by (simp_all add: near_def p_def diff_divide_distrib)
  have p0: "- (1 / 1024) \<le> p" using p(3) x(3) by linarith
  have P: "as_usize (f32_round ((Fin 640 - x) * lit (1 / 2))) = nat (round_half p)"
    using as_usize_round [OF p(1)] by (simp add: p_def)
  have V: "unat (as_u32 (f32_round x)) = nat (round_half n)"
    using as_u32_round [of x] x by (simp add: n_def)
  have rn: "0 \<le> round_half n" "of_int (round_half n) \<le> n + 1 / 2"
    using x(2) of_int_floor_le [of "n + 1 / 2"] by (simp_all add: round_half_def)
  have rp: "0 \<le> round_half p" "of_int (round_half p) \<le> max 0 (p + 1 / 2)"
  proof -
    have "\<lceil>p - 1 / 2\<rceil> = 0" if "p < 0" using that p0 by (simp add: ceiling_eq_iff)
    then show "0 \<le> round_half p" "of_int (round_half p) \<le> max 0 (p + 1 / 2)"
      using of_int_floor_le [of "p + 1 / 2"] by (auto simp: round_half_def)
  qed
  have "round_half p + round_half n \<le> 640"
  proof (cases "n \<le> 639 + 1 / 2")
    case True
    then have "0 \<le> p + 1 / 2 \<or> p + 1 / 2 < 0" "of_int (round_half p) \<le> 320 - n / 2 + 1 / 16384 + 1 / 2"
      using rp(2) p(2) by (auto simp: max_def split: if_splits)
    then have "(of_int (round_half p + round_half n) :: rat) < of_int 641"
      using rn(2) True by simp
    then show ?thesis unfolding of_int_less_iff by simp
  next
    case False
    then have "of_int (round_half p) < (1 :: rat)" using rp(2) p(2) by (auto simp: max_def split: if_splits)
    then have "round_half p = 0" using rp(1) by simp
    moreover have "of_int (round_half n) < (641 :: rat)" using rn(2) x(3) by simp
    ultimately show ?thesis by simp
  qed
  then show ?thesis unfolding P V using rn(1) rp(1) by (simp flip: nat_add_distrib)
qed

section \<open>Rows\<close>

lemma gather_total:
  "\<forall>x \<in> set xs. (x + 1) * 3 \<le> length src \<Longrightarrow> \<exists>row. gather src xs = Some row \<and> length row = 3 * length xs"
proof (induction xs)
  case (Cons x xs)
  then obtain row where "gather src xs = Some row" "length row = 3 * length xs" by auto
  then show ?case using Cons.prems by (auto simp: slice_def)
qed simp

lemma letterbox_rows_total:
  assumes "\<And>ty. ty \<in> set tys \<Longrightarrow> \<exists>row. row_of ty = Some row \<and> offset ty + length row \<le> n"
    and "length out = n"
  shows "\<exists>out'. letterbox_rows row_of offset tys out = Some out'"
  using assms
proof (induction tys arbitrary: out)
  case (Cons ty tys)
  obtain row where row: "row_of ty = Some row" "offset ty + length row \<le> n" using Cons.prems(1) by auto
  define out' where "out' = take (offset ty) out @ row @ drop (offset ty + length row) out"
  have w: "write_at (offset ty) row out = Some out'" "length out' = n"
    using row Cons.prems(2) by (simp_all add: write_at_def out'_def)
  have "\<exists>out''. letterbox_rows row_of offset tys out' = Some out''"
    by (rule Cons.IH) (use Cons.prems w in auto)
  then show ?case using row w by simp
qed simp

lemma row_end:
  assumes "pad_y + ty < 640" "pad_x + len \<le> (640::nat)"
  shows "(pad_y + ty) * 640 * 3 + pad_x * 3 + 3 * len \<le> 640 * 640 * 3"
proof -
  have "(pad_y + ty) * 640 \<le> 639 * 640" using assms(1) by (intro mult_le_mono1) simp
  then have "(pad_y + ty) * 640 * 3 \<le> 639 * 640 * 3" by simp
  then show ?thesis using assms(2) by simp
qed

lemma source_slice:
  assumes "y < h" "length src = w * h * (3::nat)"
  shows "slice (y * w * 3) (w * 3) src = Some (take (w * 3) (drop (y * w * 3) src))"
    and "length (take (w * 3) (drop (y * w * 3) src)) = w * 3"
proof -
  have "(y + 1) * (w * 3) \<le> h * (w * 3)" using assms(1) by (intro mult_le_mono1) simp
  moreover have "(y + 1) * (w * 3) = y * w * 3 + w * 3" "h * (w * 3) = length src"
    using assms(2) by (simp_all add: algebra_simps)
  ultimately have "y * w * 3 + w * 3 \<le> length src" by metis
  then show "slice (y * w * 3) (w * 3) src = Some (take (w * 3) (drop (y * w * 3) src))"
    and "length (take (w * 3) (drop (y * w * 3) src)) = w * 3"
    by (simp_all add: slice_def)
qed

lemma source_index_less: "0 < unat n \<Longrightarrow> source_index u n t < unat n"
proof -
  assume n: "0 < unat n"
  then have "n \<noteq> 0" by auto
  then have "unat (n - 1) = unat n - 1" by (simp add: unat_minus_one)
  then show ?thesis using n \<open>n \<noteq> 0\<close> by (simp add: source_index_def min_def word_le_nat_alt) linarith
qed

section \<open>No panic\<close>

lemma unat_round_of_nat:
  "k \<le> 1000 \<Longrightarrow> unat (as_u32 (f32_round (Fin (of_nat k)))) = k"
proof -
  have "\<lfloor>of_nat k + 1 / 2 :: rat\<rfloor> = int k" by (rule floor_unique) simp_all
  then show "k \<le> 1000 \<Longrightarrow> ?thesis" by (subst as_u32_round) (simp_all add: round_half_def)
qed

lemma letterbox_ok:
  assumes "0 < unat w" "0 < unat h" "unat w \<le> 16384" "unat h \<le> 16384"
    and "length src = unat w * unat h * 3"
  shows "\<exists>out. letterbox src w h = Some (out, params_for_size w h)"
proof -
  let ?p = "params_for_size w h" and ?m = "max (unat w) (unat h)"
  obtain s where s: "lp_scale ?p = Fin s" "1 / 64 < s" "\<bar>s * of_nat ?m - 640\<bar> \<le> 640 / 2 ^ 23"
    using scale_of [OF assms(1-4)] .
  have m: "?m \<le> 16384" using assms by simp
  have exact: "u32_as_f32 w = Fin (of_nat (unat w))" "u32_as_f32 h = Fin (of_nat (unat h))"
    using assms u32_as_f32_exact by simp_all
  let ?nw = "u32_as_f32 w * lp_scale ?p" and ?nh = "u32_as_f32 h * lp_scale ?p"
  have sides: "side_ok ?nw" "side_ok ?nh"
    unfolding exact s(1) by (rule scaled_side [OF _ _ m s(2,3)]; use assms in simp)+
  have t: "fl_of_nat input_size = (Fin 640 :: f32)"
    using representable_nat [of 640, where 'f = 32] by (simp add: fl_of_nat_def input_size_def rnd_representable)
  have scale: "fst (compute_letterbox w h input_size) = lp_scale ?p"
    by (simp add: params_for_size_def split: prod.split)
  have pads: "lp_pad_x ?p = (Fin 640 - ?nw) * lit (1 / 2)" "lp_pad_y ?p = (Fin 640 - ?nh) * lit (1 / 2)"
    unfolding scale [symmetric] by (simp_all add: params_for_size_def compute_letterbox_def Let_def t)
  define vw where "vw = unat (as_u32 (f32_round ?nw))"
  define vh where "vh = unat (as_u32 (f32_round ?nh))"
  define px where "px = as_usize (f32_round (lp_pad_x ?p))"
  define py where "py = as_usize (f32_round (lp_pad_y ?p))"
  have fit: "px + vw \<le> 640" "py + vh \<le> 640"
    using padded_side [OF sides(1)] padded_side [OF sides(2)] by (simp_all add: pads px_def py_def vw_def vh_def)
  let ?out = "replicate (input_size * input_size * 3) pad_value"
  let ?unscale = "if Fin 0 < lp_scale ?p then Fin 1 / lp_scale ?p else Fin 0"
  let ?offset = "\<lambda>ty. (py + ty) * input_size * 3 + px * 3"
  let ?fast = "\<lambda>ty. slice (ty * unat w * 3) (unat w * 3) src"
  let ?slow = "\<lambda>ty. case slice (source_index ?unscale h ty * unat w * 3) (unat w * 3) src of
      None \<Rightarrow> None | Some src_row \<Rightarrow> gather src_row (map (source_index ?unscale w) [0..<vw])"
  have fast: "\<exists>out. letterbox_rows ?fast ?offset [0..<vh] ?out = Some out"
    if one: "feq (lp_scale ?p) (Fin 1)" and same: "vw = unat w"
  proof (rule letterbox_rows_total)
    fix ty assume "ty \<in> set [0..<vh]"
    have "s = 1" using one by (simp add: s(1) feq_def)
    define M :: rat where "M = of_nat ?m"
    have "M \<le> 1000" using s(3) [folded M_def] \<open>s = 1\<close> unfolding abs_le_iff by simp
    then have "of_nat ?m \<le> (of_nat 1000 :: rat)" by (simp only: M_def of_nat_numeral)
    then have "unat h \<le> 1000" unfolding of_nat_le_iff by simp
    moreover have "?nh = Fin (of_nat (unat h))"
    proof -
      have "Fin (of_nat k) * Fin 1 = (Fin (of_nat k) :: f32)" if "0 < k" "k \<le> 1000" for k
        using that representable_nat [of k, where 'f = 32] by (simp add: times_fl_def Let_def rnd_representable)
      from this [OF assms(2) calculation] show ?thesis by (simp only: exact s(1) \<open>s = 1\<close>)
    qed
    ultimately have "vh = unat h" unfolding vh_def by (simp only: unat_round_of_nat)
    then have ty: "ty < unat h" "py + ty < 640" using \<open>ty \<in> set [0..<vh]\<close> fit(2) by simp_all
    show "\<exists>row. ?fast ty = Some row \<and> ?offset ty + length row \<le> input_size * input_size * 3"
      using source_slice [OF ty(1) assms(5)] row_end [OF ty(2) fit(1)] same
      by (simp add: input_size_def mult.commute)
  qed simp
  have slow: "\<exists>out. letterbox_rows ?slow ?offset [0..<vh] ?out = Some out"
  proof (rule letterbox_rows_total)
    fix ty assume "ty \<in> set [0..<vh]"
    then have ty: "py + ty < 640" using fit(2) by simp
    let ?y = "source_index ?unscale h ty"
    let ?row = "take (unat w * 3) (drop (?y * unat w * 3) src)"
    have y: "?y < unat h" by (rule source_index_less [OF assms(2)])
    note row = source_slice [OF y assms(5)]
    have "(source_index u w t + 1) * 3 \<le> unat w * 3" for u t
      using source_index_less [OF assms(1), of u t] by (intro mult_le_mono1) simp
    then have "\<forall>x \<in> set (map (source_index ?unscale w) [0..<vw]). (x + 1) * 3 \<le> length ?row"
      unfolding row(2) by auto
    from gather_total [OF this] obtain r where "gather ?row (map (source_index ?unscale w) [0..<vw]) = Some r"
      "length r = 3 * vw" by auto
    then show "\<exists>row. ?slow ty = Some row \<and> ?offset ty + length row \<le> input_size * input_size * 3"
      using row(1) row_end [OF ty fit(1)] by (simp add: input_size_def)
  qed simp
  show ?thesis
    unfolding letterbox_def Let_def px_def [symmetric] py_def [symmetric] vw_def [symmetric] vh_def [symmetric]
    using fast slow assms(5) by auto
qed

section \<open>One size for every frame\<close>

lemma letterbox_rows_length: "letterbox_rows row_of offset tys out = Some out' \<Longrightarrow> length out' = length out"
proof (induction tys arbitrary: out)
  case (Cons ty tys)
  then show ?case
    by (auto simp: write_at_def split: option.splits if_splits)
qed simp

lemma letterbox_length:
  assumes "letterbox src w h = Some (lb, params)"
  shows "length lb = input_size * input_size * 3"
proof (rule ccontr)
  assume "length lb \<noteq> input_size * input_size * 3"
  then have "letterbox_rows row_of offset tys (replicate (input_size * input_size * 3) pad_value) \<noteq> Some lb"
    for row_of offset tys
    using letterbox_rows_length [of row_of offset tys "replicate (input_size * input_size * 3) pad_value" lb]
    by auto
  then show False using assms by (simp add: letterbox_def Let_def split: if_splits)
qed

end
