(* ===== verification/Detector_Properties.thy ===== *)
theory Detector_Properties
  imports Detector Bridge_Session Letterbox
begin

text \<open>
  What the detector guarantees, over the refinement of the frame ring (\<open>Shm_Refine\<close>): no slot stays
  held, an event describes exactly the next frame of the ring's history, the frame numbers of the
  events increase; what its figures show; how it throttles; and when the bridge's segment has room
  for its frames.
\<close>

section \<open>Letterboxed frames\<close>

lemma letterboxed_frame:
  assumes "letterboxed f = Some g"
  shows "length (frame_data g) = input_size * input_size * 3
    \<and> fm_seq (frame_meta g) = fm_seq (frame_meta f)"
  using assms letterbox_length by (auto simp: letterboxed_def)

section \<open>Taking frames from the ring\<close>

lemma acquire_cases:
  assumes rep: "ring_rep hist rg" and q: "quiescent rg"
  shows "acquire pid last_id stats rg =
    (if length hist \<le> unat last_id then (None, last_id, stats, rg)
     else if unat last_id + unat (capacity (rg_header rg)) < length hist
       then (None, of_nat (length hist), stats \<lparr>ds_jumps := ds_jumps stats + 1\<rparr>, rg)
     else (Some (guard_of hist rg (unat last_id)), of_nat (Suc (unat last_id)), stats,
           take_slot pid (slot_of (unat last_id) rg) rg))"
proof -
  have "unat (of_nat (length hist) :: u64) = length hist"
    using rep by (intro of_nat_u64) (simp add: ring_rep_def)
  then show ?thesis
    using next_after_cases [OF rep q, of pid last_id] next_after_cases [OF rep q, of pid "of_nat (length hist)"]
    by (simp add: acquire_def guard_of_def frame_view_of_def del: of_nat_Suc)
qed

text \<open>After a jump the newest frame itself is passed over: only a later one is taken.\<close>

lemma jump_skips_newest:
  assumes "ring_rep hist rg" "quiescent rg" "unat last_id + unat (capacity (rg_header rg)) < length hist"
    and "acquire pid last_id stats rg = (g, last', stats', rg')"
  shows "g = None \<and> unat last' = length hist"
proof -
  have "unat (of_nat (length hist) :: u64) = length hist"
    using assms(1) by (intro of_nat_u64) (simp add: ring_rep_def)
  then show ?thesis using acquire_cases [OF assms(1,2), of pid last_id stats] assms(3,4) by auto
qed

text \<open>Taking a frame in the loop, when nothing is pending.\<close>

lemma take_frame_cases:
  assumes "ring_rep hist rg" "quiescent rg" "dt_pending st = None"
    and "take_frame pid st rg = (g, st', rg')"
  shows "dt_pending st' = None \<and> dt_backend st' = dt_backend st \<and> unat (dt_last st) \<le> unat (dt_last st')
    \<and> (case g of
         None \<Rightarrow> rg' = rg
       | Some g' \<Rightarrow> unat (dt_last st) < length hist
           \<and> in_window hist rg (unat (dt_last st))
           \<and> g' = guard_of hist rg (unat (dt_last st))
           \<and> unat (dt_last st') = Suc (unat (dt_last st))
           \<and> rg' = take_slot pid (slot_of (unat (dt_last st)) rg) rg)"
proof -
  have L: "Suc (length hist) < 2 ^ 64" using assms(1) by (simp add: ring_rep_def)
  then have u: "unat (of_nat (length hist) :: u64) = length hist" by (intro of_nat_u64) simp
  have v: "unat (of_nat (Suc (unat (dt_last st))) :: u64) = Suc (unat (dt_last st))"
    if "unat (dt_last st) < length hist"
    using that L by (intro of_nat_u64) simp
  show ?thesis
    using assms(3,4) acquire_cases [OF assms(1,2), of pid "dt_last st" "dt_stats st"] u v
    by (auto simp: take_frame_def in_window_def split: if_splits prod.splits)
qed

lemma throttle_frame:
  assumes "throttle cfg inp st = (b, st')"
  shows "dt_pending st' = dt_pending st \<and> dt_last st' = dt_last st \<and> dt_backend st' = dt_backend st
    \<and> dt_last_frame_at st' = dt_last_frame_at st \<and> dt_stats st' = dt_stats st"
  using assms by (auto simp: throttle_def Let_def split: if_splits option.splits)

lemma publish_event_frame:
  assumes "publish_event cfg w h inp v dets st = (oc, st')"
  shows "dt_pending st' = dt_pending st \<and> dt_last st' = dt_last st \<and> dt_backend st' = dt_backend st
    \<and> (\<exists>snap. oc = Event \<lparr>df_frame_seq = fv_frame_id v, df_captured_at = ts_ns_to_datetime (fv_ts_ns v),
          df_detections = dets, df_frame_w = w, df_frame_h = h\<rparr> snap)"
  using assms by (auto simp: publish_event_def Let_def split: if_splits prod.splits)

lemma process_frame_frame:
  assumes "process_frame cfg ops w h fmt inp v raw st = (oc, st')"
  shows "dt_pending st' = dt_pending st \<and> dt_last st' = dt_last st
    \<and> (\<forall>ev snap. oc = Event ev snap \<longrightarrow>
         df_frame_seq ev = fv_frame_id v \<and> df_captured_at ev = ts_ns_to_datetime (fv_ts_ns v)
         \<and> (\<exists>prepared. preprocess_frame raw fmt (dc_backend cfg) = Some (Inr prepared)
              \<and> be_infer ops prepared (dt_backend st) = (Inr (df_detections ev), dt_backend st')))
    \<and> oc \<noteq> Exit \<and> oc \<noteq> Waiting \<and> oc \<noteq> Throttled"
  using assms
  by (auto simp: process_frame_def split: option.splits sum.splits prod.splits dest!: publish_event_frame)

section \<open>One iteration\<close>

lemma tick_releases:
  assumes "ring_rep hist rg" "quiescent rg" "dt_pending st = None"
    and "detector_tick cfg ops pid w h fmt inp st rg = (oc, st', rg')"
  shows "ring_rep hist rg' \<and> map ref_count (rg_slots rg') = map ref_count (rg_slots rg)
    \<and> dt_pending st' = None"
proof (cases "must_exit cfg (ti_now inp) st")
  case True
  then show ?thesis using assms by (simp add: detector_tick_def)
next
  case False
  obtain g st1 rg1 where t: "take_frame pid st rg = (g, st1, rg1)" by (cases "take_frame pid st rg") auto
  note tc = take_frame_cases [OF assms(1-3) t]
  show ?thesis
  proof (cases g)
    case None
    then show ?thesis using assms(1,4) False t tc by (simp add: detector_tick_def)
  next
    case (Some g')
    define k where "k = unat (dt_last st)"
    have g': "g' = guard_of hist rg k" "rg1 = take_slot pid (slot_of k rg) rg"
      using tc Some by (simp_all add: k_def)
    then have "g_slot g' = slot_of k rg" by (simp add: guard_of_def)
    then have "ring_rep hist (guard_drop g' rg1)"
      "map ref_count (rg_slots (guard_drop g' rg1)) = map ref_count (rg_slots rg)"
      using ring_rep_guard_drop [OF ring_rep_take [OF assms(1)]] take_drop_refs g'(2) by auto
    then show ?thesis
      using assms(4) False t Some tc
      by (auto simp: detector_tick_def Let_def split: prod.splits bool.splits
          dest!: throttle_frame process_frame_frame)
  qed
qed

lemma tick_event:
  assumes "ring_rep hist rg" "quiescent rg" "dt_pending st = None"
    and "detector_tick cfg ops pid w h fmt inp st rg = (Event ev snap, st', rg')"
  defines "k \<equiv> unat (dt_last st)"
  shows "k < length hist \<and> unat (df_frame_seq ev) = Suc k \<and> unat (dt_last st') = Suc k
    \<and> df_captured_at ev = int (unat (snd (hist ! k)))
    \<and> (\<exists>prepared. preprocess_frame
           \<lparr>frame_data = fst (hist ! k), frame_meta = to_metadata (frame_view_of hist rg k)\<rparr>
           fmt (dc_backend cfg) = Some (Inr prepared)
         \<and> be_infer ops prepared (dt_backend st) = (Inr (df_detections ev), dt_backend st'))"
proof -
  have run: "\<not> must_exit cfg (ti_now inp) st" using assms(4) by (auto simp: detector_tick_def)
  obtain g st1 rg1 where t: "take_frame pid st rg = (g, st1, rg1)" by (cases "take_frame pid st rg") auto
  note tc = take_frame_cases [OF assms(1-3) t]
  obtain g' where g: "g = Some g'" using assms(4) run t by (cases g) (auto simp: detector_tick_def)
  obtain b st2 where th: "throttle cfg inp st1 = (b, st2)" by force
  have b: "b = False" using assms(4) run t g th by (cases b) (auto simp: detector_tick_def)
  have k: "k < length hist" "in_window hist rg k" "g' = guard_of hist rg k"
    "rg1 = take_slot pid (slot_of k rg) rg" "unat (dt_last st1) = Suc k" "dt_backend st1 = dt_backend st"
    using tc g by (simp_all add: k_def)
  have "Suc k < 2 ^ 64" using assms(1) k(1) by (simp add: ring_rep_def)
  then have id: "unat (fv_frame_id (g_view g')) = Suc k" "fv_ts_ns (g_view g') = snd (hist ! k)"
    using of_nat_u64 [of "Suc k"] by (simp_all add: k(3) guard_of_def frame_view_of_def del: of_nat_Suc)
  have raw: "to_frame g' rg1 = \<lparr>frame_data = fst (hist ! k), frame_meta = to_metadata (frame_view_of hist rg k)\<rparr>"
    using guard_data_of [OF assms(1) k(2), of pid "slot_of k rg"]
    by (simp add: to_frame_def k(3,4)) (simp add: guard_of_def)
  let ?st3 = "st2 \<lparr>dt_last_frame_at := ti_now inp,
    dt_stats := dt_stats st2 \<lparr>ds_frames_processed := ds_frames_processed (dt_stats st2) + 1\<rparr>\<rparr>"
  have "process_frame cfg ops w h fmt inp (g_view g') (to_frame g' rg1) ?st3 = (Event ev snap, st')"
    using assms(4) run t g th b by (auto simp: detector_tick_def Let_def split: prod.splits)
  from process_frame_frame [OF this] throttle_frame [OF th] show ?thesis
    using k id raw by (auto simp: ts_ns_to_datetime_def)
qed

section \<open>Runs\<close>

definition events :: "tick_outcome list \<Rightarrow> detections_frame list" where
  "events ocs = concat (map (\<lambda>oc. case oc of Event ev _ \<Rightarrow> [ev] | _ \<Rightarrow> []) ocs)"

text \<open>Each iteration finds the ring between two publications, holding some history.\<close>

definition ring_found :: "region \<Rightarrow> bool" where
  "ring_found rg \<longleftrightarrow> quiescent rg \<and> (\<exists>hist. ring_rep hist rg)"

lemma tick_last:
  assumes "ring_rep hist rg" "quiescent rg" "dt_pending st = None"
    and "detector_tick cfg ops pid w h fmt inp st rg = (oc, st', rg')"
  shows "unat (dt_last st) \<le> unat (dt_last st')"
proof (cases "must_exit cfg (ti_now inp) st")
  case False
  obtain g st1 rg1 where t: "take_frame pid st rg = (g, st1, rg1)" by (cases "take_frame pid st rg") auto
  note tc = take_frame_cases [OF assms(1-3) t]
  then show ?thesis
    using assms(4) False t
    by (cases g) (auto simp: detector_tick_def Let_def split: prod.splits bool.splits
      dest!: throttle_frame process_frame_frame)
qed (use assms in \<open>simp add: detector_tick_def\<close>)

text \<open>C16: Over a whole run the events come in the order of the frames: their frame numbers increase
  strictly and are all above the number the detector started from, so no frame is reported twice and
  none after a later one, whatever the producer does between the iterations.
\<close>

theorem events_in_order:
  assumes "dt_pending st = None" and "list_all (\<lambda>(inp, rg). ring_found rg) inputs"
    and "detector_loop cfg ops pid w h fmt inputs st = (ocs, st')"
  shows "sorted_wrt (<) (map (\<lambda>ev. unat (df_frame_seq ev)) (events ocs))
    \<and> list_all (\<lambda>ev. unat (dt_last st) < unat (df_frame_seq ev)) (events ocs)"
  using assms
proof (induction inputs arbitrary: st ocs st')
  case Nil
  then show ?case by (simp add: events_def)
next
  case (Cons x rest)
  obtain inp rg where x: "x = (inp, rg)" by force
  obtain hist where rep: "ring_rep hist rg" "quiescent rg"
    using Cons.prems(2) by (auto simp: x ring_found_def)
  obtain oc st1 rg1 where t: "detector_tick cfg ops pid w h fmt inp st rg = (oc, st1, rg1)"
    by (cases "detector_tick cfg ops pid w h fmt inp st rg") auto
  have p: "dt_pending st1 = None" using tick_releases [OF rep Cons.prems(1) t] by simp
  have l: "unat (dt_last st) \<le> unat (dt_last st1)" using tick_last [OF rep Cons.prems(1) t] .
  show ?case
  proof (cases "ends_loop oc")
    case True
    then show ?thesis using Cons.prems(3) by (cases oc) (auto simp: x t events_def)
  next
    case False
    obtain ocs1 st2 where r: "detector_loop cfg ops pid w h fmt rest st1 = (ocs1, st2)" by force
    have ocs: "ocs = oc # ocs1" using Cons.prems(3) False by (simp add: x t r)
    have IH: "sorted_wrt (<) (map (\<lambda>ev. unat (df_frame_seq ev)) (events ocs1))"
      "list_all (\<lambda>ev. unat (dt_last st1) < unat (df_frame_seq ev)) (events ocs1)"
      using Cons.IH [OF p _ r] Cons.prems(2) by simp_all
    show ?thesis
    proof (cases "\<exists>ev snap. oc = Event ev snap")
      case True
      then obtain ev snap where ev: "oc = Event ev snap" by blast
      have "unat (df_frame_seq ev) = unat (dt_last st1)" "unat (dt_last st) < unat (df_frame_seq ev)"
        using tick_event [OF rep Cons.prems(1) t [unfolded ev]] by simp_all
      then show ?thesis using IH by (auto simp: ocs ev events_def list_all_iff)
    next
      case no_event: False
      then have "events ocs = events ocs1" by (cases oc) (auto simp: ocs events_def)
      then show ?thesis using IH l by (auto simp: list_all_iff)
    qed
  qed
qed

section \<open>Figures\<close>

lemma push_lists:
  "length (mt_infer_us (metrics_push now i e m)) = Suc (length (mt_infer_us m))"
  by (simp add: metrics_push_def metrics_rotate_def Let_def)

lemma publish_event_samples:
  "publish_event cfg w h inp v dets st = (oc, st') \<Longrightarrow>
     length (mt_infer_us (dt_metrics st')) = Suc (length (mt_infer_us (dt_metrics st)))
     \<and> (\<exists>ev snap. oc = Event ev snap)"
  by (auto simp: publish_event_def metrics_snapshot_def push_lists Let_def split: if_splits prod.splits)

lemma process_frame_samples:
  "process_frame cfg ops w h fmt inp v raw st = (oc, st') \<Longrightarrow>
     length (mt_infer_us (dt_metrics st')) = length (mt_infer_us (dt_metrics st)) + length (events [oc])"
  by (auto simp: process_frame_def events_def split: option.splits sum.splits prod.splits
      dest!: publish_event_samples)

lemma take_frame_metrics: "take_frame pid st rg = (g, st', rg') \<Longrightarrow> dt_metrics st' = dt_metrics st"
  by (auto simp: take_frame_def split: option.splits prod.splits)

lemma throttle_metrics: "throttle cfg inp st = (b, st') \<Longrightarrow> dt_metrics st' = dt_metrics st"
  by (auto simp: throttle_def Let_def split: if_splits option.splits)

lemma tick_samples:
  "detector_tick cfg ops pid w h fmt inp st rg = (oc, st', rg') \<Longrightarrow>
     length (mt_infer_us (dt_metrics st')) = length (mt_infer_us (dt_metrics st)) + length (events [oc])"
  by (auto simp: detector_tick_def Let_def split: if_splits option.splits prod.splits bool.splits
      dest!: process_frame_samples throttle_metrics take_frame_metrics) (simp_all add: events_def)

text \<open>The samples of the measuring window are never dropped: after a run their number has grown by
  the number of events, whatever statuses were published in between.  (The component is meant to
  keep a window of 512; memory and the cost of a status grow without bound.)
\<close>

lemma samples_grow:
  "let (ocs, st') = detector_loop cfg ops pid w h fmt inputs st
   in length (mt_infer_us (dt_metrics st')) = length (mt_infer_us (dt_metrics st)) + length (events ocs)"
proof (induction inputs arbitrary: st)
  case Nil
  then show ?case by (simp add: events_def)
next
  case (Cons x rest)
  obtain inp rg where x: "x = (inp, rg)" by force
  obtain oc st1 rg1 where t: "detector_tick cfg ops pid w h fmt inp st rg = (oc, st1, rg1)"
    by (cases "detector_tick cfg ops pid w h fmt inp st rg") auto
  obtain ocs1 st2 where r: "detector_loop cfg ops pid w h fmt rest st1 = (ocs1, st2)" by force
  have "events (oc # ocs1) = events [oc] @ events ocs1" by (simp add: events_def)
  then show ?case
    using tick_samples [OF t] Cons.IH [of st1] r
    by (auto simp: x t events_def split: if_splits)
qed

text \<open>Once 512 samples are there, every push restarts the window: the rate is that of one frame.\<close>

lemma rate_of_one_frame:
  assumes "512 \<le> length (mt_infer_us m)"
  shows "metrics_fps later (metrics_push now i e m) =
    (let secs = as_secs_f32 (later - now) in if secs \<le> Fin 0 then Fin 0 else fl_of_nat 1 / secs)"
  using assms by (simp add: metrics_push_def metrics_rotate_def metrics_fps_def Let_def)

text \<open>A percentile is one of the samples.\<close>

lemma metrics_p_in: "stats \<noteq> [] \<Longrightarrow> metrics_p stats q \<in> set stats"
proof -
  assume "stats \<noteq> []"
  then have "min (percentile_index q (length stats)) (length stats - 1) < length (sort stats)"
    by (simp add: min_less_iff_disj)
  from nth_mem [OF this] \<open>stats \<noteq> []\<close> show ?thesis by (simp add: metrics_p_def Let_def)
qed

section \<open>Throttling\<close>

text \<open>The verdicts of the thermal branch over a list of iterations that have a frame.\<close>

fun throttle_run :: "detector_config \<Rightarrow> tick_input list \<Rightarrow> 'b detector_state \<Rightarrow> bool list" where
  "throttle_run cfg [] st = []"
| "throttle_run cfg (inp # inps) st = (case throttle cfg inp st of (skip, st') \<Rightarrow> skip # throttle_run cfg inps st')"

definition hot :: "detector_config \<Rightarrow> 'b detector_state \<Rightarrow> bool" where
  "hot cfg st \<longleftrightarrow> (\<exists>t. fst (dt_thermal st) = Some t \<and> dc_throttle_temp_c cfg \<le> t)"

definition hot_reading :: "detector_config \<Rightarrow> tick_input \<Rightarrow> bool" where
  "hot_reading cfg inp \<longleftrightarrow> (\<exists>t. ti_temperature inp = Some t \<and> dc_throttle_temp_c cfg \<le> t)"

lemma throttle_hot:
  assumes "Fin 0 < dc_throttle_temp_c cfg" "hot cfg st" "hot_reading cfg inp"
    and "unat (dt_throttle_skip st) + 1 < 2 ^ 32"
    and "throttle cfg inp st = (skip, st')"
  shows "hot cfg st' \<and> unat (dt_throttle_skip st') = Suc (unat (dt_throttle_skip st))
    \<and> skip = (Suc (unat (dt_throttle_skip st)) mod max (unat (dc_throttle_every_n cfg)) 1 \<noteq> 0)"
proof -
  let ?n = "max (dc_throttle_every_n cfg) 1" and ?s = "dt_throttle_skip st"
  obtain t where t: "fst (thermal_poll (ti_now inp) (ti_temperature inp) (dt_thermal st)) = Some t"
    "dc_throttle_temp_c cfg \<le> t"
    using assms(2,3)
    by (cases "dt_thermal st"; cases "from_secs 5 \<le> ti_now inp - snd (dt_thermal st)")
      (auto simp: thermal_poll_def hot_def hot_reading_def)
  have s: "saturating_add ?s 1 = ?s + 1" "unat (?s + 1) = Suc (unat ?s)"
    using assms(4) by (simp_all add: saturating_add_def unat_word_ariths)
  have n: "unat ?n = max (unat (dc_throttle_every_n cfg)) 1"
    by (simp add: max_def word_le_nat_alt)
  have "(?s + 1) mod ?n = 0 \<longleftrightarrow> Suc (unat ?s) mod unat ?n = 0"
    by (simp only: word_unat_eq_iff unat_mod s(2) unat_0)
  then show ?thesis
    using assms(1,5) t s n by (auto simp: throttle_def hot_def Let_def)
qed

text \<open>While the NPU is hot, of the frames that arrive exactly every \<open>throttle_every_n\<close>-th is
  processed (every frame when that number is 0 or 1), counted over the whole hot period: the
  verdict on frame \<open>k\<close> depends only on the number of hot frames before it.
\<close>

lemma throttle_every_nth:
  assumes "Fin 0 < dc_throttle_temp_c cfg" "hot cfg st" "list_all (hot_reading cfg) inps"
    and "unat (dt_throttle_skip st) + length inps < 2 ^ 32"
  shows "throttle_run cfg inps st =
    map (\<lambda>k. (unat (dt_throttle_skip st) + Suc k) mod max (unat (dc_throttle_every_n cfg)) 1 \<noteq> 0) [0..<length inps]"
  using assms(2-4)
proof (induction inps arbitrary: st)
  case (Cons inp inps)
  obtain skip st' where t: "throttle cfg inp st = (skip, st')" by force
  note hot = throttle_hot [OF assms(1) Cons.prems(1) _ _ t]
  have h: "hot cfg st'" "unat (dt_throttle_skip st') = Suc (unat (dt_throttle_skip st))"
    "skip = (Suc (unat (dt_throttle_skip st)) mod max (unat (dc_throttle_every_n cfg)) 1 \<noteq> 0)"
    using hot Cons.prems by simp_all
  have "throttle_run cfg inps st' = map (\<lambda>k. (unat (dt_throttle_skip st) + Suc (Suc k))
      mod max (unat (dc_throttle_every_n cfg)) 1 \<noteq> 0) [0..<length inps]"
    using Cons.IH [of st'] Cons.prems h by simp
  then show ?case
    using t h(3) by (simp add: upt_conv_Cons map_Suc_upt [symmetric] comp_def del: upt_Suc)
qed simp

text \<open>A throttled frame does not restart the clock of the quiet time-out.\<close>

lemma throttled_keeps_clock:
  assumes "detector_tick cfg ops pid w h fmt inp st rg = (Throttled, st', rg')"
  shows "dt_last_frame_at st' = dt_last_frame_at st"
proof -
  have "dt_last_frame_at st1 = dt_last_frame_at st" if "take_frame pid st rg = (g, st1, rg1)" for g st1 rg1
    using that by (auto simp: take_frame_def split: option.splits prod.splits)
  then show ?thesis
    using assms by (auto simp: detector_tick_def Let_def split: if_splits option.splits prod.splits bool.splits
        dest!: throttle_frame process_frame_frame)
qed

section \<open>The contract of one iteration\<close>

text \<open>C10: However an iteration ends (no frame, throttled, refused by the preprocessing, failed by the
  back end, published, or even a panic of the pixel routines), it leaves the ring as it found it:
  the same frames are readable and every reference count is back at its value, so the detector never
  blocks the producer.
\<close>

theorem detector_releases_frames:
  assumes "ring_rep hist rg" "quiescent rg" "dt_pending st = None"
    and "detector_tick cfg ops pid w h fmt inp st rg = (oc, st', rg')"
  shows "ring_rep hist rg' \<and> map ref_count (rg_slots rg') = map ref_count (rg_slots rg)
    \<and> dt_pending st' = None"
  using assms by (rule tick_releases)

text \<open>C11: An event describes the next frame of the ring's history and nothing else: it carries that
  frame's number and capture time, and its detections are what the back end answered for the
  preprocessed copy of that frame's bytes; the detector then continues with the frame after it.
\<close>

theorem event_of_next_frame:
  assumes "ring_rep hist rg" "quiescent rg" "dt_pending st = None"
    and "detector_tick cfg ops pid w h fmt inp st rg = (Event ev snap, st', rg')"
  shows "let k = unat (dt_last st); raw = \<lparr>frame_data = fst (hist ! k), frame_meta = to_metadata (frame_view_of hist rg k)\<rparr>
    in k < length hist \<and> unat (df_frame_seq ev) = Suc k \<and> unat (dt_last st') = Suc k
      \<and> df_captured_at ev = int (unat (snd (hist ! k)))
      \<and> (\<exists>prepared. preprocess_frame raw fmt (dc_backend cfg) = Some (Inr prepared)
           \<and> be_infer ops prepared (dt_backend st) = (Inr (df_detections ev), dt_backend st'))"
  using tick_event [OF assms] by (simp add: Let_def)


section \<open>Concrete runs\<close>

definition mock_config :: detector_config where
  "mock_config = detector_config_default \<lparr>dc_backend := MockBackend, dc_throttle_temp_c := Fin 0\<rparr>"

definition plain_input :: tick_input where
  "plain_input = \<lparr>ti_now = 0, ti_temperature = None, ti_infer_start = 0, ti_infer_end = 0,
     ti_unix_ns = 9, ti_publish_ok = True\<rparr>"

definition fresh_state :: "'b \<Rightarrow> 'b detector_state" where
  "fresh_state b = \<lparr>dt_backend = b, dt_stats = detector_stats_default, dt_metrics = metrics_new 0,
     dt_last = 0, dt_pending = None, dt_started = 0, dt_last_frame_at = 0, dt_last_status = 0,
     dt_thermal = (None, 0), dt_throttle_skip = 0\<rparr>"

definition one_frame_ring :: region where
  "one_frame_ring = snd (publish [1, 2, 3] 9 tiny_ring)"

lemma one_frame_ring_rep: "ring_rep [([1, 2, 3], 9)] one_frame_ring" "quiescent one_frame_ring"
  using publish_Published [OF tiny_rep(1,2) _ tiny_published] by (simp_all add: one_frame_ring_def)

lemma fresh_pending: "dt_pending (fresh_state b) = None"
  by (simp add: fresh_state_def)

lemma mock_tick:
  "\<exists>ev st' rg'. detector_tick mock_config mock_ops 8 1 1 StRgb24 plain_input (fresh_state mock_empty) one_frame_ring
     = (Event ev None, st', rg')"
proof -
  have "acquire 8 0 detector_stats_default one_frame_ring
    = (Some (guard_of [([1, 2, 3], 9)] one_frame_ring 0), 1, detector_stats_default,
       take_slot 8 (slot_of 0 one_frame_ring) one_frame_ring)"
    using acquire_cases [OF one_frame_ring_rep, of 8 0 detector_stats_default] one_frame_ring_rep(1)
    by (simp add: ring_rep_def ring_wf_def)
  then show ?thesis
    by (simp add: detector_tick_def must_exit_def mock_config_def detector_config_default_def plain_input_def
        fresh_state_def take_frame_def throttle_def process_frame_def preprocess_frame_def mock_ops_def
        publish_event_def detector_stats_default_def from_secs_def Let_def)
qed

theorem detector_releases_frames_witness:
  "map ref_count (rg_slots (snd (snd (detector_tick mock_config mock_ops 8 1 1 StRgb24 plain_input
       (fresh_state mock_empty) one_frame_ring)))) = map ref_count (rg_slots one_frame_ring)"
  using detector_releases_frames [OF one_frame_ring_rep fresh_pending, of mock_config mock_ops 8 1 1 StRgb24
      plain_input mock_empty] mock_tick by auto

theorem event_of_next_frame_witness:
  "\<exists>ev st' rg'. detector_tick mock_config mock_ops 8 1 1 StRgb24 plain_input (fresh_state mock_empty) one_frame_ring
     = (Event ev None, st', rg') \<and> unat (df_frame_seq ev) = 1 \<and> df_captured_at ev = 9"
  using event_of_next_frame [OF one_frame_ring_rep fresh_pending, of mock_config mock_ops 8 1 1 StRgb24
      plain_input mock_empty _ None] mock_tick by (fastforce simp: fresh_state_def Let_def)

theorem events_in_order_witness:
  "sorted_wrt (<) (map (\<lambda>ev. unat (df_frame_seq ev)) (events (fst (detector_loop mock_config mock_ops 8 1 1 StRgb24
     [(plain_input, one_frame_ring), (plain_input, one_frame_ring)] (fresh_state mock_empty)))))"
proof -
  have "list_all (\<lambda>(inp, rg). ring_found rg) [(plain_input, one_frame_ring), (plain_input, one_frame_ring)]"
    using one_frame_ring_rep by (auto simp: ring_found_def)
  from events_in_order [OF fresh_pending this, of mock_config mock_ops 8 1 1 StRgb24 mock_empty]
  show ?thesis by (metis prod.collapse)
qed

definition hot_config :: detector_config where
  "hot_config = detector_config_default \<lparr>dc_throttle_temp_c := Fin 85, dc_throttle_every_n := 3\<rparr>"

definition hot_input :: tick_input where
  "hot_input = plain_input \<lparr>ti_temperature := Some (Fin 90)\<rparr>"

lemma throttle_every_nth_witness:
  "throttle_run hot_config [hot_input, hot_input, hot_input, hot_input]
     (fresh_state () \<lparr>dt_thermal := (Some (Fin 90), 0)\<rparr>) = [True, True, False, True]"
proof -
  let ?st = "fresh_state () \<lparr>dt_thermal := (Some (Fin 90), 0)\<rparr>"
  have "Fin 0 < dc_throttle_temp_c hot_config" "hot hot_config ?st"
    "list_all (hot_reading hot_config) [hot_input, hot_input, hot_input, hot_input]"
    "unat (dt_throttle_skip ?st) + length [hot_input, hot_input, hot_input, hot_input] < 2 ^ 32"
    by (simp_all add: hot_config_def hot_def hot_reading_def hot_input_def fresh_state_def)
  from throttle_every_nth [OF this] show ?thesis
    by (simp add: hot_config_def fresh_state_def upt_rec)
qed

end
