(* ===== verification/Bridge_Server.thy ===== *)
theory Bridge_Server
  imports Bridge_Session
begin

text \<open>
  The other end of the socket, \<open>rknn-bridge/src\<close> (C++), as far as a frame travels: the framing of
  \<open>shm_server.cpp\<close>, the hand-written JSON search of \<open>bridge_main.cpp\<close>, the reader of the segment of
  \<open>shm_frame_source.cpp\<close>.  The text the client sends is what \<open>serde_json\<close> writes for the derived
  \<open>Serialize\<close> of \<open>InferRequest\<close>: the fields in their order, without spaces, absent options skipped.
  The theorem of this theory joins both sides: the network gets the frame that was handed to the
  client.
\<close>

section \<open>Framing\<close>

definition max_message :: nat where
  "max_message = 64 * 1024 * 1024"

text \<open>\<open>receive_message\<close> over the bytes that arrive; \<open>None\<close> closes the connection.\<close>

definition receive_message :: "u8 list \<Rightarrow> (string \<times> u8 list) option" where
  "receive_message bytes =
    (if length bytes < 4 then None
     else let len = unat (from_be_bytes (take 4 bytes)); body = drop 4 bytes
          in if len = 0 \<or> max_message < len then None
             else if length body < len then None
             else Some (text_of (take len body), drop len body))"

definition send_response :: "string \<Rightarrow> u8 list" where
  "send_response json = to_be_bytes (of_nat (length json)) @ bytes_of json"

section \<open>The segment\<close>

record frame_source =
  src_buffer_count :: u32
  src_frame_size :: u64

text \<open>\<open>ShmFrameSource::open\<close>, for a file of \<open>len\<close> bytes that could be opened and mapped.\<close>

definition source_open :: "nat \<Rightarrow> u32 \<Rightarrow> u64 \<Rightarrow> (string, frame_source) result" where
  "source_open len buffer_count frame_size =
    (if buffer_count = 0 \<or> frame_size = 0 then Inl ''shm frame source: zero buffer_count/frame_size''
     else let needed = ucast buffer_count * frame_size
          in if len < unat needed
             then Inl (''segment too small: '' @ dec len @ '' < '' @ dec (unat needed) @ '' (''
                       @ dec (unat buffer_count) @ ''x'' @ dec (unat frame_size) @ '')'')
             else Inr \<lparr>src_buffer_count = buffer_count, src_frame_size = frame_size\<rparr>)"

text \<open>\<open>read_frame\<close>: the mapping's bytes are an argument, they change under the reader.\<close>

definition read_frame :: "frame_source \<Rightarrow> u8 list \<Rightarrow> u32 \<Rightarrow> u64 \<Rightarrow> (string, u8 list) result" where
  "read_frame src mapping index expected =
    (if src_buffer_count src \<le> index
     then Inl (''buffer index '' @ dec (unat index) @ '' out of range (''
               @ dec (unat (src_buffer_count src)) @ '')'')
     else if src_frame_size src < expected
     then Inl (''expected '' @ dec (unat expected) @ '' > buffer size '' @ dec (unat (src_frame_size src)))
     else Inr (take (unat expected) (drop (unat index * unat (src_frame_size src)) mapping)))"

section \<open>Searching the JSON text\<close>

definition json_key :: "string \<Rightarrow> string" where
  "json_key k = [CHR 0x22] @ k @ [CHR 0x22, CHR 0x3A]"

definition json_string :: "string \<Rightarrow> string" where
  "json_string v = [CHR 0x22] @ v @ [CHR 0x22]"

text \<open>\<open>std::stoull\<close>: spaces, a sign, digits; no digits and a value beyond 64 bits throw.\<close>

definition is_space :: "char \<Rightarrow> bool" where
  "is_space c \<longleftrightarrow> c = CHR '' '' \<or> (9 \<le> (of_char c :: nat) \<and> (of_char c :: nat) \<le> 13)"

definition stoull :: "string \<Rightarrow> u64 option" where
  "stoull s =
    (let s1 = dropWhile is_space s;
         neg = (s1 \<noteq> [] \<and> hd s1 = CHR ''-'');
         s2 = (if s1 \<noteq> [] \<and> (hd s1 = CHR ''-'' \<or> hd s1 = CHR ''+'') then tl s1 else s1);
         ds = takeWhile is_digit s2; n = digits_value 0 ds
     in if ds = [] \<or> 2 ^ 64 \<le> n then None else Some (if neg then - of_nat n else of_nat n))"

definition find_uint64 :: "string \<Rightarrow> string \<Rightarrow> u64 option" where
  "find_uint64 key json =
    (case find_sub (json_key key) json of
       None \<Rightarrow> None
     | Some pos \<Rightarrow> stoull (drop (pos + length (json_key key)) json))"

record bridge_infer_request =
  bq_frame_seq :: u64
  bq_captured_at_ms :: u64
  bq_shm_buf :: u32

definition parse_infer_request :: "string \<Rightarrow> bridge_infer_request option" where
  "parse_infer_request json =
    (case find_uint64 ''frame_seq'' json of
       None \<Rightarrow> None
     | Some seq \<Rightarrow>
         (case find_uint64 ''captured_at_ms'' json of
            None \<Rightarrow> None
          | Some at_ms \<Rightarrow>
              Some \<lparr>bq_frame_seq = seq, bq_captured_at_ms = at_ms,
                    bq_shm_buf = (case find_uint64 ''frame_shm_buf'' json of Some b \<Rightarrow> ucast b | None \<Rightarrow> 0)\<rparr>))"

section \<open>Dispatch\<close>

datatype message_kind = MInit | MInfer | MHealth | MShutdown | MUnknown

definition has_type :: "string \<Rightarrow> string \<Rightarrow> bool" where
  "has_type t msg \<longleftrightarrow> find_sub (json_key ''type'' @ json_string t) msg \<noteq> None"

definition kind_of :: "string \<Rightarrow> message_kind" where
  "kind_of msg =
    (if has_type ''init'' msg then MInit
     else if has_type ''infer'' msg then MInfer
     else if has_type ''health'' msg then MHealth
     else if has_type ''shutdown'' msg then MShutdown
     else MUnknown)"

text \<open>
  The branch of \<open>infer\<close> in \<open>run_bridge\<close>: the bytes and the sequence number the network is run on.
  \<open>source\<close> is the open segment, with its bytes and the size declared by the client's \<open>init\<close>;
  \<open>None\<close> stands for the answer \<open>parse failed\<close>.
\<close>

definition frame_for_network ::
  "(frame_source \<times> u8 list \<times> u64) option \<Rightarrow> string \<Rightarrow> (u8 list \<times> u64) option" where
  "frame_for_network source msg =
    (case parse_infer_request msg of
       None \<Rightarrow> None
     | Some req \<Rightarrow>
         let inline = base64_decode (extract_frame_data_b64 msg)
         in Some (case source of
                    None \<Rightarrow> inline
                  | Some (src, mapping, expect) \<Rightarrow>
                      (case read_frame src mapping (bq_shm_buf req) expect of
                         Inr data \<Rightarrow> data | Inl _ \<Rightarrow> inline),
                  bq_frame_seq req))"

section \<open>The text of a request\<close>

definition infer_json :: "infer_request \<Rightarrow> string" where
  "infer_json req =
    ''{'' @ json_key ''type'' @ json_string ''infer'' @ '','' @ json_key ''frame_seq'' @ dec (unat (fq_frame_seq req))
    @ (case fq_frame_data_b64 req of
         None \<Rightarrow> [] | Some b \<Rightarrow> '','' @ json_key ''frame_data_b64'' @ json_string b)
    @ (case fq_frame_shm_buf req of
         None \<Rightarrow> [] | Some i \<Rightarrow> '','' @ json_key ''frame_shm_buf'' @ dec (unat i))
    @ '','' @ json_key ''frame_width'' @ dec (unat (fq_frame_width req))
    @ '','' @ json_key ''frame_height'' @ dec (unat (fq_frame_height req))
    @ '','' @ json_key ''frame_format'' @ json_string (fq_frame_format req)
    @ '','' @ json_key ''captured_at_ms'' @ dec (unat (fq_captured_at_ms req)) @ ''}''"

text \<open>The requests the client makes: base64 text or a buffer index, and a format without quotes.\<close>

definition client_request :: "infer_request \<Rightarrow> bool" where
  "client_request req \<longleftrightarrow>
     (\<forall>b. fq_frame_data_b64 req = Some b \<longrightarrow> CHR 0x22 \<notin> set b) \<and> CHR 0x22 \<notin> set (fq_frame_format req)"

section \<open>Lemmas on the search\<close>

text \<open>What follows the first occurrence.\<close>

definition after_sub :: "string \<Rightarrow> string \<Rightarrow> string option" where
  "after_sub needle s = map_option (\<lambda>p. drop (p + length needle) s) (find_sub needle s)"

lemma after_sub_nil [simp]: "after_sub (c # k) [] = None"
  by (simp add: after_sub_def)

lemma after_sub_cons [simp]:
  "after_sub (c # k) (d # s) = (if prefix (c # k) (d # s) then Some (drop (length k) s) else after_sub (c # k) s)"
  by (simp add: after_sub_def option.map_comp comp_def)

lemma after_sub_skip: "c \<notin> set s \<Longrightarrow> after_sub (c # k) (s @ t) = after_sub (c # k) t"
  by (induction s) (auto simp: prefix_def)

text \<open>The search of a key goes from token to token: over other keys, string values and numbers.\<close>

definition key_search :: "string \<Rightarrow> string \<Rightarrow> string \<Rightarrow> string option" where
  "key_search k w s = after_sub (json_key k @ w) s"

definition plain_key :: "string \<Rightarrow> bool" where
  "plain_key k \<longleftrightarrow> k \<noteq> [] \<and> hd k \<noteq> CHR 0x3A \<and> hd k \<noteq> CHR '','' \<and> CHR 0x22 \<notin> set k"

lemma prefix_delimited:
  "q \<notin> set k \<Longrightarrow> q \<notin> set k' \<Longrightarrow> prefix (k @ q # x) (k' @ q # y) \<longleftrightarrow> k = k' \<and> prefix x y"
proof (induction k arbitrary: k')
  case Nil
  then show ?case by (cases k') auto
next
  case (Cons a k)
  then show ?case by (cases k') auto
qed

lemma key_search_key:
  assumes "plain_key k" "plain_key k'"
  shows "key_search k w (json_key k' @ t)
    = (if k = k' \<and> prefix w t then Some (drop (length w) t) else key_search k w t)"
proof -
  obtain c r where k: "k = c # r" "c \<noteq> CHR 0x3A" using assms(1) by (cases k) (auto simp: plain_key_def)
  have q: "CHR 0x22 \<notin> set k" "CHR 0x22 \<notin> set k'" using assms by (simp_all add: plain_key_def)
  have "after_sub (CHR 0x22 # k @ [CHR 0x22, CHR 0x3A] @ w) (k' @ [CHR 0x22, CHR 0x3A] @ t)
      = after_sub (CHR 0x22 # k @ [CHR 0x22, CHR 0x3A] @ w) t"
    using k by (subst after_sub_skip [OF q(2)]) simp
  then show ?thesis
    using prefix_delimited [OF q, of "CHR 0x3A # w" "CHR 0x3A # t"]
    by (simp add: key_search_def json_key_def)
qed

lemma key_search_string:
  assumes "plain_key k" "CHR 0x22 \<notin> set v"
  shows "key_search k w (json_string v @ CHR '','' # t) = key_search k w t"
proof -
  obtain c r where k: "k = c # r" "c \<noteq> CHR '',''" using assms(1) by (cases k) (auto simp: plain_key_def)
  have q: "CHR 0x22 \<notin> set k" using assms by (simp add: plain_key_def)
  have "after_sub (CHR 0x22 # k @ [CHR 0x22, CHR 0x3A] @ w) (v @ [CHR 0x22, CHR '',''] @ t)
      = after_sub (CHR 0x22 # k @ [CHR 0x22, CHR 0x3A] @ w) t"
    using k by (subst after_sub_skip [OF assms(2)]) simp
  then show ?thesis
    using prefix_delimited [OF q assms(2), of "CHR 0x3A # w" "CHR '','' # t"]
    by (simp add: key_search_def json_key_def json_string_def)
qed

lemma key_search_char: "c \<noteq> CHR 0x22 \<Longrightarrow> key_search k w (c # t) = key_search k w t"
  by (simp add: key_search_def json_key_def)

lemma key_search_nil: "key_search k w [] = None"
  by (simp add: key_search_def json_key_def)

lemma find_uint64_after: "find_uint64 key json = Option.bind (key_search key [] json) stoull"
  by (simp add: find_uint64_def key_search_def after_sub_def split: option.split)

lemma has_type_after: "has_type t msg \<longleftrightarrow> key_search ''type'' (json_string t) msg \<noteq> None"
  by (simp add: has_type_def key_search_def after_sub_def)

lemma extract_after:
  "extract_frame_data_b64 json =
    (case key_search ''frame_data_b64'' [CHR 0x22] json of
       None \<Rightarrow> []
     | Some s \<Rightarrow> (case find_sub [CHR 0x22] s of None \<Rightarrow> [] | Some end \<Rightarrow> take end s))"
  by (simp add: extract_frame_data_b64_def key_search_def after_sub_def frame_data_key_def json_key_def Let_def
      split: option.split)

lemma prefix_json_string:
  "CHR 0x22 \<notin> set a \<Longrightarrow> CHR 0x22 \<notin> set b \<Longrightarrow> prefix (json_string a) (json_string b @ t) \<longleftrightarrow> a = b"
  using prefix_delimited [of "CHR 0x22" a b "[]" t] by (simp add: json_string_def)

lemma no_quote_digits: "CHR 0x22 \<notin> set (dec n)"
  using dec_digits [of "CHR 0x22" n] by (auto simp: is_digit_def)

lemma stoull_dec:
  assumes "n < 2 ^ 64" and "\<not> is_digit c"
  shows "stoull (dec n @ c # rest) = Some (of_nat n)"
proof -
  obtain d ds where dn: "dec n = d # ds" by (cases "dec n") auto
  have d: "is_digit d" using dec_digits [of d n] dn by simp
  then have "\<not> is_space d" "d \<noteq> CHR ''-''" "d \<noteq> CHR ''+''"
    by (auto simp: is_space_def is_digit_def)
  moreover have "takeWhile is_digit (dec n @ c # rest) = dec n"
    using assms(2) dec_digits [of _ n] by (subst takeWhile_append2) auto
  ultimately show ?thesis
    using assms(1) digits_value_dec [of n] dn by (simp add: stoull_def Let_def)
qed

lemma key_search_digits: "key_search k w (dec n @ t) = key_search k w t"
  using after_sub_skip [OF no_quote_digits] by (simp add: key_search_def json_key_def)

lemmas tokens = key_search_key key_search_string key_search_char key_search_nil key_search_digits
  plain_key_def prefix_json_string

lemma separators [simp]: "\<not> is_digit CHR '',''" "\<not> is_digit CHR ''}''"
  by (simp_all add: is_digit_def)

lemma stoull_u64 [simp]: "\<not> is_digit c \<Longrightarrow> stoull (dec (unat (w :: u64)) @ c # rest) = Some w"
  using unsigned_less [of w, where 'a = nat] by (simp add: stoull_dec)

lemma stoull_u32 [simp]: "\<not> is_digit c \<Longrightarrow> stoull (dec (unat (w :: u32)) @ c # rest) = Some (ucast w)"
  using unsigned_less [of w, where 'a = nat] by (simp add: stoull_dec)

lemma request_seq: "find_uint64 ''frame_seq'' (infer_json req) = Some (fq_frame_seq req)"
  by (simp add: find_uint64_after infer_json_def tokens split: option.split)

lemma request_time:
  "client_request req \<Longrightarrow> find_uint64 ''captured_at_ms'' (infer_json req) = Some (fq_captured_at_ms req)"
  by (simp add: find_uint64_after infer_json_def client_request_def tokens split: option.split)

lemma request_buffer:
  "client_request req \<Longrightarrow>
     find_uint64 ''frame_shm_buf'' (infer_json req) = map_option ucast (fq_frame_shm_buf req)"
  by (simp add: find_uint64_after infer_json_def client_request_def tokens split: option.split)

lemma request_inline:
  "client_request req \<Longrightarrow>
     extract_frame_data_b64 (infer_json req) = (case fq_frame_data_b64 req of None \<Rightarrow> [] | Some b \<Rightarrow> b)"
proof (cases "fq_frame_data_b64 req")
  case None
  assume "client_request req"
  with None show ?thesis
    by (simp add: extract_after infer_json_def client_request_def tokens split: option.split)
next
  case (Some b)
  assume "client_request req"
  then have b: "CHR 0x22 \<notin> set b" using Some by (simp add: client_request_def)
  have "drop (Suc 0) (json_string b) = b @ [CHR 0x22]" "length (json_string b) = length b + 2"
    "prefix [CHR 0x22] (json_string b @ t)" for t
    by (simp_all add: json_string_def)
  with Some b show ?thesis
    by (simp add: extract_after infer_json_def tokens find_sub_char)
qed

lemma request_kind: "client_request req \<Longrightarrow> kind_of (infer_json req) = MInfer"
  by (simp add: kind_of_def has_type_after infer_json_def client_request_def tokens split: option.split)

section \<open>From the client to the network\<close>

lemma dec_length: "n < 10 ^ Suc k \<Longrightarrow> length (dec n) \<le> Suc k"
proof (induction k arbitrary: n)
  case (Suc k)
  then have "n div 10 < 10 ^ Suc k" by simp
  from Suc.IH [OF this] show ?case by (subst dec.simps) auto
qed (subst dec.simps, simp)

lemma dec_u64_length: "length (dec (unat (w :: u64))) \<le> 20"
proof -
  have "unat w < 10 ^ Suc 19"
    by (rule less_le_trans [OF unsigned_less]) simp
  from dec_length [OF this] show ?thesis by simp
qed

lemma dec_u32_length: "length (dec (unat (w :: u32))) \<le> 10"
proof -
  have "unat w < 10 ^ Suc 9"
    by (rule less_le_trans [OF unsigned_less]) simp
  from dec_length [OF this] show ?thesis by simp
qed

lemma receive_framed_message:
  assumes "json \<noteq> []" "length json \<le> max_message"
  shows "receive_message (framed json) = Some (json, [])"
proof -
  have "unat (of_nat (length json) :: u32) = length json"
    using assms(2) by (simp add: max_message_def unat_of_nat take_bit_nat_eq_self)
  then show ?thesis using assms by (simp add: receive_message_def framed_def Let_def)
qed

lemma exchange_writes: "p_out (snd (exchange pipe_ops json p)) = p_out p @ framed json"
  by (simp add: exchange_def receive_def receive_body_def framed_def Let_def split: option.split)

text \<open>What the bridge has open: the segment the client declared, opened with its count and size.\<close>

definition source_of :: "frame_shm option \<Rightarrow> (frame_source \<times> u8 list \<times> u64) option" where
  "source_of segment = map_option (\<lambda>shm.
     (\<lparr>src_buffer_count = fs_buffers shm, src_frame_size = of_nat (fs_frame_size shm)\<rparr>,
      fs_data shm, of_nat (fs_frame_size shm))) segment"

lemma source_opens:
  assumes "segment_ok shm" "length (fs_data shm) < 2 ^ 64"
  shows "source_open (length (fs_data shm)) (fs_buffers shm) (of_nat (fs_frame_size shm))
    = Inr (fst (the (source_of (Some shm))))"
proof -
  have n: "fs_buffers shm \<noteq> 0" "0 < fs_frame_size shm"
    and len: "length (fs_data shm) = fs_frame_size shm * unat (fs_buffers shm)"
    using assms(1) by (simp_all add: segment_ok_def)
  have "0 < unat (fs_buffers shm)" using n(1) by (simp add: unat_gt_0)
  then have "fs_frame_size shm \<le> length (fs_data shm)" using len by simp
  then have size: "fs_frame_size shm < 2 ^ 64" using assms(2) by simp
  have "(of_nat (fs_frame_size shm) :: u64) \<noteq> 0"
    using size n(2) by (simp add: word_unat_eq_iff unat_of_nat take_bit_nat_eq_self)
  moreover have "unat (ucast (fs_buffers shm) * of_nat (fs_frame_size shm) :: u64) \<le> length (fs_data shm)"
  proof -
    have "ucast (fs_buffers shm) * of_nat (fs_frame_size shm) = (of_nat (length (fs_data shm)) :: u64)"
      by (simp add: len mult.commute)
    then show ?thesis using assms(2) by (simp add: unat_of_nat take_bit_nat_eq_self)
  qed
  ultimately show ?thesis using n(1) by (simp add: source_open_def source_of_def Let_def)
qed

lemma infer_json_length:
  assumes "fq_frame_format req = format_str fmt"
    and "\<And>b. fq_frame_data_b64 req = Some b \<Longrightarrow> length b \<le> n"
  shows "length (infer_json req) \<le> n + 250"
proof -
  have "length (format_str fmt) \<le> 5" by (cases fmt) simp_all
  then show ?thesis
    using assms dec_u64_length [of "fq_frame_seq req"] dec_u64_length [of "fq_captured_at_ms req"]
      dec_u32_length [of "fq_frame_width req"] dec_u32_length [of "fq_frame_height req"]
      dec_u32_length [of "the (fq_frame_shm_buf req)"]
    by (cases "fq_frame_data_b64 req"; cases "fq_frame_shm_buf req")
      (simp_all add: infer_json_def json_key_def json_string_def)
qed

lemma client_request_of:
  "client_request (infer_request_of f (Some (base64_encode data)) buf)"
  "client_request (infer_request_of f None buf)"
  using no_quote [of data]
  by (cases "fm_format (frame_meta f)"; simp add: client_request_def infer_request_of_def Let_def)+

text \<open>What the buffer that is next holds behind its first \<open>n\<close> bytes.\<close>

definition remains :: "'s rknn_client \<Rightarrow> nat \<Rightarrow> u8 list" where
  "remains c n = (case rk_frame_shm c of
     None \<Rightarrow> [] | Some shm \<Rightarrow> drop n (buffer_of shm (rk_shm_buf_cursor c mod fs_buffers shm)))"

text \<open>What the network is run on, once the client has placed the frame.\<close>

lemma placed_frame_read:
  assumes "fits c f" and "\<And>shm. rk_frame_shm c = Some shm \<Longrightarrow> fs_frame_size shm < 2 ^ 64"
    and placed: "place_frame (frame_data f) c = (Inr (b64, buf), c')"
  defines "req \<equiv> infer_request_of f b64 buf"
  shows "client_request req \<and> (\<exists>data.
    frame_for_network (source_of (rk_frame_shm c')) (infer_json req) = Some (data, fm_seq (frame_meta f))
    \<and> take (length (frame_data f)) data = frame_data f
    \<and> data = frame_data f @ remains c (length (frame_data f))
    \<and> length data = (case rk_frame_shm c of
          None \<Rightarrow> length (frame_data f) | Some shm \<Rightarrow> fs_frame_size shm))"
proof (cases "rk_frame_shm c")
  case None
  then have b: "b64 = Some (base64_encode (frame_data f))" "buf = None" "c' = c"
    using placed by (auto simp: place_frame_def)
  then have r: "client_request req" by (simp add: req_def client_request_of)
  show ?thesis
    using r None b request_seq request_time [OF r] request_buffer [OF r] request_inline [OF r]
    by (simp add: frame_for_network_def parse_infer_request_def source_of_def decode_encode remains_def
        req_def infer_request_of_def Let_def)
next
  case (Some shm)
  define i where "i = rk_shm_buf_cursor c mod fs_buffers shm"
  obtain shm' where w: "write_frame i (frame_data f) shm = (Inr (), shm')"
    and b: "b64 = None" "buf = Some i" "rk_frame_shm c' = Some shm'"
    using placed Some by (auto simp: place_frame_def i_def Let_def split: prod.splits sum.splits)
  have ok: "segment_ok shm" using assms(1) Some by (simp add: fits_def)
  note wr = write_frame_cases [OF ok w]
  have size: "fs_frame_size shm < 2 ^ 64" using assms(2) Some by simp
  have r: "client_request req" using b by (simp add: req_def client_request_of)
  have u: "unat (of_nat (fs_frame_size shm) :: u64) = fs_frame_size shm"
    using size by (simp add: unat_of_nat take_bit_nat_eq_self)
  have len: "length (buffer_of shm' i) = fs_frame_size shm"
    using segment_room [of shm' i] wr by (simp add: buffer_of_def)
  have "ucast (ucast i :: u64) = i" by (rule bit_word_eqI) (simp add: bit_simps)
  then have "frame_for_network (source_of (rk_frame_shm c')) (infer_json req)
      = Some (buffer_of shm' i, fm_seq (frame_meta f))"
    using r b wr u request_seq request_time [OF r] request_buffer [OF r]
    by (simp add: frame_for_network_def parse_infer_request_def source_of_def read_frame_def buffer_of_def
        req_def infer_request_of_def Let_def linorder_not_less [symmetric])
  moreover have "buffer_of shm' i = frame_data f @ remains c (length (frame_data f))"
    using wr Some by (simp add: remains_def i_def)
  ultimately show ?thesis using r Some len wr by simp
qed

lemma infer_reaches_network:
  assumes "rk_initialized c" and "rk_stream c = Some p" and "fits c f"
    and "\<And>req. enc_infer codec req = Inr (infer_json req)"
    and "length (frame_data f) \<le> 50000000"
    and "\<And>shm. rk_frame_shm c = Some shm \<Longrightarrow> fs_frame_size shm < 2 ^ 64"
    and "client_infer pipe_ops codec now f c = (r, c')"
  shows "\<exists>p' msg data. rk_stream c' = Some p' \<and> p_out p' = p_out p @ framed msg
    \<and> receive_message (framed msg) = Some (msg, []) \<and> kind_of msg = MInfer
    \<and> frame_for_network (source_of (rk_frame_shm c')) msg = Some (data, fm_seq (frame_meta f))
    \<and> take (length (frame_data f)) data = frame_data f
    \<and> data = frame_data f @ remains c (length (frame_data f))
    \<and> length data = (case rk_frame_shm c of
          None \<Rightarrow> length (frame_data f) | Some shm \<Rightarrow> fs_frame_size shm)"
proof -
  obtain b64 buf c1 where placed: "place_frame (frame_data f) c = (Inr (b64, buf), c1)"
    and s: "rk_stream c1 = Some p"
    using place_frame_fits [OF assms(3)] assms(2) by metis
  define req where "req = infer_request_of f b64 buf"
  note read = placed_frame_read [OF assms(3) assms(6) placed, folded req_def]
  have sent: "rk_stream c' = Some (snd (exchange pipe_ops (infer_json req) p))" "rk_frame_shm c' = rk_frame_shm c1"
    using assms(1,4,7) placed s
    by (auto simp: client_infer_def ask_def send_recv_def req_def split: prod.splits sum.splits if_splits)
  have "length (infer_json req) \<le> 4 * ((length (frame_data f) + 2) div 3) + 250"
    by (rule infer_json_length [where fmt = "fm_format (frame_meta f)"])
      (use placed in \<open>auto simp: req_def infer_request_of_def place_frame_def base64_length Let_def
         split: option.splits prod.splits sum.splits\<close>)
  then have "length (infer_json req) \<le> max_message" using assms(5) by (simp add: max_message_def)
  moreover have "infer_json req \<noteq> []" by (simp add: infer_json_def)
  ultimately show ?thesis
    using read sent exchange_writes [of "infer_json req" p] receive_framed_message [of "infer_json req"]
      request_kind [of req] by auto
qed

text \<open>A frame handed to the client reaches the network.  Whatever the bridge answers or fails to
  answer, the client has written one message; the bridge's framing takes it off the socket, its
  dispatcher recognises it, its search finds the frame's sequence number and the place of the
  pixels, and the network is run on exactly those pixels: through base64 they are all there is, in
  the segment they fill the beginning of the buffer, the rest of which is what it held before.
\<close>

lemma frame_reaches_network:
  assumes "rk_initialized c" and "rk_stream c = Some p" and "fits c f"
    and "\<And>req. enc_infer codec req = Inr (infer_json req)"
    and "length (frame_data f) \<le> 50000000"
    and "\<And>shm. rk_frame_shm c = Some shm \<Longrightarrow> fs_frame_size shm < 2 ^ 64"
    and "client_infer pipe_ops codec now f c = (r, c')"
  shows "\<exists>p' msg data. rk_stream c' = Some p' \<and> p_out p' = p_out p @ framed msg
    \<and> receive_message (framed msg) = Some (msg, []) \<and> kind_of msg = MInfer
    \<and> frame_for_network (source_of (rk_frame_shm c')) msg = Some (data, fm_seq (frame_meta f))
    \<and> take (length (frame_data f)) data = frame_data f
    \<and> data = frame_data f @ remains c (length (frame_data f))
    \<and> length data = (case rk_frame_shm c of
          None \<Rightarrow> length (frame_data f) | Some shm \<Rightarrow> fs_frame_size shm)"
  by (rule infer_reaches_network [OF assms])

definition wire_codec :: bridge_codec where
  "wire_codec = sample_codec \<lparr>enc_infer := (\<lambda>req. Inr (infer_json req))\<rparr>"

lemma frame_reaches_network_witness:
  "\<exists>p' msg. rk_stream (snd (client_infer pipe_ops wire_codec (\<lambda>_. 0) (sample_frame 7) sample_client)) = Some p'
    \<and> p_out p' = framed msg \<and> receive_message (framed msg) = Some (msg, [])
    \<and> frame_for_network None msg = Some ([1, 2, 3], 7)"
proof -
  have c: "rk_initialized sample_client" "rk_stream sample_client = Some \<lparr>p_in = [], p_out = []\<rparr>"
    "rk_frame_shm sample_client = None"
    by (simp_all add: sample_client_def client_new_def)
  have f: "fits sample_client (sample_frame 7)" "length (frame_data (sample_frame 7)) \<le> 50000000"
    "\<And>req. enc_infer wire_codec req = Inr (infer_json req)"
    "\<And>shm. rk_frame_shm sample_client = Some shm \<Longrightarrow> fs_frame_size shm < 2 ^ 64"
    by (simp_all add: fits_def c sample_frame_def wire_codec_def)
  obtain r c' where run: "client_infer pipe_ops wire_codec (\<lambda>_. 0) (sample_frame 7) sample_client = (r, c')"
    by force
  have "rk_frame_shm c' = None"
    using run c by (auto simp: client_infer_def place_frame_def split: prod.splits sum.splits if_splits
        dest!: ask_frame)
  moreover have "fm_seq (frame_meta (sample_frame 7)) = 7" "frame_data (sample_frame 7) = [1, 2, 3]"
    by (simp_all add: sample_frame_def)
  ultimately show ?thesis
    using frame_reaches_network [OF c(1,2) f(1,3,2,4) run] by (auto simp: c run source_of_def)
qed

end
