(* ===== verification/Bridge_Init.thy ===== *)
theory Bridge_Init
  imports Bridge_Server
begin

text \<open>
  The handshake with the NPU process: what \<open>serde_json\<close> writes of an \<open>InitRequest\<close>, the parser of
  \<open>init\<close> in \<open>bridge_main.cpp\<close> with its decimal numbers, the opening of the segment, and the state of
  the process over the messages of a connection.  The theorem: after the \<open>init\<close> of a new client the
  process has the client's segment open, or none when the client has none.
\<close>

section \<open>Decimal numbers\<close>

text \<open>
  \<open>std::stod\<close> on the numbers of a JSON text: spaces, a sign, digits with a fraction, an exponent; the
  nearest double.  No digits, and a value too large or too small for a double, throw.  The forms \<open>inf\<close>,
  \<open>nan\<close> and hexadecimal, which no JSON number has, are left out.
\<close>

fun split_sign :: "string \<Rightarrow> bool \<times> string" where
  "split_sign [] = (False, [])"
| "split_sign (c # s) =
     (if c = CHR ''-'' then (True, s) else if c = CHR ''+'' then (False, s) else (False, c # s))"

fun split_fraction :: "string \<Rightarrow> string \<times> string" where
  "split_fraction [] = ([], [])"
| "split_fraction (c # s) =
     (if c = CHR ''.'' then (takeWhile is_digit s, dropWhile is_digit s) else ([], c # s))"

fun exponent :: "string \<Rightarrow> int" where
  "exponent [] = 0"
| "exponent (c # s) =
     (if c = CHR ''e'' \<or> c = CHR ''E''
      then case split_sign s of (neg, t) \<Rightarrow>
             let n = int (digits_value 0 (takeWhile is_digit t)) in if neg then - n else n
      else 0)"

definition in_double_range :: "rat \<Rightarrow> bool" where
  "in_double_range q \<longleftrightarrow>
     (case rnd q :: f64 of Fin r \<Rightarrow> q = 0 \<or> r = q \<or> 2 powi (- 1022) \<le> \<bar>r\<bar> | _ \<Rightarrow> False)"

definition stod :: "string \<Rightarrow> f64 option" where
  "stod s =
    (case split_sign (dropWhile is_space s) of (neg, s1) \<Rightarrow>
     case split_fraction (dropWhile is_digit s1) of (fp, s2) \<Rightarrow>
       let ip = takeWhile is_digit s1;
           q = of_nat (digits_value 0 (ip @ fp)) * 10 powi (exponent s2 - int (length fp))
       in if (ip = [] \<and> fp = []) \<or> \<not> in_double_range q then None
          else Some (if neg then - rnd q else rnd q))"

lemma takeWhile_stop: "\<not> P c \<Longrightarrow> takeWhile P (s @ c # r) = takeWhile P s"
  by (induction s) auto

lemma dropWhile_stop: "\<not> P c \<Longrightarrow> dropWhile P (s @ c # r) = dropWhile P s @ c # r"
  by (induction s) auto

text \<open>What follows a comma or the end of the object is not looked at.\<close>

definition terminator :: "char \<Rightarrow> bool" where
  "terminator c \<longleftrightarrow> c = CHR '','' \<or> c = CHR ''}''"

lemma terminator_stops:
  "terminator c \<Longrightarrow> \<not> is_digit c \<and> \<not> is_space c \<and> c \<noteq> CHR ''-'' \<and> c \<noteq> CHR ''+'' \<and> c \<noteq> CHR ''.''
     \<and> c \<noteq> CHR ''e'' \<and> c \<noteq> CHR ''E''"
  by (auto simp: terminator_def is_digit_def is_space_def)

lemma split_sign_stop:
  "terminator c \<Longrightarrow> split_sign (s @ c # r) = (case split_sign s of (neg, t) \<Rightarrow> (neg, t @ c # r))"
  by (cases s) (auto dest: terminator_stops)

lemma split_fraction_stop:
  "terminator c \<Longrightarrow> split_fraction (s @ c # r) = (case split_fraction s of (fp, t) \<Rightarrow> (fp, t @ c # r))"
  by (cases s) (auto simp: takeWhile_stop dropWhile_stop dest: terminator_stops)

lemma exponent_stop: "terminator c \<Longrightarrow> exponent (s @ c # r) = exponent s"
  by (cases s) (auto simp: split_sign_stop takeWhile_stop case_prod_beta Let_def dest: terminator_stops)

lemma stod_stop: "terminator c \<Longrightarrow> stod (s @ c # r) = stod s"
  using terminator_stops [of c]
  by (simp add: stod_def split_sign_stop split_fraction_stop exponent_stop takeWhile_stop dropWhile_stop
      case_prod_beta Let_def)

lemma not_space_digit: "is_digit c \<Longrightarrow> \<not> is_space c"
  by (auto simp: is_space_def is_digit_def)

lemma stod_dec:
  assumes "n \<le> 2 ^ 53" and "terminator c"
  shows "stod (dec n @ c # rest) = Some (Fin (of_nat n))"
proof -
  note stops = terminator_stops [OF assms(2)]
  obtain d ds where dn: "dec n = d # ds" by (cases "dec n") auto
  have d: "is_digit d" using dec_digits [of d n] dn by simp
  have sign: "d \<noteq> CHR ''-''" "d \<noteq> CHR ''+''" using d by (auto simp: is_digit_def)
  have "split_sign (dropWhile is_space (dec n @ c # rest)) = (False, dec n @ c # rest)"
    using sign not_space_digit [OF d] by (simp add: dn)
  moreover have "takeWhile is_digit (dec n @ c # rest) = dec n"
    using stops dec_digits [of _ n] by (subst takeWhile_append2) auto
  moreover have "dropWhile is_digit (dec n @ c # rest) = c # rest"
    using stops dec_digits [of _ n] by (subst dropWhile_append2) auto
  moreover have "rnd (of_nat n) = (Fin (of_nat n) :: f64)"
    using assms(1) by (intro rnd_representable representable_nat_prec) (simp add: prec_def)
  ultimately show ?thesis
    using stops by (simp add: stod_def digits_value_dec in_double_range_def)
qed

text \<open>The casts of a double to an unsigned integer; a value out of range is undefined in C++.\<close>

definition double_to_word :: "f64 \<Rightarrow> 'w::len word" where
  "double_to_word d = (case d of Fin q \<Rightarrow> word_of_int (truncq q) | _ \<Rightarrow> 0)"

lemma double_to_word_nat: "double_to_word (Fin (of_nat n)) = of_nat n"
  by (simp add: double_to_word_def truncq_def)

lemma double_to_word_word: "double_to_word (Fin (unsigned (w :: 'w::len word))) = w"
  using double_to_word_nat [of "unat w", where 'a = 'w] by simp

section \<open>The parser of init\<close>

record bridge_init_request =
  bi_model_path :: string
  bi_input_width :: u32
  bi_input_height :: u32
  bi_input_format :: string
  bi_confidence_threshold :: f32
  bi_nms_threshold :: f32
  bi_frame_shm :: string
  bi_frame_shm_buffers :: u32
  bi_frame_shm_size :: u64

definition find_string :: "string \<Rightarrow> string \<Rightarrow> string option" where
  "find_string key json =
    (let needle = json_key key @ [CHR 0x22]
     in case find_sub needle json of
          None \<Rightarrow> None
        | Some pos \<Rightarrow> let s = drop (pos + length needle) json
                      in map_option (\<lambda>end. take end s) (find_sub [CHR 0x22] s))"

definition find_number :: "string \<Rightarrow> string \<Rightarrow> f64 option" where
  "find_number key json =
    (case find_sub (json_key key) json of
       None \<Rightarrow> None
     | Some pos \<Rightarrow> stod (drop (pos + length (json_key key)) json))"

definition number_or_zero :: "f64 option \<Rightarrow> 'w::len word" where
  "number_or_zero d = (case d of Some x \<Rightarrow> double_to_word x | None \<Rightarrow> 0)"

definition parse_init_request :: "string \<Rightarrow> bridge_init_request option" where
  "parse_init_request json =
    (case (find_string ''model_path'' json, find_number ''input_width'' json, find_number ''input_height'' json,
           find_string ''input_format'' json, find_number ''confidence_threshold'' json,
           find_number ''nms_threshold'' json) of
       (Some model, Some w, Some h, Some fmt, Some conf, Some nms) \<Rightarrow>
         Some \<lparr>bi_model_path = model, bi_input_width = double_to_word w, bi_input_height = double_to_word h,
           bi_input_format = fmt, bi_confidence_threshold = f32_of_f64 conf, bi_nms_threshold = f32_of_f64 nms,
           bi_frame_shm = (case find_string ''frame_shm'' json of Some p \<Rightarrow> p | None \<Rightarrow> []),
           bi_frame_shm_buffers = number_or_zero (find_number ''frame_shm_buffers'' json),
           bi_frame_shm_size = number_or_zero (find_number ''frame_shm_size'' json)\<rparr>
     | _ \<Rightarrow> None)"

section \<open>The process\<close>

text \<open>
  What the process keeps between two messages: the segment it has open, with its path, and the frame size
  of the last successful \<open>init\<close>.  \<open>ShmFrameSource::open\<close> is given the bytes of the file at the path
  (\<open>None\<close> when it cannot be opened or mapped); an empty file cannot be mapped.
\<close>

record npu_state =
  br_source :: "(string \<times> frame_source) option"
  br_frame_size :: u64

definition npu_new :: npu_state where
  "npu_new = \<lparr>br_source = None, br_frame_size = 0\<rparr>"

definition segment_open ::
  "u8 list option \<Rightarrow> string \<Rightarrow> u32 \<Rightarrow> u64 \<Rightarrow> (string \<times> frame_source) option \<Rightarrow> (string \<times> frame_source) option" where
  "segment_open file path buffer_count frame_size old =
    (if buffer_count = 0 \<or> frame_size = 0 then old
     else case file of
            None \<Rightarrow> None
          | Some bytes \<Rightarrow>
              (case source_open (length bytes) buffer_count frame_size of
                 Inl _ \<Rightarrow> None
               | Inr src \<Rightarrow> if bytes = [] then None else Some (path, src)))"

text \<open>The branch of \<open>init\<close>: whether the answer says \<open>ok\<close>, and the state; \<open>load\<close> is the back end's
  \<open>load_model\<close>.\<close>

definition bridge_init ::
  "(bridge_init_request \<Rightarrow> (string, unit) result) \<Rightarrow> (string \<Rightarrow> u8 list option) \<Rightarrow> string \<Rightarrow> npu_state
     \<Rightarrow> bool \<times> npu_state" where
  "bridge_init load files msg st =
    (case parse_init_request msg of
       None \<Rightarrow> (False, st)
     | Some req \<Rightarrow>
         (case load req of
            Inl _ \<Rightarrow> (False, st)
          | Inr _ \<Rightarrow>
              (True, \<lparr>br_source = (if bi_frame_shm req = [] then br_source st
                   else segment_open (files (bi_frame_shm req)) (bi_frame_shm req) (bi_frame_shm_buffers req)
                          (bi_frame_shm_size req) (br_source st)),
                 br_frame_size = bi_frame_shm_size req\<rparr>)))"

definition bridge_handle ::
  "(bridge_init_request \<Rightarrow> (string, unit) result) \<Rightarrow> (string \<Rightarrow> u8 list option) \<Rightarrow> string \<Rightarrow> npu_state
     \<Rightarrow> npu_state" where
  "bridge_handle load files msg st =
    (if kind_of msg = MInit then snd (bridge_init load files msg st) else st)"

text \<open>The state after the bytes of a connection: its messages one after the other, up to a \<open>shutdown\<close>.\<close>

function serve_messages ::
  "(bridge_init_request \<Rightarrow> (string, unit) result) \<Rightarrow> (string \<Rightarrow> u8 list option) \<Rightarrow> u8 list \<Rightarrow> npu_state
     \<Rightarrow> npu_state" where
  "serve_messages load files bytes st =
    (case receive_message bytes of
       None \<Rightarrow> st
     | Some (msg, rest) \<Rightarrow>
         if kind_of msg = MShutdown then st else serve_messages load files rest (bridge_handle load files msg st))"
  by pat_completeness auto
termination
  by (relation "measure (\<lambda>(load, files, bytes, st). length bytes)")
    (auto simp: receive_message_def Let_def split: if_splits)

declare serve_messages.simps [simp del]

text \<open>
  What \<open>infer\<close> finds: the open segment with the bytes of the file, which are those the client has mapped
  when the paths agree, and the frame size of the \<open>init\<close>.
\<close>

definition bridge_view :: "npu_state \<Rightarrow> frame_shm option \<Rightarrow> (frame_source \<times> u8 list \<times> u64) option" where
  "bridge_view st segment = map_option (\<lambda>(path, src).
     (src, (case segment of Some shm \<Rightarrow> if fs_path shm = path then fs_data shm else [] | None \<Rightarrow> []),
      br_frame_size st)) (br_source st)"

section \<open>The text of an init request\<close>

text \<open>
  Strings that \<open>serde_json\<close> writes as they are, and texts of finite numbers; the three fields of the
  segment come together.
\<close>

definition plain_text :: "string \<Rightarrow> bool" where
  "plain_text s \<longleftrightarrow> list_all (\<lambda>c. c \<noteq> CHR 0x22 \<and> c \<noteq> CHR 0x5C \<and> 32 \<le> (of_char c :: nat)) s \<and> length s \<le> 4096"

definition number_text :: "string \<Rightarrow> bool" where
  "number_text s \<longleftrightarrow> CHR 0x22 \<notin> set s \<and> stod s \<noteq> None \<and> length s \<le> 64"

definition init_json :: "(f32 \<Rightarrow> string) \<Rightarrow> init_request \<Rightarrow> string" where
  "init_json show32 req =
    ''{'' @ json_key ''type'' @ json_string ''init'' @ '','' @ json_key ''model_path'' @ json_string (iq_model_path req)
    @ '','' @ json_key ''input_width'' @ dec (unat (iq_input_width req))
    @ '','' @ json_key ''input_height'' @ dec (unat (iq_input_height req))
    @ '','' @ json_key ''input_format'' @ json_string (iq_input_format req)
    @ '','' @ json_key ''confidence_threshold'' @ show32 (iq_confidence_threshold req)
    @ '','' @ json_key ''nms_threshold'' @ show32 (iq_nms_threshold req)
    @ (case iq_frame_shm req of None \<Rightarrow> [] | Some p \<Rightarrow> '','' @ json_key ''frame_shm'' @ json_string p)
    @ (case iq_frame_shm_buffers req of None \<Rightarrow> [] | Some n \<Rightarrow> '','' @ json_key ''frame_shm_buffers'' @ dec (unat n))
    @ (case iq_frame_shm_size req of None \<Rightarrow> [] | Some n \<Rightarrow> '','' @ json_key ''frame_shm_size'' @ dec (unat n))
    @ ''}''"

definition plain_request :: "(f32 \<Rightarrow> string) \<Rightarrow> init_request \<Rightarrow> bool" where
  "plain_request show32 req \<longleftrightarrow> plain_text (iq_model_path req) \<and> plain_text (iq_input_format req)
     \<and> (\<forall>p \<in> set_option (iq_frame_shm req). plain_text p)
     \<and> number_text (show32 (iq_confidence_threshold req)) \<and> number_text (show32 (iq_nms_threshold req))
     \<and> (iq_frame_shm_buffers req = None \<longleftrightarrow> iq_frame_shm req = None)
     \<and> (iq_frame_shm_size req = None \<longleftrightarrow> iq_frame_shm req = None)"

section \<open>Reading the request\<close>

lemma find_string_after:
  "find_string key json =
    (case key_search key [CHR 0x22] json of
       None \<Rightarrow> None | Some s \<Rightarrow> map_option (\<lambda>end. take end s) (find_sub [CHR 0x22] s))"
  by (simp add: find_string_def key_search_def after_sub_def Let_def split: option.split)

lemma find_number_after:
  "find_number key json = (case key_search key [] json of None \<Rightarrow> None | Some s \<Rightarrow> stod s)"
  by (simp add: find_number_def key_search_def after_sub_def split: option.split)

lemma key_search_plain: "CHR 0x22 \<notin> set s \<Longrightarrow> key_search k w (s @ t) = key_search k w t"
  using after_sub_skip by (simp add: key_search_def json_key_def)

lemma plain_no_quote: "plain_text s \<Longrightarrow> CHR 0x22 \<notin> set s"
  by (auto simp: plain_text_def list_all_iff)

lemma string_body:
  "drop (Suc 0) (json_string v) = v @ [CHR 0x22]" "length (json_string v) = length v + 2"
  "prefix [CHR 0x22] (json_string v @ t)" "prefix [CHR 0x22] (json_string v)"
  by (simp_all add: json_string_def)

lemma terminators [simp]: "terminator CHR '',''" "terminator CHR ''}''"
  by (simp_all add: terminator_def)

lemma stod_u32 [simp]: "terminator c \<Longrightarrow> stod (dec (unat (w :: u32)) @ c # r) = Some (Fin (of_nat (unat w)))"
  using unsigned_less [of w, where 'a = nat] by (intro stod_dec) simp_all

lemma dec_not_quote [simp]: "\<not> prefix [CHR 0x22] (dec n @ t)"
proof -
  obtain d ds where dn: "dec n = d # ds" by (cases "dec n") auto
  then have "is_digit d" using dec_digits [of d n] by simp
  then have "d \<noteq> CHR 0x22" by (auto simp: is_digit_def)
  then show ?thesis by (simp add: dn)
qed

lemma request_facts:
  assumes "plain_request show32 req"
  shows "CHR 0x22 \<notin> set (iq_model_path req)" "CHR 0x22 \<notin> set (iq_input_format req)"
    "\<And>p. iq_frame_shm req = Some p \<Longrightarrow> CHR 0x22 \<notin> set p"
    "CHR 0x22 \<notin> set (show32 (iq_confidence_threshold req))" "CHR 0x22 \<notin> set (show32 (iq_nms_threshold req))"
    "iq_frame_shm_buffers req = None \<longleftrightarrow> iq_frame_shm req = None"
    "iq_frame_shm_size req = None \<longleftrightarrow> iq_frame_shm req = None"
  using assms by (simp_all add: plain_request_def plain_no_quote number_text_def)

lemma request_numbers:
  assumes "plain_request show32 req"
  obtains conf nms where "stod (show32 (iq_confidence_threshold req)) = Some conf"
    "stod (show32 (iq_nms_threshold req)) = Some nms"
  using assms by (auto simp: plain_request_def number_text_def)

lemmas init_tokens = key_search_key key_search_string key_search_char key_search_nil key_search_digits
  plain_key_def prefix_json_string

lemma init_kind:
  assumes "plain_request show32 req"
  shows "kind_of (init_json show32 req) = MInit"
  using request_facts [OF assms] by (simp add: kind_of_def has_type_after init_json_def init_tokens)

lemma init_shm:
  assumes "plain_request show32 req"
  shows "find_string ''frame_shm'' (init_json show32 req) = iq_frame_shm req"
  using request_facts [OF assms]
  by (cases "iq_frame_shm req"; cases "iq_frame_shm_buffers req"; cases "iq_frame_shm_size req")
    (simp_all add: find_string_after init_json_def init_tokens key_search_plain string_body find_sub_char)

lemma init_string:
  assumes "plain_request show32 req"
  shows "find_string ''model_path'' (init_json show32 req) = Some (iq_model_path req)"
    "find_string ''input_format'' (init_json show32 req) = Some (iq_input_format req)"
  using request_facts [OF assms]
  by (simp_all add: find_string_after init_json_def init_tokens key_search_plain string_body find_sub_char)

lemma init_sizes:
  assumes "plain_request show32 req"
  shows "find_number ''input_width'' (init_json show32 req) = Some (Fin (of_nat (unat (iq_input_width req))))"
    "find_number ''input_height'' (init_json show32 req) = Some (Fin (of_nat (unat (iq_input_height req))))"
  using request_facts [OF assms]
  by (simp_all add: find_number_after init_json_def init_tokens key_search_plain)

lemma init_thresholds:
  assumes "plain_request show32 req"
  shows "find_number ''confidence_threshold'' (init_json show32 req) = stod (show32 (iq_confidence_threshold req))"
    "find_number ''nms_threshold'' (init_json show32 req) = stod (show32 (iq_nms_threshold req))"
  using request_facts [OF assms]
  by (cases "iq_frame_shm req"; cases "iq_frame_shm_buffers req"; cases "iq_frame_shm_size req";
      simp add: find_number_after init_json_def init_tokens key_search_plain stod_stop)+

lemma init_segment_numbers:
  assumes "plain_request show32 req" "\<And>n. iq_frame_shm_size req = Some n \<Longrightarrow> unat n \<le> 2 ^ 53"
  shows "number_or_zero (find_number ''frame_shm_buffers'' (init_json show32 req))
      = (case iq_frame_shm_buffers req of None \<Rightarrow> 0 | Some n \<Rightarrow> n)"
    "number_or_zero (find_number ''frame_shm_size'' (init_json show32 req))
      = (case iq_frame_shm_size req of None \<Rightarrow> 0 | Some n \<Rightarrow> n)"
proof -
  note facts = find_number_after init_json_def init_tokens key_search_plain number_or_zero_def double_to_word_nat double_to_word_word
    request_facts(1-5) [OF assms(1)]
  show "number_or_zero (find_number ''frame_shm_buffers'' (init_json show32 req))
      = (case iq_frame_shm_buffers req of None \<Rightarrow> 0 | Some n \<Rightarrow> n)"
    using request_facts(6,7) [OF assms(1)]
    by (cases "iq_frame_shm req"; cases "iq_frame_shm_buffers req"; cases "iq_frame_shm_size req"; simp add: facts)
  have size: "stod (dec (unat n) @ c # r) = Some (Fin (of_nat (unat n)))"
    if "iq_frame_shm_size req = Some n" "terminator c" for n c r
    by (rule stod_dec [OF assms(2) [OF that(1)] that(2)])
  show "number_or_zero (find_number ''frame_shm_size'' (init_json show32 req))
      = (case iq_frame_shm_size req of None \<Rightarrow> 0 | Some n \<Rightarrow> n)"
    using request_facts(6,7) [OF assms(1)]
    by (cases "iq_frame_shm req"; cases "iq_frame_shm_buffers req"; cases "iq_frame_shm_size req";
        simp add: facts size)
qed

lemma init_parsed:
  assumes "plain_request show32 req" "\<And>n. iq_frame_shm_size req = Some n \<Longrightarrow> unat n \<le> 2 ^ 53"
  obtains b where "parse_init_request (init_json show32 req) = Some b"
    "bi_frame_shm b = (case iq_frame_shm req of None \<Rightarrow> [] | Some p \<Rightarrow> p)"
    "bi_frame_shm_buffers b = (case iq_frame_shm_buffers req of None \<Rightarrow> 0 | Some n \<Rightarrow> n)"
    "bi_frame_shm_size b = (case iq_frame_shm_size req of None \<Rightarrow> 0 | Some n \<Rightarrow> n)"
proof -
  obtain conf nms where t: "stod (show32 (iq_confidence_threshold req)) = Some conf"
    "stod (show32 (iq_nms_threshold req)) = Some nms" using request_numbers [OF assms(1)] .
  show ?thesis
    using that init_string [OF assms(1)] init_sizes [OF assms(1)] init_thresholds [OF assms(1)] t
      init_shm [OF assms(1)] init_segment_numbers [OF assms]
    by (simp add: parse_init_request_def)
qed

lemma init_length:
  assumes "plain_request show32 req"
  shows "init_json show32 req \<noteq> [] \<and> length (init_json show32 req) \<le> max_message"
proof -
  have "length (iq_model_path req) \<le> 4096" "length (iq_input_format req) \<le> 4096"
    "length (case iq_frame_shm req of None \<Rightarrow> [] | Some p \<Rightarrow> p) \<le> 4096"
    "length (show32 (iq_confidence_threshold req)) \<le> 64" "length (show32 (iq_nms_threshold req)) \<le> 64"
    using assms by (auto simp: plain_request_def plain_text_def number_text_def split: option.split)
  then show ?thesis
    using dec_u32_length [of "iq_input_width req"] dec_u32_length [of "iq_input_height req"]
      dec_u32_length [of "the (iq_frame_shm_buffers req)"] dec_u64_length [of "the (iq_frame_shm_size req)"]
    by (cases "iq_frame_shm req"; cases "iq_frame_shm_buffers req"; cases "iq_frame_shm_size req")
      (simp_all add: init_json_def json_key_def json_string_def max_message_def)
qed

section \<open>Messages\<close>

text \<open>What the process takes for one message after which it goes on.\<close>

definition whole :: "string \<Rightarrow> bool" where
  "whole msg \<longleftrightarrow> msg \<noteq> [] \<and> length msg \<le> max_message \<and> kind_of msg \<noteq> MShutdown"

lemma receive_whole: "whole msg \<Longrightarrow> receive_message (framed msg @ rest) = Some (msg, rest)"
  by (simp add: whole_def receive_message_def framed_def Let_def max_message_def unat_of_nat take_bit_nat_eq_self)

lemma serve_messages_nil [simp]: "serve_messages load files [] st = st"
  by (subst serve_messages.simps) (simp add: receive_message_def)

lemma serve_messages_messages:
  "list_all whole msgs \<Longrightarrow> serve_messages load files (concat (map framed msgs)) st = fold (bridge_handle load files) msgs st"
proof (induction msgs arbitrary: st)
  case (Cons msg msgs)
  then show ?case by (subst serve_messages.simps) (simp add: receive_whole, simp add: whole_def)
qed simp

section \<open>The handshake\<close>

text \<open>The process has exactly the client's segment open.\<close>

definition in_step :: "npu_state \<Rightarrow> frame_shm option \<Rightarrow> bool" where
  "in_step st segment \<longleftrightarrow> (case segment of
     None \<Rightarrow> br_source st = None
   | Some shm \<Rightarrow>
       br_source st = Some (fs_path shm,
         \<lparr>src_buffer_count = fs_buffers shm, src_frame_size = of_nat (fs_frame_size shm)\<rparr>)
       \<and> br_frame_size st = of_nat (fs_frame_size shm))"

lemma in_step_view: "in_step st segment \<Longrightarrow> bridge_view st segment = source_of segment"
  by (simp add: in_step_def bridge_view_def source_of_def split: option.splits)

text \<open>The configurations whose texts travel unchanged.\<close>

definition plain_config :: "(f32 \<Rightarrow> string) \<Rightarrow> bridge_client_config \<Rightarrow> bool" where
  "plain_config show32 cfg \<longleftrightarrow> plain_text (rc_model_path cfg) \<and> plain_text (rc_input_format cfg)
     \<and> (\<forall>p \<in> set_option (rc_frame_shm cfg). plain_text p \<and> p \<noteq> [])
     \<and> number_text (show32 (rc_confidence_threshold cfg)) \<and> number_text (show32 (rc_nms_threshold cfg))"

lemma created_segment:
  assumes "frame_shm_create os path len n = Inr shm"
  shows "segment_ok shm \<and> fs_path shm = path \<and> fs_frame_size shm = len \<and> fs_buffers shm = n
    \<and> fs_data shm = replicate (len * unat n) 0"
  using frame_shm_create_ok [OF assms] assms
  by (auto simp: frame_shm_create_def Let_def split: sum.splits if_splits)

lemma setup_segment:
  assumes "setup_frame_shm os (c \<lparr>rk_frame_shm := None\<rparr>) = (shm, c')"
  shows "case rk_frame_shm c' of None \<Rightarrow> shm = None
      | Some s \<Rightarrow> shm = Some (fs_path s, fs_buffers s, of_nat (fs_frame_size s)) \<and> segment_ok s
          \<and> rc_frame_shm (rk_config c') = Some (fs_path s)
          \<and> fs_frame_size s = tensor_bytes (rk_config c)
          \<and> fs_data s = replicate (length (fs_data s)) 0"
  using assms
  by (auto simp: setup_frame_shm_def split: option.splits sum.splits dest!: created_segment)

lemma handshake:
  assumes "client_init pipe_ops codec (Inr p) os (client_new cfg) = (Inr (), c)"
    and "plain_config show32 cfg"
    and "\<And>req. plain_request show32 req \<Longrightarrow> enc_init codec req = Inr (init_json show32 req)"
    and "\<And>req. load req = Inr ()"
    and "\<And>shm. rk_frame_shm c = Some shm \<Longrightarrow>
      files (fs_path shm) = Some (fs_data shm) \<and> length (fs_data shm) \<le> 2 ^ 53"
  obtains msg p' where "rk_stream c = Some p'" "p_out p' = p_out p @ framed msg" "whole msg"
    "in_step (bridge_handle load files msg npu_new) (rk_frame_shm c)"
proof -
  obtain shm c1 where c1: "setup_frame_shm os ((client_new cfg) \<lparr>rk_stream := Some p, rk_frame_shm := None\<rparr>) = (shm, c1)"
    by force
  have c0: "(client_new cfg :: pipe rknn_client) \<lparr>rk_stream := Some p\<rparr>
      = (client_new cfg) \<lparr>rk_stream := Some p, rk_frame_shm := None\<rparr>"
    by (simp add: client_new_def)
  have s1: "rk_stream c1 = Some p" "plain_config show32 (rk_config c1)"
    using c1 assms(2) frame_shm_create_ok
    by (auto simp: setup_frame_shm_def plain_config_def client_new_def split: option.splits sum.splits)
  note seg = setup_segment [OF c1]
  define req where "req = init_request_of (rk_config c1) shm"
  have plain: "plain_request show32 req"
    using s1(2) seg
    by (auto simp: plain_request_def plain_config_def req_def init_request_of_def split: option.splits)
  let ?msg = "init_json show32 req"
  have sent: "rk_stream c = Some (snd (exchange pipe_ops ?msg p))" "rk_frame_shm c = rk_frame_shm c1"
    using assms(1) c0 c1 s1(1) assms(3) [OF plain]
    by (auto simp: client_init_def ask_def send_recv_def req_def split: prod.splits sum.splits if_splits)
  have size: "fs_frame_size s < 2 ^ 64 \<and> fs_frame_size s \<le> 2 ^ 53 \<and> length (fs_data s) < 2 ^ 64 \<and> fs_data s \<noteq> []"
    if "rk_frame_shm c1 = Some s" for s
  proof -
    have ok: "segment_ok s" using seg that by simp
    have "0 < unat (fs_buffers s)" using ok by (simp add: segment_ok_def unat_gt_0)
    then have "fs_frame_size s \<le> length (fs_data s)" "0 < fs_frame_size s" using ok by (simp_all add: segment_ok_def)
    moreover have "length (fs_data s) \<le> 2 ^ 53" using assms(5) sent(2) that by simp
    ultimately show ?thesis by auto
  qed
  have bound: "unat n \<le> 2 ^ 53" if "iq_frame_shm_size req = Some n" for n
    using that seg size
    by (auto simp: req_def init_request_of_def unat_of_nat take_bit_nat_eq_self split: option.splits)
  obtain b where b: "parse_init_request ?msg = Some b"
    "bi_frame_shm b = (case iq_frame_shm req of None \<Rightarrow> [] | Some p \<Rightarrow> p)"
    "bi_frame_shm_buffers b = (case iq_frame_shm_buffers req of None \<Rightarrow> 0 | Some n \<Rightarrow> n)"
    "bi_frame_shm_size b = (case iq_frame_shm_size req of None \<Rightarrow> 0 | Some n \<Rightarrow> n)"
    using init_parsed [OF plain bound] .
  have "in_step (bridge_handle load files ?msg npu_new) (rk_frame_shm c)"
  proof (cases "rk_frame_shm c1")
    case None
    then show ?thesis
      using seg b sent(2) init_kind [OF plain] assms(4)
      by (simp add: in_step_def bridge_handle_def bridge_init_def npu_new_def req_def init_request_of_def)
  next
    case (Some s)
    have ok: "segment_ok s" and path: "fs_path s \<noteq> []" using seg Some s1(2) by (auto simp: plain_config_def)
    have "fs_buffers s \<noteq> 0" "(of_nat (fs_frame_size s) :: u64) \<noteq> 0"
      using ok size [OF Some] by (simp_all add: segment_ok_def word_unat_eq_iff unat_of_nat take_bit_nat_eq_self)
    then show ?thesis
      using seg b sent(2) Some init_kind [OF plain] assms(4) assms(5) path size [OF Some]
        source_opens [OF ok] 
      by (simp add: in_step_def bridge_handle_def bridge_init_def npu_new_def req_def init_request_of_def
          segment_open_def source_of_def)
  qed
  then show ?thesis
    using that sent(1) exchange_writes [of ?msg p] init_length [OF plain] init_kind [OF plain] by (simp add: whole_def)
qed

text \<open>The segment of a client after its first \<open>init\<close>: zeros.\<close>

lemma init_segment:
  assumes "client_init io codec conn os (client_new cfg) = (Inr (), c)" and "rk_frame_shm c = Some shm"
  shows "segment_ok shm \<and> fs_frame_size shm = tensor_bytes cfg \<and> fs_buffers shm = rc_frame_shm_buffers cfg
    \<and> fs_data shm = replicate (tensor_bytes cfg * unat (rc_frame_shm_buffers cfg)) 0"
proof -
  obtain s where s: "conn = Inr s" using assms(1) by (cases conn) (auto simp: client_init_def)
  obtain q c1 where q: "setup_frame_shm os ((client_new cfg) \<lparr>rk_stream := Some s\<rparr>) = (q, c1)" by force
  have "rk_frame_shm c = rk_frame_shm c1"
    using assms(1) s q by (auto simp: client_init_def split: prod.splits sum.splits if_splits dest!: ask_frame)
  then show ?thesis
    using q assms(2) by (auto simp: setup_frame_shm_def client_new_def split: option.splits sum.splits
        dest!: created_segment)
qed

section \<open>Frames after the handshake\<close>

text \<open>A frame changes nothing of the segment but the bytes it covers in one buffer.\<close>

lemma write_frame_path: "write_frame i data shm = (r, shm') \<Longrightarrow> fs_path shm' = fs_path shm"
  by (auto simp: write_frame_def Let_def split: if_splits)

definition segment_kept :: "nat \<Rightarrow> frame_shm option \<Rightarrow> frame_shm option \<Rightarrow> bool" where
  "segment_kept n old new \<longleftrightarrow> (case old of
     None \<Rightarrow> new = None
   | Some shm \<Rightarrow> (\<exists>shm'. new = Some shm' \<and> fs_path shm' = fs_path shm \<and> fs_buffers shm' = fs_buffers shm
       \<and> fs_frame_size shm' = fs_frame_size shm
       \<and> (\<forall>i. i < fs_buffers shm \<longrightarrow> drop n (buffer_of shm' i) = drop n (buffer_of shm i))))"

lemma segment_kept_refl [simp]: "segment_kept n s s"
  by (auto simp: segment_kept_def split: option.split)

lemma place_frame_segment:
  assumes "client_ok c" "place_frame data c = (r, c')"
  shows "segment_kept (length data) (rk_frame_shm c) (rk_frame_shm c')"
proof (cases "rk_frame_shm c")
  case None
  then show ?thesis using assms(2) by (auto simp: place_frame_def segment_kept_def)
next
  case (Some shm)
  define i where "i = rk_shm_buf_cursor c mod fs_buffers shm"
  obtain q shm' where w: "write_frame i data shm = (q, shm')" by force
  have new: "rk_frame_shm c' = Some shm'"
    using assms(2) Some w by (auto simp: place_frame_def i_def Let_def split: sum.splits)
  have ok: "segment_ok shm" using assms(1) Some by (simp add: client_ok_def)
  note wr = write_frame_cases [OF ok w]
  have "drop (length data) (buffer_of shm' j) = drop (length data) (buffer_of shm j)" if "j < fs_buffers shm" for j
    using wr that by (cases q; cases "j = i") auto
  then show ?thesis using Some new wr write_frame_path [OF w] by (simp add: segment_kept_def)
qed

lemma infer_segment:
  assumes "client_ok c" "client_infer io codec now f c = (r, c')"
  shows "segment_kept (length (frame_data f)) (rk_frame_shm c) (rk_frame_shm c')"
proof (cases "rk_initialized c")
  case True
  obtain q c1 where c1: "place_frame (frame_data f) c = (q, c1)" by force
  show ?thesis
    using assms(2) True c1 place_frame_segment [OF assms(1) c1]
    by (auto simp: client_infer_def split: prod.splits sum.splits if_splits dest!: ask_frame)
qed (use assms in \<open>simp add: client_infer_def\<close>)

text \<open>
  A client joined to its process: initialised and connected, the messages so far have left the process
  with the client's segment, whose buffers of \<open>room\<close> bytes are zero behind the tensor of \<open>n\<close> bytes.
\<close>

definition joined ::
  "(bridge_init_request \<Rightarrow> (string, unit) result) \<Rightarrow> (string \<Rightarrow> u8 list option) \<Rightarrow> nat \<Rightarrow> nat
     \<Rightarrow> pipe rknn_client \<Rightarrow> bool" where
  "joined load files n room c \<longleftrightarrow> rk_initialized c \<and> client_ok c
     \<and> (\<exists>p msgs. rk_stream c = Some p \<and> p_out p = concat (map framed msgs) \<and> list_all whole msgs
          \<and> in_step (fold (bridge_handle load files) msgs npu_new) (rk_frame_shm c))
     \<and> (\<forall>shm. rk_frame_shm c = Some shm \<longrightarrow> fs_frame_size shm = room
          \<and> (\<forall>i. i < fs_buffers shm \<longrightarrow> drop n (buffer_of shm i) = replicate (room - n) 0))"

definition padding :: "nat \<Rightarrow> nat \<Rightarrow> frame_shm option \<Rightarrow> u8 list" where
  "padding n room segment = (case segment of None \<Rightarrow> [] | Some _ \<Rightarrow> replicate (room - n) 0)"

lemma whole_received:
  "receive_message (framed msg) = Some (msg, []) \<Longrightarrow> kind_of msg = MInfer \<Longrightarrow> whole msg"
  by (auto simp: receive_message_def framed_def whole_def Let_def split: if_splits)

lemma in_step_kept: "segment_kept n old new \<Longrightarrow> in_step st old \<Longrightarrow> in_step st new"
  by (auto simp: segment_kept_def in_step_def split: option.splits)

lemma handle_infer: "kind_of msg = MInfer \<Longrightarrow> bridge_handle load files msg st = st"
  by (simp add: bridge_handle_def)

lemma joined_infer:
  assumes j: "joined load files n room c" and n: "length (frame_data g) = n" "n \<le> room" "room < 2 ^ 64" "n \<le> 50000000"
    and enc: "\<And>req. enc_infer codec req = Inr (infer_json req)"
    and run: "client_infer pipe_ops codec now g c = (r, c')"
  shows "joined load files n room c'"
    "\<exists>p p' msg. rk_stream c = Some p \<and> rk_stream c' = Some p' \<and> p_out p' = p_out p @ framed msg
      \<and> receive_message (framed msg) = Some (msg, []) \<and> kind_of msg = MInfer
      \<and> frame_for_network (bridge_view (serve_messages load files (p_out p) npu_new) (rk_frame_shm c')) msg
          = Some (frame_data g @ padding n room (rk_frame_shm c), fm_seq (frame_meta g))"
proof -
  obtain p msgs where p: "rk_initialized c" "client_ok c" "rk_stream c = Some p"
    "p_out p = concat (map framed msgs)" "list_all whole msgs"
    "in_step (fold (bridge_handle load files) msgs npu_new) (rk_frame_shm c)"
    and size: "\<And>shm. rk_frame_shm c = Some shm \<Longrightarrow> fs_frame_size shm = room"
    and tidy: "\<And>shm i. rk_frame_shm c = Some shm \<Longrightarrow> i < fs_buffers shm
      \<Longrightarrow> drop n (buffer_of shm i) = replicate (room - n) 0"
    using j by (auto simp: joined_def)
  have fits: "fits c g" using p(2) size n by (auto simp: fits_def client_ok_def split: option.split)
  have small: "\<And>shm. rk_frame_shm c = Some shm \<Longrightarrow> fs_frame_size shm < 2 ^ 64" using size n(3) by simp
  obtain p' msg data where out: "rk_stream c' = Some p'" "p_out p' = p_out p @ framed msg"
    "receive_message (framed msg) = Some (msg, [])" "kind_of msg = MInfer"
    "frame_for_network (source_of (rk_frame_shm c')) msg = Some (data, fm_seq (frame_meta g))"
    "data = frame_data g @ remains c (length (frame_data g))"
    using infer_reaches_network [OF p(1,3) fits enc _ small run] n(1,4) by auto
  have kept: "segment_kept n (rk_frame_shm c) (rk_frame_shm c')" using infer_segment [OF p(2) run] n(1) by simp
  have state: "serve_messages load files (p_out p) npu_new = fold (bridge_handle load files) msgs npu_new"
    using p(4,5) by (simp add: serve_messages_messages)
  have step: "in_step (fold (bridge_handle load files) msgs npu_new) (rk_frame_shm c')"
    by (rule in_step_kept [OF kept p(6)])
  have "remains c n = padding n room (rk_frame_shm c)"
  proof (cases "rk_frame_shm c")
    case (Some shm)
    then have "fs_buffers shm \<noteq> 0" using p(2) by (simp add: client_ok_def segment_ok_def)
    then have "rk_shm_buf_cursor c mod fs_buffers shm < fs_buffers shm"
      by (simp add: word_mod_less_divisor word_neq_0_conv)
    then show ?thesis using Some tidy [OF Some] by (simp add: remains_def padding_def)
  qed (simp add: remains_def padding_def)
  then show "\<exists>p p' msg. rk_stream c = Some p \<and> rk_stream c' = Some p' \<and> p_out p' = p_out p @ framed msg
      \<and> receive_message (framed msg) = Some (msg, []) \<and> kind_of msg = MInfer
      \<and> frame_for_network (bridge_view (serve_messages load files (p_out p) npu_new) (rk_frame_shm c')) msg
          = Some (frame_data g @ padding n room (rk_frame_shm c), fm_seq (frame_meta g))"
    using p(3) out n(1) in_step_view [OF step] by (auto simp: state)
  have "\<exists>p msgs. rk_stream c' = Some p \<and> p_out p = concat (map framed msgs) \<and> list_all whole msgs
      \<and> in_step (fold (bridge_handle load files) msgs npu_new) (rk_frame_shm c')"
    using out p(4,5) step whole_received [OF out(3,4)] handle_infer [OF out(4)]
    by (intro exI [of _ p'] exI [of _ "msgs @ [msg]"]) simp
  moreover have "\<forall>shm. rk_frame_shm c' = Some shm \<longrightarrow> fs_frame_size shm = room
      \<and> (\<forall>i. i < fs_buffers shm \<longrightarrow> drop n (buffer_of shm i) = replicate (room - n) 0)"
    using kept size tidy by (cases "rk_frame_shm c") (auto simp: segment_kept_def)
  ultimately show "joined load files n room c'"
    using client_infer_ok [OF p(2) run] p(1) by (simp add: joined_def)
qed

text \<open>
  A process that could not open the segment still answers \<open>ok\<close>, and the client goes on placing its frames
  there: the network is run on no data at all, with the number of the frame.
\<close>

lemma unopened_segment:
  assumes "fq_frame_data_b64 req = None" "client_request req"
    and "parse_init_request msg = Some b" "load b = Inr ()" "bi_frame_shm b \<noteq> []"
    and "bi_frame_shm_buffers b \<noteq> 0" "bi_frame_shm_size b \<noteq> 0" "files (bi_frame_shm b) = None"
    and "bridge_init load files msg st = (ok, st')"
  shows "ok \<and> frame_for_network (bridge_view st' segment) (infer_json req) = Some ([], fq_frame_seq req)"
proof -
  have "ok" "br_source st' = None"
    using assms(3-9) by (auto simp: bridge_init_def segment_open_def)
  moreover have "base64_decode [] = []" by (simp add: base64_decode_def)
  ultimately show ?thesis
    using assms(1) request_seq [of req] request_time [OF assms(2)] request_inline [OF assms(2)]
    by (simp add: frame_for_network_def parse_infer_request_def bridge_view_def)
qed

end
