(* ===== verification/Detector_Bridge.thy ===== *)
theory Detector_Bridge
  imports Detector_Properties Bridge_Init Letterbox
begin

text \<open>
  The detector with the client of the NPU process as its back end: which rings the shared-memory
  segment has room for, and the way of a frame from the ring to the network.
\<close>

section \<open>The tensor\<close>

lemma nv12_conversion_seq:
  "nv12_to_rgb24 raw = Some (Inr rgb) \<Longrightarrow> fm_seq (frame_meta rgb) = fm_seq (frame_meta raw)"
  by (auto simp: nv12_to_rgb24_def checked_def with_pixels_def Let_def split: if_splits option.splits)

lemma prepared_tensor:
  assumes "preprocess_frame raw fmt BridgeBackend = Some (Inr g)"
  shows "length (frame_data g) = input_size * input_size * 3 \<and> fm_seq (frame_meta g) = fm_seq (frame_meta raw)"
  using assms letterboxed_frame nv12_conversion_seq
  by (cases fmt) (fastforce simp: preprocess_frame_def split: option.splits sum.splits)+

lemma letterboxed_total:
  assumes "fm_format (frame_meta f) = Rgb24" "raw_frame f" "0 < unat (fm_height (frame_meta f))"
    and "unat (fm_width (frame_meta f)) \<le> 16384" "unat (fm_height (frame_meta f)) \<le> 16384"
  shows "\<exists>g. letterboxed f = Some g"
proof -
  have "0 < unat (fm_width (frame_meta f))"
    "length (frame_data f) = unat (fm_width (frame_meta f)) * unat (fm_height (frame_meta f)) * 3"
    using raw_frame_facts [OF assms(2,1)] by (simp_all add: raw_size_def)
  from letterbox_ok [OF this(1) assms(3-5) this(2)] show ?thesis by (auto simp: letterboxed_def)
qed

lemma nv12_prepared:
  assumes "fm_format (frame_meta f) = Nv12" "raw_frame f"
  shows "if odd (unat (fm_height (frame_meta f))) then nv12_to_rgb24 f = None
    else \<exists>g. nv12_to_rgb24 f = Some (Inr g) \<and> converted f Rgb24 g"
proof -
  let ?w = "unat (fm_width (frame_meta f))" and ?h = "unat (fm_height (frame_meta f))"
  have sizes: "raw_size Nv12 = (\<lambda>w h. w * h * 3 div 2)" "raw_size Rgb24 = (\<lambda>w h. w * h * 3)"
    by (simp_all add: raw_size_def fun_eq_iff)
  note r = raw_frame_facts [OF assms(2,1), unfolded sizes(1)]
  show ?thesis
  proof (cases "odd ?h")
    case True
    then show ?thesis using r(3) nv12_rgb_panics [OF r(1,2)] by (simp add: nv12_to_rgb24_def)
  next
    case False
    then obtain out where "nv12_rgb_rows ?w (?w * ?h) (frame_data f) 0 (chunks_exact ?w (take (?w * ?h) (frame_data f))) = Some out"
      "length out = ?w * ?h * 3" using nv12_rgb_ok [OF r(1,2)] by blast
    then show ?thesis
      using False r(3) converted_with_pixels [OF assms(2), of Rgb24, unfolded sizes(2)]
      by (simp add: nv12_to_rgb24_def)
  qed
qed

lemma preprocess_total_lemma:
  assumes "raw_frame raw" "fm_format (frame_meta raw) = format_pixel_format fmt"
    and "0 < unat (fm_height (frame_meta raw))"
    and "unat (fm_width (frame_meta raw)) \<le> 16384" "unat (fm_height (frame_meta raw)) \<le> 16384"
  shows "if fmt = StNv12 \<and> odd (unat (fm_height (frame_meta raw)))
    then preprocess_frame raw fmt BridgeBackend = None
    else \<exists>g. preprocess_frame raw fmt BridgeBackend = Some (Inr g)"
proof (cases fmt)
  case StNv12
  then have nv: "fm_format (frame_meta raw) = Nv12" using assms(2) by simp
  note c = nv12_prepared [OF nv assms(1)]
  show ?thesis
  proof (cases "odd (unat (fm_height (frame_meta raw)))")
    case True
    then show ?thesis using c StNv12 by (simp add: preprocess_frame_def)
  next
    case False
    then obtain rgb where rgb: "nv12_to_rgb24 raw = Some (Inr rgb)" "converted raw Rgb24 rgb" using c by auto
    then have "raw_frame rgb" "frame_meta rgb = (frame_meta raw)\<lparr>fm_format := Rgb24\<rparr>"
      by (simp_all add: converted_def)
    then obtain g where "letterboxed rgb = Some g" using letterboxed_total [of rgb] assms(3-5) by auto
    then show ?thesis using False StNv12 rgb(1) by (simp add: preprocess_frame_def)
  qed
next
  case StRgb24
  then obtain g where "letterboxed raw = Some g" using letterboxed_total [of raw] assms by auto
  then show ?thesis using StRgb24 by (simp add: preprocess_frame_def)
qed

text \<open>C17: The preprocessing never fails: for every frame of the length of its format, of at least one and at
  most 16384 pixels in either direction, the detector gets a tensor of exactly the network's size with
  the number of the frame; only NV12 frames of odd height, for which no ring is created, panic, all of them.
\<close>

theorem preprocess_total:
  assumes "raw_frame raw" "fm_format (frame_meta raw) = format_pixel_format fmt"
    and "0 < unat (fm_height (frame_meta raw))"
    and "unat (fm_width (frame_meta raw)) \<le> 16384" "unat (fm_height (frame_meta raw)) \<le> 16384"
  shows "if fmt = StNv12 \<and> odd (unat (fm_height (frame_meta raw)))
    then preprocess_frame raw fmt BridgeBackend = None
    else \<exists>g. preprocess_frame raw fmt BridgeBackend = Some (Inr g)
      \<and> length (frame_data g) = 640 * 640 * 3 \<and> fm_seq (frame_meta g) = fm_seq (frame_meta raw)"
  using preprocess_total_lemma [OF assms] prepared_tensor [of raw fmt] by (auto simp: input_size_def)

definition pixel_frame :: frame where
  "pixel_frame = \<lparr>frame_data = [1, 2, 3],
     frame_meta = \<lparr>fm_width = 1, fm_height = 1, fm_format = Rgb24, fm_captured_at = 0, fm_seq = 7\<rparr>\<rparr>"

lemma pixel_frame_raw:
  "raw_frame pixel_frame" "fm_format (frame_meta pixel_frame) = format_pixel_format StRgb24"
  "0 < unat (fm_height (frame_meta pixel_frame))"
  "unat (fm_width (frame_meta pixel_frame)) \<le> 16384" "unat (fm_height (frame_meta pixel_frame)) \<le> 16384"
  by (simp_all add: pixel_frame_def raw_frame_def raw_size_def)

theorem preprocess_total_witness:
  "\<exists>g. preprocess_frame pixel_frame StRgb24 BridgeBackend = Some (Inr g)
    \<and> length (frame_data g) = 640 * 640 * 3 \<and> fm_seq (frame_meta g) = 7"
  using preprocess_total [OF pixel_frame_raw] by (auto simp: pixel_frame_def)

section \<open>The segment and the ring\<close>

text \<open>A client whose segment is too small for the tensor.\<close>

definition cramped :: "'s rknn_client \<Rightarrow> bool" where
  "cramped c \<longleftrightarrow> (\<exists>shm. rk_frame_shm c = Some shm \<and> fs_frame_size shm < input_size * input_size * 3)"

lemma cramped_refuses:
  assumes "cramped c" "length (frame_data g) = input_size * input_size * 3"
    and "client_infer io codec now g c = (r, c')"
  shows "\<not> is_ok r \<and> cramped c'"
proof -
  obtain shm where shm: "rk_frame_shm c = Some shm" "fs_frame_size shm < length (frame_data g)"
    using assms(1,2) by (auto simp: cramped_def)
  have "\<exists>e. write_frame i (frame_data g) shm = (Inl e, shm)" for i
    using shm(2) by (simp add: write_frame_def)
  then obtain e where "write_frame (rk_shm_buf_cursor c mod fs_buffers shm) (frame_data g) shm = (Inl e, shm)"
    by blast
  then show ?thesis
    using assms(1,3) shm by (auto simp: client_infer_def place_frame_def cramped_def Let_def split: if_splits)
qed

lemma cramped_process:
  assumes "dc_backend cfg = BridgeBackend" "cramped (dt_backend st)"
    and "process_frame cfg (client_ops io codec now conn os hc) w h fmt inp v raw st = (oc, st')"
  shows "events [oc] = [] \<and> cramped (dt_backend st')"
proof (cases "preprocess_frame raw fmt BridgeBackend")
  case None
  then show ?thesis using assms by (auto simp: process_frame_def events_def)
next
  case (Some r)
  show ?thesis
  proof (cases r)
    case (Inl e)
    then show ?thesis using assms Some by (auto simp: process_frame_def events_def)
  next
    case (Inr g)
    obtain q c' where q: "client_infer io codec now g (dt_backend st) = (q, c')" by force
    have "\<not> is_ok q" "cramped c'"
      using cramped_refuses [OF assms(2) _ q] prepared_tensor Some Inr by simp_all
    moreover from this obtain e where "q = Inl e" by (cases q) auto
    ultimately show ?thesis
      using assms(1,3) Some Inr q by (auto simp: process_frame_def client_ops_def events_def)
  qed
qed

lemma cramped_tick:
  assumes "dc_backend cfg = BridgeBackend" "cramped (dt_backend st)"
    and "detector_tick cfg (client_ops io codec now conn os hc) pid w h fmt inp st rg = (oc, st', rg')"
  shows "events [oc] = [] \<and> cramped (dt_backend st')"
proof -
  have take: "dt_backend st1 = dt_backend st" if "take_frame pid st rg = (g, st1, rg1)" for g st1 rg1
    using that by (auto simp: take_frame_def split: option.splits prod.splits)
  show ?thesis
    using assms take
    by (auto simp: detector_tick_def Let_def events_def split: if_splits option.splits prod.splits bool.splits
        dest!: cramped_process [OF assms(1), rotated] throttle_frame)
qed

text \<open>What initialisation gives the client that \<open>build_backend\<close> makes.\<close>

lemma init_segment_size:
  assumes "client_init io codec conn os (client_new (bridge_config_of cfg w h path)) = (Inr (), c)"
    and "rk_frame_shm c = Some shm"
  shows "fs_frame_size shm = max (unat w) (unat h) * max (unat w) (unat h) * 3"
proof -
  obtain s where s: "conn = Inr s" using assms(1) by (cases conn) (auto simp: client_init_def)
  obtain q c1 where q: "setup_frame_shm os ((client_new (bridge_config_of cfg w h path)) \<lparr>rk_stream := Some s\<rparr>) = (q, c1)"
    by force
  have "rk_frame_shm c = rk_frame_shm c1"
    using assms(1) s q by (auto simp: client_init_def split: prod.splits sum.splits if_splits dest!: ask_frame)
  then show ?thesis
    using q assms(2)
    by (auto simp: setup_frame_shm_def client_new_def bridge_config_of_def frame_shm_create_def
        tensor_bytes_def bridge_client_config_default_def Let_def split: sum.splits if_splits)
qed

text \<open>C14: A ring of frames smaller than 640 in both directions gets no detections.  The client sizes
  the buffers of its segment by the frames of the ring, the detector sends the tensor of the
  network, always 640 by 640: every write is refused, and no run of the detector publishes a single
  event.
\<close>

theorem small_ring_publishes_nothing:
  assumes "client_init io codec conn os (client_new (bridge_config_of cfg w h path)) = (Inr (), dt_backend st)"
    and "rk_frame_shm (dt_backend st) \<noteq> None"
    and "dc_backend cfg = BridgeBackend" and "unat w < 640" and "unat h < 640"
    and "detector_loop cfg (client_ops io codec now conn os hc) pid w h fmt inputs st = (ocs, st')"
  shows "events ocs = []"
proof -
  obtain shm where shm: "rk_frame_shm (dt_backend st) = Some shm" using assms(2) by auto
  have "max (unat w) (unat h) \<le> 639" using assms(4,5) by simp
  then have "max (unat w) (unat h) * max (unat w) (unat h) \<le> 639 * 639" by (intro mult_le_mono)
  then have "cramped (dt_backend st)"
    using init_segment_size [OF assms(1) shm] shm by (simp add: cramped_def input_size_def)
  then show ?thesis using assms(6)
  proof (induction inputs arbitrary: st ocs)
    case Nil
    then show ?case by (simp add: events_def)
  next
    case (Cons x rest)
    obtain inp rg where x: "x = (inp, rg)" by force
    obtain oc st1 rg1 where t: "detector_tick cfg (client_ops io codec now conn os hc) pid w h fmt inp st rg = (oc, st1, rg1)"
      by (cases "detector_tick cfg (client_ops io codec now conn os hc) pid w h fmt inp st rg") auto
    obtain ocs1 st2 where r: "detector_loop cfg (client_ops io codec now conn os hc) pid w h fmt rest st1 = (ocs1, st2)"
      by force
    have c: "events [oc] = []" "cramped (dt_backend st1)"
      using cramped_tick [OF assms(3) Cons.prems(1) t] by simp_all
    have "events (oc # ocs1) = events [oc] @ events ocs1" by (simp add: events_def)
    then show ?case using Cons.prems(2) Cons.IH [OF c(2)] c(1) r by (auto simp: x t split: if_splits)
  qed
qed

section \<open>From the ring to the network\<close>










section \<open>Concrete runs\<close>

definition bridge_config :: detector_config where
  "bridge_config = detector_config_default \<lparr>dc_throttle_temp_c := Fin 0\<rparr>"

definition init_codec :: bridge_codec where
  "init_codec = wire_codec \<lparr>dec_init := (\<lambda>_. Inr \<lparr>ia_ok = True, ia_error = [], ia_output_classes = 80,
     ia_backend = ''stub''\<rparr>)\<rparr>"

definition all_well :: shm_outcome where
  "all_well = \<lparr>so_open = Inr (), so_set_len = Inr (), so_mmap = True\<rparr>"

definition answered_pipe :: pipe where
  "answered_pipe = \<lparr>p_in = framed ''a'', p_out = []\<rparr>"

definition small_client :: "pipe rknn_client" where
  "small_client = snd (client_init pipe_ops init_codec (Inr answered_pipe) all_well
     (client_new (bridge_config_of bridge_config 1 1 ''/dev/shm/at-infer'')))"

lemma small_client_init:
  "client_init pipe_ops init_codec (Inr answered_pipe) all_well
     (client_new (bridge_config_of bridge_config 1 1 ''/dev/shm/at-infer'')) = (Inr (), small_client)"
  "rk_frame_shm small_client \<noteq> None"
proof -
  have "well_formed_answer ''a''" by (simp add: well_formed_answer_def max_response_def bytes_of_def)
  from exchange_framed [OF this, of answered_pipe "[]"]
  have e: "exchange pipe_ops json answered_pipe = (Inr ''a'', \<lparr>p_in = [], p_out = framed json\<rparr>)" for json
    by (simp add: answered_pipe_def)
  show "client_init pipe_ops init_codec (Inr answered_pipe) all_well
     (client_new (bridge_config_of bridge_config 1 1 ''/dev/shm/at-infer'')) = (Inr (), small_client)"
    "rk_frame_shm small_client \<noteq> None"
    by (simp_all add: small_client_def client_init_def setup_frame_shm_def client_new_def bridge_config_of_def
        bridge_client_config_default_def frame_shm_create_def all_well_def tensor_bytes_def ask_def
        init_codec_def wire_codec_def sample_codec_def send_recv_def e)
qed

theorem small_ring_publishes_nothing_witness:
  "events (fst (detector_loop bridge_config
     (client_ops pipe_ops init_codec (\<lambda>_. 0) (Inr answered_pipe) all_well (Inl ''no'')) 8 1 1 StRgb24
     [(plain_input, one_frame_ring)] (fresh_state small_client))) = []"
proof -
  obtain ocs st' where run: "detector_loop bridge_config
     (client_ops pipe_ops init_codec (\<lambda>_. 0) (Inr answered_pipe) all_well (Inl ''no'')) 8 1 1 StRgb24
     [(plain_input, one_frame_ring)] (fresh_state small_client) = (ocs, st')" by force
  have "dc_backend bridge_config = BridgeBackend"
    by (simp add: bridge_config_def detector_config_default_def)
  moreover have "dt_backend (fresh_state small_client) = small_client" by (simp add: fresh_state_def)
  ultimately have "events ocs = []"
    using small_ring_publishes_nothing [OF _ _ _ _ _ run] small_client_init by simp
  then show ?thesis unfolding run by simp
qed








end
