(* ===== verification/Cpu_Onnx.thy ===== *)
theory Cpu_Onnx
  imports Backend Letterbox Text
begin

text \<open>
  \<open>crates/cv-inference/src/cpu_onnx.rs\<close>: the back end that runs the network on the CPU.  ONNX Runtime
  is third-party code, the record \<open>ort_ops\<close>: the stages of opening a model, the name of its first
  input, one run, and the reading of each output as floats.  \<open>None\<close> is a panic.
\<close>

section \<open>The back end\<close>

record 's ort_ops =
  ort_builder :: "(string, unit) result"
  ort_opt_level :: "(string, unit) result"
  ort_threads :: "(string, unit) result"
  ort_commit :: "string \<Rightarrow> (string, 's) result"
  ort_input_name :: "'s \<Rightarrow> string option"
  ort_tensor :: "f32 list \<Rightarrow> (string, unit) result"
  ort_run :: "string \<Rightarrow> f32 list \<Rightarrow> 's \<Rightarrow> (string, (string, f32 list) result list) result \<times> 's"

record 's cpu_backend =
  cpu_model_path :: string
  cpu_confidence_threshold :: f32
  cpu_iou_threshold :: f32
  cpu_labels :: "string list"
  cpu_session :: "'s option"
  cpu_input_name :: "string option"

definition anchors_640 :: nat where
  "anchors_640 = 8400"

text \<open>The COCO table is a parameter.\<close>

definition cpu_new :: "string list \<Rightarrow> string \<Rightarrow> 's cpu_backend" where
  "cpu_new coco_labels model_path = \<lparr>
     cpu_model_path = model_path, cpu_confidence_threshold = lit (45 / 100), cpu_iou_threshold = lit (45 / 100),
     cpu_labels = coco_labels, cpu_session = None, cpu_input_name = None \<rparr>"

definition with_confidence_threshold :: "f32 \<Rightarrow> 's cpu_backend \<Rightarrow> 's cpu_backend" where
  "with_confidence_threshold t b = b \<lparr>cpu_confidence_threshold := t\<rparr>"

definition with_iou_threshold :: "f32 \<Rightarrow> 's cpu_backend \<Rightarrow> 's cpu_backend" where
  "with_iou_threshold t b = b \<lparr>cpu_iou_threshold := t\<rparr>"

definition with_labels :: "string list \<Rightarrow> 's cpu_backend \<Rightarrow> 's cpu_backend" where
  "with_labels labels b = b \<lparr>cpu_labels := labels\<rparr>"

definition open_session :: "'s ort_ops \<Rightarrow> string \<Rightarrow> 's inference_result" where
  "open_session ort path =
    (case ort_builder ort of Inl e \<Rightarrow> Inl (Inference (''ort builder: '' @ e)) | Inr _ \<Rightarrow>
      (case ort_opt_level ort of Inl e \<Rightarrow> Inl (Inference (''ort opt level: '' @ e)) | Inr _ \<Rightarrow>
        (case ort_threads ort of Inl e \<Rightarrow> Inl (Inference (''ort threads: '' @ e)) | Inr _ \<Rightarrow>
          (case ort_commit ort path of
             Inl e \<Rightarrow> Inl (Inference (''ort commit_from_file: '' @ e)) | Inr s \<Rightarrow> Inr s))))"

definition cpu_init :: "'s ort_ops \<Rightarrow> 's cpu_backend \<Rightarrow> unit inference_result \<times> 's cpu_backend" where
  "cpu_init ort b =
    (case open_session ort (cpu_model_path b) of
       Inl e \<Rightarrow> (Inl e, b)
     | Inr s \<Rightarrow> (Inr (), b \<lparr>cpu_input_name := ort_input_name ort s, cpu_session := Some s\<rparr>))"

definition cpu_health_check :: "'s cpu_backend \<Rightarrow> unit inference_result" where
  "cpu_health_check b = (if cpu_session b \<noteq> None then Inr () else Inl ModelNotLoaded)"

section \<open>Frames\<close>

text \<open>A row of pixel pairs; the output is zero where no pair writes.\<close>

definition cpu_rgb_row :: "nat \<Rightarrow> u8 list \<Rightarrow> u8 list \<Rightarrow> u8 list" where
  "cpu_rgb_row w y_row uv_row =
     concat (map (\<lambda>(k, y2).
       let u = byte_at uv_row (k * 2) - 128; v = byte_at uv_row (k * 2 + 1) - 128;
           y0 = byte_at y2 0; y1 = byte_at y2 1
       in [clamp_i32_to_u8 (y0 + (359 * v) div 256),
           clamp_i32_to_u8 (y0 - (88 * u + 183 * v) div 256),
           clamp_i32_to_u8 (y0 + (454 * u) div 256),
           clamp_i32_to_u8 (y1 + (359 * v) div 256),
           clamp_i32_to_u8 (y1 - (88 * u + 183 * v) div 256),
           clamp_i32_to_u8 (y1 + (454 * u) div 256)])
       (enumerate 0 (chunks_exact 2 y_row)))
     @ replicate (w * 3 - w div 2 * 6) 0"

fun cpu_rgb_rows :: "nat \<Rightarrow> u8 list \<Rightarrow> nat \<Rightarrow> nat \<Rightarrow> u8 list list \<Rightarrow> u8 list option" where
  "cpu_rgb_rows w nv12 uv_off j [] = Some []"
| "cpu_rgb_rows w nv12 uv_off j (y_row # rows) =
     (case slice (uv_off + j div 2 * w) w nv12 of
        None \<Rightarrow> None
      | Some uv_row \<Rightarrow> map_option ((@) (cpu_rgb_row w y_row uv_row)) (cpu_rgb_rows w nv12 uv_off (Suc j) rows))"

definition cpu_nv12_to_rgb24 :: "u8 list \<Rightarrow> nat \<Rightarrow> nat \<Rightarrow> u8 list option" where
  "cpu_nv12_to_rgb24 nv12 w h =
    (case slice 0 (w * h) nv12 of
       None \<Rightarrow> None
     | Some luma \<Rightarrow> if w = 0 then None else cpu_rgb_rows w nv12 (w * h) 0 (chunks_exact w luma))"

definition mismatch :: "string \<Rightarrow> nat \<Rightarrow> nat \<Rightarrow> inference_error" where
  "mismatch fmt got expected =
     Inference (fmt @ '' frame size mismatch: got '' @ dec got @ '', expected '' @ dec expected)"

definition frame_to_rgb24 :: "frame \<Rightarrow> u8 list inference_result option" where
  "frame_to_rgb24 f =
    (let w = unat (fm_width (frame_meta f)); h = unat (fm_height (frame_meta f)); n = length (frame_data f)
     in case fm_format (frame_meta f) of
          Rgb24 \<Rightarrow> Some (if n \<noteq> w * h * 3 then Inl (mismatch ''RGB24'' n (w * h * 3)) else Inr (frame_data f))
        | Nv12 \<Rightarrow> if n \<noteq> w * h * 3 div 2 then Some (Inl (mismatch ''NV12'' n (w * h * 3 div 2)))
                  else map_option Inr (cpu_nv12_to_rgb24 (frame_data f) w h)
        | Yuyv \<Rightarrow> Some (Inl (Inference (''CpuInferenceBackend expects RGB24 or NV12 frame; got Yuyv. ''
                    @ ''Decode MJPEG/YUYV upstream via video-capture::convert.'')))
        | Mjpeg \<Rightarrow> Some (Inl (Inference (''CpuInferenceBackend expects RGB24 or NV12 frame; got Mjpeg. ''
                    @ ''Decode MJPEG/YUYV upstream via video-capture::convert.''))))"

section \<open>Inference\<close>

text \<open>The first output, checked and parsed.\<close>

definition read_outputs ::
  "'s cpu_backend \<Rightarrow> u64 \<Rightarrow> utc \<Rightarrow> letterbox_params \<Rightarrow> (string, f32 list) result list
     \<Rightarrow> detection list inference_result option" where
  "read_outputs b seq now params outputs =
    (case outputs of
       [] \<Rightarrow> Some (Inl (Inference ''model produced no outputs''))
     | Inl e # _ \<Rightarrow> Some (Inl (Inference (''ort extract f32: '' @ e)))
     | Inr floats # _ \<Rightarrow>
         if length floats mod anchors_640 \<noteq> 0 \<or> length floats div anchors_640 < 5
         then Some (Inl (Inference (''unexpected YOLOv8 output: '' @ dec (length floats)
                @ '' floats (expected rows*'' @ dec anchors_640 @ '', rows>=5)'')))
         else map_option Inr (postprocess floats (of_nat (length floats div anchors_640 - 4)) anchors_640 params
                (cpu_confidence_threshold b) (cpu_iou_threshold b) seq now (cpu_labels b)))"

definition infer_sync ::
  "'s ort_ops \<Rightarrow> utc \<Rightarrow> frame \<Rightarrow> 's cpu_backend \<Rightarrow> detection list inference_result option \<times> 's cpu_backend" where
  "infer_sync ort now f b =
    (case cpu_session b of
       None \<Rightarrow> (Some (Inl ModelNotLoaded), b)
     | Some s \<Rightarrow> (case frame_to_rgb24 f of
         None \<Rightarrow> (None, b)
       | Some (Inl e) \<Rightarrow> (Some (Inl e), b)
       | Some (Inr rgb) \<Rightarrow> (case letterbox rgb (fm_width (frame_meta f)) (fm_height (frame_meta f)) of
           None \<Rightarrow> (None, b)
         | Some (lb, params) \<Rightarrow> (case rgb_to_nchw_f32 lb of
             None \<Rightarrow> (None, b)
           | Some tensor \<Rightarrow>
               if length tensor \<noteq> 3 * input_size * input_size
               then (Some (Inl (Inference ''tensor reshape'')), b)
               else (case ort_tensor ort tensor of
                 Inl e \<Rightarrow> (Some (Inl (Inference (''ort tensor from array: '' @ e))), b)
               | Inr _ \<Rightarrow> (case cpu_input_name b of
                   None \<Rightarrow> (Some (Inl (Inference ''backend not initialized'')), b)
                 | Some name \<Rightarrow> (case ort_run ort name tensor s of
                     (Inl e, s') \<Rightarrow> (Some (Inl (Inference (''ort run: '' @ e))), b \<lparr>cpu_session := Some s'\<rparr>)
                   | (Inr outputs, s') \<Rightarrow>
                       (read_outputs b (fm_seq (frame_meta f)) now params outputs,
                        b \<lparr>cpu_session := Some s'\<rparr>))))))))"

definition cpu_infer ::
  "'s ort_ops \<Rightarrow> utc \<Rightarrow> frame \<Rightarrow> 's cpu_backend \<Rightarrow> detection list inference_result option \<times> 's cpu_backend" where
  "cpu_infer ort now f b =
    (if cpu_session b = None then (Some (Inl ModelNotLoaded), b) else infer_sync ort now f b)"

section \<open>One conversion, written twice\<close>

lemma cpu_rgb_row_eq: "cpu_rgb_row w y_row uv_row = nv12_rgb_row w y_row uv_row"
proof -
  have "w * 3 - w div 2 * 6 = 3 * (w mod 2)" using halves [of w] by linarith
  then show ?thesis by (simp add: cpu_rgb_row_def nv12_rgb_row_def ycbcr_to_rgb_i32_def rgb_bytes_def Let_def)
qed

lemma cpu_rgb_rows_eq: "cpu_rgb_rows w nv12 uv_off j rows = nv12_rgb_rows w uv_off nv12 j rows"
  by (induction rows arbitrary: j) (simp_all add: cpu_rgb_row_eq split: option.split)

lemma frame_to_rgb24_nv12:
  assumes "fm_format (frame_meta f) = Nv12"
  shows "case nv12_to_rgb24 f of
      None \<Rightarrow> frame_to_rgb24 f = None
    | Some (Inl _) \<Rightarrow> \<exists>e. frame_to_rgb24 f = Some (Inl e)
    | Some (Inr g) \<Rightarrow> frame_to_rgb24 f = Some (Inr (frame_data g))"
proof -
  let ?w = "unat (fm_width (frame_meta f))" and ?h = "unat (fm_height (frame_meta f))"
  have le: "?w * ?h \<le> ?w * ?h * 3 div 2" by simp
  show ?thesis
  proof (cases "length (frame_data f) = ?w * ?h * 3 div 2 \<and> ?w \<noteq> 0")
    case True
    then have s: "slice 0 (?w * ?h) (frame_data f) = Some (take (?w * ?h) (frame_data f))"
      using le by (simp add: slice_def)
    show ?thesis
      using assms True s
      by (cases "nv12_rgb_rows ?w (?w * ?h) (frame_data f) 0 (chunks_exact ?w (take (?w * ?h) (frame_data f)))")
        (simp_all add: nv12_to_rgb24_def checked_def frame_to_rgb24_def cpu_nv12_to_rgb24_def
          cpu_rgb_rows_eq with_pixels_def Let_def)
  next
    case False
    then show ?thesis
      using assms
      by (auto simp: nv12_to_rgb24_def checked_def frame_to_rgb24_def cpu_nv12_to_rgb24_def slice_def Let_def)
  qed
qed

text \<open>The CPU back end's own NV12 converter is the one of the capture component: on every NV12
  frame, whatever its size and its bytes, both give the same pixels, both report an error, or both
  panic.\<close>

lemma cpu_conversion_agrees:
  assumes "fm_format (frame_meta f) = Nv12"
  shows "case nv12_to_rgb24 f of
      None \<Rightarrow> frame_to_rgb24 f = None
    | Some (Inl _) \<Rightarrow> \<exists>e. frame_to_rgb24 f = Some (Inl e)
    | Some (Inr g) \<Rightarrow> frame_to_rgb24 f = Some (Inr (frame_data g))"
  using assms by (rule frame_to_rgb24_nv12)

definition nv12_frame :: frame where
  "nv12_frame = \<lparr>frame_data = [16, 90, 160, 235, 100, 200],
     frame_meta = \<lparr>fm_width = 2, fm_height = 2, fm_format = Nv12, fm_captured_at = 0, fm_seq = 7\<rparr>\<rparr>"

lemma cpu_conversion_agrees_witness:
  "\<exists>g. nv12_to_rgb24 nv12_frame = Some (Inr g) \<and> frame_to_rgb24 nv12_frame = Some (Inr (frame_data g))"
proof -
  have "\<exists>g. nv12_to_rgb24 nv12_frame = Some (Inr g)"
    by (simp add: nv12_frame_def nv12_to_rgb24_def checked_def chunks_exact_step slice_def)
  moreover have "fm_format (frame_meta nv12_frame) = Nv12" by (simp add: nv12_frame_def)
  ultimately show ?thesis using cpu_conversion_agrees [of nv12_frame] by auto
qed

section \<open>Every frame is answered\<close>

lemma frame_to_rgb24_total:
  assumes "0 < unat (fm_width (frame_meta f))"
    and "\<not> (fm_format (frame_meta f) = Nv12 \<and> odd (unat (fm_height (frame_meta f))))"
  shows "\<exists>r. frame_to_rgb24 f = Some r
    \<and> (\<forall>rgb. r = Inr rgb \<longrightarrow> length rgb = unat (fm_width (frame_meta f)) * unat (fm_height (frame_meta f)) * 3)"
proof (cases "fm_format (frame_meta f)")
  case Nv12
  let ?w = "unat (fm_width (frame_meta f))" and ?h = "unat (fm_height (frame_meta f))"
  have e: "even ?h" using assms(2) Nv12 by simp
  show ?thesis
  proof (cases "length (frame_data f) = ?w * ?h * 3 div 2")
    case True
    have s: "slice 0 (?w * ?h) (frame_data f) = Some (take (?w * ?h) (frame_data f))"
      using True by (simp add: slice_def)
    show ?thesis
      using nv12_rgb_ok [OF assms(1) True e] s True assms(1) Nv12
      by (auto simp: frame_to_rgb24_def cpu_nv12_to_rgb24_def cpu_rgb_rows_eq)
  next
    case False
    then show ?thesis using Nv12 by (simp add: frame_to_rgb24_def)
  qed
qed (auto simp: frame_to_rgb24_def Let_def)

lemma nchw_total:
  assumes "length lb = input_size * input_size * 3"
  shows "\<exists>tensor. rgb_to_nchw_f32 lb = Some tensor \<and> length tensor = 3 * input_size * input_size"
proof -
  have "length lb div 3 = input_size * input_size" using assms by simp
  then show ?thesis using assms by (simp add: rgb_to_nchw_f32_def length_chunks_exact Let_def)
qed

lemma postprocess_seq:
  "postprocess output nc na params thr iou seq now labels = Some ds \<Longrightarrow> d \<in> set ds \<Longrightarrow> d_frame_seq d = seq"
  by (auto simp: postprocess_def suppression_greedy detection_of_def split: if_splits)

text \<open>An output of fewer than \<open>2\<^sup>3\<^sup>2\<close> rows.\<close>

definition modest :: "(string, f32 list) result list \<Rightarrow> bool" where
  "modest outputs \<longleftrightarrow> (\<forall>floats. Inr floats \<in> set outputs \<longrightarrow> length floats div anchors_640 < 2 ^ 32)"

lemma read_outputs_total:
  assumes "modest outputs"
  shows "\<exists>r. read_outputs b seq now params outputs = Some r
    \<and> (\<forall>ds. r = Inr ds \<longrightarrow> (\<forall>d \<in> set ds. d_frame_seq d = seq))"
proof (cases outputs)
  case (Cons out rest)
  show ?thesis
  proof (cases out)
    case (Inr floats)
    let ?rows = "length floats div anchors_640"
    show ?thesis
    proof (cases "length floats mod anchors_640 = 0 \<and> 5 \<le> ?rows")
      case True
      have lt: "?rows < 2 ^ 32" using assms Cons Inr by (simp add: modest_def)
      then have u: "unat (of_nat (?rows - 4) :: u32) = ?rows - 4" by (simp add: unat_of_nat take_bit_nat_eq_self)
      have rows: "4 + (?rows - 4) = ?rows" "?rows * anchors_640 = length floats"
        using True div_mult_mod_eq [of "length floats" anchors_640] by simp_all
      have "\<exists>ds. postprocess floats (of_nat (?rows - 4)) anchors_640 params
        (cpu_confidence_threshold b) (cpu_iou_threshold b) seq now (cpu_labels b) = Some ds"
        using lt by (simp add: postprocess_def u rows)
      then show ?thesis using True Cons Inr by (auto simp: read_outputs_def dest: postprocess_seq)
    qed (use Cons Inr in \<open>auto simp: read_outputs_def\<close>)
  qed (use Cons in \<open>simp add: read_outputs_def\<close>)
qed (simp add: read_outputs_def)

lemma infer_sync_total:
  assumes dims: "0 < unat (fm_width (frame_meta f))" "0 < unat (fm_height (frame_meta f))"
      "unat (fm_width (frame_meta f)) \<le> 16384" "unat (fm_height (frame_meta f)) \<le> 16384"
    and nv: "\<not> (fm_format (frame_meta f) = Nv12 \<and> odd (unat (fm_height (frame_meta f))))"
    and run: "\<And>name t s outputs s'. ort_run ort name t s = (Inr outputs, s') \<Longrightarrow> modest outputs"
  shows "\<exists>r. fst (infer_sync ort now f b) = Some r
    \<and> (\<forall>ds. r = Inr ds \<longrightarrow> cpu_session b \<noteq> None \<and> (\<forall>d \<in> set ds. d_frame_seq d = fm_seq (frame_meta f)))"
proof (cases "cpu_session b")
  case (Some s)
  obtain r where r: "frame_to_rgb24 f = Some r"
    "\<And>rgb. r = Inr rgb \<Longrightarrow> length rgb = unat (fm_width (frame_meta f)) * unat (fm_height (frame_meta f)) * 3"
    using frame_to_rgb24_total [OF dims(1) nv] by blast
  show ?thesis
  proof (cases r)
    case (Inr rgb)
    obtain lb where lb: "letterbox rgb (fm_width (frame_meta f)) (fm_height (frame_meta f))
      = Some (lb, params_for_size (fm_width (frame_meta f)) (fm_height (frame_meta f)))"
      using letterbox_ok [OF dims r(2) [OF Inr]] by blast
    obtain tensor where t: "rgb_to_nchw_f32 lb = Some tensor" "length tensor = 3 * input_size * input_size"
      using nchw_total [OF letterbox_length [OF lb]] by blast
    show ?thesis
      using Some r(1) Inr lb t run read_outputs_total
      by (fastforce simp: infer_sync_def split: sum.split option.split prod.split)
  qed (use Some r(1) in \<open>simp add: infer_sync_def\<close>)
qed (simp add: infer_sync_def)

text \<open>The CPU back end answers every frame of at least one and at most 16384 pixels either way,
  whatever its format and its bytes and whatever the runtime returns (below \<open>2\<^sup>3\<^sup>2\<close> output rows):
  with an error, or with detections that carry the number of that frame, and detections only from an
  open session.  Only NV12 frames of odd height are excluded.\<close>

lemma cpu_infer_answers:
  assumes "0 < unat (fm_width (frame_meta f))" "0 < unat (fm_height (frame_meta f))"
    and "unat (fm_width (frame_meta f)) \<le> 16384" "unat (fm_height (frame_meta f)) \<le> 16384"
    and "\<not> (fm_format (frame_meta f) = Nv12 \<and> odd (unat (fm_height (frame_meta f))))"
    and "\<And>name t s outputs s'. ort_run ort name t s = (Inr outputs, s') \<Longrightarrow> modest outputs"
  shows "\<exists>r. fst (cpu_infer ort now f b) = Some r
    \<and> (\<forall>ds. r = Inr ds \<longrightarrow> cpu_session b \<noteq> None \<and> (\<forall>d \<in> set ds. d_frame_seq d = fm_seq (frame_meta f)))"
  using infer_sync_total [OF assms, where now = now and b = b] by (auto simp: cpu_infer_def)

text \<open>A runtime of one anchor class whose scores are all one.\<close>

definition flat_output :: "f32 list" where
  "flat_output = replicate (5 * 8400) (Fin 1)"

definition flat_ort :: "unit ort_ops" where
  "flat_ort = \<lparr> ort_builder = Inr (), ort_opt_level = Inr (), ort_threads = Inr (),
     ort_commit = (\<lambda>_. Inr ()), ort_input_name = (\<lambda>_. Some ''images''), ort_tensor = (\<lambda>_. Inr ()),
     ort_run = (\<lambda>_ _ s. (Inr [Inr flat_output], s)) \<rparr>"

lemma flat_modest: "ort_run flat_ort name t s = (Inr outputs, s') \<Longrightarrow> modest outputs"
proof -
  have "length flat_output = 5 * 8400" by (simp only: flat_output_def length_replicate)
  then show "ort_run flat_ort name t s = (Inr outputs, s') \<Longrightarrow> modest outputs"
    by (auto simp: flat_ort_def modest_def anchors_640_def)
qed

lemma cpu_infer_answers_witness:
  "\<exists>r. fst (cpu_infer flat_ort 0 nv12_frame (snd (cpu_init flat_ort (cpu_new [''person''] ''yolov8n.onnx'')))) = Some r"
proof -
  let ?b = "snd (cpu_init flat_ort (cpu_new [''person''] ''yolov8n.onnx''))"
  have "\<exists>r. fst (cpu_infer flat_ort 0 nv12_frame ?b) = Some r
    \<and> (\<forall>ds. r = Inr ds \<longrightarrow> cpu_session ?b \<noteq> None \<and> (\<forall>d \<in> set ds. d_frame_seq d = fm_seq (frame_meta nv12_frame)))"
    by (rule cpu_infer_answers) (simp_all add: nv12_frame_def flat_modest)
  then show ?thesis by blast
qed

end
