(* ===== verification/Visualizer.thy ===== *)
theory Visualizer
  imports Common_Types Floats Text
begin

text \<open>
  \<open>crates/cv-visualizer/src/lib.rs\<close>: annotated frames on disk.  The crates \<open>image\<close>, \<open>imageproc\<close> and
  \<open>ab_glyph\<close> are third-party, the record \<open>canvas\<close>: rectangles (\<open>of_size\<close> panics on empty ones,
  \<open>None\<close>), the drawing routines, the font's figures and the JPEG encoder.  \<open>None\<close> is a panic.
\<close>

section \<open>Constants and errors\<close>

datatype visualizer_error =
    VisIo string
  | ImageEncode string
  | UnsupportedFormat pixel_format
  | FrameSize u32 u32 nat
  | VisJson string
  | FontLoad string

type_synonym rgb = "u8 \<times> u8 \<times> u8"

definition BOX_COLOR :: rgb where
  "BOX_COLOR = (0, 255, 255)"

definition LABEL_BG :: rgb where
  "LABEL_BG = (0, 0, 0)"

definition TEXT_COLOR :: rgb where
  "TEXT_COLOR = (255, 255, 255)"

definition THICKNESS :: nat where
  "THICKNESS = 2"

definition LABEL_SCALE :: f32 where
  "LABEL_SCALE = Fin 14"

text \<open>Images \<open>'i\<close>, rectangles \<open>'r\<close>, fonts \<open>'f\<close>; positions are \<open>i32\<close>, sizes \<open>u32\<close>.\<close>

record ('i, 'r, 'f) canvas =
  cv_from_raw :: "u32 \<Rightarrow> u32 \<Rightarrow> u8 list \<Rightarrow> 'i option"
  cv_into_raw :: "'i \<Rightarrow> u8 list"
  cv_width :: "'i \<Rightarrow> u32"
  cv_height :: "'i \<Rightarrow> u32"
  cv_rect :: "int \<times> int \<Rightarrow> u32 \<times> u32 \<Rightarrow> 'r option"
  cv_left :: "'r \<Rightarrow> int"
  cv_top :: "'r \<Rightarrow> int"
  cv_rect_width :: "'r \<Rightarrow> u32"
  cv_rect_height :: "'r \<Rightarrow> u32"
  cv_hollow :: "'r \<Rightarrow> rgb \<Rightarrow> 'i \<Rightarrow> 'i"
  cv_filled :: "'r \<Rightarrow> rgb \<Rightarrow> 'i \<Rightarrow> 'i"
  cv_text :: "rgb \<Rightarrow> int \<times> int \<Rightarrow> f32 \<Rightarrow> 'f \<Rightarrow> string \<Rightarrow> 'i \<Rightarrow> 'i"
  cv_advance :: "'f \<Rightarrow> f32 \<Rightarrow> char \<Rightarrow> f32"
  cv_line_height :: "'f \<Rightarrow> f32 \<Rightarrow> f32"
  cv_encode :: "'i \<Rightarrow> (string, u8 list) result"

section \<open>Drawing\<close>

text \<open>\<open>f32::ceil\<close>, and the saturating cast \<open>as i32\<close>.\<close>

definition f32_ceil :: "f32 \<Rightarrow> f32" where
  "f32_ceil x = (case x of Fin q \<Rightarrow> if \<lceil>q\<rceil> = 0 \<and> q < 0 then NZero else Fin (of_int \<lceil>q\<rceil>) | _ \<Rightarrow> x)"

definition as_i32 :: "f32 \<Rightarrow> int" where
  "as_i32 x = (case x of NaN \<Rightarrow> 0 | PInf \<Rightarrow> 2 ^ 31 - 1 | NInf \<Rightarrow> - (2 ^ 31) | NZero \<Rightarrow> 0
     | Fin q \<Rightarrow> max (- (2 ^ 31)) (min (2 ^ 31 - 1) (truncq q)))"

definition frame_to_rgb_image ::
  "('i, 'r, 'f) canvas \<Rightarrow> frame \<Rightarrow> (visualizer_error, 'i) result" where
  "frame_to_rgb_image cv f =
    (let m = frame_meta f; w = fm_width m; h = fm_height m; expected = unat w * unat h * 3
     in if fm_format m \<noteq> Rgb24 then Inl (UnsupportedFormat (fm_format m))
        else if length (frame_data f) \<noteq> expected then Inl (FrameSize w h (length (frame_data f)))
        else case cv_from_raw cv w h (frame_data f) of
               Some img \<Rightarrow> Inr img | None \<Rightarrow> Inl (FrameSize w h expected))"

fun draw_insets ::
  "('i, 'r, 'f) canvas \<Rightarrow> 'r \<Rightarrow> rgb \<Rightarrow> nat list \<Rightarrow> 'i \<Rightarrow> 'i option" where
  "draw_insets cv rect color [] img = Some img"
| "draw_insets cv rect color (i # is) img =
    (let x = cv_left cv rect + int i; y = cv_top cv rect + int i;
         w = sint (cv_rect_width cv rect) - 2 * int i; h = sint (cv_rect_height cv rect) - 2 * int i
     in if 0 < w \<and> 0 < h
        then case cv_rect cv (x, y) (word_of_int w, word_of_int h) of
               None \<Rightarrow> None | Some r \<Rightarrow> draw_insets cv rect color is (cv_hollow cv r color img)
        else draw_insets cv rect color is img)"

definition draw_thick_rect ::
  "('i, 'r, 'f) canvas \<Rightarrow> 'r \<Rightarrow> rgb \<Rightarrow> nat \<Rightarrow> 'i \<Rightarrow> 'i option" where
  "draw_thick_rect cv rect color thickness = draw_insets cv rect color [0..<thickness]"

definition text_width :: "('i, 'r, 'f) canvas \<Rightarrow> 'f \<Rightarrow> string \<Rightarrow> u32 option" where
  "text_width cv font s =
    checked_add (as_u32 (f32_ceil (fold (\<lambda>c w. w + cv_advance cv font LABEL_SCALE c) s (Fin 0)))) 6"

text \<open>The label beside a box; \<open>y + height + 2\<close> is checked.\<close>

definition draw_label ::
  "('i, 'r, 'f) canvas \<Rightarrow> 'f \<Rightarrow> string \<Rightarrow> bounding_box \<Rightarrow> 'i \<Rightarrow> 'i option" where
  "draw_label cv font label b img =
    (case (text_width cv font label,
           checked_add (as_u32 (f32_ceil (cv_line_height cv font LABEL_SCALE))) 4) of
       (Some label_w, Some label_h) \<Rightarrow>
         let img_w = cv_width cv img; img_h = cv_height cv img;
             lx = min (b_x b) (saturating_sub img_w label_w);
             ly_above = saturating_sub (b_y b) label_h;
             ly = (if 0 < ly_above then Some ly_above
                   else case checked_add (b_y b) (b_height b) of
                          None \<Rightarrow> None | Some below \<Rightarrow> checked_add below 2)
         in (case ly of
               None \<Rightarrow> None
             | Some ly \<Rightarrow>
                 (case cv_rect cv (sint lx, sint ly) (min label_w img_w, min label_h img_h) of
                    None \<Rightarrow> None
                  | Some bg \<Rightarrow> Some (cv_text cv TEXT_COLOR (sint lx + 3, sint ly + 2) LABEL_SCALE font label
                                     (cv_filled cv bg LABEL_BG img))))
     | _ \<Rightarrow> None)"

text \<open>\<open>show_score\<close> is the formatting of a float with two decimals.\<close>

definition draw_detection ::
  "('i, 'r, 'f) canvas \<Rightarrow> (f32 \<Rightarrow> string) \<Rightarrow> 'f option \<Rightarrow> detection \<Rightarrow> 'i \<Rightarrow> 'i option" where
  "draw_detection cv show_score font d img =
    (let b = d_bbox d
     in case cv_rect cv (sint (b_x b), sint (b_y b)) (b_width b, b_height b) of
          None \<Rightarrow> None
        | Some rect \<Rightarrow>
            (case draw_thick_rect cv rect BOX_COLOR THICKNESS img of
               None \<Rightarrow> None
             | Some img1 \<Rightarrow>
                 (case font of
                    None \<Rightarrow> Some img1
                  | Some fnt \<Rightarrow>
                      draw_label cv fnt (d_class d @ '' '' @ show_score (d_confidence d)) b img1)))"

fun draw_detections ::
  "('i, 'r, 'f) canvas \<Rightarrow> (f32 \<Rightarrow> string) \<Rightarrow> 'f option \<Rightarrow> detection list \<Rightarrow> 'i \<Rightarrow> 'i option" where
  "draw_detections cv show_score font [] img = Some img"
| "draw_detections cv show_score font (d # ds) img =
    (case draw_detection cv show_score font d img of
       None \<Rightarrow> None | Some img' \<Rightarrow> draw_detections cv show_score font ds img')"

definition annotate ::
  "('i, 'r, 'f) canvas \<Rightarrow> (f32 \<Rightarrow> string) \<Rightarrow> 'f option \<Rightarrow> frame \<Rightarrow> detection list
     \<Rightarrow> (visualizer_error, 'i) result option" where
  "annotate cv show_score font f ds =
    (case frame_to_rgb_image cv f of
       Inl e \<Rightarrow> Some (Inl e) | Inr img \<Rightarrow> map_option Inr (draw_detections cv show_score font ds img))"

text \<open>The lines of the overlay, one below the other.\<close>

fun draw_lines :: "('i, 'r, 'f) canvas \<Rightarrow> 'f \<Rightarrow> int \<Rightarrow> int \<Rightarrow> string list \<Rightarrow> 'i \<Rightarrow> 'i option" where
  "draw_lines cv font line_h y [] img = Some img"
| "draw_lines cv font line_h y (line # lines) img =
    (case text_width cv font line of
       None \<Rightarrow> None
     | Some line_w \<Rightarrow>
         (case cv_rect cv (0, y) (line_w, word_of_int line_h) of
            None \<Rightarrow> None
          | Some bg \<Rightarrow> draw_lines cv font line_h (y + line_h) lines
              (cv_text cv TEXT_COLOR (3, y + 2) LABEL_SCALE font line (cv_filled cv bg LABEL_BG img))))"

definition draw_osd :: "('i, 'r, 'f) canvas \<Rightarrow> 'f \<Rightarrow> string list \<Rightarrow> 'i \<Rightarrow> 'i option" where
  "draw_osd cv font lines img =
    draw_lines cv font (as_i32 (f32_ceil (cv_line_height cv font LABEL_SCALE)) + 4) 2 lines img"

definition encode_jpeg :: "('i, 'r, 'f) canvas \<Rightarrow> 'i \<Rightarrow> (visualizer_error, u8 list) result" where
  "encode_jpeg cv img = (case cv_encode cv img of Inl e \<Rightarrow> Inl (ImageEncode e) | Inr b \<Rightarrow> Inr b)"

section \<open>The writer\<close>

record bbox_record =
  br_class :: string
  br_class_id :: u32
  br_confidence :: f32
  br_bbox :: "u32 list"

record detection_record =
  dr_frame_seq :: u64
  dr_timestamp :: string
  dr_width :: u32
  dr_height :: u32
  dr_n :: nat
  dr_detections :: "bbox_record list"

record 'f frame_writer =
  fw_frames_dir :: string
  fw_jsonl_path :: string
  fw_save_every_n :: u64
  fw_font :: "'f option"
  fw_frame_counter :: u64
  fw_saved_counter :: u64

text \<open>The files, by path; a call that fails leaves them as they are.\<close>

type_synonym files = "string \<Rightarrow> u8 list option"

definition join :: "string \<Rightarrow> string \<Rightarrow> string" where
  "join dir name = dir @ ''/'' @ name"

definition writer_new ::
  "(string, unit) result \<Rightarrow> string \<Rightarrow> u64 \<Rightarrow> (visualizer_error, 'f frame_writer) result" where
  "writer_new created out save_every_n =
    (case created of
       Inl e \<Rightarrow> Inl (VisIo e)
     | Inr _ \<Rightarrow> Inr \<lparr>fw_frames_dir = join out ''frames'', fw_jsonl_path = join out ''detections.jsonl'',
         fw_save_every_n = max save_every_n 1, fw_font = None, fw_frame_counter = 0, fw_saved_counter = 0\<rparr>)"

definition with_font_path ::
  "(string, u8 list) result \<Rightarrow> (u8 list \<Rightarrow> (string, 'f) result) \<Rightarrow> 'f frame_writer
     \<Rightarrow> (visualizer_error, 'f frame_writer) result" where
  "with_font_path read parse fw =
    (case read of
       Inl e \<Rightarrow> Inl (VisIo e)
     | Inr bytes \<Rightarrow> (case parse bytes of
         Inl e \<Rightarrow> Inl (FontLoad e) | Inr font \<Rightarrow> Inr (fw \<lparr>fw_font := Some font\<rparr>)))"

definition should_save :: "'f frame_writer \<Rightarrow> bool" where
  "should_save fw \<longleftrightarrow> fw_frame_counter fw mod fw_save_every_n fw = 0"

definition has_font :: "'f frame_writer \<Rightarrow> bool" where
  "has_font fw \<longleftrightarrow> fw_font fw \<noteq> None"

definition pad6 :: "string \<Rightarrow> string" where
  "pad6 s = replicate (6 - length s) CHR ''0'' @ s"

definition frame_name :: "u64 \<Rightarrow> string" where
  "frame_name saved_seq = ''seq_'' @ pad6 (dec (unat saved_seq)) @ ''.jpg''"

definition bbox_record_of :: "detection \<Rightarrow> bbox_record" where
  "bbox_record_of d = (let b = d_bbox d in
     \<lparr>br_class = d_class d, br_class_id = d_class_id d, br_confidence = d_confidence d,
      br_bbox = [b_x b, b_y b, b_width b, b_height b]\<rparr>)"

definition record_of :: "string \<Rightarrow> frame \<Rightarrow> detection list \<Rightarrow> detection_record" where
  "record_of timestamp f ds = (let m = frame_meta f in
     \<lparr>dr_frame_seq = fm_seq m, dr_timestamp = timestamp, dr_width = fm_width m, dr_height = fm_height m,
      dr_n = length ds, dr_detections = map bbox_record_of ds\<rparr>)"

text \<open>The outcomes of the file operations of one call, in their order, and the time stamp.\<close>

record save_io =
  si_write :: "(string, unit) result"
  si_timestamp :: string
  si_open :: "(string, unit) result"
  si_line :: "(string, unit) result"
  si_newline :: "(string, unit) result"

definition append_file :: "string \<Rightarrow> u8 list \<Rightarrow> files \<Rightarrow> files" where
  "append_file path bytes fs = fs (path \<mapsto> (case fs path of Some old \<Rightarrow> old @ bytes | None \<Rightarrow> bytes))"

definition append_record ::
  "(detection_record \<Rightarrow> (string, string) result) \<Rightarrow> save_io \<Rightarrow> string \<Rightarrow> detection_record \<Rightarrow> files
     \<Rightarrow> (visualizer_error, unit) result \<times> files" where
  "append_record to_json io path r fs =
    (case si_open io of
       Inl e \<Rightarrow> (Inl (VisIo e), fs)
     | Inr _ \<Rightarrow>
         let fs1 = append_file path [] fs
         in (case to_json r of
               Inl e \<Rightarrow> (Inl (VisJson e), fs1)
             | Inr line \<Rightarrow>
                 (case si_line io of
                    Inl e \<Rightarrow> (Inl (VisIo e), fs1)
                  | Inr _ \<Rightarrow>
                      let fs2 = append_file path (bytes_of line) fs1
                      in (case si_newline io of
                            Inl e \<Rightarrow> (Inl (VisIo e), fs2)
                          | Inr _ \<Rightarrow> (Inr (), append_file path [10] fs2)))))"

text \<open>The outer \<open>None\<close> is a panic of the drawing, after which only the counter has moved.\<close>

definition save ::
  "('i, 'r, 'f) canvas \<Rightarrow> (f32 \<Rightarrow> string) \<Rightarrow> (detection_record \<Rightarrow> (string, string) result) \<Rightarrow> save_io
     \<Rightarrow> frame \<Rightarrow> detection list \<Rightarrow> 'f frame_writer \<Rightarrow> files
     \<Rightarrow> (visualizer_error, string option) result option \<times> 'f frame_writer \<times> files" where
  "save cv show_score to_json io f ds fw fs =
    (let fw1 = fw \<lparr>fw_frame_counter := fw_frame_counter fw + 1\<rparr>
     in if \<not> should_save fw1 then (Some (Inr None), fw1, fs)
        else case annotate cv show_score (fw_font fw1) f ds of
               None \<Rightarrow> (None, fw1, fs)
             | Some (Inl e) \<Rightarrow> (Some (Inl e), fw1, fs)
             | Some (Inr img) \<Rightarrow>
                 (case encode_jpeg cv img of
                    Inl e \<Rightarrow> (Some (Inl e), fw1, fs)
                  | Inr jpeg \<Rightarrow>
                      let saved_seq = fw_saved_counter fw1 + 1;
                          path = join (fw_frames_dir fw1) (frame_name saved_seq)
                      in (case si_write io of
                            Inl e \<Rightarrow> (Some (Inl (VisIo e)), fw1, fs)
                          | Inr _ \<Rightarrow>
                              let fw2 = fw1 \<lparr>fw_saved_counter := saved_seq\<rparr>;
                                  fs1 = fs (path \<mapsto> jpeg)
                              in (case append_record to_json io (fw_jsonl_path fw2)
                                         (record_of (si_timestamp io) f ds) fs1 of
                                    (Inl e, fs2) \<Rightarrow> (Some (Inl e), fw2, fs2)
                                  | (Inr _, fs2) \<Rightarrow> (Some (Inr (Some path)), fw2, fs2)))))"

section \<open>The numbers of the files\<close>

lemma digits_value_zeros: "digits_value 0 (replicate k CHR ''0'' @ s) = digits_value 0 s"
  by (induction k) (simp_all add: digits_value_def)

lemma pad6_inj: "pad6 (dec m) = pad6 (dec n) \<longleftrightarrow> m = n"
  by (metis pad6_def digits_value_zeros digits_value_dec)

lemma frame_name_inj: "frame_name a = frame_name b \<longleftrightarrow> a = b"
  by (auto simp: frame_name_def pad6_inj word_unat_eq_iff)

text \<open>A session of the writer, up to the first panic; the calls carry their inputs.\<close>

type_synonym call = "save_io \<times> frame \<times> detection list"

fun save_all ::
  "('i, 'r, 'f) canvas \<Rightarrow> (f32 \<Rightarrow> string) \<Rightarrow> (detection_record \<Rightarrow> (string, string) result) \<Rightarrow> call list
     \<Rightarrow> 'f frame_writer \<Rightarrow> files \<Rightarrow> (visualizer_error, string option) result list \<times> 'f frame_writer \<times> files" where
  "save_all cv sc tj [] fw fs = ([], fw, fs)"
| "save_all cv sc tj ((io, f, ds) # calls) fw fs =
    (case save cv sc tj io f ds fw fs of
       (None, fw', fs') \<Rightarrow> ([], fw', fs')
     | (Some r, fw', fs') \<Rightarrow>
         (case save_all cv sc tj calls fw' fs' of (rs, fw'', fs'') \<Rightarrow> (r # rs, fw'', fs'')))"

definition stored :: "(visualizer_error, string option) result \<Rightarrow> string option" where
  "stored r = (case r of Inr p \<Rightarrow> p | Inl _ \<Rightarrow> None)"

definition path_of :: "'f frame_writer \<Rightarrow> u64 \<Rightarrow> string" where
  "path_of fw i = join (fw_frames_dir fw) (frame_name i)"

text \<open>The log is none of the frames.\<close>

definition separate :: "'f frame_writer \<Rightarrow> bool" where
  "separate fw \<longleftrightarrow> (\<forall>i. path_of fw i \<noteq> fw_jsonl_path fw)"

lemma path_of_inj [simp]: "path_of fw i = path_of fw j \<longleftrightarrow> i = j"
  by (simp add: path_of_def join_def frame_name_inj)

lemma append_record_files:
  assumes "append_record tj io jsonl r fs = (q, fs')" "p \<noteq> jsonl"
  shows "fs' p = fs p"
  using assms by (auto simp: append_record_def append_file_def Let_def split: sum.splits)

lemma save_step:
  assumes "save cv sc tj io f ds fw fs = (Some r, fw', fs')" "separate fw"
  defines "skip \<equiv> (fw_frame_counter fw + 1) mod fw_save_every_n fw \<noteq> 0"
  shows "fw' = fw \<lparr>fw_frame_counter := fw_frame_counter fw + 1, fw_saved_counter := fw_saved_counter fw'\<rparr>"
    and "r = Inr None \<longleftrightarrow> skip"
    and "fw_saved_counter fw' = fw_saved_counter fw \<and> stored r = None \<and> (\<forall>i. fs' (path_of fw i) = fs (path_of fw i))
      \<or> \<not> skip \<and> fw_saved_counter fw' = fw_saved_counter fw + 1
        \<and> (\<forall>p. stored r = Some p \<longrightarrow> p = path_of fw (fw_saved_counter fw + 1))
        \<and> (\<exists>img jpeg. annotate cv sc (fw_font fw) f ds = Some (Inr img) \<and> encode_jpeg cv img = Inr jpeg
            \<and> (\<forall>i. fs' (path_of fw i) = (if i = fw_saved_counter fw + 1 then Some jpeg else fs (path_of fw i))))"
proof -
  have log: "\<forall>i. g' (path_of fw i) = g (path_of fw i)"
    if "append_record tj io (fw_jsonl_path fw) q g = (w, g')" for tj io q g g' w
    using append_record_files [OF that] assms(2) by (simp add: separate_def)
  note cases = assms(1) [unfolded save_def should_save_def Let_def]
  show "fw' = fw \<lparr>fw_frame_counter := fw_frame_counter fw + 1, fw_saved_counter := fw_saved_counter fw'\<rparr>"
    using cases by (auto split: if_splits option.splits sum.splits prod.splits)
  show "r = Inr None \<longleftrightarrow> skip"
    using cases by (auto simp: skip_def split: if_splits option.splits sum.splits prod.splits)
  show "fw_saved_counter fw' = fw_saved_counter fw \<and> stored r = None \<and> (\<forall>i. fs' (path_of fw i) = fs (path_of fw i))
      \<or> \<not> skip \<and> fw_saved_counter fw' = fw_saved_counter fw + 1
        \<and> (\<forall>p. stored r = Some p \<longrightarrow> p = path_of fw (fw_saved_counter fw + 1))
        \<and> (\<exists>img jpeg. annotate cv sc (fw_font fw) f ds = Some (Inr img) \<and> encode_jpeg cv img = Inr jpeg
            \<and> (\<forall>i. fs' (path_of fw i) = (if i = fw_saved_counter fw + 1 then Some jpeg else fs (path_of fw i))))"
    using cases
    by (auto simp: skip_def stored_def path_of_def [symmetric] split: if_splits option.splits sum.splits prod.splits
        dest!: log)
qed

text \<open>The result of a call: skipped off the cadence; a stored frame is under a number above \<open>low\<close>.\<close>

definition call_kept ::
  "('i, 'r, 'f) canvas \<Rightarrow> (f32 \<Rightarrow> string) \<Rightarrow> 'f frame_writer \<Rightarrow> u64 \<Rightarrow> files \<Rightarrow> u64 \<Rightarrow> call
     \<Rightarrow> (visualizer_error, string option) result \<Rightarrow> bool" where
  "call_kept cv sc fw low fs count call r \<longleftrightarrow>
    (r = Inr None \<longleftrightarrow> count mod fw_save_every_n fw \<noteq> 0)
    \<and> (\<forall>p. stored r = Some p \<longrightarrow> (\<exists>i img jpeg. low < i \<and> p = path_of fw i
         \<and> annotate cv sc (fw_font fw) (fst (snd call)) (snd (snd call)) = Some (Inr img)
         \<and> encode_jpeg cv img = Inr jpeg \<and> fs p = Some jpeg))"

lemma call_kept_mono:
  "call_kept cv sc fw low fs count call r \<Longrightarrow> low' \<le> low \<Longrightarrow> call_kept cv sc fw low' fs count call r"
  unfolding call_kept_def by (meson order.strict_trans1)

lemma unat_suc_fits: "unat x < 2 ^ 64 - 1 \<Longrightarrow> unat (x + 1 :: u64) = Suc (unat x)"
  by (simp add: unat_word_ariths)

text \<open>What a session has stored after it: the frames of its calls, under increasing numbers.\<close>

lemma save_all_frames:
  assumes "save_all cv sc tj calls fw fs = (rs, fw', fs')" "separate fw"
    and "unat (fw_frame_counter fw) + length calls < 2 ^ 64"
    and "unat (fw_saved_counter fw) \<le> unat (fw_frame_counter fw)"
  shows "(\<forall>i \<le> fw_saved_counter fw. fs' (path_of fw i) = fs (path_of fw i))
    \<and> unat (fw_saved_counter fw') \<le> unat (fw_saved_counter fw) + length rs
    \<and> (\<forall>k < length rs. call_kept cv sc fw (fw_saved_counter fw) fs' (fw_frame_counter fw + of_nat (Suc k)) (calls ! k) (rs ! k))
    \<and> distinct (List.map_filter stored rs)"
  using assms
proof (induction calls arbitrary: fw fs rs)
  case Nil
  then show ?case by (simp add: map_filter_simps)
next
  case (Cons call calls)
  obtain io f ds where call: "call = (io, f, ds)" by (cases call)
  obtain q fw1 fs1 where s: "save cv sc tj io f ds fw fs = (q, fw1, fs1)" by (cases "save cv sc tj io f ds fw fs")
  show ?case
  proof (cases q)
    case None
    have "\<forall>i. fs1 (path_of fw i) = fs (path_of fw i)" "fw_saved_counter fw1 = fw_saved_counter fw"
      using s None by (auto simp: save_def Let_def split: if_splits option.splits sum.splits prod.splits)
    then show ?thesis using Cons.prems(1) s None call by (simp add: map_filter_simps)
  next
    case (Some r)
    obtain rs1 where rest: "save_all cv sc tj calls fw1 fs1 = (rs1, fw', fs')" "rs = r # rs1"
      using Cons.prems(1) s Some call by (auto split: prod.splits)
    note st = save_step [OF s [unfolded Some] Cons.prems(2)]
    have path: "path_of fw1 = path_of fw" and same: "fw_save_every_n fw1 = fw_save_every_n fw"
      "fw_font fw1 = fw_font fw" "fw_frame_counter fw1 = fw_frame_counter fw + 1"
      and sep: "separate fw1"
      using Cons.prems(2) by (subst st(1), simp add: path_of_def separate_def fun_eq_iff)+
    have up: "unat (fw_frame_counter fw1) = Suc (unat (fw_frame_counter fw))"
      "unat (fw_saved_counter fw + 1) = Suc (unat (fw_saved_counter fw))"
      unfolding same using Cons.prems(3,4) by (simp_all add: unat_suc_fits)
    have stored_one: "fw_saved_counter fw \<le> fw_saved_counter fw1"
      "unat (fw_saved_counter fw1) \<le> Suc (unat (fw_saved_counter fw))"
      using st(3) up(2) by (auto simp: word_le_nat_alt)
    have IH: "(\<forall>i \<le> fw_saved_counter fw1. fs' (path_of fw i) = fs1 (path_of fw i))
      \<and> unat (fw_saved_counter fw') \<le> unat (fw_saved_counter fw1) + length rs1
      \<and> (\<forall>k < length rs1. call_kept cv sc fw (fw_saved_counter fw1) fs' (fw_frame_counter fw + 1 + of_nat (Suc k)) (calls ! k) (rs1 ! k))
      \<and> distinct (List.map_filter stored rs1)"
      using Cons.IH [OF rest(1) sep] Cons.prems(3,4) up stored_one unfolding call_kept_def path same by simp
    have later: "\<exists>i. fw_saved_counter fw1 < i \<and> p = path_of fw i" if p: "p \<in> set (List.map_filter stored rs1)" for p
    proof -
      obtain k where "k < length rs1" "stored (rs1 ! k) = Some p"
        using p by (auto simp: List.map_filter_def in_set_conv_nth)
      then show ?thesis using IH by (fastforce simp: call_kept_def)
    qed
    have one: "stored r = Some p \<Longrightarrow> fw_saved_counter fw1 = fw_saved_counter fw + 1
      \<and> fw_saved_counter fw < fw_saved_counter fw1 \<and> p = path_of fw (fw_saved_counter fw + 1)
      \<and> (\<exists>img jpeg. annotate cv sc (fw_font fw) f ds = Some (Inr img) \<and> encode_jpeg cv img = Inr jpeg
          \<and> fs' p = Some jpeg)" for p
      using st(3) IH up(2) by (auto simp: word_less_nat_alt)
    have kept: "\<forall>i \<le> fw_saved_counter fw. fs' (path_of fw i) = fs (path_of fw i)"
    proof (intro allI impI)
      fix i assume i: "i \<le> fw_saved_counter fw"
      then have "i \<noteq> fw_saved_counter fw + 1" using up(2) by (auto simp: word_le_nat_alt)
      then have "fs1 (path_of fw i) = fs (path_of fw i)" using st(3) by auto
      moreover have "i \<le> fw_saved_counter fw1" using i stored_one(1) by (rule order_trans)
      ultimately show "fs' (path_of fw i) = fs (path_of fw i)" using IH by simp
    qed
    have calls: "\<forall>k < length rs. call_kept cv sc fw (fw_saved_counter fw) fs' (fw_frame_counter fw + of_nat (Suc k)) ((call # calls) ! k) (rs ! k)"
    proof (intro allI impI)
      fix k assume k: "k < length rs"
      show "call_kept cv sc fw (fw_saved_counter fw) fs' (fw_frame_counter fw + of_nat (Suc k)) ((call # calls) ! k) (rs ! k)"
      proof (cases k)
        case 0
        then show ?thesis using st(2) one rest(2) call by (auto simp: call_kept_def)
      next
        case (Suc j)
        then have "j < length rs1" using k rest(2) by simp
        then have "call_kept cv sc fw (fw_saved_counter fw1) fs'
            (fw_frame_counter fw + 1 + of_nat (Suc j)) (calls ! j) (rs1 ! j)" using IH by blast
        from call_kept_mono [OF this stored_one(1)] show ?thesis using Suc rest(2) by (simp add: add.assoc)
      qed
    qed
    have "distinct (List.map_filter stored rs)"
    proof (cases "stored r")
      case None
      then show ?thesis using IH rest(2) by (simp add: map_filter_simps)
    next
      case (Some p)
      have "p \<notin> set (List.map_filter stored rs1)"
        using later [of p] one [OF Some] by auto
      then show ?thesis using IH rest(2) Some by (simp add: map_filter_simps)
    qed
    then show ?thesis using kept calls IH stored_one(2) rest(2) by auto
  qed
qed

section \<open>Frames on disk\<close>

lemma save_all_length: "save_all cv sc tj calls fw fs = (rs, fw', fs') \<Longrightarrow> length rs \<le> length calls"
  by (induction calls arbitrary: fw fs rs) (auto split: prod.splits option.splits)

lemma of_nat_dvd_u64:
  assumes "m < 2 ^ 64"
  shows "(of_nat m :: u64) mod n = 0 \<longleftrightarrow> m mod unat n = 0"
  using assms by (simp add: word_unat_eq_iff unat_mod unat_of_nat take_bit_nat_eq_self)

text \<open>C26: In a session of a new writer, with or without a font and whatever the file system, the encoder and
  the drawing do, exactly the calls off the cadence are skipped (with \<open>n\<close> above 1 also the first
  ones), every path that was returned still holds the JPEG of exactly the frame and the detections of
  its call, and no path is returned twice.\<close>

theorem saved_frames_kept:
  assumes "writer_new (Inr ()) out n = Inr fw"
    and "save_all cv sc tj calls (fw \<lparr>fw_font := font\<rparr>) fs = (rs, fw', fs')" and "length calls < 2 ^ 64"
  shows "(\<forall>k < length rs. (rs ! k = Inr None \<longleftrightarrow> Suc k mod unat (max n 1) \<noteq> 0)
      \<and> (\<forall>p. rs ! k = Inr (Some p) \<longrightarrow> (\<exists>img jpeg.
           annotate cv sc font (fst (snd (calls ! k))) (snd (snd (calls ! k))) = Some (Inr img)
           \<and> encode_jpeg cv img = Inr jpeg \<and> fs' p = Some jpeg)))
    \<and> distinct (List.map_filter stored rs)"
proof -
  let ?fw = "fw \<lparr>fw_font := font\<rparr>"
  have fw: "fw_frame_counter ?fw = 0" "fw_saved_counter ?fw = 0" "fw_save_every_n ?fw = max n 1"
    "fw_font ?fw = font" "separate ?fw"
    using assms(1) by (auto simp: writer_new_def separate_def path_of_def join_def)
  have len: "length rs \<le> length calls"
    by (rule save_all_length [OF assms(2)])
  have "unat (fw_frame_counter ?fw) + length calls < 2 ^ 64" "unat (fw_saved_counter ?fw) \<le> unat (fw_frame_counter ?fw)"
    using assms(3) by (simp_all only: fw unat_0 add_0 order_refl)
  note kept = save_all_frames [OF assms(2) fw(5) this]
  have "(rs ! k = Inr None \<longleftrightarrow> Suc k mod unat (max n 1) \<noteq> 0)
      \<and> (\<forall>p. rs ! k = Inr (Some p) \<longrightarrow> (\<exists>img jpeg.
           annotate cv sc font (fst (snd (calls ! k))) (snd (snd (calls ! k))) = Some (Inr img)
           \<and> encode_jpeg cv img = Inr jpeg \<and> fs' p = Some jpeg))" if k: "k < length rs" for k
  proof -
    have "call_kept cv sc ?fw 0 fs' (0 + of_nat (Suc k)) (calls ! k) (rs ! k)" using kept k unfolding fw by blast
    moreover have "(of_nat (Suc k) :: u64) mod max n 1 = 0 \<longleftrightarrow> Suc k mod unat (max n 1) = 0"
      using k len assms(3) by (intro of_nat_dvd_u64) simp
    ultimately show ?thesis by (auto simp: call_kept_def fw stored_def simp del: of_nat_Suc)
  qed
  then show ?thesis using kept by blast
qed

text \<open>A canvas of raw bytes that draws nothing, and two calls of a writer that stores every second.\<close>

definition raw_canvas :: "(u8 list, unit, unit) canvas" where
  "raw_canvas = \<lparr>cv_from_raw = (\<lambda>_ _ b. Some b), cv_into_raw = (\<lambda>b. b), cv_width = (\<lambda>_. 1), cv_height = (\<lambda>_. 1),
     cv_rect = (\<lambda>_ _. Some ()), cv_left = (\<lambda>_. 0), cv_top = (\<lambda>_. 0), cv_rect_width = (\<lambda>_. 1),
     cv_rect_height = (\<lambda>_. 1), cv_hollow = (\<lambda>_ _ i. i), cv_filled = (\<lambda>_ _ i. i), cv_text = (\<lambda>_ _ _ _ _ i. i),
     cv_advance = (\<lambda>_ _ _. Fin 7), cv_line_height = (\<lambda>_ _. Fin 14), cv_encode = Inr\<rparr>"

definition dot_frame :: frame where
  "dot_frame = \<lparr>frame_data = [1, 2, 3],
     frame_meta = \<lparr>fm_width = 1, fm_height = 1, fm_format = Rgb24, fm_captured_at = 0, fm_seq = 7\<rparr>\<rparr>"

definition good_io :: save_io where
  "good_io = \<lparr>si_write = Inr (), si_timestamp = ''t'', si_open = Inr (), si_line = Inr (), si_newline = Inr ()\<rparr>"

theorem saved_frames_kept_witness:
  "\<exists>fw rs fw' fs'. writer_new (Inr ()) ''out'' 2 = Inr fw
    \<and> save_all raw_canvas (\<lambda>_. []) (\<lambda>_. Inr ''r'') [(good_io, dot_frame, []), (good_io, dot_frame, [])]
        (fw \<lparr>fw_font := None\<rparr>) (\<lambda>_. None) = (rs, fw', fs')
    \<and> rs = [Inr None, Inr (Some (path_of fw 1))] \<and> fs' (path_of fw 1) = Some [1, 2, 3]"
proof -
  let ?calls = "[(good_io, dot_frame, []), (good_io, dot_frame, [])] :: call list"
  obtain fw :: "unit frame_writer" where fw: "writer_new (Inr ()) ''out'' 2 = Inr fw" by (simp add: writer_new_def)
  obtain rs fw' fs' where run: "save_all raw_canvas (\<lambda>_. []) (\<lambda>_. Inr ''r'') ?calls (fw \<lparr>fw_font := None\<rparr>) (\<lambda>_. None)
    = (rs, fw', fs')" by (metis prod_cases3)
  have rs: "rs = [Inr None, Inr (Some (path_of fw 1))]"
    using run fw
    by (auto simp: writer_new_def save_def should_save_def annotate_def frame_to_rgb_image_def raw_canvas_def
        dot_frame_def good_io_def encode_jpeg_def append_record_def path_of_def Let_def)
  have "length ?calls < 2 ^ 64" by simp
  from saved_frames_kept [OF fw run this] rs
  have "\<exists>img jpeg. annotate raw_canvas (\<lambda>_. []) None dot_frame [] = Some (Inr img)
      \<and> encode_jpeg raw_canvas img = Inr jpeg \<and> fs' (path_of fw 1) = Some jpeg"
    by (auto simp: less_Suc_eq)
  then have "fs' (path_of fw 1) = Some [1, 2, 3]"
    by (simp add: annotate_def frame_to_rgb_image_def raw_canvas_def dot_frame_def encode_jpeg_def)
  with fw run rs show ?thesis by blast
qed

text \<open>\<open>should_save\<close> speaks of the previous call: on a new writer it announces a save that is skipped.\<close>

lemma should_save_premature:
  assumes "writer_new (Inr ()) out n = Inr fw" "1 < n"
  shows "should_save fw \<and> fst (save cv sc tj io f ds fw fs) = Some (Inr None)"
proof -
  have "(1 :: u64) mod n = 1" using assms(2) by (rule mod_word_less)
  then show ?thesis using assms by (auto simp: writer_new_def should_save_def save_def max_def)
qed

text \<open>A detection of an empty box stops the program.\<close>

lemma empty_box_panics:
  assumes "\<And>pos s. fst s = 0 \<or> snd s = 0 \<Longrightarrow> cv_rect cv pos s = None"
    and "b_width (d_bbox d) = 0 \<or> b_height (d_bbox d) = 0"
  shows "draw_detection cv sc font d img = None"
  using assms by (simp add: draw_detection_def Let_def)

end
