(* ===== verification/Recorder.thy ===== *)
theory Recorder
  imports Visualizer Convert Shm_Refine Event_Bus
begin

text \<open>
  \<open>crates/video-recorder/src/lib.rs\<close>: the component that writes the frames of the ring into an
  \<open>ffmpeg\<close> process.  Clock readings, the outcomes of the process calls and of the writes, and the ring
  as an iteration finds it are inputs.  The overlay is drawn by \<open>Visualizer.draw_osd\<close>.
\<close>

section \<open>Configuration\<close>

text \<open>\<open>RecNoFrames\<close> is \<open>Shm(AttachFailed(no frames within quiet timeout))\<close>.\<close>

datatype recorder_error =
    FfmpegNotFound string
  | Ffmpeg string
  | PipeWrite string
  | RecShm ring_error
  | RecNoFrames
  | RecConvert conversion_error
  | RecFont string
  | RecInvalidConfig string

datatype read_mode = Sequential | Latest

record recorder_config =
  rr_segment :: string
  rr_output :: string
  rr_fps :: u32
  rr_mode :: read_mode
  rr_osd :: bool
  rr_font :: "string option"
  rr_max_duration :: "duration option"
  rr_quiet_timeout :: "duration option"
  rr_bus :: "string option"

definition recorder_config_default :: recorder_config where
  "recorder_config_default = \<lparr>
     rr_segment = ''autotarget.frames'', rr_output = ''output/rec.mp4'', rr_fps = 30, rr_mode = Sequential,
     rr_osd = True, rr_font = None, rr_max_duration = None, rr_quiet_timeout = Some (from_secs 5),
     rr_bus = None \<rparr>"

record recorder_stats =
  rs_frames_received :: u64
  rs_frames_written :: u64
  rs_jumps :: u64
  rs_osd_frames :: u64

definition recorder_stats_default :: recorder_stats where
  "recorder_stats_default = \<lparr>rs_frames_received = 0, rs_frames_written = 0, rs_jumps = 0, rs_osd_frames = 0\<rparr>"

record recorder_status =
  ru_v :: u8
  ru_frames_written :: u64
  ru_jumps :: u64
  ru_recording :: bool
  ru_output :: string

text \<open>\<open>Recorder::new\<close>: reading and parsing the font are given by their outcomes.\<close>

definition recorder_new ::
  "(string \<Rightarrow> (string, u8 list) result) \<Rightarrow> (u8 list \<Rightarrow> (string, 'f) result) \<Rightarrow> recorder_config
     \<Rightarrow> (recorder_error, 'f option) result" where
  "recorder_new read parse cfg =
    (if rr_fps cfg = 0 then Inl (RecInvalidConfig ''fps must be > 0'')
     else case (rr_font cfg, rr_osd cfg) of
            (Some path, True) \<Rightarrow>
              (case read path of
                 Inl e \<Rightarrow> Inl (RecFont (path @ '': '' @ e))
               | Inr bytes \<Rightarrow> (case parse bytes of Inl e \<Rightarrow> Inl (RecFont e) | Inr font \<Rightarrow> Inr (Some font)))
          | _ \<Rightarrow> Inr None)"

section \<open>The encoder process\<close>

record raw_writer =
  rw_width :: u32
  rw_height :: u32
  rw_stdin :: bool
  rw_bytes_written :: u64

definition encoder_args :: "string \<Rightarrow> u32 \<Rightarrow> u32 \<Rightarrow> u32 \<Rightarrow> string list" where
  "encoder_args output width height fps =
    [''-y'', ''-loglevel'', ''error'', ''-f'', ''rawvideo'', ''-pix_fmt'', ''rgb24'',
     ''-s'', dec (unat width) @ ''x'' @ dec (unat height), ''-r'', dec (unat fps), ''-i'', ''pipe:0'',
     ''-c:v'', ''libx264'', ''-preset'', ''veryfast'', ''-crf'', ''23'', ''-pix_fmt'', ''yuv420p'', output]"

definition spawn ::
  "bool \<Rightarrow> (string list \<Rightarrow> (string, unit) result) \<Rightarrow> string \<Rightarrow> u32 \<Rightarrow> u32 \<Rightarrow> u32
     \<Rightarrow> (recorder_error, raw_writer) result" where
  "spawn available run output width height fps =
    (if \<not> available then Inl (FfmpegNotFound ''install ffmpeg (encoder for the recorder)'')
     else case run (encoder_args output width height fps) of
            Inl e \<Rightarrow> Inl (Ffmpeg e)
          | Inr _ \<Rightarrow> Inr \<lparr>rw_width = width, rw_height = height, rw_stdin = True, rw_bytes_written = 0\<rparr>)"

definition pipe_frame ::
  "(string, unit) result \<Rightarrow> u8 list \<Rightarrow> raw_writer \<Rightarrow> (recorder_error, unit) result \<times> raw_writer" where
  "pipe_frame piped rgb w =
    (let expected = unat (rw_width w) * unat (rw_height w) * 3
     in if length rgb \<noteq> expected
        then (Inl (RecInvalidConfig (''frame size '' @ dec (length rgb) @ '' != '' @ dec expected)), w)
        else if \<not> rw_stdin w then (Inl (PipeWrite ''ffmpeg stdin closed''), w)
        else case piped of
               Inl e \<Rightarrow> (Inl (PipeWrite e), w)
             | Inr _ \<Rightarrow> (Inr (), w \<lparr>rw_bytes_written := rw_bytes_written w + of_nat expected\<rparr>))"

text \<open>The exit code of the process is \<open>Some 0\<close> when it succeeded.\<close>

definition show_code :: "int option \<Rightarrow> string" where
  "show_code code =
    (case code of
       None \<Rightarrow> ''None''
     | Some c \<Rightarrow> ''Some('' @ (if c < 0 then ''-'' else []) @ dec (nat \<bar>c\<bar>) @ '')'')"

definition writer_finish :: "(string, int option) result \<Rightarrow> (recorder_error, unit) result" where
  "writer_finish waited =
    (case waited of
       Inl e \<Rightarrow> Inl (Ffmpeg e)
     | Inr code \<Rightarrow> if code = Some 0 then Inr () else Inl (Ffmpeg (''exit code '' @ show_code code)))"

section \<open>Taking frames\<close>

definition rec_acquire ::
  "read_mode \<Rightarrow> u32 \<Rightarrow> u64 \<Rightarrow> recorder_stats \<Rightarrow> region
     \<Rightarrow> frame_guard option \<times> u64 \<times> recorder_stats \<times> region" where
  "rec_acquire mode pid last_id stats rg =
    (case mode of
       Sequential \<Rightarrow>
         (case next_after pid last_id rg of
            (NextFrame g, rg1) \<Rightarrow> (Some g, fv_frame_id (g_view g), stats, rg1)
          | (UpToDate, rg1) \<Rightarrow> (None, last_id, stats, rg1)
          | (TooFarBehind _ newest, rg1) \<Rightarrow>
              let stats1 = stats \<lparr>rs_jumps := rs_jumps stats + 1\<rparr>
              in (case next_after pid newest rg1 of
                    (NextFrame g, rg2) \<Rightarrow> (Some g, fv_frame_id (g_view g), stats1, rg2)
                  | (_, rg2) \<Rightarrow> (None, newest, stats1, rg2)))
     | Latest \<Rightarrow>
         (case latest pid rg of
            (Some g, rg1) \<Rightarrow> (Some g, fv_frame_id (g_view g), stats, rg1)
          | (None, rg1) \<Rightarrow> (None, last_id, stats, rg1)))"

fun rec_wait_first ::
  "read_mode \<Rightarrow> u32 \<Rightarrow> instant \<Rightarrow> u64 \<Rightarrow> recorder_stats \<Rightarrow> (instant \<times> region) list
     \<Rightarrow> (recorder_error, frame_guard \<times> region) result option" where
  "rec_wait_first mode pid deadline last_id stats [] = None"
| "rec_wait_first mode pid deadline last_id stats ((now, rg) # rest) =
    (if now < deadline
     then case rec_acquire mode pid last_id stats rg of
            (Some g, _, _, rg') \<Rightarrow> Some (Inr (g, rg'))
          | (None, last', stats', _) \<Rightarrow> rec_wait_first mode pid deadline last' stats' rest
     else Some (Inl RecNoFrames))"

definition first_deadline :: "recorder_config \<Rightarrow> instant \<Rightarrow> instant" where
  "first_deadline cfg now = now + (case rr_quiet_timeout cfg of Some q \<Rightarrow> q | None \<Rightarrow> from_secs 10)"

section \<open>The loop\<close>

record recorder_state =
  rd_writer :: raw_writer
  rd_stats :: recorder_stats
  rd_last :: u64
  rd_pending :: "frame_guard option"
  rd_started :: instant
  rd_last_frame_at :: instant
  rd_last_status :: instant

text \<open>Before the loop; \<open>wait_first\<close> keeps the number of the first frame to itself: \<open>last\<close> is zero.\<close>

definition recorder_start ::
  "recorder_config \<Rightarrow> bool \<Rightarrow> (string list \<Rightarrow> (string, unit) result) \<Rightarrow> instant \<Rightarrow> frame_guard
     \<Rightarrow> (recorder_error, storage_format \<times> recorder_state) result" where
  "recorder_start cfg available run now first =
    (case storage_format_of (g_view first) of
       None \<Rightarrow> Inl (RecInvalidConfig ''unsupported ring storage format'')
     | Some format \<Rightarrow>
         (case spawn available run (rr_output cfg) (fv_width (g_view first)) (fv_height (g_view first)) (rr_fps cfg) of
            Inl e \<Rightarrow> Inl e
          | Inr w \<Rightarrow> Inr (format, \<lparr>rd_writer = w, rd_stats = recorder_stats_default, rd_last = 0,
              rd_pending = Some first, rd_started = now, rd_last_frame_at = now, rd_last_status = now\<rparr>)))"

text \<open>
  The inputs of an iteration: the clock as it is read for each of the two limits, when a frame is taken
  and after the write, and the outcome of the write.  Its outcomes: the loop is left, no frame, an error of the component (the flag tells
  whether the encoder was aborted), a panic, or a frame written, perhaps with a status.
\<close>

record rec_input =
  ri_now :: instant
  ri_quiet :: instant
  ri_taken :: instant
  ri_written :: instant
  ri_pipe :: "(string, unit) result"

datatype rec_outcome =
    RecExit
  | RecWaiting
  | RecFailed bool recorder_error
  | RecPanicked
  | Wrote u64 "u8 list" "recorder_status option"

definition rec_must_exit :: "recorder_config \<Rightarrow> rec_input \<Rightarrow> recorder_state \<Rightarrow> bool" where
  "rec_must_exit cfg inp st \<longleftrightarrow>
     (case rr_max_duration cfg of Some limit \<Rightarrow> limit \<le> ri_now inp - rd_started st | None \<Rightarrow> False)
     \<or> (case rr_quiet_timeout cfg of
          Some q \<Rightarrow> q \<le> ri_quiet inp - rd_last_frame_at st \<and> 0 < rs_frames_received (rd_stats st) | None \<Rightarrow> False)"

definition rec_take :: "recorder_config \<Rightarrow> u32 \<Rightarrow> recorder_state \<Rightarrow> region
    \<Rightarrow> frame_guard option \<times> recorder_state \<times> region" where
  "rec_take cfg pid st rg =
    (case rd_pending st of
       Some g \<Rightarrow> (Some g, st \<lparr>rd_pending := None\<rparr>, rg)
     | None \<Rightarrow> (case rec_acquire (rr_mode cfg) pid (rd_last st) (rd_stats st) rg of
         (g, last', stats', rg') \<Rightarrow> (g, st \<lparr>rd_last := last', rd_stats := stats'\<rparr>, rg')))"

text \<open>The copy of the frame as RGB, made while the guard is held; \<open>None\<close> is a panic.\<close>

definition rgb_of_guard :: "storage_format \<Rightarrow> frame_guard \<Rightarrow> region \<Rightarrow> (conversion_error, u8 list) result option" where
  "rgb_of_guard format g rg =
    (case format of
       StRgb24 \<Rightarrow> Some (Inr (guard_data g rg))
     | StNv12 \<Rightarrow> (case nv12_to_rgb24 (to_frame g rg) of
         None \<Rightarrow> None | Some (Inl e) \<Rightarrow> Some (Inl e) | Some (Inr f) \<Rightarrow> Some (Inr (frame_data f))))"

definition format_name :: "storage_format \<Rightarrow> string" where
  "format_name format = (case format of StNv12 \<Rightarrow> ''Nv12'' | StRgb24 \<Rightarrow> ''Rgb24'')"

text \<open>\<open>show_time\<close> is chrono's formatting.\<close>

definition osd_lines :: "(utc \<Rightarrow> string) \<Rightarrow> u32 \<Rightarrow> u32 \<Rightarrow> storage_format \<Rightarrow> frame_view \<Rightarrow> string list" where
  "osd_lines show_time w h format v =
    [show_time (ts_ns_to_datetime (fv_ts_ns v)), ''frame '' @ dec (unat (fv_frame_id v)),
     dec (unat w) @ ''x'' @ dec (unat h) @ '' '' @ format_name format]"

definition burn_osd ::
  "('i, 'r, 'f) canvas \<Rightarrow> (utc \<Rightarrow> string) \<Rightarrow> u32 \<Rightarrow> u32 \<Rightarrow> storage_format \<Rightarrow> 'f \<Rightarrow> frame_view \<Rightarrow> u8 list
     \<Rightarrow> (recorder_error, u8 list) result option" where
  "burn_osd cv show_time w h format font v rgb =
    (case cv_from_raw cv w h rgb of
       None \<Rightarrow> Some (Inl (RecInvalidConfig ''rgb buffer''))
     | Some img \<Rightarrow> map_option (\<lambda>img. Inr (cv_into_raw cv img)) (draw_osd cv font (osd_lines show_time w h format v) img))"

definition write_rgb ::
  "(string, unit) result \<Rightarrow> u8 list \<Rightarrow> recorder_state \<Rightarrow> (recorder_error, unit) result \<times> recorder_state" where
  "write_rgb piped rgb st =
    (case pipe_frame piped rgb (rd_writer st) of
       (Inl e, w) \<Rightarrow> (Inl e, st \<lparr>rd_writer := w\<rparr>)
     | (Inr _, w) \<Rightarrow> (Inr (), st \<lparr>rd_writer := w,
         rd_stats := rd_stats st \<lparr>rs_frames_written := rs_frames_written (rd_stats st) + 1\<rparr>\<rparr>))"

definition recorder_status_of :: "recorder_config \<Rightarrow> bool \<Rightarrow> recorder_stats \<Rightarrow> recorder_status" where
  "recorder_status_of cfg recording stats =
    \<lparr>ru_v = contract_version, ru_frames_written = rs_frames_written stats, ru_jumps = rs_jumps stats,
     ru_recording = recording, ru_output = rr_output cfg\<rparr>"

text \<open>The status of the plain path; the overlay path continues with the next round before it.\<close>

definition rec_status ::
  "recorder_config \<Rightarrow> bool \<Rightarrow> instant \<Rightarrow> recorder_state \<Rightarrow> recorder_status option \<times> recorder_state" where
  "rec_status cfg bus now st =
    (if from_secs 1 \<le> now - rd_last_status st
     then ((if bus then Some (recorder_status_of cfg True (rd_stats st)) else None), st \<lparr>rd_last_status := now\<rparr>)
     else (None, st))"

definition encode_frame ::
  "('i, 'r, 'f) canvas \<Rightarrow> (utc \<Rightarrow> string) \<Rightarrow> 'f option \<Rightarrow> recorder_config \<Rightarrow> bool \<Rightarrow> u32 \<Rightarrow> u32 \<Rightarrow> storage_format
     \<Rightarrow> rec_input \<Rightarrow> frame_view \<Rightarrow> u8 list \<Rightarrow> recorder_state \<Rightarrow> rec_outcome \<times> recorder_state" where
  "encode_frame cv show_time font cfg bus w h format inp v rgb st =
    (case (rr_osd cfg, font) of
       (True, Some fnt) \<Rightarrow>
         (case burn_osd cv show_time w h format fnt v rgb of
            None \<Rightarrow> (RecPanicked, st)
          | Some (Inl e) \<Rightarrow> (RecFailed False e, st)
          | Some (Inr burnt) \<Rightarrow>
              (case write_rgb (ri_pipe inp) burnt st of
                 (Inl e, st1) \<Rightarrow> (RecFailed True e, st1)
               | (Inr _, st1) \<Rightarrow> (Wrote (fv_frame_id v) burnt None, st1)))
     | _ \<Rightarrow>
         (case write_rgb (ri_pipe inp) rgb st of
            (Inl e, st1) \<Rightarrow> (RecFailed True e, st1)
          | (Inr _, st1) \<Rightarrow>
              (case rec_status cfg bus (ri_written inp) st1 of
                 (status, st2) \<Rightarrow> (Wrote (fv_frame_id v) rgb status, st2))))"

definition recorder_tick ::
  "('i, 'r, 'f) canvas \<Rightarrow> (utc \<Rightarrow> string) \<Rightarrow> 'f option \<Rightarrow> recorder_config \<Rightarrow> bool \<Rightarrow> u32 \<Rightarrow> u32 \<Rightarrow> u32
     \<Rightarrow> storage_format \<Rightarrow> rec_input \<Rightarrow> recorder_state \<Rightarrow> region \<Rightarrow> rec_outcome \<times> recorder_state \<times> region" where
  "recorder_tick cv show_time font cfg bus pid w h format inp st rg =
    (if rec_must_exit cfg inp st then (RecExit, st, rg)
     else case rec_take cfg pid st rg of
            (None, st1, rg1) \<Rightarrow> (RecWaiting, st1, rg1)
          | (Some g, st1, rg1) \<Rightarrow>
              let st2 = st1 \<lparr>rd_last_frame_at := ri_taken inp,
                    rd_stats := rd_stats st1 \<lparr>rs_frames_received := rs_frames_received (rd_stats st1) + 1\<rparr>\<rparr>
              in case rgb_of_guard format g rg1 of
                   None \<Rightarrow> (RecPanicked, st2, guard_drop g rg1)
                 | Some (Inl e) \<Rightarrow> (RecFailed False (RecConvert e), st2, guard_drop g rg1)
                 | Some (Inr rgb) \<Rightarrow>
                     (case encode_frame cv show_time font cfg bus w h format inp (g_view g) rgb st2 of
                        (outcome, st3) \<Rightarrow> (outcome, st3, guard_drop g rg1)))"

fun rec_ends :: "rec_outcome \<Rightarrow> bool" where
  "rec_ends RecExit = True"
| "rec_ends (RecFailed _ _) = True"
| "rec_ends RecPanicked = True"
| "rec_ends _ = False"

fun recorder_loop ::
  "('i, 'r, 'f) canvas \<Rightarrow> (utc \<Rightarrow> string) \<Rightarrow> 'f option \<Rightarrow> recorder_config \<Rightarrow> bool \<Rightarrow> u32 \<Rightarrow> u32 \<Rightarrow> u32
     \<Rightarrow> storage_format \<Rightarrow> (rec_input \<times> region) list \<Rightarrow> recorder_state \<Rightarrow> rec_outcome list \<times> recorder_state" where
  "recorder_loop cv tm font cfg bus pid w h format [] st = ([], st)"
| "recorder_loop cv tm font cfg bus pid w h format ((inp, rg) # rest) st =
    (case recorder_tick cv tm font cfg bus pid w h format inp st rg of
       (outcome, st', _) \<Rightarrow>
         if rec_ends outcome then ([outcome], st')
         else case recorder_loop cv tm font cfg bus pid w h format rest st' of
                (outcomes, st'') \<Rightarrow> (outcome # outcomes, st''))"

text \<open>The guard that is still pending when the loop is left at once is dropped when \<open>run\<close> returns.\<close>

definition rec_release :: "recorder_state \<Rightarrow> region \<Rightarrow> region" where
  "rec_release st rg = (case rd_pending st of Some g \<Rightarrow> guard_drop g rg | None \<Rightarrow> rg)"

text \<open>After the loop: the encoder finishes, and the last status.\<close>

definition recorder_finish ::
  "(string, int option) result \<Rightarrow> recorder_config \<Rightarrow> bool \<Rightarrow> recorder_state
     \<Rightarrow> (recorder_error, recorder_stats \<times> recorder_status option) result" where
  "recorder_finish waited cfg bus st =
    (case writer_finish waited of
       Inl e \<Rightarrow> Inl e
     | Inr _ \<Rightarrow> Inr (rd_stats st, if bus then Some (recorder_status_of cfg False (rd_stats st)) else None))"

end
