(* ===== verification/Recorder_Properties.thy ===== *)
theory Recorder_Properties
  imports Recorder Detector_Properties
begin

text \<open>
  What the recorder writes, over the refinement of the ring: each written picture is made of exactly
  one frame of the ring's history, the slot is released however an iteration ends; the first frame
  is written twice; in the mode \<open>Latest\<close> a stalled stream is recorded for ever.
\<close>

section \<open>The frame an iteration takes\<close>

definition next_index :: "read_mode \<Rightarrow> history \<Rightarrow> region \<Rightarrow> u64 \<Rightarrow> nat option" where
  "next_index mode hist rg last_id =
    (case mode of
       Latest \<Rightarrow> if hist = [] then None else Some (length hist - 1)
     | Sequential \<Rightarrow>
         if length hist \<le> unat last_id \<or> unat last_id + unat (capacity (rg_header rg)) < length hist
         then None else Some (unat last_id))"

lemma rec_acquire_index:
  assumes rep: "ring_rep hist rg" and q: "quiescent rg"
    and run: "rec_acquire mode pid last_id stats rg = (g, last', stats', rg')"
  shows "case next_index mode hist rg last_id of
      None \<Rightarrow> g = None \<and> rg' = rg
    | Some k \<Rightarrow> in_window hist rg k \<and> g = Some (guard_of hist rg k) \<and> last' = of_nat (Suc k)
        \<and> stats' = stats \<and> rg' = take_slot pid (slot_of k rg) rg"
proof -
  have u: "unat (of_nat (length hist) :: u64) = length hist" and cap: "0 < unat (capacity (rg_header rg))"
    using rep by (auto intro: of_nat_u64 simp: ring_rep_def ring_wf_def)
  show ?thesis
  proof (cases mode)
    case Latest
    then show ?thesis
      using run latest_cases [OF rep q, of pid] cap
      by (cases hist) (auto simp: rec_acquire_def next_index_def guard_of_def frame_view_of_def in_window_def simp del: of_nat_Suc)
  next
    case Sequential
    then show ?thesis
      using run next_after_cases [OF rep q, of pid last_id] next_after_cases [OF rep q, of pid "of_nat (length hist)"] u
      by (auto simp: rec_acquire_def next_index_def guard_of_def frame_view_of_def in_window_def Let_def
          simp del: of_nat_Suc split: if_splits)
  qed
qed

text \<open>A guard taken and dropped leaves the ring as it was.\<close>

lemma taken_dropped:
  fixes pid :: u32 and k :: nat
  assumes "ring_rep hist rg" "quiescent rg"
  defines "rg' \<equiv> guard_drop (guard_of hist rg k) (take_slot pid (slot_of k rg) rg)"
  shows "ring_rep hist rg' \<and> quiescent rg' \<and> map ref_count (rg_slots rg') = map ref_count (rg_slots rg)
    \<and> capacity (rg_header rg') = capacity (rg_header rg)"
proof -
  have refs: "map ref_count (rg_slots rg') = map ref_count (rg_slots rg)"
    unfolding rg'_def by (rule take_drop_refs) (simp add: guard_of_def)
  then have "ref_count ` set (rg_slots rg') = ref_count ` set (rg_slots rg)" by (metis list.set_map)
  then have "quiescent rg'" using assms(2) unfolding quiescent_def by (metis image_iff)
  moreover have "capacity (rg_header rg') = capacity (rg_header rg)"
    by (simp add: rg'_def guard_drop_def take_slot_def update_slot_def)
  ultimately show ?thesis
    using refs ring_rep_guard_drop [OF ring_rep_take [OF assms(1)]] by (simp add: rg'_def)
qed

text \<open>The picture of a frame: its pixels as RGB, with the overlay when there is one.\<close>

definition rgb_of_frame :: "storage_format \<Rightarrow> frame \<Rightarrow> u8 list option" where
  "rgb_of_frame format f =
    (case format of
       StRgb24 \<Rightarrow> Some (frame_data f)
     | StNv12 \<Rightarrow> (case nv12_to_rgb24 f of Some (Inr g) \<Rightarrow> Some (frame_data g) | _ \<Rightarrow> None))"

definition picture ::
  "('i, 'r, 'f) canvas \<Rightarrow> (utc \<Rightarrow> string) \<Rightarrow> 'f option \<Rightarrow> recorder_config \<Rightarrow> u32 \<Rightarrow> u32 \<Rightarrow> storage_format
     \<Rightarrow> frame_view \<Rightarrow> frame \<Rightarrow> u8 list option" where
  "picture cv tm font cfg w h format v f =
    (case rgb_of_frame format f of
       None \<Rightarrow> None
     | Some rgb \<Rightarrow>
         (case (rr_osd cfg, font) of
            (True, Some fnt) \<Rightarrow>
              (case burn_osd cv tm w h format fnt v rgb of Some (Inr burnt) \<Rightarrow> Some burnt | _ \<Rightarrow> None)
          | _ \<Rightarrow> Some rgb))"

definition frame_of :: "history \<Rightarrow> region \<Rightarrow> nat \<Rightarrow> frame" where
  "frame_of hist rg k = \<lparr>frame_data = fst (hist ! k), frame_meta = to_metadata (frame_view_of hist rg k)\<rparr>"

lemma guard_frame:
  assumes "ring_rep hist rg" "in_window hist rg k"
  shows "to_frame (guard_of hist rg k) (take_slot pid i rg) = frame_of hist rg k"
  using guard_data_of [OF assms] by (simp add: to_frame_def frame_of_def) (simp add: guard_of_def)

lemma rgb_of_guard_frame:
  "rgb_of_guard format g rg = Some (Inr rgb) \<longleftrightarrow> rgb_of_frame format (to_frame g rg) = Some rgb"
  by (auto simp: rgb_of_guard_def rgb_of_frame_def to_frame_def split: storage_format.splits option.splits sum.splits)

lemma encode_frame_wrote:
  assumes "encode_frame cv tm font cfg bus w h format inp v rgb st = (oc, st')"
  shows "rd_last st' = rd_last st \<and> rd_pending st' = rd_pending st \<and> rd_last_frame_at st' = rd_last_frame_at st
    \<and> rs_frames_received (rd_stats st') = rs_frames_received (rd_stats st) \<and> rd_started st' = rd_started st
    \<and> oc \<noteq> RecExit \<and> oc \<noteq> RecWaiting
    \<and> (\<forall>i data status. oc = Wrote i data status \<longrightarrow> i = fv_frame_id v
        \<and> (\<forall>f. rgb_of_frame format f = Some rgb \<longrightarrow> picture cv tm font cfg w h format v f = Some data))"
  using assms
  by (auto simp: encode_frame_def write_rgb_def rec_status_def picture_def
      split: bool.splits option.splits sum.splits prod.splits if_splits)

section \<open>One iteration\<close>

lemma tick_taken:
  assumes tick: "recorder_tick cv tm font cfg bus pid w h format inp st rg = (oc, st', rg')"
    and run: "\<not> rec_must_exit cfg inp st"
    and take: "rec_take cfg pid st rg = (Some (guard_of hist rg0 k), st1, take_slot pid i rg0)"
    and rep: "ring_rep hist rg0" "in_window hist rg0 k"
  shows "rg' = guard_drop (guard_of hist rg0 k) (take_slot pid i rg0)
    \<and> rd_last st' = rd_last st1 \<and> rd_pending st' = rd_pending st1 \<and> rd_last_frame_at st' = ri_taken inp
    \<and> rs_frames_received (rd_stats st') = rs_frames_received (rd_stats st1) + 1 \<and> rd_started st' = rd_started st1
    \<and> oc \<noteq> RecExit \<and> oc \<noteq> RecWaiting
    \<and> (\<forall>n data status. oc = Wrote n data status \<longrightarrow> n = of_nat (Suc k)
        \<and> picture cv tm font cfg w h format (frame_view_of hist rg0 k) (frame_of hist rg0 k) = Some data)"
proof -
  let ?g = "guard_of hist rg0 k" and ?rg1 = "take_slot pid i rg0"
  let ?st2 = "st1 \<lparr>rd_last_frame_at := ri_taken inp,
    rd_stats := rd_stats st1 \<lparr>rs_frames_received := rs_frames_received (rd_stats st1) + 1\<rparr>\<rparr>"
  have v: "g_view ?g = frame_view_of hist rg0 k" "fv_frame_id (frame_view_of hist rg0 k) = of_nat (Suc k)"
    by (simp_all add: guard_of_def frame_view_of_def)
  show ?thesis
  proof (cases "\<exists>rgb. rgb_of_guard format ?g ?rg1 = Some (Inr rgb)")
    case True
    then obtain rgb where rgb: "rgb_of_guard format ?g ?rg1 = Some (Inr rgb)" by blast
    then have f: "rgb_of_frame format (frame_of hist rg0 k) = Some rgb"
      unfolding rgb_of_guard_frame guard_frame [OF rep] .
    obtain oc' st3 where e: "encode_frame cv tm font cfg bus w h format inp (frame_view_of hist rg0 k) rgb ?st2 = (oc', st3)"
      by force
    show ?thesis
      using tick run take rgb e encode_frame_wrote [OF e] f v
      by (simp add: recorder_tick_def Let_def)
  next
    case False
    then show ?thesis
      using tick run take by (auto simp: recorder_tick_def Let_def split: option.splits sum.splits)
  qed
qed

lemma rec_take_fresh:
  assumes "ring_rep hist rg" "quiescent rg" "rd_pending st = None" "rec_take cfg pid st rg = (g, st1, rg1)"
  shows "rd_pending st1 = None \<and> rd_started st1 = rd_started st \<and> rd_last_frame_at st1 = rd_last_frame_at st
    \<and> (case next_index (rr_mode cfg) hist rg (rd_last st) of
         None \<Rightarrow> g = None \<and> rg1 = rg
       | Some k \<Rightarrow> in_window hist rg k \<and> g = Some (guard_of hist rg k) \<and> rd_last st1 = of_nat (Suc k)
           \<and> rd_stats st1 = rd_stats st \<and> rg1 = take_slot pid (slot_of k rg) rg)"
proof -
  obtain last' stats' where a: "rec_acquire (rr_mode cfg) pid (rd_last st) (rd_stats st) rg = (g, last', stats', rg1)"
    "st1 = st \<lparr>rd_last := last', rd_stats := stats'\<rparr>"
    using assms(3,4) by (auto simp: rec_take_def split: prod.splits)
  show ?thesis using rec_acquire_index [OF assms(1,2) a(1)] a(2) assms(3) by (auto split: option.splits)
qed

lemma tick_next:
  assumes "ring_rep hist rg" "quiescent rg" "rd_pending st = None"
    and "recorder_tick cv tm font cfg bus pid w h format inp st rg = (oc, st', rg')"
  shows "ring_rep hist rg' \<and> map ref_count (rg_slots rg') = map ref_count (rg_slots rg) \<and> rd_pending st' = None
    \<and> (\<forall>n data status. oc = Wrote n data status \<longrightarrow> (\<exists>k. next_index (rr_mode cfg) hist rg (rd_last st) = Some k
         \<and> n = of_nat (Suc k) \<and> rd_last st' = n
         \<and> picture cv tm font cfg w h format (frame_view_of hist rg k) (frame_of hist rg k) = Some data))"
proof (cases "rec_must_exit cfg inp st")
  case True
  then show ?thesis using assms by (simp add: recorder_tick_def)
next
  case False
  obtain g st1 rg1 where t: "rec_take cfg pid st rg = (g, st1, rg1)" by (cases "rec_take cfg pid st rg")
  note taken = rec_take_fresh [OF assms(1-3) t]
  show ?thesis
  proof (cases "next_index (rr_mode cfg) hist rg (rd_last st)")
    case None
    then show ?thesis using assms(1,4) False t taken by (simp add: recorder_tick_def)
  next
    case (Some k)
    then have k: "in_window hist rg k" "rd_last st1 = of_nat (Suc k)" "rd_pending st1 = None"
      and t': "rec_take cfg pid st rg = (Some (guard_of hist rg k), st1, take_slot pid (slot_of k rg) rg)"
      using t taken by simp_all
    show ?thesis
      using tick_taken [OF assms(4) False t' assms(1) k(1)] taken_dropped [OF assms(1,2), of k pid] k Some by auto
  qed
qed

text \<open>
  The ring as an iteration finds it: \<open>rg0\<close>, when no guard is pending; when the guard of \<open>wait_first\<close> is
  still pending, \<open>rg0\<close> with that guard counted.
\<close>

definition found_ring :: "history \<Rightarrow> u32 \<Rightarrow> recorder_state \<Rightarrow> region \<Rightarrow> region \<Rightarrow> bool" where
  "found_ring hist pid st rg0 rg \<longleftrightarrow> ring_rep hist rg0 \<and> quiescent rg0
     \<and> (case rd_pending st of
          None \<Rightarrow> rg = rg0
        | Some g \<Rightarrow> \<exists>k. in_window hist rg0 k \<and> g = guard_of hist rg0 k \<and> rg = take_slot pid (slot_of k rg0) rg0)"

text \<open>The first iteration finds the ring so.\<close>

lemma started_found:
  assumes "ring_rep hist rg0" "quiescent rg0"
    and "rec_acquire mode pid last_id stats rg0 = (Some first, last', stats', rg1)"
    and "recorder_start cfg available run now first = Inr (format, st)"
  shows "found_ring hist pid st rg0 rg1"
proof -
  have "rd_pending st = Some first" using assms(4) by (auto simp: recorder_start_def split: option.splits sum.splits)
  then show ?thesis
    using rec_acquire_index [OF assms(1-3)] assms(1,2) by (auto simp: found_ring_def split: option.splits)
qed

text \<open>Which frame of the history an iteration writes: the pending one, the newest, or the one after the last.\<close>

definition due_frame :: "recorder_config \<Rightarrow> history \<Rightarrow> recorder_state \<Rightarrow> nat" where
  "due_frame cfg hist st = (case rd_pending st of
     Some g \<Rightarrow> unat (fv_frame_id (g_view g)) - 1
   | None \<Rightarrow> if rr_mode cfg = Latest then length hist - 1 else unat (rd_last st))"

lemma tick_pending:
  assumes "found_ring hist pid st rg0 rg" "rd_pending st = Some g"
    and "recorder_tick cv tm font cfg bus pid w h format inp st rg = (oc, st', rg')"
  shows "ring_rep hist (rec_release st' rg') \<and> map ref_count (rg_slots (rec_release st' rg')) = map ref_count (rg_slots rg0)
    \<and> (oc \<noteq> RecExit \<longrightarrow> rd_pending st' = None)
    \<and> (\<forall>n data status. oc = Wrote n data status \<longrightarrow> (\<exists>k. k < length hist \<and> k = due_frame cfg hist st
         \<and> n = of_nat (Suc k) \<and> rd_last st' = rd_last st
         \<and> picture cv tm font cfg w h format (frame_view_of hist rg0 k) (frame_of hist rg0 k) = Some data))"
proof -
  obtain k where k: "ring_rep hist rg0" "quiescent rg0" "in_window hist rg0 k" "g = guard_of hist rg0 k"
    "rg = take_slot pid (slot_of k rg0) rg0"
    using assms(1,2) by (auto simp: found_ring_def)
  note dropped = taken_dropped [OF k(1,2), of k pid]
  show ?thesis
  proof (cases "rec_must_exit cfg inp st")
    case True
    then show ?thesis using assms(2,3) dropped k(4,5) by (simp add: recorder_tick_def rec_release_def)
  next
    case False
    have t: "rec_take cfg pid st rg = (Some (guard_of hist rg0 k), st \<lparr>rd_pending := None\<rparr>, take_slot pid (slot_of k rg0) rg0)"
      using assms(2) k(4,5) by (simp add: rec_take_def)
    have len: "k < length hist" "length hist < 2 ^ 64"
      using k(1,3) by (auto simp: in_window_def ring_rep_def)
    then have "unat (of_nat (Suc k) :: u64) = Suc k" by (intro of_nat_u64) simp
    then have "due_frame cfg hist st = k"
      using assms(2) k(4) by (simp add: due_frame_def guard_of_def frame_view_of_def del: of_nat_Suc)
    then show ?thesis
      using tick_taken [OF assms(3) False t k(1,3)] dropped len(1) by (auto simp: rec_release_def)
  qed
qed

text \<open>C18: However an iteration of the recorder ends (the loop is left, no frame, an error of the encoder or
  of the conversion, a panic of the overlay), once what it still holds is dropped the ring has its
  frames and every reference count is back; only when the loop is left at once is a guard still held.
  A picture that was written is made of exactly one frame of the ring's history: in the first iteration
  the one \<open>wait_first\<close> has handed over, whose number is not noted; later the one after the last number
  in sequential mode and the newest one in the mode \<open>Latest\<close>, whose number is noted.\<close>

theorem recorder_writes_history:
  assumes "found_ring hist pid st rg0 rg"
    and "recorder_tick cv tm font cfg bus pid w h format inp st rg = (oc, st', rg')"
  shows "ring_rep hist (rec_release st' rg') \<and> map ref_count (rg_slots (rec_release st' rg')) = map ref_count (rg_slots rg0)
    \<and> (oc \<noteq> RecExit \<longrightarrow> rd_pending st' = None)
    \<and> (\<forall>n data status. oc = Wrote n data status \<longrightarrow> (\<exists>k. k < length hist \<and> k = due_frame cfg hist st
         \<and> n = of_nat (Suc k) \<and> rd_last st' = (if rd_pending st = None then n else rd_last st)
         \<and> picture cv tm font cfg w h format (frame_view_of hist rg0 k) (frame_of hist rg0 k) = Some data))"
proof (cases "rd_pending st")
  case None
  then have rep: "ring_rep hist rg0" "quiescent rg0" "rg = rg0" using assms(1) by (simp_all add: found_ring_def)
  have "k < length hist \<and> k = due_frame cfg hist st"
    if "next_index (rr_mode cfg) hist rg0 (rd_last st) = Some k" for k
    using that None by (cases "rr_mode cfg") (auto simp: next_index_def due_frame_def split: if_splits)
  then show ?thesis
    using tick_next [OF rep(1,2) None assms(2) [unfolded rep(3)]] None by (fastforce simp: rec_release_def)
next
  case (Some g)
  then show ?thesis using tick_pending [OF assms(1) Some assms(2)] by auto
qed

section \<open>The first frame\<close>

text \<open>In sequential mode the first frame is recorded twice: \<open>wait_first\<close> does not pass on the number it
  has read, and the round after the one that writes it asks for the frame after number zero again.
  So the first two pictures of every recording that starts on a ring which still has its first frame
  are both frame 1, with the same content.\<close>

lemma first_frame_twice:
  assumes "ring_rep hist rg" "quiescent rg" "hist \<noteq> []" "length hist \<le> unat (capacity (rg_header rg))"
    and "rr_mode cfg = Sequential"
    and "rec_wait_first Sequential pid deadline 0 recorder_stats_default [(now0, rg)] = Some (Inr (first, rg1))"
    and "recorder_start cfg available run now first = Inr (format, st)"
    and "recorder_tick cv tm font cfg bus pid w h format inp1 st rg1 = (Wrote n1 data1 s1, st1, rg2)"
    and "recorder_tick cv tm font cfg bus pid w h format inp2 st1 rg2 = (Wrote n2 data2 s2, st2, rg3)"
  shows "n1 = 1 \<and> n2 = 1 \<and> data1 = data2"
proof -
  let ?g = "guard_of hist rg 0" and ?rg1 = "take_slot pid (slot_of 0 rg) rg"
  have idx: "next_index Sequential hist rg 0 = Some 0"
    using assms(3,4) by (cases hist) (simp_all add: next_index_def)
  obtain g last' stats' rg' where a: "rec_acquire Sequential pid 0 recorder_stats_default rg = (g, last', stats', rg')"
    by (metis prod_cases4)
  then have first: "first = ?g" "rg1 = ?rg1" "in_window hist rg 0"
    using rec_acquire_index [OF assms(1,2) a] idx assms(6) by (auto split: if_splits)
  have st: "rd_last st = 0" "rec_take cfg pid st ?rg1 = (Some ?g, st \<lparr>rd_pending := None\<rparr>, ?rg1)"
    using assms(7) first by (auto simp: recorder_start_def rec_take_def split: option.splits sum.splits)
  have runs: "\<not> rec_must_exit cfg inp1 st"
    using assms(8) by (auto simp: recorder_tick_def)
  note one = tick_taken [OF assms(8) [unfolded first] runs st(2) assms(1) first(3)]
  have ring2: "ring_rep hist rg2" "quiescent rg2" "capacity (rg_header rg2) = capacity (rg_header rg)"
    "rd_pending st1 = None" "rd_last st1 = 0"
    using one taken_dropped [OF assms(1,2), of 0 pid] st(1) by simp_all
  have "next_index Sequential hist rg2 0 = Some 0" using idx ring2(3) by (simp add: next_index_def)
  then have two: "n2 = 1" "picture cv tm font cfg w h format (frame_view_of hist rg2 0) (frame_of hist rg2 0) = Some data2"
    using tick_next [OF ring2(1,2,4) assms(9)] assms(5) ring2(5) by auto
  have "rg_header rg2 = rg_header rg"
    using one by (simp add: guard_drop_def take_slot_def update_slot_def)
  then have "frame_view_of hist rg2 0 = frame_view_of hist rg 0" by (simp add: frame_view_of_def)
  then show ?thesis using one two by (simp add: frame_of_def)
qed

section \<open>A stalled stream\<close>

text \<open>Iterations that follow each other within the quiet timeout, from the reading \<open>t\<close>.\<close>

fun paced :: "duration \<Rightarrow> instant \<Rightarrow> rec_input list \<Rightarrow> bool" where
  "paced q t [] \<longleftrightarrow> True"
| "paced q t (inp # inps) \<longleftrightarrow> ri_quiet inp - t < q \<and> paced q (ri_taken inp) inps"

text \<open>A recorder whose encoder takes what it is given, and the picture it makes of a frame.\<close>

definition encoder_takes :: "u8 list \<Rightarrow> rec_input \<Rightarrow> recorder_state \<Rightarrow> bool" where
  "encoder_takes data inp st \<longleftrightarrow> rw_stdin (rd_writer st) \<and> ri_pipe inp = Inr ()
     \<and> length data = unat (rw_width (rd_writer st)) * unat (rw_height (rd_writer st)) * 3"

lemma encode_taken:
  assumes "rgb_of_frame format f = Some rgb" "picture cv tm font cfg w h format v f = Some data"
    and "encoder_takes data inp st"
    and "encode_frame cv tm font cfg bus w h format inp v rgb st = (oc, st')"
  shows "(\<exists>status. oc = Wrote (fv_frame_id v) data status)
    \<and> rw_stdin (rd_writer st') \<and> rw_width (rd_writer st') = rw_width (rd_writer st)
    \<and> rw_height (rd_writer st') = rw_height (rd_writer st)"
  using assms
  by (auto simp: encode_frame_def write_rgb_def pipe_frame_def rec_status_def picture_def encoder_takes_def Let_def
      split: bool.splits option.splits sum.splits prod.splits if_splits)

lemma tick_writes:
  assumes tick: "recorder_tick cv tm font cfg bus pid w h format inp st rg = (oc, st', rg')"
    and run: "\<not> rec_must_exit cfg inp st"
    and take: "rec_take cfg pid st rg = (Some (guard_of hist rg0 k), st1, take_slot pid i rg0)"
    and writer: "rd_writer st1 = rd_writer st"
    and rep: "ring_rep hist rg0" "in_window hist rg0 k"
    and pic: "picture cv tm font cfg w h format (frame_view_of hist rg0 k) (frame_of hist rg0 k) = Some data"
    and takes: "encoder_takes data inp st"
  shows "(\<exists>status. oc = Wrote (of_nat (Suc k)) data status)
    \<and> rw_stdin (rd_writer st') \<and> rw_width (rd_writer st') = rw_width (rd_writer st)
    \<and> rw_height (rd_writer st') = rw_height (rd_writer st)"
proof -
  let ?g = "guard_of hist rg0 k" and ?rg1 = "take_slot pid i rg0"
  let ?st2 = "st1 \<lparr>rd_last_frame_at := ri_taken inp,
    rd_stats := rd_stats st1 \<lparr>rs_frames_received := rs_frames_received (rd_stats st1) + 1\<rparr>\<rparr>"
  have v: "g_view ?g = frame_view_of hist rg0 k" "fv_frame_id (frame_view_of hist rg0 k) = of_nat (Suc k)"
    by (simp_all add: guard_of_def frame_view_of_def)
  obtain rgb where f: "rgb_of_frame format (frame_of hist rg0 k) = Some rgb"
    using pic by (auto simp: picture_def split: option.splits)
  then have g: "rgb_of_guard format ?g ?rg1 = Some (Inr rgb)"
    unfolding rgb_of_guard_frame guard_frame [OF rep] .
  obtain oc' st3 where e: "encode_frame cv tm font cfg bus w h format inp (frame_view_of hist rg0 k) rgb ?st2 = (oc', st3)"
    by force
  have "encoder_takes data inp ?st2" using takes writer by (simp add: encoder_takes_def)
  from encode_taken [OF f pic this e] show ?thesis
    using tick run take g e v writer by (simp add: recorder_tick_def Let_def)
qed

text \<open>C19: In the mode \<open>Latest\<close> the recorder never notices that the stream has stalled.  Without a limit on the
  duration, on a ring that holds a frame and never gets another one, from the second iteration on and
  as long as the iterations follow each other within the quiet timeout and the encoder takes what it is
  given: every iteration writes the newest frame, the same picture again and again, and the loop is
  never left.\<close>

theorem latest_never_quiet:
  assumes "rr_mode cfg = Latest" "rr_max_duration cfg = None" "rr_quiet_timeout cfg = Some q"
    and "ring_rep hist rg" "quiescent rg" "hist \<noteq> []" "rd_pending st = None"
    and "paced q (rd_last_frame_at st) inps"
    and "picture cv tm font cfg w h format (frame_view_of hist rg (length hist - 1)) (frame_of hist rg (length hist - 1))
      = Some data"
    and "list_all (\<lambda>inp. encoder_takes data inp st) inps"
    and "recorder_loop cv tm font cfg bus pid w h format (map (\<lambda>inp. (inp, rg)) inps) st = (ocs, st')"
  shows "length ocs = length inps
    \<and> list_all (\<lambda>oc. \<exists>status. oc = Wrote (of_nat (length hist)) data status) ocs"
  using assms(7,8,10,11)
proof (induction inps arbitrary: st ocs st')
  case (Cons inp inps)
  obtain oc st1 rg1 where t: "recorder_tick cv tm font cfg bus pid w h format inp st rg = (oc, st1, rg1)"
    by (cases "recorder_tick cv tm font cfg bus pid w h format inp st rg")
  have run: "\<not> rec_must_exit cfg inp st" using assms(2,3) Cons.prems(2) by (simp add: rec_must_exit_def)
  obtain g st2 rg2 where take: "rec_take cfg pid st rg = (g, st2, rg2)" by (cases "rec_take cfg pid st rg")
  obtain k where k: "next_index (rr_mode cfg) hist rg (rd_last st) = Some k" "Suc k = length hist"
    using assms(1,6) by (simp add: next_index_def)
  have taken: "in_window hist rg k" "rd_pending st2 = None"
    "rec_take cfg pid st rg = (Some (guard_of hist rg k), st2, take_slot pid (slot_of k rg) rg)"
    using rec_take_fresh [OF assms(4,5) Cons.prems(1) take] k take by simp_all
  have writer: "rd_writer st2 = rd_writer st" using take Cons.prems(1) by (auto simp: rec_take_def split: prod.splits)
  note one = tick_taken [OF t run taken(3) assms(4) taken(1)]
  have pic: "picture cv tm font cfg w h format (frame_view_of hist rg k) (frame_of hist rg k) = Some data"
    using assms(9) by (simp flip: k(2))
  note wrote = tick_writes [OF t run taken(3) writer assms(4) taken(1) pic]
  have takes: "encoder_takes data inp st" "list_all (\<lambda>inp. encoder_takes data inp st) inps"
    using Cons.prems(3) by simp_all
  have next_takes: "list_all (\<lambda>inp. encoder_takes data inp st1) inps"
    using takes(2) wrote [OF takes(1)] by (simp add: encoder_takes_def list_all_iff)
  obtain ocs' st'' where r: "recorder_loop cv tm font cfg bus pid w h format (map (\<lambda>inp. (inp, rg)) inps) st1 = (ocs', st'')"
    by force
  have "length ocs' = length inps \<and> list_all (\<lambda>oc. \<exists>status. oc = Wrote (of_nat (length hist)) data status) ocs'"
    by (rule Cons.IH [OF _ _ next_takes r]) (use one taken(2) Cons.prems(2) in auto)
  moreover obtain status where "oc = Wrote (of_nat (length hist)) data status"
    using wrote [OF takes(1)] k(2) by auto
  ultimately show ?case using Cons.prems(4) t r by auto
qed simp

section \<open>Concrete runs\<close>

definition ok_input :: rec_input where
  "ok_input = \<lparr>ri_now = 0, ri_quiet = 0, ri_taken = 0, ri_written = 0, ri_pipe = Inr ()\<rparr>"

definition fresh_recorder :: recorder_state where
  "fresh_recorder = \<lparr>rd_writer = \<lparr>rw_width = 1, rw_height = 1, rw_stdin = True, rw_bytes_written = 0\<rparr>,
     rd_stats = recorder_stats_default, rd_last = 0, rd_pending = None, rd_started = 0,
     rd_last_frame_at = 0, rd_last_status = 0\<rparr>"

text \<open>A ring that holds the one frame, and a round that writes it.\<close>

definition holds_one :: "region \<Rightarrow> bool" where
  "holds_one rg \<longleftrightarrow> ring_rep [([1, 2, 3], 9)] rg \<and> quiescent rg"

definition recorder_ready :: "u64 \<Rightarrow> recorder_state \<Rightarrow> bool" where
  "recorder_ready written st \<longleftrightarrow> rd_started st = 0 \<and> rd_last_frame_at st = 0 \<and> rd_last_status st = 0
     \<and> rd_writer st = rd_writer fresh_recorder \<lparr>rw_bytes_written := written\<rparr>"

definition plain_recorder :: "read_mode \<Rightarrow> recorder_config" where
  "plain_recorder mode = recorder_config_default \<lparr>rr_mode := mode\<rparr>"

abbreviation the_guard :: "region \<Rightarrow> frame_guard" where
  "the_guard rg \<equiv> guard_of [([1, 2, 3], 9)] rg 0"

lemma first_acquired:
  assumes "holds_one rg"
  shows "rec_acquire mode 8 0 stats rg = (Some (the_guard rg), 1, stats, take_slot 8 (slot_of 0 rg) rg)"
proof -
  obtain g last' stats' rg' where a: "rec_acquire mode 8 0 stats rg = (g, last', stats', rg')" by (metis prod_cases4)
  have "1 \<le> unat (capacity (rg_header rg))" using assms by (auto simp: holds_one_def ring_rep_def ring_wf_def)
  then have "next_index mode [([1, 2, 3], 9)] rg 0 = Some 0" by (cases mode) (simp_all add: next_index_def)
  then show ?thesis using rec_acquire_index [of "[([1, 2, 3], 9)]" rg, OF _ _ a] a assms by (simp add: holds_one_def)
qed

lemma writes_one:
  assumes "holds_one rg0" "recorder_ready b st"
    and "rec_take (plain_recorder mode) 8 st rg = (Some (the_guard rg0), st1, take_slot 8 (slot_of 0 rg0) rg0)"
    and "st1 = st \<lparr>rd_last := l, rd_stats := s, rd_pending := None\<rparr>"
  shows "\<exists>st' rg'. recorder_tick raw_canvas (\<lambda>_. []) None (plain_recorder mode) False 8 1 1 StRgb24 ok_input st rg
      = (Wrote 1 [1, 2, 3] None, st', rg') \<and> recorder_ready (b + 3) st' \<and> rd_last st' = l \<and> rd_pending st' = None
    \<and> holds_one rg'"
proof -
  have rep: "ring_rep [([1, 2, 3], 9)] rg0" "quiescent rg0" using assms(1) by (simp_all add: holds_one_def)
  then have "in_window [([1, 2, 3], 9)] rg0 0" by (auto simp: in_window_def ring_rep_def ring_wf_def)
  then have d: "guard_data (the_guard rg0) (take_slot 8 (slot_of 0 rg0) rg0) = [1, 2, 3]"
    using guard_data_of [OF rep(1)] by simp
  have i: "fv_frame_id (g_view (the_guard rg0)) = 1" by (simp add: guard_of_def frame_view_of_def)
  have "holds_one (guard_drop (the_guard rg0) (take_slot 8 (slot_of 0 rg0) rg0))"
    using taken_dropped [OF rep, of 0 8] by (simp add: holds_one_def)
  then show ?thesis
    using assms(2-4) d i
    by (simp add: recorder_tick_def rec_must_exit_def plain_recorder_def recorder_config_default_def ok_input_def
        from_secs_def rgb_of_guard_def encode_frame_def write_rgb_def pipe_frame_def rec_status_def
        fresh_recorder_def recorder_ready_def Let_def)
qed

lemma ready_writes:
  assumes "holds_one rg" "recorder_ready b st" "rd_last st = 0" "rd_pending st = None"
  shows "\<exists>st' rg'. recorder_tick raw_canvas (\<lambda>_. []) None (plain_recorder mode) False 8 1 1 StRgb24 ok_input st rg
      = (Wrote 1 [1, 2, 3] None, st', rg')"
proof -
  have "rec_take (plain_recorder mode) 8 st rg = (Some (the_guard rg), st \<lparr>rd_last := 1, rd_stats := rd_stats st,
      rd_pending := None\<rparr>, take_slot 8 (slot_of 0 rg) rg)"
    using first_acquired [OF assms(1), of mode "rd_stats st"] assms(3,4)
    by (simp add: rec_take_def plain_recorder_def recorder_config_default_def)
  from writes_one [OF assms(1,2) this refl] show ?thesis by blast
qed

lemma one_frame_holds: "holds_one one_frame_ring"
  using one_frame_ring_rep by (simp add: holds_one_def)

lemma fresh_ready: "recorder_ready 0 fresh_recorder"
  by (simp add: recorder_ready_def fresh_recorder_def)

lemma fresh_writes:
  "\<exists>st' rg'. recorder_tick raw_canvas (\<lambda>_. []) None (plain_recorder mode) False 8 1 1 StRgb24 ok_input
     fresh_recorder one_frame_ring = (Wrote 1 [1, 2, 3] None, st', rg')"
  by (rule ready_writes [OF one_frame_holds fresh_ready]) (simp_all add: fresh_recorder_def)

lemma fresh_recorder_pending: "rd_pending fresh_recorder = None"
  by (simp add: fresh_recorder_def)

lemma fresh_found: "found_ring [([1, 2, 3], 9)] 8 fresh_recorder one_frame_ring one_frame_ring"
  using one_frame_ring_rep by (simp add: found_ring_def fresh_recorder_def)

theorem recorder_writes_history_witness:
  "\<exists>st' rg'. recorder_tick raw_canvas (\<lambda>_. []) None (plain_recorder Sequential) False 8 1 1 StRgb24 ok_input
     fresh_recorder one_frame_ring = (Wrote 1 [1, 2, 3] None, st', rg')
   \<and> map ref_count (rg_slots (rec_release st' rg')) = map ref_count (rg_slots one_frame_ring) \<and> rd_last st' = 1"
proof -
  obtain st' rg' where t: "recorder_tick raw_canvas (\<lambda>_. []) None (plain_recorder Sequential) False 8 1 1 StRgb24
    ok_input fresh_recorder one_frame_ring = (Wrote 1 [1, 2, 3] None, st', rg')" using fresh_writes by blast
  from recorder_writes_history [OF fresh_found this]
  show ?thesis using t by (auto simp: fresh_recorder_pending)
qed

lemma fresh_picture:
  "picture raw_canvas (\<lambda>_. []) None (plain_recorder mode) 1 1 StRgb24
     (frame_view_of [([1, 2, 3], 9)] rg (length [([1 :: u8, 2, 3], 9 :: u64)] - 1))
     (frame_of [([1, 2, 3], 9)] rg (length [([1 :: u8, 2, 3], 9 :: u64)] - 1)) = Some [1, 2, 3]"
  by (simp add: picture_def rgb_of_frame_def frame_of_def split: bool.split)

theorem latest_never_quiet_witness:
  "list_all (\<lambda>oc. \<exists>status. oc = Wrote 1 [1, 2, 3] status)
     (fst (recorder_loop raw_canvas (\<lambda>_. []) None (plain_recorder Latest) False 8 1 1
       StRgb24 (map (\<lambda>inp. (inp, one_frame_ring)) [ok_input, ok_input]) fresh_recorder))"
proof -
  have c: "rr_mode (plain_recorder Latest) = Latest" "rr_max_duration (plain_recorder Latest) = None"
    "rr_quiet_timeout (plain_recorder Latest) = Some (from_secs 5)"
    by (simp_all add: plain_recorder_def recorder_config_default_def)
  have p: "paced (from_secs 5) (rd_last_frame_at fresh_recorder) [ok_input, ok_input]"
    by (simp add: from_secs_def ok_input_def fresh_recorder_def)
  have e: "list_all (\<lambda>inp. encoder_takes [1, 2, 3] inp fresh_recorder) [ok_input, ok_input]"
    by (simp add: encoder_takes_def ok_input_def fresh_recorder_def)
  obtain ocs st' where r: "recorder_loop raw_canvas (\<lambda>_. []) None (plain_recorder Latest) False 8 1 1
       StRgb24 (map (\<lambda>inp. (inp, one_frame_ring)) [ok_input, ok_input]) fresh_recorder = (ocs, st')" by force
  from latest_never_quiet [OF c one_frame_ring_rep _ fresh_recorder_pending p fresh_picture e r]
  show ?thesis unfolding r by simp
qed

lemma first_frame_twice_witness:
  "\<exists>first rg1 st st1 rg2 st2 rg3.
     rec_wait_first Sequential 8 5 0 recorder_stats_default [(0, one_frame_ring)] = Some (Inr (first, rg1))
   \<and> recorder_start (plain_recorder Sequential) True (\<lambda>_. Inr ()) 0 first = Inr (StRgb24, st)
   \<and> recorder_tick raw_canvas (\<lambda>_. []) None (plain_recorder Sequential) False 8 1 1 StRgb24 ok_input st rg1
       = (Wrote 1 [1, 2, 3] None, st1, rg2)
   \<and> recorder_tick raw_canvas (\<lambda>_. []) None (plain_recorder Sequential) False 8 1 1 StRgb24 ok_input st1 rg2
       = (Wrote 1 [1, 2, 3] None, st2, rg3)"
proof -
  let ?rg = one_frame_ring let ?g = "the_guard one_frame_ring" and ?rg1 = "take_slot 8 (slot_of 0 one_frame_ring) one_frame_ring"
  have first: "rec_wait_first Sequential 8 5 0 recorder_stats_default [(0, ?rg)] = Some (Inr (?g, ?rg1))"
    by (simp add: first_acquired [OF one_frame_holds])
  have c: "one_frame_ring = publish_commit (slot_of 0 tiny_ring) 1 [1, 2, 3] 9 tiny_ring"
    using publish_eq [OF tiny_rep(1), of "[1, 2, 3]" 9] by (simp add: one_frame_ring_def tiny_simps)
  have h: "h_width (rg_header ?rg) = 1" "h_height (rg_header ?rg) = 1" "h_format (rg_header ?rg) = format_code StRgb24"
    unfolding c by (simp_all add: publish_commit_def tiny_ring_def init_raw_def tiny_config_def write_header_init_def
        set_write_seq_def update_slot_def write_slot_meta_def copy_data_def)
  define st where "st = fresh_recorder \<lparr>rd_pending := Some ?g\<rparr>"
  have st: "recorder_start (plain_recorder Sequential) True (\<lambda>_. Inr ()) 0 ?g = Inr (StRgb24, st)"
    using h by (simp add: recorder_start_def spawn_def storage_format_of_def guard_of_def frame_view_of_def
        format_from_code_def FORMAT_RGB24_def FORMAT_NV12_def st_def fresh_recorder_def)
  have st2: "recorder_ready 0 st" "rd_last st = 0" "rd_pending st = Some ?g"
    by (simp_all add: st_def recorder_ready_def fresh_recorder_def)
  have "rec_take (plain_recorder Sequential) 8 st ?rg1
    = (Some ?g, st \<lparr>rd_last := 0, rd_stats := rd_stats st, rd_pending := None\<rparr>, ?rg1)"
    using st2 by (simp add: rec_take_def)
  from writes_one [OF one_frame_holds st2(1) this refl] obtain st1 rg2 where
    one: "recorder_tick raw_canvas (\<lambda>_. []) None (plain_recorder Sequential) False 8 1 1 StRgb24 ok_input st ?rg1
       = (Wrote 1 [1, 2, 3] None, st1, rg2)"
    and back1: "recorder_ready 3 st1" "rd_last st1 = 0" "rd_pending st1 = None" "holds_one rg2" by auto
  obtain n data status st2 rg3 where
    two: "recorder_tick raw_canvas (\<lambda>_. []) None (plain_recorder Sequential) False 8 1 1 StRgb24 ok_input st1 rg2
       = (Wrote n data status, st2, rg3)" and s: "status = None"
    using ready_writes [OF back1(4,1,2,3), of Sequential] by blast
  have "1 \<le> unat (capacity (rg_header ?rg))" using one_frame_ring_rep(1) by (auto simp: ring_rep_def ring_wf_def)
  then have "1 = (1 :: u64) \<and> n = 1 \<and> [1, 2, 3] = data"
    by (intro first_frame_twice [OF one_frame_ring_rep _ _ _ first st one two]) (simp_all add: plain_recorder_def)
  then show ?thesis using first st one two s by blast
qed

end
