(* ===== verification/Scenario.thy ===== *)
theory Scenario
  imports Commander_Runs Text Shm_Layout "HOL-Library.List_Lexorder" "HOL-Library.Char_ord"
begin

text \<open>
  \<open>crates/common/src/scenario.rs\<close>, the scripted tests, and \<open>crates/cli/src/scenario_runner.rs\<close>, which
  runs one against the commander with the mock controller.  Reading and parsing the file are given by
  their outcomes; clock readings are inputs.  Texts are ASCII where they are compared without case.
\<close>

section \<open>The script\<close>

datatype scenario_error = ScenarioIo string | ScenarioParse string | ScenarioInvalid string

record target_spec =
  tg_id :: u64
  tg_start_x :: u32
  tg_start_y :: u32
  tg_speed_x :: int
  tg_speed_y :: int

record video_spec =
  vs_kind :: string
  vs_pattern :: string
  vs_width :: u32
  vs_height :: u32
  vs_fps :: u32
  vs_duration_frames :: u64
  vs_dot_speed_px_per_frame :: "u32 option"
  vs_targets :: "target_spec list"

record occlusion_spec =
  oc_start_frame :: u64
  oc_end_frame :: u64
  oc_note :: string

record motion_pattern_spec =
  mo_kind :: string
  mo_amplitude_px :: u32
  mo_frequency_hz :: f32
  mo_jitter_px :: u32
  mo_direction_changes_per_second :: u32

record detection_spec =
  de_kind :: string
  de_generator :: string
  de_class :: string
  de_class_id :: u32
  de_confidence :: f32
  de_bbox_width :: u32
  de_bbox_height :: u32
  de_occlusions :: "occlusion_spec list"
  de_motion_pattern :: "motion_pattern_spec option"

record operator_action =
  oa_at_frame :: u64
  oa_action :: string
  oa_target_id :: "u64 option"
  oa_note :: string

datatype frame_ref = SingleFrame u64 | FrameRange string

record expected_event =
  ee_at_frame :: frame_ref
  ee_event :: string
  ee_from :: string
  ee_to :: string
  ee_note :: string

record kpi_checks =
  kp_lock_acquisition_time_ms :: "u64 option"
  kp_tracking_accuracy_percent :: "f32 option"
  kp_recovery_time_ms :: "u64 option"
  kp_yaw_correction_rate_hz :: "u32 option"
  kp_watchdog_triggers :: "u32 option"
  kp_lost_state_transitions :: "u32 option"
  kp_wrong_target_lock_count :: "u32 option"
  kp_oscillation_escalation_to_abort :: "bool option"
  kp_max_consecutive_oscillations :: "u32 option"

record scenario =
  sc_name :: string
  sc_description :: string
  sc_video :: video_spec
  sc_detections :: detection_spec
  sc_operator_actions :: "operator_action list"
  sc_expected_events :: "expected_event list"
  sc_expected_final_state :: string
  sc_kpi_checks :: kpi_checks

text \<open>\<open>str::split_once\<close> at a character, and \<open>str::parse::<u64>\<close>: an optional plus sign and digits.\<close>

fun split_once :: "char \<Rightarrow> string \<Rightarrow> (string \<times> string) option" where
  "split_once c [] = None"
| "split_once c (x # xs) =
    (if x = c then Some ([], xs) else map_option (\<lambda>(a, b). (x # a, b)) (split_once c xs))"

definition parse_u64 :: "string \<Rightarrow> u64 option" where
  "parse_u64 s =
    (let d = (case s of c # cs \<Rightarrow> if c = CHR ''+'' then cs else s | [] \<Rightarrow> [])
     in if d \<noteq> [] \<and> list_all is_digit d \<and> digits_value 0 d < 2 ^ 64
        then Some (of_nat (digits_value 0 d)) else None)"

lemma parse_dec: "n < 2 ^ 64 \<Longrightarrow> parse_u64 (dec n) = Some (of_nat n)"
proof -
  assume n: "n < 2 ^ 64"
  have digits: "list_all is_digit (dec n)" using dec_digits by (auto simp: list_all_iff)
  obtain c cs where d: "dec n = c # cs" using dec_not_empty by (metis neq_Nil_conv)
  then have "is_digit c" using digits by simp
  then have "c \<noteq> CHR ''+''" by (auto simp: is_digit_def)
  moreover have "digits_value 0 (c # cs) = n" using digits_value_dec [of n] unfolding d .
  ultimately show ?thesis using n digits unfolding d by (simp add: parse_u64_def)
qed

fun frame_matches :: "frame_ref \<Rightarrow> u64 \<Rightarrow> bool" where
  "frame_matches (SingleFrame f) frame \<longleftrightarrow> f = frame"
| "frame_matches (FrameRange s) frame \<longleftrightarrow>
    (case split_once CHR ''-'' s of
       None \<Rightarrow> False
     | Some (start, stop) \<Rightarrow>
         (case (parse_u64 start, parse_u64 stop) of
            (Some a, Some b) \<Rightarrow> a \<le> frame \<and> frame \<le> b
          | _ \<Rightarrow> False))"

definition in_quotes :: "string \<Rightarrow> string" where
  "in_quotes s = CHR 0x27 # s @ [CHR 0x27]"

definition validate_scenario :: "scenario \<Rightarrow> (scenario_error, unit) result" where
  "validate_scenario s =
    (let v = sc_video s
     in if sc_name s = [] then Inl (ScenarioInvalid ''name is empty'')
        else if vs_width v = 0 \<or> vs_height v = 0 then Inl (ScenarioInvalid ''video dimensions must be > 0'')
        else if vs_fps v = 0 then Inl (ScenarioInvalid ''video fps must be > 0'')
        else if vs_duration_frames v = 0 then Inl (ScenarioInvalid ''duration_frames must be > 0'')
        else if vs_kind v \<notin> {''synthetic'', ''replay''}
        then Inl (ScenarioInvalid (''unknown video type: '' @ vs_kind v
               @ '' (expected '' @ in_quotes ''synthetic'' @ '' or '' @ in_quotes ''replay'' @ '')''))
        else Inr ())"

definition load_scenario ::
  "(string, string) result \<Rightarrow> (string \<Rightarrow> (string, scenario) result) \<Rightarrow> (scenario_error, scenario) result" where
  "load_scenario read parse =
    (case read of
       Inl e \<Rightarrow> Inl (ScenarioIo e)
     | Inr content \<Rightarrow>
         (case parse content of
            Inl e \<Rightarrow> Inl (ScenarioParse e)
          | Inr s \<Rightarrow> (case validate_scenario s of Inl e \<Rightarrow> Inl e | Inr _ \<Rightarrow> Inr s)))"

text \<open>The names of a directory; one that cannot be read has none.\<close>

definition list_dir :: "string list option \<Rightarrow> string list" where
  "list_dir entries =
    sort (filter (\<lambda>name. prefix ''scenario_'' name \<and> suffix ''.json'' name)
      (case entries of Some names \<Rightarrow> names | None \<Rightarrow> []))"

section \<open>The synthetic target\<close>

text \<open>\<open>None\<close> is an overflow or a division by zero; validated scripts have a positive width.\<close>

definition target_position :: "scenario \<Rightarrow> u64 \<Rightarrow> (u32 \<times> u32) option" where
  "target_position s frame_seq =
    (let v = sc_video s;
         speed = (case vs_dot_speed_px_per_frame v of Some k \<Rightarrow> k | None \<Rightarrow> 3)
     in case checked_mul frame_seq (ucast speed) of
          None \<Rightarrow> None
        | Some d \<Rightarrow>
            if vs_width v = 0 then None
            else Some (ucast (d mod ucast (vs_width v)), ucast (ucast (vs_height v div 2) :: u64)))"

definition occluded :: "scenario \<Rightarrow> u64 \<Rightarrow> bool" where
  "occluded s frame_seq \<longleftrightarrow>
    list_ex (\<lambda>w. oc_start_frame w \<le> frame_seq \<and> frame_seq \<le> oc_end_frame w) (de_occlusions (sc_detections s))"

definition generate_detections :: "scenario \<Rightarrow> u64 \<Rightarrow> utc \<Rightarrow> detection list option" where
  "generate_detections s frame_seq now =
    (let d = sc_detections s
     in if occluded s frame_seq then Some []
        else map_option (\<lambda>(x, y). [\<lparr>
               d_bbox = \<lparr>b_x = saturating_sub x (de_bbox_width d div 2),
                         b_y = saturating_sub y (de_bbox_height d div 2),
                         b_width = de_bbox_width d, b_height = de_bbox_height d\<rparr>,
               d_class = de_class d, d_class_id = de_class_id d, d_confidence = de_confidence d,
               d_frame_seq = frame_seq, d_detected_at = now\<rparr>]) (target_position s frame_seq))"

definition target_offset :: "scenario \<Rightarrow> detection list \<Rightarrow> 'fc commander \<Rightarrow> (f32 \<times> f32) option" where
  "target_offset s ds cm =
    (if cm_state cm \<noteq> Tracking \<and> cm_state cm \<noteq> TrackingDegraded then None
     else case ds of
            [] \<Rightarrow> None
          | det # _ \<Rightarrow>
              (let c = bbox_center (d_bbox det);
                   w = u32_as_f32 (vs_width (sc_video s)); h = u32_as_f32 (vs_height (sc_video s))
               in Some ((fst c - w / Fin 2) / (w / Fin 2), (snd c - h / Fin 2) / (h / Fin 2))))"

definition upper_char :: "char \<Rightarrow> char" where
  "upper_char c = (let n = of_char c :: nat in if 97 \<le> n \<and> n \<le> 122 then char_of (n - 32) else c)"

definition parse_state :: "string \<Rightarrow> system_state" where
  "parse_state s =
    (let t = map upper_char s
     in if t = ''IDLE'' then Idle else if t = ''ARMED'' then Armed else if t = ''SCANNING'' then Scanning
        else if t = ''TARGET_SELECTED'' then TargetSelected else if t = ''TRACKING'' then Tracking
        else if t = ''TRACKING_DEGRADED'' then TrackingDegraded else if t = ''LOST'' then Lost
        else if t = ''RTH'' then Rth else if t = ''ABORT'' then Abort else Idle)"

section \<open>The runner\<close>

text \<open>The texts of failures and warnings as data.\<close>

datatype run_error = LoadFailed scenario_error | CommanderFailed commander_error

datatype run_failure =
    SelectFailed u64 target_id commander_error
  | AbortFailed u64 commander_error
  | ScanFailed u64 commander_error
  | UpdateFailed u64 commander_error
  | FinalState system_state system_state
  | LockTooSlow u64 u64
  | NeverLocked
  | TooManyTriggers u64 u32
  | ExecutionError run_error

datatype run_warning = UnknownAction u64 string

record run_state =
  ru_commander :: "mock_fc_state commander"
  ru_action_idx :: nat
  ru_lock_acquired_at :: "instant option"
  ru_lock_time_ms :: "u64 option"
  ru_watchdog_triggers :: u64
  ru_failures :: "run_failure list"
  ru_warnings :: "run_warning list"

record scenario_result =
  sr_name :: string
  sr_passed :: bool
  sr_frames_processed :: u64
  sr_duration :: duration
  sr_final_state :: system_state
  sr_fc_commands_sent :: nat
  sr_state_transitions :: nat
  sr_watchdog_triggers :: u64
  sr_lock_acquisition_time_ms :: "u64 option"
  sr_failures :: "run_failure list"
  sr_warnings :: "run_warning list"

text \<open>The readings of a frame: per action, for its detections, the lock, the update, the watchdogs.\<close>

record frame_clocks =
  fk_action :: "nat \<Rightarrow> instant"
  fk_detected :: utc
  fk_lock :: instant
  fk_update :: update_clocks
  fk_video :: utc
  fk_expiries :: utc

definition fail :: "run_failure \<Rightarrow> run_state \<Rightarrow> run_state" where
  "fail x st = st \<lparr>ru_failures := ru_failures st @ [x]\<rparr>"

definition perform :: "u64 \<Rightarrow> instant \<Rightarrow> operator_action \<Rightarrow> run_state \<Rightarrow> run_state" where
  "perform frame_seq now a st =
    (if oa_action a = ''select_target'' then
       (case oa_target_id a of
          None \<Rightarrow> st
        | Some tid \<Rightarrow> (case select_target tid (ru_commander st) of
            (Inr _, cm) \<Rightarrow> st \<lparr>ru_commander := cm, ru_lock_acquired_at := Some now\<rparr>
          | (Inl e, cm) \<Rightarrow> fail (SelectFailed frame_seq tid e) (st \<lparr>ru_commander := cm\<rparr>)))
     else if oa_action a = ''abort'' then
       (case abort mock_ops now (ru_commander st) of
          (Inr _, cm) \<Rightarrow> st \<lparr>ru_commander := cm\<rparr>
        | (Inl e, cm) \<Rightarrow> fail (AbortFailed frame_seq e) (st \<lparr>ru_commander := cm\<rparr>))
     else if oa_action a = ''scan'' then
       (case start_scanning (ru_commander st) of
          (Inr _, cm) \<Rightarrow> st \<lparr>ru_commander := cm\<rparr>
        | (Inl e, cm) \<Rightarrow> fail (ScanFailed frame_seq e) (st \<lparr>ru_commander := cm\<rparr>))
     else st \<lparr>ru_warnings := ru_warnings st @ [UnknownAction frame_seq (oa_action a)]\<rparr>)"

text \<open>The actions of a frame: those that come next in the list and are due at exactly this frame.\<close>

fun perform_all :: "u64 \<Rightarrow> (nat \<Rightarrow> instant) \<Rightarrow> operator_action list \<Rightarrow> run_state \<Rightarrow> run_state" where
  "perform_all frame_seq now [] st = st"
| "perform_all frame_seq now (a # as) st =
    (if oa_at_frame a = frame_seq
     then let st1 = perform frame_seq (now (ru_action_idx st)) a st
          in perform_all frame_seq now as (st1 \<lparr>ru_action_idx := ru_action_idx st + 1\<rparr>)
     else st)"

definition note_lock :: "instant \<Rightarrow> run_state \<Rightarrow> run_state" where
  "note_lock now st =
    (case (ru_lock_time_ms st, ru_lock_acquired_at st) of
       (None, Some t) \<Rightarrow>
         if cm_state (ru_commander st) = Tracking
         then st \<lparr>ru_lock_time_ms := Some (of_nat (as_millis (now - t)))\<rparr> else st
     | _ \<Rightarrow> st)"

definition feed_commander :: "wd_iter \<Rightarrow> scenario \<Rightarrow> frame_clocks \<Rightarrow> u64 \<Rightarrow> detection list \<Rightarrow> run_state \<Rightarrow> run_state" where
  "feed_commander iter s k frame_seq ds st =
    (let off = target_offset s ds (ru_commander st);
         (r, cm) = update mock_ops (fk_update k) ds off (ru_commander st);
         st1 = (case r of
                  Inr _ \<Rightarrow> st \<lparr>ru_commander := cm\<rparr>
                | Inl e \<Rightarrow> fail (UpdateFailed frame_seq e) (st \<lparr>ru_commander := cm\<rparr>));
         (expired, cm2) = process_watchdog_expiries iter (fk_expiries k)
                            (feed_video_watchdog (fk_video k) (ru_commander st1))
     in st1 \<lparr>ru_commander := cm2, ru_watchdog_triggers := ru_watchdog_triggers st1 + of_nat (length expired)\<rparr>)"

definition run_frame :: "wd_iter \<Rightarrow> scenario \<Rightarrow> frame_clocks \<Rightarrow> u64 \<Rightarrow> run_state \<Rightarrow> run_state option" where
  "run_frame iter s k frame_seq st =
    (let st1 = perform_all frame_seq (fk_action k) (drop (ru_action_idx st) (sc_operator_actions s)) st
     in case generate_detections s frame_seq (fk_detected k) of
          None \<Rightarrow> None
        | Some ds \<Rightarrow> Some (feed_commander iter s k frame_seq ds (note_lock (fk_lock k) st1)))"

text \<open>The frames of the script, from number \<open>n\<close>; the readings are indexed by the frame.\<close>

fun run_frames :: "wd_iter \<Rightarrow> scenario \<Rightarrow> (u64 \<Rightarrow> frame_clocks) \<Rightarrow> u64 list \<Rightarrow> run_state \<Rightarrow> run_state option" where
  "run_frames iter s ks [] st = Some st"
| "run_frames iter s ks (n # ns) st =
    (case run_frame iter s (ks n) n st of None \<Rightarrow> None | Some st' \<Rightarrow> run_frames iter s ks ns st')"

definition frame_numbers :: "scenario \<Rightarrow> u64 list" where
  "frame_numbers s = map of_nat [0..<unat (vs_duration_frames (sc_video s))]"

definition check_final :: "scenario \<Rightarrow> run_state \<Rightarrow> run_state" where
  "check_final s st =
    (let final = cm_state (ru_commander st); expected = parse_state (sc_expected_final_state s)
     in if final \<noteq> expected then fail (FinalState expected final) st else st)"

definition check_lock :: "scenario \<Rightarrow> run_state \<Rightarrow> run_state" where
  "check_lock s st =
    (case kp_lock_acquisition_time_ms (sc_kpi_checks s) of
       None \<Rightarrow> st
     | Some target \<Rightarrow>
         (case ru_lock_time_ms st of
            Some actual \<Rightarrow> if target < actual then fail (LockTooSlow actual target) st else st
          | None \<Rightarrow> fail NeverLocked st))"

definition check_triggers :: "scenario \<Rightarrow> run_state \<Rightarrow> run_state" where
  "check_triggers s st =
    (case kp_watchdog_triggers (sc_kpi_checks s) of
       None \<Rightarrow> st
     | Some most \<Rightarrow>
         if ucast most < ru_watchdog_triggers st then fail (TooManyTriggers (ru_watchdog_triggers st) most) st
         else st)"

text \<open>Connecting, arming and scanning; the first error is the result.  \<open>ts\<close> as in \<open>commander_new\<close>.\<close>

definition start_run :: "utc \<times> utc \<times> utc \<times> utc \<Rightarrow> clocks \<Rightarrow> utc \<Rightarrow> (run_error, run_state) result option" where
  "start_run ts c now =
    map_option (\<lambda>cm.
      (case connect mock_ops c now cm of
         (Inl e, _) \<Rightarrow> Inl (CommanderFailed e)
       | (Inr _, cm1) \<Rightarrow> (case arm mock_ops cm1 of
           (Inl e, _) \<Rightarrow> Inl (CommanderFailed e)
         | (Inr _, cm2) \<Rightarrow> (case start_scanning cm2 of
             (Inl e, _) \<Rightarrow> Inl (CommanderFailed e)
           | (Inr _, cm3) \<Rightarrow> Inr \<lparr>ru_commander = cm3, ru_action_idx = 0, ru_lock_acquired_at = None,
               ru_lock_time_ms = None, ru_watchdog_triggers = 0, ru_failures = [], ru_warnings = []\<rparr>))))
      (commander_new ts commander_config_default mock_new)"

definition verdict :: "scenario \<Rightarrow> duration \<Rightarrow> run_state \<Rightarrow> scenario_result" where
  "verdict s elapsed st =
    (let st1 = check_triggers s (check_lock s (check_final s st)); cm = ru_commander st
     in \<lparr>sr_name = sc_name s, sr_passed = (ru_failures st1 = []),
         sr_frames_processed = vs_duration_frames (sc_video s), sr_duration = elapsed,
         sr_final_state = cm_state cm, sr_fc_commands_sent = length (mf_commands (cm_fc cm)),
         sr_state_transitions = transition_count (cm_sm cm), sr_watchdog_triggers = ru_watchdog_triggers st,
         sr_lock_acquisition_time_ms = ru_lock_time_ms st, sr_failures = ru_failures st1,
         sr_warnings = ru_warnings st1\<rparr>)"

definition run_scenario ::
  "wd_iter \<Rightarrow> utc \<times> utc \<times> utc \<times> utc \<Rightarrow> clocks \<Rightarrow> utc \<Rightarrow> (u64 \<Rightarrow> frame_clocks) \<Rightarrow> duration
     \<Rightarrow> (scenario_error, scenario) result \<Rightarrow> (run_error, scenario_result) result option" where
  "run_scenario iter ts c now ks elapsed loaded =
    (case loaded of
       Inl e \<Rightarrow> Some (Inl (LoadFailed e))
     | Inr s \<Rightarrow>
         (case start_run ts c now of
            None \<Rightarrow> None
          | Some (Inl e) \<Rightarrow> Some (Inl e)
          | Some (Inr st) \<Rightarrow>
              map_option (\<lambda>st'. Inr (verdict s elapsed st')) (run_frames iter s ks (frame_numbers s) st)))"

text \<open>All the scripts of a directory in the order of their names; one that cannot be run is a failed result.\<close>

definition run_all_scenarios ::
  "string list option \<Rightarrow> (string \<Rightarrow> (run_error, scenario_result) result option) \<Rightarrow> scenario_result list option" where
  "run_all_scenarios entries run =
    those (map (\<lambda>name. map_option (\<lambda>r. case r of
        Inr res \<Rightarrow> res
      | Inl e \<Rightarrow> \<lparr>sr_name = name, sr_passed = False, sr_frames_processed = 0, sr_duration = 0,
          sr_final_state = Idle, sr_fc_commands_sent = 0, sr_state_transitions = 0, sr_watchdog_triggers = 0,
          sr_lock_acquisition_time_ms = None, sr_failures = [ExecutionError e], sr_warnings = []\<rparr>) (run name))
      (list_dir entries))"

end
