(* ===== verification/Scenario_Properties.thy ===== *)
theory Scenario_Properties
  imports Scenario Commander_Properties
begin

text \<open>
  A scripted run drives the commander through its own operations, so what holds of every run of the
  commander holds of every scenario; which parts of a script the runner never looks at.
\<close>

section \<open>Frame references\<close>

lemma split_once_append: "c \<notin> set s \<Longrightarrow> split_once c (s @ c # rest) = Some (s, rest)"
  by (induction s) auto

lemma range_matches:
  "frame_matches (FrameRange (dec (unat a) @ ''-'' @ dec (unat b))) n \<longleftrightarrow> a \<le> n \<and> n \<le> b"
proof -
  have "CHR ''-'' \<notin> set (dec (unat a))" using dec_digits by (fastforce simp: is_digit_def)
  moreover have "unat x < 2 ^ 64" for x :: u64 using unsigned_less [of x] by simp
  ultimately show ?thesis by (simp add: split_once_append parse_dec)
qed

section \<open>Runs of the commander\<close>

text \<open>The operations of a script: it never resets, disarms, disconnects or changes the mode.\<close>

definition scripted :: "cm_op \<Rightarrow> bool" where
  "scripted x \<longleftrightarrow> (case x of
     OpStartScanning \<Rightarrow> True | OpSelect _ \<Rightarrow> True | OpUpdate _ _ _ \<Rightarrow> True | OpFeed i _ \<Rightarrow> i = VideoLoop
   | OpExpiries _ \<Rightarrow> True | OpAbort _ \<Rightarrow> True | _ \<Rightarrow> False)"

definition scripted_run :: "wd_iter \<Rightarrow> run_state \<Rightarrow> run_state \<Rightarrow> bool" where
  "scripted_run iter st st' \<longleftrightarrow>
    (\<exists>xs. list_all scripted xs \<and> ru_commander st' = cm_run mock_ops iter xs (ru_commander st))"

lemma scripted_run_refl: "ru_commander st' = ru_commander st \<Longrightarrow> scripted_run iter st st'"
  unfolding scripted_run_def by (rule exI [of _ "[]"]) simp

lemma scripted_run_step:
  "scripted x \<Longrightarrow> ru_commander st' = cm_step mock_ops iter x (ru_commander st) \<Longrightarrow> scripted_run iter st st'"
  unfolding scripted_run_def by (rule exI [of _ "[x]"]) simp

lemma scripted_run_trans:
  assumes "scripted_run iter a b" "scripted_run iter b c"
  shows "scripted_run iter a c"
proof -
  obtain xs ys where "list_all scripted (xs @ ys)" "ru_commander c = cm_run mock_ops iter (xs @ ys) (ru_commander a)"
    using assms by (auto simp: scripted_run_def cm_run_append)
  then show ?thesis unfolding scripted_run_def by blast
qed

lemma fail_commander [simp]: "ru_commander (fail x st) = ru_commander st"
  by (simp add: fail_def)

lemma perform_scripted: "scripted_run iter st (perform n now a st)"
proof -
  consider (select) tid where "oa_action a = ''select_target''" "oa_target_id a = Some tid"
    | (abort) "oa_action a = ''abort''" | (scan) "oa_action a = ''scan''"
    | (none) "ru_commander (perform n now a st) = ru_commander st"
    by (cases "oa_target_id a"; cases "oa_action a = ''select_target''"; cases "oa_action a = ''abort''";
        cases "oa_action a = ''scan''") (auto simp: perform_def)
  then show ?thesis
  proof cases
    case select
    show ?thesis by (rule scripted_run_step [of "OpSelect tid"])
        (use select in \<open>auto simp: scripted_def perform_def split: prod.split sum.split\<close>)
  next
    case abort
    show ?thesis by (rule scripted_run_step [of "OpAbort now"])
        (use abort in \<open>auto simp: scripted_def perform_def split: prod.split sum.split\<close>)
  next
    case scan
    show ?thesis by (rule scripted_run_step [of OpStartScanning])
        (use scan in \<open>auto simp: scripted_def perform_def split: prod.split sum.split\<close>)
  qed (rule scripted_run_refl)
qed

lemma perform_all_scripted: "scripted_run iter st (perform_all n now as st)"
proof (induction as arbitrary: st)
  case (Cons a as)
  let ?st1 = "perform n (now (ru_action_idx st)) a st \<lparr>ru_action_idx := ru_action_idx st + 1\<rparr>"
  show ?case
  proof (cases "oa_at_frame a = n")
    case True
    have "scripted_run iter st ?st1"
      using perform_scripted [of iter st n "now (ru_action_idx st)" a] by (simp add: scripted_run_def)
    from scripted_run_trans [OF this Cons.IH [of ?st1]] show ?thesis using True by (simp add: Let_def)
  qed (simp add: scripted_run_refl)
qed (simp add: scripted_run_refl)

lemma note_lock_commander [simp]: "ru_commander (note_lock now st) = ru_commander st"
  by (simp add: note_lock_def split: option.split)

lemma feed_scripted: "scripted_run iter st (feed_commander iter s k n ds st)"
proof -
  let ?xs = "[OpUpdate (fk_update k) ds (target_offset s ds (ru_commander st)), OpFeed VideoLoop (fk_video k),
       OpExpiries (fk_expiries k)]"
  have "ru_commander (feed_commander iter s k n ds st) = cm_run mock_ops iter ?xs (ru_commander st)"
    by (auto simp: feed_commander_def feed_video_is Let_def split: prod.splits sum.splits)
  moreover have "list_all scripted ?xs" by (simp add: scripted_def)
  ultimately show ?thesis unfolding scripted_run_def by blast
qed

lemma run_frame_scripted:
  assumes "run_frame iter s k n st = Some st'"
  shows "scripted_run iter st st'"
proof -
  let ?st1 = "perform_all n (fk_action k) (drop (ru_action_idx st) (sc_operator_actions s)) st"
  obtain ds where e: "st' = feed_commander iter s k n ds (note_lock (fk_lock k) ?st1)"
    using assms by (auto simp: run_frame_def Let_def split: option.splits)
  have "scripted_run iter ?st1 (note_lock (fk_lock k) ?st1)" by (simp add: scripted_run_refl)
  then show ?thesis unfolding e
    using scripted_run_trans [OF scripted_run_trans [OF perform_all_scripted] feed_scripted] by blast
qed

lemma run_frames_scripted: "run_frames iter s ks ns st = Some st' \<Longrightarrow> scripted_run iter st st'"
proof (induction ns arbitrary: st)
  case (Cons n ns)
  then obtain st1 where "run_frame iter s (ks n) n st = Some st1" "run_frames iter s ks ns st1 = Some st'"
    by (auto split: option.splits)
  then show ?case using run_frame_scripted Cons.IH scripted_run_trans by blast
qed (simp add: scripted_run_refl)

section \<open>A script for the examples\<close>

text \<open>Two frames, with the target hidden throughout.\<close>

definition demo_script :: "operator_action list \<Rightarrow> scenario" where
  "demo_script actions = \<lparr>sc_name = ''demo'', sc_description = [],
     sc_video = \<lparr>vs_kind = ''synthetic'', vs_pattern = ''moving_dot'', vs_width = 640, vs_height = 480,
       vs_fps = 30, vs_duration_frames = 2, vs_dot_speed_px_per_frame = Some 3, vs_targets = []\<rparr>,
     sc_detections = \<lparr>de_kind = ''synthetic'', de_generator = ''moving_dot'', de_class = ''person'',
       de_class_id = 0, de_confidence = Fin 1, de_bbox_width = 40, de_bbox_height = 80,
       de_occlusions = [\<lparr>oc_start_frame = 0, oc_end_frame = 9, oc_note = []\<rparr>], de_motion_pattern = None\<rparr>,
     sc_operator_actions = actions, sc_expected_events = [], sc_expected_final_state = ''TRACKING'',
     sc_kpi_checks = \<lparr>kp_lock_acquisition_time_ms = None, kp_tracking_accuracy_percent = None,
       kp_recovery_time_ms = None, kp_yaw_correction_rate_hz = None, kp_watchdog_triggers = None,
       kp_lost_state_transitions = None, kp_wrong_target_lock_count = None,
       kp_oscillation_escalation_to_abort = None, kp_max_consecutive_oscillations = None\<rparr>\<rparr>"

definition demo_run :: run_state where
  "demo_run = \<lparr>ru_commander = mock_commander Scanning None, ru_action_idx = 0, ru_lock_acquired_at = None,
     ru_lock_time_ms = None, ru_watchdog_triggers = 0, ru_failures = [], ru_warnings = []\<rparr>"

definition demo_clocks :: "u64 \<Rightarrow> Scenario.frame_clocks" where
  "demo_clocks n = \<lparr>fk_action = (\<lambda>_. 0), fk_detected = 0, fk_lock = 0, fk_update = Commander_Properties.frame_clocks 0,
     fk_video = 0, fk_expiries = 0\<rparr>"

section \<open>A script always runs to its end\<close>

lemma target_position_defined:
  assumes "vs_width (sc_video s) \<noteq> 0" "unat n < 2 ^ 32"
  shows "target_position s n \<noteq> None"
proof -
  have "unat n * unat (ucast k :: u64) < 2 ^ 64" for k :: u32
  proof -
    have k: "unat (ucast k :: u64) = unat k" by (rule unat_ucast_up)
    have "unat n * unat k < 2 ^ 32 * 2 ^ 32"
      using assms(2) unsigned_less [of k, where 'a = nat] by (intro mult_strict_mono) simp_all
    then show ?thesis unfolding k by simp
  qed
  then show ?thesis using assms(1)
    by (simp add: target_position_def checked_mul_def Let_def split: option.split)
qed

lemma run_frame_defined:
  assumes "vs_width (sc_video s) \<noteq> 0" "unat n < 2 ^ 32"
  shows "\<exists>st'. run_frame iter s k n st = Some st'"
  using target_position_defined [OF assms]
  by (auto simp: run_frame_def generate_detections_def Let_def split: option.split)

lemma run_frames_defined:
  "vs_width (sc_video s) \<noteq> 0 \<Longrightarrow> list_all (\<lambda>n. unat n < 2 ^ 32) ns
     \<Longrightarrow> \<exists>st'. run_frames iter s ks ns st = Some st'"
proof (induction ns arbitrary: st)
  case (Cons n ns)
  obtain st1 where "run_frame iter s (ks n) n st = Some st1"
    using run_frame_defined [OF Cons.prems(1)] Cons.prems(2) by fastforce
  then show ?case using Cons by simp
qed simp

lemma start_run_starts: "\<exists>st. start_run ts c now = Some (Inr st)"
proof -
  obtain cm where cm: "commander_new ts commander_config_default mock_new = Some cm" "cm_state cm = Idle"
    by (rule commander_new_Some [of ts commander_config_default mock_new]) blast
  then show ?thesis
    by (cases "cm_sm cm") (simp add: start_run_def connect_def arm_def start_scanning_def mock_defs Let_def
        cm_transition_def try_transition_def)
qed

lemma validated: "load_scenario read parse = Inr s \<Longrightarrow> validate_scenario s = Inr ()"
  by (auto simp: load_scenario_def split: sum.splits)

lemma frame_numbers_small:
  "unat (vs_duration_frames (sc_video s)) \<le> 2 ^ 32 \<Longrightarrow> list_all (\<lambda>n. unat n < 2 ^ 32) (frame_numbers s)"
  by (auto simp: frame_numbers_def list_all_iff unat_of_nat intro: le_less_trans [OF mod_less_eq_dividend])

lemma verdict_passed:
  assumes "sr_passed (verdict s elapsed st)"
  shows "ru_failures st = []" "sr_final_state (verdict s elapsed st) = parse_state (sc_expected_final_state s)"
    "\<And>most. kp_watchdog_triggers (sc_kpi_checks s) = Some most \<Longrightarrow> ru_watchdog_triggers st \<le> ucast most"
    "\<And>target. kp_lock_acquisition_time_ms (sc_kpi_checks s) = Some target
       \<Longrightarrow> \<exists>actual \<le> target. ru_lock_time_ms st = Some actual"
  using assms by (auto simp: verdict_def check_triggers_def check_lock_def check_final_def fail_def Let_def
      split: option.splits if_splits)

text \<open>C28: A script that loads, of at most \<open>2 ^ 32\<close> frames, runs to its end: connecting, arming and
  scanning succeed with the mock, no position overflows, and a result for all its frames is returned.
  A pass means that nothing failed and that the run ended in the expected state, within the
  allowed number of expired watchdogs.\<close>

theorem script_completes:
  assumes "load_scenario read parse = Inr s" "unat (vs_duration_frames (sc_video s)) \<le> 2 ^ 32"
  shows "\<exists>st st' r. start_run ts c now = Some (Inr st) \<and> run_frames iter s ks (frame_numbers s) st = Some st'
    \<and> run_scenario iter ts c now ks elapsed (load_scenario read parse) = Some (Inr r)
    \<and> sr_frames_processed r = vs_duration_frames (sc_video s)
    \<and> (sr_passed r \<longrightarrow> ru_failures st' = [] \<and> cm_state (ru_commander st') = parse_state (sc_expected_final_state s)
        \<and> (\<forall>most. kp_watchdog_triggers (sc_kpi_checks s) = Some most \<longrightarrow> sr_watchdog_triggers r \<le> ucast most))"
proof -
  obtain st where st: "start_run ts c now = Some (Inr st)" using start_run_starts by blast
  have "vs_width (sc_video s) \<noteq> 0"
    using validated [OF assms(1)] by (auto simp: validate_scenario_def Let_def split: if_splits)
  from run_frames_defined [OF this frame_numbers_small [OF assms(2)]]
  obtain st' where st': "run_frames iter s ks (frame_numbers s) st = Some st'" by blast
  let ?r = "verdict s elapsed st'"
  have "sr_final_state ?r = cm_state (ru_commander st')" "sr_watchdog_triggers ?r = ru_watchdog_triggers st'"
    "sr_frames_processed ?r = vs_duration_frames (sc_video s)"
    by (simp_all add: verdict_def Let_def)
  then show ?thesis using st st' verdict_passed [of s elapsed st']
    by (intro exI [of _ st] exI [of _ st'] exI [of _ ?r]) (simp add: run_scenario_def assms(1))
qed

theorem script_completes_witness:
  "\<exists>r. run_scenario decl_iter (0, 0, 0, 0) \<lparr>mono = 0, wall = 0\<rparr> 0 demo_clocks 0
     (load_scenario (Inr []) (\<lambda>_. Inr (demo_script []))) = Some (Inr r) \<and> sr_frames_processed r = 2"
proof -
  have l: "load_scenario (Inr []) (\<lambda>_. Inr (demo_script [])) = Inr (demo_script [])"
    by (simp add: load_scenario_def validate_scenario_def demo_script_def)
  from script_completes [OF l, of "(0, 0, 0, 0)" "\<lparr>mono = 0, wall = 0\<rparr>" 0 decl_iter demo_clocks 0]
  show ?thesis by (auto simp: demo_script_def)
qed

section \<open>An abort in a script\<close>

lemma scripted_keeps_abort:
  assumes "scripted_run iter st st'" "cm_state (ru_commander st) = Abort"
  shows "cm_state (ru_commander st') = Abort"
proof -
  obtain xs where xs: "list_all scripted xs" "ru_commander st' = cm_run mock_ops iter xs (ru_commander st)"
    using assms(1) by (auto simp: scripted_run_def)
  then have "OpReset \<notin> set xs" "OpDisarm \<notin> set xs" by (auto simp: list_all_iff scripted_def)
  then show ?thesis using abort_run assms(2) xs(2) by simp
qed

lemma abort_state [simp]: "cm_state (snd (abort ops now cm)) = Abort"
  by (auto simp: abort_def split: prod.split)

lemma perform_abort:
  "oa_action a = ''abort'' \<Longrightarrow> cm_state (ru_commander (perform n now a st)) = Abort"
  using abort_state [of mock_ops now "ru_commander st"]
  by (auto simp: perform_def simp del: abort_state split: prod.split sum.split)

lemma due_abort:
  assumes "drop (ru_action_idx st) (sc_operator_actions s) = a # as" "oa_at_frame a = n" "oa_action a = ''abort''"
    "run_frame iter s k n st = Some st'"
  shows "cm_state (ru_commander st') = Abort"
proof -
  let ?now = "fk_action k"
  let ?st1 = "perform n (?now (ru_action_idx st)) a st \<lparr>ru_action_idx := ru_action_idx st + 1\<rparr>"
  let ?st2 = "note_lock (fk_lock k) (perform_all n ?now as ?st1)"
  obtain ds where e: "st' = feed_commander iter s k n ds ?st2"
    using assms by (auto simp: run_frame_def Let_def split: option.splits)
  have "cm_state (ru_commander ?st1) = Abort" using perform_abort [OF assms(3)] by simp
  then have "cm_state (ru_commander ?st2) = Abort"
    using scripted_keeps_abort [OF perform_all_scripted, of ?st1 n ?now as] by simp
  then show ?thesis unfolding e by (rule scripted_keeps_abort [OF feed_scripted])
qed

text \<open>C27: An abort in a script is final: once the action of a frame is an abort, the run ends in
  \<open>Abort\<close> whatever actions and detections follow, and a script that expects any other final state fails.\<close>

theorem script_abort_final:
  assumes "drop (ru_action_idx st) (sc_operator_actions s) = a # as"
    "oa_at_frame a = n" "oa_action a = ''abort''" "run_frames iter s ks (n # ns) st = Some st'"
  shows "cm_state (ru_commander st') = Abort
    \<and> (parse_state (sc_expected_final_state s) \<noteq> Abort \<longrightarrow> \<not> sr_passed (verdict s elapsed st'))"
proof -
  obtain st1 where f: "run_frame iter s (ks n) n st = Some st1" "run_frames iter s ks ns st1 = Some st'"
    using assms(4) by (auto split: option.splits)
  have "cm_state (ru_commander st1) = Abort" using due_abort [OF assms(1-3) f(1)] .
  then have "cm_state (ru_commander st') = Abort"
    by (rule scripted_keeps_abort [OF run_frames_scripted [OF f(2)]])
  then show ?thesis using verdict_passed(2) [of s elapsed st'] by (auto simp: verdict_def Let_def)
qed

text \<open>An abort in the first frame and a scan in the second.\<close>

definition demo_action :: "u64 \<Rightarrow> string \<Rightarrow> operator_action" where
  "demo_action n what = \<lparr>oa_at_frame = n, oa_action = what, oa_target_id = None, oa_note = []\<rparr>"

theorem script_abort_final_witness:
  "\<exists>st'. run_frames decl_iter (demo_script [demo_action 0 ''abort'', demo_action 1 ''scan'']) demo_clocks [0, 1] demo_run = Some st'
     \<and> cm_state (ru_commander st') = Abort
     \<and> \<not> sr_passed (verdict (demo_script [demo_action 0 ''abort'', demo_action 1 ''scan'']) 0 st')"
proof -
  let ?s = "demo_script [demo_action 0 ''abort'', demo_action 1 ''scan'']"
  have w: "vs_width (sc_video ?s) \<noteq> 0" "list_all (\<lambda>n. unat n < 2 ^ 32) [0, 1 :: u64]"
    by (simp_all add: demo_script_def)
  obtain st' where r: "run_frames decl_iter ?s demo_clocks [0, 1] demo_run = Some st'"
    using run_frames_defined [OF w] by blast
  have d: "drop (ru_action_idx demo_run) (sc_operator_actions ?s) = demo_action 0 ''abort'' # [demo_action 1 ''scan'']"
    by (simp add: demo_run_def demo_script_def)
  have "parse_state (sc_expected_final_state ?s) \<noteq> Abort"
    by (simp add: demo_script_def parse_state_def upper_char_def)
  then show ?thesis
    using r script_abort_final [OF d _ _ r, of 0] by (simp add: demo_action_def)
qed

section \<open>Actions that never come\<close>

lemma perform_idx [simp]: "ru_action_idx (perform n now a st) = ru_action_idx st"
  by (simp add: perform_def fail_def split: option.split prod.split sum.split)

lemma note_lock_idx [simp]: "ru_action_idx (note_lock now st) = ru_action_idx st"
  by (simp add: note_lock_def split: option.split)

lemma feed_idx [simp]: "ru_action_idx (feed_commander iter s k n ds st) = ru_action_idx st"
  by (simp add: feed_commander_def fail_def Let_def split: prod.split sum.split)

lemma target_offset_video: "sc_video s = sc_video t \<Longrightarrow> target_offset s ds cm = target_offset t ds cm"
  by (cases ds) (simp_all add: target_offset_def)

lemma feed_video: "sc_video s = sc_video t \<Longrightarrow> feed_commander iter s k n = feed_commander iter t k n"
  by (intro ext) (simp add: feed_commander_def target_offset_video [of s t])

lemma detections_same:
  "sc_video s = sc_video t \<Longrightarrow> sc_detections s = sc_detections t
     \<Longrightarrow> generate_detections s n now = generate_detections t n now"
  by (simp add: generate_detections_def occluded_def target_position_def [of s] target_position_def [of t] Let_def)

lemma run_frame_not_due:
  assumes "drop (ru_action_idx st) (sc_operator_actions s) = a # as" "oa_at_frame a \<noteq> n"
  shows "run_frame iter s k n st
      = run_frame iter (s\<lparr>sc_operator_actions := take (ru_action_idx st) (sc_operator_actions s)\<rparr>) k n st"
    "run_frame iter s k n st = Some st' \<Longrightarrow> ru_action_idx st' = ru_action_idx st"
  using assms feed_video [of "s\<lparr>sc_operator_actions := take (ru_action_idx st) (sc_operator_actions s)\<rparr>" s]
    detections_same [of "s\<lparr>sc_operator_actions := take (ru_action_idx st) (sc_operator_actions s)\<rparr>" s]
  by (auto simp: run_frame_def split: option.splits)

text \<open>The actions are only looked at in the order of the list.  When the next one names a frame
  that is not among those to come, because the list is not sorted or the video is too short, neither it
  nor any later action is performed: the run is that of the script cut before it, and nothing in the
  result tells.\<close>

lemma blocked_actions_never_run:
  assumes "drop (ru_action_idx st) (sc_operator_actions s) = a # as" "oa_at_frame a \<notin> set ns"
  shows "run_frames iter s ks ns st
    = run_frames iter (s\<lparr>sc_operator_actions := take (ru_action_idx st) (sc_operator_actions s)\<rparr>) ks ns st"
  using assms
proof (induction ns arbitrary: st)
  case (Cons n ns)
  then have n: "oa_at_frame a \<noteq> n" by auto
  note f = run_frame_not_due [OF Cons.prems(1) n]
  show ?case
  proof (cases "run_frame iter s (ks n) n st")
    case (Some st1)
    then have i: "ru_action_idx st1 = ru_action_idx st" by (rule f(2))
    with Cons.IH [of st1] Cons.prems f(1) Some show ?thesis by simp
  qed (use f(1) in simp)
qed simp

lemma blocked_actions_never_run_witness:
  "run_frames decl_iter (demo_script [demo_action 7 ''scan'', demo_action 1 ''abort'']) demo_clocks [0, 1] demo_run
     = run_frames decl_iter (demo_script []) demo_clocks [0, 1] demo_run"
  using blocked_actions_never_run [of demo_run "demo_script [demo_action 7 ''scan'', demo_action 1 ''abort'']"
      "demo_action 7 ''scan''" "[demo_action 1 ''abort'']" "[0, 1]" decl_iter demo_clocks]
  by (simp add: demo_run_def demo_script_def demo_action_def)

section \<open>What the verdict never looks at\<close>

text \<open>The expected events and seven of the nine checks are read from the file and used by nothing.\<close>

lemma events_are_ignored:
  "run_frames iter (s\<lparr>sc_expected_events := es\<rparr>) ks ns st = run_frames iter s ks ns st"
  "verdict (s\<lparr>sc_expected_events := es\<rparr>) elapsed st = verdict s elapsed st"
proof -
  have f: "run_frame iter (s\<lparr>sc_expected_events := es\<rparr>) k n st = run_frame iter s k n st" for k n st
    by (simp add: run_frame_def feed_video [of "s\<lparr>sc_expected_events := es\<rparr>" s]
        detections_same [of "s\<lparr>sc_expected_events := es\<rparr>" s] split: option.split)
  show "run_frames iter (s\<lparr>sc_expected_events := es\<rparr>) ks ns st = run_frames iter s ks ns st"
    by (induction ns arbitrary: st) (simp_all add: f split: option.split)
  show "verdict (s\<lparr>sc_expected_events := es\<rparr>) elapsed st = verdict s elapsed st"
    by (simp add: verdict_def check_triggers_def check_lock_def check_final_def)
qed

lemma unknown_state_is_idle: "parse_state ''RETURNING'' = Idle"
  by (simp add: parse_state_def upper_char_def)

end
