(* ===== verification/Replay.thy ===== *)
theory Replay
  imports Visualizer
begin

text \<open>
  \<open>crates/video-capture/src/replay.rs\<close> with the errors of \<open>traits.rs\<close>: recordings of frames on disk
  and the source that plays one back.  The files are a map from paths to bytes; the JSON of the
  metadata, the clock and whether the receiver still takes frames are inputs.
\<close>

section \<open>Recordings\<close>

datatype video_capture_error =
    VcDeviceOpen string
  | VcDeviceConfig string
  | VcCapture string
  | VcDecode string
  | VcDisconnected

record recording_meta =
  me_width :: u32
  me_height :: u32
  me_fps :: u32
  me_format :: string
  me_frame_count :: u64
  me_created_at :: utc

record recording =
  re_dir :: string
  re_meta :: recording_meta
  re_next_seq :: u64

definition recording_create ::
  "(string, unit) result \<Rightarrow> utc \<Rightarrow> string \<Rightarrow> u32 \<Rightarrow> u32 \<Rightarrow> u32 \<Rightarrow> (video_capture_error, recording) result" where
  "recording_create created now dir width height fps =
    (case created of
       Inl e \<Rightarrow> Inl (VcDeviceOpen (''create dir: '' @ e))
     | Inr _ \<Rightarrow> Inr \<lparr>re_dir = dir,
         re_meta = \<lparr>me_width = width, me_height = height, me_fps = fps, me_format = ''rgb24'',
           me_frame_count = 0, me_created_at = now\<rparr>,
         re_next_seq = 0\<rparr>)"

definition recorded_name :: "u64 \<Rightarrow> string" where
  "recorded_name seq = ''frame_'' @ pad6 (dec (unat seq)) @ ''.bin''"

definition recording_append ::
  "(string, unit) result \<Rightarrow> frame \<Rightarrow> recording \<Rightarrow> files \<Rightarrow> (video_capture_error, unit) result \<times> recording \<times> files" where
  "recording_append written f rec fs =
    (case written of
       Inl e \<Rightarrow> (Inl (VcCapture (''write frame: '' @ e)), rec, fs)
     | Inr _ \<Rightarrow>
         let n = re_next_seq rec + 1
         in (Inr (), rec \<lparr>re_next_seq := n, re_meta := (re_meta rec) \<lparr>me_frame_count := n\<rparr>\<rparr>,
             fs (join (re_dir rec) (recorded_name (re_next_seq rec)) \<mapsto> frame_data f)))"

definition recording_finalize ::
  "(recording_meta \<Rightarrow> (string, string) result) \<Rightarrow> (string, unit) result \<Rightarrow> recording \<Rightarrow> files
     \<Rightarrow> (video_capture_error, unit) result \<times> files" where
  "recording_finalize to_json written rec fs =
    (case to_json (re_meta rec) of
       Inl e \<Rightarrow> (Inl (VcCapture (''serialize meta: '' @ e)), fs)
     | Inr json \<Rightarrow>
         (case written of
            Inl e \<Rightarrow> (Inl (VcCapture (''write meta: '' @ e)), fs)
          | Inr _ \<Rightarrow> (Inr (), fs (join (re_dir rec) ''meta.json'' \<mapsto> bytes_of json))))"

section \<open>The source\<close>

record replay_source =
  rp_dir :: string
  rp_meta :: recording_meta
  rp_real_time :: bool
  rp_loop :: bool
  rp_task :: bool

text \<open>\<open>std::fs::read_to_string\<close>; \<open>missing\<close> and \<open>invalid\<close> are the texts of its errors.\<close>

definition read_to_string :: "string \<Rightarrow> string \<Rightarrow> files \<Rightarrow> string \<Rightarrow> (string, string) result" where
  "read_to_string missing invalid fs path =
    (case fs path of
       None \<Rightarrow> Inl missing
     | Some bytes \<Rightarrow> (case from_utf8 bytes of None \<Rightarrow> Inl invalid | Some s \<Rightarrow> Inr s))"

definition replay_open ::
  "(string \<Rightarrow> (string, string) result) \<Rightarrow> (string \<Rightarrow> (string, recording_meta) result) \<Rightarrow> string
     \<Rightarrow> (video_capture_error, replay_source) result" where
  "replay_open read parse dir =
    (case read (join dir ''meta.json'') of
       Inl e \<Rightarrow> Inl (VcDeviceOpen (''read meta.json: '' @ e))
     | Inr text \<Rightarrow>
         (case parse text of
            Inl e \<Rightarrow> Inl (VcDeviceOpen (''parse meta.json: '' @ e))
          | Inr m \<Rightarrow> Inr \<lparr>rp_dir = dir, rp_meta = m, rp_real_time = True, rp_loop = False, rp_task = False\<rparr>))"

definition with_real_time :: "bool \<Rightarrow> replay_source \<Rightarrow> replay_source" where
  "with_real_time b src = src \<lparr>rp_real_time := b\<rparr>"

definition with_loop :: "bool \<Rightarrow> replay_source \<Rightarrow> replay_source" where
  "with_loop b src = src \<lparr>rp_loop := b\<rparr>"

definition replay_format :: "string \<Rightarrow> pixel_format" where
  "replay_format s =
    (if s = ''rgb24'' then Rgb24 else if s = ''nv12'' then Nv12 else if s = ''yuyv'' then Yuyv
     else if s = ''mjpeg'' then Mjpeg else Rgb24)"

text \<open>How the task ends; \<open>Waiting\<close> is a task that still waits for room in the channel or sleeps.\<close>

datatype replay_end = Complete | ReadFailed u64 | ReceiverGone | Waiting | IntervalPanic

text \<open>
  One pass over the recording.  \<open>n\<close> counts the frames sent: the files and the clock are read as they are
  before the next one.  Each element of \<open>sends\<close> is a send that returns, with true when it succeeded.
\<close>

fun replay_pass ::
  "replay_source \<Rightarrow> (nat \<Rightarrow> files) \<Rightarrow> (nat \<Rightarrow> utc) \<Rightarrow> u64 list \<Rightarrow> nat \<Rightarrow> bool list
     \<Rightarrow> frame list \<times> replay_end option \<times> bool list" where
  "replay_pass src fs now [] n sends = ([], None, sends)"
| "replay_pass src fs now (seq # seqs) n sends =
    (case fs n (join (rp_dir src) (recorded_name seq)) of
       None \<Rightarrow> ([], Some (ReadFailed seq), sends)
     | Some data \<Rightarrow>
         let m = rp_meta src;
             f = \<lparr>frame_data = data, frame_meta = \<lparr>fm_width = me_width m, fm_height = me_height m,
                   fm_format = replay_format (me_format m), fm_captured_at = now n, fm_seq = seq\<rparr>\<rparr>
         in (case sends of
               [] \<Rightarrow> ([], Some Waiting, [])
             | False # rest \<Rightarrow> ([], Some ReceiverGone, rest)
             | True # rest \<Rightarrow>
                 (case replay_pass src fs now seqs (n + 1) rest of
                    (sent, stop, rest') \<Rightarrow> (f # sent, stop, rest'))))"

lemma replay_pass_length:
  "replay_pass src fs now seqs n sends = (sent, None, rest)
     \<Longrightarrow> length sent = length seqs \<and> length rest + length sent = length sends"
proof (induction seqs arbitrary: n sends sent)
  case (Cons seq seqs)
  then obtain sends' sent' where "sends = True # sends'" "replay_pass src fs now seqs (n + 1) sends' = (sent', None, rest)"
    "length sent = Suc (length sent')"
    by (auto simp: Let_def split: option.splits list.splits bool.splits prod.splits)
  then show ?case using Cons.IH [of "n + 1" sends' sent'] by simp
qed simp

definition replay_seqs :: "replay_source \<Rightarrow> u64 list" where
  "replay_seqs src = map of_nat [0..<unat (me_frame_count (rp_meta src))]"

function replay_rounds ::
  "replay_source \<Rightarrow> (nat \<Rightarrow> files) \<Rightarrow> (nat \<Rightarrow> utc) \<Rightarrow> nat \<Rightarrow> bool list \<Rightarrow> frame list \<times> replay_end" where
  "replay_rounds src fs now n sends =
    (case replay_pass src fs now (replay_seqs src) n sends of
       (sent, Some e, _) \<Rightarrow> (sent, e)
     | (sent, None, rest) \<Rightarrow>
         if \<not> rp_loop src then (sent, Complete)
         else if sent = [] then (sent, Complete)
         else case replay_rounds src fs now (n + length sent) rest of (sent', e) \<Rightarrow> (sent @ sent', e))"
  by pat_completeness auto
termination
  by (relation "measure (\<lambda>(src, fs, now, n, sends). length sends)")
    (auto dest!: replay_pass_length [OF sym] simp: neq_Nil_conv)

declare replay_rounds.simps [simp del]

text \<open>\<open>Duration::from_secs_f64\<close> panics on the infinite interval of zero frames per second.\<close>

definition replay_task ::
  "replay_source \<Rightarrow> (nat \<Rightarrow> files) \<Rightarrow> (nat \<Rightarrow> utc) \<Rightarrow> bool list \<Rightarrow> frame list \<times> replay_end" where
  "replay_task src fs now sends =
    (if me_fps (rp_meta src) = 0 then ([], IntervalPanic) else replay_rounds src fs now 0 sends)"

definition replay_start :: "replay_source \<Rightarrow> replay_source" where
  "replay_start src = src \<lparr>rp_task := True\<rparr>"

definition replay_stop :: "replay_source \<Rightarrow> replay_source" where
  "replay_stop src = src \<lparr>rp_task := False\<rparr>"

section \<open>A recording is what was recorded\<close>

text \<open>Frames appended one after the other, with writes that succeed.\<close>

primrec append_all :: "frame list \<Rightarrow> recording \<Rightarrow> files \<Rightarrow> recording \<times> files" where
  "append_all [] rec fs = (rec, fs)"
| "append_all (f # frames) rec fs = append_all frames (fst (snd (recording_append (Inr ()) f rec fs)))
     (snd (snd (recording_append (Inr ()) f rec fs)))"

abbreviation recorded_path :: "string \<Rightarrow> nat \<Rightarrow> string" where
  "recorded_path dir i \<equiv> join dir (recorded_name (of_nat i))"

lemma recorded_name_inj: "recorded_name a = recorded_name b \<longleftrightarrow> a = b"
  by (auto simp: recorded_name_def pad6_inj word_unat_eq_iff)

lemma recorded_path_inj: "i < 2 ^ 64 \<Longrightarrow> j < 2 ^ 64 \<Longrightarrow> recorded_path dir i = recorded_path dir j \<longleftrightarrow> i = j"
  by (auto simp: join_def recorded_name_inj word_unat_eq_iff unat_of_nat)

lemma recorded_not_meta: "recorded_name a \<noteq> ''meta.json''"
  by (simp add: recorded_name_def)

lemma append_all_snoc:
  "append_all (frames @ [f]) rec fs =
     (case append_all frames rec fs of (rec', fs') \<Rightarrow> snd (recording_append (Inr ()) f rec' fs'))"
  by (induction frames arbitrary: rec fs) (simp_all add: split_def)

lemma append_all_kept:
  assumes "append_all frames rec fs = (rec', fs')" "re_next_seq rec = 0" "me_frame_count (re_meta rec) = 0"
    "length frames < 2 ^ 64"
  shows "re_next_seq rec' = of_nat (length frames) \<and> re_dir rec' = re_dir rec
    \<and> re_meta rec' = (re_meta rec) \<lparr>me_frame_count := of_nat (length frames)\<rparr>
    \<and> (\<forall>i < length frames. fs' (recorded_path (re_dir rec) i) = Some (frame_data (frames ! i)))"
  using assms(1,4)
proof (induction frames arbitrary: rec' fs' rule: rev_induct)
  case Nil
  then show ?case using assms(2,3) by (cases rec) simp
next
  case (snoc f frames)
  obtain rec1 fs1 where a: "append_all frames rec fs = (rec1, fs1)" by (cases "append_all frames rec fs")
  note one = snoc.IH [OF a] snoc.prems(2)
  have new: "rec' = rec1 \<lparr>re_next_seq := re_next_seq rec1 + 1,
        re_meta := (re_meta rec1) \<lparr>me_frame_count := re_next_seq rec1 + 1\<rparr>\<rparr>"
      "fs' = fs1 (recorded_path (re_dir rec) (length frames) \<mapsto> frame_data f)"
    using snoc.prems(1) a one by (auto simp: append_all_snoc recording_append_def Let_def)
  have "fs' (recorded_path (re_dir rec) i) = Some (frame_data ((frames @ [f]) ! i))" if "i < length (frames @ [f])" for i
    using one new(2) that recorded_path_inj [of i "length frames"] by (auto simp: nth_append less_Suc_eq)
  then show ?case using one new(1) by (simp add: add.commute)
qed

section \<open>Playing back\<close>

text \<open>The frame sent as number \<open>k\<close> of a run, made of the file \<open>i\<close>.\<close>

definition replayed :: "replay_source \<Rightarrow> files \<Rightarrow> (nat \<Rightarrow> utc) \<Rightarrow> nat \<Rightarrow> nat \<Rightarrow> frame" where
  "replayed src fs now k i =
    \<lparr>frame_data = the (fs (recorded_path (rp_dir src) i)),
     frame_meta = \<lparr>fm_width = me_width (rp_meta src), fm_height = me_height (rp_meta src),
       fm_format = replay_format (me_format (rp_meta src)), fm_captured_at = now k, fm_seq = of_nat i\<rparr>\<rparr>"

lemma replay_pass_all:
  assumes "\<forall>i \<in> {a..<b}. fs (recorded_path (rp_dir src) i) \<noteq> None" "a \<le> b"
  shows "replay_pass src (\<lambda>_. fs) now (map of_nat [a..<b]) n (replicate m True)
    = (map (\<lambda>i. replayed src fs now (n + i) (a + i)) [0..<min m (b - a)],
       if m < b - a then Some Waiting else None, replicate (m - (b - a)) True)"
  using assms
proof (induction "b - a" arbitrary: a n m)
  case (Suc k)
  then have ab: "[a..<b] = a # [Suc a..<b]" by (simp add: upt_conv_Cons)
  obtain data where data: "fs (recorded_path (rp_dir src) a) = Some data" using Suc.prems(1) Suc.hyps(2) by fastforce
  show ?case
  proof (cases m)
    case (Suc m')
    have "replay_pass src (\<lambda>_. fs) now (map of_nat [Suc a..<b]) (Suc n) (replicate m' True)
      = (map (\<lambda>i. replayed src fs now (Suc n + i) (Suc a + i)) [0..<min m' (b - Suc a)],
         if m' < b - Suc a then Some Waiting else None, replicate (m' - (b - Suc a)) True)"
      using Suc.hyps Suc.prems by (intro Suc.hyps(1)) auto
    moreover have "min m (b - a) = Suc (min m' (b - Suc a))" using Suc.hyps(2) \<open>m = Suc m'\<close> by simp
    then have "[0..<min m (b - a)] = 0 # map Suc [0..<min m' (b - Suc a)]"
      by (simp add: map_Suc_upt upt_conv_Cons del: upt_Suc)
    moreover have "m < b - a \<longleftrightarrow> m' < b - Suc a" "m - (b - a) = m' - (b - Suc a)"
      using Suc.hyps(2) \<open>m = Suc m'\<close> by auto
    ultimately show ?thesis using data \<open>m = Suc m'\<close> unfolding ab
      by (simp add: replayed_def [of src fs now n a] Let_def del: of_nat_Suc)
  qed (use data ab Suc.hyps(2) in \<open>simp add: Let_def\<close>)
qed simp

lemma replay_seqs_length: "unat (me_frame_count (rp_meta src)) = c \<Longrightarrow> replay_seqs src = map of_nat [0..<c]"
  by (simp add: replay_seqs_def)

text \<open>C23: A recording plays back the bytes that were recorded: after frames were appended to a new
  recording, with writes that succeed, and the recording was finalized, the source opened on the
  directory sends one frame for each, with exactly its bytes, in their order, and ends.  The rest of the
  frame is not recorded: whatever was appended, each is played back as RGB24 of the size given at
  creation, numbered from zero and stamped with the time of the playback.  A recording of zero frames
  per second plays back nothing.\<close>

theorem replay_round_trip:
  assumes "recording_create (Inr ()) t dir w h fps = Inr rec0" "length frames < 2 ^ 64"
    and "append_all frames rec0 fs0 = (rec, fs1)" "recording_finalize to_json (Inr ()) rec fs1 = (Inr (), fs2)"
    and "to_json (re_meta rec) = Inr json" "parse json = Inr (re_meta rec)" "from_utf8 (bytes_of json) = Some json"
    and "length frames \<le> m"
  shows "\<exists>src. replay_open (read_to_string missing invalid fs2) parse dir = Inr src
    \<and> replay_task src (\<lambda>_. fs2) now (replicate m True) =
       (if fps = 0 then ([], IntervalPanic)
        else (map (\<lambda>i. \<lparr>frame_data = frame_data (frames ! i), frame_meta = \<lparr>fm_width = w, fm_height = h,
            fm_format = Rgb24, fm_captured_at = now i, fm_seq = of_nat i\<rparr>\<rparr>) [0..<length frames], Complete))"
proof -
  have new: "re_next_seq rec0 = 0" "me_frame_count (re_meta rec0) = 0" "re_dir rec0 = dir"
    "re_meta rec0 = \<lparr>me_width = w, me_height = h, me_fps = fps, me_format = ''rgb24'', me_frame_count = 0,
       me_created_at = t\<rparr>"
    using assms(1) by (auto simp: recording_create_def)
  note kept = append_all_kept [OF assms(3) new(1,2) assms(2)]
  have fs2: "fs2 = fs1 (join dir ''meta.json'' \<mapsto> bytes_of json)"
    using assms(4,5) kept new(3) by (simp add: recording_finalize_def)
  let ?src = "\<lparr>rp_dir = dir, rp_meta = re_meta rec, rp_real_time = True, rp_loop = False, rp_task = False\<rparr>"
  have "replay_open (read_to_string missing invalid fs2) parse dir = Inr ?src"
    using assms(6,7) by (simp add: replay_open_def read_to_string_def fs2)
  moreover
  have files: "fs2 (recorded_path dir i) = Some (frame_data (frames ! i))" if "i < length frames" for i
    using that kept new(3) recorded_not_meta [of "of_nat i"] by (simp add: fs2 join_def)
  have "replay_seqs ?src = map of_nat [0..<length frames]"
    using kept assms(2) by (intro replay_seqs_length) (simp add: unat_of_nat)
  then have "replay_task ?src (\<lambda>_. fs2) now (replicate m True)
      = (if fps = 0 then ([], IntervalPanic)
         else (map (\<lambda>i. replayed ?src fs2 now i i) [0..<length frames], Complete))"
    using replay_pass_all [of 0 "length frames" fs2 ?src now 0 m] files kept assms(8) new(4)
    by (simp add: replay_task_def replay_rounds.simps min_def)
  moreover have "replayed ?src fs2 now i i = \<lparr>frame_data = frame_data (frames ! i), frame_meta = \<lparr>fm_width = w,
      fm_height = h, fm_format = Rgb24, fm_captured_at = now i, fm_seq = of_nat i\<rparr>\<rparr>" if "i < length frames" for i
    using files [OF that] kept new(4) by (simp add: replayed_def replay_format_def)
  ultimately show ?thesis by auto
qed

text \<open>A looped playback repeats the recording: frame \<open>k\<close> of the run is frame \<open>k mod c\<close> of a recording of
  \<open>c\<close> frames, its number starts again at zero with each round, and the source never ends by itself.\<close>

lemma replay_repeats:
  assumes "rp_loop src" "me_fps (rp_meta src) \<noteq> 0" "unat (me_frame_count (rp_meta src)) = c" "0 < c"
    and "\<forall>i < c. fs (recorded_path (rp_dir src) i) \<noteq> None"
  shows "replay_task src (\<lambda>_. fs) now (replicate m True)
    = (map (\<lambda>k. replayed src fs now k (k mod c)) [0..<m], Waiting)"
proof -
  have "replay_rounds src (\<lambda>_. fs) now n (replicate m True)
    = (map (\<lambda>k. replayed src fs now (n + k) (k mod c)) [0..<m], Waiting)" for n
  proof (induction m arbitrary: n rule: less_induct)
    case (less m)
    have pass: "replay_pass src (\<lambda>_. fs) now (replay_seqs src) n (replicate m True)
      = (map (\<lambda>i. replayed src fs now (n + i) i) [0..<min m c], if m < c then Some Waiting else None,
         replicate (m - c) True)"
      using replay_pass_all [of 0 c fs src now n m] assms(3,5) by (simp add: replay_seqs_length)
    show ?case
    proof (cases "m < c")
      case True
      then show ?thesis using pass by (subst replay_rounds.simps) (simp add: min_def)
    next
      case False
      then have "min m c = c" by simp
      moreover have "[0..<m] = [0..<c] @ map (\<lambda>k. c + k) [0..<m - c]"
        using False upt_add_eq_append [of 0 c "m - c"] by (simp add: map_add_upt add.commute)
      moreover have "replay_rounds src (\<lambda>_. fs) now (n + c) (replicate (m - c) True)
        = (map (\<lambda>k. replayed src fs now (n + c + k) (k mod c)) [0..<m - c], Waiting)"
        using False assms(4) by (intro less.IH) simp
      ultimately show ?thesis using pass False assms(1,4)
        by (subst replay_rounds.simps) (simp add: add.assoc)
    qed
  qed
  from this [of 0] show ?thesis using assms(2) by (simp add: replay_task_def)
qed

section \<open>Concrete recordings\<close>

definition small_recording :: "nat \<Rightarrow> recording" where
  "small_recording n = \<lparr>re_dir = ''rec'', re_meta = \<lparr>me_width = 1, me_height = 1, me_fps = 30,
     me_format = ''rgb24'', me_frame_count = of_nat n, me_created_at = 5\<rparr>, re_next_seq = of_nat n\<rparr>"

theorem replay_round_trip_witness:
  "\<exists>src. replay_open (read_to_string [] [] (snd (recording_finalize (\<lambda>_. Inr ''m'') (Inr ()) (small_recording 2)
        (snd (append_all [dot_frame, dot_frame] (small_recording 0) (\<lambda>_. None))))))
      (\<lambda>_. Inr (re_meta (small_recording 2))) ''rec'' = Inr src
    \<and> rp_meta src = re_meta (small_recording 2)"
proof -
  let ?fs1 = "snd (append_all [dot_frame, dot_frame] (small_recording 0) (\<lambda>_. None))"
  let ?fin = "recording_finalize (\<lambda>_. Inr ''m'') (Inr ()) (small_recording 2) ?fs1"
  have c: "recording_create (Inr ()) 5 ''rec'' 1 1 30 = Inr (small_recording 0)"
    by (simp add: recording_create_def small_recording_def)
  have a: "append_all [dot_frame, dot_frame] (small_recording 0) (\<lambda>_. None) = (small_recording 2, ?fs1)"
    by (simp add: recording_append_def small_recording_def Let_def)
  have f: "?fin = (Inr (), snd ?fin)" by (simp add: recording_finalize_def)
  have u: "from_utf8 (bytes_of ''m'') = Some ''m''" by (simp add: from_utf8_def) (simp add: bytes_of_def)
  obtain src where src: "replay_open (read_to_string [] [] (snd ?fin)) (\<lambda>_. Inr (re_meta (small_recording 2))) ''rec'' = Inr src"
    using replay_round_trip [OF c _ a f _ _ u, of "\<lambda>_. Inr (re_meta (small_recording 2))" 2 "[]" "[]" "\<lambda>_. 0"] by auto
  then have "rp_meta src = re_meta (small_recording 2)" by (auto simp: replay_open_def split: sum.splits)
  with src show ?thesis by blast
qed

lemma replay_repeats_witness:
  "\<exists>src fs. snd (replay_task src (\<lambda>_. fs) (\<lambda>_. 0) [True, True, True]) = Waiting
    \<and> map (\<lambda>f. fm_seq (frame_meta f)) (fst (replay_task src (\<lambda>_. fs) (\<lambda>_. 0) [True, True, True])) = [0, 1, 0]"
proof -
  let ?src = "\<lparr>rp_dir = ''rec'', rp_meta = re_meta (small_recording 2), rp_real_time = False, rp_loop = True,
    rp_task = True\<rparr>"
  let ?fs = "\<lambda>_. Some [7, 7, 7 :: u8]"
  have "replay_task ?src (\<lambda>_. ?fs) (\<lambda>_. 0) (replicate 3 True)
    = (map (\<lambda>k. replayed ?src ?fs (\<lambda>_. 0) k (k mod 2)) [0..<3], Waiting)"
    by (rule replay_repeats) (simp_all add: small_recording_def)
  then have "replay_task ?src (\<lambda>_. ?fs) (\<lambda>_. 0) [True, True, True]
    = (map (\<lambda>k. replayed ?src ?fs (\<lambda>_. 0) k (k mod 2)) [0, 1, 2], Waiting)"
    by (simp add: numeral_3_eq_3 upt_rec numeral_2_eq_2)
  then show ?thesis by (intro exI [of _ ?src] exI [of _ ?fs]) (simp add: replayed_def)
qed

text \<open>What a recording does not say: it is created over an older one, and with zero frames per second the
  playback dies before its first frame.\<close>

lemma create_overwrites: "\<exists>rec. recording_create (Inr ()) t dir w h fps = Inr rec \<and> re_next_seq rec = 0"
  by (simp add: recording_create_def)

lemma zero_fps_dies: "me_fps (rp_meta src) = 0 \<Longrightarrow> replay_task src fs now sends = ([], IntervalPanic)"
  by (simp add: replay_task_def)

end
