(* ===== verification/Synthetic.thy ===== *)
theory Synthetic
  imports Common_Types Shm_Layout
begin

text \<open>
  \<open>crates/video-capture/src/synthetic.rs\<close>: frames made by the program, and the task that offers them to a
  bounded channel and drops the new one when it is full; and the configuration of a source,
  \<open>lib.rs\<close>.  A panic, of an overflow too (as in builds that check it), is \<open>None\<close>.  The sleep between two frames is not modelled.
\<close>

section \<open>Configuration\<close>

record video_config =
  vc_device :: string
  vc_width :: u32
  vc_height :: u32
  vc_fps :: u32
  vc_format :: string
  vc_queue_depth :: nat

definition video_config_default :: video_config where
  "video_config_default = \<lparr>vc_device = ''/dev/video0'', vc_width = 1280, vc_height = 720, vc_fps = 30,
     vc_format = ''mjpeg'', vc_queue_depth = 3\<rparr>"

record video_source_config =
  so_device :: string
  so_width :: u32
  so_height :: u32
  so_fps :: u32
  so_format :: pixel_format
  so_queue_depth :: nat

definition from_common :: "video_config \<Rightarrow> video_source_config" where
  "from_common cfg =
    (let s = vc_format cfg;
         format = (if s = ''nv12'' then Nv12 else if s = ''yuyv'' then Yuyv else if s = ''rgb24'' then Rgb24
                   else if s = ''mjpeg'' then Mjpeg else Mjpeg)
     in \<lparr>so_device = vc_device cfg, so_width = vc_width cfg, so_height = vc_height cfg, so_fps = vc_fps cfg,
         so_format = format, so_queue_depth = vc_queue_depth cfg\<rparr>)"

datatype synthetic_pattern = SolidColor | Gradient | MovingDot | Checkerboard

record synthetic_config =
  sy_width :: u32
  sy_height :: u32
  sy_fps :: u32
  sy_pattern :: synthetic_pattern
  sy_infinite :: bool
  sy_max_frames :: u64

definition synthetic_config_default :: synthetic_config where
  "synthetic_config_default = \<lparr>sy_width = 640, sy_height = 480, sy_fps = 30, sy_pattern = Gradient,
     sy_infinite = True, sy_max_frames = 0\<rparr>"

section \<open>A frame\<close>

text \<open>The length of the buffer, \<open>w * h * 3\<close>.\<close>

definition buffer_length :: "synthetic_config \<Rightarrow> nat option" where
  "buffer_length cfg =
    map_option unat (Option.bind (checked_mul (sy_width cfg) (sy_height cfg)) (\<lambda>p. checked_mul p 3))"

definition gradient_value :: "u32 \<Rightarrow> u32 \<Rightarrow> u8 option" where
  "gradient_value w x = map_option (\<lambda>v. ucast (v div max (saturating_sub w 1) 1)) (checked_mul x 255)"

definition checker_value :: "u32 \<Rightarrow> u32 \<Rightarrow> u32 \<Rightarrow> u32 \<Rightarrow> u8 option" where
  "checker_value w h x y =
    map_option (\<lambda>s. if s mod 2 = 0 then 255 else 0) (checked_add (x div max (w div 8) 1) (y div max (h div 8) 1))"

text \<open>The loops over rows and columns write every pixel once, in the order of the buffer.\<close>

definition grey_pixels :: "u32 \<Rightarrow> u32 \<Rightarrow> (u32 \<Rightarrow> u32 \<Rightarrow> u8 option) \<Rightarrow> u8 list option" where
  "grey_pixels w h value =
    map_option (\<lambda>vs. concat (map (\<lambda>v. [v, v, v]) vs))
      (those (concat (map (\<lambda>y. map (\<lambda>x. value (of_nat x) (of_nat y)) [0..<unat w]) [0..<unat h])))"

definition dot_index :: "u32 \<Rightarrow> u32 \<Rightarrow> u64 \<Rightarrow> nat option" where
  "dot_index w h seq =
    (if w = 0 then None
     else map_option unat
       (Option.bind (Option.bind (checked_mul (h div 2) w) (\<lambda>p. checked_add p (ucast (seq mod ucast w))))
         (\<lambda>p. checked_mul p 3)))"

definition put_dot :: "nat \<Rightarrow> u8 list \<Rightarrow> u8 list" where
  "put_dot i data = (if i + 2 < length data then data [i := 255, i + 1 := 255, i + 2 := 255] else data)"

definition render_data :: "synthetic_config \<Rightarrow> u64 \<Rightarrow> u8 list option" where
  "render_data cfg seq =
    (let w = sy_width cfg; h = sy_height cfg
     in case buffer_length cfg of
          None \<Rightarrow> None
        | Some n \<Rightarrow>
            (case sy_pattern cfg of
               SolidColor \<Rightarrow> Some (concat (replicate (n div 3) [255, 0, 0]))
             | Gradient \<Rightarrow> grey_pixels w h (\<lambda>x y. gradient_value w x)
             | MovingDot \<Rightarrow> map_option (\<lambda>i. put_dot i (replicate n 0)) (dot_index w h seq)
             | Checkerboard \<Rightarrow> grey_pixels w h (checker_value w h)))"

definition render_frame :: "synthetic_config \<Rightarrow> utc \<Rightarrow> u64 \<Rightarrow> frame option" where
  "render_frame cfg now seq =
    map_option (\<lambda>data. \<lparr>frame_data = data, frame_meta = \<lparr>fm_width = sy_width cfg, fm_height = sy_height cfg,
        fm_format = Rgb24, fm_captured_at = now, fm_seq = seq\<rparr>\<rparr>) (render_data cfg seq)"

section \<open>The task\<close>

definition channel_depth :: "synthetic_config \<Rightarrow> nat" where
  "channel_depth cfg = min 30 (max 3 (unat (sy_fps cfg)))"

text \<open>
  What a round finds: how many frames the receiver has taken from the channel since the last one,
  whether it is still there, and the clock.  The state: the frames delivered, those in the channel,
  and the number of the next one.
\<close>

record syn_input =
  sn_taken :: nat
  sn_open :: bool
  sn_now :: utc

record syn_state =
  st_delivered :: "frame list"
  st_queue :: "frame list"
  st_seq :: u64

datatype syn_end = SynRunning | SynStopped | SynPanicked

definition take_frames :: "nat \<Rightarrow> syn_state \<Rightarrow> syn_state" where
  "take_frames n st = st \<lparr>st_delivered := st_delivered st @ take n (st_queue st), st_queue := drop n (st_queue st)\<rparr>"

definition offer :: "nat \<Rightarrow> frame \<Rightarrow> syn_state \<Rightarrow> syn_state" where
  "offer depth f st = (if length (st_queue st) < depth then st \<lparr>st_queue := st_queue st @ [f]\<rparr> else st)"

definition syn_round :: "synthetic_config \<Rightarrow> syn_input \<Rightarrow> syn_state \<Rightarrow> syn_end \<times> syn_state" where
  "syn_round cfg inp st =
    (let st1 = take_frames (sn_taken inp) st
     in case render_frame cfg (sn_now inp) (st_seq st) of
          None \<Rightarrow> (SynPanicked, st1)
        | Some f \<Rightarrow>
            if \<not> sn_open inp then (SynStopped, st1)
            else let st2 = (offer (channel_depth cfg) f st1) \<lparr>st_seq := st_seq st + 1\<rparr>
                 in if \<not> sy_infinite cfg \<and> sy_max_frames cfg \<le> st_seq st2 then (SynStopped, st2)
                    else (SynRunning, st2))"

fun syn_rounds :: "synthetic_config \<Rightarrow> syn_input list \<Rightarrow> syn_state \<Rightarrow> syn_end \<times> syn_state" where
  "syn_rounds cfg [] st = (SynRunning, st)"
| "syn_rounds cfg (inp # inps) st =
    (case syn_round cfg inp st of
       (SynRunning, st') \<Rightarrow> syn_rounds cfg inps st'
     | (stop, st') \<Rightarrow> (stop, st'))"

definition syn_new :: syn_state where
  "syn_new = \<lparr>st_delivered = [], st_queue = [], st_seq = 0\<rparr>"

text \<open>\<open>Duration::from_secs_f64\<close> panics on the infinite interval of zero frames per second.\<close>

definition syn_task :: "synthetic_config \<Rightarrow> syn_input list \<Rightarrow> syn_end \<times> syn_state" where
  "syn_task cfg inps = (if sy_fps cfg = 0 then (SynPanicked, syn_new) else syn_rounds cfg inps syn_new)"

section \<open>What is rendered\<close>

lemma unat_mul_small: "unat a * unat b < 2 ^ LENGTH('w) \<Longrightarrow> unat (a * b :: 'w::len word) = unat a * unat b"
  by (simp add: unat_word_ariths)

lemma buffer_length_eq:
  "buffer_length cfg = (let n = unat (sy_width cfg) * unat (sy_height cfg) * 3 in if n < 2 ^ 32 then Some n else None)"
proof (cases "unat (sy_width cfg) * unat (sy_height cfg) < 2 ^ 32")
  case True
  then show ?thesis by (simp add: buffer_length_def checked_mul_def unat_mul_small Let_def)
qed (simp add: buffer_length_def checked_mul_def Let_def)

lemma those_length: "those xs = Some ys \<Longrightarrow> length ys = length xs"
  by (induction xs arbitrary: ys) (auto split: option.splits)

lemma length_grey: "grey_pixels w h value = Some data \<Longrightarrow> length data = unat w * unat h * 3"
  by (auto simp: grey_pixels_def length_concat comp_def sum_list_triv dest!: those_length)

lemma render_length:
  "render_data cfg seq = Some data \<Longrightarrow> length data = unat (sy_width cfg) * unat (sy_height cfg) * 3"
  by (auto simp: render_data_def Let_def buffer_length_eq length_grey length_concat sum_list_replicate put_dot_def
      split: option.splits synthetic_pattern.splits if_splits)

lemma those_defined: "list_all (\<lambda>x. x \<noteq> None) xs \<Longrightarrow> those xs \<noteq> None"
  by (induction xs) auto

lemma grey_defined:
  assumes "\<And>x y. x < w \<Longrightarrow> y < h \<Longrightarrow> value x y \<noteq> None"
  shows "grey_pixels w h value \<noteq> None"
proof -
  have small: "(of_nat i :: u32) < n" if "i < unat n" for i n
    using that unsigned_less [of n, where 'a = nat] by (simp add: word_less_nat_alt unat_of_nat)
  show ?thesis using assms [OF small small]
    by (simp add: grey_pixels_def those_defined list_all_iff)
qed

text \<open>A size is rendered when its buffer fits into 32 bits and, for the gradient, its columns by 255 do.\<close>

definition renderable :: "synthetic_config \<Rightarrow> bool" where
  "renderable cfg \<longleftrightarrow> 0 < unat (sy_width cfg) \<and> 0 < unat (sy_height cfg)
     \<and> unat (sy_width cfg) * unat (sy_height cfg) * 3 < 2 ^ 32 \<and> unat (sy_width cfg) * 255 < 2 ^ 32"

lemma dot_index_eq:
  assumes "0 < unat w" "0 < unat h" "unat w * unat h * 3 < 2 ^ 32"
  shows "dot_index w h seq = Some ((unat h div 2 * unat w + unat seq mod unat w) * 3)"
proof -
  let ?W = "unat w" and ?H = "unat h" and ?d = "unat seq mod unat w"
  have dot: "unat (ucast (seq mod ucast w) :: u32) = ?d"
    using mod_less_divisor [OF assms(1), of "unat seq"] unsigned_less [of w, where 'a = nat]
    by (simp add: unsigned_ucast_eq unat_mod take_bit_nat_eq_self unat_ucast_up)
  have "?H div 2 * ?W + ?d < ?H * ?W"
  proof -
    have "?H div 2 * ?W + ?d < (?H div 2 + 1) * ?W" using mod_less_divisor [OF assms(1), of "unat seq"] by simp
    also have "\<dots> \<le> ?H * ?W" using assms(2) by (intro mult_right_mono) auto
    finally show ?thesis .
  qed
  then have b: "(?H div 2 * ?W + ?d) * 3 < 2 ^ 32" "?H div 2 * ?W + ?d < 2 ^ 32" "?H div 2 * ?W < 2 ^ 32"
    using assms(3) by (simp_all add: mult.commute)
  have half: "unat (h div 2) = ?H div 2" by (simp add: unat_div)
  have "?H div 2 mod 4294967296 = ?H div 2" using unsigned_less [of h, where 'a = nat] by simp
  moreover have "w \<noteq> 0" using assms(1) by auto
  ultimately show ?thesis using b
    by (simp add: dot_index_def checked_mul_def checked_add_def half dot unat_word_ariths)
qed

lemma render_defined:
  assumes "renderable cfg"
  shows "\<exists>data. render_data cfg seq = Some data"
proof -
  let ?w = "sy_width cfg" and ?h = "sy_height cfg"
  have r: "0 < unat ?w" "0 < unat ?h" "unat ?w * unat ?h * 3 < 2 ^ 32" "unat ?w * 255 < 2 ^ 32"
    using assms by (simp_all add: renderable_def)
  have "gradient_value ?w x \<noteq> None" if "x < ?w" for x
  proof -
    have "unat x * 255 < 2 ^ 32" using that r(4) by (simp add: word_less_nat_alt)
    then show ?thesis by (simp add: gradient_value_def checked_mul_def)
  qed
  moreover have "checker_value ?w ?h x y \<noteq> None" if "x < ?w" "y < ?h" for x y
  proof -
    have "unat x div a + unat y div b < unat ?w * unat ?h + 1" for a b
    proof -
      have "unat x div a \<le> unat x" "unat y div b \<le> unat y" by (rule div_le_dividend)+
      moreover have "unat x < unat ?w" "unat y < unat ?h" using that by (simp_all add: word_less_nat_alt)
      moreover have "(unat ?w - 1) * (unat ?h - 1) \<ge> 0" by simp
      then have "unat ?w + unat ?h \<le> unat ?w * unat ?h + 1"
        using r(1,2) by (cases "unat ?w"; cases "unat ?h") auto
      ultimately show ?thesis by linarith
    qed
    moreover have "unat ?w * unat ?h + 1 \<le> 2 ^ 32" using r(3) by simp
    ultimately have "unat (x div max (?w div 8) 1) + unat (y div max (?h div 8) 1) < 2 ^ 32"
      unfolding unat_div by (rule less_le_trans)
    then show ?thesis by (simp add: checker_value_def checked_add_def)
  qed
  ultimately show ?thesis using dot_index_eq [OF r(1-3)] grey_defined [of ?w ?h] r(3)
    by (cases "sy_pattern cfg") (auto simp: render_data_def Let_def buffer_length_eq split: option.split)
qed

lemma put_dot_nth:
  "i + 2 < n \<Longrightarrow> j < n \<Longrightarrow> put_dot i (replicate n 0) ! j = (if i \<le> j \<and> j \<le> i + 2 then 255 else 0)"
  by (auto simp: put_dot_def nth_list_update)

lemma pixel_index:
  fixes x y :: nat
  assumes "x < w" "x' < w" "k < 3"
  shows "(y' * w + x') * 3 \<le> (y * w + x) * 3 + k \<and> (y * w + x) * 3 + k \<le> (y' * w + x') * 3 + 2 \<longleftrightarrow> y = y' \<and> x = x'"
proof -
  have "(y' * w + x') * 3 \<le> (y * w + x) * 3 + k \<and> (y * w + x) * 3 + k \<le> (y' * w + x') * 3 + 2
      \<longleftrightarrow> y * w + x = y' * w + x'"
  proof -
    have "b * 3 \<le> a * 3 + k \<and> a * 3 + k \<le> b * 3 + 2 \<longleftrightarrow> a = b" for a b :: nat using assms(3) by presburger
    then show ?thesis .
  qed
  also have "\<dots> \<longleftrightarrow> y = y' \<and> x = x'"
  proof
    assume e: "y * w + x = y' * w + x'"
    have "(y * w + x) div w = y" "(y' * w + x') div w = y'" using assms(1,2) by auto
    then show "y = y' \<and> x = x'" using e by simp
  qed simp
  finally show ?thesis .
qed

text \<open>The moving dot is where the tests of the tracker look for it: a frame of a renderable size never
  panics, has exactly its three bytes per pixel, and is black but for the one white pixel in the
  middle row whose column is the number of the frame modulo the width.\<close>

lemma moving_dot:
  assumes "renderable cfg" "sy_pattern cfg = MovingDot"
  shows "\<exists>f. render_frame cfg now seq = Some f
    \<and> length (frame_data f) = unat (sy_width cfg) * unat (sy_height cfg) * 3
    \<and> frame_meta f = \<lparr>fm_width = sy_width cfg, fm_height = sy_height cfg, fm_format = Rgb24,
        fm_captured_at = now, fm_seq = seq\<rparr>
    \<and> (\<forall>x y k. x < unat (sy_width cfg) \<and> y < unat (sy_height cfg) \<and> k < 3 \<longrightarrow>
        frame_data f ! ((y * unat (sy_width cfg) + x) * 3 + k)
          = (if y = unat (sy_height cfg) div 2 \<and> x = unat seq mod unat (sy_width cfg) then 255 else 0))"
proof -
  let ?w = "unat (sy_width cfg)" and ?h = "unat (sy_height cfg)"
  let ?i = "(?h div 2 * ?w + unat seq mod ?w) * 3"
  have r: "0 < ?w" "0 < ?h" "?w * ?h * 3 < 2 ^ 32" using assms(1) by (simp_all add: renderable_def)
  have data: "render_data cfg seq = Some (put_dot ?i (replicate (?w * ?h * 3) 0))"
    using r assms(2) dot_index_eq [OF r] by (simp add: render_data_def Let_def buffer_length_eq)
  have in_row: "(y * ?w + x) * 3 + k < ?w * ?h * 3" if "x < ?w" "y < ?h" "k < 3" for x y k
  proof -
    have "y * ?w + x < (y + 1) * ?w" using that(1) by simp
    also have "\<dots> \<le> ?h * ?w" using that(2) by (intro mult_right_mono) auto
    finally show ?thesis using that(3) by (simp add: mult.commute)
  qed
  have i: "?i + 2 < ?w * ?h * 3" using in_row [of "unat seq mod ?w" "?h div 2" 2] r(1,2) by simp
  have "put_dot ?i (replicate (?w * ?h * 3) 0) ! ((y * ?w + x) * 3 + k)
      = (if y = ?h div 2 \<and> x = unat seq mod ?w then 255 else 0)" if "x < ?w" "y < ?h" "k < 3" for x y k
    using put_dot_nth [OF i in_row [OF that]] pixel_index [OF that(1) _ that(3), of "unat seq mod ?w" "?h div 2" y] r(1)
    by simp
  then show ?thesis using data render_length [OF data]
    by (auto simp: render_frame_def)
qed

section \<open>What is delivered\<close>

definition seqs_of :: "frame list \<Rightarrow> u64 list" where
  "seqs_of fs = map (\<lambda>f. fm_seq (frame_meta f)) fs"

text \<open>The frames delivered and waiting are genuine, in increasing order and below the next number.\<close>

definition syn_inv :: "synthetic_config \<Rightarrow> syn_state \<Rightarrow> bool" where
  "syn_inv cfg st \<longleftrightarrow>
    length (st_queue st) \<le> channel_depth cfg
    \<and> sorted_wrt (<) (seqs_of (st_delivered st @ st_queue st))
    \<and> (\<forall>f \<in> set (st_delivered st @ st_queue st). fm_seq (frame_meta f) < st_seq st
        \<and> (\<exists>now. render_frame cfg now (fm_seq (frame_meta f)) = Some f))"

lemma take_frames_inv: "syn_inv cfg st \<Longrightarrow> syn_inv cfg (take_frames n st)"
  by (auto simp: syn_inv_def take_frames_def)

lemma render_seq: "render_frame cfg now seq = Some f \<Longrightarrow> fm_seq (frame_meta f) = seq"
  by (auto simp: render_frame_def)

lemma offer_inv:
  assumes "syn_inv cfg st" "render_frame cfg now (st_seq st) = Some f" "unat (st_seq st) + 1 < 2 ^ 64"
  shows "syn_inv cfg ((offer (channel_depth cfg) f st) \<lparr>st_seq := st_seq st + 1\<rparr>)"
proof -
  have less: "n < st_seq st + 1" if "n \<le> st_seq st" for n
    using that assms(3) by (simp add: word_less_nat_alt word_le_nat_alt unat_word_ariths)
  then have "\<forall>g \<in> set (st_delivered st @ st_queue st). fm_seq (frame_meta g) < st_seq st + 1"
    using assms(1) by (auto simp: syn_inv_def intro: less_imp_le)
  then show ?thesis using assms(1,2) less [OF order_refl] render_seq [OF assms(2)]
    by (auto simp: syn_inv_def offer_def seqs_of_def sorted_wrt_append)
qed

lemma syn_round_inv:
  assumes "syn_inv cfg st" "unat (st_seq st) + 1 < 2 ^ 64" "syn_round cfg inp st = (stop, st')"
  shows "syn_inv cfg st' \<and> unat (st_seq st') \<le> unat (st_seq st) + 1"
proof -
  have t: "syn_inv cfg (take_frames (sn_taken inp) st)" "st_seq (take_frames (sn_taken inp) st) = st_seq st"
    using take_frames_inv [OF assms(1)] by (simp_all add: take_frames_def)
  have "unat (st_seq st + 1) = unat (st_seq st) + 1" using assms(2) by (simp add: unat_word_ariths)
  then show ?thesis using assms(3) t offer_inv [OF t(1)] assms(2)
    by (auto simp: syn_round_def Let_def split: option.splits if_splits)
qed

lemma syn_rounds_inv:
  "syn_inv cfg st \<Longrightarrow> unat (st_seq st) + length inps < 2 ^ 64 \<Longrightarrow> syn_rounds cfg inps st = (stop, st')
     \<Longrightarrow> syn_inv cfg st'"
proof (induction inps arbitrary: st)
  case (Cons inp inps)
  obtain e st1 where r: "syn_round cfg inp st = (e, st1)" by (cases "syn_round cfg inp st")
  have "syn_inv cfg st1" "unat (st_seq st1) \<le> unat (st_seq st) + 1"
    using syn_round_inv [OF Cons.prems(1) _ r] Cons.prems(2) by auto
  then show ?case using Cons.IH [of st1] Cons.prems(2,3) r by (cases e) auto
qed simp

text \<open>However slowly the receiver takes the frames, those it gets are genuine frames of the pattern, each
  at most once and in increasing order of their numbers; a full channel drops the new frame, so that no
  more frames than its depth ever wait.\<close>

lemma synthetic_in_order:
  assumes "syn_task cfg inps = (stop, st)" "length inps < 2 ^ 64"
  shows "sorted_wrt (<) (seqs_of (st_delivered st)) \<and> length (st_queue st) \<le> channel_depth cfg
    \<and> (\<forall>f \<in> set (st_delivered st). \<exists>now. render_frame cfg now (fm_seq (frame_meta f)) = Some f)"
proof -
  have new: "syn_inv cfg syn_new" by (simp add: syn_inv_def syn_new_def seqs_of_def)
  have "syn_inv cfg st"
  proof (cases "sy_fps cfg = 0")
    case False
    then have r: "syn_rounds cfg inps syn_new = (stop, st)" using assms(1) by (simp add: syn_task_def)
    show ?thesis by (rule syn_rounds_inv [OF new _ r]) (use assms(2) in \<open>simp add: syn_new_def\<close>)
  qed (use assms(1) new in \<open>simp add: syn_task_def\<close>)
  then show ?thesis by (simp add: syn_inv_def seqs_of_def sorted_wrt_append)
qed

text \<open>A receiver that is there and takes a frame between any two rounds.\<close>

definition keeps_up :: "syn_input \<Rightarrow> bool" where
  "keeps_up inp \<longleftrightarrow> sn_open inp \<and> 1 \<le> sn_taken inp"

definition frames_made :: "synthetic_config \<Rightarrow> nat" where
  "frames_made cfg = max 1 (unat (sy_max_frames cfg))"

lemma syn_round_keeps:
  assumes "renderable cfg" "keeps_up inp" "length (st_queue st) \<le> 1"
  shows "\<exists>st'. syn_round cfg inp st =
      (if \<not> sy_infinite cfg \<and> sy_max_frames cfg \<le> st_seq st + 1 then SynStopped else SynRunning, st')
    \<and> length (st_queue st') \<le> 1 \<and> st_seq st' = st_seq st + 1
    \<and> seqs_of (st_delivered st' @ st_queue st') = seqs_of (st_delivered st @ st_queue st) @ [st_seq st]"
proof -
  obtain f where f: "render_frame cfg (sn_now inp) (st_seq st) = Some f"
    using render_defined [OF assms(1), of "st_seq st"] by (auto simp: render_frame_def)
  have "take (sn_taken inp) (st_queue st) = st_queue st" "drop (sn_taken inp) (st_queue st) = []"
    using assms(2,3) by (simp_all add: keeps_up_def)
  then show ?thesis using f assms(2) render_seq [OF f]
    by (simp add: syn_round_def take_frames_def offer_def keeps_up_def seqs_of_def channel_depth_def Let_def)
qed

lemma finite_rounds:
  assumes "renderable cfg" "\<not> sy_infinite cfg" "k < frames_made cfg" "frames_made cfg \<le> k + length inps"
    and "list_all keeps_up inps" "length (st_queue st) \<le> 1" "st_seq st = of_nat k"
    and "seqs_of (st_delivered st @ st_queue st) = map of_nat [0..<k]"
  shows "\<exists>st'. syn_rounds cfg inps st = (SynStopped, st')
    \<and> seqs_of (st_delivered st' @ st_queue st') = map of_nat [0..<frames_made cfg]"
  using assms(3-)
proof (induction inps arbitrary: k st)
  case (Cons inp inps)
  obtain st1 where r: "syn_round cfg inp st =
      (if \<not> sy_infinite cfg \<and> sy_max_frames cfg \<le> st_seq st + 1 then SynStopped else SynRunning, st1)"
    "length (st_queue st1) \<le> 1" "st_seq st1 = of_nat (Suc k)"
    "seqs_of (st_delivered st1 @ st_queue st1) = map of_nat [0..<Suc k]"
    using syn_round_keeps [OF assms(1), of inp st] Cons.prems by (auto simp: add.commute)
  have "frames_made cfg < 2 ^ 64" using unsigned_less [of "sy_max_frames cfg", where 'a = nat] by (simp add: frames_made_def)
  then have "unat (of_nat (Suc k) :: u64) = Suc k" using Cons.prems(1) by (simp add: unat_of_nat del: of_nat_Suc)
  then have stop: "sy_max_frames cfg \<le> st_seq st + 1 \<longleftrightarrow> frames_made cfg \<le> Suc k"
    using Cons.prems(5) by (simp add: word_le_nat_alt frames_made_def add.commute)
  show ?case
  proof (cases "frames_made cfg \<le> Suc k")
    case True
    then have "frames_made cfg = Suc k" using Cons.prems(1) by simp
    then show ?thesis using r assms(2) stop by simp
  next
    case False
    then show ?thesis using Cons.IH [of "Suc k" st1] Cons.prems(2,3) r assms(2) stop by simp
  qed
qed simp

text \<open>A finite source ends: with a receiver that keeps up, after \<open>max_frames\<close> rounds (one for the limit zero)
  the task has stopped, and every frame from number zero on was put into the channel exactly once.\<close>

lemma finite_source_ends:
  assumes "renderable cfg" "\<not> sy_infinite cfg" "sy_fps cfg \<noteq> 0" "frames_made cfg \<le> length inps" "list_all keeps_up inps"
  shows "\<exists>st. syn_task cfg inps = (SynStopped, st)
    \<and> seqs_of (st_delivered st @ st_queue st) = map of_nat [0..<frames_made cfg]"
  using finite_rounds [OF assms(1,2), of 0 inps syn_new] assms(3-5)
  by (simp add: syn_task_def syn_new_def seqs_of_def frames_made_def)

section \<open>Concrete sources\<close>

definition dot_source :: synthetic_config where
  "dot_source = \<lparr>sy_width = 4, sy_height = 2, sy_fps = 30, sy_pattern = MovingDot, sy_infinite = False, sy_max_frames = 2\<rparr>"

definition prompt_input :: syn_input where
  "prompt_input = \<lparr>sn_taken = 1, sn_open = True, sn_now = 0\<rparr>"

lemma dot_source_renderable: "renderable dot_source"
  by (simp add: renderable_def dot_source_def)

lemma moving_dot_witness:
  "\<exists>f. render_frame dot_source 0 6 = Some f \<and> frame_data f ! 18 = 255 \<and> frame_data f ! 15 = 0"
proof -
  have "sy_pattern dot_source = MovingDot" by (simp add: dot_source_def)
  from moving_dot [OF dot_source_renderable this, of 0 6]
  obtain f where f: "render_frame dot_source 0 6 = Some f"
    "\<And>x y k. x < 4 \<Longrightarrow> y < 2 \<Longrightarrow> k < 3 \<Longrightarrow>
      frame_data f ! ((y * 4 + x) * 3 + k) = (if y = 1 \<and> x = 2 then 255 else 0)"
    by (auto simp: dot_source_def)
  from f(2) [of 2 1 0] f(2) [of 1 1 0] f(1) show ?thesis by auto
qed

lemma synthetic_in_order_witness:
  "sorted_wrt (<) (seqs_of (st_delivered (snd (syn_task dot_source [prompt_input, prompt_input]))))"
proof -
  obtain e st where r: "syn_task dot_source [prompt_input, prompt_input] = (e, st)" by fastforce
  show ?thesis using synthetic_in_order [OF r] r by simp
qed

lemma finite_source_ends_witness:
  "\<exists>st. syn_task dot_source [prompt_input, prompt_input] = (SynStopped, st)
    \<and> seqs_of (st_delivered st @ st_queue st) = [0, 1]"
proof -
  have n: "frames_made dot_source = 2" by (simp add: frames_made_def dot_source_def)
  have two: "map of_nat [0..<2] = [0, 1 :: u64]" by (simp add: upt_rec numeral_2_eq_2)
  show ?thesis
    using finite_source_ends [OF dot_source_renderable, of "[prompt_input, prompt_input]", unfolded n two]
    by (simp add: dot_source_def prompt_input_def keeps_up_def)
qed

text \<open>The limit zero still makes a frame, and no rate makes none: the task dies.\<close>

lemma zero_limit_makes_one: "sy_max_frames cfg = 0 \<Longrightarrow> frames_made cfg = 1"
  by (simp add: frames_made_def)

lemma zero_rate_dies: "sy_fps cfg = 0 \<Longrightarrow> syn_task cfg inps = (SynPanicked, syn_new)"
  by (simp add: syn_task_def)

lemma empty_dot_frame_panics: "sy_width cfg = 0 \<Longrightarrow> sy_pattern cfg = MovingDot \<Longrightarrow> render_frame cfg now seq = None"
  by (simp add: render_frame_def render_data_def dot_index_def Let_def split: option.split)

end
