(* ===== verification/Segments.thy ===== *)
theory Segments
  imports Shm_Refine "HOL-Library.Multiset"
begin

text \<open>
  \<open>crates/shmem-buffer/src/shm.rs\<close> and the release of a region in \<open>ring.rs\<close>: named segments of shared
  memory.  The outcomes of the calls to the operating system are inputs; the model records the calls that
  take or release something: descriptors, mappings and names.
\<close>

section \<open>The operating system\<close>

datatype open_failure = AlreadyExists | OpenError string

record os_outcomes =
  os_open :: "(open_failure, int) result"
  os_truncate :: "(string, unit) result"
  os_stat :: "(string, nat) result"
  os_mmap :: "(string, unit) result"

datatype os_call = OsOpen int | OsClose int | OsMap nat | OsUnmap nat | OsCreate string | OsUnlink string

text \<open>\<open>None\<close> stands for a region on the heap.\<close>

record mapping =
  ma_fd :: int
  ma_len :: nat
  ma_unlink :: "string option"

text \<open>The errors with their causes; \<open>SegRing\<close> holds those of the ring itself.\<close>

datatype segment_error =
    SegRing ring_error
  | SegNul string
  | SegShm string string
  | SegAttach string string
  | SegZeroLength

definition segment_path :: "string \<Rightarrow> string" where
  "segment_path name = ''/dev/shm/'' @ name"

text \<open>\<open>CString::new\<close> refuses a text with a zero byte.\<close>

definition has_nul :: "string \<Rightarrow> bool" where
  "has_nul s \<longleftrightarrow> CHR 0x00 \<in> set s"

section \<open>Operations\<close>

definition map_new ::
  "os_outcomes \<Rightarrow> u64 \<Rightarrow> u32 \<Rightarrow> string \<Rightarrow> ring_config \<Rightarrow> u32 \<Rightarrow> int
     \<Rightarrow> (segment_error, region \<times> mapping) result \<times> os_call list" where
  "map_new os now pid path cfg fs fd =
    (let len = segment_size (rc_capacity cfg) fs
     in case os_truncate os of
          Inl e \<Rightarrow> (Inl (SegShm ''ftruncate'' e), [OsClose fd, OsUnlink path])
        | Inr _ \<Rightarrow>
            (case os_mmap os of
               Inl e \<Rightarrow> (Inl (SegShm ''mmap'' e), [OsClose fd])
             | Inr _ \<Rightarrow>
                 (Inr (init_raw now pid cfg fs, \<lparr>ma_fd = fd, ma_len = len, ma_unlink = Some path\<rparr>), [OsMap len])))"

definition create_shared ::
  "os_outcomes \<Rightarrow> u64 \<Rightarrow> u32 \<Rightarrow> string \<Rightarrow> ring_config \<Rightarrow> (segment_error, region \<times> mapping) result \<times> os_call list" where
  "create_shared os now pid name cfg =
    (case (validate cfg, frame_size_check cfg) of
       (Inl e, _) \<Rightarrow> (Inl (SegRing e), [])
     | (Inr _, None) \<Rightarrow> (Inl (SegRing (InvalidConfig (UnsupportedGeometry (rc_width cfg) (rc_height cfg) (rc_format cfg)))), [])
     | (Inr _, Some fs) \<Rightarrow>
         if has_nul name then (Inl (SegNul ''name''), [])
         else let path = segment_path name
              in if has_nul path then (Inl (SegNul ''path''), [])
                 else case os_open os of
                        Inl AlreadyExists \<Rightarrow> (Inl (SegRing (SegmentExists name)), [])
                      | Inl (OpenError e) \<Rightarrow> (Inl (SegShm (''open('' @ path @ '')'') e), [])
                      | Inr fd \<Rightarrow> apsnd (\<lambda>calls. [OsOpen fd, OsCreate path] @ calls) (map_new os now pid path cfg fs fd))"

text \<open>\<open>rg\<close> is the memory behind the name when it is mapped.\<close>

definition attach_shared ::
  "os_outcomes \<Rightarrow> region \<Rightarrow> string \<Rightarrow> (segment_error, region \<times> mapping) result \<times> os_call list" where
  "attach_shared os rg name =
    (let path = segment_path name
     in if has_nul path then (Inl (SegNul ''path''), [])
        else case os_open os of
               Inl e \<Rightarrow> (Inl (SegAttach (''open '' @ path) (case e of AlreadyExists \<Rightarrow> [] | OpenError t \<Rightarrow> t)), [])
             | Inr fd \<Rightarrow>
                 (case os_stat os of
                    Inl e \<Rightarrow> (Inl (SegAttach ''fstat'' e), [OsOpen fd, OsClose fd])
                  | Inr len \<Rightarrow>
                      if len = 0 then (Inl SegZeroLength, [OsOpen fd, OsClose fd])
                      else case os_mmap os of
                             Inl e \<Rightarrow> (Inl (SegAttach ''mmap'' e), [OsOpen fd, OsClose fd])
                           | Inr _ \<Rightarrow>
                               (case attach_raw len rg of
                                  Inl e \<Rightarrow> (Inl (SegRing e), [OsOpen fd, OsMap len])
                                | Inr rg' \<Rightarrow> (Inr (rg', \<lparr>ma_fd = fd, ma_len = len, ma_unlink = None\<rparr>), [OsOpen fd, OsMap len]))))"

definition remove_segment :: "bool \<Rightarrow> string \<Rightarrow> bool \<times> os_call list" where
  "remove_segment unlinked name =
    (let path = segment_path name
     in if has_nul path then (False, []) else (unlinked, if unlinked then [OsUnlink path] else []))"

text \<open>\<open>Drop for Region\<close> and \<open>teardown_mapped\<close>.\<close>

definition region_drop :: "mapping \<Rightarrow> os_call list" where
  "region_drop m = [OsUnmap (ma_len m), OsClose (ma_fd m)]
     @ (case ma_unlink m of Some path \<Rightarrow> if has_nul path then [] else [OsUnlink path] | None \<Rightarrow> [])"

section \<open>What is taken and released\<close>

text \<open>Descriptors, bytes mapped and names that a sequence of calls leaves behind.\<close>

definition open_fds :: "os_call list \<Rightarrow> int multiset" where
  "open_fds calls = mset (List.map_filter (\<lambda>c. case c of OsOpen fd \<Rightarrow> Some fd | _ \<Rightarrow> None) calls)
     - mset (List.map_filter (\<lambda>c. case c of OsClose fd \<Rightarrow> Some fd | _ \<Rightarrow> None) calls)"

definition mapped :: "os_call list \<Rightarrow> nat multiset" where
  "mapped calls = mset (List.map_filter (\<lambda>c. case c of OsMap n \<Rightarrow> Some n | _ \<Rightarrow> None) calls)
     - mset (List.map_filter (\<lambda>c. case c of OsUnmap n \<Rightarrow> Some n | _ \<Rightarrow> None) calls)"

definition names :: "os_call list \<Rightarrow> string multiset" where
  "names calls = mset (List.map_filter (\<lambda>c. case c of OsCreate p \<Rightarrow> Some p | _ \<Rightarrow> None) calls)
     - mset (List.map_filter (\<lambda>c. case c of OsUnlink p \<Rightarrow> Some p | _ \<Rightarrow> None) calls)"

lemmas resource_defs = open_fds_def mapped_def names_def map_filter_simps

text \<open>Dropping what was created or attached gives everything back: after the drop of the region that
  \<open>create_shared\<close> or \<open>attach_shared\<close> returned, no descriptor is open, nothing is mapped and no name is left.\<close>

lemma segment_released:
  assumes "create_shared os now pid name cfg = (Inr (rg, m), calls) \<or> attach_shared os memory name = (Inr (rg, m), calls)"
  shows "open_fds (calls @ region_drop m) = {#} \<and> mapped (calls @ region_drop m) = {#}
    \<and> names (calls @ region_drop m) = {#}"
  using assms
  by (auto simp: create_shared_def attach_shared_def map_new_def region_drop_def resource_defs Let_def
      split: sum.splits option.splits if_splits open_failure.splits)

text \<open>A failed creation keeps no descriptor and no mapping, but when the mapping is refused the new name
  stays behind (the failure of \<open>ftruncate\<close> removes it), so that every later creation finds a segment that
  exists.  A failed attachment keeps its descriptor and its mapping for ever when the contents of the
  segment are refused: an object of another version, or one that is still being created.\<close>

lemma segment_failures:
  assumes "create_shared os now pid name cfg = (Inl e, calls)"
    and "attach_shared os' memory name' = (Inl e', calls')" "os_open os' = Inr fd" "os_stat os' = Inr len"
  shows "open_fds calls = {#} \<and> mapped calls = {#}
    \<and> names calls = (if \<exists>t. e = SegShm ''mmap'' t then {#segment_path name#} else {#})
    \<and> open_fds calls' = (if \<exists>r. e' = SegRing r then {#fd#} else {#})
    \<and> mapped calls' = (if \<exists>r. e' = SegRing r then {#len#} else {#})"
proof -
  have "open_fds calls = {#} \<and> mapped calls = {#}
    \<and> names calls = (if \<exists>t. e = SegShm ''mmap'' t then {#segment_path name#} else {#})"
    using assms(1)
    by (auto simp: create_shared_def map_new_def resource_defs Let_def
      split: sum.splits option.splits if_splits open_failure.splits)
  moreover have "open_fds calls' = (if \<exists>r. e' = SegRing r then {#fd#} else {#})
    \<and> mapped calls' = (if \<exists>r. e' = SegRing r then {#len#} else {#})"
    using assms(2-4) by (auto simp: attach_shared_def resource_defs Let_def split: sum.splits if_splits)
  ultimately show ?thesis by blast
qed

definition refusing_os :: os_outcomes where
  "refusing_os = \<lparr>os_open = Inr 3, os_truncate = Inr (), os_stat = Inr 64, os_mmap = Inl ''ENOMEM''\<rparr>"

definition granting_os :: os_outcomes where
  "granting_os = \<lparr>os_open = Inr 3, os_truncate = Inr (), os_stat = Inr 64, os_mmap = Inr ()\<rparr>"

lemma granted_creation: "\<exists>m calls. create_shared granting_os 5 7 ''f'' tiny_config = (Inr (tiny_ring, m), calls)"
  using tiny_created
  by (auto simp: create_shared_def create_in_process_def map_new_def granting_os_def has_nul_def segment_path_def
      Let_def split: sum.splits option.splits)

lemma segment_released_witness:
  "\<exists>m calls. create_shared granting_os 5 7 ''f'' tiny_config = (Inr (tiny_ring, m), calls)
    \<and> open_fds (calls @ region_drop m) = {#} \<and> names (calls @ region_drop m) = {#}"
proof -
  obtain m calls where c: "create_shared granting_os 5 7 ''f'' tiny_config = (Inr (tiny_ring, m), calls)"
    using granted_creation by blast
  then show ?thesis using segment_released [OF disjI1 [OF c]] by blast
qed

text \<open>A mapping that is refused, and an object that is not a segment yet: its header is zero.\<close>

lemma refused_creation:
  "\<exists>calls. create_shared refusing_os 5 7 ''f'' tiny_config = (Inl (SegShm ''mmap'' ''ENOMEM''), calls)"
  using tiny_created
  by (auto simp: create_shared_def create_in_process_def map_new_def refusing_os_def has_nul_def segment_path_def
      Let_def split: sum.splits option.splits)

definition blank_memory :: region where
  "blank_memory = tiny_ring \<lparr>rg_header := (rg_header tiny_ring) \<lparr>magic := 0\<rparr>\<rparr>"

lemma blank_refused:
  "attach_shared granting_os blank_memory ''f'' = (Inl (SegRing (AttachFailed BadMagic)), [OsOpen 3, OsMap 64])"
  by (simp add: attach_shared_def granting_os_def has_nul_def segment_path_def blank_memory_def attach_raw_def
      attach_check_def MAGIC_def)

lemma segment_failures_witness:
  "names (snd (create_shared refusing_os 5 7 ''f'' tiny_config)) = {#segment_path ''f''#}
    \<and> open_fds (snd (attach_shared granting_os blank_memory ''f'')) = {#3#}"
proof -
  obtain calls where c: "create_shared refusing_os 5 7 ''f'' tiny_config = (Inl (SegShm ''mmap'' ''ENOMEM''), calls)"
    using refused_creation by blast
  have "os_open granting_os = Inr 3" "os_stat granting_os = Inr 64" by (simp_all add: granting_os_def)
  from segment_failures [OF c blank_refused this] show ?thesis by (simp add: c blank_refused)
qed

text \<open>The consumer that attaches a segment of the announced length has the ring the producer created.\<close>

lemma segment_handover:
  assumes "create_shared os now pid name cfg = (Inr (rg, m), calls)"
    and "os_open os' = Inr fd" "os_stat os' = Inr (ma_len m)" "os_mmap os' = Inr ()"
  shows "ring_rep [] rg \<and> quiescent rg
    \<and> fst (attach_shared os' rg name) = Inr (rg, \<lparr>ma_fd = fd, ma_len = ma_len m, ma_unlink = None\<rparr>)"
proof -
  have c: "create_in_process now pid cfg = Inr rg" and n: "\<not> has_nul (segment_path name)" and l: "ma_len m = rg_len rg"
    using assms(1) by (auto simp: create_shared_def create_in_process_def map_new_def init_raw_def Let_def
        split: sum.splits option.splits if_splits open_failure.splits)
  obtain fs where "rg = init_raw now pid cfg fs" using create_init [OF c] by blast
  then have "ma_len m \<noteq> 0" by (simp add: l init_raw_def segment_size_def data_area_offset_def)
  with attach_created [OF c, of "ma_len m"] n l assms(2-4) show ?thesis
    by (simp add: attach_shared_def Let_def)
qed

end
