(* ===== verification/V4l2.thy ===== *)
theory V4l2
  imports Replay Synthetic Segments Convert
begin

text \<open>
  The camera drivers of \<open>crates/video-capture/src\<close>: \<open>v4l2_direct.rs\<close>, which calls the kernel itself,
  \<open>v4l2_real.rs\<close>, which uses the \<open>v4l\<close> crate, and \<open>v4l2_stub.rs\<close>.  What the kernel or the crate answers
  is an input; the direct driver's calls that take or release something are recorded as in \<open>Segments\<close>.
  The machine is little-endian with 64-bit addresses.
\<close>

section \<open>The direct driver: requests and buffers\<close>

definition ioc :: "u32 \<Rightarrow> u32 \<Rightarrow> u32 \<Rightarrow> u32 \<Rightarrow> u64" where
  "ioc dir typ nr sz = or (or (or (push_bit 30 (ucast dir)) (push_bit 16 (ucast sz))) (push_bit 8 (ucast typ))) (ucast nr)"

definition vidioc_s_fmt :: u64 where "vidioc_s_fmt = ioc 3 0x56 5 208"

definition vidioc_s_parm :: u64 where "vidioc_s_parm = ioc 3 0x56 22 204"

definition vidioc_reqbufs :: u64 where "vidioc_reqbufs = ioc 3 0x56 8 20"

definition vidioc_querybuf :: u64 where "vidioc_querybuf = ioc 3 0x56 9 88"

definition vidioc_qbuf :: u64 where "vidioc_qbuf = ioc 3 0x56 15 88"

definition vidioc_dqbuf :: u64 where "vidioc_dqbuf = ioc 3 0x56 17 88"

definition vidioc_streamon :: u64 where "vidioc_streamon = ioc 1 0x56 18 4"

definition vidioc_streamoff :: u64 where "vidioc_streamoff = ioc 1 0x56 19 4"

definition buf_type_capture :: u32 where "buf_type_capture = 1"

definition memory_mmap :: u32 where "memory_mmap = 1"

text \<open>\<open>u32::to_ne_bytes\<close>, \<open>u32::from_ne_bytes\<close> at an offset.\<close>

definition ne_bytes :: "u32 \<Rightarrow> u8 list" where
  "ne_bytes v = map (\<lambda>i. ucast (drop_bit (8 * i) v)) [0..<4]"

definition put4 :: "nat \<Rightarrow> u32 \<Rightarrow> u8 list \<Rightarrow> u8 list" where
  "put4 off v buf = take off buf @ ne_bytes v @ drop (off + 4) buf"

definition get4 :: "nat \<Rightarrow> u8 list \<Rightarrow> u32" where
  "get4 off buf = foldr (\<lambda>b n. or (ucast b) (push_bit 8 n)) (take 4 (drop off buf)) 0"

fun hex :: "nat \<Rightarrow> string" where
  "hex n = (let d = char_of (if n mod 16 < 10 then 48 + n mod 16 else 87 + n mod 16)
            in if n < 16 then [d] else hex (n div 16) @ [d])"

declare hex.simps [simp del]

definition ioctl :: "u64 \<Rightarrow> (string, 'a) result \<Rightarrow> (video_capture_error, 'a) result" where
  "ioctl request answer =
    (case answer of
       Inl err \<Rightarrow> Inl (VcCapture (''ioctl(0x'' @ hex (unat request) @ '') failed: '' @ err))
     | Inr x \<Rightarrow> Inr x)"

record direct_source =
  ds_device :: string
  ds_width :: u32
  ds_height :: u32
  ds_fps :: u32
  ds_format :: pixel_format
  ds_num_buffers :: u32
  ds_stop_flag :: "bool option"

definition direct_new :: "string \<Rightarrow> u32 \<Rightarrow> u32 \<Rightarrow> u32 \<Rightarrow> direct_source" where
  "direct_new device width height fps = \<lparr>ds_device = device, ds_width = width, ds_height = height, ds_fps = fps,
     ds_format = Mjpeg, ds_num_buffers = 4, ds_stop_flag = None\<rparr>"

definition direct_with_format :: "pixel_format \<Rightarrow> direct_source \<Rightarrow> direct_source" where
  "direct_with_format format ds = ds \<lparr>ds_format := format\<rparr>"

definition with_buffers :: "u32 \<Rightarrow> direct_source \<Rightarrow> direct_source" where
  "with_buffers n ds = ds \<lparr>ds_num_buffers := max 2 (min n 8)\<rparr>"

definition direct_stop :: "direct_source \<Rightarrow> direct_source" where
  "direct_stop ds = ds \<lparr>ds_stop_flag := map_option (\<lambda>_. True) (ds_stop_flag ds)\<rparr>"

fun direct_fourcc :: "pixel_format \<Rightarrow> u32" where
  "direct_fourcc Mjpeg = 0x47504a4d"
| "direct_fourcc Yuyv = 0x56595559"
| "direct_fourcc Nv12 = 0x3231564e"
| "direct_fourcc Rgb24 = 0x56595559"

section \<open>The direct driver: start\<close>

text \<open>The answers of the kernel until streaming starts.  \<open>VIDIOC_S_FMT\<close> is asked for a width, a height and a
  format, and of its answer the program reads the width, the height and the size of a picture.\<close>

record kernel =
  kn_open :: "(string, int) result"
  kn_s_fmt :: "u32 \<times> u32 \<times> u32 \<Rightarrow> (string, u32 \<times> u32 \<times> u32) result"
  kn_s_parm :: "u8 list \<Rightarrow> (string, unit) result"
  kn_reqbufs :: "u32 \<Rightarrow> (string, u32) result"
  kn_querybuf :: "u8 list \<Rightarrow> (string, u8 list) result"
  kn_mmap :: "u32 \<Rightarrow> (string, unit) result"
  kn_qbuf :: "u8 list \<Rightarrow> (string, unit) result"
  kn_streamon :: "(string, unit) result"

definition buffer_size :: "u32 \<times> u32 \<times> u32 \<Rightarrow> nat" where
  "buffer_size neg =
    (case neg of (w, h, sizeimage) \<Rightarrow> if 0 < sizeimage then unat sizeimage else max (unat w * unat h * 3) 1024)"

definition stamped :: "u8 list \<Rightarrow> u8 list" where
  "stamped buf = put4 60 memory_mmap (put4 4 buf_type_capture buf)"

text \<open>One buffer: asked for, mapped, queued.  The lengths of the mappings made so far come first.\<close>

definition map_buffer ::
  "kernel \<Rightarrow> nat \<Rightarrow> u32 \<Rightarrow> (video_capture_error \<times> nat list, nat) result" where
  "map_buffer kn buf_size i =
    (case ioctl vidioc_querybuf (kn_querybuf kn (stamped (put4 0 i (replicate 88 0)))) of
       Inl e \<Rightarrow> Inl (e, [])
     | Inr buf \<Rightarrow>
         let mmap_len = (if 0 < unat (get4 72 buf) then unat (get4 72 buf) else buf_size)
         in case kn_mmap kn i of
              Inl err \<Rightarrow> Inl (VcDeviceConfig (''mmap buffer '' @ dec (unat i) @ '' failed: len='' @ dec mmap_len
                @ '' offset='' @ dec (unat (get4 64 buf)) @ '' err='' @ err), [])
            | Inr _ \<Rightarrow>
                (case ioctl vidioc_qbuf (kn_qbuf kn (stamped buf)) of
                   Inl e \<Rightarrow> Inl (e, [mmap_len])
                 | Inr _ \<Rightarrow> Inr mmap_len))"

text \<open>On an error the mappings made are dropped, the one of the failed buffer too.\<close>

fun map_buffers ::
  "kernel \<Rightarrow> nat \<Rightarrow> nat list \<Rightarrow> u32 list \<Rightarrow> (video_capture_error, nat list) result \<times> os_call list" where
  "map_buffers kn buf_size lens [] = (Inr lens, [])"
| "map_buffers kn buf_size lens (i # is') =
    (case map_buffer kn buf_size i of
       Inl (e, ls) \<Rightarrow> (Inl e, map OsMap ls @ map OsUnmap (lens @ ls))
     | Inr len \<Rightarrow> apsnd ((#) (OsMap len)) (map_buffers kn buf_size (lens @ [len]) is'))"

definition start_streaming ::
  "kernel \<Rightarrow> nat list \<Rightarrow> (video_capture_error, nat list) result \<times> os_call list" where
  "start_streaming kn lens =
    (case ioctl vidioc_streamon (kn_streamon kn) of
       Inl e \<Rightarrow> (Inl e, map OsUnmap lens)
     | Inr _ \<Rightarrow> (Inr lens, []))"

text \<open>\<open>v4l2_streamparm\<close>: the type, and \<open>1 / fps\<close> as the time of a frame.\<close>

definition rate_message :: "u32 \<Rightarrow> u8 list" where
  "rate_message fps = put4 16 fps (put4 12 1 (put4 0 buf_type_capture (replicate 204 0)))"

definition set_rate :: "kernel \<Rightarrow> u32 \<Rightarrow> (video_capture_error, unit) result" where
  "set_rate kn fps = (if 0 < fps then ioctl vidioc_s_parm (kn_s_parm kn (rate_message fps)) else Inr ())"

record camera =
  ca_fd :: int
  ca_width :: u32
  ca_height :: u32
  ca_lens :: "nat list"

definition buffers_of ::
  "kernel \<Rightarrow> nat \<Rightarrow> u32 \<Rightarrow> (video_capture_error, nat list) result \<times> os_call list" where
  "buffers_of kn buf_size n =
    (case map_buffers kn buf_size [] (map of_nat [0..<unat n]) of
       (Inl e, calls) \<Rightarrow> (Inl e, calls)
     | (Inr lens, calls) \<Rightarrow> apsnd ((@) calls) (start_streaming kn lens))"

definition set_up ::
  "direct_source \<Rightarrow> kernel \<Rightarrow> (video_capture_error, camera) result \<times> os_call list" where
  "set_up ds kn =
    (if has_nul (ds_device ds) then (Inl (VcDeviceOpen ''invalid path''), [])
     else case kn_open kn of
            Inl err \<Rightarrow> (Inl (VcDeviceOpen (''open '' @ ds_device ds @ '': '' @ err)), [])
          | Inr fd \<Rightarrow> apsnd ((#) (OsOpen fd))
              (case ioctl vidioc_s_fmt (kn_s_fmt kn (ds_width ds, ds_height ds, direct_fourcc (ds_format ds))) of
                 Inl e \<Rightarrow> (Inl e, [])
               | Inr neg \<Rightarrow>
                   (case set_rate kn (ds_fps ds) of
                      Inl e \<Rightarrow> (Inl e, [])
                    | Inr _ \<Rightarrow>
                        (case ioctl vidioc_reqbufs (kn_reqbufs kn (ds_num_buffers ds)) of
                           Inl e \<Rightarrow> (Inl e, [])
                         | Inr n \<Rightarrow>
                             (case buffers_of kn (buffer_size neg) n of
                                (Inl e, calls) \<Rightarrow> (Inl e, calls)
                              | (Inr lens, calls) \<Rightarrow>
                                  (Inr \<lparr>ca_fd = fd, ca_width = fst neg, ca_height = fst (snd neg), ca_lens = lens\<rparr>,
                                   calls))))))"

section \<open>The capture loops\<close>

text \<open>\<open>try_send\<close> to the bounded channel of \<open>Synthetic\<close>: a closed one ends the loop, a full one drops the frame.\<close>

definition try_frame :: "nat \<Rightarrow> bool \<Rightarrow> frame \<Rightarrow> syn_state \<Rightarrow> bool \<times> syn_state" where
  "try_frame depth alive f st =
    (if alive then (True, (offer depth f st) \<lparr>st_seq := st_seq st + 1\<rparr>) else (False, st))"

definition camera_frame :: "u32 \<Rightarrow> u32 \<Rightarrow> pixel_format \<Rightarrow> utc \<Rightarrow> u64 \<Rightarrow> u8 list \<Rightarrow> frame" where
  "camera_frame w h format now seq data = \<lparr>frame_data = data, frame_meta = \<lparr>fm_width = w, fm_height = h,
     fm_format = format, fm_captured_at = now, fm_seq = seq\<rparr>\<rparr>"

text \<open>One iteration of the direct driver finds the stop flag, the answer of \<open>VIDIOC_DQBUF\<close>, the flag again
  after an error, the memory of each buffer, the clock, and the receiver.  The result of the second
  \<open>VIDIOC_QBUF\<close> is ignored.\<close>

record capture_input =
  ci_stop :: bool
  ci_dqbuf :: "(string, u8 list) result"
  ci_stop_late :: bool
  ci_memory :: "nat \<Rightarrow> u8 list"
  ci_now :: utc
  ci_open :: bool
  ci_taken :: nat

text \<open>The copy of what the driver wrote, within the mapping.\<close>

definition copy_buffer :: "nat list \<Rightarrow> (nat \<Rightarrow> u8 list) \<Rightarrow> u8 list \<Rightarrow> u8 list" where
  "copy_buffer lens memory buf =
    (let bytesused = unat (get4 8 buf); idx = unat (get4 0 buf);
         data_len = min bytesused (if idx < length lens then lens ! idx else 0)
     in if idx < length lens \<and> 0 < data_len then take data_len (memory idx) else [])"

definition direct_round ::
  "direct_source \<Rightarrow> camera \<Rightarrow> capture_input \<Rightarrow> syn_state \<Rightarrow> bool \<times> syn_state" where
  "direct_round ds ca ci st =
    (let st1 = take_frames (ci_taken ci) st
     in if ci_stop ci then (False, st1)
        else case ioctl vidioc_dqbuf (ci_dqbuf ci) of
               Inl _ \<Rightarrow> (\<not> ci_stop_late ci, st1)
             | Inr buf \<Rightarrow>
                 try_frame (unat (ds_num_buffers ds)) (ci_open ci)
                   (camera_frame (ca_width ca) (ca_height ca) (ds_format ds) (ci_now ci) (st_seq st1)
                      (copy_buffer (ca_lens ca) (ci_memory ci) buf)) st1)"

fun capture_rounds :: "('i \<Rightarrow> syn_state \<Rightarrow> bool \<times> syn_state) \<Rightarrow> 'i list \<Rightarrow> syn_state \<Rightarrow> bool \<times> syn_state" where
  "capture_rounds step [] st = (True, st)"
| "capture_rounds step (ci # inps) st =
    (case step ci st of (True, st') \<Rightarrow> capture_rounds step inps st' | (False, st') \<Rightarrow> (False, st'))"

definition clean_up :: "camera \<Rightarrow> os_call list" where
  "clean_up ca = map OsUnmap (ca_lens ca) @ [OsClose (ca_fd ca)]"

datatype capture_end = CaptureError video_capture_error | CaptureRunning | CaptureDone

definition run_direct_capture ::
  "direct_source \<Rightarrow> kernel \<Rightarrow> capture_input list \<Rightarrow> capture_end \<times> syn_state \<times> os_call list" where
  "run_direct_capture ds kn inps =
    (case set_up ds kn of
       (Inl e, calls) \<Rightarrow> (CaptureError e, syn_new, calls)
     | (Inr ca, calls) \<Rightarrow>
         (case capture_rounds (direct_round ds ca) inps syn_new of
            (True, st) \<Rightarrow> (CaptureRunning, st, calls)
          | (False, st) \<Rightarrow> (CaptureDone, st, calls @ clean_up ca)))"

definition direct_start :: "direct_source \<Rightarrow> direct_source" where
  "direct_start ds = ds \<lparr>ds_stop_flag := Some False\<rparr>"

section \<open>The driver over the v4l crate, and the stub\<close>

record v4l2_source =
  vx_device :: string
  vx_width :: u32
  vx_height :: u32
  vx_fps :: u32
  vx_format :: pixel_format
  vx_queue_depth :: nat
  vx_stop_flag :: "bool option"

definition v4l2_new :: "string \<Rightarrow> u32 \<Rightarrow> u32 \<Rightarrow> u32 \<Rightarrow> v4l2_source" where
  "v4l2_new device width height fps = \<lparr>vx_device = device, vx_width = width, vx_height = height, vx_fps = fps,
     vx_format = Yuyv, vx_queue_depth = 3, vx_stop_flag = None\<rparr>"

definition v4l2_with_format :: "pixel_format \<Rightarrow> v4l2_source \<Rightarrow> v4l2_source" where
  "v4l2_with_format format vx = vx \<lparr>vx_format := format\<rparr>"

definition v4l2_from_common :: "video_config \<Rightarrow> v4l2_source" where
  "v4l2_from_common cfg =
    (let s = vc_format cfg;
         format = (if s = ''nv12'' then Nv12 else if s = ''yuyv'' then Yuyv else if s = ''rgb24'' then Rgb24
                   else if s = ''mjpeg'' then Mjpeg else Yuyv)
     in \<lparr>vx_device = vc_device cfg, vx_width = vc_width cfg, vx_height = vc_height cfg, vx_fps = vc_fps cfg,
         vx_format = format, vx_queue_depth = vc_queue_depth cfg, vx_stop_flag = None\<rparr>)"

fun v4l2_fourcc :: "pixel_format \<Rightarrow> string" where
  "v4l2_fourcc Yuyv = ''YUYV''"
| "v4l2_fourcc Mjpeg = ''MJPG''"
| "v4l2_fourcc Rgb24 = ''RGB3''"
| "v4l2_fourcc Nv12 = ''NV12''"

record device_probe =
  dp_device_path :: string
  dp_supported_formats :: "string list"
  dp_requested_format :: pixel_format
  dp_requested_width :: u32
  dp_requested_height :: u32
  dp_requested_fps :: u32

text \<open>The answers of the crate; \<open>cr_format\<close> is the size negotiated.\<close>

record crate_answers =
  cr_open :: "(string, unit) result"
  cr_formats :: "(string, string list) result"
  cr_reopen :: "(string, unit) result"
  cr_set_format :: "u32 \<times> u32 \<times> string \<Rightarrow> (string, unit) result"
  cr_format :: "(string, u32 \<times> u32) result"
  cr_stream :: "(string, unit) result"
  cr_start :: "(string, unit) result"

definition fourcc_to_string :: "string \<Rightarrow> string" where
  "fourcc_to_string s = rev (dropWhile (\<lambda>c. c = CHR 0x00) (rev s))"

definition v4l2_probe :: "v4l2_source \<Rightarrow> crate_answers \<Rightarrow> (video_capture_error, device_probe) result" where
  "v4l2_probe vx cr =
    (case cr_open cr of
       Inl e \<Rightarrow> Inl (VcDeviceOpen (''open '' @ vx_device vx @ '': '' @ e))
     | Inr _ \<Rightarrow>
         (case cr_formats cr of
            Inl e \<Rightarrow> Inl (VcDeviceConfig (''enum_formats: '' @ e))
          | Inr formats \<Rightarrow>
              if v4l2_fourcc (vx_format vx) \<notin> set formats
              then Inl (VcDeviceConfig (''device '' @ vx_device vx @ '' does not support''))
              else Inr \<lparr>dp_device_path = vx_device vx, dp_supported_formats = map fourcc_to_string formats,
                     dp_requested_format = vx_format vx, dp_requested_width = vx_width vx,
                     dp_requested_height = vx_height vx, dp_requested_fps = vx_fps vx\<rparr>))"

definition crate_set_up :: "v4l2_source \<Rightarrow> crate_answers \<Rightarrow> (video_capture_error, u32 \<times> u32) result" where
  "crate_set_up vx cr =
    (case cr_reopen cr of Inl e \<Rightarrow> Inl (VcDeviceOpen (''open '' @ vx_device vx @ '': '' @ e)) | Inr _ \<Rightarrow>
      (case cr_set_format cr (vx_width vx, vx_height vx, v4l2_fourcc (vx_format vx)) of Inl e \<Rightarrow> Inl (VcDeviceConfig (''set_format: '' @ e)) | Inr _ \<Rightarrow>
        (case cr_format cr of Inl e \<Rightarrow> Inl (VcDeviceConfig (''get_format: '' @ e)) | Inr dims \<Rightarrow>
          (case cr_stream cr of Inl e \<Rightarrow> Inl (VcDeviceConfig (''MMapStream::new: '' @ e)) | Inr _ \<Rightarrow>
            (case cr_start cr of Inl e \<Rightarrow> Inl (VcDeviceConfig (''stream start: '' @ e)) | Inr _ \<Rightarrow> Inr dims)))))"

record crate_input =
  xi_stop :: bool
  xi_next :: "(string, u8 list) result"
  xi_stop_late :: bool
  xi_now :: utc
  xi_open :: bool
  xi_taken :: nat

definition crate_round ::
  "v4l2_source \<Rightarrow> u32 \<times> u32 \<Rightarrow> crate_input \<Rightarrow> syn_state \<Rightarrow> bool \<times> syn_state" where
  "crate_round vx dims xi st =
    (let st1 = take_frames (xi_taken xi) st
     in if xi_stop xi then (False, st1)
        else case xi_next xi of
               Inl _ \<Rightarrow> (\<not> xi_stop_late xi, st1)
             | Inr data \<Rightarrow>
                 try_frame (max (vx_queue_depth vx) 1) (xi_open xi)
                   (camera_frame (fst dims) (snd dims) (vx_format vx) (xi_now xi) (st_seq st1) data) st1)"

definition run_capture_loop ::
  "v4l2_source \<Rightarrow> crate_answers \<Rightarrow> crate_input list \<Rightarrow> capture_end \<times> syn_state" where
  "run_capture_loop vx cr xis =
    (case crate_set_up vx cr of
       Inl e \<Rightarrow> (CaptureError e, syn_new)
     | Inr dims \<Rightarrow>
         (case capture_rounds (crate_round vx dims) xis syn_new of
            (True, st) \<Rightarrow> (CaptureRunning, st)
          | (False, st) \<Rightarrow> (CaptureDone, st)))"

text \<open>\<open>start\<close> probes first and opens the device again in its thread.\<close>

definition v4l2_start ::
  "v4l2_source \<Rightarrow> crate_answers \<Rightarrow> (video_capture_error, v4l2_source) result" where
  "v4l2_start vx cr =
    (case v4l2_probe vx cr of Inl e \<Rightarrow> Inl e | Inr _ \<Rightarrow> Inr (vx \<lparr>vx_stop_flag := Some False\<rparr>))"

definition v4l2_stop :: "v4l2_source \<Rightarrow> bool \<times> v4l2_source" where
  "v4l2_stop vx = (vx_stop_flag vx \<noteq> None, vx \<lparr>vx_stop_flag := None\<rparr>)"

definition stub_start :: "v4l2_source \<Rightarrow> (video_capture_error, unit) result" where
  "stub_start vx = Inl (VcDeviceOpen
     (''V4L2 support not compiled in (enable `v4l2` feature). Device: '' @ vx_device vx))"

definition list_v4l2_devices :: "(string \<Rightarrow> bool) \<Rightarrow> string list" where
  "list_v4l2_devices exists = filter exists (map (\<lambda>i. ''/dev/video'' @ dec i) [0..<64])"

section \<open>The buffers of a message\<close>

lemma length_ne_bytes [simp]: "length (ne_bytes v) = 4"
  by (simp add: ne_bytes_def)

lemma length_put4: "off + 4 \<le> length buf \<Longrightarrow> length (put4 off v buf) = length buf"
  by (simp add: put4_def)

lemma ne_bytes_list: "ne_bytes v = [ucast v, ucast (drop_bit 8 v), ucast (drop_bit 16 v), ucast (drop_bit 24 v)]"
  by (simp add: ne_bytes_def upt_rec)

lemma get4_ne_bytes: "foldr (\<lambda>b n. or (ucast b) (push_bit 8 n)) (ne_bytes v) 0 = (v :: u32)"
proof (rule bit_word_eqI)
  fix n assume "n < LENGTH(32)"
  then show "bit (foldr (\<lambda>b n. or (ucast b) (push_bit 8 n)) (ne_bytes v) 0 :: u32) n \<longleftrightarrow> bit v n"
    by (cases "24 \<le> n"; cases "16 \<le> n") (auto simp: ne_bytes_list bit_simps)
qed

lemma get_put: "off + 4 \<le> length buf \<Longrightarrow> get4 off (put4 off v buf) = v"
  by (simp add: get4_def put4_def get4_ne_bytes)

lemma get_put_other:
  assumes "off + 4 \<le> length buf" "off' + 4 \<le> off \<or> off + 4 \<le> off'"
  shows "get4 off' (put4 off v buf) = get4 off' buf"
proof -
  have "take 4 (drop off' (put4 off v buf)) = take 4 (drop off' buf)"
    using assms by (intro nth_equalityI) (auto simp: put4_def nth_append)
  then show ?thesis by (simp add: get4_def)
qed

lemma rate_message_fields:
  "get4 0 (rate_message fps) = buf_type_capture" "get4 12 (rate_message fps) = 1" "get4 16 (rate_message fps) = fps"
  by (simp_all add: rate_message_def get_put get_put_other length_put4)

lemma requests:
  "vidioc_s_fmt = 0xC0D05605" "vidioc_s_parm = 0xC0CC5616" "vidioc_reqbufs = 0xC0145608"
  "vidioc_querybuf = 0xC0585609" "vidioc_qbuf = 0xC058560F" "vidioc_dqbuf = 0xC0585611"
  "vidioc_streamon = 0x40045612" "vidioc_streamoff = 0x40045613"
  by code_simp+

text \<open>The buffer of \<open>VIDIOC_QUERYBUF\<close> names the index, the type and the kind of memory.\<close>

lemma query_message:
  "get4 0 (stamped (put4 0 i (replicate 88 0))) = i"
  "get4 4 (stamped (put4 0 i (replicate 88 0))) = buf_type_capture"
  "get4 60 (stamped (put4 0 i (replicate 88 0))) = memory_mmap"
  by (simp_all add: stamped_def get_put get_put_other length_put4)

section \<open>Frames of a capture loop\<close>

text \<open>What the loops of both drivers promise: an iteration lets the receiver take frames, and then does
  nothing else or makes one frame, with the next number, and offers it to the channel.\<close>

locale capture_source =
  fixes step :: "'i \<Rightarrow> syn_state \<Rightarrow> bool \<times> syn_state"
    and depth :: nat
    and made :: "'i \<Rightarrow> frame \<Rightarrow> bool"
  assumes step_makes: "step inp st = (go, st') \<Longrightarrow>
    \<exists>n. st' = take_frames n st
      \<or> (\<exists>f. made inp f \<and> fm_seq (frame_meta f) = st_seq st
           \<and> st' = (offer depth f (take_frames n st)) \<lparr>st_seq := st_seq st + 1\<rparr>)"
begin

definition cap_inv :: "'i set \<Rightarrow> syn_state \<Rightarrow> bool" where
  "cap_inv S st \<longleftrightarrow> length (st_queue st) \<le> depth \<and> sorted_wrt (<) (seqs_of (st_delivered st @ st_queue st))
     \<and> (\<forall>f\<in>set (st_delivered st @ st_queue st). fm_seq (frame_meta f) < st_seq st \<and> (\<exists>inp\<in>S. made inp f))"

lemma cap_take_inv: "cap_inv S st \<Longrightarrow> cap_inv S (take_frames n st)"
  by (auto simp: cap_inv_def take_frames_def)

lemma cap_offer_inv:
  assumes "cap_inv S st" "inp \<in> S" "made inp f" "fm_seq (frame_meta f) = st_seq st" "unat (st_seq st) + 1 < 2 ^ 64"
  shows "cap_inv S ((offer depth f st) \<lparr>st_seq := st_seq st + 1\<rparr>)"
proof -
  have less: "n < st_seq st + 1" if "n \<le> st_seq st" for n
    using that assms(5) by (simp add: word_less_nat_alt word_le_nat_alt unat_word_ariths)
  then have "\<forall>g\<in>set (st_delivered st @ st_queue st). fm_seq (frame_meta g) < st_seq st + 1"
    using assms(1) by (auto simp: cap_inv_def intro: less_imp_le)
  then show ?thesis using assms(1-4) less [OF order_refl]
    by (auto simp: cap_inv_def offer_def seqs_of_def sorted_wrt_append)
qed

lemma cap_step_inv:
  assumes "cap_inv S st" "inp \<in> S" "unat (st_seq st) + 1 < 2 ^ 64" "step inp st = (go, st')"
  shows "cap_inv S st' \<and> unat (st_seq st') \<le> unat (st_seq st) + 1"
proof -
  obtain n where n: "st' = take_frames n st \<or> (\<exists>f. made inp f \<and> fm_seq (frame_meta f) = st_seq st
      \<and> st' = (offer depth f (take_frames n st)) \<lparr>st_seq := st_seq st + 1\<rparr>)"
    using step_makes [OF assms(4)] by blast
  have t: "st_seq (take_frames n st) = st_seq st" by (simp add: take_frames_def)
  have "unat (st_seq st + 1) = unat (st_seq st) + 1" using assms(3) by (simp add: unat_word_ariths)
  then show ?thesis
    using n t cap_take_inv [OF assms(1), of n] cap_offer_inv [OF cap_take_inv [OF assms(1)] assms(2), of _ n] assms(3) by auto
qed

lemma cap_rounds_inv:
  "cap_inv S st \<Longrightarrow> set inps \<subseteq> S \<Longrightarrow> unat (st_seq st) + length inps < 2 ^ 64
    \<Longrightarrow> cap_inv S (snd (capture_rounds step inps st))"
proof (induction inps arbitrary: st)
  case (Cons inp inps)
  obtain go st1 where r: "step inp st = (go, st1)" by fastforce
  have "cap_inv S st1" "unat (st_seq st1) \<le> unat (st_seq st) + 1"
    using cap_step_inv [OF Cons.prems(1) _ _ r] Cons.prems(2,3) by auto
  then show ?case using Cons.IH [of st1] Cons.prems(2,3) r by (cases go) auto
qed simp

lemma captured_in_order:
  assumes "capture_rounds step inps syn_new = (go, st)" "length inps < 2 ^ 64"
  shows "sorted_wrt (<) (seqs_of (st_delivered st)) \<and> length (st_queue st) \<le> depth
    \<and> (\<forall>f\<in>set (st_delivered st). \<exists>inp\<in>set inps. made inp f)"
proof -
  have "cap_inv (set inps) syn_new" by (simp add: cap_inv_def syn_new_def seqs_of_def)
  then have "cap_inv (set inps) st" using cap_rounds_inv [of "set inps" syn_new inps] assms by (simp add: syn_new_def)
  then show ?thesis by (auto simp: cap_inv_def seqs_of_def sorted_wrt_append)
qed

end

definition direct_made :: "direct_source \<Rightarrow> camera \<Rightarrow> capture_input \<Rightarrow> frame \<Rightarrow> bool" where
  "direct_made ds ca ci f \<longleftrightarrow> (\<exists>buf. ci_dqbuf ci = Inr buf
     \<and> f = camera_frame (ca_width ca) (ca_height ca) (ds_format ds) (ci_now ci) (fm_seq (frame_meta f))
             (copy_buffer (ca_lens ca) (ci_memory ci) buf))"

definition crate_made :: "v4l2_source \<Rightarrow> u32 \<times> u32 \<Rightarrow> crate_input \<Rightarrow> frame \<Rightarrow> bool" where
  "crate_made vx dims xi f \<longleftrightarrow> (\<exists>data. xi_next xi = Inr data
     \<and> f = camera_frame (fst dims) (snd dims) (vx_format vx) (xi_now xi) (fm_seq (frame_meta f)) data)"

lemma take_seq [simp]: "st_seq (take_frames n st) = st_seq st"
  by (simp add: take_frames_def)

lemma camera_seq [simp]: "fm_seq (frame_meta (camera_frame w h format now seq data)) = seq"
  by (simp add: camera_frame_def)

lemmas round_defs = try_frame_def ioctl_def Let_def

interpretation direct: capture_source "direct_round ds ca" "unat (ds_num_buffers ds)" "direct_made ds ca" for ds ca
proof (unfold_locales, goal_cases)
  case (1 inp st go st')
  then consider (quiet) "st' = take_frames (ci_taken inp) st"
    | (frame) buf where "ci_dqbuf inp = Inr buf" "st' = (offer (unat (ds_num_buffers ds))
        (camera_frame (ca_width ca) (ca_height ca) (ds_format ds) (ci_now inp) (st_seq st)
          (copy_buffer (ca_lens ca) (ci_memory inp) buf)) (take_frames (ci_taken inp) st)) \<lparr>st_seq := st_seq st + 1\<rparr>"
    by (auto simp: direct_round_def round_defs split: sum.splits if_splits)
  then show ?case
  proof cases
    case (frame buf)
    have "direct_made ds ca inp (camera_frame (ca_width ca) (ca_height ca) (ds_format ds) (ci_now inp) (st_seq st)
        (copy_buffer (ca_lens ca) (ci_memory inp) buf))"
      using frame(1) by (simp add: direct_made_def)
    then show ?thesis unfolding frame(2) using camera_seq by blast
  qed blast
qed

interpretation over_crate: capture_source "crate_round vx dims" "max (vx_queue_depth vx) 1" "crate_made vx dims" for vx dims
proof (unfold_locales, goal_cases)
  case (1 inp st go st')
  then consider (quiet) "st' = take_frames (xi_taken inp) st"
    | (frame) data where "xi_next inp = Inr data" "st' = (offer (max (vx_queue_depth vx) 1)
        (camera_frame (fst dims) (snd dims) (vx_format vx) (xi_now inp) (st_seq st) data)
        (take_frames (xi_taken inp) st)) \<lparr>st_seq := st_seq st + 1\<rparr>"
    by (auto simp: crate_round_def round_defs split: sum.splits if_splits)
  then show ?case
  proof cases
    case (frame data)
    have "crate_made vx dims inp (camera_frame (fst dims) (snd dims) (vx_format vx) (xi_now inp) (st_seq st) data)"
      using frame(1) by (simp add: crate_made_def)
    then show ?thesis unfolding frame(2) using camera_seq by blast
  qed blast
qed

lemma run_direct_cases:
  assumes "run_direct_capture ds kn inps = (stop, st, calls)"
  obtains (failed) e where "set_up ds kn = (Inl e, calls)" "stop = CaptureError e" "st = syn_new"
  | (ran) ca calls' go where "set_up ds kn = (Inr ca, calls')" "capture_rounds (direct_round ds ca) inps syn_new = (go, st)"
      "stop = (if go then CaptureRunning else CaptureDone)" "calls = calls' @ (if go then [] else clean_up ca)"
  using assms by (fastforce simp: run_direct_capture_def split: prod.splits sum.splits bool.splits)

text \<open>A frame that is the beginning of the buffer an iteration was handed: of its memory no more than the
  driver says it wrote and no more than the mapping has, nothing if the index is not that of a mapping.\<close>

definition copy_of :: "camera \<Rightarrow> capture_input \<Rightarrow> frame \<Rightarrow> bool" where
  "copy_of ca ci f \<longleftrightarrow> (\<exists>buf n. ci_dqbuf ci = Inr buf
     \<and> frame_data f = take n (ci_memory ci (unat (get4 0 buf))) \<and> n \<le> unat (get4 8 buf)
     \<and> (if unat (get4 0 buf) < length (ca_lens ca) then n \<le> ca_lens ca ! unat (get4 0 buf) else n = 0))"

lemma made_copy:
  assumes "direct_made ds ca ci f" shows "copy_of ca ci f"
proof -
  obtain buf where b: "ci_dqbuf ci = Inr buf" "frame_data f = copy_buffer (ca_lens ca) (ci_memory ci) buf"
    using assms unfolding direct_made_def camera_frame_def by (metis frame.select_convs(1))
  let ?i = "unat (get4 0 buf)"
  let ?n = "if ?i < length (ca_lens ca) then min (unat (get4 8 buf)) (ca_lens ca ! ?i) else 0"
  have "frame_data f = take ?n (ci_memory ci ?i)" unfolding b(2) by (simp add: copy_buffer_def Let_def)
  then show ?thesis unfolding copy_of_def using b(1) by (intro exI [of _ buf] exI [of _ ?n]) simp
qed

text \<open>C21: A camera driven directly delivers its frames in strictly increasing order of their numbers, at most
  \<open>num_buffers\<close> of them waiting, and each is the copy of a buffer the driver handed out: never more bytes
  than the driver wrote or than the mapping has, and none for an index the program did not map, whatever
  the kernel answers.\<close>

theorem direct_frames:
  assumes "run_direct_capture ds kn inps = (stop, st, calls)" "set_up ds kn = (Inr ca, calls')" "length inps < 2 ^ 64"
  shows "sorted_wrt (<) (seqs_of (st_delivered st)) \<and> length (st_queue st) \<le> unat (ds_num_buffers ds)
    \<and> (\<forall>f\<in>set (st_delivered st). \<exists>ci\<in>set inps. copy_of ca ci f)"
  using assms(1)
proof (cases rule: run_direct_cases)
  case (ran ca' calls'' go)
  then have ca: "ca' = ca" using assms(2) by simp
  from direct.captured_in_order [OF ran(2) [unfolded ca] assms(3)] show ?thesis using made_copy by blast
qed (use assms(2) in simp)

section \<open>What a run leaves behind\<close>

lemma project_append: "List.map_filter f (xs @ ys) = List.map_filter f xs @ List.map_filter f ys"
  by (simp add: List.map_filter_def)

lemma project_calls:
  "List.map_filter (\<lambda>c. case c of OsOpen fd \<Rightarrow> Some fd | _ \<Rightarrow> None) (map OsMap ls) = []"
  "List.map_filter (\<lambda>c. case c of OsOpen fd \<Rightarrow> Some fd | _ \<Rightarrow> None) (map OsUnmap ls) = []"
  "List.map_filter (\<lambda>c. case c of OsClose fd \<Rightarrow> Some fd | _ \<Rightarrow> None) (map OsMap ls) = []"
  "List.map_filter (\<lambda>c. case c of OsClose fd \<Rightarrow> Some fd | _ \<Rightarrow> None) (map OsUnmap ls) = []"
  "List.map_filter (\<lambda>c. case c of OsMap n \<Rightarrow> Some n | _ \<Rightarrow> None) (map OsMap ls) = ls"
  "List.map_filter (\<lambda>c. case c of OsMap n \<Rightarrow> Some n | _ \<Rightarrow> None) (map OsUnmap ls) = []"
  "List.map_filter (\<lambda>c. case c of OsUnmap n \<Rightarrow> Some n | _ \<Rightarrow> None) (map OsMap ls) = []"
  "List.map_filter (\<lambda>c. case c of OsUnmap n \<Rightarrow> Some n | _ \<Rightarrow> None) (map OsUnmap ls) = ls"
  by (induction ls) (simp_all add: map_filter_simps)

text \<open>The calls of the mapping phase are mappings, followed on an error by the release of all of them.\<close>

lemma map_buffer_error: "map_buffer kn n i = Inl (e, ls) \<Longrightarrow> ls = [] \<or> (\<exists>l. ls = [l])"
  by (auto simp: map_buffer_def Let_def split: sum.splits)

lemma map_buffers_calls:
  "map_buffers kn n lens inds = (r, calls) \<Longrightarrow>
     \<exists>ls. (\<exists>e. r = Inl e \<and> calls = map OsMap ls @ map OsUnmap (lens @ ls)) \<or> (r = Inr (lens @ ls) \<and> calls = map OsMap ls)"
proof (induction inds arbitrary: lens calls)
  case Nil
  then show ?case by auto
next
  case (Cons i inds)
  show ?case
  proof (cases "map_buffer kn n i")
    case (Inl x)
    then show ?thesis using Cons.prems by (cases x) auto
  next
    case (Inr len)
    obtain calls1 where c: "map_buffers kn n (lens @ [len]) inds = (r, calls1)" "calls = OsMap len # calls1"
      using Cons.prems Inr by (cases "map_buffers kn n (lens @ [len]) inds") auto
    from Cons.IH [OF c(1)] show ?thesis
      using c(2) by (metis append.assoc append_Cons append_Nil list.simps(9))
  qed
qed

lemma buffers_of_calls:
  assumes "buffers_of kn n k = (r, calls)"
  shows "\<exists>ls. (\<exists>e. r = Inl e \<and> calls = map OsMap ls @ map OsUnmap ls) \<or> (r = Inr ls \<and> calls = map OsMap ls)"
proof -
  obtain r1 calls1 where m: "map_buffers kn n [] (map of_nat [0..<unat k]) = (r1, calls1)" by fastforce
  from map_buffers_calls [OF m] show ?thesis
    using assms m by (auto simp: buffers_of_def start_streaming_def split: sum.splits)
qed

lemma set_up_calls:
  assumes "set_up ds kn = (r, calls)" "kn_open kn = Inr fd" "\<not> has_nul (ds_device ds)"
  shows "\<exists>ls. (\<exists>e. r = Inl e \<and> calls = OsOpen fd # map OsMap ls @ map OsUnmap ls)
    \<or> (\<exists>ca. r = Inr ca \<and> ca_fd ca = fd \<and> ca_lens ca = ls \<and> calls = OsOpen fd # map OsMap ls)"
  using assms buffers_of_calls [of kn]
  by (fastforce simp: set_up_def split: sum.splits prod.splits)

text \<open>C22: A capture that ends by itself gives back its descriptor and every mapping.  One that fails while it is
  set up gives back the mappings and keeps the descriptor of the device open for ever.\<close>

theorem direct_resources:
  assumes "run_direct_capture ds kn inps = (stop, st, calls)" "kn_open kn = Inr fd" "\<not> has_nul (ds_device ds)"
  shows "(stop = CaptureDone \<longrightarrow> open_fds calls = {#} \<and> mapped calls = {#})
    \<and> (\<forall>e. stop = CaptureError e \<longrightarrow> open_fds calls = {#fd#} \<and> mapped calls = {#})"
  using assms(1)
proof (cases rule: run_direct_cases)
  case (failed e)
  then show ?thesis using set_up_calls [OF failed(1) assms(2,3)]
    by (auto simp: resource_defs project_append project_calls)
next
  case (ran ca calls' go)
  then show ?thesis using set_up_calls [OF ran(1) assms(2,3)]
    by (auto simp: resource_defs project_append project_calls clean_up_def)
qed

section \<open>Concrete cameras\<close>

definition sample_kernel :: kernel where
  "sample_kernel = \<lparr>kn_open = Inr 3, kn_s_fmt = (\<lambda>_. Inr (2, 1, 8)), kn_s_parm = (\<lambda>_. Inr ()),
     kn_reqbufs = (\<lambda>_. Inr 1),
     kn_querybuf = Inr, kn_mmap = (\<lambda>_. Inr ()), kn_qbuf = (\<lambda>_. Inr ()), kn_streamon = Inr ()\<rparr>"

definition sample_camera :: direct_source where
  "sample_camera = direct_with_format Yuyv (direct_new ''/dev/video0'' 2 1 30)"

definition filled :: capture_input where
  "filled = \<lparr>ci_stop = False, ci_dqbuf = Inr (put4 8 6 (replicate 88 0)), ci_stop_late = False,
     ci_memory = (\<lambda>_. [1, 2, 3, 4, 5, 6, 7, 8]), ci_now = 0, ci_open = True, ci_taken = 1\<rparr>"

lemma sample_set_up:
  "set_up sample_camera sample_kernel =
     (Inr \<lparr>ca_fd = 3, ca_width = 2, ca_height = 1, ca_lens = [8]\<rparr>, [OsOpen 3, OsMap 8])"
  by code_simp

lemma sample_camera_fields: "ds_num_buffers sample_camera = 4" "ds_format sample_camera = Yuyv"
  by (simp_all add: sample_camera_def direct_new_def direct_with_format_def)

lemma sample_capture:
  "\<exists>st. run_direct_capture sample_camera sample_kernel [filled, filled, filled \<lparr>ci_stop := True, ci_taken := 0\<rparr>]
     = (CaptureDone, st, [OsOpen 3, OsMap 8, OsUnmap 8, OsClose 3])
     \<and> map frame_data (st_delivered st) = [[1, 2, 3, 4, 5, 6]] \<and> length (st_queue st) = 1"
proof -
  have g: "get4 0 (put4 8 6 (replicate 88 0)) = 0" "get4 8 (put4 8 6 (replicate 88 0)) = 6"
    by code_simp+
  show ?thesis
    by (simp add: run_direct_capture_def sample_set_up filled_def direct_round_def round_defs take_frames_def offer_def
        syn_new_def camera_frame_def copy_buffer_def g clean_up_def sample_camera_fields)
qed

abbreviation sample_rounds :: "capture_input list" where
  "sample_rounds \<equiv> [filled, filled, filled \<lparr>ci_stop := True, ci_taken := 0\<rparr>]"

theorem direct_frames_witness:
  "\<exists>st calls. run_direct_capture sample_camera sample_kernel sample_rounds = (CaptureDone, st, calls)
    \<and> length (st_delivered st) = 1 \<and> sorted_wrt (<) (seqs_of (st_delivered st)) \<and> length (st_queue st) \<le> 4"
proof -
  obtain st where r: "run_direct_capture sample_camera sample_kernel sample_rounds
      = (CaptureDone, st, [OsOpen 3, OsMap 8, OsUnmap 8, OsClose 3])
    \<and> map frame_data (st_delivered st) = [[1, 2, 3, 4, 5, 6]] \<and> length (st_queue st) = 1"
    by (rule exE [OF sample_capture])
  have l: "length (st_delivered st) = 1" using arg_cong [OF conjunct1 [OF conjunct2 [OF r]], of length] by simp
  have "length sample_rounds < 2 ^ 64" by simp
  note d = direct_frames [OF conjunct1 [OF r] sample_set_up this]
  have q: "length (st_queue st) \<le> 4" using conjunct1 [OF conjunct2 [OF d]] by (simp add: sample_camera_fields)
  show ?thesis by (rule exI, rule exI, rule conjI [OF conjunct1 [OF r] conjI [OF l conjI [OF conjunct1 [OF d] q]]])
qed

theorem direct_resources_witness:
  "\<exists>e st calls. run_direct_capture sample_camera (sample_kernel \<lparr>kn_s_fmt := (\<lambda>_. Inl ''EINVAL'')\<rparr>) [] = (CaptureError e, st, calls)
    \<and> open_fds calls = {#3#} \<and> mapped calls = {#}"
proof -
  let ?kn = "sample_kernel \<lparr>kn_s_fmt := (\<lambda>_. Inl ''EINVAL'')\<rparr>"
  have o: "kn_open ?kn = Inr 3" "\<not> has_nul (ds_device sample_camera)"
    by (simp_all add: sample_kernel_def sample_camera_def direct_new_def direct_with_format_def has_nul_def)
  moreover have "kn_s_fmt ?kn x = Inl ''EINVAL''" for x by simp
  ultimately have r: "run_direct_capture sample_camera ?kn [] =
      (CaptureError (VcCapture (''ioctl(0x'' @ hex (unat vidioc_s_fmt) @ '') failed: EINVAL'')), syn_new, [OsOpen 3])"
    by (simp add: run_direct_capture_def set_up_def ioctl_def)
  note d = conjunct2 [OF direct_resources [OF r o], rule_format, OF refl]
  show ?thesis by (rule exI, rule exI, rule exI, rule conjI [OF r d])
qed

section \<open>What the drivers do not notice\<close>

text \<open>A camera that is unplugged fails every \<open>VIDIOC_DQBUF\<close>: the loop goes on for as long as nobody stops it,
  even without a receiver, and sends nothing.\<close>

lemma unplugged_goes_on:
  assumes "list_all (\<lambda>ci. \<not> ci_stop ci \<and> \<not> ci_stop_late ci \<and> (\<exists>e. ci_dqbuf ci = Inl e)) inps"
  shows "capture_rounds (direct_round ds ca) inps syn_new = (True, syn_new)"
proof -
  have t: "take_frames n syn_new = syn_new" for n by (simp add: take_frames_def syn_new_def)
  show ?thesis using assms by (induction inps) (auto simp: direct_round_def round_defs t)
qed

text \<open>Asked for RGB the direct driver asks the camera for YUYV and labels its frames RGB; a conversion to RGB
  hands such a frame on as it is, two bytes for a pixel.\<close>

lemma rgb_is_yuyv:
  "direct_fourcc Rgb24 = direct_fourcc Yuyv"
  "convert_to jpeg Rgb24 (camera_frame w h Rgb24 now seq data) = Some (Inr (camera_frame w h Rgb24 now seq data))"
  by (simp_all add: convert_to_def camera_frame_def)

text \<open>An unknown format in the configuration means MJPEG to one constructor and YUYV to the other.\<close>

lemma unknown_format:
  "vc_format cfg \<notin> {''nv12'', ''yuyv'', ''rgb24'', ''mjpeg''} \<Longrightarrow>
     so_format (from_common cfg) = Mjpeg \<and> vx_format (v4l2_from_common cfg) = Yuyv"
  by (simp add: from_common_def v4l2_from_common_def)

text \<open>The driver over the crate, too, delivers in order what it was given, in the format it was asked for; the
  rate it was asked for is not used.\<close>

lemma crate_frames:
  assumes "run_capture_loop vx cr inps = (stop, st)" "crate_set_up vx cr = Inr dims" "length inps < 2 ^ 64"
  shows "sorted_wrt (<) (seqs_of (st_delivered st)) \<and> length (st_queue st) \<le> max (vx_queue_depth vx) 1
    \<and> (\<forall>f\<in>set (st_delivered st). \<exists>xi\<in>set inps. xi_next xi = Inr (frame_data f) \<and> fm_format (frame_meta f) = vx_format vx)"
proof -
  obtain go where g: "capture_rounds (crate_round vx dims) inps syn_new = (go, st)"
    using assms(1,2) by (auto simp: run_capture_loop_def split: prod.splits bool.splits)
  have m: "xi_next xi = Inr (frame_data f) \<and> fm_format (frame_meta f) = vx_format vx" if "crate_made vx dims xi f" for xi f
    using that unfolding crate_made_def camera_frame_def
    by (metis frame.select_convs(1,2) frame_metadata.select_convs(3))
  from over_crate.captured_in_order [OF g assms(3)] show ?thesis using m by blast
qed

lemma rate_not_used: "run_capture_loop (vx \<lparr>vx_fps := n\<rparr>) cr inps = run_capture_loop vx cr inps"
proof -
  have "crate_round (vx \<lparr>vx_fps := n\<rparr>) dims = crate_round vx dims" for dims
    by (intro ext) (simp add: crate_round_def Let_def split: sum.split)
  moreover have "crate_set_up (vx \<lparr>vx_fps := n\<rparr>) cr = crate_set_up vx cr" by (simp add: crate_set_up_def split: sum.split)
  ultimately show ?thesis by (simp add: run_capture_loop_def split: sum.split)
qed

end
