(* ===== verification/Console.thy ===== *)
theory Console
  imports Scenario Watchdogs
begin

text \<open>
  \<open>crates/cli/src/repl.rs\<close>: the operator's console, which drives a state machine, the mock of the flight
  controller and the watchdogs.  What it prints is not modelled; texts are ASCII.  \<open>parse_f32\<close> is
  the parser of the standard library for decimal numbers.
\<close>

section \<open>The commands\<close>

record console =
  cn_state :: state_machine
  cn_fc :: mock_fc_state
  cn_watchdogs :: registry

text \<open>The texts of the errors as data.\<close>

datatype console_error =
    ArmFailed fc_error
  | DisarmFailed fc_error
  | SetModeFailed fc_error
  | Usage string
  | UnknownMode string
  | TransitionFailed state_transition_error
  | LockFailed state_transition_error
  | ResetFailed state_transition_error
  | ResetOutsideAbort system_state
  | InvalidTarget string
  | UnknownWatchdog string
  | BadAngle string string
  | UnknownCommand string

definition is_white :: "char \<Rightarrow> bool" where
  "is_white c \<longleftrightarrow> of_char c \<in> {9, 10, 11, 12, 13, 32 :: nat}"

text \<open>\<open>str::split_whitespace\<close> and \<open>str::trim\<close>.\<close>

fun split_white :: "string \<Rightarrow> string \<Rightarrow> string list" where
  "split_white w [] = (if w = [] then [] else [w])"
| "split_white w (c # cs) =
    (if is_white c then (if w = [] then split_white [] cs else w # split_white [] cs) else split_white (w @ [c]) cs)"

definition split_whitespace :: "string \<Rightarrow> string list" where
  "split_whitespace s = split_white [] s"

definition trim :: "string \<Rightarrow> string" where
  "trim s = rev (dropWhile is_white (rev (dropWhile is_white s)))"

definition lower_char :: "char \<Rightarrow> char" where
  "lower_char c = (let n = of_char c :: nat in if 65 \<le> n \<and> n \<le> 90 then char_of (n + 32) else c)"

definition parse_flight_mode :: "string \<Rightarrow> (console_error, flight_mode) result" where
  "parse_flight_mode s =
    (let t = map lower_char s
     in if t = ''guided'' then Inr Guided else if t = ''rtl'' then Inr Rtl else if t = ''loiter'' then Inr Loiter
        else if t = ''manual'' then Inr Manual else if t = ''auto'' then Inr Auto
        else if t \<in> {''stabilize'', ''stab''} then Inr Stabilize else Inl (UnknownMode t))"

definition move_to :: "system_state \<Rightarrow> console \<Rightarrow> (state_transition_error, unit) result \<times> console" where
  "move_to to cn = (case try_transition (cn_state cn) to of (r, sm) \<Rightarrow> (r, cn \<lparr>cn_state := sm\<rparr>))"

definition do_arm :: "console \<Rightarrow> (console_error, unit) result \<times> console" where
  "do_arm cn =
    (case mock_arm (cn_fc cn) of
       (Inl e, fc) \<Rightarrow> (Inl (ArmFailed e), cn \<lparr>cn_fc := fc\<rparr>)
     | (Inr _, fc) \<Rightarrow> (Inr (), snd (move_to Armed (cn \<lparr>cn_fc := fc\<rparr>))))"

definition do_disarm :: "console \<Rightarrow> (console_error, unit) result \<times> console" where
  "do_disarm cn =
    (case mock_disarm (cn_fc cn) of
       (Inl e, fc) \<Rightarrow> (Inl (DisarmFailed e), cn \<lparr>cn_fc := fc\<rparr>)
     | (Inr _, fc) \<Rightarrow> (Inr (), snd (move_to Idle (cn \<lparr>cn_fc := fc\<rparr>))))"

definition do_set_mode :: "string list \<Rightarrow> console \<Rightarrow> (console_error, unit) result \<times> console" where
  "do_set_mode args cn =
    (case args of
       [] \<Rightarrow> (Inl (Usage ''set-mode''), cn)
     | a # _ \<Rightarrow>
         (case parse_flight_mode a of
            Inl e \<Rightarrow> (Inl e, cn)
          | Inr mode \<Rightarrow>
              (case mock_set_mode mode (cn_fc cn) of
                 (Inl e, fc) \<Rightarrow> (Inl (SetModeFailed e), cn \<lparr>cn_fc := fc\<rparr>)
               | (Inr _, fc) \<Rightarrow> (Inr (), cn \<lparr>cn_fc := fc\<rparr>))))"

definition do_scan :: "console \<Rightarrow> (console_error, unit) result \<times> console" where
  "do_scan cn =
    (case move_to Scanning cn of (Inl e, cn') \<Rightarrow> (Inl (TransitionFailed e), cn') | (Inr _, cn') \<Rightarrow> (Inr (), cn'))"

definition do_select :: "string list \<Rightarrow> console \<Rightarrow> (console_error, unit) result \<times> console" where
  "do_select args cn =
    (case args of
       [] \<Rightarrow> (Inl (Usage ''select-target''), cn)
     | a # _ \<Rightarrow>
         (case parse_u64 a of
            None \<Rightarrow> (Inl (InvalidTarget a), cn)
          | Some _ \<Rightarrow>
              (case move_to TargetSelected cn of
                 (Inl e, cn1) \<Rightarrow> (Inl (TransitionFailed e), cn1)
               | (Inr _, cn1) \<Rightarrow>
                   (case move_to Tracking cn1 of
                      (Inl e, cn2) \<Rightarrow> (Inl (LockFailed e), cn2)
                    | (Inr _, cn2) \<Rightarrow> (Inr (), cn2)))))"

definition do_abort :: "console \<Rightarrow> (console_error, unit) result \<times> console" where
  "do_abort cn =
    (let cn1 = cn \<lparr>cn_state := force_transition (cn_state cn) Abort\<rparr>
     in (Inr (), cn1 \<lparr>cn_fc := snd (mock_set_mode Rtl (cn_fc cn1))\<rparr>))"

definition do_reset :: "console \<Rightarrow> (console_error, unit) result \<times> console" where
  "do_reset cn =
    (if sm_state (cn_state cn) \<noteq> Abort then (Inl (ResetOutsideAbort (sm_state (cn_state cn))), cn)
     else case move_to Idle cn of
            (Inl e, cn') \<Rightarrow> (Inl (ResetFailed e), cn')
          | (Inr _, cn') \<Rightarrow> (Inr (), cn'))"

definition do_feed :: "utc \<Rightarrow> string list \<Rightarrow> console \<Rightarrow> (console_error, unit) result \<times> console" where
  "do_feed now args cn =
    (case args of
       [] \<Rightarrow> (Inl (Usage ''feed-watchdog''), cn)
     | a # _ \<Rightarrow>
         (case (if a = ''video'' then Some VideoLoop else if a = ''inference'' then Some InferenceLoop
                else if a = ''tracking'' then Some TrackingLoop else if a = ''command'' then Some CommandLoop
                else if a = ''heartbeat'' \<or> a = ''fc'' then Some FcHeartbeat else None) of
            None \<Rightarrow> (Inl (UnknownWatchdog a), cn)
          | Some i \<Rightarrow> (Inr (), cn \<lparr>cn_watchdogs := feed now i (cn_watchdogs cn)\<rparr>)))"

definition do_attitude ::
  "(string \<Rightarrow> f32 option) \<Rightarrow> instant \<Rightarrow> string list \<Rightarrow> console \<Rightarrow> (console_error, unit) result \<times> console" where
  "do_attitude parse_f32 clk args cn =
    (case args of
       r # p # y # _ \<Rightarrow>
         (case parse_f32 r of
            None \<Rightarrow> (Inl (BadAngle ''roll'' r), cn)
          | Some roll \<Rightarrow> (case parse_f32 p of
              None \<Rightarrow> (Inl (BadAngle ''pitch'' p), cn)
            | Some pitch \<Rightarrow> (case parse_f32 y of
                None \<Rightarrow> (Inl (BadAngle ''yaw'' y), cn)
              | Some yaw \<Rightarrow> (Inr (), cn \<lparr>cn_fc := simulate_attitude clk
                  (attitude_default \<lparr>att_roll := roll, att_pitch := pitch, att_yaw := yaw\<rparr>) (cn_fc cn)\<rparr>))))
     | _ \<Rightarrow> (Inl (Usage ''simulate-attitude''), cn))"

text \<open>The first word is the command; those that only print change nothing.\<close>

definition repl_command ::
  "(string \<Rightarrow> f32 option) \<Rightarrow> instant \<Rightarrow> utc \<Rightarrow> string \<Rightarrow> console \<Rightarrow> (console_error, unit) result \<times> console" where
  "repl_command parse_f32 clk now input cn =
    (case split_whitespace input of
       [] \<Rightarrow> (Inr (), cn)
     | cmd # args \<Rightarrow>
         if cmd \<in> {''help'', ''h'', ''?'', ''status'', ''st''} then (Inr (), cn)
         else if cmd = ''arm'' then do_arm cn
         else if cmd = ''disarm'' then do_disarm cn
         else if cmd \<in> {''set-mode'', ''mode''} then do_set_mode args cn
         else if cmd = ''scan'' then do_scan cn
         else if cmd \<in> {''select-target'', ''select''} then do_select args cn
         else if cmd = ''abort'' then do_abort cn
         else if cmd = ''reset'' then do_reset cn
         else if cmd \<in> {''watchdogs'', ''wd'', ''anti-loop'', ''al''} then (Inr (), cn)
         else if cmd = ''feed-watchdog'' then do_feed now args cn
         else if cmd = ''simulate-heartbeat-loss'' then (Inr (), cn \<lparr>cn_fc := simulate_heartbeat_loss (cn_fc cn)\<rparr>)
         else if cmd = ''simulate-attitude'' then do_attitude parse_f32 clk args cn
         else if cmd \<in> {''quit'', ''exit'', ''q''} then (Inr (), cn)
         else (Inl (UnknownCommand cmd), cn))"

section \<open>The loop\<close>

datatype reading = Line string instant utc | Interrupted | Eof | ReadlineFailed

datatype console_end = QuitByCommand | EndOfInput | ReadFailure | StillReading

fun run_repl :: "(string \<Rightarrow> f32 option) \<Rightarrow> reading list \<Rightarrow> console \<Rightarrow> console_end \<times> console" where
  "run_repl pf [] cn = (StillReading, cn)"
| "run_repl pf (Line text clk now # rest) cn =
    (let line = trim text
     in if line = [] then run_repl pf rest cn
        else let cn' = snd (repl_command pf clk now line cn)
             in if line = ''quit'' \<or> line = ''exit'' then (QuitByCommand, cn') else run_repl pf rest cn')"
| "run_repl pf (Interrupted # rest) cn = run_repl pf rest cn"
| "run_repl pf (Eof # rest) cn = (EndOfInput, cn)"
| "run_repl pf (ReadlineFailed # rest) cn = (ReadFailure, cn)"

section \<open>What the operator can reach\<close>

lemmas do_defs = do_arm_def do_disarm_def do_set_mode_def do_scan_def do_select_def do_abort_def do_reset_def
  do_feed_def do_attitude_def move_to_def

abbreviation console_state :: "console \<Rightarrow> system_state" where
  "console_state cn \<equiv> sm_state (cn_state cn)"

lemma move_to_state:
  "console_state (snd (move_to to cn)) =
     (if is_transition_allowed (console_state cn) to then to else console_state cn)"
  by (auto simp: move_to_def try_transition_def)

lemma fc_state [simp]: "console_state (cn \<lparr>cn_fc := fc\<rparr>) = console_state cn"
  by simp

text \<open>What each command does to the state machine.\<close>

lemma do_states:
  "console_state (snd (do_arm cn)) \<in> {console_state cn, if is_transition_allowed (console_state cn) Armed then Armed else console_state cn}"
  "console_state (snd (do_disarm cn)) \<in> {console_state cn, if is_transition_allowed (console_state cn) Idle then Idle else console_state cn}"
  "console_state (snd (do_set_mode args cn)) = console_state cn"
  "console_state (snd (do_scan cn)) = (if is_transition_allowed (console_state cn) Scanning then Scanning else console_state cn)"
  "console_state (snd (do_select args cn)) \<in> {console_state cn,
     if console_state cn \<in> {Scanning, TargetSelected} then Tracking else console_state cn}"
  "console_state (snd (do_abort cn)) = Abort"
  "console_state (snd (do_reset cn)) = (if console_state cn = Abort then Idle else console_state cn)"
  "console_state (snd (do_feed now args cn)) = console_state cn"
  "console_state (snd (do_attitude pf clk args cn)) = console_state cn"
  by (auto simp: do_defs try_transition_def force_transition_def mock_defs simulate_attitude_def Let_def
      allowed_to_TargetSelected split: list.split option.split sum.split)

definition first_word :: "string \<Rightarrow> string" where
  "first_word line = (case split_whitespace line of [] \<Rightarrow> [] | w # _ \<Rightarrow> w)"

text \<open>The commands that can move the state machine.\<close>

definition moved :: "string \<Rightarrow> string list \<Rightarrow> console \<Rightarrow> system_state" where
  "moved w args cn =
    (if w = ''arm'' then console_state (snd (do_arm cn)) else if w = ''disarm'' then console_state (snd (do_disarm cn))
     else if w = ''scan'' then console_state (snd (do_scan cn))
     else if w \<in> {''select-target'', ''select''} then console_state (snd (do_select args cn))
     else if w = ''abort'' then Abort else if w = ''reset'' then console_state (snd (do_reset cn)) else console_state cn)"

lemma handle_moved:
  "split_whitespace line = w # args \<Longrightarrow> console_state (snd (repl_command pf clk now line cn)) = moved w args cn"
  by (simp add: repl_command_def moved_def do_states(3,6,8,9))

lemma moved_cases:
  obtains (same) "moved w args cn = console_state cn"
  | (armed) "console_state cn = Idle" "moved w args cn = Armed"
  | (disarmed) "w = ''disarm''" "console_state cn \<in> {Scanning, Rth, Abort}" "moved w args cn = Idle"
  | (scanning) "is_transition_allowed (console_state cn) Scanning" "moved w args cn = Scanning"
  | (tracking) "console_state cn \<in> {Scanning, TargetSelected}" "moved w args cn = Tracking"
  | (aborted) "moved w args cn = Abort"
  | (reset) "w = ''reset''" "console_state cn = Abort" "moved w args cn = Idle"
proof -
  note d = do_states [where cn = cn]
  have arm: "is_transition_allowed s Armed \<longleftrightarrow> s = Idle" for s by (cases s) simp_all
  show ?thesis
  proof (cases "moved w args cn = console_state cn")
    case False
    show ?thesis
    proof (cases "w = ''arm''")
      case True
      then show ?thesis using False d(1) arm by (intro armed) (auto simp: moved_def split: if_splits)
    next
      case 1: False
      show ?thesis
      proof (cases "w = ''disarm''")
        case True
        then show ?thesis using False d(2) by (intro disarmed) (auto simp: moved_def allowed_to_Idle split: if_splits)
      next
        case 2: False
        show ?thesis
        proof (cases "w = ''reset''")
          case True
          then show ?thesis using False d(7) by (intro reset) (auto simp: moved_def split: if_splits)
        next
          case 3: False
          show ?thesis
            using False 1 2 3 d(4) d(5) [of args] scanning tracking aborted by (auto simp: moved_def split: if_splits)
        qed
      qed
    qed
  qed (rule same)
qed

definition console_states :: "system_state set" where
  "console_states = {Idle, Armed, Scanning, Tracking, Abort}"

lemma handle_reachable:
  assumes "console_state cn \<in> console_states"
  shows "console_state (snd (repl_command pf clk now line cn)) \<in> console_states"
proof (cases "split_whitespace line")
  case (Cons w args)
  show ?thesis unfolding handle_moved [OF Cons]
    by (cases rule: moved_cases [of w args cn]) (use assms in \<open>auto simp: console_states_def\<close>)
qed (use assms in \<open>simp add: repl_command_def\<close>)

lemma handle_abort_stays:
  assumes "console_state cn = Abort" "first_word line \<noteq> ''reset''" "first_word line \<noteq> ''disarm''"
  shows "console_state (snd (repl_command pf clk now line cn)) = Abort"
proof (cases "split_whitespace line")
  case (Cons w args)
  show ?thesis unfolding handle_moved [OF Cons]
    by (cases rule: moved_cases [of w args cn]) (use assms Cons in \<open>auto simp: first_word_def allowed_from_Abort\<close>)
qed (use assms in \<open>simp add: repl_command_def\<close>)

text \<open>A line that neither resets nor disarms.\<close>

fun keeps_abort :: "reading \<Rightarrow> bool" where
  "keeps_abort (Line typed clk now) \<longleftrightarrow> first_word (trim typed) \<noteq> ''reset'' \<and> first_word (trim typed) \<noteq> ''disarm''"
| "keeps_abort _ = True"

text \<open>Whatever is typed, a console in one of these states stays in them, and in Abort as long as no line
  starts with \<open>reset\<close> or \<open>disarm\<close>.\<close>

lemma run_states:
  assumes "console_state cn \<in> console_states"
  shows "console_state (snd (run_repl pf inputs cn)) \<in> console_states
    \<and> (console_state cn = Abort \<and> list_all keeps_abort inputs \<longrightarrow> console_state (snd (run_repl pf inputs cn)) = Abort)"
  using assms
proof (induction inputs arbitrary: cn)
  case (Cons x inputs)
  show ?case
  proof (cases x)
    case (Line typed clk now)
    let ?cn' = "snd (repl_command pf clk now (trim typed) cn)"
    have "console_state ?cn' \<in> console_states" by (rule handle_reachable [OF Cons.prems])
    moreover have "console_state ?cn' = Abort" if "console_state cn = Abort" "keeps_abort x"
      using handle_abort_stays [OF that(1)] that(2) Line by simp
    ultimately show ?thesis using Line Cons.IH [of ?cn'] Cons.IH [OF Cons.prems] by (simp add: Let_def)
  qed (use Cons in auto)
qed simp

definition armed_console :: "system_state \<Rightarrow> console" where
  "armed_console s = \<lparr>cn_state = sm_new s, cn_fc = mock_new \<lparr>mf_connected := True, mf_armed := True\<rparr>,
     cn_watchdogs = registry_new\<rparr>"

lemma sample_stays_aborted:
  "console_state (snd (run_repl (\<lambda>_. None) [Line ''scan'' 0 0, Interrupted, Line ''bogus'' 0 0] (armed_console Abort))) = Abort"
proof -
  have w: "split_whitespace ''scan'' = [''scan'']" "split_whitespace ''bogus'' = [''bogus'']"
    "trim ''scan'' = ''scan''" "trim ''bogus'' = ''bogus''"
    by (simp_all add: split_whitespace_def trim_def is_white_def)
  have a: "console_state (armed_console Abort) = Abort" by (simp add: armed_console_def sm_new_def)
  then have "console_state (armed_console Abort) \<in> console_states" by (simp add: console_states_def)
  from run_states [OF this, of "\<lambda>_. None" "[Line ''scan'' 0 0, Interrupted, Line ''bogus'' 0 0]"] a
  show ?thesis by (simp add: first_word_def w)
qed

text \<open>A run that still reads goes on with what is typed next.\<close>

lemma run_repl_append:
  "fst (run_repl pf xs cn) = StillReading \<Longrightarrow> run_repl pf (xs @ ys) cn = run_repl pf ys (snd (run_repl pf xs cn))"
proof (induction xs arbitrary: cn)
  case (Cons x xs)
  then show ?case by (cases x) (auto simp: Let_def split: if_splits)
qed simp

section \<open>What the commands do not do\<close>

text \<open>A reset does not ask for a disarmed vehicle, as the help and \<open>operator.rs\<close> say.\<close>

lemma reset_leaves_armed:
  "console_state cn = Abort \<Longrightarrow> fst (do_reset cn) = Inr () \<and> console_state (snd (do_reset cn)) = Idle
     \<and> mf_armed (cn_fc (snd (do_reset cn))) = mf_armed (cn_fc cn)"
  by (simp add: do_reset_def move_to_def try_transition_def)

text \<open>Disarming while tracking reports success, and the machine goes on tracking.\<close>

lemma disarm_keeps_tracking:
  "console_state cn = Tracking \<Longrightarrow> mf_connected (cn_fc cn) \<Longrightarrow>
     fst (do_disarm cn) = Inr () \<and> console_state (snd (do_disarm cn)) = Tracking \<and> \<not> mf_armed (cn_fc (snd (do_disarm cn)))"
  by (simp add: do_disarm_def move_to_def try_transition_def mock_disarm_def)

text \<open>The command \<open>q\<close> says good bye and goes on.\<close>

lemma q_goes_on: "run_repl pf [Line ''q'' clk now] cn = (StillReading, cn)"
  by (simp add: repl_command_def split_whitespace_def trim_def is_white_def)

end
