(* ===== verification/Bus_Console.thy ===== *)
theory Bus_Console
  imports Console Fc_Bridge
begin

text \<open>
  \<open>crates/cli/src/bus_console.rs\<close>: the operator's console on the message bus, its monitor and the
  configuration service, and the console composed with the bridge of \<open>Fc_Bridge\<close>.  The bus is given by
  what it delivers.  JSON values are those of serde_json: \<open>json_makers\<close> holds the constructors the
  console calls, and what the other side of the bus reads for a number.
\<close>

section \<open>Commands on the bus\<close>

record 'json json_makers =
  jm_object :: "(string \<times> 'json) list \<Rightarrow> 'json"
  jm_string :: "string \<Rightarrow> 'json"
  jm_number :: "f64 \<Rightarrow> 'json"
  jm_read :: "f64 \<Rightarrow> f64 option"

definition fc_message :: "string \<Rightarrow> 'json \<Rightarrow> u64 \<Rightarrow> 'json command_msg" where
  "fc_message cmd args i = \<lparr>cmd_v = contract_version, cmd_target = ''fc'', cmd_name = cmd, cmd_args = args,
     cmd_source = ''cli'', cmd_id = i\<rparr>"

text \<open>What the operator sees of the bus, and the counter of identifiers, which starts at 1.\<close>

record bus_cache =
  bch_track :: "track_msg option"
  bch_telemetry :: "telemetry_sample option"
  bch_statuses :: "string \<rightharpoonup> string"
  bch_commands_sent :: u64

definition bus_cache_default :: bus_cache where
  "bus_cache_default = \<lparr>bch_track = None, bch_telemetry = None, bch_statuses = Map.empty, bch_commands_sent = 0\<rparr>"

record bus_repl =
  rp_cache :: bus_cache
  rp_next_id :: u64

definition bus_repl_start :: bus_repl where
  "bus_repl_start = \<lparr>rp_cache = bus_cache_default, rp_next_id = 1\<rparr>"

text \<open>The outcome of a publication: whether the message was delivered, and the result.  A publication
  that times out may have been delivered.\<close>

record publication =
  pu_delivered :: bool
  pu_result :: "(bus_error, unit) result"

definition send_fc_command ::
  "string \<Rightarrow> 'json \<Rightarrow> publication \<Rightarrow> bus_repl \<Rightarrow> (bus_error, unit) result \<times> 'json command_msg list \<times> bus_repl" where
  "send_fc_command cmd args pub rp =
    (let msg = fc_message cmd args (rp_next_id rp)
     in (pu_result pub, if pu_delivered pub then [msg] else [], rp \<lparr>rp_next_id := rp_next_id rp + 1\<rparr>))"

definition count_sent :: "bus_repl \<Rightarrow> bus_repl" where
  "count_sent rp = rp \<lparr>rp_cache := rp_cache rp \<lparr>bch_commands_sent := bch_commands_sent (rp_cache rp) + 1\<rparr>\<rparr>"

definition send_counted ::
  "string \<Rightarrow> 'json \<Rightarrow> publication \<Rightarrow> bus_repl \<Rightarrow> 'json command_msg list \<times> bus_repl" where
  "send_counted cmd args pub rp =
    (case send_fc_command cmd args pub rp of
       (r, msgs, rp') \<Rightarrow> (msgs, case r of Inr _ \<Rightarrow> count_sent rp' | Inl _ \<Rightarrow> rp'))"

definition bus_mode :: "'json json_makers \<Rightarrow> string list \<Rightarrow> publication \<Rightarrow> bus_repl \<Rightarrow> 'json command_msg list \<times> bus_repl" where
  "bus_mode jm rest pub rp =
    (let m = (case rest of [] \<Rightarrow> [] | a # _ \<Rightarrow> a)
     in if m = [] then ([], rp) else send_counted ''set_mode'' (jm_object jm [(''mode'', jm_string jm m)]) pub rp)"

text \<open>The altitude, zero when it is missing or not a number.\<close>

definition altitude_of :: "(string \<Rightarrow> f64 option) \<Rightarrow> string list \<Rightarrow> f64" where
  "altitude_of parse_f64 others =
    (case others of [] \<Rightarrow> Fin 0 | c # _ \<Rightarrow> (case parse_f64 c of None \<Rightarrow> Fin 0 | Some x \<Rightarrow> x))"

definition bus_set_roi ::
  "'json json_makers \<Rightarrow> (string \<Rightarrow> f64 option) \<Rightarrow> string list \<Rightarrow> publication \<Rightarrow> bus_repl
    \<Rightarrow> 'json command_msg list \<times> bus_repl" where
  "bus_set_roi jm parse_f64 rest pub rp =
    (case rest of
       a # b # others \<Rightarrow>
         (case (parse_f64 a, parse_f64 b) of
            (Some lat, Some lon) \<Rightarrow>
              send_counted ''set_roi''
                (jm_object jm [(''lat'', jm_number jm lat), (''lon'', jm_number jm lon),
                   (''alt'', jm_number jm (altitude_of parse_f64 others))]) pub rp
          | _ \<Rightarrow> ([], rp))
     | _ \<Rightarrow> ([], rp))"

definition bus_abort :: "'json json_makers \<Rightarrow> publication \<Rightarrow> bus_repl \<Rightarrow> 'json command_msg list \<times> bus_repl" where
  "bus_abort jm pub rp =
    (case send_fc_command ''set_mode'' (jm_object jm [(''mode'', jm_string jm ''rtl'')]) pub rp of (_, msgs, rp') \<Rightarrow> (msgs, rp'))"

text \<open>A line, already trimmed; \<open>None\<close> leaves the loop.  The commands that only print change nothing.\<close>

definition bus_line ::
  "'json json_makers \<Rightarrow> (string \<Rightarrow> f64 option) \<Rightarrow> string \<Rightarrow> publication \<Rightarrow> bus_repl
    \<Rightarrow> ('json command_msg list \<times> bus_repl) option" where
  "bus_line jm parse_f64 line pub rp =
    (let parts = split_whitespace line; cmd = (case parts of [] \<Rightarrow> [] | w # _ \<Rightarrow> w); rest = drop 1 parts
     in if cmd \<in> {''help'', ''h'', ''?'', ''status'', ''st'', ''tracks'', ''telemetry'', ''tele'', ''statuses''} then Some ([], rp)
        else if cmd \<in> {''arm'', ''disarm''} then Some (send_counted cmd (jm_object jm []) pub rp)
        else if cmd \<in> {''mode'', ''set-mode''} then Some (bus_mode jm rest pub rp)
        else if cmd = ''set-roi'' then Some (bus_set_roi jm parse_f64 rest pub rp)
        else if cmd = ''abort'' then Some (bus_abort jm pub rp)
        else if cmd \<in> {''quit'', ''exit'', ''q''} then None
        else Some ([], rp))"

text \<open>The loop: lines of the operator between the messages the background task writes to the cache.\<close>

datatype console_event =
    Typed string publication
  | TrackSeen track_msg
  | TelemetrySeen telemetry_sample
  | StatusSeen string string

definition see :: "(bus_cache \<Rightarrow> bus_cache) \<Rightarrow> bus_repl \<Rightarrow> bus_repl" where
  "see f rp = rp \<lparr>rp_cache := f (rp_cache rp)\<rparr>"

fun bus_run_repl ::
  "'json json_makers \<Rightarrow> (string \<Rightarrow> f64 option) \<Rightarrow> console_event list \<Rightarrow> bus_repl \<Rightarrow> 'json command_msg list \<times> bus_repl" where
  "bus_run_repl jm pf [] rp = ([], rp)"
| "bus_run_repl jm pf (Typed line pub # es) rp =
    (case bus_line jm pf (trim line) pub rp of
       None \<Rightarrow> ([], rp)
     | Some (msgs, rp1) \<Rightarrow> (case bus_run_repl jm pf es rp1 of (others, rp2) \<Rightarrow> (msgs @ others, rp2)))"
| "bus_run_repl jm pf (TrackSeen t # es) rp = bus_run_repl jm pf es (see (\<lambda>c. c \<lparr>bch_track := Some t\<rparr>) rp)"
| "bus_run_repl jm pf (TelemetrySeen t # es) rp = bus_run_repl jm pf es (see (\<lambda>c. c \<lparr>bch_telemetry := Some t\<rparr>) rp)"
| "bus_run_repl jm pf (StatusSeen k v # es) rp =
    bus_run_repl jm pf es (see (\<lambda>c. c \<lparr>bch_statuses := (bch_statuses c)(k \<mapsto> v)\<rparr>) rp)"

section \<open>The monitor and the configuration service\<close>

text \<open>\<open>String::truncate\<close> panics inside a character; a byte \<open>10xxxxxx\<close> continues one.\<close>

definition char_boundary :: "u8 list \<Rightarrow> nat \<Rightarrow> bool" where
  "char_boundary bs n \<longleftrightarrow> n = 0 \<or> n = length bs \<or> n < length bs \<and> take_bit 2 (drop_bit 6 (bs ! n)) \<noteq> 2"

definition monitor_line :: "nat \<Rightarrow> u8 list \<Rightarrow> u8 list option" where
  "monitor_line max_len line =
    (if max_len < length line
     then if char_boundary line max_len then Some (take max_len line @ bytes_of ''...'') else None
     else Some line)"

definition config_get_topic :: string where
  "config_get_topic = ''at/config_get''"

text \<open>One answer for each request, until receiving fails.\<close>

fun config_service :: "'json \<Rightarrow> bool list \<Rightarrow> 'json list" where
  "config_service payload (True # reqs) = payload # config_service payload reqs"
| "config_service payload _ = []"

definition config_request :: "'json json_makers \<Rightarrow> u64 \<Rightarrow> 'json command_msg" where
  "config_request jm i = \<lparr>cmd_v = contract_version, cmd_target = ''config-svc'', cmd_name = ''get'',
     cmd_args = jm_object jm [], cmd_source = ''cli'', cmd_id = i\<rparr>"

datatype 'json config_end = ConfigFailed bus_error | ConfigShown 'json | ConfigExit nat

definition config_get ::
  "(bus_error, unit) result \<Rightarrow> (bus_error, 'json) result \<Rightarrow> 'json config_end" where
  "config_get published answer =
    (case published of
       Inl e \<Rightarrow> ConfigFailed e
     | Inr _ \<Rightarrow> (case answer of Inr v \<Rightarrow> ConfigShown v | Inl _ \<Rightarrow> ConfigExit 4))"

section \<open>What the operator asks reaches the controller\<close>

text \<open>What serde_json documents: an object has its fields and no others, a string and a number read back,
  and a number that is not finite becomes \<open>null\<close>.\<close>

definition json_laws :: "'json json_ops \<Rightarrow> 'json json_makers \<Rightarrow> bool" where
  "json_laws js jm \<longleftrightarrow>
     (\<forall>kvs k. distinct (map fst kvs) \<longrightarrow> js_get js (jm_object jm kvs) k = map_of kvs k)
     \<and> (\<forall>kvs k v. distinct (map fst kvs) \<longrightarrow> map_of kvs k = Some v \<longrightarrow> js_index js (jm_object jm kvs) k = v)
     \<and> (\<forall>s. js_as_str js (jm_string jm s) = Some s)
     \<and> (\<forall>x. js_as_f64 js (jm_number jm x) = jm_read jm x)
     \<and> (\<forall>x\<in>{NaN, PInf, NInf}. jm_read jm x = None)"

text \<open>The command a line of the operator stands for.\<close>

definition roi_wish :: "(f64 \<Rightarrow> f64 option) \<Rightarrow> (string \<Rightarrow> f64 option) \<Rightarrow> string list \<Rightarrow> recorded_command option" where
  "roi_wish rd pf rest =
    (case rest of
       a # b # others \<Rightarrow>
         Option.bind (Option.bind (pf a) rd) (\<lambda>lat. Option.bind (Option.bind (pf b) rd) (\<lambda>lon.
           Some (SetRoi (GlobalLatLng lat lon
             (f32_of_f64 (case rd (altitude_of pf others) of Some x \<Rightarrow> x | None \<Rightarrow> Fin 0))))))
     | _ \<Rightarrow> None)"

definition wish :: "(f64 \<Rightarrow> f64 option) \<Rightarrow> (string \<Rightarrow> f64 option) \<Rightarrow> string \<Rightarrow> recorded_command option" where
  "wish rd pf line =
    (case split_whitespace line of
       [] \<Rightarrow> None
     | w # rest \<Rightarrow>
         if w = ''arm'' then Some CmdArm else if w = ''disarm'' then Some CmdDisarm
         else if w \<in> {''mode'', ''set-mode''} then
           (case rest of [] \<Rightarrow> None | m # _ \<Rightarrow> map_option SetMode (mode_by_name (to_ascii_lowercase m)))
         else if w = ''set-roi'' then roi_wish rd pf rest
         else if w = ''abort'' then Some (SetMode Rtl) else None)"

text \<open>The lines typed before the operator leaves.\<close>

definition leaves :: "string \<Rightarrow> bool" where
  "leaves line \<longleftrightarrow> first_word (trim line) \<in> {''quit'', ''exit'', ''q''}"

fun typed_lines :: "console_event list \<Rightarrow> (string \<times> publication) list" where
  "typed_lines [] = []"
| "typed_lines (Typed line pub # es) = (if leaves line then [] else (line, pub) # typed_lines es)"
| "typed_lines (_ # es) = typed_lines es"

definition delivered_wish ::
  "(f64 \<Rightarrow> f64 option) \<Rightarrow> (string \<Rightarrow> f64 option) \<Rightarrow> string \<times> publication \<Rightarrow> recorded_command option" where
  "delivered_wish rd pf x = (if pu_delivered (snd x) then wish rd pf (trim (fst x)) else None)"

lemma send_counted_msgs:
  "send_counted cmd args pub rp = (msgs, rp')
    \<Longrightarrow> msgs = (if pu_delivered pub then [fc_message cmd args (rp_next_id rp)] else [])"
  by (simp add: send_counted_def send_fc_command_def Let_def)

lemma map_filter_one: "List.map_filter f [] = []" "List.map_filter f [x] = (case f x of None \<Rightarrow> [] | Some y \<Rightarrow> [y])"
  by (simp_all add: map_filter_simps split: option.split)

lemma object_index:
  "json_laws js jm \<Longrightarrow> distinct (map fst kvs) \<Longrightarrow> map_of kvs k = Some v \<Longrightarrow> js_index js (jm_object jm kvs) k = v"
  by (simp only: json_laws_def)

lemma asked_set_mode:
  assumes "json_laws js jm"
  shows "asked_command js (fc_message ''set_mode'' (jm_object jm [(''mode'', jm_string jm m)]) i)
    = map_option SetMode (mode_by_name (to_ascii_lowercase m))"
proof -
  have "js_index js (jm_object jm [(''mode'', jm_string jm m)]) ''mode'' = jm_string jm m"
    by (rule object_index [OF assms]) simp_all
  moreover have "js_as_str js (jm_string jm m) = Some m" using assms by (simp add: json_laws_def)
  ultimately show ?thesis by (simp add: asked_command_def fc_message_def)
qed

lemma asked_set_roi:
  assumes "json_laws js jm"
  shows "asked_command js (fc_message ''set_roi''
      (jm_object jm [(''lat'', jm_number jm lat), (''lon'', jm_number jm lon), (''alt'', jm_number jm alt)]) i)
    = Option.bind (jm_read jm lat) (\<lambda>x. Option.bind (jm_read jm lon) (\<lambda>y.
        Some (SetRoi (GlobalLatLng x y (f32_of_f64 (case jm_read jm alt of Some z \<Rightarrow> z | None \<Rightarrow> Fin 0))))))"
proof -
  let ?kvs = "[(''lat'', jm_number jm lat), (''lon'', jm_number jm lon), (''alt'', jm_number jm alt)]"
  have d: "distinct (map fst ?kvs)" by simp
  have g: "js_get js (jm_object jm ?kvs) k = map_of ?kvs k" for k using assms d by (simp only: json_laws_def)
  have i: "js_index js (jm_object jm ?kvs) ''lat'' = jm_number jm lat"
    "js_index js (jm_object jm ?kvs) ''lon'' = jm_number jm lon"
    by (rule object_index [OF assms d], simp)+
  have n: "js_as_f64 js (jm_number jm v) = jm_read jm v" for v using assms by (simp add: json_laws_def)
  have t: "cmd_target (fc_message c a i) = ''fc''" "cmd_name (fc_message c a i) = c" "cmd_args (fc_message c a i) = a" for c a i
    by (simp_all add: fc_message_def)
  show ?thesis
    unfolding asked_command_def t g i Let_def n by (simp add: n split: option.split)
qed

lemma split_white_nonempty: "[] \<notin> set (split_white w s)"
  by (induction w s rule: split_white.induct) auto

lemma split_white_words: "split_whitespace line = w # rest \<Longrightarrow> [] \<notin> set rest"
  using split_white_nonempty [of "[]" line] by (simp add: split_whitespace_def)

lemma bus_line_wish:
  assumes "json_laws js jm" "bus_line jm pf line pub rp = Some (msgs, rp')"
  shows "List.map_filter (asked_command js) msgs
    = (if pu_delivered pub then List.map_filter (wish (jm_read jm) pf) [line] else [])"
proof (cases "split_whitespace line")
  case Nil
  then show ?thesis using assms(2) by (auto simp: bus_line_def wish_def map_filter_one Let_def split: if_splits)
next
  case (Cons w rest)
  have asked: "asked_command js (fc_message ''arm'' a i) = Some CmdArm"
    "asked_command js (fc_message ''disarm'' a i) = Some CmdDisarm" for a i
    by (simp_all add: asked_command_def fc_message_def)
  note sets = asked_set_mode [OF assms(1)] asked_set_roi [OF assms(1)]
  show ?thesis
  proof (cases "w = ''set-roi''")
    case True
    then have b: "bus_set_roi jm pf rest pub rp = (msgs, rp')" using assms(2) Cons by (simp add: bus_line_def)
    show ?thesis
    proof (cases "(case rest of a # b # _ \<Rightarrow> pf a \<noteq> None \<and> pf b \<noteq> None | _ \<Rightarrow> False)")
      case r: True
      then obtain a b alts lat lon where "rest = a # b # alts" "pf a = Some lat" "pf b = Some lon"
        by (auto split: list.splits)
      with b True Cons show ?thesis
        by (auto simp: bus_set_roi_def wish_def roi_wish_def map_filter_one sets(2) dest!: send_counted_msgs split: option.splits)
    next
      case False
      with b True Cons show ?thesis
        by (auto simp: bus_set_roi_def wish_def roi_wish_def map_filter_one split: list.splits option.splits)
    qed
  next
    case 1: False
    show ?thesis
    proof (cases "w \<in> {''mode'', ''set-mode''}")
      case True
      then have b: "bus_mode jm rest pub rp = (msgs, rp')" using assms(2) Cons by (auto simp: bus_line_def)
      show ?thesis
      proof (cases rest)
        case Nil
        then show ?thesis using b True Cons by (auto simp: bus_mode_def wish_def map_filter_one)
      next
        case r: (Cons m ms)
        then have "m \<noteq> []" using split_white_words [OF Cons] by auto
        then have "send_counted ''set_mode'' (jm_object jm [(''mode'', jm_string jm m)]) pub rp = (msgs, rp')"
          using b r by (simp add: bus_mode_def)
        note m = send_counted_msgs [OF this]
        have "wish rd pf line = map_option SetMode (mode_by_name (to_ascii_lowercase m))" for rd
          using True Cons r by (auto simp: wish_def)
        then show ?thesis by (simp add: m map_filter_one sets(1) split: option.split)
      qed
    next
      case 2: False
      have rtl: "mode_by_name (to_ascii_lowercase ''rtl'') = Some Rtl"
        by (simp add: mode_by_name_def to_ascii_lowercase_def to_ascii_lower_def)
      show ?thesis
      proof (cases "w = ''abort''")
        case True
        then have "bus_abort jm pub rp = (msgs, rp')" using assms(2) Cons by (simp add: bus_line_def)
        then show ?thesis using True Cons
          by (auto simp: bus_abort_def send_fc_command_def Let_def wish_def map_filter_one sets(1) rtl)
      next
        case 3: False
        show ?thesis
        proof (cases "w = ''arm'' \<or> w = ''disarm''")
          case True
          then have "send_counted w (jm_object jm []) pub rp = (msgs, rp')" using assms(2) Cons by (auto simp: bus_line_def)
          note m = send_counted_msgs [OF this]
          have "asked_command js (fc_message w a i) = wish (jm_read jm) pf line" for a i
            using True Cons asked by (auto simp: wish_def)
          then show ?thesis by (simp add: m map_filter_one split: option.split)
        next
          case False
          then have "wish rd pf line = None" for rd using 1 2 3 Cons by (simp add: wish_def)
          moreover have "msgs = []" using assms(2) Cons False 1 2 3 by (auto simp: bus_line_def split: if_splits)
          ultimately show ?thesis by (simp add: map_filter_one)
        qed
      qed
    qed
  qed
qed

lemma bus_line_leaves: "bus_line jm pf (trim line) pub rp = None \<longleftrightarrow> leaves line"
  by (auto simp: bus_line_def leaves_def first_word_def Let_def split: list.splits)

lemma bus_run_wishes:
  assumes "json_laws js jm"
  shows "List.map_filter (asked_command js) (fst (bus_run_repl jm pf es rp))
    = List.map_filter (delivered_wish (jm_read jm) pf) (typed_lines es)"
proof (induction es arbitrary: rp)
  case (Cons e es)
  show ?case
  proof (cases e)
    case (Typed line pub)
    show ?thesis
    proof (cases "bus_line jm pf (trim line) pub rp")
      case None
      then show ?thesis using Typed bus_line_leaves [of jm pf line pub rp] by simp
    next
      case (Some r)
      obtain msgs rp1 where r: "r = (msgs, rp1)" by fastforce
      have "List.map_filter (asked_command js) msgs = List.map_filter (delivered_wish (jm_read jm) pf) [(line, pub)]"
        using bus_line_wish [OF assms Some [unfolded r]] by (simp add: delivered_wish_def split: option.split)
      then show ?thesis
        using Typed Some r bus_line_leaves [of jm pf line pub rp] Cons.IH [of rp1]
        by (auto simp: List.map_filter_def split: prod.splits)
    qed
  qed (use Cons in simp_all)
qed simp

text \<open>C20: What the operator types on the bus reaches the flight controller: for every adapter that keeps
  the contract, a bridge that executes the messages of a session sends commands in the order of the
  operator's lines, each of them exactly the one its line stands for, at most one a line, none for a
  line after the operator left, for a message that was lost, or for a text the bridge does not accept.\<close>

theorem operator_reaches_controller:
  assumes "fc_contract ops sent" "json_laws js jm" "bus_run_repl jm pf es rp = (msgs, rp')"
    "drain_commands ops js msgs (stats, fc) = (stats', fc')"
  shows "\<exists>cs. sent fc' = sent fc @ cs \<and> subseq cs (List.map_filter (delivered_wish (jm_read jm) pf) (typed_lines es))
    \<and> commands_handled stats' = commands_handled stats + of_nat (length cs)"
  using fc_contract.drain_sent [OF assms(1,4)] bus_run_wishes [OF assms(2), of pf es rp] assms(3) by auto

definition sample_jm :: "sample_json json_makers" where
  "sample_jm = \<lparr>jm_object = SObj, jm_string = SStr,
     jm_number = (\<lambda>x. if x \<in> {NaN, PInf, NInf} then SNull else SNum x),
     jm_read = (\<lambda>x. if x \<in> {NaN, PInf, NInf} then None else Some x)\<rparr>"

lemma sample_laws: "json_laws sample_js sample_jm"
  by (simp add: json_laws_def sample_js_def sample_jm_def sample_field_def)

definition delivered :: publication where
  "delivered = \<lparr>pu_delivered = True, pu_result = Inr ()\<rparr>"

definition sample_session :: "console_event list" where
  "sample_session = [Typed ''arm'' delivered, Typed '' mode  RTL'' delivered,
     Typed ''disarm'' (delivered \<lparr>pu_delivered := False\<rparr>), Typed ''fly'' delivered, Typed ''abort'' delivered,
     Typed ''q'' delivered, Typed ''disarm'' delivered]"

lemma sample_words:
  "split_whitespace (trim ''arm'') = [''arm'']" "split_whitespace (trim '' mode  RTL'') = [''mode'', ''RTL'']"
  "split_whitespace (trim ''disarm'') = [''disarm'']" "split_whitespace (trim ''fly'') = [''fly'']"
  "split_whitespace (trim ''abort'') = [''abort'']" "split_whitespace (trim ''q'') = [''q'']"
  by (simp_all add: split_whitespace_def trim_def is_white_def)

lemma lower_rtl: "to_ascii_lowercase ''RTL'' = ''rtl''"
  by code_simp

lemma sample_wishes:
  "List.map_filter (delivered_wish rd pf) (typed_lines sample_session) = [CmdArm, SetMode Rtl, SetMode Rtl]"
  by (simp add: sample_session_def leaves_def first_word_def sample_words delivered_wish_def delivered_def wish_def
      lower_rtl mode_by_name_def)

theorem operator_reaches_controller_witness:
  "\<exists>msgs rp' stats' fc' cs. bus_run_repl sample_jm (\<lambda>_. None) sample_session bus_repl_start = (msgs, rp')
    \<and> drain_commands mock_ops sample_js msgs (bridge_stats_default, connected_mock) = (stats', fc')
    \<and> mf_commands fc' = cs \<and> subseq cs [CmdArm, SetMode Rtl, SetMode Rtl]"
proof -
  obtain msgs rp' where m: "bus_run_repl sample_jm (\<lambda>_. None) sample_session bus_repl_start = (msgs, rp')" by fastforce
  obtain stats' fc' where d: "drain_commands mock_ops sample_js msgs (bridge_stats_default, connected_mock) = (stats', fc')"
    by fastforce
  show ?thesis
    using operator_reaches_controller [OF mock.fc_contract_axioms sample_laws m d] m d
    unfolding sample_wishes by (auto simp: connected_mock_def mock_new_def)
qed

section \<open>What the operator is not told\<close>

text \<open>A coordinate that is not finite is announced as sent and can never be executed; a malformed
  altitude is sent as zero; an abort is not counted; the monitor panics inside a character.\<close>

lemma infinite_roi_refused:
  assumes "json_laws js jm" "pf a \<in> Some ` {NaN, PInf, NInf}"
  shows "wish (jm_read jm) pf line = None \<or> split_whitespace line \<noteq> [''set-roi'', a, b]"
  using assms by (auto simp: wish_def roi_wish_def json_laws_def)

lemma malformed_altitude_is_zero:
  "pf c = None \<Longrightarrow> altitude_of pf (c # cs) = altitude_of pf []"
  by (simp add: altitude_of_def)

lemma abort_not_counted: "bch_commands_sent (rp_cache (snd (bus_abort jm pub rp))) = bch_commands_sent (rp_cache rp)"
  by (simp add: bus_abort_def send_fc_command_def Let_def)

lemma monitor_panics: "monitor_line 1 [0xD0, 0x90] = None" "monitor_line 2 [0x61, 0xD0, 0x90] = None"
  by code_simp+

text \<open>The configuration service answers each request once, with the configuration it was started with.\<close>

lemma config_service_answers: "config_service payload reqs = replicate (length (takeWhile id reqs)) payload"
  by (induction payload reqs rule: config_service.induct) auto

end
