(* ===== verification/Telemetry.thy ===== *)
theory Telemetry
  imports Console Letterbox
begin

text \<open>
  \<open>crates/system-telemetry/src\<close>: the latency figures of \<open>metrics.rs\<close> and the probes of \<open>lib.rs\<close> on
  Linux.  The files under \<open>/proc\<close> and \<open>/sys\<close> are a record of answers of the file system; \<open>parse_f32\<close> is
  the parser of the standard library for decimal numbers.  Texts are ASCII.
\<close>

section \<open>Latencies\<close>

datatype stage = CaptureStage | InferStage | AnnotateStage | TotalStage

fun stage_as_str :: "stage \<Rightarrow> string" where
  "stage_as_str CaptureStage = ''capture''"
| "stage_as_str InferStage = ''infer''"
| "stage_as_str AnnotateStage = ''annotate''"
| "stage_as_str TotalStage = ''total''"

type_synonym samples = "u64 list"

definition percentile :: "f32 \<Rightarrow> samples \<Rightarrow> f64" where
  "percentile pct xs =
    (if xs = [] then Fin 0
     else let sorted = sort xs;
              idx = as_usize (f32_round ((pct div lit 100) * (fl_of_nat (length sorted) - lit 1)))
          in fl_of_nat (unat (sorted ! min idx (length sorted - 1))))"

text \<open>The sum is a \<open>u64\<close>; it wraps in a release build.\<close>

definition mean_us :: "samples \<Rightarrow> f64" where
  "mean_us xs = (if xs = [] then Fin 0 else fl_of_nat (unat (sum_list xs)) div fl_of_nat (length xs))"

definition max_us :: "samples \<Rightarrow> u64" where
  "max_us xs = (if xs = [] then 0 else Max (set xs))"

record stage_stats =
  ss_stage :: string
  ss_count :: nat
  ss_mean_ms :: f64
  ss_p50_ms :: f64
  ss_p95_ms :: f64
  ss_max_ms :: f64

record run_summary =
  rs_elapsed_s :: f64
  rs_frames_processed :: nat
  rs_sustained_fps :: f64
  rs_stages :: "stage_stats list"

record metrics_recorder =
  mr_started :: instant
  mr_capture :: samples
  mr_infer :: samples
  mr_annotate :: samples
  mr_total :: samples
  mr_frames_processed :: nat

definition metrics_new :: "instant \<Rightarrow> metrics_recorder" where
  "metrics_new now = \<lparr>mr_started = now, mr_capture = [], mr_infer = [], mr_annotate = [], mr_total = [],
     mr_frames_processed = 0\<rparr>"

definition metrics_record :: "u64 \<Rightarrow> u64 \<Rightarrow> u64 \<Rightarrow> u64 \<Rightarrow> metrics_recorder \<Rightarrow> metrics_recorder" where
  "metrics_record c i a t mr =
     mr \<lparr>mr_capture := mr_capture mr @ [c], mr_infer := mr_infer mr @ [i], mr_annotate := mr_annotate mr @ [a],
         mr_total := mr_total mr @ [t], mr_frames_processed := mr_frames_processed mr + 1\<rparr>"

definition record_stage :: "stage \<Rightarrow> duration \<Rightarrow> metrics_recorder \<Rightarrow> metrics_recorder" where
  "record_stage st dur mr =
    (let us = of_nat (dur div 1000)
     in case st of
          CaptureStage \<Rightarrow> mr \<lparr>mr_capture := mr_capture mr @ [us]\<rparr>
        | InferStage \<Rightarrow> mr \<lparr>mr_infer := mr_infer mr @ [us]\<rparr>
        | AnnotateStage \<Rightarrow> mr \<lparr>mr_annotate := mr_annotate mr @ [us]\<rparr>
        | TotalStage \<Rightarrow> mr \<lparr>mr_total := mr_total mr @ [us], mr_frames_processed := mr_frames_processed mr + 1\<rparr>)"

definition secs_f64 :: "duration \<Rightarrow> f64" where
  "secs_f64 d = fl_of_nat (d div 1000000000) + fl_of_nat (d mod 1000000000) div fl_of_nat 1000000000"

definition stage_summary :: "string \<Rightarrow> samples \<Rightarrow> stage_stats" where
  "stage_summary name xs = \<lparr>ss_stage = name, ss_count = length xs, ss_mean_ms = mean_us xs div lit 1000,
     ss_p50_ms = percentile (lit 50) xs div lit 1000, ss_p95_ms = percentile (lit 95) xs div lit 1000,
     ss_max_ms = fl_of_nat (unat (max_us xs)) div lit 1000\<rparr>"

definition run_summary_of :: "instant \<Rightarrow> metrics_recorder \<Rightarrow> run_summary" where
  "run_summary_of now mr =
    (let elapsed_s = secs_f64 (now - mr_started mr); frames = length (mr_total mr)
     in \<lparr>rs_elapsed_s = elapsed_s, rs_frames_processed = frames,
         rs_sustained_fps = (if Fin 0 < elapsed_s then fl_of_nat frames div elapsed_s else Fin 0),
         rs_stages = [stage_summary ''capture'' (mr_capture mr), stage_summary ''infer'' (mr_infer mr),
           stage_summary ''annotate'' (mr_annotate mr), stage_summary ''total'' (mr_total mr)]\<rparr>)"

section \<open>The probes\<close>

datatype telemetry_error = TelemetryIo string | TelemetryParse string

record probe_fs =
  pf_exists :: "string \<Rightarrow> bool"
  pf_read :: "string \<Rightarrow> (string, string) result"
  pf_dir :: "string \<Rightarrow> (string, (string, string) result list) result"

text \<open>\<open>str::lines\<close>, \<open>trim_end_matches\<close>, and the join of a path.\<close>

definition newline :: char where
  "newline = CHR 0x0A"

definition strip_cr :: "string \<Rightarrow> string" where
  "strip_cr s = (if s \<noteq> [] \<and> last s = CHR 0x0D then butlast s else s)"

fun split_lines :: "string \<Rightarrow> string \<Rightarrow> string list" where
  "split_lines w [] = (if w = [] then [] else [w])"
| "split_lines w (c # cs) = (if c = newline then strip_cr w # split_lines [] cs else split_lines (w @ [c]) cs)"

function trim_end_kb :: "string \<Rightarrow> string" where
  "trim_end_kb s = (if suffix ''kB'' s then trim_end_kb (take (length s - 2) s) else s)"
  by pat_completeness auto
termination
  by (relation "measure length") (auto simp: suffix_def)

declare trim_end_kb.simps [simp del]

definition path_join :: "string \<Rightarrow> string \<Rightarrow> string" where
  "path_join a b = a @ ''/'' @ b"

fun scan_status :: "string list \<Rightarrow> (telemetry_error, u64 option) result" where
  "scan_status [] = Inr None"
| "scan_status (line # rest) =
    (if prefix ''VmRSS:'' line
     then case parse_u64 (trim (trim_end_kb (trim (drop 6 line)))) of
            None \<Rightarrow> Inl (TelemetryParse ''VmRSS'')
          | Some kb \<Rightarrow> Inr (Some kb)
     else scan_status rest)"

definition rss_kb :: "probe_fs \<Rightarrow> (telemetry_error, u64 option) result" where
  "rss_kb fs =
    (case pf_read fs ''/proc/self/status'' of
       Inl e \<Rightarrow> Inl (TelemetryIo e)
     | Inr status \<Rightarrow> scan_status (split_lines [] status))"

definition eq_ignore_case :: "string \<Rightarrow> string \<Rightarrow> bool" where
  "eq_ignore_case a b \<longleftrightarrow> map lower_char a = map lower_char b"

definition thermal_base :: string where
  "thermal_base = ''/sys/class/thermal''"

definition zone_path :: "nat \<Rightarrow> string" where
  "zone_path i = path_join thermal_base (''thermal_zone'' @ dec i)"

text \<open>Whether a zone is the one asked for, and the scan of \<open>thermal_zone0\<close> to \<open>thermal_zone15\<close>.\<close>

definition zone_matches :: "probe_fs \<Rightarrow> string \<Rightarrow> nat \<Rightarrow> bool" where
  "zone_matches fs target i \<longleftrightarrow>
     pf_exists fs (path_join (zone_path i) ''type'')
     \<and> (case pf_read fs (path_join (zone_path i) ''type'') of
          Inl _ \<Rightarrow> False
        | Inr t \<Rightarrow> eq_ignore_case (trim t) target \<and> pf_exists fs (path_join (zone_path i) ''temp''))"

definition thermal_zone_path_by_type :: "probe_fs \<Rightarrow> string \<Rightarrow> string option" where
  "thermal_zone_path_by_type fs target =
    (if \<not> pf_exists fs thermal_base then None
     else case List.find (zone_matches fs target) [0..<16] of
            Some i \<Rightarrow> Some (path_join (zone_path i) ''temp'')
          | None \<Rightarrow>
              (if (eq_ignore_case target ''cpu-thermal'' \<or> eq_ignore_case target ''soc-thermal'')
                  \<and> pf_exists fs (path_join thermal_base ''thermal_zone0/temp'')
               then Some (path_join thermal_base ''thermal_zone0/temp'') else None))"

definition read_thermal_zone ::
  "(string \<Rightarrow> f32 option) \<Rightarrow> probe_fs \<Rightarrow> string \<Rightarrow> (telemetry_error, f32 option) result" where
  "read_thermal_zone parse_f32 fs zone_name =
    (case thermal_zone_path_by_type fs zone_name of
       None \<Rightarrow> Inr None
     | Some p \<Rightarrow>
         (case pf_read fs p of
            Inl e \<Rightarrow> Inl (TelemetryIo e)
          | Inr raw \<Rightarrow>
              (case parse_f32 (trim raw) of
                 None \<Rightarrow> Inl (TelemetryParse ''thermal temp'')
               | Some millideg \<Rightarrow> Inr (Some (millideg div lit 1000)))))"

definition cpu_temp_c :: "(string \<Rightarrow> f32 option) \<Rightarrow> probe_fs \<Rightarrow> (telemetry_error, f32 option) result" where
  "cpu_temp_c parse_f32 fs = read_thermal_zone parse_f32 fs ''cpu-thermal''"

definition npu_temp_c :: "(string \<Rightarrow> f32 option) \<Rightarrow> probe_fs \<Rightarrow> (telemetry_error, f32 option) result" where
  "npu_temp_c parse_f32 fs = read_thermal_zone parse_f32 fs ''npu-thermal''"

definition devfreq_base :: string where
  "devfreq_base = ''/sys/class/devfreq''"

fun scan_devfreq :: "probe_fs \<Rightarrow> string \<Rightarrow> (string, string) result list \<Rightarrow> (telemetry_error, string option) result" where
  "scan_devfreq fs name [] = Inr None"
| "scan_devfreq fs name (Inl e # rest) = Inl (TelemetryIo e)"
| "scan_devfreq fs name (Inr entry # rest) =
    (let load = path_join (path_join devfreq_base entry) ''load''
     in if find_sub name (map lower_char entry) \<noteq> None \<and> pf_exists fs load then Inr (Some load)
        else scan_devfreq fs name rest)"

definition find_devfreq_load :: "probe_fs \<Rightarrow> string \<Rightarrow> (telemetry_error, string option) result" where
  "find_devfreq_load fs name =
    (if \<not> pf_exists fs devfreq_base then Inr None
     else case pf_dir fs devfreq_base of
            Inl e \<Rightarrow> Inl (TelemetryIo e)
          | Inr entries \<Rightarrow> scan_devfreq fs name entries)"

definition npu_load_percent :: "(string \<Rightarrow> f32 option) \<Rightarrow> probe_fs \<Rightarrow> (telemetry_error, f32 option) result" where
  "npu_load_percent parse_f32 fs =
    (let primary = ''/sys/class/devfreq/fdab0000.npu/load''
     in case (if pf_exists fs primary then Inr (Some primary) else find_devfreq_load fs ''npu'') of
          Inl e \<Rightarrow> Inl e
        | Inr None \<Rightarrow> Inr None
        | Inr (Some p) \<Rightarrow>
            (case pf_read fs p of
               Inl e \<Rightarrow> Inl (TelemetryIo e)
             | Inr raw \<Rightarrow>
                 (case parse_f32 (trim (takeWhile (\<lambda>c. c \<noteq> CHR ''@'') raw)) of
                    None \<Rightarrow> Inl (TelemetryParse ''npu load'')
                  | Some pct \<Rightarrow> Inr (Some pct))))"

record system_sample =
  sy_timestamp_s :: int
  sy_rss_kb :: "u64 option"
  sy_cpu_temp_c :: "f32 option"
  sy_npu_temp_c :: "f32 option"
  sy_npu_load_percent :: "f32 option"

definition ok_flatten :: "('e, 'a option) result \<Rightarrow> 'a option" where
  "ok_flatten r = (case r of Inl _ \<Rightarrow> None | Inr x \<Rightarrow> x)"

definition capture_sample :: "(string \<Rightarrow> f32 option) \<Rightarrow> int \<Rightarrow> probe_fs \<Rightarrow> system_sample" where
  "capture_sample parse_f32 now fs = \<lparr>sy_timestamp_s = now, sy_rss_kb = ok_flatten (rss_kb fs),
     sy_cpu_temp_c = ok_flatten (cpu_temp_c parse_f32 fs), sy_npu_temp_c = ok_flatten (npu_temp_c parse_f32 fs),
     sy_npu_load_percent = ok_flatten (npu_load_percent parse_f32 fs)\<rparr>"

section \<open>Percentiles\<close>

lemma lit_nat: "n \<le> 16777216 \<Longrightarrow> lit (of_nat n) = (Fin (of_nat n) :: 'f::len fl)"
  by (simp add: lit_def rnd_representable representable_nat)

lemma fl_of_small: "n \<le> 16777216 \<Longrightarrow> fl_of_nat n = (Fin (of_nat n) :: 'f::len fl)"
  by (simp add: fl_of_nat_def rnd_representable representable_nat)

lemma minus_one:
  assumes "0 < n" "n \<le> 16777216"
  shows "fl_of_nat n - lit 1 = (Fin (of_nat (n - 1)) :: f32)"
proof -
  have "lit 1 = (Fin 1 :: f32)" using lit_nat [of 1, where 'f = 32] by simp
  moreover have "rnd (of_nat (n - 1)) = (Fin (of_nat (n - 1)) :: f32)"
    using assms by (intro rnd_representable representable_nat) simp
  ultimately show ?thesis using assms
    by (auto simp: fl_of_small minus_fl_def plus_fl_def uminus_fl_def signed_zero_def of_nat_diff Let_def)
qed

lemma rnd_fin:
  assumes "0 \<le> q" "rndq TYPE('f) q < 2 powi emax TYPE('f)"
  shows "rnd q = (Fin (rndq TYPE('f) q) :: 'f::len fl)"
proof -
  have "- (2 powi emax TYPE('f)) < rndq TYPE('f) q"
    using rndq_nonneg [OF assms(1), of "TYPE('f)"] zero_less_power_int [of "2::rat" "emax TYPE('f)"] by linarith
  then show ?thesis using assms by (simp add: rnd_def Let_def not_le)
qed

text \<open>The index for a fraction: the product of the rounded fraction, rounded, and rounded to an integer.\<close>

definition rank :: "rat \<Rightarrow> nat \<Rightarrow> nat" where
  "rank q n = nat (round_half (rndq TYPE(32) (q * of_nat (n - 1))))"

lemma index_of_fraction:
  assumes "0 < n" "n \<le> 16777216" "0 < q" "q \<le> 1"
  shows "as_usize (f32_round ((Fin q :: f32) * (fl_of_nat n - lit 1))) = rank q n"
proof -
  have le: "q * of_nat (n - 1) \<le> of_nat (n - 1)" using assms by (simp add: mult_left_le_one_le)
  have r: "representable TYPE(32) (of_nat (n - 1))" using assms by (intro representable_nat) simp
  have "rndq TYPE(32) (q * of_nat (n - 1)) \<le> of_nat (n - 1)"
    using rndq_mono [OF le, of "TYPE(32)"] r by (simp add: representable_def)
  moreover have "(of_nat (n - 1) :: rat) < 2 powi emax TYPE(32)" using r by (simp add: representable_def)
  ultimately have "rndq TYPE(32) (q * of_nat (n - 1)) < 2 powi emax TYPE(32)" by linarith
  then have f: "rnd (q * of_nat (n - 1)) = (Fin (rndq TYPE(32) (q * of_nat (n - 1))) :: f32)"
    using assms(3) by (intro rnd_fin) simp_all
  show ?thesis
  proof (cases "n = 1")
    case True
    then show ?thesis using minus_one [of 1] assms
      by (simp add: times_fl_def signed_zero_def rank_def as_usize_round round_half_def)
  next
    case False
    have e: "(Fin q :: f32) * (fl_of_nat n - lit 1) = rnd (q * of_nat (n - 1))"
      using assms False by (simp add: minus_one times_fl_def Let_def)
    show ?thesis unfolding e f rank_def by (subst as_usize_round) simp_all
  qed
qed

lemma round_half_mono: "0 \<le> a \<Longrightarrow> a \<le> b \<Longrightarrow> round_half a \<le> round_half b"
  by (simp add: round_half_def floor_mono)

lemma rank_mono: "0 \<le> p \<Longrightarrow> p \<le> q \<Longrightarrow> rank p n \<le> rank q n"
  unfolding rank_def by (intro nat_mono round_half_mono rndq_nonneg rndq_mono mult_right_mono) simp_all

lemma rank_half:
  assumes "0 < n" "n \<le> 16777216" shows "rank (1 / 2) n = n div 2"
proof -
  have "representable TYPE(32) (of_int (int (n - 1)) / 2)" using assms by (intro representable_half_int) simp
  moreover have e: "1 / 2 * of_nat (n - 1) = (of_int (int (n - 1)) / 2 :: rat)" by simp
  ultimately have "rndq TYPE(32) (1 / 2 * of_nat (n - 1)) = of_int (int (n - 1)) / 2" by (simp only: representable_def e)
  then have "rank (1 / 2) n = nat (round_half (of_nat (n - 1) / 2))" by (simp only: rank_def of_int_of_nat_eq)
  also have "round_half (of_nat (n - 1) / 2) = \<lfloor>(of_nat n :: rat) / 2\<rfloor>"
    using assms by (simp add: round_half_def of_nat_diff field_simps add_divide_distrib)
  also have "\<dots> = int (n div 2)"
    by (simp add: floor_divide_of_nat_eq [of n 2, where 'a = rat, simplified])
  finally show ?thesis by simp
qed

lemma percentile_rank:
  assumes "xs \<noteq> []" "length xs \<le> 16777216" "pct div lit 100 = Fin q" "0 < q" "q \<le> 1"
  shows "percentile pct xs = fl_of_nat (unat (sort xs ! min (rank q (length xs)) (length xs - 1)))"
  using index_of_fraction [of "length xs" q] assms by (simp add: percentile_def Let_def)

lemma fractions:
  "(lit 50 :: f32) div lit 100 = Fin (1 / 2)"
  "\<exists>q. (lit 95 :: f32) div lit 100 = Fin q \<and> 1 / 2 \<le> q \<and> q \<le> 1"
proof -
  have l: "lit 50 = (Fin 50 :: f32)" "lit 95 = (Fin 95 :: f32)" "lit 100 = (Fin 100 :: f32)"
    using lit_nat [of 50, where 'f = 32] lit_nat [of 95, where 'f = 32] lit_nat [of 100, where 'f = 32] by simp_all
  have half: "representable TYPE(32) (1 / 2)" using representable_half_int [of 1, where 'f = 32] by simp
  have one: "representable TYPE(32) 1" using representable_nat [of 1, where 'f = 32] by simp
  show "(lit 50 :: f32) div lit 100 = Fin (1 / 2)"
    using rnd_representable [OF half] by (simp add: l divide_fl_def Let_def)
  have b: "1 / 2 \<le> rndq TYPE(32) (19 / 20)" "rndq TYPE(32) (19 / 20) \<le> 1"
    using rndq_mono [of "1 / 2" "19 / 20" "TYPE(32)"] rndq_mono [of "19 / 20" 1 "TYPE(32)"] half one
    by (simp_all add: representable_def)
  moreover have "(1 :: rat) < 2 powi emax TYPE(32)" using one by (simp add: representable_def)
  ultimately have "rnd (19 / 20) = (Fin (rndq TYPE(32) (19 / 20)) :: f32)" by (intro rnd_fin) linarith+
  then show "\<exists>q. (lit 95 :: f32) div lit 100 = Fin q \<and> 1 / 2 \<le> q \<and> q \<le> 1"
    using b by (simp add: l divide_fl_def Let_def)
qed

lemma ms_mono:
  assumes "a \<le> b" "b < 2 ^ 64"
  shows "(fl_of_nat a :: f64) div lit 1000 \<le> fl_of_nat b div lit 1000"
proof -
  have l: "lit 1000 = (Fin 1000 :: f64)" using lit_nat [of 1000, where 'f = 64] by simp
  have big: "representable TYPE(64) (2 ^ 64)"
    using representable_scaled [of 1 "TYPE(64)" 64] by (simp add: emin_def emax_def power_int_def)
  have ms: "(fl_of_nat n :: f64) div lit 1000 = rnd (rndq TYPE(64) (of_nat n) / 1000)" if "n < 2 ^ 64" for n
  proof -
    have "(of_nat n :: rat) \<le> 2 ^ 64" using that by (metis less_imp_le of_nat_le_iff of_nat_numeral of_nat_power)
    then have "rndq TYPE(64) (of_nat n) \<le> 2 ^ 64" using rndq_mono [of "of_nat n" "2 ^ 64" "TYPE(64)"] big
      by (simp add: representable_def)
    then have "rndq TYPE(64) (of_nat n) < 2 powi emax TYPE(64)" using big by (simp add: representable_def)
    then have "fl_of_nat n = (Fin (rndq TYPE(64) (of_nat n)) :: f64)" unfolding fl_of_nat_def by (intro rnd_fin) simp_all
    then show ?thesis using rndq_nonneg [of "of_nat n" "TYPE(64)"]
      by (auto simp: l divide_fl_def Let_def signed_zero_def)
  qed
  show ?thesis using assms
    by (simp only: ms) (auto intro!: rnd_mono divide_right_mono rndq_mono simp: ms)
qed

text \<open>C24: The figures of a stage are what they are called, for up to \<open>2 ^ 24\<close> samples: the 50th percentile is
  the middle sample (the upper one of two), the 95th one of the samples, and the 50th is at most the
  95th and the 95th at most the maximum, in spite of the float arithmetic that computes the index.\<close>

theorem latency_figures:
  assumes "length xs \<le> 16777216"
  shows "ss_p50_ms (stage_summary name xs)
      = (if xs = [] then Fin 0 else fl_of_nat (unat (sort xs ! (length xs div 2)))) div lit 1000
    \<and> ss_p95_ms (stage_summary name xs) \<in> (\<lambda>us. fl_of_nat (unat us) div lit 1000) ` set (0 # xs)
    \<and> ss_p50_ms (stage_summary name xs) \<le> ss_p95_ms (stage_summary name xs)
    \<and> ss_p95_ms (stage_summary name xs) \<le> ss_max_ms (stage_summary name xs)"
proof (cases "xs = []")
  case True
  then show ?thesis
    using ms_mono [of 0 0] by (auto simp: stage_summary_def percentile_def max_us_def fl_of_nat_def)
next
  case False
  let ?n = "length xs"
  obtain q where q: "(lit 95 :: f32) div lit 100 = Fin q" "1 / 2 \<le> q" "q \<le> 1" using fractions(2) by auto
  have pos: "0 < ?n" using False by simp
  have p50: "percentile (lit 50) xs = fl_of_nat (unat (sort xs ! (?n div 2)))"
    using percentile_rank [OF False assms fractions(1)] rank_half [OF pos assms] pos by (simp add: min_def) 
  let ?k = "min (rank q ?n) (?n - 1)"
  have p95: "percentile (lit 95) xs = fl_of_nat (unat (sort xs ! ?k))"
    using percentile_rank [OF False assms q(1) _ q(3)] q(2) by linarith
  have "?n div 2 \<le> ?k" using rank_mono [of "1 / 2" q ?n] rank_half [OF pos assms] q(2) pos by simp
  moreover have k: "?k < ?n" using pos by (simp add: min_less_iff_disj)
  ultimately have le: "sort xs ! (?n div 2) \<le> sort xs ! ?k" by (intro sorted_nth_mono) simp_all
  have m: "sort xs ! ?k \<in> set xs" using nth_mem [of ?k "sort xs"] k by simp
  then have mx: "sort xs ! ?k \<le> max_us xs" using False by (simp add: max_us_def)
  show ?thesis
    using False m le mx ms_mono [of "unat (sort xs ! (?n div 2))" "unat (sort xs ! ?k)"]
      ms_mono [of "unat (sort xs ! ?k)" "unat (max_us xs)"] unsigned_less [of "sort xs ! ?k"] unsigned_less [of "max_us xs"]
    by (auto simp: stage_summary_def p50 p95 word_le_nat_alt)
qed

theorem latency_figures_witness:
  "ss_p50_ms (stage_summary ''total'' [3, 1, 2]) = fl_of_nat 2 div lit 1000
    \<and> ss_p95_ms (stage_summary ''total'' [3, 1, 2]) \<le> ss_max_ms (stage_summary ''total'' [3, 1, 2])"
proof -
  have "sort [3, 1, 2 :: u64] = [1, 2, 3]" by code_simp
  then show ?thesis using latency_figures [of "[3, 1, 2]" "''total''"] by simp
qed

text \<open>A stage that was not measured is recorded as a sample of zero, which its figures count.\<close>

lemma unmeasured_counts:
  "mr_annotate (metrics_record c i 0 t mr) = mr_annotate mr @ [0]" by (simp add: metrics_record_def)

section \<open>Memory and temperatures\<close>

lemma split_lines_append: "newline \<notin> set l \<Longrightarrow> split_lines w (l @ s) = split_lines (w @ l) s"
  by (induction l arbitrary: w) auto

lemma split_lines_line: "newline \<notin> set l \<Longrightarrow> split_lines [] (l @ newline # s) = strip_cr l # split_lines [] s"
  by (simp add: split_lines_append)

lemma scan_skips:
  assumes "\<forall>l\<in>set pre. newline \<notin> set l \<and> \<not> prefix ''VmRSS:'' l"
  shows "scan_status (split_lines [] (concat (map (\<lambda>l. l @ [newline]) pre) @ s)) = scan_status (split_lines [] s)"
  using assms
proof (induction pre)
  case (Cons l pre)
  have "\<not> prefix ''VmRSS:'' (strip_cr l)"
    using Cons.prems prefix_order.trans [of "''VmRSS:''" "butlast l" l] prefixeq_butlast [of l] by (auto simp: strip_cr_def)
  then show ?case using Cons by (simp add: split_lines_line)
qed simp

lemma trim_inner:
  assumes "list_all is_white a" "list_all is_white b" "w \<noteq> []" "\<not> is_white (hd w)" "\<not> is_white (last w)"
  shows "trim (a @ w @ b) = w"
proof -
  have "dropWhile is_white (a @ w @ b) = w @ b"
    using assms by (subst dropWhile_append2) (auto simp: list_all_iff dropWhile_eq_self_iff)
  moreover have "dropWhile is_white (rev b @ rev w) = rev w"
    using assms by (subst dropWhile_append2) (auto simp: list_all_iff dropWhile_eq_self_iff hd_rev)
  ultimately show ?thesis by (simp add: trim_def)
qed

lemma digit_not_white: "is_digit c \<Longrightarrow> \<not> is_white c"
  by (auto simp: is_digit_def is_white_def)

lemma dec_ends: "is_digit (hd (dec n))" "is_digit (last (dec n))"
  by (auto intro!: dec_digits hd_in_set last_in_set)

text \<open>The memory probe reads back the number the kernel printed: in a status file whose line \<open>VmRSS:\<close> has
  blanks, a number below \<open>2 ^ 64\<close> in decimal and the unit, after any lines that do not start so and before
  any text, the resident set is that number.\<close>

lemma rss_round_trip:
  assumes "\<forall>l\<in>set pre. newline \<notin> set l \<and> \<not> prefix ''VmRSS:'' l" "list_all is_white blank" "newline \<notin> set blank"
    "n < 2 ^ 64" "pf_read fs ''/proc/self/status'' =
       Inr (concat (map (\<lambda>l. l @ [newline]) pre) @ ''VmRSS:'' @ blank @ dec n @ '' kB'' @ newline # rest)"
  shows "rss_kb fs = Inr (Some (of_nat n))"
proof -
  let ?line = "''VmRSS:'' @ blank @ dec n @ '' kB''"
  have nl: "newline \<notin> set (dec n)" using dec_digits [of newline n] by (auto simp: is_digit_def newline_def)
  have "newline \<notin> set ?line" using nl assms(3) by (auto simp: newline_def)
  then have "split_lines [] (?line @ newline # rest) = strip_cr ?line # split_lines [] rest"
    by (rule split_lines_line)
  moreover have "strip_cr ?line = ?line" by (simp add: strip_cr_def)
  ultimately have "rss_kb fs = scan_status (?line # split_lines [] rest)"
    using scan_skips [OF assms(1), of "?line @ newline # rest"] by (simp add: rss_kb_def assms(5))
  moreover have "trim (blank @ dec n @ '' kB'') = dec n @ '' kB''"
    using trim_inner [OF assms(2), of "[]" "dec n @ '' kB''"] dec_ends(1) [of n] digit_not_white by (simp add: is_white_def)
  moreover have "trim_end_kb (dec n @ '' kB'') = dec n @ '' ''"
    by (simp add: trim_end_kb.simps [of "dec n @ '' kB''"] trim_end_kb.simps [of "dec n @ '' ''"] suffix_def)
  moreover have "trim (dec n @ '' '') = dec n"
    using trim_inner [of "[]" "'' ''" "dec n"] dec_ends [of n] digit_not_white by (simp add: is_white_def)
  ultimately show ?thesis by (simp add: parse_dec [OF assms(4)])
qed

definition sample_fs :: probe_fs where
  "sample_fs = \<lparr>pf_exists = (\<lambda>_. False),
     pf_read = (\<lambda>_. Inr (concat (map (\<lambda>l. l @ [newline]) [''Name:   detector'', ''VmSize:  9000 kB''])
       @ ''VmRSS:'' @ ''    '' @ dec 5512 @ '' kB'' @ newline # ''Threads: 9'')),
     pf_dir = (\<lambda>_. Inl ''none'')\<rparr>"

lemma rss_round_trip_witness: "rss_kb sample_fs = Inr (Some 5512)"
  using rss_round_trip [of "[''Name:   detector'', ''VmSize:  9000 kB'']" "''    ''" 5512 sample_fs "''Threads: 9''"]
  by (simp add: sample_fs_def newline_def is_white_def)

text \<open>A zone is found by its whole label, not by a part of it; without one the CPU temperature is that of
  zone 0, whatever zone 0 measures, and the NPU has none.\<close>

lemma whole_label:
  "zone_matches fs target i \<Longrightarrow> pf_read fs (path_join (zone_path i) ''type'') = Inr t \<Longrightarrow> length (trim t) = length target"
  by (auto simp: zone_matches_def eq_ignore_case_def dest: map_eq_imp_length_eq)

lemma no_label:
  assumes "\<forall>i<16. \<not> zone_matches fs target i" "pf_exists fs thermal_base"
    "pf_exists fs (path_join thermal_base ''thermal_zone0/temp'')"
  shows "thermal_zone_path_by_type fs target
    = (if eq_ignore_case target ''cpu-thermal'' \<or> eq_ignore_case target ''soc-thermal''
       then Some (path_join thermal_base ''thermal_zone0/temp'') else None)"
proof -
  have "List.find (zone_matches fs target) [0..<16] = None" using assms(1) by (simp add: find_None_iff)
  then show ?thesis using assms(2,3) by (simp add: thermal_zone_path_by_type_def)
qed

text \<open>A failed probe is an absent value of the sample; the sample itself is always there.\<close>

lemma failed_probe_absent: "rss_kb fs = Inl e \<Longrightarrow> sy_rss_kb (capture_sample pf now fs) = None"
  by (simp add: capture_sample_def ok_flatten_def)

end
