(* ===== verification/Cli_Main.thy ===== *)
theory Cli_Main
  imports Console Anti_Loop "HOL-Library.Sublist"
begin

text \<open>
  \<open>crates/cli/src/main.rs\<close> with \<open>args.rs\<close>: the choice of the mode, the smoke test on mocks, the start of
  the console and the exit codes of the scenario command.  Parsing the arguments is clap's, third-party
  code; tracing and what is printed are not modelled.
\<close>

section \<open>Arguments\<close>

datatype cli_command =
    ScenarioCommand "string option" "string option"
  | BusMonCommand string nat
  | ReplBusCommand
  | ConfigSvcCommand
  | ConfigGetCommand

record cli_args =
  arg_config :: "string option"
  arg_mock_fc :: bool
  arg_mock_all :: bool
  arg_health_check :: bool
  arg_repl :: bool
  arg_verbose :: u8
  arg_command :: "cli_command option"

datatype run_mode =
    ModeFull | ModeMockFc | ModeMockAll | ModeHealthCheck | ModeRepl | ModeScenario
  | ModeBusMon | ModeReplBus | ModeConfigSvc | ModeConfigGet

definition cli_mode :: "cli_args \<Rightarrow> run_mode" where
  "cli_mode args =
    (case arg_command args of
       Some (BusMonCommand _ _) \<Rightarrow> ModeBusMon
     | Some ReplBusCommand \<Rightarrow> ModeReplBus
     | Some ConfigSvcCommand \<Rightarrow> ModeConfigSvc
     | Some ConfigGetCommand \<Rightarrow> ModeConfigGet
     | Some _ \<Rightarrow> ModeScenario
     | None \<Rightarrow>
         if arg_repl args then ModeRepl else if arg_health_check args then ModeHealthCheck
         else if arg_mock_all args then ModeMockAll else if arg_mock_fc args then ModeMockFc else ModeFull)"

section \<open>The smoke test\<close>

datatype main_error = MainFc fc_error | MainTransition state_transition_error

text \<open>The first steps of the smoke test and of the console: a mock that is connected, armed and guided, and
  a state machine that is scanning.\<close>

definition guided_mock :: "clocks \<Rightarrow> (main_error, mock_fc_state) result" where
  "guided_mock c =
    (case mock_connect c mock_new of (Inl e, _) \<Rightarrow> Inl (MainFc e) | (Inr _, fc1) \<Rightarrow>
      (case mock_arm fc1 of (Inl e, _) \<Rightarrow> Inl (MainFc e) | (Inr _, fc2) \<Rightarrow>
        (case mock_set_mode Guided fc2 of (Inl e, _) \<Rightarrow> Inl (MainFc e) | (Inr _, fc3) \<Rightarrow> Inr fc3)))"

definition scanning_machine :: "(main_error, state_machine) result" where
  "scanning_machine =
    (case try_transition (sm_new Idle) Armed of (Inl e, _) \<Rightarrow> Inl (MainTransition e) | (Inr _, sm1) \<Rightarrow>
      (case try_transition sm1 Scanning of (Inl e, _) \<Rightarrow> Inl (MainTransition e) | (Inr _, sm2) \<Rightarrow> Inr sm2))"

definition watched :: "utc \<Rightarrow> watchdog_id \<Rightarrow> nat \<Rightarrow> watchdog_action \<Rightarrow> registry \<Rightarrow> registry" where
  "watched now i ms action r = register now i \<lparr>wd_timeout = from_millis ms, on_expiry = action\<rparr> r"

record smoke =
  sk_fc :: mock_fc_state
  sk_guard :: anti_loop_state
  sk_watchdogs :: registry

record cycle_clocks =
  cy_utc :: utc
  cy_attitude :: instant
  cy_generated :: instant
  cy_process :: instant
  cy_oscillation :: instant

definition smoke_cycle ::
  "commander_config \<Rightarrow> nat \<Rightarrow> cycle_clocks \<Rightarrow> smoke \<Rightarrow> (main_error, smoke) result" where
  "smoke_cycle cfg i k sk =
    (let wd = feed (cy_utc k) VideoLoop (sk_watchdogs sk);
         fc = simulate_attitude (cy_attitude k)
           (attitude_default \<lparr>att_yaw := fl_of_nat i * lit (1 / 10)\<rparr>) (sk_fc sk);
         cmd = \<lparr>yaw_rate_dps = lit 5, pitch_rate_dps = Fin 0, offset_x = lit (1 / 5), offset_y = lit (1 / 10),
           generated_at = cy_generated k\<rparr>
     in case process cfg (cy_process k) (cy_oscillation k) (sk_guard sk) cmd of
          (Allow _, g) \<Rightarrow>
            (case mock_set_position \<lparr>pt_north = lit 1, pt_east = Fin 0, pt_down = Fin 0,
                pt_yaw = lit (1 / 10) * fl_of_nat i\<rparr> fc of
               (Inl e, _) \<Rightarrow> Inl (MainFc e)
             | (Inr _, fc') \<Rightarrow> Inr \<lparr>sk_fc = fc', sk_guard = g, sk_watchdogs = wd\<rparr>)
        | (_, g) \<Rightarrow> Inr \<lparr>sk_fc = fc, sk_guard = g, sk_watchdogs = wd\<rparr>)"

fun smoke_cycles ::
  "commander_config \<Rightarrow> (nat \<Rightarrow> cycle_clocks) \<Rightarrow> nat list \<Rightarrow> smoke \<Rightarrow> (main_error, smoke) result" where
  "smoke_cycles cfg ks [] sk = Inr sk"
| "smoke_cycles cfg ks (i # inds) sk =
    (case smoke_cycle cfg i (ks i) sk of Inl e \<Rightarrow> Inl e | Inr sk' \<Rightarrow> smoke_cycles cfg ks inds sk')"

definition run_mock_all ::
  "commander_config \<Rightarrow> fc_config \<Rightarrow> clocks \<Rightarrow> utc \<times> utc \<Rightarrow> (nat \<Rightarrow> cycle_clocks)
     \<Rightarrow> (main_error, state_machine \<times> smoke) result" where
  "run_mock_all cfg fcc c ts ks =
    (case guided_mock c of Inl e \<Rightarrow> Inl e | Inr fc \<Rightarrow>
      (case scanning_machine of Inl e \<Rightarrow> Inl e | Inr sm \<Rightarrow>
        (let wd = watched (snd ts) FcHeartbeat (fcc_heartbeat_timeout_ms fcc) WdAbort
               (watched (fst ts) VideoLoop (video_loop_wdt_ms cfg) WdDegrade registry_new)
         in case smoke_cycles cfg ks [0..<5] \<lparr>sk_fc = fc, sk_guard = anti_loop_new, sk_watchdogs = wd\<rparr> of
              Inl e \<Rightarrow> Inl e
            | Inr sk \<Rightarrow>
                (case mock_disarm (sk_fc sk) of (Inl e, _) \<Rightarrow> Inl (MainFc e) | (Inr _, fc1) \<Rightarrow>
                  (case mock_disconnect fc1 of (Inl e, _) \<Rightarrow> Inl (MainFc e) | (Inr _, fc2) \<Rightarrow>
                    Inr (sm, sk \<lparr>sk_fc := fc2\<rparr>))))))"

section \<open>The console and the scenario command\<close>

definition repl_start ::
  "commander_config \<Rightarrow> fc_config \<Rightarrow> clocks \<Rightarrow> (watchdog_id \<Rightarrow> utc) \<Rightarrow> (main_error, console) result" where
  "repl_start cfg fcc c ts =
    (case guided_mock c of Inl e \<Rightarrow> Inl e | Inr fc \<Rightarrow>
      (case scanning_machine of Inl e \<Rightarrow> Inl e | Inr sm \<Rightarrow>
        Inr \<lparr>cn_state = sm, cn_fc = fc, cn_watchdogs =
          watched (ts FcHeartbeat) FcHeartbeat (fcc_heartbeat_timeout_ms fcc) WdAbort
          (watched (ts CommandLoop) CommandLoop (command_loop_wdt_ms cfg) WdAbort
          (watched (ts TrackingLoop) TrackingLoop (tracking_loop_wdt_ms cfg) WdDegrade
          (watched (ts InferenceLoop) InferenceLoop (inference_loop_wdt_ms cfg) WdDegrade
          (watched (ts VideoLoop) VideoLoop (video_loop_wdt_ms cfg) WdDegrade registry_new))))\<rparr>))"

definition background_feed :: "(watchdog_id \<Rightarrow> utc) \<Rightarrow> registry \<Rightarrow> registry" where
  "background_feed ts r =
     feed (ts CommandLoop) CommandLoop (feed (ts TrackingLoop) TrackingLoop
       (feed (ts InferenceLoop) InferenceLoop (feed (ts VideoLoop) VideoLoop r)))"

text \<open>\<open>Failed\<close> is an error that \<open>main\<close> returns.\<close>

datatype cli_exit = ExitOk | ExitCode nat | Failed run_error

text \<open>A panic of a run is \<open>None\<close>.\<close>

definition run_scenario_command ::
  "string option \<times> string option \<Rightarrow> (string \<Rightarrow> string list option)
     \<Rightarrow> (string \<Rightarrow> (run_error, scenario_result) result option) \<Rightarrow> cli_exit option" where
  "run_scenario_command args entries run =
    (case args of
       (Some path, None) \<Rightarrow>
         map_option (\<lambda>r. case r of Inl e \<Rightarrow> Failed e | Inr res \<Rightarrow> if sr_passed res then ExitOk else ExitCode 1) (run path)
     | (None, Some dir) \<Rightarrow>
         map_option (\<lambda>rs. if \<exists>res\<in>set rs. \<not> sr_passed res then ExitCode 1 else ExitOk) (run_all_scenarios (entries dir) run)
     | _ \<Rightarrow> Some (ExitCode 2))"

section \<open>What the smoke test does\<close>

definition smoke_target :: "nat \<Rightarrow> position_target_ned" where
  "smoke_target i = \<lparr>pt_north = lit 1, pt_east = Fin 0, pt_down = Fin 0, pt_yaw = lit (1 / 10) * fl_of_nat i\<rparr>"

text \<open>A guard that has only seen commands of one sign and is not frozen.\<close>

definition one_sided :: "bool \<Rightarrow> anti_loop_state \<Rightarrow> bool" where
  "one_sided s g \<longleftrightarrow> freeze_until g = None \<and> set (yaw_sign_history g) \<subseteq> {s}"

lemma set_push: "set (push_history n s h) \<subseteq> insert s (set h)"
proof -
  have "set (tl xs) \<subseteq> set xs" for xs :: "bool list" by (cases xs) auto
  from this [of "h @ [s]"] show ?thesis by (auto simp: push_history_def Let_def)
qed

lemma process_allows:
  assumes "one_sided (Fin 0 < yaw_rate_dps (clip_command cfg cmd)) g" "\<not> \<bar>offset_x cmd\<bar> < deadband_fraction cfg"
  shows "\<exists>g'. process cfg now osc g cmd = (Allow (clip_command cfg cmd), g')
    \<and> one_sided (Fin 0 < yaw_rate_dps (clip_command cfg cmd)) g'"
proof -
  have "yaw_sign_history g \<noteq> [] \<Longrightarrow> last (yaw_sign_history g) = (Fin 0 < yaw_rate_dps (clip_command cfg cmd))"
    using assms(1) last_in_set [of "yaw_sign_history g"] unfolding one_sided_def by blast
  then have "\<not> oscillating cfg (yaw_sign_history g) (yaw_rate_dps (clip_command cfg cmd))"
    by (cases "yaw_sign_history g = []") (simp_all add: oscillating_def Let_def)
  then show ?thesis
    using assms set_push by (fastforce simp: process_def process_thawed_def one_sided_def Let_def)
qed

lemma clip_ignores_time:
  "yaw_rate_dps (clip_command cfg \<lparr>yaw_rate_dps = a, pitch_rate_dps = b, offset_x = x, offset_y = y, generated_at = t\<rparr>)
    = clip_to a (max_yaw_rate_dps cfg)"
  by (simp add: clip_command_def)

lemma smoke_cycle_sends:
  assumes "\<not> \<bar>lit (1 / 5)\<bar> < deadband_fraction cfg" "one_sided (Fin 0 < clip_to (lit 5) (max_yaw_rate_dps cfg)) (sk_guard sk)"
    "mf_connected (sk_fc sk)"
  shows "\<exists>sk'. smoke_cycle cfg i k sk = Inr sk' \<and> mf_connected (sk_fc sk')
    \<and> one_sided (Fin 0 < clip_to (lit 5) (max_yaw_rate_dps cfg)) (sk_guard sk')
    \<and> mf_commands (sk_fc sk') = mf_commands (sk_fc sk) @ [SetPositionTargetLocalNed (smoke_target i)]"
proof -
  let ?cmd = "\<lparr>yaw_rate_dps = lit 5, pitch_rate_dps = Fin 0, offset_x = lit (1 / 5), offset_y = lit (1 / 10),
      generated_at = cy_generated k\<rparr> :: correction_command"
  obtain g' where "process cfg (cy_process k) (cy_oscillation k) (sk_guard sk) ?cmd = (Allow (clip_command cfg ?cmd), g')"
    "one_sided (Fin 0 < clip_to (lit 5) (max_yaw_rate_dps cfg)) g'"
    using process_allows [of cfg ?cmd "sk_guard sk" "cy_process k" "cy_oscillation k"] assms(1,2) unfolding clip_ignores_time by auto
  then show ?thesis using assms(3)
    by (simp add: smoke_cycle_def mock_set_position_def simulate_attitude_def smoke_target_def Let_def)
qed

lemma smoke_cycles_send:
  assumes "\<not> \<bar>lit (1 / 5)\<bar> < deadband_fraction cfg" "one_sided (Fin 0 < clip_to (lit 5) (max_yaw_rate_dps cfg)) (sk_guard sk)"
    "mf_connected (sk_fc sk)"
  shows "\<exists>sk'. smoke_cycles cfg ks inds sk = Inr sk' \<and> mf_connected (sk_fc sk')
    \<and> mf_commands (sk_fc sk') = mf_commands (sk_fc sk) @ map (\<lambda>i. SetPositionTargetLocalNed (smoke_target i)) inds"
  using assms(2,3)
proof (induction inds arbitrary: sk)
  case (Cons i inds)
  obtain sk1 where "smoke_cycle cfg i (ks i) sk = Inr sk1" "mf_connected (sk_fc sk1)"
    "one_sided (Fin 0 < clip_to (lit 5) (max_yaw_rate_dps cfg)) (sk_guard sk1)"
    "mf_commands (sk_fc sk1) = mf_commands (sk_fc sk) @ [SetPositionTargetLocalNed (smoke_target i)]"
    using smoke_cycle_sends [OF assms(1) Cons.prems] by blast
  with Cons.IH [of sk1] show ?case by auto
qed simp

lemma guided_mock_eq:
  "guided_mock c = Inr (mock_new \<lparr>mf_connected := True, mf_last_heartbeat := Some (mono c), mf_mode := Guided,
     mf_armed := True, mf_commands := [CmdArm, SetMode Guided]\<rparr>)"
  by (simp add: guided_mock_def mock_connect_def mock_arm_def mock_set_mode_def mock_new_def)

lemma scanning_machine_eq: "\<exists>sm. scanning_machine = Inr sm \<and> sm_state sm = Scanning"
  by (simp add: scanning_machine_def try_transition_def sm_new_def)

text \<open>The smoke test on mocks always ends well, whatever the clocks show: with a deadband of at most a fifth
  of the picture the guard lets all five corrections through, and the mock receives an arming, the mode,
  the five targets and a disarming, in this order; it ends disarmed and disconnected, with the state
  machine still scanning.\<close>

lemma smoke_test_commands:
  assumes "\<not> \<bar>lit (1 / 5)\<bar> < deadband_fraction cfg"
  shows "\<exists>sm sk. run_mock_all cfg fcc c ts ks = Inr (sm, sk) \<and> sm_state sm = Scanning
    \<and> \<not> mf_armed (sk_fc sk) \<and> \<not> mf_connected (sk_fc sk)
    \<and> mf_commands (sk_fc sk) =
        [CmdArm, SetMode Guided] @ map (\<lambda>i. SetPositionTargetLocalNed (smoke_target i)) [0..<5] @ [CmdDisarm]"
proof -
  obtain sm where sm: "scanning_machine = Inr sm" "sm_state sm = Scanning" using scanning_machine_eq by blast
  obtain fc where fc: "guided_mock c = Inr fc" "mf_connected fc" "mf_commands fc = [CmdArm, SetMode Guided]"
    by (simp add: guided_mock_eq)
  let ?wd = "watched (snd ts) FcHeartbeat (fcc_heartbeat_timeout_ms fcc) WdAbort
    (watched (fst ts) VideoLoop (video_loop_wdt_ms cfg) WdDegrade registry_new)"
  let ?sk = "\<lparr>sk_fc = fc, sk_guard = anti_loop_new, sk_watchdogs = ?wd\<rparr>"
  have "one_sided s anti_loop_new" for s by (simp add: one_sided_def anti_loop_new_def)
  then obtain sk where run: "smoke_cycles cfg ks [0..<5] ?sk = Inr sk" "mf_connected (sk_fc sk)"
    "mf_commands (sk_fc sk) = mf_commands fc @ map (\<lambda>i. SetPositionTargetLocalNed (smoke_target i)) [0..<5]"
    using smoke_cycles_send [OF assms, of ?sk ks "[0..<5]"] fc(2) by auto
  let ?fc = "sk_fc sk \<lparr>mf_armed := False, mf_commands := mf_commands (sk_fc sk) @ [CmdDisarm], mf_connected := False\<rparr>"
  have "run_mock_all cfg fcc c ts ks = Inr (sm, sk \<lparr>sk_fc := ?fc\<rparr>)"
    unfolding run_mock_all_def fc(1) sm(1) Let_def sum.case run(1)
    using run(2) by (simp add: mock_disarm_def mock_disconnect_def)
  then show ?thesis using sm(2) run(3) fc(3) by (simp del: upt_Suc)
qed

lemma default_deadband: "\<not> \<bar>lit (1 / 5)\<bar> < deadband_fraction commander_config_default"
proof -
  have "lit (5 / 100) \<le> (lit (1 / 5) :: f32)" unfolding lit_def by (rule rnd_mono) simp
  moreover have "\<bar>lit (1 / 5) :: f32\<bar> = lit (1 / 5)"
  proof -
    have "Fin 0 \<le> (lit (1 / 5) :: f32)" unfolding lit_def using rnd_mono [of 0 "1 / 5", where 'f = 32] by simp
    then show ?thesis by (cases "lit (1 / 5) :: f32") (auto simp: abs_fl_def lit_def rnd_def Let_def split: if_splits)
  qed
  ultimately show ?thesis by (simp add: commander_config_default_def fl_not_less lit_def)
qed

definition still_clocks :: "nat \<Rightarrow> cycle_clocks" where
  "still_clocks i = \<lparr>cy_utc = 0, cy_attitude = 0, cy_generated = 0, cy_process = 0, cy_oscillation = 0\<rparr>"

lemma smoke_test_commands_witness:
  "\<exists>sm sk. run_mock_all commander_config_default fc_config_default \<lparr>mono = 0, wall = 0\<rparr> (0, 0) still_clocks = Inr (sm, sk)
    \<and> length (mf_commands (sk_fc sk)) = 8"
proof -
  obtain sm sk where r: "run_mock_all commander_config_default fc_config_default \<lparr>mono = 0, wall = 0\<rparr> (0, 0) still_clocks = Inr (sm, sk)"
    "mf_commands (sk_fc sk) = [CmdArm, SetMode Guided] @ map (\<lambda>i. SetPositionTargetLocalNed (smoke_target i)) [0..<5] @ [CmdDisarm]"
    using smoke_test_commands [OF default_deadband] by blast
  have "length (mf_commands (sk_fc sk)) = 8" unfolding r(2) by simp
  then show ?thesis using r(1) by blast
qed

section \<open>The console and the exit codes\<close>

text \<open>The console starts scanning, with an armed mock in guided mode, in one of the states it never leaves.\<close>

lemma repl_starts:
  "\<exists>cn. repl_start cfg fcc c ts = Inr cn \<and> console_state cn = Scanning \<and> console_state cn \<in> console_states
    \<and> mf_armed (cn_fc cn) \<and> mf_mode (cn_fc cn) = Guided"
proof -
  obtain sm where sm: "scanning_machine = Inr sm" "sm_state sm = Scanning" using scanning_machine_eq by blast
  show ?thesis unfolding repl_start_def guided_mock_eq sm(1) sum.case using sm(2) by (simp add: console_states_def)
qed

text \<open>C25: The console starts in Scanning, and whatever the operator types it is only ever in five of the nine
  states: Idle, Armed, Scanning, Tracking and Abort.  Once it is in Abort it stays there until a line
  starts with \<open>reset\<close> or \<open>disarm\<close>, interruptions, errors and unknown commands included.\<close>

theorem console_run_states:
  assumes "repl_start cfg fcc c ts = Inr start"
  shows "console_state start = Scanning
    \<and> console_state (snd (run_repl pf inputs start)) \<in> {Idle, Armed, Scanning, Tracking, Abort}
    \<and> (fst (run_repl pf inputs start) = StillReading \<and> console_state (snd (run_repl pf inputs start)) = Abort
          \<and> list_all keeps_abort later
        \<longrightarrow> console_state (snd (run_repl pf (inputs @ later) start)) = Abort)"
proof -
  have s: "console_state start = Scanning" "console_state start \<in> console_states"
    using repl_starts [of cfg fcc c ts] assms by auto
  have r: "console_state (snd (run_repl pf inputs start)) \<in> console_states" using run_states [OF s(2)] by blast
  then show ?thesis using s(1) run_states [OF r, of pf later] by (auto simp: console_states_def run_repl_append)
qed

theorem console_run_states_witness:
  "\<exists>start. repl_start commander_config_default fc_config_default \<lparr>mono = 0, wall = 0\<rparr> (\<lambda>_. 0) = Inr start
    \<and> console_state (snd (run_repl (\<lambda>_. None) ([Line ''abort'' 0 0] @ [Line ''scan'' 0 0, Interrupted]) start)) = Abort"
proof -
  obtain start where start: "repl_start commander_config_default fc_config_default \<lparr>mono = 0, wall = 0\<rparr> (\<lambda>_. 0) = Inr start"
    using repl_starts by blast
  have w: "split_whitespace ''abort'' = [''abort'']" "trim ''abort'' = ''abort''"
    "split_whitespace ''scan'' = [''scan'']" "trim ''scan'' = ''scan''"
    by (simp_all add: split_whitespace_def trim_def is_white_def)
  have "repl_command (\<lambda>_. None) 0 0 ''abort'' start = do_abort start" by (simp add: repl_command_def w)
  then have "fst (run_repl (\<lambda>_. None) [Line ''abort'' 0 0] start) = StillReading"
    "console_state (snd (run_repl (\<lambda>_. None) [Line ''abort'' 0 0] start)) = Abort"
    by (simp_all add: w do_states(6))
  moreover have "list_all keeps_abort [Line ''scan'' 0 0, Interrupted]" by (simp add: w first_word_def)
  ultimately have "console_state (snd (run_repl (\<lambda>_. None) ([Line ''abort'' 0 0] @ [Line ''scan'' 0 0, Interrupted]) start)) = Abort"
    using console_run_states [OF start, of "\<lambda>_. None" "[Line ''abort'' 0 0]" "[Line ''scan'' 0 0, Interrupted]"] by blast
  then show ?thesis using start by blast
qed

text \<open>The task in the background feeds every watchdog but that of the heartbeat.\<close>

lemma background_misses_heartbeat: "background_feed ts r FcHeartbeat = r FcHeartbeat"
  by (simp add: background_feed_def feed_def split: option.split)

text \<open>A directory that cannot be read, or holds no script, is a success.\<close>

lemma unreadable_directory_succeeds:
  "entries dir = None \<Longrightarrow> run_scenario_command (None, Some dir) entries run = Some ExitOk"
  by (simp add: run_scenario_command_def run_all_scenarios_def list_dir_def)

text \<open>A script that passed is reported as a success, any other as a failure.\<close>

lemma one_script_exit:
  "run path = Some r \<Longrightarrow> run_scenario_command (Some path, None) entries run = Some ExitOk
     \<longleftrightarrow> (\<exists>res. r = Inr res \<and> sr_passed res)"
  by (auto simp: run_scenario_command_def split: sum.splits)

end
