(* ===== verification/Spec2Isabelle.thy ===== *)
theory Spec2Isabelle
  imports Pid Safety Commander_Properties Bus_Runner Shm_Properties Nms Tracker_Component Convert
    Mavlink_Commander Fc_Bridge Ota Health Yolo Detector_Bridge Cpu_Onnx
    Recorder_Properties Scenario_Properties V4l2 Bus_Console Telemetry Cli_Main
begin

text \<open>
  Verification library of the auto-targeting stack (\<open>src/auto-targeting/crates\<close>).

  \<^bold>\<open>The program.\<close>  A camera process publishes frames into a ring in shared memory; a detector reads
  them, runs a YOLO network and publishes detections on a message bus; the tracker turns
  detections into tracks; the commander follows one track and sends corrections to the flight
  controller at most ten times a second; the bridge publishes the controller's telemetry and
  executes commands of the bus.  The parts are separate processes that meet in the ring and on the
  bus; the flight controller is behind a trait with a mock and a MAVLink implementation.

  \<^bold>\<open>Conventions\<close> (\<open>Prelude\<close>, \<open>Floats\<close>, \<open>Common_Types\<close>).  Structs are records, enums datatypes,
  results sums with the error on the left, \<open>None\<close> a panic.  Machine integers are words where the
  code wraps, checks or compares them; counters of loops and lengths are natural numbers.  Floats
  are IEEE 754 values with round to nearest even: NaN, infinities, two zeros, rationals.  A clock
  reading is an argument of the operation that reads it (nanoseconds), and so is whatever a
  third-party library or the kernel returns: what the bus delivers, an iteration order of a hash map,
  the JSON accessors, the outcome of a file operation or of an ioctl, a JPEG decoder, the connection of
  the MAVLink crate.

  \<^bold>\<open>Theories and sources.\<close>
  \<^item> \<open>State_Machine\<close>, \<open>Rate_Limiter\<close>, \<open>Watchdogs\<close>, \<open>Pid\<close>, \<open>Anti_Loop\<close>, \<open>Transform\<close>, \<open>Safety\<close>: the files of
    these names in \<open>commander/src\<close> and \<open>fc-adapter/src/rate_limiter.rs\<close>, operation by operation.
  \<^item> \<open>Fc_Adapter\<close>: the trait of \<open>fc-adapter/src/traits.rs\<close> as a record of operations, the mock of
    \<open>mock.rs\<close>, and the locale \<open>fc_contract\<close>, what a client may rely on: a call that succeeds has sent
    its own command, a call that fails none.
  \<^item> \<open>Commander\<close> is \<open>commander/src/commander.rs\<close>; \<open>Commander_Runs\<close>, \<open>Commander_Safety\<close> and
    \<open>Commander_Rate\<close> hold the invariant of its runs, what each operation may send and when, proved
    in \<open>fc_contract\<close>; \<open>Commander_Properties\<close> states the results for every adapter.
  \<^item> \<open>Mavlink_Core\<close>: \<open>fc-adapter/src/mavlink_core.rs\<close>, its wrappers and the factory.  \<open>Mavlink_Commander\<close>
    composes it with the commander: an invariant each trait call keeps is one of every run (locale
    \<open>fc_invariant\<close>); a log of accepted commands makes any adapter meet \<open>fc_contract\<close>, and what an
    autopilot reads off an honest link by the MAVLink definitions (\<open>vehicle_reads\<close>, which knows nothing of the
    adapter's encoding) is that log.
  \<^item> \<open>Event_Bus\<close>: the messages and topics of \<open>event-bus/src/lib.rs\<close>.  \<open>Bus_Runner\<close>:
    \<open>commander/src/bus_runner.rs\<close>, one tick as a composition of commander operations, so that the
    results on runs carry over.  \<open>Fc_Bridge\<close>: \<open>fc-bridge/src/lib.rs\<close>.
  \<^item> \<open>Shm_Layout\<close>, \<open>Shm_Ring\<close>: \<open>shmem-buffer/src/layout.rs\<close> and \<open>ring.rs\<close> on a memory of slots.
    \<open>Shm_Refine\<close> refines the sequential operations to a history of frames; \<open>Shm_Protocol\<close> and
    \<open>Shm_Properties\<close> interleave the atomic steps of one producer and any number of readers.
  \<^item> \<open>Target_Tracker\<close>, \<open>Multi_Tracker\<close>, \<open>Multi_Tracker_Properties\<close>, \<open>Tracker_Component\<close>: the crates
    \<open>target-tracker\<close> and \<open>tracker\<close>.  \<open>Hungarian\<close> is \<open>hungarian.rs\<close> in 64-bit floats;
    \<open>Hungarian_Correct\<close>, \<open>Hungarian_Optimal\<close> and \<open>Hungarian_Solve\<close> prove that it ends with an optimal
    assignment, and \<open>Overlap\<close> that costs from boxes meet its hypothesis.
  \<^item> \<open>Suppression\<close> holds the loops of greedy suppression with their reference definition, \<open>Nms\<close> is
    \<open>cv-inference/src/nms.rs\<close>, \<open>Yolo\<close> is \<open>yolov8/src/lib.rs\<close>, \<open>Convert\<close> is
    \<open>video-capture/src/convert.rs\<close>.  \<open>Letterbox\<close> analyses the float geometry of \<open>Yolo\<close>.
  \<^item> \<open>Backend\<close>, \<open>Bridge_Client\<close>, \<open>Cpu_Onnx\<close>: \<open>backend.rs\<close>, \<open>bridge_client.rs\<close> and \<open>cpu_onnx.rs\<close> of
    \<open>cv-inference/src\<close>; the locale \<open>inference_backend\<close> is what the detector relies on.  \<open>Base64\<close> is
    the client's encoder with the decoder of the C++ process \<open>rknn-bridge\<close>, \<open>Bridge_Server\<close> that
    process's framing, dispatch and search in the request (\<open>Text\<close> holds the strings and bytes of the
    standard libraries), \<open>Bridge_Init\<close> its parser of \<open>init\<close> with the decimal numbers, the opening of the
    segment and its state over the messages of a connection, \<open>Bridge_Session\<close> the client on a stream of
    bytes.
  \<^item> \<open>Detector\<close> is \<open>detector/src/lib.rs\<close>; \<open>Detector_Properties\<close> rests on the refinement of the ring,
    \<open>Detector_Bridge\<close> composes detector, client and bridge from the handshake on.
  \<^item> \<open>Visualizer\<close> is \<open>cv-visualizer/src/lib.rs\<close> over a record of the drawing operations; \<open>Recorder\<close> is
    \<open>video-recorder/src/lib.rs\<close>, and \<open>Recorder_Properties\<close> follows its rounds on the history of the ring.
  \<^item> \<open>Scenario\<close> is \<open>common/src/scenario.rs\<close> with \<open>cli/src/scenario_runner.rs\<close>; \<open>Scenario_Properties\<close> shows
    that a script is a run of the commander without resets, so that the results on runs apply.
  \<^item> \<open>Replay\<close>, \<open>Synthetic\<close> and \<open>V4l2\<close> are the sources of \<open>video-capture/src\<close>: recordings played back, test
    patterns, and the cameras (\<open>v4l2_direct.rs\<close>, \<open>v4l2_real.rs\<close>, \<open>v4l2_stub.rs\<close>), whose loops meet the locale
    \<open>capture_source\<close>.  \<open>Segments\<close> is \<open>shmem-buffer/src/shm.rs\<close>, with a log of what it takes and releases.
  \<^item> \<open>Console\<close>, \<open>Bus_Console\<close> and \<open>Cli_Main\<close> are \<open>repl.rs\<close>, \<open>bus_console.rs\<close> and \<open>main.rs\<close> with \<open>args.rs\<close>
    of \<open>cli/src\<close>; \<open>Bus_Console\<close> is composed with \<open>Fc_Bridge\<close>.  \<open>Telemetry\<close> is \<open>system-telemetry/src\<close>.
  \<^item> \<open>Ota\<close> and \<open>Health\<close> are \<open>commander/src/ota.rs\<close> and \<open>health.rs\<close>.

  \<^bold>\<open>What is shown.\<close>  Control: corrections are spaced by 100 ms and stop with an abort, for every
  adapter, through the bus loop and on the MAVLink wire; the abort is latched; each operation sends
  at most one command; the reachable states; exact expiry of the watchdogs.  Guards: accepted
  commands are within the limits, outputs of the PID controller too, what a safety report means.  Ring:
  no torn or stale frame is read in any interleaving, the sequential operations refine the history,
  and the operator's recovery can break this.  Tracking: the assignment of a frame is optimal, tracks
  are refreshed, aged and dropped as it says, limits hold.  Vision: suppression keeps what its
  specification says, the class scan is the first maximum, boxes lie in the frame, conversions are
  total on frames of the right size but for odd NV12, the integer colour arithmetic is within one of
  the float reference.  Detector: slots are released however an iteration ends, an event belongs to
  the next frame of the ring and events come in order, from the handshake on every tensor reaches the network
  of the bridge process, a late answer shifts all later ones.  Bridge: commands are executed at most once and in order, events report edges.
  Recorder: a picture is made of exactly one frame of the history, the first frame is recorded twice, in
  the mode \<open>Latest\<close> without a limit on the duration a stalled stream is never noticed; saved pictures keep their own files.  Scripts: every
  validated script runs to its end, an abort is final, an action that is not due blocks those after it.
  Cameras: every frame is a copy within a mapped buffer, frames come in order, a failed start leaks the
  device; a replay delivers the recorded bytes in order; what a failed segment leaves behind.  Consoles: the states
  the operator can reach, and what is typed on the bus reaches the controller in order and as meant.
  Figures: percentiles are samples and ordered.  Updates: at every crash point the old or the complete new binary is installed.

  \<^bold>\<open>Bounds.\<close>  The reader's acquisition loop runs at most \<open>ACQUIRE_SPINS\<close> rounds, as in the code, and the
  bus loop takes at most 32 tracks in a tick (\<open>track_budget\<close>).  The search of the Hungarian algorithm is
  a partial function, as NaN costs make the code loop; it is proved to end for finite costs on the
  grid of \<open>2 ^ -24\<close>, which the cost matrices of boxes within 3840 by 2160 pixels are (\<open>in_4k\<close>).  Results on
  pixel coordinates assume at most \<open>2 ^ 24\<close> pixels a side, where \<open>f32\<close> is exact.  Interleavings of the
  ring are sequentially consistent; weaker memory orders are not modelled.

  \<^bold>\<open>Not modelled.\<close>  The inside of system calls and of the file system, the transports (zenoh, serde, HTTP,
  MAVLink encoding), the parsers of JSON, TOML and command lines, network inference, the drawing of
  pixels, the encoder process, what is printed or logged, and the benchmarks under \<open>examples\<close>; memory
  orders weaker than sequential consistency; of the C++ bridge its answers and the code around the
  vendor's NPU library.
\<close>

end
